(* ===== verification/Prelude.thy ===== *)
theory Prelude
  imports Complex_Main "HOL-Library.Word" "HOL-Library.AList" "HOL-Library.Multiset"
begin

text \<open>
  What the component theories share.

  JavaScript strings are lists of UTF-16 code units (\<open>jsstr\<close>), so \<open>length\<close>, \<open>take\<close> and
  \<open>drop\<close> count what \<open>.length\<close> and \<open>.slice\<close> count.  \<open>js\<close> turns an ASCII literal into code
  units.  JavaScript \<open>Map\<close>s iterate in insertion order: they are association lists with
  distinct keys, with \<open>mput\<close> as \<open>Map.set\<close> (in place for a present key, appended
  otherwise) and \<open>mdel\<close> as \<open>Map.delete\<close>.  A \<open>Set\<close> is a list without duplicates.
  Six locales state the interfaces the components rely on: \<open>kv_store\<close>, the contract
  of a keyed store, interpreted on the maps; \<open>memo_table\<close>, the contract of a bounded table of computed
  results, interpreted on the caches of ids, bindings and routes; \<open>invariant_system\<close>, the induction principle
  for reachable states, interpreted by the service; \<open>guarded_delivery\<close> and its case
  \<open>ordered_delivery\<close>, the contract of a buffer that hands on what it accepted, in order and exactly
  once; and \<open>refinement\<close>, by which a machine answers as its specification does.
\<close>

named_theorems js_eval \<open>definitions that compute on literals\<close>
named_theorems step_defs \<open>the operations of a state machine, to unfold one step\<close>

section \<open>Strings of UTF-16 code units\<close>

type_synonym jschar = "16 word"
type_synonym jsstr = "jschar list"

definition js :: "string \<Rightarrow> jsstr" where
  [js_eval]: "js s = map of_char s"

text \<open>\<open>WhiteSpace\<close> and \<open>LineTerminator\<close> of ECMAScript: what \<open>trim\<close> and \<open>\s\<close> match.\<close>

definition is_space :: "jschar \<Rightarrow> bool" where
  "is_space c \<longleftrightarrow> (0x09 \<le> c \<and> c \<le> 0x0D) \<or> c = 0x20 \<or> c = 0xA0 \<or> c = 0x1680
     \<or> (0x2000 \<le> c \<and> c \<le> 0x200A) \<or> c = 0x2028 \<or> c = 0x2029 \<or> c = 0x202F \<or> c = 0x205F
     \<or> c = 0x3000 \<or> c = 0xFEFF"

definition trimStart :: "jsstr \<Rightarrow> jsstr" where
  "trimStart s = dropWhile is_space s"

definition trimEnd :: "jsstr \<Rightarrow> jsstr" where
  "trimEnd s = rev (dropWhile is_space (rev s))"

definition trim :: "jsstr \<Rightarrow> jsstr" where
  "trim s = trimEnd (trimStart s)"

definition blank :: "jsstr \<Rightarrow> bool" where
  "blank s \<longleftrightarrow> list_all is_space s"

lemma trim_Nil [simp]: "trim [] = []"
  by (simp add: trim_def trimStart_def trimEnd_def)

lemma trimEnd_Nil_iff: "trimEnd s = [] \<longleftrightarrow> blank s"
  by (simp add: trimEnd_def blank_def list_all_iff)

lemma trimStart_Nil_iff: "trimStart s = [] \<longleftrightarrow> blank s"
  by (simp add: trimStart_def blank_def list_all_iff)

lemma blank_dropWhile: "blank (dropWhile is_space s) \<longleftrightarrow> blank s"
  by (induction s) (auto simp: blank_def)

lemma trim_Nil_iff [simp]: "trim s = [] \<longleftrightarrow> blank s"
  by (simp add: trim_def trimEnd_Nil_iff trimStart_def blank_dropWhile)

lemma length_trimStart_le: "length (trimStart s) \<le> length s"
  by (simp add: trimStart_def length_dropWhile_le)

lemma length_trimEnd_le: "length (trimEnd s) \<le> length s"
  using length_dropWhile_le [of is_space "rev s"] by (simp add: trimEnd_def)

lemma length_trim_le: "length (trim s) \<le> length s"
  unfolding trim_def using length_trimEnd_le length_trimStart_le order_trans by blast

lemma trimStart_trim: "trimStart s = trim s @ rev (takeWhile is_space (rev (trimStart s)))"
  unfolding trim_def trimEnd_def
  by (metis rev_append rev_rev_ident takeWhile_dropWhile_id)

lemma trim_split: "\<exists>a b. s = a @ trim s @ b \<and> blank a \<and> blank b"
proof -
  let ?a = "takeWhile is_space s" and ?t = "trimStart s"
  let ?b = "rev (takeWhile is_space (rev ?t))"
  have s: "s = ?a @ ?t" by (simp add: trimStart_def)
  have t: "?t = trim s @ ?b" by (rule trimStart_trim)
  have "blank ?a" "blank ?b"
    by (auto simp: blank_def list_all_iff dest: set_takeWhileD)
  moreover have "s = ?a @ trim s @ ?b" using s t by metis
  ultimately show ?thesis by blast
qed

lemma trim_no_leading: "trim s = c # r \<Longrightarrow> \<not> is_space c"
proof
  assume t: "trim s = c # r" and c: "is_space c"
  have "\<exists>x. trimStart s = trim s @ x" using trimStart_trim by blast
  with t obtain x where "dropWhile is_space s = c # x" by (auto simp: trimStart_def)
  then show False using c by (metis hd_dropWhile list.discI list.sel(1))
qed

lemma trim_no_trailing: "trim s = r @ [c] \<Longrightarrow> \<not> is_space c"
  unfolding trim_def trimEnd_def
  by (metis hd_dropWhile hd_rev last_snoc rev_is_Nil_conv rev_rev_ident snoc_eq_iff_butlast)

lemma trimStart_id: "(s = [] \<or> \<not> is_space (hd s)) \<Longrightarrow> trimStart s = s"
  by (cases s) (auto simp: trimStart_def)

lemma trimEnd_id: "(s = [] \<or> \<not> is_space (last s)) \<Longrightarrow> trimEnd s = s"
  by (cases s rule: rev_cases) (auto simp: trimEnd_def)

lemma trim_id: "(s = [] \<or> (\<not> is_space (hd s) \<and> \<not> is_space (last s))) \<Longrightarrow> trim s = s"
  by (auto simp: trim_def trimStart_id trimEnd_id)

lemma trim_idem [simp]: "trim (trim s) = trim s"
proof (rule trim_id)
  show "trim s = [] \<or> \<not> is_space (hd (trim s)) \<and> \<not> is_space (last (trim s))"
  proof (cases "trim s = []")
    case False
    then have "trim s = hd (trim s) # tl (trim s)" "trim s = butlast (trim s) @ [last (trim s)]"
      by simp_all
    then show ?thesis by (metis trim_no_leading trim_no_trailing)
  qed simp
qed

definition starts_with :: "jsstr \<Rightarrow> jsstr \<Rightarrow> bool" where
  [js_eval]: "starts_with s t \<longleftrightarrow> take (length t) s = t"

fun str_includes :: "jsstr \<Rightarrow> jsstr \<Rightarrow> bool" where
  "str_includes [] t \<longleftrightarrow> t = []"
| "str_includes (c # s) t \<longleftrightarrow> starts_with (c # s) t \<or> str_includes s t"

text \<open>\<open>slice(0, n)\<close> is \<open>take n\<close>; \<open>slice(-n)\<close> for \<open>n > 0\<close> keeps the last \<open>n\<close> units.\<close>

definition take_last :: "nat \<Rightarrow> 'a list \<Rightarrow> 'a list" where
  "take_last n xs = drop (length xs - n) xs"

lemma length_take_last [simp]: "length (take_last n xs) = min n (length xs)"
  by (simp add: take_last_def)

lemma set_take_last: "set (take_last n xs) \<subseteq> set xs"
  by (simp add: take_last_def set_drop_subset)

lemma distinct_take_last: "distinct xs \<Longrightarrow> distinct (take_last n xs)"
  by (simp add: take_last_def)

lemma take_last_all [simp]: "length xs \<le> n \<Longrightarrow> take_last n xs = xs"
  by (simp add: take_last_def)

fun split_on :: "jschar \<Rightarrow> jsstr \<Rightarrow> jsstr list" where
  "split_on d [] = [[]]"
| "split_on d (c # s) =
     (if c = d then [] # split_on d s
      else (case split_on d s of [] \<Rightarrow> [[c]] | x # xs \<Rightarrow> (c # x) # xs))"

fun join :: "jsstr \<Rightarrow> jsstr list \<Rightarrow> jsstr" where
  "join sep [] = []"
| "join sep [x] = x"
| "join sep (x # y # ys) = x @ sep @ join sep (y # ys)"

lemma split_on_nonempty [simp]: "split_on d s \<noteq> []"
  by (cases s) (auto split: list.splits)

lemma join_Cons: "ys \<noteq> [] \<Longrightarrow> join sep (y # ys) = y @ sep @ join sep ys"
  by (cases ys) auto

lemma join_split_on: "join [d] (split_on d s) = s"
proof (induction s)
  case (Cons c s)
  obtain x xs where sp: "split_on d s = x # xs" by (cases "split_on d s") auto
  then show ?case using Cons by (cases xs) (auto simp: join_Cons)
qed simp

lemma split_on_no_sep: "l \<in> set (split_on d s) \<Longrightarrow> d \<notin> set l"
proof (induction s arbitrary: l)
  case (Cons c s)
  obtain x xs where sp: "split_on d s = x # xs" by (cases "split_on d s") auto
  with Cons show ?case by (auto split: if_splits)
qed simp

lemma split_on_append: "split_on d (pre @ d # suf) = split_on d pre @ split_on d suf"
proof (induction pre)
  case (Cons c pre)
  obtain x xs where "split_on d pre = x # xs" by (cases "split_on d pre") auto
  then show ?case using Cons by simp
qed simp

lemma split_on_plain: "d \<notin> set a \<Longrightarrow> split_on d a = [a]"
  by (induction a) auto

lemma length_join: "length (join sep xs) = sum_list (map length xs) + (length xs - 1) * length sep"
  by (induction sep xs rule: join.induct) (auto simp: algebra_simps)

text \<open>\<open>toLowerCase\<close> on the ASCII and Latin-1 letters.  The source only compares lowered
  strings with words whose letters no other code unit lowers to.\<close>

definition lower_char :: "jschar \<Rightarrow> jschar" where
  "lower_char c = (if (0x41 \<le> c \<and> c \<le> 0x5A) \<or> (0xC0 \<le> c \<and> c \<le> 0xDE \<and> c \<noteq> 0xD7) then c + 32 else c)"

definition toLowerCase :: "jsstr \<Rightarrow> jsstr" where
  "toLowerCase s = map lower_char s"

text \<open>Decimal digits of a natural number: \<open>String(n)\<close> for an integer below \<open>10 ^ 21\<close>.\<close>

fun nat_str :: "nat \<Rightarrow> jsstr" where
  "nat_str n = (if n < 10 then [0x30 + of_nat n] else nat_str (n div 10) @ [0x30 + of_nat (n mod 10)])"

declare nat_str.simps [simp del]

lemma nat_str_nonempty [simp]: "nat_str n \<noteq> []"
  by (subst nat_str.simps) simp

definition int_str :: "int \<Rightarrow> jsstr" where
  "int_str i = (if i < 0 then [0x2D] @ nat_str (nat (- i)) else nat_str (nat i))"


section \<open>Maps and sets in insertion order\<close>

type_synonym ('k, 'v) jsmap = "('k \<times> 'v) list"

definition mget :: "('k, 'v) jsmap \<Rightarrow> 'k \<Rightarrow> 'v option" where
  [js_eval]: "mget m k = map_of m k"

definition mput :: "('k, 'v) jsmap \<Rightarrow> 'k \<Rightarrow> 'v \<Rightarrow> ('k, 'v) jsmap" where
  [js_eval]: "mput m k v = AList.update k v m"

definition mdel :: "('k, 'v) jsmap \<Rightarrow> 'k \<Rightarrow> ('k, 'v) jsmap" where
  [js_eval]: "mdel m k = filter (\<lambda>p. fst p \<noteq> k) m"

abbreviation mkeys :: "('k, 'v) jsmap \<Rightarrow> 'k list" where
  "mkeys m \<equiv> map fst m"

definition mhas :: "('k, 'v) jsmap \<Rightarrow> 'k \<Rightarrow> bool" where
  [js_eval]: "mhas m k \<longleftrightarrow> k \<in> set (mkeys m)"

definition sadd :: "'a list \<Rightarrow> 'a \<Rightarrow> 'a list" where
  [js_eval]: "sadd s x = (if x \<in> set s then s else s @ [x])"

definition sdel :: "'a list \<Rightarrow> 'a \<Rightarrow> 'a list" where
  [js_eval]: "sdel s x = filter (\<lambda>y. y \<noteq> x) s"

text \<open>The contract of a keyed store: what a lookup returns after each operation.\<close>

locale kv_store =
  fixes empty :: "'s"
    and get :: "'s \<Rightarrow> 'k \<Rightarrow> 'v option"
    and put :: "'s \<Rightarrow> 'k \<Rightarrow> 'v \<Rightarrow> 's"
    and del :: "'s \<Rightarrow> 'k \<Rightarrow> 's"
  assumes get_empty: "get empty k = None"
    and get_put: "get (put m k v) k' = (if k' = k then Some v else get m k')"
    and get_del: "get (del m k) k' = (if k' = k then None else get m k')"
begin

lemma get_put_same: "get (put m k v) k = Some v"
  by (simp add: get_put)

lemma get_put_other: "k' \<noteq> k \<Longrightarrow> get (put m k v) k' = get m k'"
  by (simp add: get_put)

lemma get_put_put: "get (put (put m k v) k w) = get (put m k w)"
  by (simp add: fun_eq_iff get_put)

lemma get_del_put: "get (del (put m k v) k) = get (del m k)"
  by (simp add: fun_eq_iff get_put get_del)

lemma get_del_commute: "get (del (del m k) k') = get (del (del m k') k)"
  by (simp add: fun_eq_iff get_del)

lemma get_put_commute: "k \<noteq> k' \<Longrightarrow> get (put (put m k v) k' w) = get (put (put m k' w) k v)"
  by (auto simp: fun_eq_iff get_put)

end

lemma map_of_mdel: "map_of (filter (\<lambda>p. fst p \<noteq> k) m) k' = (if k' = k then None else map_of m k')"
  by (induction m) auto

interpretation jm: kv_store "[]" mget mput mdel
  by unfold_locales (auto simp: mget_def mput_def mdel_def update_conv' map_of_mdel)

lemmas mget_simps [simp] = jm.get_empty jm.get_put jm.get_del

lemma mhas_mget: "mhas m k \<longleftrightarrow> mget m k \<noteq> None"
  by (simp add: mhas_def mget_def map_of_eq_None_iff)

lemma mget_None_iff: "mget m k = None \<longleftrightarrow> k \<notin> set (mkeys m)"
  by (simp add: mget_def map_of_eq_None_iff)

lemma mhas_mput [simp]: "mhas (mput m k v) k' \<longleftrightarrow> k' = k \<or> mhas m k'"
  by (auto simp: mhas_mget)

lemma mhas_mdel [simp]: "mhas (mdel m k) k' \<longleftrightarrow> k' \<noteq> k \<and> mhas m k'"
  by (auto simp: mhas_mget)

lemma mhas_Nil [simp]: "\<not> mhas [] k"
  by (simp add: mhas_def)

lemma set_mkeys_mput [simp]: "set (mkeys (mput m k v)) = insert k (set (mkeys m))"
  by (auto simp: mput_def dom_update)

lemma set_mkeys_mdel [simp]: "set (mkeys (mdel m k)) = set (mkeys m) - {k}"
  by (auto simp: mdel_def)

lemma distinct_mput [simp]: "distinct (mkeys m) \<Longrightarrow> distinct (mkeys (mput m k v))"
  by (simp add: mput_def distinct_update)

lemma distinct_mdel [simp]: "distinct (mkeys m) \<Longrightarrow> distinct (mkeys (mdel m k))"
  by (induction m) (auto simp: mdel_def)

lemma mget_in_set: "mget m k = Some v \<Longrightarrow> (k, v) \<in> set m"
  by (simp add: mget_def map_of_SomeD)

lemma in_set_mget: "distinct (mkeys m) \<Longrightarrow> (k, v) \<in> set m \<Longrightarrow> mget m k = Some v"
  by (simp add: mget_def)

lemma mkeys_mput_present: "mhas m k \<Longrightarrow> mkeys (mput m k v) = mkeys m"
  by (induction m) (auto simp: mhas_def mput_def)

lemma mput_absent: "\<not> mhas m k \<Longrightarrow> mput m k v = m @ [(k, v)]"
  by (induction m) (auto simp: mhas_def mput_def)

lemma mdel_absent: "\<not> mhas m k \<Longrightarrow> mdel m k = m"
  by (induction m) (auto simp: mhas_def mdel_def)

lemma length_mdel_le: "length (mdel m k) \<le> length m"
  by (simp add: mdel_def)

lemma set_sadd [simp]: "set (sadd s x) = insert x (set s)"
  by (auto simp: sadd_def)

lemma set_sdel [simp]: "set (sdel s x) = set s - {x}"
  by (auto simp: sdel_def)

lemma distinct_sadd [simp]: "distinct s \<Longrightarrow> distinct (sadd s x)"
  by (simp add: sadd_def)

lemma distinct_sdel [simp]: "distinct s \<Longrightarrow> distinct (sdel s x)"
  by (simp add: sdel_def)

text \<open>Filtering a map by a predicate on its entries, as a loop that deletes during iteration does.\<close>

lemma mget_filter:
  "distinct (mkeys m) \<Longrightarrow>
   mget (filter P m) k = (case mget m k of Some v \<Rightarrow> if P (k, v) then Some v else None | None \<Rightarrow> None)"
proof (induction m)
  case (Cons a m)
  then show ?case
    by (cases a) (auto simp: mget_def map_of_eq_None_iff split: option.splits)
qed simp

lemma mkeys_filter_subset: "set (mkeys (filter P m)) \<subseteq> set (mkeys m)"
  by auto

lemma distinct_mkeys_filter [simp]: "distinct (mkeys m) \<Longrightarrow> distinct (mkeys (filter P m))"
  by (induction m) auto

section \<open>Memo tables\<close>

text \<open>
  A table of results of bounded size: whatever an insertion forgets, it invents nothing.  So every entry
  found is a result that was computed, and a memoised function answers as the function.
\<close>

definition memo_ok :: "nat \<Rightarrow> ('k \<Rightarrow> 'v \<Rightarrow> bool) \<Rightarrow> ('k, 'v) jsmap \<Rightarrow> bool" where
  "memo_ok cap P m \<longleftrightarrow> length m \<le> cap \<and> list_all (\<lambda>(k, v). P k v) m"

lemma memo_empty [simp]: "memo_ok cap P []"
  by (simp add: memo_ok_def)

lemma memo_hit: "memo_ok cap P m \<Longrightarrow> mget m k = Some v \<Longrightarrow> P k v"
  using mget_in_set [of m k v] by (auto simp: memo_ok_def list_all_iff)

lemma set_mput_subset: "set (mput m k v) \<subseteq> insert (k, v) (set m)"
  by (induction m) (auto simp: mput_def)

lemma length_mput_le: "length (mput m k v) \<le> Suc (length m)"
  by (induction m) (auto simp: mput_def)

locale memo_table =
  fixes put :: "('k, 'v) jsmap \<Rightarrow> 'k \<Rightarrow> 'v \<Rightarrow> ('k, 'v) jsmap"
    and cap :: nat
  assumes put_entries: "set (put m k v) \<subseteq> insert (k, v) (set m)"
    and put_size: "length m \<le> cap \<Longrightarrow> length (put m k v) \<le> cap"
begin

lemma memo_put: "memo_ok cap P m \<Longrightarrow> P k v \<Longrightarrow> memo_ok cap P (put m k v)"
  using put_entries [of m k v] put_size [of m k v] by (auto simp: memo_ok_def list_all_iff)

end

section \<open>Reachable states\<close>

inductive reach :: "('s \<Rightarrow> bool) \<Rightarrow> ('s \<Rightarrow> 's \<Rightarrow> bool) \<Rightarrow> 's \<Rightarrow> bool" for init step where
  reach_init: "init s \<Longrightarrow> reach init step s"
| reach_step: "reach init step s \<Longrightarrow> step s t \<Longrightarrow> reach init step t"

locale invariant_system =
  fixes init :: "'s \<Rightarrow> bool"
    and step :: "'s \<Rightarrow> 's \<Rightarrow> bool"
    and inv :: "'s \<Rightarrow> bool"
  assumes inv_init: "init s \<Longrightarrow> inv s"
    and inv_step: "inv s \<Longrightarrow> step s t \<Longrightarrow> inv t"
begin

lemma reach_inv: "reach init step s \<Longrightarrow> inv s"
  by (induction rule: reach.induct) (auto intro: inv_init inv_step)

lemma steps_inv: "step\<^sup>*\<^sup>* s t \<Longrightarrow> inv s \<Longrightarrow> inv t"
  by (induction rule: rtranclp_induct) (auto intro: inv_step)

end

lemma reach_steps: "reach init step s \<Longrightarrow> step\<^sup>*\<^sup>* s t \<Longrightarrow> reach init step t"
  by (rotate_tac 1) (induction rule: rtranclp_induct; auto intro: reach_step)

section \<open>Buffers that deliver in order\<close>

text \<open>Running a list of operations, collecting what each one emits.\<close>

fun run_ops :: "('s \<Rightarrow> 'o \<Rightarrow> 's \<times> 'e list) \<Rightarrow> 's \<Rightarrow> 'o list \<Rightarrow> 's \<times> 'e list" where
  "run_ops step s [] = (s, [])"
| "run_ops step s (a # as) =
    (let (s1, e1) = step s a; (s2, e2) = run_ops step s1 as in (s2, e1 @ e2))"

lemma run_ops_append:
  "run_ops step s (xs @ ys) =
    (let (s1, e1) = run_ops step s xs; (s2, e2) = run_ops step s1 ys in (s2, e1 @ e2))"
  by (induction xs arbitrary: s) (auto simp: case_prod_beta Let_def)

text \<open>What the operations of a run bring in for a key, each in the state it finds.\<close>

fun run_admitted :: "('s \<Rightarrow> 'o \<Rightarrow> 's \<times> 'e list) \<Rightarrow> ('s \<Rightarrow> 'o \<Rightarrow> 'k \<Rightarrow> 'i list) \<Rightarrow> 's \<Rightarrow> 'o list \<Rightarrow> 'k \<Rightarrow> 'i list" where
  "run_admitted step admitted s [] k = []"
| "run_admitted step admitted s (a # as) k = admitted s a k @ run_admitted step admitted (fst (step s a)) as k"

lemma run_admitted_const:
  "run_admitted step (\<lambda>s. pushed) s as k = concat (map (\<lambda>a. pushed a k) as)"
  by (induction as arbitrary: s) simp_all

text \<open>
  A keyed buffer: what an operation emits for a key, followed by what stays buffered, is what
  was buffered followed by what the operation brought in.  Nothing is lost, doubled or reordered.
  In \<open>guarded_delivery\<close> the state decides what an operation brings in (it may refuse);
  \<open>ordered_delivery\<close> is the case in which everything is taken.
\<close>

locale guarded_delivery =
  fixes step :: "'s \<Rightarrow> 'o \<Rightarrow> 's \<times> 'e list"
    and admitted :: "'s \<Rightarrow> 'o \<Rightarrow> 'k \<Rightarrow> 'i list"
    and contents :: "'s \<Rightarrow> 'k \<Rightarrow> 'i list"
    and delivered :: "'e list \<Rightarrow> 'k \<Rightarrow> 'i list"
    and ok :: "'s \<Rightarrow> bool"
  assumes delivered_Nil: "delivered [] k = []"
    and delivered_append: "delivered (es @ es') k = delivered es k @ delivered es' k"
    and step_ok: "ok s \<Longrightarrow> ok (fst (step s a))"
    and conserve: "ok s \<Longrightarrow>
      delivered (snd (step s a)) k @ contents (fst (step s a)) k = contents s k @ admitted s a k"
begin

lemma run_ok: "ok s \<Longrightarrow> ok (fst (run_ops step s as))"
  by (induction as arbitrary: s) (auto simp: case_prod_beta Let_def step_ok)

lemma run_conserve:
  "ok s \<Longrightarrow> delivered (snd (run_ops step s as)) k @ contents (fst (run_ops step s as)) k
     = contents s k @ run_admitted step admitted s as k"
proof (induction as arbitrary: s)
  case (Cons a as)
  have "delivered (snd (run_ops step (fst (step s a)) as)) k @ contents (fst (run_ops step (fst (step s a)) as)) k
    = contents (fst (step s a)) k @ run_admitted step admitted (fst (step s a)) as k"
    using Cons by (simp add: step_ok)
  then show ?case
    using conserve [OF Cons.prems, of a k]
    by (simp add: case_prod_beta Let_def delivered_append)
qed (simp add: delivered_Nil)

end

locale ordered_delivery =
  fixes step :: "'s \<Rightarrow> 'o \<Rightarrow> 's \<times> 'e list"
    and pushed :: "'o \<Rightarrow> 'k \<Rightarrow> 'i list"
    and contents :: "'s \<Rightarrow> 'k \<Rightarrow> 'i list"
    and delivered :: "'e list \<Rightarrow> 'k \<Rightarrow> 'i list"
    and ok :: "'s \<Rightarrow> bool"
  assumes delivered_Nil: "delivered [] k = []"
    and delivered_append: "delivered (es @ es') k = delivered es k @ delivered es' k"
    and step_ok: "ok s \<Longrightarrow> ok (fst (step s a))"
    and conserve: "ok s \<Longrightarrow>
      delivered (snd (step s a)) k @ contents (fst (step s a)) k = contents s k @ pushed a k"

sublocale ordered_delivery < guarded: guarded_delivery step "\<lambda>s. pushed" contents delivered ok
  by unfold_locales (auto simp: delivered_Nil delivered_append step_ok conserve)

context ordered_delivery
begin

lemmas run_ok = guarded.run_ok
lemmas run_conserve = guarded.run_conserve [unfolded run_admitted_const]

end

section \<open>Refinement\<close>

text \<open>A run all of whose operations are legal in the abstract state they find.\<close>

fun legal_run :: "('a \<Rightarrow> 'o \<Rightarrow> 'a \<times> 'e list) \<Rightarrow> ('a \<Rightarrow> 'o \<Rightarrow> bool) \<Rightarrow> 'a \<Rightarrow> 'o list \<Rightarrow> bool" where
  "legal_run step legal s [] = True"
| "legal_run step legal s (a # as) = (legal s a \<and> legal_run step legal (fst (step s a)) as)"

text \<open>A concrete machine refines an abstract one when related states answer every legal operation alike.\<close>

locale refinement =
  fixes cstep :: "'s \<Rightarrow> 'o \<Rightarrow> 's \<times> 'e list"
    and astep :: "'a \<Rightarrow> 'o \<Rightarrow> 'a \<times> 'e list"
    and rel :: "'s \<Rightarrow> 'a \<Rightarrow> bool"
    and legal :: "'a \<Rightarrow> 'o \<Rightarrow> bool"
  assumes simulates: "rel s a \<Longrightarrow> legal a b \<Longrightarrow>
      snd (cstep s b) = snd (astep a b) \<and> rel (fst (cstep s b)) (fst (astep a b))"
begin

lemma run_refines:
  "rel s a \<Longrightarrow> legal_run astep legal a bs \<Longrightarrow>
   snd (run_ops cstep s bs) = snd (run_ops astep a bs) \<and> rel (fst (run_ops cstep s bs)) (fst (run_ops astep a bs))"
proof (induction bs arbitrary: s a)
  case (Cons b bs)
  then have "snd (cstep s b) = snd (astep a b)" "rel (fst (cstep s b)) (fst (astep a b))"
    using simulates [of s a b] by simp_all
  then show ?case using Cons.IH [of "fst (cstep s b)" "fst (astep a b)"] Cons.prems(2)
    by (simp add: case_prod_beta Let_def)
qed simp

end

text \<open>A specification without state answers each operation by itself.\<close>

lemma legal_run_True: "legal_run step (\<lambda>u c. True) s as"
  by (induction as arbitrary: s) simp_all

lemma run_ops_answers: "snd (run_ops (\<lambda>u c. (u, [f c])) s as) = map f as"
  by (induction as arbitrary: s) (simp_all add: case_prod_beta Let_def)

section \<open>Rational arithmetic on literals\<close>

lemma floor_rat_div [simp]: "\<lfloor>numeral a / numeral b :: rat\<rfloor> = numeral a div numeral b"
  using floor_divide_of_int_eq [of "numeral a" "numeral b", where 'a = rat] by simp

lemma floor_rat_one_div [simp]: "\<lfloor>1 / numeral b :: rat\<rfloor> = 1 div numeral b"
  using floor_divide_of_int_eq [of 1 "numeral b", where 'a = rat] by simp

end
