(* ===== verification/JsValue.thy ===== *)
theory JsValue
  imports Prelude
begin

text \<open>
  Values of unknown type, as \<open>JSON.parse\<close>, \<open>JSON5.parse\<close> and the Feishu event stream
  deliver them, and the defensive readers at the top of \<open>src/src/feishu-service.ts\<close>
  (\<open>isRecord\<close>, \<open>readString\<close>, \<open>readStringArray\<close>, \<open>readPositiveInteger\<close>, \<open>readBoolean\<close>).
  A JavaScript number is a rational or one of the three special values; literals are
  not rounded to the nearest double.  \<open>VUndef\<close> is the value of a missing property.
\<close>

section \<open>Values\<close>

datatype jsnum = Fin rat | NaN | PosInf | NegInf

datatype jsval =
  VUndef
| VNull
| VBool bool
| VNum jsnum
| VStr jsstr
| VArr "jsval list"
| VObj "(jsstr \<times> jsval) list"

text \<open>\<open>value?.key\<close> on an unknown value.\<close>

definition field :: "jsval \<Rightarrow> string \<Rightarrow> jsval" where
  [js_eval]: "field v k = (case v of
     VObj fs \<Rightarrow> (case map_of fs (js k) of Some x \<Rightarrow> x | None \<Rightarrow> VUndef)
   | _ \<Rightarrow> VUndef)"

definition fieldOf :: "jsval \<Rightarrow> jsstr \<Rightarrow> jsval" where
  [js_eval]: "fieldOf v k = (case v of
     VObj fs \<Rightarrow> (case map_of fs k of Some x \<Rightarrow> x | None \<Rightarrow> VUndef)
   | _ \<Rightarrow> VUndef)"

fun truthy :: "jsval \<Rightarrow> bool" where
  "truthy VUndef = False"
| "truthy VNull = False"
| "truthy (VBool b) = b"
| "truthy (VNum n) = (n \<noteq> Fin 0 \<and> n \<noteq> NaN)"
| "truthy (VStr s) = (s \<noteq> [])"
| "truthy (VArr xs) = True"
| "truthy (VObj fs) = True"

text \<open>\<open>a ?? b\<close>.\<close>

definition coalesce :: "jsval \<Rightarrow> jsval \<Rightarrow> jsval" where
  [js_eval]: "coalesce a b = (if a = VUndef \<or> a = VNull then b else a)"

definition orElse :: "'a option \<Rightarrow> 'a option \<Rightarrow> 'a option" where
  [js_eval]: "orElse a b = (case a of None \<Rightarrow> b | Some x \<Rightarrow> Some x)"

text \<open>\<open>{...a, ...b}\<close>: the properties of \<open>b\<close> override those of \<open>a\<close>.\<close>

definition spread :: "jsval \<Rightarrow> jsval \<Rightarrow> jsval" where
  "spread a b = (let fields = (\<lambda>v. case v of VObj fs \<Rightarrow> fs | _ \<Rightarrow> []) in
     VObj (foldl (\<lambda>m (k, v). mput m k v) (fields a) (fields b)))"

section \<open>Numbers\<close>

definition is_digit :: "jschar \<Rightarrow> bool" where
  [js_eval]: "is_digit c \<longleftrightarrow> 0x30 \<le> c \<and> c \<le> 0x39"

definition digits_val :: "jsstr \<Rightarrow> nat" where
  "digits_val s = foldl (\<lambda>n c. 10 * n + unat (c - 0x30)) 0 s"

text \<open>\<open>StrUnsignedDecimalLiteral\<close>: digits, an optional fraction, an optional exponent.\<close>

definition exponent_part :: "jsstr \<Rightarrow> rat option" where
  "exponent_part r = (case r of [] \<Rightarrow> Some 1
     | c # r' \<Rightarrow>
        (if c = 0x65 \<or> c = 0x45 then
           (let (neg, ds) = (case r' of
                 [] \<Rightarrow> (False, [])
               | d # r'' \<Rightarrow> if d = 0x2D then (True, r'') else if d = 0x2B then (False, r'') else (False, r'))
            in if ds \<noteq> [] \<and> list_all is_digit ds
               then Some (if neg then 1 / 10 ^ digits_val ds else 10 ^ digits_val ds)
               else None)
         else None))"

definition unsigned_decimal :: "jsstr \<Rightarrow> jsnum" where
  "unsigned_decimal s =
    (let ip = takeWhile is_digit s;
         r1 = dropWhile is_digit s;
         (fp, r2) = (case r1 of
             [] \<Rightarrow> ([], [])
           | c # r \<Rightarrow> if c = 0x2E then (takeWhile is_digit r, dropWhile is_digit r) else ([], r1))
     in if ip = [] \<and> fp = [] then NaN
        else (case exponent_part r2 of
            None \<Rightarrow> NaN
          | Some e \<Rightarrow> Fin ((of_nat (digits_val ip) + of_nat (digits_val fp) / 10 ^ length fp) * e)))"

definition num_neg :: "jsnum \<Rightarrow> jsnum" where
  "num_neg n = (case n of Fin q \<Rightarrow> Fin (- q) | NaN \<Rightarrow> NaN | PosInf \<Rightarrow> NegInf | NegInf \<Rightarrow> PosInf)"

definition radix_digit :: "jschar \<Rightarrow> nat option" where
  "radix_digit c = (if is_digit c then Some (unat (c - 0x30))
     else if 0x61 \<le> c \<and> c \<le> 0x66 then Some (unat (c - 0x57))
     else if 0x41 \<le> c \<and> c \<le> 0x46 then Some (unat (c - 0x37)) else None)"

definition radix_literal :: "nat \<Rightarrow> jsstr \<Rightarrow> jsnum" where
  "radix_literal b s =
    (if s \<noteq> [] \<and> list_all (\<lambda>c. case radix_digit c of Some d \<Rightarrow> d < b | None \<Rightarrow> False) s
     then Fin (of_nat (foldl (\<lambda>n c. b * n + (case radix_digit c of Some d \<Rightarrow> d | None \<Rightarrow> 0)) 0 s))
     else NaN)"

text \<open>\<open>Number(s)\<close> for a string \<open>s\<close>.\<close>

definition Number :: "jsstr \<Rightarrow> jsnum" where
  "Number str = (let s = trim str;
      dec = (\<lambda>u. if u = js ''Infinity'' then PosInf else unsigned_decimal u) in
    (case s of
       [] \<Rightarrow> Fin 0
     | c # r \<Rightarrow>
        if c = 0x2D then num_neg (dec r)
        else if c = 0x2B then dec r
        else if c = 0x30 \<and> r \<noteq> [] \<and> hd r \<in> {0x78, 0x58} then radix_literal 16 (tl r)
        else if c = 0x30 \<and> r \<noteq> [] \<and> hd r \<in> {0x6F, 0x4F} then radix_literal 8 (tl r)
        else if c = 0x30 \<and> r \<noteq> [] \<and> hd r \<in> {0x62, 0x42} then radix_literal 2 (tl r)
        else dec s))"

text \<open>\<open>String(n)\<close>: exact for integers; a fraction prints its decimal expansion, cut after 17 digits.\<close>

fun frac_digits :: "nat \<Rightarrow> rat \<Rightarrow> jsstr" where
  "frac_digits 0 q = []"
| "frac_digits (Suc n) q =
     (if q = 0 then [] else [0x30 + of_int \<lfloor>10 * q\<rfloor>] @ frac_digits n (10 * q - of_int \<lfloor>10 * q\<rfloor>))"

definition num_str :: "jsnum \<Rightarrow> jsstr" where
  "num_str n = (case n of
     NaN \<Rightarrow> js ''NaN'' | PosInf \<Rightarrow> js ''Infinity'' | NegInf \<Rightarrow> js ''-Infinity''
   | Fin q \<Rightarrow> (if of_int \<lfloor>q\<rfloor> = q then int_str \<lfloor>q\<rfloor>
       else (if q < 0 then [0x2D] else []) @ nat_str (nat \<lfloor>\<bar>q\<bar>\<rfloor>) @ [0x2E]
            @ frac_digits 17 (\<bar>q\<bar> - of_int \<lfloor>\<bar>q\<bar>\<rfloor>)))"

section \<open>The defensive readers\<close>

definition isRecord :: "jsval \<Rightarrow> bool" where
  [js_eval]: "isRecord v = (case v of VObj _ \<Rightarrow> True | _ \<Rightarrow> False)"

definition readString :: "jsval \<Rightarrow> jsstr option" where
  [js_eval]: "readString v = (case v of
     VStr s \<Rightarrow> (if trim s \<noteq> [] then Some (trim s) else None) | _ \<Rightarrow> None)"

definition readStringArray :: "jsval \<Rightarrow> jsstr list" where
  "readStringArray v = (case v of
     VArr xs \<Rightarrow> filter (\<lambda>s. s \<noteq> [])
       (map (\<lambda>x. case x of VStr s \<Rightarrow> trim s | VNum n \<Rightarrow> trim (num_str n) | _ \<Rightarrow> []) xs)
   | _ \<Rightarrow> [])"

definition readPositiveInteger :: "jsval \<Rightarrow> int option" where
  "readPositiveInteger v =
    (let number = (case v of VNum n \<Rightarrow> n | VStr s \<Rightarrow> Number (trim s) | _ \<Rightarrow> NaN) in
     (case number of Fin q \<Rightarrow> (if q \<le> 0 then None else Some \<lfloor>q\<rfloor>) | _ \<Rightarrow> None))"

definition readBoolean :: "jsval \<Rightarrow> bool option" where
  "readBoolean v = (case v of
     VBool b \<Rightarrow> Some b
   | VStr s \<Rightarrow> (let normalized = toLowerCase (trim s) in
       if normalized \<in> {js ''1'', js ''true'', js ''yes'', js ''on''} then Some True
       else if normalized \<in> {js ''0'', js ''false'', js ''no'', js ''off''} then Some False
       else None)
   | _ \<Rightarrow> None)"

lemma readString_Some: "readString v = Some s \<Longrightarrow> s \<noteq> [] \<and> trim s = s"
  by (auto simp: readString_def split: jsval.splits if_splits)

lemma readString_blank [simp]: "blank s \<Longrightarrow> readString (VStr s) = None"
  by (simp add: readString_def)

lemma readStringArray_nonempty: "s \<in> set (readStringArray v) \<Longrightarrow> s \<noteq> [] \<and> trim s = s"
  by (auto simp: readStringArray_def split: jsval.splits)

lemma readPositiveInteger_nonneg: "readPositiveInteger v = Some n \<Longrightarrow> 0 \<le> n"
  by (auto simp: readPositiveInteger_def Let_def split: jsval.splits jsnum.splits if_splits)

end
