(* ===== verification/Json.thy ===== *)
theory Json
  imports JsValue
begin

text \<open>
  \<open>JSON.parse\<close> and \<open>JSON.stringify\<close> of the JavaScript standard library, as far as the
  service uses them: message contents, model replies, tool arguments, database columns and
  the state files all pass through them.  \<open>json_parse\<close> is a recursive-descent parser
  whose fuel is twice the length of its input plus one; \<open>json_fuel_enough\<close> shows that more
  fuel changes nothing, so \<open>None\<close> is always a thrown \<open>SyntaxError\<close>.  \<open>json_stringify gap\<close> prints with
  the given indentation unit (\<open>[]\<close> for the compact form).  The theory ends with the round
  trip: parsing what was printed returns the value (\<open>json_round_trip\<close>).
\<close>

section \<open>Strings\<close>

definition hex_val :: "jschar \<Rightarrow> jschar option" where
  "hex_val c = (if 0x30 \<le> c \<and> c \<le> 0x39 then Some (c - 0x30)
     else if 0x61 \<le> c \<and> c \<le> 0x66 then Some (c - 0x57)
     else if 0x41 \<le> c \<and> c \<le> 0x46 then Some (c - 0x37) else None)"

definition hex4 :: "jschar \<Rightarrow> jschar \<Rightarrow> jschar \<Rightarrow> jschar \<Rightarrow> jschar option" where
  "hex4 a b c d = (case (hex_val a, hex_val b, hex_val c, hex_val d) of
      (Some w, Some x, Some y, Some z) \<Rightarrow> Some (0x1000 * w + 0x100 * x + 0x10 * y + z)
    | _ \<Rightarrow> None)"

definition unescape :: "jschar \<Rightarrow> jschar option" where
  "unescape e = (if e = 0x22 \<or> e = 0x5C \<or> e = 0x2F then Some e
     else if e = 0x62 then Some 0x08 else if e = 0x66 then Some 0x0C
     else if e = 0x6E then Some 0x0A else if e = 0x72 then Some 0x0D
     else if e = 0x74 then Some 0x09 else None)"

definition consStr :: "jschar \<Rightarrow> (jsstr \<times> 'a) option \<Rightarrow> (jsstr \<times> 'a) option" where
  "consStr c r = map_option (\<lambda>(s, rest). (c # s, rest)) r"

text \<open>The rest of a string literal, after its opening quote.\<close>

fun parse_string :: "jsstr \<Rightarrow> (jsstr \<times> jsstr) option" where
  "parse_string [] = None"
| "parse_string (c # r) =
    (if c = 0x22 then Some ([], r)
     else if c = 0x5C then
       (case r of
          [] \<Rightarrow> None
        | e # r' \<Rightarrow>
           (if e = 0x75 then
              (case r' of
                 h1 # h2 # h3 # h4 # r'' \<Rightarrow>
                   (case hex4 h1 h2 h3 h4 of None \<Rightarrow> None | Some x \<Rightarrow> consStr x (parse_string r''))
               | _ \<Rightarrow> None)
            else (case unescape e of None \<Rightarrow> None | Some x \<Rightarrow> consStr x (parse_string r'))))
     else if c < 0x20 then None
     else consStr c (parse_string r))"

definition hex_digit :: "jschar \<Rightarrow> jschar" where
  "hex_digit n = (if n < 10 then 0x30 + n else 0x57 + n)"

definition u_escape :: "jschar \<Rightarrow> jsstr" where
  "u_escape c = [0x5C, 0x75, hex_digit (c div 0x1000), hex_digit (c div 0x100 mod 0x10),
     hex_digit (c div 0x10 mod 0x10), hex_digit (c mod 0x10)]"

definition escape_char :: "jschar \<Rightarrow> jsstr" where
  "escape_char c =
    (if c = 0x22 then [0x5C, 0x22] else if c = 0x5C then [0x5C, 0x5C]
     else if c = 0x08 then [0x5C, 0x62] else if c = 0x0C then [0x5C, 0x66]
     else if c = 0x0A then [0x5C, 0x6E] else if c = 0x0D then [0x5C, 0x72]
     else if c = 0x09 then [0x5C, 0x74]
     else if c < 0x20 then u_escape c
     else [c])"

definition high_surrogate :: "jschar \<Rightarrow> bool" where
  "high_surrogate c \<longleftrightarrow> 0xD800 \<le> c \<and> c \<le> 0xDBFF"

definition low_surrogate :: "jschar \<Rightarrow> bool" where
  "low_surrogate c \<longleftrightarrow> 0xDC00 \<le> c \<and> c \<le> 0xDFFF"

text \<open>A surrogate without its partner is printed as an escape (well-formed \<open>JSON.stringify\<close>).\<close>

fun escape_string :: "jsstr \<Rightarrow> jsstr" where
  "escape_string [] = []"
| "escape_string (c # r) =
    (if high_surrogate c then
       (case r of
          d # r' \<Rightarrow> if low_surrogate d then c # d # escape_string r' else u_escape c @ escape_string r
        | [] \<Rightarrow> u_escape c)
     else if low_surrogate c then u_escape c @ escape_string r
     else escape_char c @ escape_string r)"

definition json_quote :: "jsstr \<Rightarrow> jsstr" where
  "json_quote s = [0x22] @ escape_string s @ [0x22]"

section \<open>Values\<close>

definition json_space :: "jschar \<Rightarrow> bool" where
  "json_space c \<longleftrightarrow> c \<in> {0x09, 0x0A, 0x0D, 0x20}"

definition skip :: "jsstr \<Rightarrow> jsstr" where
  "skip s = dropWhile json_space s"

text \<open>A number literal: the longest prefix of number characters, checked against the grammar.\<close>

definition num_char :: "jschar \<Rightarrow> bool" where
  "num_char c \<longleftrightarrow> is_digit c \<or> c \<in> {0x2B, 0x2D, 0x2E, 0x65, 0x45}"

definition json_number :: "jsstr \<Rightarrow> jsnum option" where
  "json_number t =
    (let body = (case t of c # r \<Rightarrow> if c = 0x2D then r else t | [] \<Rightarrow> []);
         ip = takeWhile is_digit body;
         r1 = dropWhile is_digit body;
         frac_ok = (case r1 of c # r \<Rightarrow> (if c = 0x2E then takeWhile is_digit r \<noteq> [] else True) | [] \<Rightarrow> True)
     in if ip = [] \<or> (length ip > 1 \<and> hd ip = 0x30) \<or> \<not> frac_ok then None
        else (case unsigned_decimal body of
            Fin q \<Rightarrow> Some (Fin (if t \<noteq> [] \<and> hd t = 0x2D then - q else q))
          | _ \<Rightarrow> None))"

definition parse_number :: "jsstr \<Rightarrow> (jsval \<times> jsstr) option" where
  "parse_number s = (case json_number (takeWhile num_char s) of
     None \<Rightarrow> None | Some n \<Rightarrow> Some (VNum n, dropWhile num_char s))"

definition literal :: "string \<Rightarrow> jsval \<Rightarrow> jsstr \<Rightarrow> (jsval \<times> jsstr) option" where
  "literal w v s = (if starts_with s (js w) then Some (v, drop (length w) s) else None)"

fun parse_value :: "nat \<Rightarrow> jsstr \<Rightarrow> (jsval \<times> jsstr) option"
and parse_items :: "nat \<Rightarrow> jsval list \<Rightarrow> jsstr \<Rightarrow> (jsval \<times> jsstr) option"
and parse_members :: "nat \<Rightarrow> (jsstr \<times> jsval) list \<Rightarrow> jsstr \<Rightarrow> (jsval \<times> jsstr) option" where
  "parse_value 0 s = None"
| "parse_value (Suc n) s =
    (case skip s of
       [] \<Rightarrow> None
     | c # r \<Rightarrow>
        if c = 0x22 then map_option (\<lambda>(t, rest). (VStr t, rest)) (parse_string r)
        else if c = 0x5B then
          (case skip r of
             [] \<Rightarrow> None
           | d # r' \<Rightarrow> if d = 0x5D then Some (VArr [], r') else parse_items n [] r)
        else if c = 0x7B then
          (case skip r of
             [] \<Rightarrow> None
           | d # r' \<Rightarrow> if d = 0x7D then Some (VObj [], r') else parse_members n [] r)
        else if c = 0x74 then literal ''true'' (VBool True) (c # r)
        else if c = 0x66 then literal ''false'' (VBool False) (c # r)
        else if c = 0x6E then literal ''null'' VNull (c # r)
        else parse_number (c # r))"
| "parse_items 0 acc s = None"
| "parse_items (Suc n) acc s =
    (case parse_value n s of
       None \<Rightarrow> None
     | Some (v, rest) \<Rightarrow>
        (case skip rest of
           [] \<Rightarrow> None
         | c # r \<Rightarrow> if c = 0x2C then parse_items n (acc @ [v]) r
                    else if c = 0x5D then Some (VArr (acc @ [v]), r) else None))"
| "parse_members 0 acc s = None"
| "parse_members (Suc n) acc s =
    (case skip s of
       [] \<Rightarrow> None
     | q # r0 \<Rightarrow>
        if q \<noteq> 0x22 then None
        else (case parse_string r0 of
            None \<Rightarrow> None
          | Some (k, r1) \<Rightarrow>
             (case skip r1 of
                [] \<Rightarrow> None
              | col # r2 \<Rightarrow>
                 if col \<noteq> 0x3A then None
                 else (case parse_value n r2 of
                     None \<Rightarrow> None
                   | Some (v, r3) \<Rightarrow>
                      (case skip r3 of
                         [] \<Rightarrow> None
                       | c # r \<Rightarrow> if c = 0x2C then parse_members n (mput acc k v) r
                                  else if c = 0x7D then Some (VObj (mput acc k v), r) else None)))))"

definition json_parse :: "jsstr \<Rightarrow> jsval option" where
  "json_parse s = (case parse_value (2 * length s + 1) s of
     Some (v, rest) \<Rightarrow> if skip rest = [] then Some v else None
   | None \<Rightarrow> None)"

fun json_ser :: "jsstr \<Rightarrow> jsstr \<Rightarrow> jsval \<Rightarrow> jsstr option"
and json_items :: "jsstr \<Rightarrow> jsstr \<Rightarrow> jsval list \<Rightarrow> jsstr list"
and json_fields :: "jsstr \<Rightarrow> jsstr \<Rightarrow> (jsstr \<times> jsval) list \<Rightarrow> jsstr list" where
  "json_ser gap ind VUndef = None"
| "json_ser gap ind VNull = Some (js ''null'')"
| "json_ser gap ind (VBool b) = Some (if b then js ''true'' else js ''false'')"
| "json_ser gap ind (VNum n) = Some (case n of Fin q \<Rightarrow> num_str (Fin q) | _ \<Rightarrow> js ''null'')"
| "json_ser gap ind (VStr s) = Some (json_quote s)"
| "json_ser gap ind (VArr xs) = Some
     (let ps = json_items gap (ind @ gap) xs in
      if ps = [] then js ''[]''
      else if gap = [] then js ''['' @ join (js '','') ps @ js '']''
      else js ''['' @ [0x0A] @ ind @ gap @ join (js '','' @ [0x0A] @ ind @ gap) ps @ [0x0A] @ ind @ js '']'')"
| "json_ser gap ind (VObj fs) = Some
     (let ps = json_fields gap (ind @ gap) fs in
      if ps = [] then js ''{}''
      else if gap = [] then js ''{'' @ join (js '','') ps @ js ''}''
      else js ''{'' @ [0x0A] @ ind @ gap @ join (js '','' @ [0x0A] @ ind @ gap) ps @ [0x0A] @ ind @ js ''}'')"
| "json_items gap ind [] = []"
| "json_items gap ind (v # vs) =
     (case json_ser gap ind v of None \<Rightarrow> js ''null'' | Some t \<Rightarrow> t) # json_items gap ind vs"
| "json_fields gap ind [] = []"
| "json_fields gap ind ((k, v) # fs) =
     (case json_ser gap ind v of
        None \<Rightarrow> json_fields gap ind fs
      | Some t \<Rightarrow> (json_quote k @ (if gap = [] then js '':'' else js '': '') @ t) # json_fields gap ind fs)"

definition json_stringify :: "jsstr \<Rightarrow> jsval \<Rightarrow> jsstr option" where
  "json_stringify gap v = json_ser gap [] v"

section \<open>A quoted string reads back\<close>

text \<open>Adding a small offset to a code unit does not wrap.\<close>

lemma unat_offset:
  fixes n :: jschar
  assumes "unat n < 100" "unat k < 100"
  shows "unat (k + n) = unat k + unat n"
  using assms by (simp add: unat_word_ariths)

lemma hex_val_digit:
  fixes n :: jschar
  assumes "n < 16"
  shows "hex_val (hex_digit n) = Some n"
proof -
  have n: "unat n < 16" using assms by (simp add: word_less_nat_alt)
  show ?thesis
  proof (cases "n < 10")
    case True
    then have "unat n < 10" by (simp add: word_less_nat_alt)
    moreover have "unat (0x30 + n) = 0x30 + unat n" using n unat_offset [of n "0x30"] by simp
    ultimately show ?thesis using True by (simp add: hex_digit_def hex_val_def word_le_nat_alt)
  next
    case False
    then have "10 \<le> unat n" by (simp add: word_less_nat_alt)
    moreover have "unat (0x57 + n) = 0x57 + unat n" using n unat_offset [of n "0x57"] by simp
    ultimately show ?thesis using False n by (simp add: hex_digit_def hex_val_def word_le_nat_alt)
  qed
qed

lemma div_mod_less_16: "c div 0x1000 < (16 :: jschar)" "c mod 0x10 < (16 :: jschar)"
proof -
  have "unat c < 0x10000" using unsigned_less [of c] by simp
  then have "unat c div 0x1000 < 16" by (simp add: div_less_iff_less_mult)
  then show "c div 0x1000 < (16 :: jschar)" by (simp add: word_less_nat_alt unat_div)
  show "c mod 0x10 < (16 :: jschar)" by (simp add: word_less_nat_alt unat_mod)
qed

lemma nibbles_recompose:
  "0x1000 * (c div 0x1000) + 0x100 * (c div 0x100 mod 0x10) + 0x10 * (c div 0x10 mod 0x10) + c mod 0x10
   = (c :: jschar)"
proof -
  let ?u = "unat c"
  have dm: "0x1000 * (?u div 0x1000) + 0x100 * (?u div 0x100 mod 0x10)
      + 0x10 * (?u div 0x10 mod 0x10) + ?u mod 0x10 = ?u"
  proof -
    have "?u div 0x10 div 0x10 = ?u div 0x100" "?u div 0x100 div 0x10 = ?u div 0x1000"
      by (simp_all flip: div_mult2_eq)
    then show ?thesis
      using div_mult_mod_eq [of ?u "0x10"] div_mult_mod_eq [of "?u div 0x10" "0x10"]
        div_mult_mod_eq [of "?u div 0x100" "0x10"] by linarith
  qed
  have q1: "c div 0x1000 = word_of_nat (?u div 0x1000)" and q4: "c mod 0x10 = word_of_nat (?u mod 0x10)"
    by (simp_all add: word_arith_nat_div word_arith_nat_mod)
  have q2: "c div 0x100 mod 0x10 = word_of_nat (?u div 0x100 mod 0x10)"
    by (subst word_arith_nat_mod) (simp add: unat_div)
  have q3: "c div 0x10 mod 0x10 = word_of_nat (?u div 0x10 mod 0x10)"
    by (subst word_arith_nat_mod) (simp add: unat_div)
  have "word_of_nat (0x1000 * (?u div 0x1000) + 0x100 * (?u div 0x100 mod 0x10)
      + 0x10 * (?u div 0x10 mod 0x10) + ?u mod 0x10) = c"
    unfolding dm by simp
  then show ?thesis unfolding q1 q2 q3 q4 by (simp only: of_nat_add of_nat_mult of_nat_numeral)
qed

lemma hex4_digits:
  "hex4 (hex_digit (c div 0x1000)) (hex_digit (c div 0x100 mod 0x10))
     (hex_digit (c div 0x10 mod 0x10)) (hex_digit (c mod 0x10)) = Some c"
  by (simp add: hex4_def hex_val_digit div_mod_less_16 nibbles_recompose)

lemma parse_u_escape: "parse_string (u_escape c @ t) = consStr c (parse_string t)"
  by (simp add: u_escape_def hex4_digits)

lemma parse_escape_char: "parse_string (escape_char c @ t) = consStr c (parse_string t)"
  by (simp add: escape_char_def parse_u_escape unescape_def del: parse_string.simps)
     (auto simp: unescape_def)

lemma surrogate_plain:
  assumes "high_surrogate c \<or> low_surrogate c"
  shows "parse_string (c # t) = consStr c (parse_string t)"
proof -
  have "0xD800 \<le> c"
    using assms order_trans [of "0xD800" "0xDC00" c] by (auto simp: high_surrogate_def low_surrogate_def)
  then have "\<not> c < 0x20 \<and> c \<noteq> 0x22 \<and> c \<noteq> 0x5C"
    using order_trans [of "0x20" "0xD800" c] by (auto simp: not_less)
  then show ?thesis by simp
qed

lemma parse_close: "parse_string (0x22 # rest) = Some ([], rest)"
  by simp

lemma parse_escape_string:
  "parse_string (escape_string s @ [0x22] @ rest) = Some (s, rest)"
proof (induction s rule: escape_string.induct)
  case 1
  then show ?case by simp
next
  case (2 c r)
  then show ?case
    by (auto simp: parse_u_escape parse_escape_char surrogate_plain consStr_def parse_close
        simp del: parse_string.simps split: list.splits)
qed

lemma json_quote_parse:
  "parse_value (Suc n) (json_quote s @ rest) = Some (VStr s, rest)"
  using parse_escape_string [of s rest] by (simp add: json_quote_def skip_def json_space_def)

section \<open>The fuel is enough\<close>

lemma skip_length: "length (skip s) \<le> length s"
  by (simp add: skip_def length_dropWhile_le)

lemma skip_Cons: "skip s = c # r \<Longrightarrow> length r < length s"
  using skip_length [of s] by simp

lemma parse_string_length: "parse_string s = Some (t, rest) \<Longrightarrow> length rest < length s"
proof (induction s arbitrary: t rest rule: parse_string.induct)
  case (2 c r)
  then show ?case
    by (fastforce simp: consStr_def less_SucI split: if_splits list.splits option.splits)
qed simp

lemma parse_number_length: "parse_number s = Some (v, rest) \<Longrightarrow> length rest < length s"
proof -
  assume p: "parse_number s = Some (v, rest)"
  have "json_number [] = None" by (simp add: json_number_def)
  then have "takeWhile num_char s \<noteq> []" using p by (auto simp: parse_number_def split: option.splits)
  moreover have "length (takeWhile num_char s) + length (dropWhile num_char s) = length s"
    by (metis length_append takeWhile_dropWhile_id)
  ultimately show ?thesis using p by (cases "takeWhile num_char s") (auto simp: parse_number_def split: option.splits)
qed

lemma literal_length: "literal w v s = Some (v', rest) \<Longrightarrow> w \<noteq> [] \<Longrightarrow> s \<noteq> [] \<Longrightarrow> length rest < length s"
  by (auto simp: literal_def split: if_splits)

lemma parse_length:
  "parse_value n s = Some (v, rest) \<Longrightarrow> length rest < length s"
  "parse_items n acc s = Some (v, rest) \<Longrightarrow> length rest < length s"
  "parse_members n m s = Some (v, rest) \<Longrightarrow> length rest < length s"
proof (induction n s and n acc s and n m s arbitrary: v rest and v rest and v rest rule: parse_value_parse_items_parse_members.induct)
  case (2 n s)
  then obtain c r where c: "skip s = c # r" by (cases "skip s") simp_all
  have short: "length r < length s" by (rule skip_Cons [OF c])
  have inner: "length r' < length s" if "skip r = d # r'" for d r' using skip_Cons [OF that] short by simp
  show ?case
    using 2(3) c short inner 2(1) [OF c] 2(2) [OF c] skip_length [of s]
    by (auto dest!: parse_string_length literal_length parse_number_length split: if_splits list.splits intro: less_trans)
next
  case (4 n acc s)
  then obtain w r c r' where w: "parse_value n s = Some (w, r)" "skip r = c # r'"
    by (auto split: option.splits list.splits)
  have "length r < length s" by (rule 4(1) [OF w(1)])
  moreover have "length r' < length r" by (rule skip_Cons [OF w(2)])
  moreover have "c = 0x2C \<Longrightarrow> length rest < length r'"
    using 4(2) [OF w(1) refl w(2)] 4(3) w by simp
  ultimately show ?case using 4(3) w by (fastforce split: if_splits)
next
  case (6 n m s)
  then obtain r0 k r1 r2 w r3 c r where q: "skip s = 0x22 # r0" "parse_string r0 = Some (k, r1)" "skip r1 = 0x3A # r2"
      "parse_value n r2 = Some (w, r3)" "skip r3 = c # r"
    by (auto split: option.splits list.splits if_splits)
  have "length r < length r3" "length r2 < length r1" "length r0 < length s" using skip_Cons q by blast+
  moreover have "length r1 < length r0" by (rule parse_string_length [OF q(2)])
  moreover have "length r3 < length r2" using 6(1) [OF q(1) _ q(2) _ q(3) _ q(4)] by simp
  ultimately have "length r < length s" by linarith
  then show ?case using 6(2) [OF q(1) _ q(2) _ q(3) _ q(4) _ q(5)] 6(3) q by (auto split: if_splits intro: less_trans)
qed simp_all

lemma fuel_enough_step:
  "2 * length s + 1 \<le> n \<Longrightarrow> parse_value (Suc n) s = parse_value n s"
  "2 * length s + 2 \<le> n \<Longrightarrow> parse_items (Suc n) acc s = parse_items n acc s"
  "2 * length s + 2 \<le> n \<Longrightarrow> parse_members (Suc n) m s = parse_members n m s"
proof (induction n s and n acc s and n m s rule: parse_value_parse_items_parse_members.induct)
  case (2 n s)
  show ?case
  proof (cases "skip s")
    case (Cons c r)
    have "2 * length r + 2 \<le> n" using skip_Cons [OF Cons] 2(3) by simp
    then show ?thesis
      using 2(1,2) Cons by (subst (1 2) parse_value.simps) (auto split: list.split)
  qed simp
next
  case (4 n acc s)
  have v: "parse_value (Suc n) s = parse_value n s" using 4(1,3) by simp
  show ?case
  proof (cases "parse_value n s")
    case (Some p)
    obtain w r where p: "p = (w, r)" by (cases p)
    show ?thesis
    proof (cases "skip r")
      case (Cons c r')
      have "length r' < length r" "length r < length s" using skip_Cons [OF Cons] parse_length(1) Some p by simp_all
      then have "2 * length r' + 2 \<le> n" using 4(3) by simp
      then show ?thesis using v Some p Cons 4(2) by (subst (1 2) parse_items.simps) simp
    qed (use v Some p in \<open>subst (1 2) parse_items.simps; simp\<close>)
  qed (use v in \<open>subst (1 2) parse_items.simps; simp\<close>)
next
  case (6 n m s)
  show ?case
  proof (cases "skip s")
    case (Cons q r0)
    show ?thesis
    proof (cases "q = 0x22 \<and> parse_string r0 \<noteq> None")
      case True
      then obtain k r1 where k: "q = 0x22" "parse_string r0 = Some (k, r1)" by auto
      show ?thesis
      proof (cases "skip r1")
        case Nil
        then show ?thesis using Cons k by (subst (1 2) parse_members.simps) simp
      next
        case colon: (Cons d r2)
        have l: "length r2 < length r1" "length r1 < length r0" "length r0 < length s"
          using skip_Cons [OF colon] skip_Cons [OF Cons] parse_string_length [OF k(2)] by simp_all
        show ?thesis
        proof (cases "d = 0x3A")
          case False
          then show ?thesis using Cons k colon by (subst (1 2) parse_members.simps) simp
        next
          case True
          have v: "parse_value (Suc n) r2 = parse_value n r2" using 6(1) Cons k colon True l 6(3) by simp
          show ?thesis
          proof (cases "parse_value n r2")
            case None
            then show ?thesis using v Cons k colon True by (subst (1 2) parse_members.simps) simp
          next
            case (Some p)
            obtain w r3 where p: "p = (w, r3)" by (cases p)
            show ?thesis
            proof (cases "skip r3")
              case Nil
              then show ?thesis using v Some p Cons k colon True by (subst (1 2) parse_members.simps) simp
            next
              case last: (Cons c r)
              have "length r < length r3" "length r3 < length r2" using skip_Cons [OF last] parse_length(1) Some p by simp_all
              then have "2 * length r + 2 \<le> n" using 6(3) l by simp
              then show ?thesis using 6(2) v Some p Cons k colon True last by (subst (1 2) parse_members.simps) simp
            qed
          qed
        qed
      qed
    next
      case False
      then have "q \<noteq> 0x22 \<or> parse_string r0 = None" by (cases "parse_string r0") auto
      then show ?thesis using Cons by (subst (1 2) parse_members.simps) auto
    qed
  qed (simp add: parse_members.simps)
qed simp_all

text \<open>More fuel than \<open>json_parse\<close> gives changes nothing, so a failure of the parser is never for want of fuel.\<close>

lemma json_fuel_enough: "2 * length s + 1 \<le> n \<Longrightarrow> parse_value n s = parse_value (2 * length s + 1) s"
proof (induction n rule: dec_induct)
  case (step n)
  then show ?case using fuel_enough_step(1) [of s n] by simp
qed simp


declare parse_value.simps(2) [simp del]

section \<open>Round trip\<close>

text \<open>
  A value \<open>JSON.stringify\<close> prints faithfully: no \<open>undefined\<close>, integer numbers, distinct keys.
  \<open>json_fuel\<close> is the nesting the parser needs for it.
\<close>

fun json_safe :: "jsval \<Rightarrow> bool" where
  "json_safe VUndef = False"
| "json_safe VNull = True"
| "json_safe (VBool b) = True"
| "json_safe (VNum n) = (case n of Fin q \<Rightarrow> of_int \<lfloor>q\<rfloor> = q | _ \<Rightarrow> False)"
| "json_safe (VStr s) = True"
| "json_safe (VArr vs) = (\<forall>v \<in> set vs. json_safe v)"
| "json_safe (VObj fs) = (distinct (mkeys fs) \<and> (\<forall>p \<in> set fs. json_safe (snd p)))"

fun json_fuel :: "jsval \<Rightarrow> nat"
and items_fuel :: "jsval list \<Rightarrow> nat"
and fields_fuel :: "(jsstr \<times> jsval) list \<Rightarrow> nat" where
  "json_fuel (VArr vs) = Suc (items_fuel vs)"
| "json_fuel (VObj fs) = Suc (fields_fuel fs)"
| "json_fuel v = 1"
| "items_fuel [] = 0"
| "items_fuel (v # vs) = Suc (max (json_fuel v) (items_fuel vs))"
| "fields_fuel [] = 0"
| "fields_fuel ((k, v) # fs) = Suc (max (json_fuel v) (fields_fuel fs))"

text \<open>What may follow a printed value: nothing, or a delimiter.\<close>

definition delimited :: "jsstr \<Rightarrow> bool" where
  "delimited rest \<longleftrightarrow> rest = [] \<or> hd rest \<in> {0x2C, 0x5D, 0x7D, 0x0A}"

lemma digit_char: "d < 10 \<Longrightarrow> is_digit (0x30 + word_of_nat d) \<and> unat (0x30 + word_of_nat d - 0x30 :: jschar) = d"
proof -
  assume d: "d < (10 :: nat)"
  then have u: "unat (word_of_nat d :: jschar) = d" by (simp add: unat_of_nat)
  then have "unat (0x30 + word_of_nat d :: jschar) = 0x30 + d" using d unat_offset [of "word_of_nat d" "0x30"] by simp
  then show ?thesis using d u by (simp add: is_digit_def word_le_nat_alt)
qed

lemma digits_val_append: "digits_val (s @ [c]) = 10 * digits_val s + unat (c - 0x30)"
  by (simp add: digits_val_def)

lemma nat_str_digits: "list_all is_digit (nat_str n) \<and> digits_val (nat_str n) = n"
proof (induction n rule: nat_str.induct)
  case (1 n)
  show ?case
  proof (cases "n < 10")
    case True
    then show ?thesis using digit_char [of n] by (simp add: nat_str.simps [of n] digits_val_def)
  next
    case False
    then show ?thesis using 1 digit_char [of "n mod 10"]
      by (simp add: nat_str.simps [of n] digits_val_append)
  qed
qed

lemma nat_str_no_leading_zero: "hd (nat_str n) = 0x30 \<Longrightarrow> length (nat_str n) = 1"
proof (induction n rule: nat_str.induct)
  case (1 n)
  show ?case
  proof (cases "n < 10")
    case False
    then have "hd (nat_str n) = hd (nat_str (n div 10))" by (simp add: nat_str.simps [of n])
    with 1 False have "length (nat_str (n div 10)) = 1" by simp
    then have small: "n div 10 < 10" by (auto simp: nat_str.simps [of "n div 10"] split: if_splits)
    then have hd0: "hd (nat_str n) = 0x30 + word_of_nat (n div 10)"
      using False by (simp add: nat_str.simps [of n] nat_str.simps [of "n div 10"])
    have "n div 10 \<noteq> 0" using False by simp
    then have False using 1(2) hd0 digit_char [OF small] by simp
    then show ?thesis ..
  qed (simp add: nat_str.simps [of n])
qed

lemma takeWhile_all: "list_all P xs \<Longrightarrow> takeWhile P (xs @ ys) = xs @ takeWhile P ys"
  and dropWhile_all: "list_all P xs \<Longrightarrow> dropWhile P (xs @ ys) = dropWhile P ys"
  by (induction xs) auto

lemma delimited_num: "delimited rest \<Longrightarrow> takeWhile num_char rest = [] \<and> dropWhile num_char rest = rest"
  by (cases rest) (auto simp: delimited_def num_char_def is_digit_def)

lemma digits_are_num_chars: "list_all is_digit s \<Longrightarrow> list_all num_char s"
  by (auto simp: list_all_iff num_char_def)

lemma span_digits:
  "takeWhile is_digit (nat_str n) = nat_str n" "dropWhile is_digit (nat_str n) = []"
  using nat_str_digits [of n] by (simp_all add: list_all_iff)

lemma unsigned_decimal_nat: "unsigned_decimal (nat_str n) = Fin (of_nat n)"
  using nat_str_digits [of n]
  by (simp add: unsigned_decimal_def span_digits Let_def exponent_part_def)
     (simp add: digits_val_def)

lemma json_number_int: "json_number (int_str i) = Some (Fin (of_int i))"
proof -
  have hd_digit: "\<And>n. is_digit (hd (nat_str n))"
    using nat_str_digits by (metis list.set_sel(1) list_all_iff nat_str_nonempty)
  have nz: "\<And>n. \<not> (length (nat_str n) > 1 \<and> hd (nat_str n) = 0x30)"
    using nat_str_no_leading_zero by fastforce
  show ?thesis
  proof (cases "i < 0")
    case True
    have "json_number (0x2D # nat_str (nat (- i))) = Some (Fin (- of_nat (nat (- i))))"
      using nz [of "nat (- i)"]
      by (simp add: json_number_def Let_def unsigned_decimal_nat span_digits)
    then show ?thesis using True by (simp add: int_str_def)
  next
    case False
    obtain c r where cr: "nat_str (nat i) = c # r" by (cases "nat_str (nat i)") auto
    then have "c \<noteq> 0x2D" using hd_digit [of "nat i"] by (auto simp: is_digit_def)
    then have "json_number (nat_str (nat i)) = Some (Fin (of_nat (nat i)))"
      using nz [of "nat i"] unsigned_decimal_nat [of "nat i"] span_digits [of "nat i"] cr
      by (simp add: json_number_def Let_def)
    then show ?thesis using False by (simp add: int_str_def)
  qed
qed

lemma int_str_num_chars: "list_all num_char (int_str i)"
  using nat_str_digits digits_are_num_chars by (simp add: int_str_def num_char_def)

lemma parse_number_int:
  "delimited rest \<Longrightarrow> parse_number (int_str i @ rest) = Some (VNum (Fin (of_int i)), rest)"
  using int_str_num_chars [of i]
  by (simp add: parse_number_def takeWhile_all dropWhile_all delimited_num json_number_int)


definition ser :: "jsval \<Rightarrow> jsstr" where
  "ser v = (case json_ser [] [] v of Some t \<Rightarrow> t | None \<Rightarrow> js ''null'')"

lemma json_items_ser: "json_items [] [] vs = map ser vs"
  by (induction vs) (auto simp: ser_def)

lemma json_ser_safe: "json_safe v \<Longrightarrow> json_ser [] [] v = Some (ser v)"
  by (cases v) (auto simp: ser_def)

lemma json_fields_ser:
  "\<forall>p \<in> set fs. json_safe (snd p) \<Longrightarrow>
   json_fields [] [] fs = map (\<lambda>(k, v). json_quote k @ js '':'' @ ser v) fs"
  by (induction fs) (auto simp: json_ser_safe)

lemma ser_simps:
  "ser VNull = js ''null''"
  "ser (VBool b) = (if b then js ''true'' else js ''false'')"
  "ser (VStr s) = json_quote s"
  "ser (VNum (Fin q)) = num_str (Fin q)"
  "ser (VArr vs) = js ''['' @ join (js '','') (map ser vs) @ js '']''"
  by (auto simp: ser_def Let_def json_items_ser js_def)

lemma ser_obj:
  "\<forall>p \<in> set fs. json_safe (snd p) \<Longrightarrow> ser (VObj fs) =
   js ''{'' @ join (js '','') (map (\<lambda>(k, v). json_quote k @ js '':'' @ ser v) fs) @ js ''}''"
  by (auto simp: ser_def Let_def json_fields_ser js_def)

definition value_start_char :: "jschar \<Rightarrow> bool" where
  "value_start_char c \<longleftrightarrow> \<not> json_space c \<and> c \<noteq> 0x5D \<and> c \<noteq> 0x7D \<and> c \<noteq> 0x2C"

lemma int_str_nonempty [simp]: "int_str i \<noteq> []"
  by (simp add: int_str_def)

lemma hd_int_str: "is_digit (hd (int_str i)) \<or> hd (int_str i) = 0x2D"
  using nat_str_digits [of "nat i"] nat_str_nonempty [of "nat i"]
  by (cases "nat_str (nat i)") (auto simp: int_str_def)

lemma hd_int_str_not: "hd (int_str i) \<notin> {0x22, 0x5B, 0x7B, 0x74, 0x66, 0x6E, 0x5D, 0x7D, 0x2C, 0x09, 0x0A, 0x0D, 0x20}"
  using hd_int_str [of i] by (auto simp: is_digit_def)

lemma ser_start:
  assumes "json_safe v"
  shows "ser v \<noteq> [] \<and> value_start_char (hd (ser v))"
proof (cases v)
  case (VNum n)
  then obtain q where "n = Fin q" "num_str (Fin q) = int_str \<lfloor>q\<rfloor>"
    using assms by (auto simp: num_str_def split: jsnum.splits)
  moreover have "int_str \<lfloor>q\<rfloor> \<noteq> []" by simp
  ultimately show ?thesis using VNum hd_int_str_not [of "\<lfloor>q\<rfloor>"]
    by (simp add: ser_simps value_start_char_def json_space_def)
qed (use assms in \<open>auto simp: ser_simps ser_obj json_quote_def js_def value_start_char_def json_space_def\<close>)

lemma skip_start: "s \<noteq> [] \<Longrightarrow> value_start_char (hd s) \<Longrightarrow> skip (s @ t) = s @ t"
  by (cases s) (auto simp: skip_def value_start_char_def)

lemma parse_value_num:
  assumes "of_int \<lfloor>q\<rfloor> = q" and "delimited rest"
  shows "parse_value (Suc n) (num_str (Fin q) @ rest) = Some (VNum (Fin q), rest)"
proof -
  have e: "num_str (Fin q) = int_str \<lfloor>q\<rfloor>" using assms(1) by (simp add: num_str_def)
  obtain c r where cr: "int_str \<lfloor>q\<rfloor> = c # r" by (cases "int_str \<lfloor>q\<rfloor>") auto
  then have "c \<notin> {0x22, 0x5B, 0x7B, 0x74, 0x66, 0x6E}" "\<not> json_space c"
    using hd_int_str_not [of "\<lfloor>q\<rfloor>"] by (auto simp: json_space_def)
  moreover have "parse_number (c # r @ rest) = Some (VNum (Fin q), rest)"
    using parse_number_int [OF assms(2), of "\<lfloor>q\<rfloor>"] assms(1) cr by simp
  ultimately show ?thesis by (simp add: e cr skip_def parse_value.simps(2))
qed

lemma delimited_simps [simp]:
  "delimited (0x2C # t)" "delimited (0x5D # t)" "delimited (0x7D # t)" "delimited []"
  by (simp_all add: delimited_def)

lemma skip_simps [simp]:
  "skip (0x2C # t) = 0x2C # t" "skip (0x5D # t) = 0x5D # t" "skip (0x7D # t) = 0x7D # t"
  "skip (0x3A # t) = 0x3A # t" "skip (0x22 # t) = 0x22 # t" "skip (0x5B # t) = 0x5B # t"
  "skip (0x7B # t) = 0x7B # t" "skip [] = []"
  by (simp_all add: skip_def json_space_def)

lemma parse_array_open:
  assumes "json_safe v"
  shows "parse_value (Suc n) (0x5B # ser v @ t) = parse_items n [] (ser v @ t)"
proof -
  obtain c r where cr: "ser v = c # r" "value_start_char c" using ser_start [OF assms] by (cases "ser v") auto
  have "skip (ser v @ t) = ser v @ t" using skip_start ser_start [OF assms] by blast
  then show ?thesis using cr by (simp add: value_start_char_def parse_value.simps(2))
qed

lemma parse_object_open:
  "parse_value (Suc n) (0x7B # json_quote k @ t) = parse_members n [] (json_quote k @ t)"
  by (simp add: json_quote_def parse_value.simps(2))

lemma parse_member_key:
  "parse_members (Suc n) acc (json_quote k @ 0x3A # r) =
    (case parse_value n r of
       None \<Rightarrow> None
     | Some (v, r3) \<Rightarrow>
        (case skip r3 of
           [] \<Rightarrow> None
         | c # r \<Rightarrow> if c = 0x2C then parse_members n (mput acc k v) r
                    else if c = 0x7D then Some (VObj (mput acc k v), r) else None))"
  using parse_escape_string [of k "0x3A # r"] by (simp add: json_quote_def)

definition atomic :: "jsval \<Rightarrow> bool" where
  "atomic v \<longleftrightarrow> (case v of VArr _ \<Rightarrow> False | VObj _ \<Rightarrow> False | _ \<Rightarrow> True)"

lemma atomic_simps [simp]:
  "atomic VNull" "atomic (VBool b)" "atomic (VNum x)" "atomic (VStr s)" "\<not> atomic (VArr vs)" "\<not> atomic (VObj fs)"
  by (simp_all add: atomic_def)

lemma parse_value_atom:
  assumes "atomic v" "json_safe v" "delimited rest"
  shows "parse_value (Suc m) (ser v @ rest) = Some (v, rest)"
proof (cases v)
  case (VNum x)
  with assms obtain q where "x = Fin q" "of_int \<lfloor>q\<rfloor> = q" by (cases x) auto
  then show ?thesis using parse_value_num [of q rest m] assms VNum by (simp add: ser_simps)
next
  case (VStr s)
  then show ?thesis using json_quote_parse [of m s rest] by (simp add: ser_simps)
qed (use assms in \<open>auto simp: ser_simps js_def literal_def starts_with_def skip_def json_space_def
  parse_value.simps(2)\<close>)

lemma ser_length_pos: "json_safe v \<Longrightarrow> 0 < length (ser v)"
  using ser_start by simp

lemma json_round_trip_fuel:
  "\<And>n rest. json_safe v \<Longrightarrow> json_fuel v \<le> n \<Longrightarrow> delimited rest \<Longrightarrow>
     parse_value n (ser v @ rest) = Some (v, rest)"
  "\<And>n acc rest. vs \<noteq> [] \<Longrightarrow> \<forall>v \<in> set vs. json_safe v \<Longrightarrow> items_fuel vs \<le> n \<Longrightarrow>
     parse_items n acc (join [0x2C] (map ser vs) @ 0x5D # rest) = Some (VArr (acc @ vs), rest)"
  "\<And>n acc rest. fs \<noteq> [] \<Longrightarrow> distinct (mkeys (acc @ fs)) \<Longrightarrow> \<forall>p \<in> set fs. json_safe (snd p) \<Longrightarrow>
     fields_fuel fs \<le> n \<Longrightarrow>
     parse_members n acc (join [0x2C] (map (\<lambda>(k, v). json_quote k @ 0x3A # ser v) fs) @ 0x7D # rest)
       = Some (VObj (acc @ fs), rest)"
proof (induction v and vs and fs rule: json_fuel_items_fuel_fields_fuel.induct)
  case (1 vs)
  then obtain m where n: "n = Suc m" by (cases n) auto
  show ?case
  proof (cases vs)
    case Nil
    then show ?thesis by (simp add: n ser_simps js_def parse_value.simps(2))
  next
    case (Cons v ws)
    have "\<exists>t. join [0x2C] (map ser vs) @ 0x5D # rest = ser v @ t"
      using Cons by (cases ws) auto
    then obtain t where t: "join [0x2C] (map ser vs) @ 0x5D # rest = ser v @ t" by blast
    have "parse_value n (ser (VArr vs) @ rest) = parse_items m [] (join [0x2C] (map ser vs) @ 0x5D # rest)"
      using parse_array_open [of v m t] 1(2) Cons t by (simp add: n ser_simps js_def)
    then show ?thesis using 1 Cons n by simp
  qed
next
  case (2 fs)
  then obtain m where n: "n = Suc m" by (cases n) auto
  have safe: "\<forall>p \<in> set fs. json_safe (snd p)" using 2(2) by auto
  show ?case
  proof (cases fs)
    case Nil
    then show ?thesis by (simp add: n ser_obj js_def parse_value.simps(2))
  next
    case (Cons p gs)
    obtain k v where p: "p = (k, v)" by (cases p)
    let ?j = "join [0x2C] (map (\<lambda>(k, v). json_quote k @ 0x3A # ser v) fs) @ 0x7D # rest"
    have "\<exists>t. ?j = json_quote k @ t" using Cons p by (cases gs) auto
    then obtain t where t: "?j = json_quote k @ t" by blast
    have "parse_value n (ser (VObj fs) @ rest) = parse_members m [] ?j"
      using parse_object_open [of m k t] safe t by (simp add: n ser_obj js_def)
    then show ?thesis using 2 Cons n safe by simp
  qed
next
  case (5 v ws)
  then obtain m where n: "n = Suc m" by (cases n) auto
  show ?case
  proof (cases ws)
    case Nil
    then show ?thesis using 5 by (simp add: n)
  next
    case (Cons w us)
    then show ?thesis using 5 by (simp add: n)
  qed
next
  case (7 k v gs)
  then obtain m where n: "n = Suc m" by (cases n) auto
  have k: "k \<notin> set (mkeys acc)" using 7 by auto
  then have put: "mput acc k v = acc @ [(k, v)]" by (simp add: mput_absent mhas_def)
  show ?case
  proof (cases gs)
    case Nil
    then show ?thesis using 7 by (simp add: n parse_member_key put del: parse_members.simps)
  next
    case (Cons p us)
    have ih: "parse_members m (acc @ [(k, v)])
        (join [0x2C] (map (\<lambda>(k, v). json_quote k @ 0x3A # ser v) gs) @ 0x7D # rest)
      = Some (VObj ((acc @ [(k, v)]) @ gs), rest)"
      using 7(3-) Cons n by (intro 7(2)) auto
    show ?thesis using 7 Cons ih by (simp add: n parse_member_key put del: parse_members.simps)
  qed
qed (auto simp: parse_value_atom dest!: Suc_le_D)

text \<open>Every nesting level prints at least one code unit, so \<open>json_parse\<close> has fuel to spare.\<close>

lemma fuel_le_length:
  "json_safe v \<Longrightarrow> json_fuel v \<le> length (ser v)"
  "\<forall>v \<in> set vs. json_safe v \<Longrightarrow> items_fuel vs \<le> length (join [0x2C] (map ser vs)) + 1"
  "\<forall>p \<in> set fs. json_safe (snd p) \<Longrightarrow>
     fields_fuel fs \<le> length (join [0x2C] (map (\<lambda>(k, v). json_quote k @ 0x3A # ser v) fs)) + 1"
proof (induction v and vs and fs rule: json_fuel_items_fuel_fields_fuel.induct)
  case (5 v ws)
  then have "ser v \<noteq> []" using ser_start by auto
  then have "0 < length (ser v)" by simp
  then show ?case using 5 by (cases ws) auto
next
  case (7 k v gs)
  then show ?case by (cases gs) auto
next
  case (2 fs)
  then show ?case by (auto simp: ser_obj js_def)
qed (auto simp: ser_simps js_def json_quote_def num_str_def Suc_le_eq split: jsnum.splits)

theorem json_round_trip: "json_safe v \<Longrightarrow> json_parse (ser v) = Some v"
proof -
  assume safe: "json_safe v"
  have "json_fuel v \<le> 2 * length (ser v) + 1" using fuel_le_length(1) [OF safe] by simp
  then have "parse_value (2 * length (ser v) + 1) (ser v @ []) = Some (v, [])"
    using json_round_trip_fuel(1) [OF safe, of "2 * length (ser v) + 1" "[]"] by simp
  then show ?thesis by (simp add: json_parse_def)
qed

lemma json_stringify_ser: "json_safe v \<Longrightarrow> json_stringify [] v = Some (ser v)"
  by (simp add: json_stringify_def json_ser_safe)

end
