(* ===== verification/FeishuEvent.thy ===== *)
theory FeishuEvent
  imports Json
begin

text \<open>
  Inbound Feishu messages (\<open>src/src/feishu-service.ts\<close>): the event type, its validation
  (\<open>parseMessagePayload\<close>), the text of a message (\<open>parseMessageText\<close>, \<open>parsePostText\<close>,
  \<open>normalizeMentionText\<close>), who sent it and to which session it belongs
  (\<open>senderIdFor\<close>, \<open>sessionKeyFor\<close>, \<open>sessionTypeFor\<close>), and the two admission tests of
  group chats (\<open>isBotMentioned\<close>, \<open>isSenderAllowed\<close>).

  The event is a record; an optional string property that is absent, or is not a string, is
  \<open>None\<close>.  The required strings are kept as delivered: \<open>parseMessagePayload\<close> trims them
  only to test them.
\<close>

section \<open>The event\<close>

record mention =
  mention_key :: "jsstr option"
  mention_name :: "jsstr option"
  mention_open_id :: "jsstr option"

record fevent =
  open_id :: "jsstr option"
  user_id :: "jsstr option"
  union_id :: "jsstr option"
  sender_type :: "jsstr option"
  message_id :: jsstr
  chat_id :: jsstr
  chat_type :: jsstr
  message_type :: jsstr
  content :: jsstr
  create_time :: "jsstr option"
  root_id :: "jsstr option"
  parent_id :: "jsstr option"
  thread_id :: "jsstr option"
  mentions :: "mention list"

definition as_string :: "jsval \<Rightarrow> jsstr option" where
  "as_string v = (case v of VStr s \<Rightarrow> Some s | _ \<Rightarrow> None)"

definition as_list :: "jsval \<Rightarrow> jsval list" where
  "as_list v = (case v of VArr xs \<Rightarrow> xs | _ \<Rightarrow> [])"

definition decode_mention :: "jsval \<Rightarrow> mention" where
  "decode_mention m = \<lparr> mention_key = as_string (field m ''key''),
     mention_name = as_string (field m ''name''),
     mention_open_id = as_string (field (field m ''id'') ''open_id'') \<rparr>"

definition decode_event :: "jsval \<Rightarrow> fevent" where
  "decode_event v =
    (let sid = field (field v ''sender'') ''sender_id''; msg = field v ''message'';
         str = (\<lambda>k. case as_string (field msg k) of Some s \<Rightarrow> s | None \<Rightarrow> []) in
     \<lparr> open_id = as_string (field sid ''open_id''), user_id = as_string (field sid ''user_id''),
       union_id = as_string (field sid ''union_id''),
       sender_type = as_string (field (field v ''sender'') ''sender_type''),
       message_id = str ''message_id'', chat_id = str ''chat_id'', chat_type = str ''chat_type'',
       message_type = str ''message_type'', content = str ''content'',
       create_time = as_string (field msg ''create_time''), root_id = as_string (field msg ''root_id''),
       parent_id = as_string (field msg ''parent_id''), thread_id = as_string (field msg ''thread_id''),
       mentions = map decode_mention (as_list (field msg ''mentions'')) \<rparr>)"

definition parseMessagePayload :: "jsval \<Rightarrow> fevent option" where
  "parseMessagePayload v =
    (if \<not> isRecord v \<or> \<not> isRecord (field v ''sender'') \<or> \<not> isRecord (field v ''message'') then None
     else if \<not> isRecord (field (field v ''sender'') ''sender_id'') then None
     else (let message = field v ''message'';
               messageId = readString (field message ''message_id'');
               chatId = readString (field message ''chat_id'');
               chatType = readString (field message ''chat_type'');
               messageType = readString (field message ''message_type'');
               cont = as_string (field message ''content'')
           in if messageId = None \<or> chatId = None \<or> messageType = None \<or> cont = None
                 \<or> (chatType \<noteq> Some (js ''p2p'') \<and> chatType \<noteq> Some (js ''group'')
                    \<and> chatType \<noteq> Some (js ''private''))
              then None else Some (decode_event v)))"

section \<open>Who and where\<close>

text \<open>\<open>a || b || c\<close> on optional strings: the first one that is neither absent nor empty.\<close>

fun first_nonempty :: "jsstr option list \<Rightarrow> jsstr option" where
  "first_nonempty [] = None"
| "first_nonempty (Some s # r) = (if s \<noteq> [] then Some s else first_nonempty r)"
| "first_nonempty (None # r) = first_nonempty r"

definition default :: "'a \<Rightarrow> 'a option \<Rightarrow> 'a" where
  [js_eval]: "default d x = (case x of None \<Rightarrow> d | Some y \<Rightarrow> y)"

definition senderIdFor :: "fevent \<Rightarrow> jsstr option" where
  "senderIdFor e = first_nonempty [open_id e, user_id e, union_id e]"

definition isGroup :: "fevent \<Rightarrow> bool" where
  "isGroup e \<longleftrightarrow> chat_type e = js ''group''"

definition threadOf :: "fevent \<Rightarrow> jsstr option" where
  "threadOf e = first_nonempty [root_id e, thread_id e]"

definition sessionTypeFor :: "fevent \<Rightarrow> jsstr" where
  "sessionTypeFor e = (if \<not> isGroup e then js ''dm''
     else if threadOf e \<noteq> None then js ''group_thread'' else js ''group'')"

definition sessionKeyFor :: "fevent \<Rightarrow> jsstr \<Rightarrow> jsstr" where
  "sessionKeyFor e accountId =
    (if isGroup e then
       js ''feishu:'' @ accountId @ js '':group:'' @ chat_id e
         @ (case threadOf e of Some t \<Rightarrow> js '':thread:'' @ t | None \<Rightarrow> [])
     else
       js ''feishu:'' @ accountId @ js '':dm:''
         @ default (chat_id e) (first_nonempty [open_id e, user_id e, union_id e]))"

definition senderLabel :: "fevent \<Rightarrow> jsstr" where
  "senderLabel e = default (js ''user'') (first_nonempty [open_id e, user_id e, union_id e])"

text \<open>The two code units of \<open>yong hu\<close> (user) in the display name.\<close>

definition senderDisplayName :: "jsstr \<Rightarrow> jsstr" where
  "senderDisplayName openId =
    (if \<not> starts_with openId (js ''ou_'') then openId
     else [0x7528, 0x6237] @ take_last 4 openId)"

definition feishuMessageDate :: "fevent \<Rightarrow> jsnum option" where
  "feishuMessageDate e =
    (case readString (case create_time e of Some s \<Rightarrow> VStr s | None \<Rightarrow> VUndef) of
       None \<Rightarrow> None
     | Some raw \<Rightarrow>
        (case Number raw of
           Fin q \<Rightarrow> if q \<le> 0 then None
             else (let ms = \<lfloor>if q < 1000000000000 then q * 1000 else q\<rfloor> in
                   Some (if ms \<le> 8640000000000000 then Fin (of_int ms) else NaN))
         | _ \<Rightarrow> None))"

section \<open>The text of a message\<close>

text \<open>
  \<open>String.prototype.replaceAll\<close> with a string pattern still expands the \<open>$\<close> sequences of
  the replacement (\<open>$$\<close>, \<open>$&\<close>, the text before and the text after the match), so a display
  name with a dollar sign is not inserted literally.
\<close>

fun expand_replacement :: "jsstr \<Rightarrow> jsstr \<Rightarrow> jsstr \<Rightarrow> jsstr \<Rightarrow> jsstr" where
  "expand_replacement m b a [] = []"
| "expand_replacement m b a [c] = [c]"
| "expand_replacement m b a (c # d # r) =
    (if c \<noteq> 0x24 then c # expand_replacement m b a (d # r)
     else if d = 0x24 then 0x24 # expand_replacement m b a r
     else if d = 0x26 then m @ expand_replacement m b a r
     else if d = 0x60 then b @ expand_replacement m b a r
     else if d = 0x27 then a @ expand_replacement m b a r
     else c # expand_replacement m b a (d # r))"

function replace_from :: "jsstr \<Rightarrow> jsstr \<Rightarrow> jsstr \<Rightarrow> jsstr \<Rightarrow> jsstr" where
  "replace_from key repl before s =
    (if s = [] \<or> key = [] then s
     else if starts_with s key then
       expand_replacement key before (drop (length key) s) repl
         @ replace_from key repl (before @ key) (drop (length key) s)
     else hd s # replace_from key repl (before @ [hd s]) (tl s))"
  by pat_completeness auto
termination
  by (relation "measure (\<lambda>(key, repl, before, s). length s)") auto

declare replace_from.simps [simp del]

definition replaceAll :: "jsstr \<Rightarrow> jsstr \<Rightarrow> jsstr \<Rightarrow> jsstr" where
  "replaceAll s key repl = replace_from key repl [] s"

definition normalizeMentionText :: "jsstr \<Rightarrow> fevent \<Rightarrow> jsstr" where
  "normalizeMentionText text e =
    trim (foldl (\<lambda>output m.
      (let key = trim (default [] (mention_key m)); name = trim (default [] (mention_name m)) in
       if key \<noteq> [] \<and> name \<noteq> [] then replaceAll output key ([0x40] @ name) else output))
      text (mentions e))"

definition post_item_text :: "jsval \<Rightarrow> jsstr option" where
  "post_item_text item =
    (if \<not> isRecord item then None
     else case field item ''text'' of VStr t \<Rightarrow> Some t
       | _ \<Rightarrow> (case field item ''user_name'' of VStr u \<Rightarrow> Some ([0x40] @ u) | _ \<Rightarrow> None))"

definition somes :: "'a option list \<Rightarrow> 'a list" where
  [js_eval]: "somes xs = List.map_filter (\<lambda>x. x) xs"

definition parsePostText :: "jsval \<Rightarrow> jsstr" where
  "parsePostText v =
    (let zh = (if isRecord (field v ''zh_cn'') then field v ''zh_cn'' else VUndef);
         cont = as_list (field zh ''content'');
         line_text = (\<lambda>line. case line of
             VArr items \<Rightarrow> (let lineParts = somes (map post_item_text items) in
               if lineParts = [] then None else Some (concat lineParts))
           | _ \<Rightarrow> None)
     in trim (join [0x0A] (somes (map line_text cont))))"

definition parseMessageText :: "fevent \<Rightarrow> jsstr" where
  "parseMessageText e =
    (if content e = [] then []
     else case json_parse (content e) of
       None \<Rightarrow> normalizeMentionText (content e) e
     | Some parsed \<Rightarrow>
        (if message_type e = js ''text'' \<and> isRecord parsed then
           (case field parsed ''text'' of VStr t \<Rightarrow> normalizeMentionText t e | _ \<Rightarrow> [])
         else if message_type e = js ''post'' \<and> isRecord parsed then parsePostText parsed
         else (case somes (map (\<lambda>k. as_string (field parsed k)) [''text'', ''title'', ''content'']) of
             t # _ \<Rightarrow> if isRecord parsed then normalizeMentionText t e
                     else js ''['' @ message_type e @ js '' message]''
           | [] \<Rightarrow> js ''['' @ message_type e @ js '' message]'')))"

section \<open>Admission in group chats\<close>

text \<open>\<open>XIAO_JU\<close> is the assistant's name as it appears in the source.\<close>

definition XIAO_JU :: jsstr where
  "XIAO_JU = [0x5C0F, 0x6A58]"

definition isBotMentioned :: "fevent \<Rightarrow> jsstr option \<Rightarrow> jsstr option \<Rightarrow> bool" where
  "isBotMentioned e botOpenId botName =
    (if \<not> isGroup e then True
     else (let named = (\<lambda>t. case botName of Some n \<Rightarrow> n \<noteq> [] \<and> str_includes t n | None \<Rightarrow> False) in
       (\<exists>m \<in> set (mentions e).
          (default [] botOpenId \<noteq> [] \<and> mention_open_id m = botOpenId)
          \<or> (case mention_name m of Some n \<Rightarrow> named n | None \<Rightarrow> False))
       \<or> str_includes (parseMessageText e) XIAO_JU \<or> named (parseMessageText e)))"

definition event_ids :: "fevent \<Rightarrow> jsstr list" where
  "event_ids e = filter (\<lambda>s. s \<noteq> []) (somes [Some (chat_id e), open_id e, user_id e, union_id e])"

definition isSenderAllowed :: "jsval \<Rightarrow> fevent \<Rightarrow> bool" where
  "isSenderAllowed config e =
    (if \<not> isGroup e then True
     else (let ids = event_ids e;
               allow = readStringArray (field config ''groupAllowFrom'');
               deny = readStringArray (field config ''groupDenyFrom'')
           in if (\<exists>i \<in> set deny. i \<in> set ids) then False
              else if field config ''groupPolicy'' = VStr (js ''allowlist'') \<and> allow \<noteq> []
              then (\<exists>i \<in> set allow. i \<in> set ids)
              else True))"

section \<open>Lemmas\<close>

lemma takeWhile_colon:
  "0x3A \<notin> set a \<Longrightarrow> takeWhile (\<lambda>c. c \<noteq> 0x3A) (a @ b) = a @ takeWhile (\<lambda>c. c \<noteq> (0x3A :: jschar)) b"
  by (induction a) auto

text \<open>Two texts with a colon-free head and a tail that is empty or starts with a colon.\<close>

lemma colon_split:
  assumes "a @ b = a' @ b'" "0x3A \<notin> set a" "0x3A \<notin> set (a' :: jsstr)"
    and "b = [] \<or> hd b = 0x3A" "b' = [] \<or> hd b' = 0x3A"
  shows "a = a' \<and> b = b'"
proof -
  have "takeWhile (\<lambda>c. c \<noteq> 0x3A) b = []" "takeWhile (\<lambda>c. c \<noteq> 0x3A) b' = []"
    using assms(4,5) by (cases b; cases b'; auto)+
  then have "a = a'" using takeWhile_colon [OF assms(2), of b] takeWhile_colon [OF assms(3), of b'] assms(1) by simp
  then show ?thesis using assms(1) by simp
qed

lemma first_nonempty_Some: "first_nonempty xs = Some s \<Longrightarrow> s \<noteq> [] \<and> Some s \<in> set xs"
  by (induction xs rule: first_nonempty.induct) (auto split: if_splits)

lemma expand_replacement_plain: "0x24 \<notin> set repl \<Longrightarrow> expand_replacement m b a repl = repl"
  by (induction m b a repl rule: expand_replacement.induct) auto

lemma replace_from_absent: "\<not> str_includes s key \<Longrightarrow> replace_from key repl before s = s"
proof (induction key repl before s rule: replace_from.induct)
  case (1 key repl before s)
  then show ?case by (subst replace_from.simps, cases s) auto
qed

text \<open>C12: The session key keeps conversations apart. Two events have the same key exactly when they came over the same account and
  either both are from group chats, from the same chat and the same thread of it, or both are direct messages of the same
  sender (of the same chat, when no id of the sender is known): separate chats, threads, senders and accounts never share a history
  (account and chat ids contain no colon, as Feishu's \<open>oc_...\<close> ids).\<close>

theorem session_key_isolation:
  assumes "0x3A \<notin> set acc1" and "0x3A \<notin> set acc2" and "0x3A \<notin> set (chat_id e1)" and "0x3A \<notin> set (chat_id e2)"
  shows "sessionKeyFor e1 acc1 = sessionKeyFor e2 acc2 \<longleftrightarrow> acc1 = acc2 \<and>
    (if isGroup e1 then isGroup e2 \<and> chat_id e1 = chat_id e2 \<and> threadOf e1 = threadOf e2
     else \<not> isGroup e2 \<and> default (chat_id e1) (senderIdFor e1) = default (chat_id e2) (senderIdFor e2))"
proof
  let ?tail = "\<lambda>e. case threadOf e of Some t \<Rightarrow> js '':thread:'' @ t | None \<Rightarrow> []"
  let ?rest = "\<lambda>e. if isGroup e then js '':group:'' @ chat_id e @ ?tail e
    else js '':dm:'' @ default (chat_id e) (senderIdFor e)"
  have key: "sessionKeyFor e acc = js ''feishu:'' @ acc @ ?rest e" for e acc
    by (simp add: sessionKeyFor_def senderIdFor_def)
  assume eq: "sessionKeyFor e1 acc1 = sessionKeyFor e2 acc2"
  have split: "acc1 = acc2 \<and> ?rest e1 = ?rest e2"
    by (rule colon_split [OF _ assms(1,2)]) (use eq [unfolded key] in \<open>auto simp: js_def\<close>)
  then have kind: "isGroup e1 = isGroup e2" by (auto simp: js_def split: if_splits)
  have "chat_id e1 = chat_id e2 \<and> threadOf e1 = threadOf e2" if g: "isGroup e1"
  proof -
    have "chat_id e1 @ ?tail e1 = chat_id e2 @ ?tail e2" using split g kind by simp
    then have "chat_id e1 = chat_id e2 \<and> ?tail e1 = ?tail e2"
      by (rule colon_split [OF _ assms(3,4)]) (auto simp: js_def split: option.splits)
    then show ?thesis by (auto simp: js_def split: option.splits)
  qed
  with split kind show "acc1 = acc2 \<and>
    (if isGroup e1 then isGroup e2 \<and> chat_id e1 = chat_id e2 \<and> threadOf e1 = threadOf e2
     else \<not> isGroup e2 \<and> default (chat_id e1) (senderIdFor e1) = default (chat_id e2) (senderIdFor e2))"
    by (cases "isGroup e2") simp_all
qed (auto simp: sessionKeyFor_def senderIdFor_def split: if_splits)

definition sample_event :: fevent where
  "sample_event = \<lparr> open_id = Some (js ''ou_1''), user_id = None, union_id = None,
     sender_type = Some (js ''user''), message_id = js ''om_1'', chat_id = js ''oc_1'',
     chat_type = js ''group'', message_type = js ''text'', content = js ''hello'',
     create_time = None, root_id = None, parent_id = None, thread_id = None, mentions = [] \<rparr>"

theorem session_key_isolation_witness:
  "sessionKeyFor sample_event (js ''main'') = sessionKeyFor (sample_event\<lparr>message_id := js ''om_2''\<rparr>) (js ''main'')
   \<and> sessionKeyFor (sample_event\<lparr>chat_type := js ''p2p''\<rparr>) (js ''main'')
      \<noteq> sessionKeyFor (sample_event\<lparr>chat_type := js ''p2p'', open_id := Some (js ''ou_2'')\<rparr>) (js ''main'')"
  using session_key_isolation [of "js ''main''" "js ''main''" sample_event "sample_event\<lparr>message_id := js ''om_2''\<rparr>"]
    session_key_isolation [of "js ''main''" "js ''main''" "sample_event\<lparr>chat_type := js ''p2p''\<rparr>"
      "sample_event\<lparr>chat_type := js ''p2p'', open_id := Some (js ''ou_2'')\<rparr>"]
  by (simp add: sample_event_def isGroup_def threadOf_def senderIdFor_def default_def js_def)

text \<open>Admission to group chats. A deny entry that names the chat or the sender blocks
  the message whatever the allow list says; in allowlist mode an empty (or wholly unreadable) allow
  list admits every sender that is not denied, and a non-empty one only those it names.\<close>

theorem sender_admission:
  "(isGroup e \<and> (\<exists>i \<in> set (readStringArray (field config ''groupDenyFrom'')). i \<in> set (event_ids e))
      \<longrightarrow> \<not> isSenderAllowed config e)
   \<and> (isGroup e \<and> field config ''groupPolicy'' = VStr (js ''allowlist'')
        \<and> readStringArray (field config ''groupAllowFrom'') \<noteq> [] \<and> isSenderAllowed config e
      \<longrightarrow> (\<exists>i \<in> set (readStringArray (field config ''groupAllowFrom'')). i \<in> set (event_ids e)))
   \<and> (readStringArray (field config ''groupAllowFrom'') = []
        \<and> \<not> (\<exists>i \<in> set (readStringArray (field config ''groupDenyFrom'')). i \<in> set (event_ids e))
      \<longrightarrow> isSenderAllowed config e)"
  by (auto simp: isSenderAllowed_def Let_def)

definition sample_group_config :: jsval where
  "sample_group_config = VObj [(js ''groupPolicy'', VStr (js ''allowlist'')),
     (js ''groupAllowFrom'', VArr [VStr (js ''oc_1'')]), (js ''groupDenyFrom'', VArr [VStr (js ''ou_9'')])]"

theorem sender_admission_witness:
  "isSenderAllowed sample_group_config sample_event
   \<and> \<not> isSenderAllowed sample_group_config (sample_event\<lparr>open_id := Some (js ''ou_9'')\<rparr>)
   \<and> isSenderAllowed (VObj [(js ''groupPolicy'', VStr (js ''allowlist''))]) sample_event"
proof -
  have "\<not> isSenderAllowed sample_group_config (sample_event\<lparr>open_id := Some (js ''ou_9'')\<rparr>)"
    using sender_admission [of "sample_event\<lparr>open_id := Some (js ''ou_9'')\<rparr>" sample_group_config]
    by (simp add: sample_group_config_def sample_event_def isGroup_def field_def js_def
        readStringArray_def event_ids_def somes_def trim_id is_space_def)
  moreover have "isSenderAllowed (VObj [(js ''groupPolicy'', VStr (js ''allowlist''))]) sample_event"
    using sender_admission [of sample_event "VObj [(js ''groupPolicy'', VStr (js ''allowlist''))]"]
    by (simp add: sample_event_def field_def js_def readStringArray_def)
  moreover have "isSenderAllowed sample_group_config sample_event"
    by (simp add: isSenderAllowed_def sample_group_config_def sample_event_def isGroup_def field_def js_def
        readStringArray_def event_ids_def somes_def trim_id is_space_def)
  ultimately show ?thesis by blast
qed

text \<open>What the event decoder keeps of a valid payload.\<close>

lemma parseMessagePayload_valid:
  assumes "parseMessagePayload v = Some e"
  shows "\<not> blank (message_id e) \<and> \<not> blank (chat_id e) \<and> \<not> blank (message_type e)
    \<and> trim (chat_type e) \<in> {js ''p2p'', js ''group'', js ''private''}"
proof -
  have str: "\<And>x s. readString x = Some s \<Longrightarrow>
      \<exists>t. x = VStr t \<and> s = trim t \<and> \<not> blank t \<and> as_string x = Some t"
    by (auto simp: readString_def as_string_def split: jsval.splits if_splits)
  have e: "e = decode_event v" using assms by (auto simp: parseMessagePayload_def Let_def split: if_splits)
  let ?m = "field v ''message''"
  from assms obtain a b c d where
    "readString (field ?m ''message_id'') = Some a" "readString (field ?m ''chat_id'') = Some b"
    "readString (field ?m ''message_type'') = Some c" "readString (field ?m ''chat_type'') = Some d"
    "d \<in> {js ''p2p'', js ''group'', js ''private''}"
    by (auto simp: parseMessagePayload_def Let_def split: if_splits)
  then show ?thesis unfolding e decode_event_def Let_def by (auto dest!: str)
qed

end
