(* ===== verification/TextRules.thy ===== *)
theory TextRules
  imports FeishuEvent
begin

text \<open>
  The pure text rules of \<open>src/src/feishu-service.ts\<close>: splitting a reply into messages
  (\<open>chunkReply\<close>), the bounded previews (\<open>truncateForDb\<close>, \<open>truncateForPrompt\<close>,
  \<open>summarizeUnknown\<close>), the context-document prompt, the redaction of error texts, the body
  of a Feishu post and the command line.

  \<open>chunkReply\<close> is a \<open>partial_function (option)\<close>: its inner loop advances by the configured
  limit, which a fraction between 0 and 1 rounds down to 0, and \<open>None\<close> is the loop
  that never returns.
\<close>

section \<open>Splitting a reply\<close>

definition DEFAULT_CHUNK_LIMIT :: nat where
  "DEFAULT_CHUNK_LIMIT = 3800"

definition chunkLimit :: "jsval \<Rightarrow> nat" where
  "chunkLimit config = (case field config ''textChunkLimit'' of
     VNum (Fin q) \<Rightarrow> (if q > 0 then nat (min \<lfloor>q\<rfloor> (int DEFAULT_CHUNK_LIMIT)) else DEFAULT_CHUNK_LIMIT)
   | _ \<Rightarrow> DEFAULT_CHUNK_LIMIT)"

partial_function (option) sliceLoop :: "nat \<Rightarrow> jsstr \<Rightarrow> nat \<Rightarrow> jsstr list \<Rightarrow> jsstr list option" where
  "sliceLoop limit s index chunks =
    (if index < length s
     then sliceLoop limit s (index + limit) (chunks @ [take limit (drop index s)])
     else Some chunks)"

declare sliceLoop.simps [code]

fun chunkLines :: "nat \<Rightarrow> jsstr list \<Rightarrow> jsstr list \<Rightarrow> jsstr list option" where
  "chunkLines limit [] chunks = Some chunks"
| "chunkLines limit (line # rest) chunks =
    (let trimmed = trim line in
     if trimmed = [] then chunkLines limit rest chunks
     else if length trimmed \<le> limit then chunkLines limit rest (chunks @ [trimmed])
     else (case sliceLoop limit trimmed 0 chunks of
         None \<Rightarrow> None
       | Some chunks' \<Rightarrow> chunkLines limit rest chunks'))"

definition chunkReply :: "jsstr \<Rightarrow> jsval \<Rightarrow> jsstr list option" where
  "chunkReply text config =
    (let limit = chunkLimit config; source = trim text in
     if source = [] then Some []
     else (case chunkLines limit (split_on 0x0A source) [] of
         None \<Rightarrow> None
       | Some chunks \<Rightarrow> Some (if chunks = [] then [source] else chunks)))"

section \<open>Bounded previews\<close>

definition truncateForDb :: "jsstr \<Rightarrow> nat \<Rightarrow> jsstr" where
  "truncateForDb s limit =
    (if length s > limit then take limit s @ [0x0A] @ js ''...[truncated for database]'' else s)"

definition summarizeText :: "jsstr \<Rightarrow> jsstr" where
  "summarizeText text = (if length text > 800 then take 800 text @ js ''...'' else text)"

text \<open>For the limits in use \<open>Math.floor(limit * 0.75)\<close> and \<open>Math.floor(limit * 0.15)\<close> are the
  exact integer quotients.\<close>

definition truncateForPrompt :: "jsstr \<Rightarrow> nat \<Rightarrow> jsstr" where
  "truncateForPrompt s limit =
    (if length s \<le> limit then s
     else (let headChars = max 1 (limit * 3 div 4); tailChars = max 1 (limit * 15 div 100) in
       join [0x0A] [take headChars s, [],
         js ''...[truncated '' @ int_str (int (length s) - int headChars - int tailChars) @ js '' chars]...'',
         [], take_last tailChars s]))"

section \<open>The context-document prompt\<close>

record context_document =
  doc_name :: jsstr
  doc_type :: jsstr
  doc_title :: "jsstr option"
  doc_content :: jsstr

definition CONTEXT_DOCUMENT_MAX_CHARS :: nat where
  "CONTEXT_DOCUMENT_MAX_CHARS = 12000"

definition CONTEXT_DOCUMENT_TOTAL_MAX_CHARS :: nat where
  "CONTEXT_DOCUMENT_TOTAL_MAX_CHARS = 36000"

definition contextHeader :: "jsstr list" where
  "contextHeader = [
     js ''## MySQL '' @ [0x4E0A, 0x4E0B, 0x6587, 0x6587, 0x6863],
     [0x4EE5, 0x4E0B, 0x5185, 0x5BB9, 0x6765, 0x81EA] @ js '' LittleBaby '' @ [0x7684, 0x957F,
     0x671F, 0x4E0A, 0x4E0B, 0x6587, 0x6587, 0x6863, 0x5E93, 0xFF0C, 0x7528, 0x6765, 0x7EA6,
     0x675F, 0x4EBA, 0x683C, 0x3001, 0x7528, 0x6237, 0x8BC6, 0x522B, 0x3001, 0x957F, 0x671F,
     0x8BB0, 0x5FC6, 0x548C, 0x5DE5, 0x5177, 0x504F, 0x597D, 0x3002],
     [0x8FD9, 0x4E9B, 0x6587, 0x6863, 0x4F18, 0x5148, 0x7EA7, 0x4F4E, 0x4E8E, 0x672C] @
     js '' system prompt '' @ [0x524D, 0x9762, 0x7684, 0x5B89, 0x5168, 0x89C4, 0x5219, 0x3001,
     0x5F53, 0x524D, 0x98DE, 0x4E66, 0x6D88, 0x606F, 0x548C, 0x7528, 0x6237, 0x660E, 0x786E,
     0x8981, 0x6C42, 0x3002],
     [0x4E0D, 0x8981, 0x5411, 0x7528, 0x6237, 0x6CC4, 0x9732, 0x6587, 0x6863, 0x4E2D, 0x7684,
     0x539F, 0x59CB, 0x98DE, 0x4E66] @ js '' ID'' @ [0x3001, 0x5185, 0x90E8, 0x8DEF, 0x5F84,
     0x6216, 0x9690, 0x79C1, 0x5185, 0x5BB9, 0xFF1B, 0x53EA, 0x628A, 0x5B83, 0x4EEC, 0x7528,
     0x4E8E, 0x8BC6, 0x522B, 0x548C, 0x751F, 0x6210, 0x66F4, 0x5408, 0x9002, 0x7684, 0x56DE,
     0x590D, 0x3002],
     [0x65E7] @ js '' AGENTS/TOOLS '' @ [0x91CC, 0x7684, 0x975E] @ js '' Feishu '' @ [0x5E73,
     0x53F0, 0x89C4, 0x5219, 0x53EA, 0x4F5C, 0x4E3A, 0x80CC, 0x666F, 0xFF0C, 0x4E0D, 0x8981,
     0x628A] @ js '' Discord/WhatsApp/Heartbeat '' @ [0x534F, 0x8BAE, 0x76F4, 0x63A5, 0x7167,
     0x642C, 0x5230, 0x98DE, 0x4E66, 0x56DE, 0x590D, 0x3002],
     []]"

definition documentBlock :: "context_document \<Rightarrow> jsstr" where
  "documentBlock d =
    (let body = truncateForPrompt (trim (doc_content d)) CONTEXT_DOCUMENT_MAX_CHARS;
         title = (case doc_title d of Some t \<Rightarrow> if t \<noteq> [] then js '' - '' @ t else [] | None \<Rightarrow> [])
     in join [0x0A] [js ''### '' @ doc_name d @ title, js ''type: '' @ doc_type d, [], body, []])"

fun documentSections :: "nat \<Rightarrow> context_document list \<Rightarrow> jsstr list" where
  "documentSections usedChars [] = []"
| "documentSections usedChars (d # ds) =
    (let block = documentBlock d in
     if usedChars \<ge> CONTEXT_DOCUMENT_TOTAL_MAX_CHARS
     then [js ''...[additional context documents truncated]...'']
     else if length block > CONTEXT_DOCUMENT_TOTAL_MAX_CHARS - usedChars
     then [truncateForPrompt block (CONTEXT_DOCUMENT_TOTAL_MAX_CHARS - usedChars)]
     else block # documentSections (usedChars + length block) ds)"

definition buildContextDocumentsPrompt :: "context_document list \<Rightarrow> jsstr" where
  "buildContextDocumentsPrompt documents =
    (if documents = [] then []
     else trim (join [0x0A]
       (contextHeader @ documentSections (length (join [0x0A] contextHeader)) documents)))"

section \<open>Redacting error texts\<close>

definition word_char :: "jschar \<Rightarrow> bool" where
  "word_char c \<longleftrightarrow> is_digit c \<or> (0x41 \<le> c \<and> c \<le> 0x5A) \<or> (0x61 \<le> c \<and> c \<le> 0x7A) \<or> c = 0x5F \<or> c = 0x2D"

definition token_char :: "jschar \<Rightarrow> bool" where
  "token_char c \<longleftrightarrow> word_char c \<or> c = 0x2E"

text \<open>\<open>/Bearer\s+[A-Za-z0-9._-]+/g\<close>.\<close>

lemma length_dropWhile_drop:
  "s \<noteq> [] \<Longrightarrow> length (dropWhile P (dropWhile Q (drop (Suc n) s))) < length s"
  using length_dropWhile_le [of P "dropWhile Q (drop (Suc n) s)"]
    length_dropWhile_le [of Q "drop (Suc n) s"] by (cases s) auto

function redact_bearer :: "jsstr \<Rightarrow> jsstr" where
  "redact_bearer s =
    (if s = [] then []
     else (let r = dropWhile is_space (drop 6 s) in
       if starts_with s (js ''Bearer'') \<and> drop 6 s \<noteq> [] \<and> is_space (hd (drop 6 s))
          \<and> r \<noteq> [] \<and> token_char (hd r)
       then js ''Bearer [redacted]'' @ redact_bearer (dropWhile token_char r)
       else hd s # redact_bearer (tl s)))"
  by pat_completeness auto

termination
  using length_dropWhile_drop [where n = 5]
  by (relation "measure length") (auto simp: numeral_eq_Suc)

declare redact_bearer.simps [simp del]

text \<open>\<open>/([A-Za-z0-9_-]{16,})\.[A-Za-z0-9._-]{8,}/g\<close>.\<close>

lemma length_dropWhile_tl:
  "s \<noteq> [] \<Longrightarrow> length (dropWhile P (tl (dropWhile Q s))) < length s"
proof -
  assume "s \<noteq> []"
  moreover have "length (dropWhile P (tl (dropWhile Q s))) \<le> length (dropWhile Q s) - 1"
    using length_dropWhile_le [of P "tl (dropWhile Q s)"] by simp
  ultimately show ?thesis
    using length_dropWhile_le [of Q s] by (cases "dropWhile Q s"; cases s) auto
qed

function redact_dotted :: "jsstr \<Rightarrow> jsstr" where
  "redact_dotted s =
    (if s = [] then []
     else (let r = dropWhile word_char s in
       if length (takeWhile word_char s) \<ge> 16 \<and> r \<noteq> [] \<and> hd r = 0x2E
          \<and> length (takeWhile token_char (tl r)) \<ge> 8
       then js ''[redacted-token]'' @ redact_dotted (dropWhile token_char (tl r))
       else hd s # redact_dotted (tl s)))"
  by pat_completeness auto

termination
  using length_dropWhile_tl
  by (relation "measure length") auto

declare redact_dotted.simps [simp del]

text \<open>
  \<open>/(api[_-]?key|token|secret)(["':= ]+)[^"',\s]+/gi\<close>: the separators are greedy and give
  back \<open>:\<close> or \<open>=\<close> when nothing but separators is left for the value.
\<close>

definition sep_char :: "jschar \<Rightarrow> bool" where
  "sep_char c \<longleftrightarrow> c \<in> {0x22, 0x27, 0x3A, 0x3D, 0x20}"

definition val_char :: "jschar \<Rightarrow> bool" where
  "val_char c \<longleftrightarrow> c \<notin> {0x22, 0x27, 0x2C} \<and> \<not> is_space c"

definition secret_word :: "jsstr \<Rightarrow> nat option" where
  "secret_word s = (let l = toLowerCase s in
     if starts_with l (js ''apikey'') then Some 6
     else if starts_with l (js ''api_key'') \<or> starts_with l (js ''api-key'') then Some 7
     else if starts_with l (js ''token'') then Some 5
     else if starts_with l (js ''secret'') then Some 6 else None)"

fun value_start :: "nat \<Rightarrow> jsstr \<Rightarrow> nat option" where
  "value_start 0 r = None"
| "value_start (Suc n) r =
    (if drop (Suc n) r \<noteq> [] \<and> val_char (hd (drop (Suc n) r)) then Some (Suc n) else value_start n r)"

lemma secret_word_pos: "secret_word s = Some k \<Longrightarrow> 0 < k"
  by (auto simp: secret_word_def Let_def split: if_splits)

function redact_secret :: "jsstr \<Rightarrow> jsstr" where
  "redact_secret s =
    (if s = [] then []
     else (case secret_word s of
         None \<Rightarrow> hd s # redact_secret (tl s)
       | Some k \<Rightarrow> (let r = drop k s in
           case value_start (length (takeWhile sep_char r)) r of
             None \<Rightarrow> hd s # redact_secret (tl s)
           | Some n \<Rightarrow> take k s @ take n r @ js ''[redacted]''
               @ redact_secret (dropWhile val_char (drop n r)))))"
  by pat_completeness auto

termination
proof (relation "measure length")
  fix s :: jsstr and k n r
  assume "s \<noteq> []" "secret_word s = Some k" "r = drop k s"
  then have "length r < length s" by (simp add: secret_word_pos)
  moreover have "length (dropWhile val_char (drop n r)) \<le> length r"
    using length_dropWhile_le [of val_char "drop n r"] by simp
  ultimately show "(dropWhile val_char (drop n r), s) \<in> measure length" by simp
qed auto

declare redact_secret.simps [simp del]

definition redactError :: "jsstr \<Rightarrow> jsstr" where
  "redactError raw = redact_secret (redact_dotted (redact_bearer raw))"

section \<open>The body of a Feishu post\<close>

definition postValue :: "jsstr \<Rightarrow> jsval" where
  "postValue text = VObj [(js ''zh_cn'', VObj [(js ''content'', VArr [VArr [VObj [
     (js ''tag'', VStr (js ''md'')), (js ''text'', VStr text)]]])])]"

definition buildPostContent :: "jsstr \<Rightarrow> jsstr" where
  "buildPostContent text = default [] (json_stringify [] (postValue text))"

section \<open>The command line\<close>

datatype options_result = OptionsOk | OptionsHelp | UnsupportedOption jsstr

fun parseOptions :: "jsstr list \<Rightarrow> options_result" where
  "parseOptions [] = OptionsOk"
| "parseOptions (token # rest) =
    (if token = js ''--help'' \<or> token = js ''-h'' then OptionsHelp
     else if token = js ''--allow-unconfigured'' then parseOptions rest
     else if token = js ''--port'' \<or> token = js ''--bind'' then parseOptions (tl rest)
     else if starts_with token (js ''--port='') \<or> starts_with token (js ''--bind='') then parseOptions rest
     else UnsupportedOption token)"

definition parseServiceOptions :: "jsstr list \<Rightarrow> options_result" where
  "parseServiceOptions argv = parseOptions (drop 2 argv)"

section \<open>Chunks\<close>

text \<open>The reference: consecutive pieces of at most \<open>n\<close> units.\<close>

function pieces :: "nat \<Rightarrow> 'a list \<Rightarrow> 'a list list" where
  "pieces n xs = (if n = 0 \<or> xs = [] then [] else take n xs # pieces n (drop n xs))"
  by pat_completeness auto
termination
  by (relation "measure (\<lambda>(n, xs). length xs)") auto

declare pieces.simps [simp del]

lemma pieces_Nil [simp]: "pieces n [] = []"
  by (simp add: pieces.simps)

lemma pieces_short: "xs \<noteq> [] \<Longrightarrow> length xs \<le> n \<Longrightarrow> pieces n xs = [xs]"
  by (cases "n = 0") (auto simp: pieces.simps [of n xs])

lemma concat_pieces: "0 < n \<Longrightarrow> concat (pieces n xs) = xs"
proof (induction n xs rule: pieces.induct)
  case (1 n xs)
  then show ?case by (cases "xs = []") (simp_all add: pieces.simps [of n xs])
qed

lemma pieces_bounds: "p \<in> set (pieces n xs) \<Longrightarrow> p \<noteq> [] \<and> length p \<le> n"
proof (induction n xs rule: pieces.induct)
  case (1 n xs)
  then show ?case by (auto simp: pieces.simps [of n xs] split: if_splits)
qed

lemma pieces_eq_Nil: "0 < n \<Longrightarrow> pieces n xs = [] \<longleftrightarrow> xs = []"
  by (simp add: pieces.simps [of n xs])

lemma sliceLoop_pieces:
  "0 < limit \<Longrightarrow> sliceLoop limit s index acc = Some (acc @ pieces limit (drop index s))"
proof (induction "length s - index" arbitrary: index acc rule: less_induct)
  case less
  show ?case
  proof (cases "index < length s")
    case True
    with less have "sliceLoop limit s (index + limit) (acc @ [take limit (drop index s)])
      = Some ((acc @ [take limit (drop index s)]) @ pieces limit (drop (index + limit) s))"
      by (intro less.hyps) auto
    with True less.prems show ?thesis
      by (simp add: sliceLoop.simps [of limit s index] pieces.simps [of limit "drop index s"] add.commute)
  next
    case False
    then show ?thesis by (simp add: sliceLoop.simps)
  qed
qed

lemma sliceLoop_returns:
  assumes "sliceLoop limit s index acc = Some r"
  shows "limit \<noteq> 0 \<or> length s \<le> index"
proof (rule sliceLoop.raw_induct [where P = "\<lambda>l s i a r. l \<noteq> 0 \<or> length s \<le> i", OF _ assms])
  fix f :: "nat \<Rightarrow> jsstr \<Rightarrow> nat \<Rightarrow> jsstr list \<Rightarrow> jsstr list option" and l s i a r
  assume IH: "\<And>l s i a r. f l s i a = Some r \<Longrightarrow> l \<noteq> 0 \<or> length s \<le> i"
    and eq: "(if i < length s then f l s (i + l) (a @ [take l (drop i s)]) else Some a) = Some r"
  show "l \<noteq> 0 \<or> length s \<le> i"
    using IH [of l s "i + l" "a @ [take l (drop i s)]" r] eq by (cases "i < length s") auto
qed

lemma sliceLoop_diverges: "index < length s \<Longrightarrow> sliceLoop 0 s index acc = None"
  using sliceLoop_returns [of 0 s index acc] by (cases "sliceLoop 0 s index acc") auto

lemma trim_blank [simp]: "blank s \<Longrightarrow> trim s = []" by simp

lemma chunkLines_pieces:
  "0 < limit \<Longrightarrow> chunkLines limit ls acc = Some (acc @ concat (map (\<lambda>l. pieces limit (trim l)) ls))"
  by (induction ls arbitrary: acc) (auto simp: Let_def sliceLoop_pieces pieces_short trim_blank)

lemma chunkLines_diverges:
  "\<exists>l \<in> set ls. \<not> blank l \<Longrightarrow> chunkLines 0 ls acc = None"
  by (induction ls arbitrary: acc) (auto simp: Let_def sliceLoop_diverges)

lemma blank_join:
  "blank sep \<Longrightarrow> blank (join sep ls) \<longleftrightarrow> (\<forall>l \<in> set ls. blank l)"
  by (induction sep ls rule: join.induct) (auto simp: blank_def)

lemma nonblank_line:
  assumes "\<not> blank s"
  shows "\<exists>l \<in> set (split_on 0x0A s). \<not> blank l"
  using assms blank_join [of "[0x0A]" "split_on 0x0A s"]
  by (auto simp: join_split_on) (simp add: blank_def is_space_def)

lemma chunkReply_spec:
  assumes "0 < chunkLimit config"
  shows "chunkReply text config =
    Some (concat (map (\<lambda>l. pieces (chunkLimit config) (trim l)) (split_on 0x0A (trim text))))"
proof (cases "blank text")
  case True
  then show ?thesis using assms by (simp add: chunkReply_def)
next
  case False
  define cs where "cs = concat (map (\<lambda>l. pieces (chunkLimit config) (trim l)) (split_on 0x0A (trim text)))"
  have "\<not> blank (trim text)" using False trim_Nil_iff trim_idem by metis
  then have "cs \<noteq> []"
    using nonblank_line [of "trim text"] assms by (auto simp: cs_def pieces_eq_Nil)
  moreover have "chunkLines (chunkLimit config) (split_on 0x0A (trim text)) [] = Some cs"
    using assms by (simp add: chunkLines_pieces cs_def)
  ultimately show ?thesis using False by (simp add: chunkReply_def Let_def flip: cs_def)
qed

lemma chunkReply_diverges:
  assumes "chunkLimit config = 0" and "\<not> blank text"
  shows "chunkReply text config = None"
proof -
  have "\<not> blank (trim text)" using assms(2) trim_Nil_iff trim_idem by metis
  then have "chunkLines 0 (split_on 0x0A (trim text)) [] = None"
    by (intro chunkLines_diverges nonblank_line)
  then show ?thesis using assms by (simp add: chunkReply_def Let_def)
qed

lemma chunkLimit_le: "chunkLimit config \<le> 3800"
  by (auto simp: chunkLimit_def DEFAULT_CHUNK_LIMIT_def split: jsval.splits jsnum.splits)

lemma chunkLimit_zero_iff:
  "chunkLimit config = 0 \<longleftrightarrow> (\<exists>q. field config ''textChunkLimit'' = VNum (Fin q) \<and> 0 < q \<and> q < 1)"
  by (auto simp: chunkLimit_def DEFAULT_CHUNK_LIMIT_def floor_less_iff min_le_iff_disj split: jsval.splits jsnum.splits)

section \<open>Bounds of the previews\<close>

lemma nat_str_length: "n < 10 ^ k \<Longrightarrow> 0 < k \<Longrightarrow> length (nat_str n) \<le> k"
proof (induction k arbitrary: n)
  case (Suc k)
  show ?case
  proof (cases "n < 10")
    case True
    then show ?thesis by (simp add: nat_str.simps)
  next
    case False
    with Suc.prems have k: "0 < k" by (cases k) auto
    from Suc.prems have "n div 10 < 10 ^ k" by (simp add: less_mult_imp_div_less mult.commute)
    with Suc.IH [of "n div 10"] k have "length (nat_str (n div 10)) \<le> k" by simp
    then show ?thesis using False by (simp add: nat_str.simps [of n])
  qed
qed simp

lemma truncateForPrompt_short: "length s \<le> limit \<Longrightarrow> truncateForPrompt s limit = s"
  by (simp add: truncateForPrompt_def)

lemma truncateForPrompt_length:
  assumes "length s < 10 ^ 10" and "0 < limit"
  shows "length (truncateForPrompt s limit) \<le>
    (if length s \<le> limit then length s else max 1 (limit * 3 div 4) + max 1 (limit * 15 div 100) + 38)"
proof (cases "length s \<le> limit")
  case False
  let ?h = "max 1 (limit * 3 div 4)" and ?t = "max 1 (limit * 15 div 100)"
  have ht: "?h + ?t \<le> length s" using False assms(2) by linarith
  have "length (int_str (int (length s) - int ?h - int ?t)) \<le> 10"
    using nat_str_length [of "nat (int (length s) - int ?h - int ?t)" 10] assms ht
    by (simp add: int_str_def)
  then show ?thesis using False by (simp add: truncateForPrompt_def js_def Let_def)
qed (simp add: truncateForPrompt_def)

lemma truncateForPrompt_le_limit:
  assumes "length s < 10 ^ 10" and "400 \<le> limit"
  shows "length (truncateForPrompt s limit) \<le> limit"
proof (cases "length s \<le> limit")
  case False
  have "limit * 3 div 4 + limit * 15 div 100 + 38 \<le> limit" using assms(2) by linarith
  moreover have "1 \<le> limit * 3 div 4" "1 \<le> limit * 15 div 100" using assms(2) by auto
  ultimately show ?thesis using truncateForPrompt_length [OF assms(1), of limit] assms(2) False by simp
qed (simp add: truncateForPrompt_def)

lemma truncateForPrompt_le_small:
  assumes "length s < 10 ^ 10" and "0 < limit"
  shows "length (truncateForPrompt s limit) \<le> limit + 40"
proof (cases "length s \<le> limit")
  case False
  have "max 1 (limit * 3 div 4) + max 1 (limit * 15 div 100) \<le> limit + 2" by linarith
  then show ?thesis using truncateForPrompt_length [OF assms] False by simp
qed (simp add: truncateForPrompt_def)

lemma length_contextHeader: "length (join [0x0A] contextHeader) = 242 \<and> length contextHeader = 6"
  by (simp add: contextHeader_def js_def)

text \<open>The sections' own lengths, without the newlines that join them.\<close>

lemma documentSections_total:
  assumes "\<forall>d \<in> set ds. length (documentBlock d) < 10 ^ 10" and "used \<le> 36000"
  shows "used + sum_list (map length (documentSections used ds)) \<le> 36000 + 60"
  using assms
proof (induction ds arbitrary: used)
  case (Cons d ds)
  let ?b = "documentBlock d" and ?r = "36000 - used"
  show ?case
  proof (cases "used = 36000 \<or> length ?b > ?r")
    case True
    then show ?thesis using Cons.prems truncateForPrompt_le_small [of ?b ?r]
      by (auto simp: Let_def CONTEXT_DOCUMENT_TOTAL_MAX_CHARS_def js_def)
  next
    case False
    then have "used + length ?b \<le> 36000" using Cons.prems(2) by linarith
    with False Cons.prems Cons.IH [of "used + length ?b"] show ?thesis
      by (simp add: Let_def CONTEXT_DOCUMENT_TOTAL_MAX_CHARS_def add.assoc)
  qed
qed simp

lemma length_documentSections: "length (documentSections used ds) \<le> length ds"
  by (induction ds arbitrary: used) (auto simp: Let_def)

lemma documentBlock_length:
  assumes "length (doc_content d) < 10 ^ 10"
    and "length (doc_name d) + length (doc_type d) + length (default [] (doc_title d)) < 10 ^ 9"
  shows "length (documentBlock d) < 10 ^ 10"
proof -
  have "length (trim (doc_content d)) < 10 ^ 10"
    using length_trim_le [of "doc_content d"] assms(1) by linarith
  then have "length (truncateForPrompt (trim (doc_content d)) 12000) \<le> 12000"
    by (rule truncateForPrompt_le_limit) simp
  then show ?thesis using assms(2)
    by (auto simp: documentBlock_def CONTEXT_DOCUMENT_MAX_CHARS_def Let_def js_def default_def
        split: option.splits)
qed

section \<open>Options\<close>

lemma parseOptions_unsupported:
  "parseOptions ts = UnsupportedOption t \<Longrightarrow>
   t \<in> set ts \<and> t \<noteq> js ''--help'' \<and> t \<noteq> js ''-h'' \<and> t \<noteq> js ''--allow-unconfigured''
   \<and> t \<noteq> js ''--port'' \<and> t \<noteq> js ''--bind''
   \<and> \<not> starts_with t (js ''--port='') \<and> \<not> starts_with t (js ''--bind='')"
proof (induction ts rule: parseOptions.induct)
  case (2 token rest)
  then show ?case by (cases rest) (auto split: if_splits)
qed simp

section \<open>Posts\<close>

lemma json_safe_postValue: "json_safe (postValue t)"
  by (simp add: postValue_def js_def)

lemma buildPostContent_ser: "buildPostContent t = ser (postValue t)"
  by (simp add: buildPostContent_def json_stringify_ser json_safe_postValue default_def)

lemma parse_post_content: "json_parse (buildPostContent t) = Some (postValue t)"
  by (simp add: buildPostContent_ser json_round_trip json_safe_postValue)

lemma buildPostContent_nonempty: "buildPostContent t \<noteq> []"
  using ser_start [OF json_safe_postValue] by (simp add: buildPostContent_ser)

lemma parsePostText_postValue: "parsePostText (postValue t) = trim t"
  by (simp add: parsePostText_def postValue_def field_def isRecord_def as_list_def post_item_text_def
      somes_def js_def Let_def)

lemma concat_pieces_lines:
  "0 < n \<Longrightarrow> concat (concat (map (\<lambda>l. pieces n (trim l)) ls)) = concat (map trim ls)"
  by (induction ls) (auto simp: concat_pieces)

section \<open>Properties\<close>

text \<open>C10: Splitting a reply returns unless the configured \<open>textChunkLimit\<close> is a number
  strictly between 0 and 1: \<open>Math.floor\<close> makes that limit 0, and the slicing loop of the first
  non-blank line then pushes empty slices for ever.\<close>

theorem chunkReply_diverges_iff:
  "chunkReply reply config = None \<longleftrightarrow>
    \<not> blank reply \<and> (\<exists>q. field config ''textChunkLimit'' = VNum (Fin q) \<and> 0 < q \<and> q < 1)"
proof (cases "chunkLimit config = 0")
  case True
  then have "\<exists>q. field config ''textChunkLimit'' = VNum (Fin q) \<and> 0 < q \<and> q < 1"
    by (simp add: chunkLimit_zero_iff)
  moreover have "blank reply \<Longrightarrow> chunkReply reply config = Some []"
    by (simp add: chunkReply_def Let_def)
  ultimately show ?thesis using chunkReply_diverges [OF True, of reply] by auto
next
  case False
  then show ?thesis using chunkReply_spec [of config reply] chunkLimit_zero_iff [of config] by auto
qed

text \<open>C11: Every message of a split reply is non-empty and within the limit (at most 3800
  units), and together they are the trimmed lines of the reply, in order, with nothing lost.\<close>

theorem chunkReply_bounds_and_content:
  assumes "chunkReply reply config = Some chunks"
  shows "(\<forall>c \<in> set chunks. c \<noteq> [] \<and> length c \<le> chunkLimit config \<and> length c \<le> 3800)
    \<and> concat chunks = concat (map trim (split_on 0x0A (trim reply)))"
proof (cases "chunkLimit config = 0")
  case True
  then have b: "blank reply" using chunkReply_diverges [of config reply] assms True by auto
  then have "chunks = []" using assms by (simp add: chunkReply_def Let_def)
  then show ?thesis using b by simp
next
  case False
  then have cs: "chunks = concat (map (\<lambda>l. pieces (chunkLimit config) (trim l)) (split_on 0x0A (trim reply)))"
    using chunkReply_spec [of config reply] assms by simp
  have "c \<noteq> [] \<and> length c \<le> chunkLimit config \<and> length c \<le> 3800" if "c \<in> set chunks" for c
    using that cs pieces_bounds chunkLimit_le [of config] by fastforce
  moreover have "concat chunks = concat (map trim (split_on 0x0A (trim reply)))"
    using False unfolding cs by (simp add: concat_pieces_lines)
  ultimately show ?thesis by blast
qed

theorem chunkReply_bounds_and_content_witness:
  "chunkReply (js ''ab'') (VObj [(js ''textChunkLimit'', VNum (Fin 1))]) = Some [js ''a'', js ''b'']
   \<and> concat [js ''a'', js ''b''] = concat (map trim (split_on 0x0A (trim (js ''ab''))))"
proof -
  have "chunkReply (js ''ab'') (VObj [(js ''textChunkLimit'', VNum (Fin 1))]) = Some [js ''a'', js ''b'']"
    by (simp add: chunkReply_spec chunkLimit_def field_def js_def trim_id is_space_def blank_def
        DEFAULT_CHUNK_LIMIT_def pieces.simps)
  with chunkReply_bounds_and_content [OF this] show ?thesis by blast
qed

text \<open>The context-document prompt exceeds its budget of 36000 units by at most 60 units for
  the text that replaces a cut document plus one newline per document (documents of realistic size).\<close>

theorem context_prompt_bound:
  assumes "\<forall>d \<in> set documents. length (doc_content d) < 10 ^ 10
    \<and> length (doc_name d) + length (doc_type d) + length (default [] (doc_title d)) < 10 ^ 9"
  shows "length (buildContextDocumentsPrompt documents) \<le> 36060 + length documents"
proof (cases "documents = []")
  case False
  let ?used = "length (join [0x0A] contextHeader)"
  let ?secs = "documentSections ?used documents"
  have "?used + sum_list (map length ?secs) \<le> 36060"
    using documentSections_total [of documents ?used] documentBlock_length assms
    by (simp add: length_contextHeader)
  moreover have "length ?secs \<le> length documents" by (rule length_documentSections)
  moreover have "length (join [0x0A] (contextHeader @ ?secs)) = ?used + sum_list (map length ?secs) + length ?secs"
    using length_contextHeader by (auto simp: length_join)
  moreover have "length (buildContextDocumentsPrompt documents) \<le> length (join [0x0A] (contextHeader @ ?secs))"
    using False by (simp add: buildContextDocumentsPrompt_def length_trim_le)
  ultimately show ?thesis by linarith
qed (simp add: buildContextDocumentsPrompt_def)

theorem context_prompt_bound_witness:
  "length (buildContextDocumentsPrompt
     [\<lparr> doc_name = js ''USER'', doc_type = js ''note'', doc_title = None, doc_content = js ''x'' \<rparr>]) \<le> 36061"
  using context_prompt_bound
    [of "[\<lparr> doc_name = js ''USER'', doc_type = js ''note'', doc_title = None, doc_content = js ''x'' \<rparr>]"]
  by (simp add: js_def default_def)

text \<open>The service options. A token is rejected only if it is no option of the service; the
  argument of \<open>--port\<close> and \<open>--bind\<close> is skipped unread, so the systemd command line is accepted
  whatever values it passes.\<close>

theorem service_options:
  "(\<forall>t. parseServiceOptions argv = UnsupportedOption t \<longrightarrow>
      t \<in> set argv \<and> t \<notin> {js ''--help'', js ''-h'', js ''--allow-unconfigured'', js ''--port'', js ''--bind''}
      \<and> \<not> starts_with t (js ''--port='') \<and> \<not> starts_with t (js ''--bind=''))
   \<and> parseServiceOptions [node, script, js ''--port'', p, js ''--bind'', b] = OptionsOk"
proof -
  have "t \<in> set argv \<and> t \<notin> {js ''--help'', js ''-h'', js ''--allow-unconfigured'', js ''--port'', js ''--bind''}
      \<and> \<not> starts_with t (js ''--port='') \<and> \<not> starts_with t (js ''--bind='')"
    if "parseServiceOptions argv = UnsupportedOption t" for t
    using that parseOptions_unsupported [of "drop 2 argv" t] in_set_dropD [of t 2 argv]
    by (auto simp: parseServiceOptions_def)
  moreover have "parseServiceOptions [node, script, js ''--port'', p, js ''--bind'', b] = OptionsOk"
    by (simp add: parseServiceOptions_def js_def)
  ultimately show ?thesis by blast
qed

theorem service_options_witness:
  "parseServiceOptions [js ''node'', js ''x.js'', js ''--web''] = UnsupportedOption (js ''--web'')
   \<and> js ''--web'' \<in> set [js ''node'', js ''x.js'', js ''--web'']"
proof -
  have "parseServiceOptions [js ''node'', js ''x.js'', js ''--web''] = UnsupportedOption (js ''--web'')"
    by (simp add: parseServiceOptions_def js_def starts_with_def)
  with service_options [of "[js ''node'', js ''x.js'', js ''--web'']"] show ?thesis by blast
qed

text \<open>What the service sends it can read: a post built from a text is parsed back to that text,
  trimmed.\<close>

theorem post_round_trip:
  "parseMessageText (e\<lparr>message_type := js ''post'', content := buildPostContent t\<rparr>) = trim t"
  by (simp add: parseMessageText_def buildPostContent_nonempty parse_post_content parsePostText_postValue)
     (simp add: postValue_def isRecord_def js_def)

end
