(* ===== verification/Aggregator.thy ===== *)
theory Aggregator
  imports FeishuEvent
begin

text \<open>
  \<open>MessageAggregator\<close> (\<open>src/src/feishu-service.ts\<close>): messages of one sender that arrive
  within a short window are merged into one \<open>AggregatedMessage\<close>.  The state has the class's
  three maps; a timer is its deadline in milliseconds.  \<open>onSubmit\<close> is a callback: each
  operation returns the messages it submits.  \<open>now\<close> stands for \<open>Date.now()\<close> during one
  synchronous operation and \<open>rid\<close> for the request id that \<open>generateRequestId\<close> draws.
\<close>

section \<open>Data\<close>

record image_data =
  img_base64 :: jsstr
  img_mimeType :: jsstr
  img_filePath :: "jsstr option"

record db_ref =
  ref_sessionId :: int
  ref_messageId :: int

record item =
  it_event :: fevent
  it_text :: jsstr
  it_images :: "image_data list"
  it_imagePaths :: "jsstr list"
  it_ts :: int
  it_mentioned :: bool
  it_dbRef :: "db_ref option"

record aggregated =
  ag_requestId :: jsstr
  ag_items :: "item list"
  ag_sessionKey :: jsstr
  ag_senderId :: jsstr
  ag_senderName :: jsstr
  ag_chatId :: jsstr
  ag_chatType :: jsstr
  ag_accountId :: jsstr

record push_params =
  pp_item :: item
  pp_senderId :: jsstr
  pp_senderName :: jsstr
  pp_sessionKey :: jsstr
  pp_chatId :: jsstr
  pp_chatType :: jsstr
  pp_accountId :: jsstr
  pp_immediate :: bool

record aggregator =
  timers :: "(jsstr, int) jsmap"
  buffers :: "(jsstr, aggregated) jsmap"
  windowStarts :: "(jsstr, int) jsmap"
  windowMs :: int
  maxMessages :: nat
  maxWindowMs :: int

definition AGGREGATE_IMAGE_EXTRA_WINDOW_MS :: int where
  "AGGREGATE_IMAGE_EXTRA_WINDOW_MS = 2000"

definition new_aggregator :: "int option \<Rightarrow> nat option \<Rightarrow> int option \<Rightarrow> aggregator" where
  "new_aggregator w m mw = \<lparr> timers = [], buffers = [], windowStarts = [],
     windowMs = default 3000 w, maxMessages = default 5 m, maxWindowMs = default 10000 mw \<rparr>"

section \<open>Operations\<close>

definition agg_flush :: "jsstr \<Rightarrow> aggregator \<Rightarrow> aggregator \<times> aggregated list" where
  "agg_flush key s =
    (let aggregated = mget (buffers s) key;
         s' = s\<lparr> timers := mdel (timers s) key, buffers := mdel (buffers s) key,
                 windowStarts := mdel (windowStarts s) key \<rparr>
     in case aggregated of
          Some a \<Rightarrow> (s', if ag_items a \<noteq> [] then [a] else [])
        | None \<Rightarrow> (s', []))"

definition agg_resetTimer :: "jsstr \<Rightarrow> int \<Rightarrow> int \<Rightarrow> aggregator \<Rightarrow> aggregator" where
  "agg_resetTimer key extraMs now s = s\<lparr> timers := mput (timers s) key (now + windowMs s + extraMs) \<rparr>"

definition image_extra :: "item \<Rightarrow> int" where
  "image_extra i = (if it_images i \<noteq> [] then AGGREGATE_IMAGE_EXTRA_WINDOW_MS else 0)"

definition agg_push :: "push_params \<Rightarrow> int \<Rightarrow> jsstr \<Rightarrow> aggregator \<Rightarrow> aggregator \<times> aggregated list" where
  "agg_push p now rid s =
    (let key = pp_senderId p in
     case mget (buffers s) key of
       Some existing \<Rightarrow>
         (let existing' = existing\<lparr> ag_items := ag_items existing @ [pp_item p] \<rparr>;
              s1 = s\<lparr> buffers := mput (buffers s) key existing' \<rparr>;
              windowStart = default now (mget (windowStarts s) key);
              elapsed = now - windowStart
          in if pp_immediate p \<or> length (ag_items existing') \<ge> maxMessages s \<or> elapsed \<ge> maxWindowMs s
             then agg_flush key s1
             else (agg_resetTimer key (image_extra (pp_item p)) now s1, []))
     | None \<Rightarrow>
         (let aggregated = \<lparr> ag_requestId = rid, ag_items = [pp_item p], ag_sessionKey = pp_sessionKey p,
                ag_senderId = pp_senderId p, ag_senderName = pp_senderName p, ag_chatId = pp_chatId p,
                ag_chatType = pp_chatType p, ag_accountId = pp_accountId p \<rparr>;
              s1 = s\<lparr> buffers := mput (buffers s) key aggregated,
                      windowStarts := mput (windowStarts s) key now \<rparr>
          in if pp_immediate p then agg_flush key s1
             else (agg_resetTimer key (image_extra (pp_item p)) now s1, [])))"

fun agg_flush_keys :: "jsstr list \<Rightarrow> aggregator \<Rightarrow> aggregator \<times> aggregated list" where
  "agg_flush_keys [] s = (s, [])"
| "agg_flush_keys (k # ks) s =
    (let (s1, o1) = agg_flush k s; (s2, o2) = agg_flush_keys ks s1 in (s2, o1 @ o2))"

definition agg_flushAll :: "aggregator \<Rightarrow> aggregator \<times> aggregated list" where
  "agg_flushAll s = agg_flush_keys (mkeys (buffers s)) s"

text \<open>The callback of an armed timer; a timer that was cleared does not fire.\<close>

definition agg_timerFires :: "jsstr \<Rightarrow> int \<Rightarrow> aggregator \<Rightarrow> aggregator \<times> aggregated list" where
  "agg_timerFires key now s =
    (case mget (timers s) key of
       Some deadline \<Rightarrow> if deadline \<le> now then agg_flush key s else (s, [])
     | None \<Rightarrow> (s, []))"

datatype agg_op = Push push_params int jsstr | TimerFires jsstr int | FlushAll

fun agg_step :: "aggregator \<Rightarrow> agg_op \<Rightarrow> aggregator \<times> aggregated list" where
  "agg_step s (Push p now rid) = agg_push p now rid s"
| "agg_step s (TimerFires key now) = agg_timerFires key now s"
| "agg_step s FlushAll = agg_flushAll s"

section \<open>Invariant\<close>

text \<open>
  Between operations every buffered sender has an armed timer and a window start, its buffer
  is filed under its own id, holds at least one item and fewer than the maximum.
\<close>

definition agg_ok :: "aggregator \<Rightarrow> bool" where
  "agg_ok s \<longleftrightarrow>
     distinct (mkeys (buffers s)) \<and> distinct (mkeys (timers s)) \<and> distinct (mkeys (windowStarts s))
   \<and> (\<forall>k. mhas (timers s) k \<longleftrightarrow> mhas (buffers s) k)
   \<and> (\<forall>k. mhas (windowStarts s) k \<longleftrightarrow> mhas (buffers s) k)
   \<and> (\<forall>k a. mget (buffers s) k = Some a \<longrightarrow>
        ag_senderId a = k \<and> ag_items a \<noteq> [] \<and> length (ag_items a) < max 2 (maxMessages s))"

lemma agg_ok_new: "agg_ok (new_aggregator w m mw)"
  by (simp add: agg_ok_def new_aggregator_def)

lemma agg_flush_parts:
  "fst (agg_flush key s) = s\<lparr> timers := mdel (timers s) key, buffers := mdel (buffers s) key,
      windowStarts := mdel (windowStarts s) key \<rparr>"
  "snd (agg_flush key s) = (case mget (buffers s) key of
      Some a \<Rightarrow> if ag_items a \<noteq> [] then [a] else [] | None \<Rightarrow> [])"
  by (auto simp: agg_flush_def Let_def split: option.splits)

lemma agg_ok_flush: "agg_ok s \<Longrightarrow> agg_ok (fst (agg_flush key s))"
  by (auto simp: agg_ok_def agg_flush_parts)

text \<open>A push that ends in a flush leaves the state as if the sender had had no buffer.\<close>

lemma agg_ok_flush_pushed:
  assumes "agg_ok s"
  shows "agg_ok (fst (agg_flush key (s\<lparr> buffers := mput (buffers s) key a \<rparr>)))"
    and "agg_ok (fst (agg_flush key (s\<lparr> buffers := mput (buffers s) key a,
      windowStarts := mput (windowStarts s) key now \<rparr>)))"
  using assms by (auto simp: agg_ok_def agg_flush_parts)

lemma agg_ok_push: "agg_ok s \<Longrightarrow> agg_ok (fst (agg_push p now rid s))"
proof -
  assume ok: "agg_ok s"
  show ?thesis
  proof (cases "mget (buffers s) (pp_senderId p)")
    case None
    then have "\<not> mhas (buffers s) (pp_senderId p)" by (simp add: mhas_mget)
    with None ok show ?thesis
      by (auto simp: agg_push_def Let_def agg_resetTimer_def agg_ok_flush_pushed)
         (auto simp: agg_ok_def)
  next
    case (Some a)
    then have k: "mhas (buffers s) (pp_senderId p)" by (simp add: mhas_mget)
    from Some ok k show ?thesis
      by (auto simp: agg_push_def Let_def agg_resetTimer_def agg_ok_flush_pushed)
         (auto simp: agg_ok_def)
  qed
qed

lemma agg_ok_flush_keys: "agg_ok s \<Longrightarrow> agg_ok (fst (agg_flush_keys ks s))"
  by (induction ks arbitrary: s) (auto simp: case_prod_beta Let_def agg_ok_flush)

lemma agg_ok_step: "agg_ok s \<Longrightarrow> agg_ok (fst (agg_step s a))"
  by (cases a) (auto simp: agg_ok_push agg_timerFires_def agg_flushAll_def agg_ok_flush_keys
    agg_ok_flush split: option.splits)

section \<open>Conservation\<close>

definition agg_contents :: "aggregator \<Rightarrow> jsstr \<Rightarrow> item list" where
  "agg_contents s k = (case mget (buffers s) k of Some a \<Rightarrow> ag_items a | None \<Rightarrow> [])"

definition agg_delivered :: "aggregated list \<Rightarrow> jsstr \<Rightarrow> item list" where
  "agg_delivered out k = concat (map ag_items (filter (\<lambda>a. ag_senderId a = k) out))"

fun agg_pushed :: "agg_op \<Rightarrow> jsstr \<Rightarrow> item list" where
  "agg_pushed (Push p now rid) k = (if pp_senderId p = k then [pp_item p] else [])"
| "agg_pushed _ k = []"

lemma agg_delivered_simps [simp]:
  "agg_delivered [] k = []"
  "agg_delivered (xs @ ys) k = agg_delivered xs k @ agg_delivered ys k"
  by (simp_all add: agg_delivered_def)

lemma agg_flush_conserve:
  assumes "\<And>a. mget (buffers s) key = Some a \<Longrightarrow> ag_senderId a = key"
  shows "agg_delivered (snd (agg_flush key s)) k @ agg_contents (fst (agg_flush key s)) k = agg_contents s k"
  using assms by (auto simp: agg_flush_parts agg_contents_def agg_delivered_def split: option.splits)

lemma agg_ok_sender: "agg_ok s \<Longrightarrow> mget (buffers s) key = Some a \<Longrightarrow> ag_senderId a = key"
  by (simp add: agg_ok_def)

lemma agg_flush_keys_conserve:
  "agg_ok s \<Longrightarrow> agg_delivered (snd (agg_flush_keys ks s)) k @ agg_contents (fst (agg_flush_keys ks s)) k
     = agg_contents s k"
proof (induction ks arbitrary: s)
  case (Cons key ks)
  have "agg_delivered (snd (agg_flush_keys ks (fst (agg_flush key s)))) k
      @ agg_contents (fst (agg_flush_keys ks (fst (agg_flush key s)))) k
    = agg_contents (fst (agg_flush key s)) k"
    using Cons agg_ok_flush by blast
  then show ?case
    using agg_flush_conserve [of s key k] agg_ok_sender Cons.prems
    by (simp add: case_prod_beta Let_def)
qed simp

lemma agg_push_conserve:
  assumes "agg_ok s"
  shows "agg_delivered (snd (agg_push p now rid s)) k @ agg_contents (fst (agg_push p now rid s)) k
    = agg_contents s k @ agg_pushed (Push p now rid) k"
proof (cases "mget (buffers s) (pp_senderId p)")
  case None
  then show ?thesis
    by (auto simp: agg_push_def Let_def agg_resetTimer_def agg_flush_parts agg_contents_def agg_delivered_def)
next
  case (Some a)
  then have "ag_senderId a = pp_senderId p" using assms agg_ok_sender by blast
  with Some show ?thesis
    by (auto simp: agg_push_def Let_def agg_resetTimer_def agg_flush_parts agg_contents_def agg_delivered_def)
qed

lemma agg_step_conserve:
  assumes "agg_ok s"
  shows "agg_delivered (snd (agg_step s a)) k @ agg_contents (fst (agg_step s a)) k
    = agg_contents s k @ agg_pushed a k"
proof (cases a)
  case (Push p now rid)
  then show ?thesis using agg_push_conserve [OF assms] by simp
next
  case (TimerFires key now)
  then show ?thesis using agg_flush_conserve [of s key k] agg_ok_sender [OF assms]
    by (auto simp: agg_timerFires_def split: option.splits)
next
  case FlushAll
  then show ?thesis using agg_flush_keys_conserve [OF assms] by (simp add: agg_flushAll_def)
qed

interpretation agg: ordered_delivery agg_step agg_pushed agg_contents agg_delivered agg_ok
  by unfold_locales (auto simp: agg_ok_step agg_step_conserve)


section \<open>Deadlines and sizes\<close>

definition agg_same_options :: "aggregator \<Rightarrow> aggregator \<Rightarrow> bool" where
  "agg_same_options s t \<longleftrightarrow>
     windowMs t = windowMs s \<and> maxMessages t = maxMessages s \<and> maxWindowMs t = maxWindowMs s"

definition agg_timely :: "aggregator \<Rightarrow> bool" where
  "agg_timely s \<longleftrightarrow> 0 \<le> maxWindowMs s \<and>
     (\<forall>k d w. mget (timers s) k = Some d \<longrightarrow> mget (windowStarts s) k = Some w \<longrightarrow>
        d \<le> w + maxWindowMs s + windowMs s + AGGREGATE_IMAGE_EXTRA_WINDOW_MS)"

lemma agg_options_flush: "agg_same_options s (fst (agg_flush k s))"
  by (simp add: agg_same_options_def agg_flush_parts)

lemma agg_timely_flush: "agg_timely s \<Longrightarrow> agg_timely (fst (agg_flush k s))"
  by (auto simp: agg_timely_def agg_flush_parts split: if_splits)

lemma image_extra_le: "image_extra i \<le> AGGREGATE_IMAGE_EXTRA_WINDOW_MS"
  by (simp add: image_extra_def AGGREGATE_IMAGE_EXTRA_WINDOW_MS_def)

lemma agg_push_timely:
  assumes "agg_timely s" "agg_ok s"
  shows "agg_timely (fst (agg_push p now rid s)) \<and> agg_same_options s (fst (agg_push p now rid s))"
proof (cases "mget (buffers s) (pp_senderId p)")
  case None
  with assms image_extra_le [of "pp_item p"] show ?thesis
    by (auto simp: agg_push_def Let_def agg_resetTimer_def agg_flush_parts agg_timely_def
        agg_same_options_def split: if_splits)
next
  case (Some a)
  then have "mhas (windowStarts s) (pp_senderId p)" using assms(2) by (simp add: agg_ok_def mhas_mget)
  then obtain w where w: "mget (windowStarts s) (pp_senderId p) = Some w" by (auto simp: mhas_mget)
  show ?thesis
    using assms Some w image_extra_le [of "pp_item p"]
    by (auto simp: agg_push_def Let_def agg_resetTimer_def agg_flush_parts agg_timely_def default_def
        agg_same_options_def split: if_splits)
qed

lemma agg_flush_keys_timely:
  "agg_timely s \<Longrightarrow> agg_timely (fst (agg_flush_keys ks s)) \<and> agg_same_options s (fst (agg_flush_keys ks s))"
proof (induction ks arbitrary: s)
  case (Cons k ks)
  then show ?case
    using agg_timely_flush [OF Cons.prems, of k] agg_options_flush [of s k]
    by (fastforce simp: case_prod_beta Let_def agg_same_options_def)
qed (simp add: agg_same_options_def)

lemma agg_step_timely:
  assumes "agg_timely s" "agg_ok s"
  shows "agg_timely (fst (agg_step s a)) \<and> agg_same_options s (fst (agg_step s a))"
proof (cases a)
  case (Push p now rid)
  then show ?thesis using agg_push_timely [OF assms] by simp
next
  case (TimerFires key now)
  then show ?thesis using assms agg_timely_flush agg_options_flush
    by (auto simp: agg_timerFires_def agg_same_options_def split: option.splits)
next
  case FlushAll
  then show ?thesis using agg_flush_keys_timely [OF assms(1)] by (simp add: agg_flushAll_def)
qed

lemma agg_run_timely:
  "agg_timely s \<Longrightarrow> agg_ok s \<Longrightarrow>
   agg_timely (fst (run_ops agg_step s ops)) \<and> agg_same_options s (fst (run_ops agg_step s ops))"
proof (induction ops arbitrary: s)
  case (Cons a ops)
  then show ?case
    using agg_step_timely [OF Cons.prems, of a] agg_ok_step [OF Cons.prems(2), of a]
    by (fastforce simp: case_prod_beta Let_def agg_same_options_def)
qed (simp add: agg_same_options_def)

text \<open>What an operation emits is non-empty and no larger than the maximum.\<close>

definition agg_sized :: "nat \<Rightarrow> aggregated list \<Rightarrow> bool" where
  "agg_sized n out \<longleftrightarrow> (\<forall>a \<in> set out. ag_items a \<noteq> [] \<and> length (ag_items a) \<le> n)"

lemma agg_flush_sized: "agg_ok s \<Longrightarrow> agg_sized (max 2 (maxMessages s)) (snd (agg_flush k s))"
  by (auto simp: agg_sized_def agg_flush_parts agg_ok_def less_imp_le split: option.splits)

lemma agg_sized_append [simp]: "agg_sized n (xs @ ys) \<longleftrightarrow> agg_sized n xs \<and> agg_sized n ys"
  by (auto simp: agg_sized_def)

lemma agg_flush_keys_sized:
  "agg_ok s \<Longrightarrow> agg_sized (max 2 (maxMessages s)) (snd (agg_flush_keys ks s))"
proof (induction ks arbitrary: s)
  case (Cons k ks)
  have "agg_sized (max 2 (maxMessages (fst (agg_flush k s)))) (snd (agg_flush_keys ks (fst (agg_flush k s))))"
    by (rule Cons.IH [OF agg_ok_flush [OF Cons.prems]])
  then show ?case
    using agg_options_flush [of s k] agg_flush_sized [OF Cons.prems, of k]
    by (simp add: case_prod_beta Let_def agg_same_options_def)
qed (simp add: agg_sized_def)

lemma agg_step_sized:
  assumes "agg_ok s"
  shows "agg_sized (max 2 (maxMessages s)) (snd (agg_step s a))"
proof (cases a)
  case (Push p now rid)
  show ?thesis
  proof (cases "mget (buffers s) (pp_senderId p)")
    case None
    then show ?thesis
      by (auto simp: Push agg_push_def Let_def agg_flush_parts agg_sized_def)
  next
    case (Some b)
    then have "length (ag_items b) < max 2 (maxMessages s)" using assms by (simp add: agg_ok_def)
    then show ?thesis using Some
      by (auto simp: Push agg_push_def Let_def agg_flush_parts agg_sized_def)
  qed
next
  case (TimerFires key now)
  then show ?thesis using agg_flush_sized [OF assms]
    by (auto simp: agg_timerFires_def agg_sized_def split: option.splits)
next
  case FlushAll
  then show ?thesis using agg_flush_keys_sized [OF assms] by (simp add: agg_flushAll_def)
qed

lemma agg_run_sized:
  "agg_timely s \<Longrightarrow> agg_ok s \<Longrightarrow> agg_sized (max 2 (maxMessages s)) (snd (run_ops agg_step s ops))"
proof (induction ops arbitrary: s)
  case (Cons a ops)
  have "agg_sized (max 2 (maxMessages (fst (agg_step s a)))) (snd (run_ops agg_step (fst (agg_step s a)) ops))"
    using agg_step_timely [OF Cons.prems, of a] agg_ok_step [OF Cons.prems(2), of a] by (intro Cons.IH) auto
  then show ?case
    using agg_step_timely [OF Cons.prems, of a] agg_step_sized [OF Cons.prems(2), of a]
    by (simp add: case_prod_beta Let_def agg_same_options_def)
qed (simp add: agg_sized_def)

lemma agg_flushAll_empties: "agg_ok s \<Longrightarrow> agg_contents (fst (agg_flushAll s)) k = []"
proof -
  have *: "mget (buffers (fst (agg_flush_keys ks s))) k = (if k \<in> set ks then None else mget (buffers s) k)"
    for ks s
    by (induction ks arbitrary: s) (auto simp: case_prod_beta Let_def agg_flush_parts)
  show ?thesis
    using mget_None_iff [of "buffers s" k] by (auto simp: agg_flushAll_def agg_contents_def *)
qed

section \<open>Properties\<close>

text \<open>C1: The aggregator delivers every message exactly once and in order. For any sequence of
  pushes, timer callbacks and shutdown flushes, the items submitted for a sender followed by those
  still buffered are exactly the items pushed for that sender; a final \<open>flushAll\<close> leaves nothing behind.\<close>

theorem aggregator_exactly_once:
  "let r = run_ops agg_step (new_aggregator w m mw) ops;
       pushed = concat (map (\<lambda>a. agg_pushed a k) ops) in
   agg_delivered (snd r) k @ agg_contents (fst r) k = pushed
   \<and> agg_delivered (snd (run_ops agg_step (new_aggregator w m mw) (ops @ [FlushAll]))) k = pushed"
proof -
  let ?s = "new_aggregator w m mw"
  have ok: "agg_ok ?s" by (rule agg_ok_new)
  have e: "agg_contents ?s k = []" by (simp add: agg_contents_def new_aggregator_def)
  have "agg_contents (fst (run_ops agg_step ?s (ops @ [FlushAll]))) k = []"
    using agg_flushAll_empties [OF agg.run_ok [OF ok]]
    by (simp add: run_ops_append case_prod_beta Let_def)
  then show ?thesis
    using agg.run_conserve [OF ok, of ops k] agg.run_conserve [OF ok, of "ops @ [FlushAll]" k] e
    by (simp add: Let_def)
qed

text \<open>No message waits for ever. With the service's options, whenever a sender has a buffer
  it holds between one and four items, a timer for it is armed, and that timer's deadline is at most 15 seconds
  after the window opened; and every submitted message has between one and five items.\<close>

theorem aggregator_bounded_wait:
  assumes "mget (buffers (fst (run_ops agg_step (new_aggregator None None None) ops))) k = Some a"
  shows "1 \<le> length (ag_items a) \<and> length (ag_items a) \<le> 4
    \<and> (\<exists>d w. mget (timers (fst (run_ops agg_step (new_aggregator None None None) ops))) k = Some d
        \<and> mget (windowStarts (fst (run_ops agg_step (new_aggregator None None None) ops))) k = Some w
        \<and> d \<le> w + 15000)
    \<and> (\<forall>b \<in> set (snd (run_ops agg_step (new_aggregator None None None) ops)).
        1 \<le> length (ag_items b) \<and> length (ag_items b) \<le> 5)"
proof -
  let ?n = "new_aggregator None None None"
  let ?s = "fst (run_ops agg_step ?n ops)"
  have t0: "agg_timely ?n" by (simp add: agg_timely_def new_aggregator_def default_def)
  have ok: "agg_ok ?s" by (rule agg.run_ok [OF agg_ok_new])
  have t: "agg_timely ?s" and opts: "windowMs ?s = 3000" "maxMessages ?s = 5" "maxWindowMs ?s = 10000"
    using agg_run_timely [OF t0 agg_ok_new, of ops]
    by (simp_all add: agg_same_options_def new_aggregator_def default_def)
  have "ag_items a \<noteq> [] \<and> length (ag_items a) < max 2 (maxMessages ?s)"
    using ok assms by (simp add: agg_ok_def)
  then have "1 \<le> length (ag_items a) \<and> length (ag_items a) \<le> 4"
    using opts by (cases "ag_items a") auto
  moreover have "mhas (timers ?s) k" "mhas (windowStarts ?s) k"
    using ok assms by (simp_all add: agg_ok_def mhas_mget)
  then obtain d w where dw: "mget (timers ?s) k = Some d" "mget (windowStarts ?s) k = Some w"
    by (auto simp: mhas_mget)
  moreover have "d \<le> w + 15000"
    using t dw opts by (auto simp: agg_timely_def AGGREGATE_IMAGE_EXTRA_WINDOW_MS_def add.commute)
  moreover have "\<forall>b \<in> set (snd (run_ops agg_step ?n ops)). 1 \<le> length (ag_items b) \<and> length (ag_items b) \<le> 5"
    using agg_run_sized [OF t0 agg_ok_new, of ops]
    by (auto simp: agg_sized_def new_aggregator_def default_def Suc_le_eq)
  ultimately show ?thesis by blast
qed

definition sample_item :: item where
  "sample_item = \<lparr> it_event = sample_event, it_text = js ''hello'', it_images = [], it_imagePaths = [],
     it_ts = 1000, it_mentioned = False, it_dbRef = None \<rparr>"

definition sample_push :: push_params where
  "sample_push = \<lparr> pp_item = sample_item, pp_senderId = js ''ou_1'', pp_senderName = js ''ou_1'',
     pp_sessionKey = js ''feishu:main:group:oc_1'', pp_chatId = js ''oc_1'', pp_chatType = js ''group'',
     pp_accountId = js ''main'', pp_immediate = False \<rparr>"

theorem aggregator_bounded_wait_witness:
  "\<exists>a. mget (buffers (fst (run_ops agg_step (new_aggregator None None None) [Push sample_push 1000 []])))
     (js ''ou_1'') = Some a \<and> length (ag_items a) \<le> 4"
proof -
  have "\<exists>a. mget (buffers (fst (run_ops agg_step (new_aggregator None None None) [Push sample_push 1000 []])))
     (js ''ou_1'') = Some a"
    by (simp add: agg_push_def new_aggregator_def sample_push_def agg_resetTimer_def Let_def)
  then show ?thesis using aggregator_bounded_wait by blast
qed

text \<open>The aggregator is keyed by the sender alone. Two messages of one sender in different
  chats are merged, and the merged message, with both texts, carries the chat and session of the first.\<close>

theorem aggregator_merges_across_chats:
  assumes "pp_senderId q = pp_senderId p" and "\<not> pp_immediate p"
  shows "\<exists>a. snd (run_ops agg_step (new_aggregator None None None) [Push p t1 r1, Push q t2 r2, FlushAll]) = [a]
    \<and> ag_items a = [pp_item p, pp_item q] \<and> ag_chatId a = pp_chatId p \<and> ag_sessionKey a = pp_sessionKey p"
  using assms
  by (auto simp: agg_push_def new_aggregator_def agg_resetTimer_def Let_def default_def
      agg_flush_def agg_flushAll_def mput_def mdel_def mget_def)

theorem aggregator_merges_across_chats_witness:
  "pp_chatId (sample_push\<lparr>pp_chatId := js ''oc_2''\<rparr>) \<noteq> pp_chatId sample_push
   \<and> (\<exists>a. snd (run_ops agg_step (new_aggregator None None None)
        [Push sample_push 0 [], Push (sample_push\<lparr>pp_chatId := js ''oc_2''\<rparr>) 0 [], FlushAll]) = [a]
      \<and> ag_chatId a = js ''oc_1'')"
  using aggregator_merges_across_chats [of "sample_push\<lparr>pp_chatId := js ''oc_2''\<rparr>" sample_push 0 "[]" 0 "[]"]
  by (auto simp: sample_push_def js_def)

end
