(* ===== verification/Sessions.thy ===== *)
theory Sessions
  imports Aggregator
begin

text \<open>
  \<open>SessionManager\<close> (\<open>src/src/feishu-service.ts\<close>).  A \<open>SessionContext\<close> is a mutable object: the
  running pipeline keeps a reference to it after \<open>clear\<close> has removed it from the
  manager's map.  The model therefore separates the map from sender to reference (\<open>sm_map\<close>)
  from the store of contexts (\<open>sm_heap\<close>, indexed by reference, next free one \<open>sm_next\<close>).
\<close>

section \<open>Data\<close>

datatype session_state =
  IDLE | AGGREGATING | ROUTING | ACKING | PROCESSING | VALIDATING | SENDING | CHATTING | DEGRADED

datatype tone = Concise | Casual | Detailed

record session =
  s_state :: session_state
  s_senderId :: jsstr
  s_senderName :: jsstr
  s_sessionKey :: jsstr
  s_chatId :: jsstr
  s_chatType :: jsstr
  s_accountId :: jsstr
  s_requestId :: jsstr
  s_triggerMessageId :: jsstr
  s_triggerEvent :: fevent
  s_retryCount :: nat
  s_pendingItems :: "item list"
  s_ackSent :: bool
  s_lastActivityAt :: int
  s_tone :: tone

record session_manager =
  sm_map :: "(jsstr, nat) jsmap"
  sm_heap :: "(nat, session) jsmap"
  sm_next :: nat

definition new_manager :: session_manager where
  "new_manager = \<lparr> sm_map = [], sm_heap = [], sm_next = 0 \<rparr>"

record open_params =
  op_senderId :: jsstr
  op_senderName :: jsstr
  op_sessionKey :: jsstr
  op_chatId :: jsstr
  op_chatType :: jsstr
  op_accountId :: jsstr
  op_triggerMessageId :: jsstr
  op_triggerEvent :: fevent

section \<open>Operations\<close>

definition sm_update :: "nat \<Rightarrow> (session \<Rightarrow> session) \<Rightarrow> session_manager \<Rightarrow> session_manager" where
  "sm_update r f m = (case mget (sm_heap m) r of
     Some c \<Rightarrow> m\<lparr> sm_heap := mput (sm_heap m) r (f c) \<rparr> | None \<Rightarrow> m)"

definition sm_get :: "jsstr \<Rightarrow> session_manager \<Rightarrow> session option" where
  "sm_get senderId m = (case mget (sm_map m) senderId of
     Some r \<Rightarrow> mget (sm_heap m) r | None \<Rightarrow> None)"

definition sm_getOrCreate :: "open_params \<Rightarrow> int \<Rightarrow> jsstr \<Rightarrow> session_manager \<Rightarrow> session_manager \<times> nat" where
  "sm_getOrCreate p now rid m =
    (case mget (sm_map m) (op_senderId p) of
       Some r \<Rightarrow> (m, r)
     | None \<Rightarrow>
        (let ctx = \<lparr> s_state = IDLE, s_senderId = op_senderId p, s_senderName = op_senderName p,
               s_sessionKey = op_sessionKey p, s_chatId = op_chatId p, s_chatType = op_chatType p,
               s_accountId = op_accountId p, s_requestId = rid,
               s_triggerMessageId = op_triggerMessageId p, s_triggerEvent = op_triggerEvent p,
               s_retryCount = 0, s_pendingItems = [], s_ackSent = False, s_lastActivityAt = now,
               s_tone = Casual \<rparr>
         in (m\<lparr> sm_map := mput (sm_map m) (op_senderId p) (sm_next m),
                sm_heap := mput (sm_heap m) (sm_next m) ctx,
                sm_next := Suc (sm_next m) \<rparr>, sm_next m)))"

definition sm_transition :: "jsstr \<Rightarrow> session_state \<Rightarrow> int \<Rightarrow> session_manager \<Rightarrow> session_manager" where
  "sm_transition senderId newState now m =
    (case mget (sm_map m) senderId of
       None \<Rightarrow> m
     | Some r \<Rightarrow> sm_update r (\<lambda>c. c\<lparr> s_state := newState, s_lastActivityAt := now \<rparr>) m)"

definition active_state :: "session_state \<Rightarrow> bool" where
  "active_state st \<longleftrightarrow> st \<in> {ROUTING, ACKING, PROCESSING, VALIDATING, SENDING, CHATTING}"

definition sm_isActive :: "jsstr \<Rightarrow> session_manager \<Rightarrow> bool" where
  "sm_isActive senderId m = (case sm_get senderId m of Some c \<Rightarrow> active_state (s_state c) | None \<Rightarrow> False)"

definition sm_appendItem :: "jsstr \<Rightarrow> item \<Rightarrow> int \<Rightarrow> session_manager \<Rightarrow> session_manager" where
  "sm_appendItem senderId i now m =
    (case mget (sm_map m) senderId of
       None \<Rightarrow> m
     | Some r \<Rightarrow> sm_update r
         (\<lambda>c. c\<lparr> s_pendingItems := s_pendingItems c @ [i], s_lastActivityAt := now \<rparr>) m)"

definition sm_clear :: "jsstr \<Rightarrow> session_manager \<Rightarrow> session_manager" where
  "sm_clear senderId m = m\<lparr> sm_map := mdel (sm_map m) senderId \<rparr>"

definition idle_expired :: "int \<Rightarrow> session \<Rightarrow> bool" where
  "idle_expired now c \<longleftrightarrow> s_state c = IDLE \<and> now - s_lastActivityAt c > 120000"

definition sm_cleanupIdle :: "int \<Rightarrow> session_manager \<Rightarrow> session_manager" where
  "sm_cleanupIdle now m = m\<lparr> sm_map := filter (\<lambda>(k, r). case mget (sm_heap m) r of
      Some c \<Rightarrow> \<not> idle_expired now c | None \<Rightarrow> True) (sm_map m) \<rparr>"

section \<open>Invariant\<close>

text \<open>
  Every mapped reference is allocated, its context carries the key it is filed under, and
  between synchronous segments its state is one of the active ones.
\<close>

definition sm_wf :: "session_manager \<Rightarrow> bool" where
  "sm_wf m \<longleftrightarrow> distinct (mkeys (sm_map m))
    \<and> (\<forall>k r. mget (sm_map m) k = Some r \<longrightarrow>
         (\<exists>c. mget (sm_heap m) r = Some c \<and> s_senderId c = k))
    \<and> (\<forall>r. mhas (sm_heap m) r \<longrightarrow> r < sm_next m)"

definition sm_active :: "session_manager \<Rightarrow> bool" where
  "sm_active m \<longleftrightarrow> (\<forall>k r c. mget (sm_map m) k = Some r \<longrightarrow> mget (sm_heap m) r = Some c \<longrightarrow>
     active_state (s_state c))"

lemma sm_wf_new [simp]: "sm_wf new_manager" and sm_active_new [simp]: "sm_active new_manager"
  by (simp_all add: sm_wf_def sm_active_def new_manager_def)

lemma sm_update_simps [simp]:
  "sm_map (sm_update r f m) = sm_map m"
  "sm_next (sm_update r f m) = sm_next m"
  "mget (sm_heap (sm_update r f m)) r' =
     (if r' = r then map_option f (mget (sm_heap m) r) else mget (sm_heap m) r')"
  by (auto simp: sm_update_def split: option.splits)

lemma sm_wf_lookup:
  assumes "sm_wf m" "mget (sm_map m) k = Some r"
  obtains c where "mget (sm_heap m) r = Some c" "s_senderId c = k" "r < sm_next m"
  using assms by (auto simp: sm_wf_def mhas_mget)

lemma sm_wf_inj:
  "sm_wf m \<Longrightarrow> mget (sm_map m) k = Some r \<Longrightarrow> mget (sm_map m) k' = Some r \<Longrightarrow> k' = k"
  by (metis sm_wf_lookup option.inject)

lemma sm_activeD:
  "sm_active m \<Longrightarrow> mget (sm_map m) k = Some r \<Longrightarrow> mget (sm_heap m) r = Some c \<Longrightarrow> active_state (s_state c)"
  by (simp add: sm_active_def)

lemma sm_wf_update:
  assumes "sm_wf m" and f: "\<And>c. s_senderId (f c) = s_senderId c"
  shows "sm_wf (sm_update r f m)"
  unfolding sm_wf_def
proof (intro conjI allI impI)
  show "distinct (mkeys (sm_map (sm_update r f m)))" using assms(1) by (simp add: sm_wf_def)
next
  fix k r'
  assume "mget (sm_map (sm_update r f m)) k = Some r'"
  then obtain c where "mget (sm_heap m) r' = Some c" "s_senderId c = k"
    using assms(1) by (auto elim: sm_wf_lookup)
  then show "\<exists>c. mget (sm_heap (sm_update r f m)) r' = Some c \<and> s_senderId c = k"
    by (cases "r' = r") (auto simp: f)
next
  fix r'
  assume "mhas (sm_heap (sm_update r f m)) r'"
  then have "mhas (sm_heap m) r'" by (auto simp: mhas_mget split: if_splits)
  then show "r' < sm_next (sm_update r f m)" using assms(1) by (simp add: sm_wf_def)
qed

lemma sm_wf_transition: "sm_wf m \<Longrightarrow> sm_wf (sm_transition k st now m)"
  by (auto simp: sm_transition_def sm_wf_update split: option.splits)

lemma sm_wf_appendItem: "sm_wf m \<Longrightarrow> sm_wf (sm_appendItem k i now m)"
  by (auto simp: sm_appendItem_def sm_wf_update split: option.splits)

lemma sm_wf_clear: "sm_wf m \<Longrightarrow> sm_wf (sm_clear k m)"
  by (auto simp: sm_clear_def sm_wf_def split: if_splits)

lemma sm_wf_getOrCreate: "sm_wf m \<Longrightarrow> sm_wf (fst (sm_getOrCreate p now rid m))"
  by (fastforce simp: sm_getOrCreate_def sm_wf_def Let_def mhas_mget split: option.splits if_splits)

lemma sm_map_transition [simp]: "sm_map (sm_transition k st now m) = sm_map m"
  by (simp add: sm_transition_def split: option.splits)

lemma sm_map_appendItem [simp]: "sm_map (sm_appendItem k i now m) = sm_map m"
  by (simp add: sm_appendItem_def split: option.splits)

lemma sm_map_clear [simp]: "sm_map (sm_clear k m) = mdel (sm_map m) k"
  by (simp add: sm_clear_def)

lemma sm_map_getOrCreate:
  "mhas (sm_map (fst (sm_getOrCreate p now rid m))) k \<longleftrightarrow> k = op_senderId p \<or> mhas (sm_map m) k"
  by (auto simp: sm_getOrCreate_def Let_def mhas_mget split: option.splits)

lemma sm_active_transition:
  assumes "sm_wf m" "sm_active m" "active_state st"
  shows "sm_active (sm_transition k st now m)"
  using assms by (fastforce simp: sm_active_def sm_transition_def split: option.splits if_splits)

lemma sm_active_appendItem: "sm_active m \<Longrightarrow> sm_active (sm_appendItem k i now m)"
  by (fastforce simp: sm_active_def sm_appendItem_def split: option.splits if_splits)

text \<open>Leaving through any state is harmless when the session is cleared in the same segment.\<close>

lemma sm_active_transition_clear:
  assumes "sm_wf m" "sm_active m"
  shows "sm_active (sm_clear k (sm_transition k st now m))"
proof (cases "mget (sm_map m) k")
  case None
  then show ?thesis using assms(2) by (auto simp: sm_transition_def sm_clear_def sm_active_def split: if_splits)
next
  case (Some r)
  show ?thesis
    unfolding sm_active_def
  proof (intro allI impI)
    fix k' r' c
    assume m: "mget (sm_map (sm_clear k (sm_transition k st now m))) k' = Some r'"
      and h: "mget (sm_heap (sm_clear k (sm_transition k st now m))) r' = Some c"
    from m have k': "k' \<noteq> k" "mget (sm_map m) k' = Some r'" by (auto split: if_splits)
    then have "r' \<noteq> r" using assms(1) Some sm_wf_inj by blast
    with h Some have "mget (sm_heap m) r' = Some c" by (simp add: sm_clear_def sm_transition_def)
    with k' assms(2) show "active_state (s_state c)" by (auto simp: sm_active_def)
  qed
qed

lemma sm_active_open:
  assumes "sm_wf m" "sm_active m" "op_senderId p = k" "active_state st"
  shows "sm_active (sm_transition k st now (fst (sm_getOrCreate p now' rid m)))"
proof (cases "mget (sm_map m) k")
  case (Some r)
  then show ?thesis using assms sm_active_transition by (simp add: sm_getOrCreate_def)
next
  case None
  have fresh: "\<not> mhas (sm_heap m) (sm_next m)" using assms(1) by (auto simp: sm_wf_def)
  show ?thesis
    using None assms fresh
    by (fastforce simp: sm_getOrCreate_def Let_def sm_transition_def sm_active_def mhas_mget sm_wf_def
        split: if_splits option.splits)
qed

lemma sm_isActive_iff: "sm_wf m \<Longrightarrow> sm_active m \<Longrightarrow> sm_isActive k m \<longleftrightarrow> mhas (sm_map m) k"
  by (fastforce simp: sm_isActive_def sm_get_def sm_wf_def sm_active_def mhas_mget split: option.splits)

lemma sm_cleanupIdle_id:
  assumes "sm_wf m" "sm_active m"
  shows "sm_cleanupIdle now m = m"
proof -
  have "(case mget (sm_heap m) r of Some c \<Rightarrow> \<not> idle_expired now c | None \<Rightarrow> True)"
    if "(k, r) \<in> set (sm_map m)" for k r
  proof -
    have "mget (sm_map m) k = Some r" using assms(1) that by (simp add: sm_wf_def in_set_mget)
    then show ?thesis using sm_activeD [OF assms(2)]
      by (fastforce simp: idle_expired_def active_state_def split: option.splits)
  qed
  then have "filter (\<lambda>(k, r). case mget (sm_heap m) r of Some c \<Rightarrow> \<not> idle_expired now c | None \<Rightarrow> True)
      (sm_map m) = sm_map m"
    by (auto intro: filter_True)
  then show ?thesis by (simp add: sm_cleanupIdle_def)
qed

end
