(* ===== verification/ServiceState.thy ===== *)
theory ServiceState
  imports TextRules Sessions
begin

text \<open>
  The module-level state of \<open>src/src/feishu-service.ts\<close>: conversation histories, the two
  sets that make message handling idempotent (\<open>processingMessages\<close>, \<open>processedMessages\<close>)
  with their time stamps, the ids of the bot's own messages, and the state files that
  \<open>saveStateFiles\<close> writes and \<open>loadStateFiles\<close> reads back.
\<close>

section \<open>Data\<close>

datatype role = RoleUser | RoleAssistant

record history_entry =
  ce_role :: role
  ce_name :: "jsstr option"
  ce_content :: jsstr
  ce_ts :: jsnum

record module_state =
  conversations :: "(jsstr, history_entry list) jsmap"
  processingMessages :: "jsstr list"
  processedMessages :: "jsstr list"
  botMessageIds :: "(jsstr, int) jsmap"
  dedupeTimestamps :: "(jsstr, int) jsmap"
  historySaveTimer :: "int option"

definition new_module_state :: module_state where
  "new_module_state = \<lparr> conversations = [], processingMessages = [], processedMessages = [],
     botMessageIds = [], dedupeTimestamps = [], historySaveTimer = None \<rparr>"

definition DEDUP_TTL_MS :: int where
  "DEDUP_TTL_MS = 300000"

section \<open>Deduplication\<close>

definition cleanupDedupeSet :: "int \<Rightarrow> module_state \<Rightarrow> module_state" where
  "cleanupDedupeSet now s =
    (let expired = \<lambda>(id :: jsstr, ts). now - ts > DEDUP_TTL_MS in
     s\<lparr> processedMessages := filter (\<lambda>id. id \<notin> fst ` set (filter expired (dedupeTimestamps s)))
          (processedMessages s),
        dedupeTimestamps := filter (\<lambda>p. \<not> expired p) (dedupeTimestamps s) \<rparr>)"

definition recordBotMessageId :: "jsstr \<Rightarrow> int \<Rightarrow> module_state \<Rightarrow> module_state" where
  "recordBotMessageId messageId now s =
    (let m = mput (botMessageIds s) messageId now in
     s\<lparr> botMessageIds := (if length m > 500
          then filter (\<lambda>(id, ts). \<not> now - ts > DEDUP_TTL_MS) m else m) \<rparr>)"

definition isReplyToBotMessage :: "fevent \<Rightarrow> module_state \<Rightarrow> bool" where
  "isReplyToBotMessage e s = (case parent_id e of None \<Rightarrow> False
     | Some p \<Rightarrow> let parentId = trim p in parentId \<noteq> [] \<and> mhas (botMessageIds s) parentId)"

text \<open>The assistant's name and its two spellings: \<open>xiao ju\<close>, \<open>xiao jin ju\<close>, \<open>xiao jie\<close>.\<close>

definition TRIGGER_WORDS :: "jsstr list" where
  "TRIGGER_WORDS = [[0x5C0F, 0x6A58], [0x5C0F, 0x91D1, 0x6A58], [0x5C0F, 0x6854]]"

datatype prefilter = Aggregate | StoreOnly

definition rulePreFilter :: "jsstr \<Rightarrow> bool \<Rightarrow> fevent \<Rightarrow> module_state \<Rightarrow> prefilter" where
  "rulePreFilter txt mentioned e s =
    (if mentioned then Aggregate
     else if chat_type e \<noteq> js ''group'' then Aggregate
     else if isReplyToBotMessage e s then Aggregate
     else if list_ex (\<lambda>w. str_includes (toLowerCase txt) (toLowerCase w)) TRIGGER_WORDS then Aggregate
     else StoreOnly)"

section \<open>History and its files\<close>

definition scheduleStateSave :: "int \<Rightarrow> module_state \<Rightarrow> module_state" where
  "scheduleStateSave now s = (case historySaveTimer s of
     Some d \<Rightarrow> s | None \<Rightarrow> s\<lparr> historySaveTimer := Some (now + 800) \<rparr>)"

definition history_of :: "jsstr \<Rightarrow> module_state \<Rightarrow> history_entry list" where
  "history_of key s = default [] (mget (conversations s) key)"

definition addHistory :: "jsstr \<Rightarrow> history_entry \<Rightarrow> int \<Rightarrow> module_state \<Rightarrow> module_state" where
  "addHistory key entry now s = scheduleStateSave now
     (s\<lparr> conversations := mput (conversations s) key (history_of key s @ [entry]) \<rparr>)"

definition role_str :: "role \<Rightarrow> jsstr" where
  "role_str r = (case r of RoleUser \<Rightarrow> js ''user'' | RoleAssistant \<Rightarrow> js ''assistant'')"

text \<open>An absent \<open>name\<close> is \<open>undefined\<close>, which \<open>JSON.stringify\<close> leaves out.\<close>

definition entry_value :: "history_entry \<Rightarrow> jsval" where
  "entry_value e = VObj ([(js ''role'', VStr (role_str (ce_role e)))]
     @ (case ce_name e of Some n \<Rightarrow> [(js ''name'', VStr n)] | None \<Rightarrow> [])
     @ [(js ''content'', VStr (ce_content e)), (js ''ts'', VNum (ce_ts e))])"

definition history_value :: "module_state \<Rightarrow> jsval" where
  "history_value s = VObj (map (\<lambda>(k, es). (k, VArr (map entry_value es))) (conversations s))"

definition kept_dedupe :: "module_state \<Rightarrow> jsstr list" where
  "kept_dedupe s = take_last 2000 (processedMessages s)"

definition dedupe_value :: "module_state \<Rightarrow> jsval" where
  "dedupe_value s = VArr (map VStr (kept_dedupe s))"

text \<open>
  Writing may fail at three points; the error is caught and logged.  The result is the
  state with what reached the two files (\<open>None\<close>: the file is not written).
\<close>

datatype disk = DiskOk | MkdirFails | HistoryWriteFails | DedupeWriteFails

definition saveStateFiles :: "disk \<Rightarrow> module_state \<Rightarrow> module_state \<times> jsstr option \<times> jsstr option" where
  "saveStateFiles d s =
    (let history = json_stringify (js ''  '') (history_value s);
         s' = s\<lparr> processedMessages := kept_dedupe s \<rparr>;
         dedupe = json_stringify (js ''  '') (dedupe_value s)
     in case d of
          MkdirFails \<Rightarrow> (s, None, None)
        | HistoryWriteFails \<Rightarrow> (s, None, None)
        | DedupeWriteFails \<Rightarrow> (s', history, None)
        | DiskOk \<Rightarrow> (s', history, dedupe))"

text \<open>The callback of the save timer.\<close>

definition saveTimerFires :: "int \<Rightarrow> disk \<Rightarrow> module_state \<Rightarrow> module_state \<times> jsstr option \<times> jsstr option" where
  "saveTimerFires now d s = (case historySaveTimer s of
     Some t \<Rightarrow> if t \<le> now then saveStateFiles d (s\<lparr> historySaveTimer := None \<rparr>) else (s, None, None)
   | None \<Rightarrow> (s, None, None))"

definition load_entry :: "int \<Rightarrow> jsval \<Rightarrow> history_entry" where
  "load_entry now v =
     \<lparr> ce_role = (if field v ''role'' = VStr (js ''assistant'') then RoleAssistant else RoleUser),
       ce_name = readString (field v ''name''),
       ce_content = (case field v ''content'' of VStr c \<Rightarrow> c | _ \<Rightarrow> []),
       ce_ts = (case field v ''ts'' of VNum n \<Rightarrow> n | _ \<Rightarrow> Fin (of_int now)) \<rparr>"

definition load_entries :: "int \<Rightarrow> jsval list \<Rightarrow> history_entry list" where
  "load_entries now vs = filter (\<lambda>e. \<not> blank (ce_content e)) (map (load_entry now) (filter isRecord vs))"

fun load_history :: "int \<Rightarrow> (jsstr \<times> jsval) list \<Rightarrow> module_state \<Rightarrow> module_state" where
  "load_history now [] s = s"
| "load_history now ((key, v) # r) s = load_history now r
     (case v of VArr vs \<Rightarrow>
        (let entries = load_entries now vs in
         if entries \<noteq> [] then s\<lparr> conversations := mput (conversations s) key entries \<rparr> else s)
      | _ \<Rightarrow> s)"

fun load_dedupe :: "jsval list \<Rightarrow> module_state \<Rightarrow> module_state" where
  "load_dedupe [] s = s"
| "load_dedupe (v # r) s = load_dedupe r
     (case v of VStr m \<Rightarrow> if trim m \<noteq> []
        then s\<lparr> processedMessages := sadd (processedMessages s) (trim m) \<rparr> else s
      | _ \<Rightarrow> s)"

text \<open>A file that is missing, unreadable or not JSON leaves its part of the state alone.\<close>

definition loadStateFiles :: "int \<Rightarrow> jsstr option \<Rightarrow> jsstr option \<Rightarrow> module_state \<Rightarrow> module_state" where
  "loadStateFiles now history dedupe s =
    (let s1 = (case Option.bind history json_parse of Some (VObj fs) \<Rightarrow> load_history now fs s | _ \<Rightarrow> s)
     in case Option.bind dedupe json_parse of Some (VArr vs) \<Rightarrow> load_dedupe vs s1 | _ \<Rightarrow> s1)"

section \<open>Lemmas\<close>

lemma filter_not_in_filter:
  "distinct (mkeys m) \<Longrightarrow> k \<notin> fst ` set (filter P m) \<longleftrightarrow> (\<forall>v. mget m k = Some v \<longrightarrow> \<not> P (k, v))"
  by (auto simp: image_iff in_set_mget dest: mget_in_set)

lemma cleanup_processed:
  assumes "distinct (mkeys (dedupeTimestamps s))"
  shows "k \<in> set (processedMessages (cleanupDedupeSet now s)) \<longleftrightarrow> k \<in> set (processedMessages s)
    \<and> (\<forall>ts. mget (dedupeTimestamps s) k = Some ts \<longrightarrow> now - ts \<le> DEDUP_TTL_MS)"
  using filter_not_in_filter [OF assms, of k "\<lambda>(x, ts). now - ts > DEDUP_TTL_MS"]
  by (simp add: cleanupDedupeSet_def Let_def not_less)

lemma cleanup_timestamps:
  assumes "distinct (mkeys (dedupeTimestamps s))"
  shows "mget (dedupeTimestamps (cleanupDedupeSet now s)) k
    = (case mget (dedupeTimestamps s) k of
         Some ts \<Rightarrow> if now - ts > DEDUP_TTL_MS then None else Some ts | None \<Rightarrow> None)"
  using assms by (simp add: cleanupDedupeSet_def Let_def mget_filter split: option.splits)

lemma cleanup_fields [simp]:
  "conversations (cleanupDedupeSet now s) = conversations s"
  "processingMessages (cleanupDedupeSet now s) = processingMessages s"
  "botMessageIds (cleanupDedupeSet now s) = botMessageIds s"
  "historySaveTimer (cleanupDedupeSet now s) = historySaveTimer s"
  by (simp_all add: cleanupDedupeSet_def Let_def)

lemma scheduleStateSave_fields [simp]:
  "conversations (scheduleStateSave now s) = conversations s"
  "processingMessages (scheduleStateSave now s) = processingMessages s"
  "processedMessages (scheduleStateSave now s) = processedMessages s"
  "botMessageIds (scheduleStateSave now s) = botMessageIds s"
  "dedupeTimestamps (scheduleStateSave now s) = dedupeTimestamps s"
  by (simp_all add: scheduleStateSave_def split: option.splits)

lemma addHistory_fields [simp]:
  "processingMessages (addHistory k e now s) = processingMessages s"
  "processedMessages (addHistory k e now s) = processedMessages s"
  "botMessageIds (addHistory k e now s) = botMessageIds s"
  "dedupeTimestamps (addHistory k e now s) = dedupeTimestamps s"
  by (simp_all add: addHistory_def)

lemma history_of_addHistory:
  "history_of k' (addHistory k e now s) = history_of k' s @ (if k' = k then [e] else [])"
  by (simp add: addHistory_def history_of_def default_def)

lemma saveStateFiles_fields [simp]:
  "conversations (fst (saveStateFiles d s)) = conversations s"
  "processingMessages (fst (saveStateFiles d s)) = processingMessages s"
  "botMessageIds (fst (saveStateFiles d s)) = botMessageIds s"
  "dedupeTimestamps (fst (saveStateFiles d s)) = dedupeTimestamps s"
  by (simp_all add: saveStateFiles_def Let_def split: disk.splits)

lemma saveStateFiles_processed:
  "set (processedMessages (fst (saveStateFiles d s))) \<subseteq> set (processedMessages s)"
  using set_take_last [of 2000 "processedMessages s"] by (auto simp: saveStateFiles_def Let_def kept_dedupe_def split: disk.splits)

lemma saveStateFiles_distinct:
  "distinct (processedMessages s) \<Longrightarrow> distinct (processedMessages (fst (saveStateFiles d s)))"
  by (auto simp: saveStateFiles_def Let_def kept_dedupe_def distinct_take_last split: disk.splits)

text \<open>What the files can carry: see the round trip below.\<close>

definition entry_storable :: "history_entry \<Rightarrow> bool" where
  "entry_storable e \<longleftrightarrow> \<not> blank (ce_content e)
     \<and> (case ce_name e of Some n \<Rightarrow> \<not> blank n \<and> trim n = n | None \<Rightarrow> True)"

lemma entry_value_fields:
  "isRecord (entry_value e)"
  "field (entry_value e) ''role'' = VStr (role_str (ce_role e))"
  "field (entry_value e) ''name'' = (case ce_name e of Some n \<Rightarrow> VStr n | None \<Rightarrow> VUndef)"
  "field (entry_value e) ''content'' = VStr (ce_content e)"
  "field (entry_value e) ''ts'' = VNum (ce_ts e)"
  by (auto simp: entry_value_def isRecord_def field_def mget_def js_def split: option.splits)

lemma load_entry_value: "entry_storable e \<Longrightarrow> load_entry now (entry_value e) = e"
  by (cases "ce_role e"; cases "ce_name e")
     (auto simp: load_entry_def entry_value_fields role_str_def entry_storable_def readString_def js_def
       blank_def)

lemma load_entries_values:
  "list_all entry_storable es \<Longrightarrow> load_entries now (map entry_value es) = es"
  by (induction es) (auto simp: load_entries_def entry_value_fields load_entry_value entry_storable_def)

lemma load_history_values:
  assumes "list_all (\<lambda>(k, es). es \<noteq> [] \<and> list_all entry_storable es) cs"
    and "distinct (mkeys (conversations s @ cs))"
  shows "load_history now (map (\<lambda>(k, es). (k, VArr (map entry_value es))) cs) s
    = s\<lparr> conversations := conversations s @ cs \<rparr>"
  using assms
proof (induction cs arbitrary: s)
  case (Cons c cs)
  obtain k es where c: "c = (k, es)" by (cases c)
  let ?s = "s\<lparr> conversations := conversations s @ [(k, es)] \<rparr>"
  have "load_history now (map (\<lambda>(k, es). (k, VArr (map entry_value es))) cs) ?s
    = ?s\<lparr> conversations := conversations ?s @ cs \<rparr>"
    by (rule Cons.IH) (use Cons.prems c in auto)
  moreover have "mput (conversations s) k es = conversations s @ [(k, es)]"
    using Cons.prems c by (intro mput_absent) (auto simp: mhas_def)
  ultimately show ?case using Cons.prems c by (simp add: load_entries_values Let_def)
qed simp

lemma load_dedupe_values:
  assumes "list_all (\<lambda>m. m \<noteq> [] \<and> trim m = m) ms" and "distinct (processedMessages s @ ms)"
  shows "load_dedupe (map VStr ms) s = s\<lparr> processedMessages := processedMessages s @ ms \<rparr>"
  using assms
proof (induction ms arbitrary: s)
  case (Cons m ms)
  let ?s = "s\<lparr> processedMessages := processedMessages s @ [m] \<rparr>"
  have "load_dedupe (map VStr ms) ?s = ?s\<lparr> processedMessages := processedMessages ?s @ ms \<rparr>"
    by (rule Cons.IH) (use Cons.prems in auto)
  moreover have "\<not> blank m" using Cons.prems trim_Nil_iff [of m] by auto
  ultimately show ?case using Cons.prems by (simp add: sadd_def)
qed simp

section \<open>Properties\<close>

text \<open>C9: The state files round trip. For any texts that are JSON for what \<open>saveStateFiles\<close> writes,
  a restarted service has every conversation of the old one and its last 2000 handled message
  ids, in order, provided the contents are not blank and names and ids are trimmed.\<close>

theorem state_files_round_trip:
  assumes "json_parse h = Some (history_value s)" and "json_parse d = Some (dedupe_value s)"
    and "list_all (\<lambda>(k, es). es \<noteq> [] \<and> list_all entry_storable es) (conversations s)"
    and "distinct (mkeys (conversations s))"
    and "list_all (\<lambda>m. m \<noteq> [] \<and> trim m = m) (processedMessages s)" and "distinct (processedMessages s)"
  shows "let t = loadStateFiles now (Some h) (Some d) new_module_state in
    conversations t = conversations s \<and> processedMessages t = take_last 2000 (processedMessages s)
    \<and> processingMessages t = [] \<and> dedupeTimestamps t = []"
proof -
  have "list_all (\<lambda>m. m \<noteq> [] \<and> trim m = m) (kept_dedupe s)"
    using assms(5) set_take_last by (fastforce simp: list_all_iff kept_dedupe_def)
  moreover have "distinct (kept_dedupe s)" using assms(6) by (simp add: kept_dedupe_def distinct_take_last)
  ultimately have "load_dedupe (map VStr (kept_dedupe s)) t
      = t\<lparr> processedMessages := processedMessages t @ kept_dedupe s \<rparr>"
    if "processedMessages t = []" for t using that by (intro load_dedupe_values) auto
  then show ?thesis
    using assms(1,2) load_history_values [OF assms(3), of new_module_state now] assms(4)
    by (simp add: loadStateFiles_def history_value_def dedupe_value_def new_module_state_def kept_dedupe_def)
qed

definition sample_state :: module_state where
  "sample_state = new_module_state\<lparr>
     conversations := [(js ''feishu:main:dm:ou_1'', [\<lparr> ce_role = RoleUser, ce_name = Some (js ''ou_1''),
        ce_content = js ''hello'', ce_ts = Fin 1000 \<rparr>,
        \<lparr> ce_role = RoleAssistant, ce_name = None, ce_content = js ''hi'', ce_ts = Fin 2000 \<rparr>])],
     processedMessages := [js ''om_1'', js ''om_2''] \<rparr>"

theorem state_files_round_trip_witness:
  "conversations (loadStateFiles 0 (Some (ser (history_value sample_state)))
     (Some (ser (dedupe_value sample_state))) new_module_state) = conversations sample_state"
proof -
  have "json_parse (ser (history_value sample_state)) = Some (history_value sample_state)"
    by (rule json_round_trip)
       (simp add: history_value_def sample_state_def entry_value_def role_str_def js_def)
  moreover have "json_parse (ser (dedupe_value sample_state)) = Some (dedupe_value sample_state)"
    by (rule json_round_trip) (simp add: dedupe_value_def sample_state_def kept_dedupe_def)
  ultimately show ?thesis
    using state_files_round_trip [of "ser (history_value sample_state)" sample_state
        "ser (dedupe_value sample_state)" 0]
    by (simp add: sample_state_def entry_storable_def js_def blank_def is_space_def trim_def
        trimStart_def trimEnd_def Let_def)
qed

text \<open>Expiry of handled message ids. The clean-up forgets exactly the ids whose time stamp is older than
  five minutes; an id restored from the dedupe file has no time stamp and is never
  forgotten by it, however late.\<close>

theorem dedupe_expiry:
  assumes "distinct (mkeys (dedupeTimestamps s))"
  shows "(k \<in> set (processedMessages (cleanupDedupeSet now s)) \<longleftrightarrow> k \<in> set (processedMessages s)
      \<and> (case mget (dedupeTimestamps s) k of Some ts \<Rightarrow> now - ts \<le> 300000 | None \<Rightarrow> True))
    \<and> (k \<in> set (processedMessages (loadStateFiles t h d new_module_state)) \<longleftrightarrow>
        k \<in> set (processedMessages (cleanupDedupeSet now (loadStateFiles t h d new_module_state))))"
proof -
  have hist: "dedupeTimestamps (load_history t fs z) = dedupeTimestamps z" for fs z
    by (induction t fs z rule: load_history.induct) (auto simp: Let_def split: jsval.splits)
  have ded: "dedupeTimestamps (load_dedupe vs z) = dedupeTimestamps z" for vs z
    by (induction vs z rule: load_dedupe.induct) (auto split: jsval.splits)
  have "dedupeTimestamps (loadStateFiles t h d new_module_state) = []"
    by (auto simp: loadStateFiles_def Let_def hist ded new_module_state_def split: option.splits jsval.splits)
  then show ?thesis using cleanup_processed [OF assms]
    by (auto simp: cleanup_processed DEDUP_TTL_MS_def split: option.splits)
qed

theorem dedupe_expiry_witness:
  "js ''om_1'' \<notin> set (processedMessages (cleanupDedupeSet 300001
      (new_module_state\<lparr> processedMessages := [js ''om_1''], dedupeTimestamps := [(js ''om_1'', 0)] \<rparr>)))"
  using dedupe_expiry [of "new_module_state\<lparr> processedMessages := [js ''om_1''],
      dedupeTimestamps := [(js ''om_1'', 0)] \<rparr>" "js ''om_1''" 300001]
  by (simp add: mget_def)

text \<open>The pre-filter of group messages. In a group an unmentioned message is only stored, not answered,
  exactly when it is no reply to a recorded bot message and contains none of the three trigger
  words; and with no bot message id recorded, as always since nothing calls
  \<open>recordBotMessageId\<close>, the reply rule plays no part.\<close>

theorem prefilter_rules:
  "(rulePreFilter txt mentioned e s = StoreOnly \<longleftrightarrow> \<not> mentioned \<and> isGroup e \<and> \<not> isReplyToBotMessage e s
     \<and> \<not> (\<exists>w \<in> set TRIGGER_WORDS. str_includes (toLowerCase txt) w))
   \<and> (rulePreFilter txt mentioned e (s\<lparr> botMessageIds := [] \<rparr>) = StoreOnly \<longleftrightarrow> \<not> mentioned \<and> isGroup e
     \<and> \<not> (\<exists>w \<in> set TRIGGER_WORDS. str_includes (toLowerCase txt) w))"
proof -
  have "toLowerCase w = w" if "w \<in> set TRIGGER_WORDS" for w
    using that by (auto simp: TRIGGER_WORDS_def toLowerCase_def lower_char_def)
  then have "list_ex (\<lambda>w. str_includes (toLowerCase txt) (toLowerCase w)) TRIGGER_WORDS
      \<longleftrightarrow> (\<exists>w \<in> set TRIGGER_WORDS. str_includes (toLowerCase txt) w)"
    by (auto simp: list_ex_iff)
  then show ?thesis
    by (auto simp: rulePreFilter_def isGroup_def isReplyToBotMessage_def Let_def split: option.splits)
qed

end
