(* ===== verification/Service.thy ===== *)
theory Service
  imports ServiceState
begin

text \<open>
  The running service of \<open>src/src/feishu-service.ts\<close> as a state machine: \<open>handleMessage\<close>,
  \<open>processAggregatedMessage\<close> with its \<open>withTimeout\<close>, the timers and the shutdown of
  \<open>runFeishuService\<close> and \<open>main\<close>.

  An \<open>async\<close> function is cut at its awaits.  A handler or a pipeline is a record with a program
  counter naming the await it is suspended at, and its local variables; each synchronous
  segment between two awaits is one definition.  An event resumes one of them with the
  outcome of what it awaits (\<open>Inl\<close>: it threw), or is an inbound message, a timer or the abort
  signal.  What a segment asks of the outside is appended to \<open>sv_out\<close>.  Everything is
  executable: \<open>svc_step\<close> returns \<open>None\<close> when the event cannot happen in the state.

  \<open>Date.now()\<close> has one value \<open>now\<close> during a segment.  The machine starts when
  \<open>runFeishuService\<close> has set its globals and waits for the abort signal, so
  \<open>globalSessionManager\<close> and \<open>globalAggregator\<close> are always present.
\<close>

section \<open>Data\<close>

record env =
  e_accountId :: jsstr
  e_config :: jsval
  e_memory :: bool
  e_botOpenId :: "jsstr option"
  e_botName :: "jsstr option"

datatype intent = Chat | Tool | Question | Vision

record routing_decision =
  rd_shouldReply :: bool
  rd_intent :: intent
  rd_tone :: tone

datatype thrown = ErrorWith jsstr | NonError

datatype handler_pc = HParse | HRecordActive | HRecord

record handler =
  h_event :: fevent
  h_pc :: handler_pc
  h_text :: jsstr
  h_images :: "image_data list"
  h_imagePaths :: "jsstr list"
  h_shouldReply :: bool

datatype send_mode = ChatMode | AnswerMode

datatype pipe_pc = PRoute | PChat | PStartTurn | PGenerate1 | PFinishOk1 | PFinishFailed1 thrown
  | PGenerate2 | PFinishOk2 | PFinishFailed2 thrown | PSending send_mode | PSleeping send_mode
  | PRecord | PDone | PFailed thrown

datatype outer_pc = OWait int | OApology | OFinished

record pipeline =
  p_agg :: aggregated
  p_session :: nat
  p_pc :: pipe_pc
  p_outer :: outer_pc
  p_tone :: tone
  p_aiTurn :: "int option"
  p_reply :: jsstr
  p_chunks :: "jsstr list"
  p_index :: nat

record generate_params =
  gp_sessionKey :: jsstr
  gp_text :: jsstr
  gp_sender :: jsstr
  gp_aiTurn :: "int option"
  gp_imagePaths :: "jsstr list"
  gp_tone :: tone
  gp_extraContext :: "jsstr option"

datatype action =
    ARecordUser fevent jsstr bool
  | ARouteModel nat
  | AChatModel nat
  | AStartTurn nat db_ref nat
  | AGenerate nat generate_params
  | AFinishTurn nat bool "int option"
  | ASend nat fevent jsstr bool
  | AApology nat fevent jsstr
  | ARecordAssistant nat jsstr nat
  | AWriteFiles "jsstr option" "jsstr option"

datatype phase = Running | Waiting int | ClosingMcp | ClosingMemory | Closed | Exited | Hung

record service =
  sv_mod :: module_state
  sv_sessions :: session_manager
  sv_agg :: aggregator
  sv_inFlight :: int
  sv_shutdown :: bool
  sv_phase :: phase
  sv_handlers :: "(nat, handler) jsmap"
  sv_nextH :: nat
  sv_pipes :: "(nat, pipeline) jsmap"
  sv_nextP :: nat
  sv_out :: "action list"

definition new_service :: "module_state \<Rightarrow> service" where
  "new_service m = \<lparr> sv_mod = m, sv_sessions = new_manager, sv_agg = new_aggregator None None None,
     sv_inFlight = 0, sv_shutdown = False, sv_phase = Running, sv_handlers = [], sv_nextH = 0,
     sv_pipes = [], sv_nextP = 0, sv_out = [] \<rparr>"

definition emit :: "action \<Rightarrow> service \<Rightarrow> service" where
  "emit a s = s\<lparr> sv_out := sv_out s @ [a] \<rparr>"

definition goto :: "nat \<Rightarrow> pipeline \<Rightarrow> service \<Rightarrow> service" where
  "goto pid p s = s\<lparr> sv_pipes := mput (sv_pipes s) pid p \<rparr>"

definition transition :: "jsstr \<Rightarrow> session_state \<Rightarrow> int \<Rightarrow> service \<Rightarrow> service" where
  "transition k st now s = s\<lparr> sv_sessions := sm_transition k st now (sv_sessions s) \<rparr>"

text \<open>\<open>memory?.f(...)\<close>: nothing is called when there is no memory store.\<close>

definition emit_db :: "env \<Rightarrow> action \<Rightarrow> service \<Rightarrow> service" where
  "emit_db v a s = (if e_memory v then emit a s else s)"

text \<open>\<open>transition(senderId, st); clear(senderId)\<close>, the way every session ends.\<close>

definition leave :: "jsstr \<Rightarrow> session_state \<Rightarrow> int \<Rightarrow> service \<Rightarrow> service" where
  "leave k st now s = s\<lparr> sv_sessions := sm_clear k (sm_transition k st now (sv_sessions s)) \<rparr>"

section \<open>The pipeline: \<open>processAggregatedMessage\<close>\<close>

text \<open>Up to its first await, the call of agent D; the deadline is \<open>withTimeout\<close>'s.\<close>

definition PIPELINE_TIMEOUT_MS :: int where
  "PIPELINE_TIMEOUT_MS = 60000"

definition first_event :: "aggregated \<Rightarrow> fevent" where
  "first_event a = it_event (hd (ag_items a))"

definition start_pipeline :: "int \<Rightarrow> aggregated \<Rightarrow> service \<Rightarrow> service" where
  "start_pipeline now ag s = (case ag_items ag of
     [] \<Rightarrow> s
   | firstItem # _ \<Rightarrow>
      (let (m, r) = sm_getOrCreate \<lparr> op_senderId = ag_senderId ag, op_senderName = ag_senderName ag,
             op_sessionKey = ag_sessionKey ag, op_chatId = ag_chatId ag, op_chatType = ag_chatType ag,
             op_accountId = ag_accountId ag, op_triggerMessageId = message_id (it_event firstItem),
             op_triggerEvent = it_event firstItem \<rparr> now (ag_requestId ag) (sv_sessions s);
           m1 = sm_transition (ag_senderId ag) ROUTING now m;
           m2 = sm_update r (\<lambda>c. c\<lparr> s_requestId := ag_requestId ag,
             s_triggerMessageId := message_id (it_event firstItem),
             s_triggerEvent := it_event firstItem, s_lastActivityAt := now \<rparr>) m1;
           p = \<lparr> p_agg = ag, p_session = r, p_pc = PRoute, p_outer = OWait (now + PIPELINE_TIMEOUT_MS),
             p_tone = Casual, p_aiTurn = None, p_reply = [], p_chunks = [], p_index = 0 \<rparr>
       in emit (ARouteModel (sv_nextP s))
            (s\<lparr> sv_sessions := m2, sv_inFlight := sv_inFlight s + 1,
                sv_pipes := mput (sv_pipes s) (sv_nextP s) p, sv_nextP := Suc (sv_nextP s) \<rparr>)))"

text \<open>The \<open>onSubmit\<close> callback, for each message the aggregator submits in a segment.\<close>

fun submit_all :: "int \<Rightarrow> aggregated list \<Rightarrow> service \<Rightarrow> service" where
  "submit_all now [] s = s"
| "submit_all now (a # as) s = submit_all now as (start_pipeline now a s)"

definition senderKey :: "pipeline \<Rightarrow> jsstr" where
  "senderKey p = ag_senderId (p_agg p)"

definition fail :: "nat \<Rightarrow> pipeline \<Rightarrow> thrown \<Rightarrow> service \<Rightarrow> service" where
  "fail pid p err s = goto pid (p\<lparr> p_pc := PFailed err \<rparr>) s"

definition generate :: "nat \<Rightarrow> pipeline \<Rightarrow> pipe_pc \<Rightarrow> jsstr option \<Rightarrow> service \<Rightarrow> service" where
  "generate pid p pc extra s = emit (AGenerate pid
      \<lparr> gp_sessionKey = ag_sessionKey (p_agg p),
        gp_text = join [0x0A] (map it_text (ag_items (p_agg p))),
        gp_sender = senderDisplayName (ag_senderId (p_agg p)), gp_aiTurn = p_aiTurn p,
        gp_imagePaths = concat (map it_imagePaths (ag_items (p_agg p))), gp_tone = p_tone p,
        gp_extraContext = extra \<rparr>)
     (goto pid (p\<lparr> p_pc := pc \<rparr>) s)"

text \<open>After agent D.\<close>

definition on_routed :: "env \<Rightarrow> nat \<Rightarrow> pipeline \<Rightarrow> thrown + routing_decision \<Rightarrow> int \<Rightarrow> service \<Rightarrow> service" where
  "on_routed v pid p res now s = (case res of
     Inl err \<Rightarrow> fail pid p err s
   | Inr d \<Rightarrow>
      if \<not> rd_shouldReply d then leave (senderKey p) IDLE now (goto pid (p\<lparr> p_pc := PDone \<rparr>) s)
      else (let s1 = s\<lparr> sv_sessions := sm_update (p_session p) (\<lambda>c. c\<lparr> s_tone := rd_tone d \<rparr>) (sv_sessions s) \<rparr>;
                p1 = p\<lparr> p_tone := rd_tone d \<rparr>
            in if rd_intent d = Chat
               then emit (AChatModel pid) (transition (senderKey p) CHATTING now
                      (goto pid (p1\<lparr> p_pc := PChat \<rparr>) s1))
               else (let s2 = transition (senderKey p) PROCESSING now s1 in
                     case it_dbRef (hd (ag_items (p_agg p))) of
                       Some ref \<Rightarrow> emit_db v (AStartTurn pid ref
                           (length (history_of (ag_sessionKey (p_agg p)) (sv_mod s))))
                         (goto pid (p1\<lparr> p_pc := PStartTurn \<rparr>) s2)
                     | None \<Rightarrow> generate pid p1 PGenerate1 None s2)))"

text \<open>The end of both sending loops, and one round of them.\<close>

definition assistant_entry :: "jsstr \<Rightarrow> int \<Rightarrow> history_entry" where
  "assistant_entry txt now = \<lparr> ce_role = RoleAssistant, ce_name = None, ce_content = txt,
     ce_ts = Fin (of_int now) \<rparr>"

definition complete :: "nat \<Rightarrow> pipeline \<Rightarrow> int \<Rightarrow> service \<Rightarrow> service" where
  "complete pid p now s =
     leave (senderKey p) IDLE now
       (goto pid (p\<lparr> p_pc := PDone \<rparr>)
         (s\<lparr> sv_mod := addHistory (ag_sessionKey (p_agg p)) (assistant_entry (p_reply p) now) now (sv_mod s) \<rparr>))"

definition next_chunk :: "env \<Rightarrow> send_mode \<Rightarrow> nat \<Rightarrow> pipeline \<Rightarrow> int \<Rightarrow> service \<Rightarrow> service" where
  "next_chunk v mode pid p now s =
     (if p_index p < length (p_chunks p)
      then emit (ASend pid (first_event (p_agg p)) (p_chunks p ! p_index p) (p_index p = 0))
             (goto pid (p\<lparr> p_pc := PSending mode \<rparr>) s)
      else (case mode of
              ChatMode \<Rightarrow> complete pid p now s
            | AnswerMode \<Rightarrow> emit_db v (ARecordAssistant pid (p_reply p) (length (p_chunks p)))
                (goto pid (p\<lparr> p_pc := PRecord \<rparr>) s)))"

text \<open>A \<open>chunkReply\<close> that does not return blocks the event loop: the service hangs.\<close>

definition send_reply :: "env \<Rightarrow> send_mode \<Rightarrow> nat \<Rightarrow> pipeline \<Rightarrow> int \<Rightarrow> service \<Rightarrow> service" where
  "send_reply v mode pid p now s = (case chunkReply (p_reply p) (e_config v) of
     None \<Rightarrow> s\<lparr> sv_phase := Hung \<rparr>
   | Some chunks \<Rightarrow> next_chunk v mode pid (p\<lparr> p_chunks := chunks, p_index := 0 \<rparr>) now s)"

definition on_chat :: "env \<Rightarrow> nat \<Rightarrow> pipeline \<Rightarrow> thrown + jsstr \<Rightarrow> int \<Rightarrow> service \<Rightarrow> service" where
  "on_chat v pid p res now s = (case res of
     Inl err \<Rightarrow> fail pid p err s
   | Inr txt \<Rightarrow> send_reply v ChatMode pid (p\<lparr> p_reply := txt \<rparr>) now s)"

definition on_sent :: "nat \<Rightarrow> pipeline \<Rightarrow> send_mode \<Rightarrow> thrown option \<Rightarrow> service \<Rightarrow> service" where
  "on_sent pid p mode res s = (case res of
     Some err \<Rightarrow> fail pid p err s
   | None \<Rightarrow> goto pid (p\<lparr> p_pc := PSleeping mode \<rparr>) s)"

definition on_slept :: "env \<Rightarrow> nat \<Rightarrow> pipeline \<Rightarrow> send_mode \<Rightarrow> int \<Rightarrow> service \<Rightarrow> service" where
  "on_slept v pid p mode now s = next_chunk v mode pid (p\<lparr> p_index := Suc (p_index p) \<rparr>) now s"

definition on_turn :: "nat \<Rightarrow> pipeline \<Rightarrow> thrown + int option \<Rightarrow> service \<Rightarrow> service" where
  "on_turn pid p res s = (case res of
     Inl err \<Rightarrow> fail pid p err s
   | Inr t \<Rightarrow> generate pid (p\<lparr> p_aiTurn := t \<rparr>) PGenerate1 None s)"

text \<open>After \<open>generateReply\<close>: the turn is recorded as a success or a failure.\<close>

definition on_generated :: "env \<Rightarrow> nat \<Rightarrow> pipeline \<Rightarrow> thrown + jsstr \<Rightarrow> service \<Rightarrow> service" where
  "on_generated v pid p res s =
    (let retry = (p_pc p = PGenerate2) in
     case res of
       Inl err \<Rightarrow> emit_db v (AFinishTurn pid False (p_aiTurn p))
         (goto pid (p\<lparr> p_pc := (if retry then PFinishFailed2 err else PFinishFailed1 err) \<rparr>) s)
     | Inr txt \<Rightarrow> emit_db v (AFinishTurn pid True (p_aiTurn p))
         (goto pid (p\<lparr> p_reply := txt, p_pc := (if retry then PFinishOk2 else PFinishOk1) \<rparr>) s))"

definition retry_context :: "jsstr \<Rightarrow> item list \<Rightarrow> jsstr" where
  "retry_context senderName extra = join [0x0A]
    ([[0x5B, 0x7528, 0x6237, 0x5728, 0x4F60, 0x751F, 0x6210, 0x56DE, 0x7B54, 0x671F, 0x95F4,
       0x8FFD, 0x52A0, 0x4E86, 0x65B0, 0x6D88, 0x606F, 0xFF1A, 0x5D]]
     @ map (\<lambda>i. senderName @ js '': '' @ it_text i) extra
     @ [[0x5B, 0x8BF7, 0x7ED3, 0x5408, 0x4F60, 0x4E4B, 0x524D, 0x7684, 0x56DE, 0x7B54, 0x548C,
       0x8FD9, 0x4E9B, 0x8FFD, 0x52A0, 0x6D88, 0x606F, 0xFF0C, 0x7ED9, 0x51FA, 0x5B8C, 0x6574,
       0x7684, 0x6700, 0x7EC8, 0x56DE, 0x590D, 0x3002, 0x5D]])"

definition send_answer :: "env \<Rightarrow> nat \<Rightarrow> pipeline \<Rightarrow> int \<Rightarrow> service \<Rightarrow> service" where
  "send_answer v pid p now s = send_reply v AnswerMode pid p now (transition (senderKey p) SENDING now s)"

definition validate :: "env \<Rightarrow> nat \<Rightarrow> pipeline \<Rightarrow> int \<Rightarrow> service \<Rightarrow> service" where
  "validate v pid p now s =
    (let s1 = transition (senderKey p) VALIDATING now s in
     case mget (sm_heap (sv_sessions s1)) (p_session p) of
       None \<Rightarrow> s1
     | Some c \<Rightarrow>
        if s_pendingItems c \<noteq> [] \<and> s_retryCount c < 1
        then (let s2 = s1\<lparr> sv_sessions := sm_update (p_session p)
                    (\<lambda>c. c\<lparr> s_retryCount := Suc (s_retryCount c), s_pendingItems := [] \<rparr>) (sv_sessions s1) \<rparr>;
                  s3 = transition (senderKey p) PROCESSING now s2
              in generate pid p PGenerate2 (Some (retry_context (ag_senderName (p_agg p)) (s_pendingItems c))) s3)
        else send_answer v pid p now s1)"

definition on_finished :: "env \<Rightarrow> nat \<Rightarrow> pipeline \<Rightarrow> thrown option \<Rightarrow> int \<Rightarrow> service \<Rightarrow> service option" where
  "on_finished v pid p res now s =
    (case (p_pc p, res) of
       (PFinishOk1, None) \<Rightarrow> Some (validate v pid p now s)
     | (PFinishOk1, Some err) \<Rightarrow> Some (emit_db v (AFinishTurn pid False (p_aiTurn p))
          (goto pid (p\<lparr> p_pc := PFinishFailed1 err \<rparr>) s))
     | (PFinishFailed1 err, None) \<Rightarrow> Some (fail pid p err s)
     | (PFinishFailed1 err, Some err') \<Rightarrow> Some (fail pid p err' s)
     | (PFinishOk2, None) \<Rightarrow> Some (send_answer v pid p now s)
     | (PFinishOk2, Some err) \<Rightarrow> Some (emit_db v (AFinishTurn pid False (p_aiTurn p))
          (goto pid (p\<lparr> p_pc := PFinishFailed2 err \<rparr>) s))
     | (PFinishFailed2 err, None) \<Rightarrow> Some (send_answer v pid p now s)
     | (PFinishFailed2 err, Some err') \<Rightarrow> Some (fail pid p err' s)
     | _ \<Rightarrow> None)"

definition on_recorded_reply :: "nat \<Rightarrow> pipeline \<Rightarrow> thrown option \<Rightarrow> int \<Rightarrow> service \<Rightarrow> service" where
  "on_recorded_reply pid p res now s = (case res of
     Some err \<Rightarrow> fail pid p err s | None \<Rightarrow> complete pid p now s)"

text \<open>The rest of \<open>processAggregatedMessage\<close>, once the race is decided.\<close>

definition APOLOGY :: jsstr where
  "APOLOGY = [0x51FA, 0x4E86, 0x70B9, 0x95EE, 0x9898, 0xFF0C, 0x7A0D, 0x540E, 0x518D, 0x8BD5,
     0x4E00, 0x4E0B, 0xFF1F]"

definition degrade :: "nat \<Rightarrow> pipeline \<Rightarrow> int \<Rightarrow> service \<Rightarrow> service" where
  "degrade pid p now s =
     (let s1 = leave (senderKey p) DEGRADED now (goto pid (p\<lparr> p_outer := OFinished \<rparr>) s)
      in s1\<lparr> sv_inFlight := sv_inFlight s1 - 1 \<rparr>)"

definition on_settle :: "nat \<Rightarrow> pipeline \<Rightarrow> int \<Rightarrow> service \<Rightarrow> service option" where
  "on_settle pid p now s = (case p_pc p of
     PDone \<Rightarrow> Some (let s1 = goto pid (p\<lparr> p_outer := OFinished \<rparr>) s
                    in s1\<lparr> sv_inFlight := sv_inFlight s1 - 1 \<rparr>)
   | PFailed (ErrorWith msg) \<Rightarrow>
       if str_includes msg (js ''timed out'') then Some (degrade pid p now s)
       else Some (emit (AApology pid (first_event (p_agg p)) APOLOGY)
                   (goto pid (p\<lparr> p_outer := OApology \<rparr>) s))
   | PFailed NonError \<Rightarrow> Some (degrade pid p now s)
   | _ \<Rightarrow> None)"

definition terminal :: "pipe_pc \<Rightarrow> bool" where
  "terminal pc \<longleftrightarrow> (case pc of PDone \<Rightarrow> True | PFailed _ \<Rightarrow> True | _ \<Rightarrow> False)"

definition on_timeout :: "nat \<Rightarrow> pipeline \<Rightarrow> int \<Rightarrow> int \<Rightarrow> service \<Rightarrow> service option" where
  "on_timeout pid p deadline now s =
     (if deadline \<le> now \<and> \<not> terminal (p_pc p) then Some (degrade pid p now s) else None)"

section \<open>The handler: \<open>handleMessage\<close>\<close>

definition handler_id :: "handler \<Rightarrow> jsstr" where
  "handler_id h = trim (message_id (h_event h))"

text \<open>\<open>processedMessages.add(messageId)\<close>, and the \<open>finally\<close> block.\<close>

definition mark_processed :: "jsstr \<Rightarrow> service \<Rightarrow> service" where
  "mark_processed i s = s\<lparr> sv_mod := (sv_mod s)\<lparr> processedMessages := sadd (processedMessages (sv_mod s)) i \<rparr> \<rparr>"

definition finally_block :: "jsstr \<Rightarrow> int \<Rightarrow> service \<Rightarrow> service" where
  "finally_block i now s = s\<lparr> sv_mod := scheduleStateSave now
     ((sv_mod s)\<lparr> processingMessages := sdel (processingMessages (sv_mod s)) i \<rparr>) \<rparr>"

definition end_handler :: "nat \<Rightarrow> jsstr \<Rightarrow> int \<Rightarrow> service \<Rightarrow> service" where
  "end_handler hid i now s = finally_block i now (s\<lparr> sv_handlers := mdel (sv_handlers s) hid \<rparr>)"

text \<open>From the arrival to the first await, \<open>parseMessageWithImages\<close>.\<close>

definition on_message :: "env \<Rightarrow> fevent \<Rightarrow> int \<Rightarrow> service \<Rightarrow> service" where
  "on_message v e now s =
    (let messageId = trim (message_id e); m = sv_mod s in
     if messageId = [] \<or> messageId \<in> set (processedMessages m) \<or> messageId \<in> set (processingMessages m)
     then s
     else
       (let m1 = cleanupDedupeSet now (m\<lparr> processingMessages := sadd (processingMessages m) messageId,
                    dedupeTimestamps := mput (dedupeTimestamps m) messageId now \<rparr>);
            s1 = s\<lparr> sv_mod := m1 \<rparr>
        in if sender_type e = Some (js ''app'') \<or> open_id e = e_botOpenId v
           then finally_block messageId now (mark_processed messageId s1)
           else if \<not> isSenderAllowed (e_config v) e
           then finally_block messageId now (mark_processed messageId s1)
           else s1\<lparr> sv_handlers := mput (sv_handlers s1) (sv_nextH s1)
                     \<lparr> h_event = e, h_pc = HParse, h_text = [], h_images = [], h_imagePaths = [],
                       h_shouldReply = False \<rparr>,
                    sv_nextH := Suc (sv_nextH s1) \<rparr>))"

definition handler_key :: "env \<Rightarrow> handler \<Rightarrow> jsstr" where
  "handler_key v h = sessionKeyFor (h_event h) (e_accountId v)"

definition handler_sender :: "handler \<Rightarrow> jsstr" where
  "handler_sender h = default (js ''unknown'') (senderIdFor (h_event h))"

definition handler_mentioned :: "env \<Rightarrow> handler \<Rightarrow> bool" where
  "handler_mentioned v h = isBotMentioned (h_event h) (e_botOpenId v) (e_botName v)"

text \<open>After parsing: decide between the running pipeline and a new one, and record.\<close>

definition on_parsed :: "env \<Rightarrow> nat \<Rightarrow> handler \<Rightarrow> thrown + (jsstr \<times> image_data list \<times> jsstr list) \<Rightarrow> int
    \<Rightarrow> service \<Rightarrow> service" where
  "on_parsed v hid h res now s = (case res of
     Inl err \<Rightarrow> end_handler hid (handler_id h) now s
   | Inr (txt, images, imagePaths) \<Rightarrow>
      if blank txt \<and> images = []
      then end_handler hid (handler_id h) now (mark_processed (handler_id h) s)
      else
        (let h1 = h\<lparr> h_text := txt, h_images := images, h_imagePaths := imagePaths \<rparr>;
             mentioned = handler_mentioned v h1;
             record = (\<lambda>shouldReply. emit_db v (ARecordUser (h_event h) txt shouldReply))
         in if sm_isActive (handler_sender h1) (sv_sessions s)
            then record True (s\<lparr> sv_handlers := mput (sv_handlers s) hid
                   (h1\<lparr> h_pc := HRecordActive, h_shouldReply := True \<rparr>) \<rparr>)
            else (let shouldReply = (if chat_type (h_event h) = js ''group''
                        then rulePreFilter txt mentioned (h_event h) (sv_mod s) \<noteq> StoreOnly else True)
                  in record shouldReply (s\<lparr> sv_handlers := mput (sv_handlers s) hid
                       (h1\<lparr> h_pc := HRecord, h_shouldReply := shouldReply \<rparr>) \<rparr>))))"

definition historyContent :: "handler \<Rightarrow> jsstr" where
  "historyContent h = (if h_imagePaths h \<noteq> []
     then h_text h @ [0x0A, 0x5B, 0x56FE, 0x7247, 0x6587, 0x4EF6, 0x3A, 0x20]
          @ join [0x2C, 0x20] (h_imagePaths h) @ [0x5D]
     else h_text h)"

definition user_entry :: "handler \<Rightarrow> int \<Rightarrow> history_entry" where
  "user_entry h now = \<lparr> ce_role = RoleUser, ce_name = Some (senderLabel (h_event h)),
     ce_content = historyContent h, ce_ts = Fin (of_int now) \<rparr>"

definition handler_item :: "env \<Rightarrow> handler \<Rightarrow> db_ref option \<Rightarrow> int \<Rightarrow> item" where
  "handler_item v h ref now = \<lparr> it_event = h_event h, it_text = h_text h, it_images = h_images h,
     it_imagePaths = h_imagePaths h, it_ts = now, it_mentioned = handler_mentioned v h, it_dbRef = ref \<rparr>"

definition push_for :: "env \<Rightarrow> handler \<Rightarrow> db_ref option \<Rightarrow> int \<Rightarrow> push_params" where
  "push_for v h ref now = \<lparr> pp_item = handler_item v h ref now, pp_senderId = handler_sender h,
     pp_senderName = senderLabel (h_event h), pp_sessionKey = handler_key v h,
     pp_chatId = chat_id (h_event h), pp_chatType = chat_type (h_event h),
     pp_accountId = e_accountId v, pp_immediate = handler_mentioned v h \<rparr>"

text \<open>After \<open>recordUserMessage\<close>; \<open>rid\<close> is the request id drawn if a new buffer opens.\<close>

definition on_recorded :: "env \<Rightarrow> nat \<Rightarrow> handler \<Rightarrow> thrown + db_ref option \<Rightarrow> int \<Rightarrow> jsstr \<Rightarrow> service
    \<Rightarrow> service option" where
  "on_recorded v hid h res now rid s = (case res of
     Inl err \<Rightarrow> Some (end_handler hid (handler_id h) now s)
   | Inr ref \<Rightarrow>
      (let s1 = s\<lparr> sv_mod := addHistory (handler_key v h) (user_entry h now) now (sv_mod s) \<rparr> in
       case h_pc h of
         HParse \<Rightarrow> None
       | HRecordActive \<Rightarrow>
           Some (end_handler hid (handler_id h) now (mark_processed (handler_id h)
             (s1\<lparr> sv_sessions := sm_appendItem (handler_sender h) (handler_item v h ref now) now (sv_sessions s1) \<rparr>)))
       | HRecord \<Rightarrow>
           if \<not> h_shouldReply h
           then Some (end_handler hid (handler_id h) now (mark_processed (handler_id h) s1))
           else (let (a, out) = agg_push (push_for v h ref now) now rid (sv_agg s1);
                     s2 = submit_all now out (s1\<lparr> sv_agg := a \<rparr>)
                 in Some (end_handler hid (handler_id h) now (mark_processed (handler_id h) s2)))))"

section \<open>Timers, shutdown and the step function\<close>

definition on_aggTimer :: "jsstr \<Rightarrow> int \<Rightarrow> service \<Rightarrow> service" where
  "on_aggTimer key now s = (let (a, out) = agg_timerFires key now (sv_agg s)
     in submit_all now out (s\<lparr> sv_agg := a \<rparr>))"

definition save_files :: "disk \<Rightarrow> service \<Rightarrow> service" where
  "save_files d s = (let (m, h, q) = saveStateFiles d (sv_mod s)
     in emit (AWriteFiles h q) (s\<lparr> sv_mod := m \<rparr>))"

definition on_saveTimer :: "int \<Rightarrow> disk \<Rightarrow> service \<Rightarrow> service option" where
  "on_saveTimer now d s = (case historySaveTimer (sv_mod s) of
     Some t \<Rightarrow> if t \<le> now then Some (save_files d (s\<lparr> sv_mod := (sv_mod s)\<lparr> historySaveTimer := None \<rparr> \<rparr>)) else None
   | None \<Rightarrow> None)"

text \<open>
  The abort signal: the listeners run in turn.  \<open>close\<close> flushes the aggregator and either
  waits for the requests in flight or goes on to close the MCP hub, and the second listener
  resolves the promise \<open>runFeishuService\<close> awaits, after which \<open>main\<close> calls \<open>process.exit\<close>.
\<close>

definition on_abort :: "int \<Rightarrow> service \<Rightarrow> service" where
  "on_abort now s =
    (let s0 = s\<lparr> sv_shutdown := True \<rparr>;
         (a, out) = agg_flushAll (sv_agg s0);
         s1 = submit_all now out (s0\<lparr> sv_agg := a \<rparr>)
     in s1\<lparr> sv_phase := (if sv_inFlight s1 > 0 then Waiting (now + 30000) else ClosingMcp) \<rparr>)"

definition on_poll :: "int \<Rightarrow> service \<Rightarrow> service option" where
  "on_poll now s = (case sv_phase s of
     Waiting deadline \<Rightarrow>
       Some (if sv_inFlight s > 0 \<and> now < deadline then s else s\<lparr> sv_phase := ClosingMcp \<rparr>)
   | _ \<Rightarrow> None)"

datatype event =
    Arrive jsval int
  | Parsed nat "thrown + (jsstr \<times> image_data list \<times> jsstr list)" int
  | Recorded nat "thrown + db_ref option" int jsstr
  | Routed nat "thrown + routing_decision" int
  | Chatted nat "thrown + jsstr" int
  | TurnStarted nat "thrown + int option"
  | Generated nat "thrown + jsstr"
  | TurnFinished nat "thrown option" int
  | Sent nat "thrown option"
  | Slept nat int
  | ReplyRecorded nat "thrown option" int
  | Settle nat int
  | ApologySent nat "thrown option" int
  | Timeout nat int
  | AggTimer jsstr int
  | SaveTimer int disk
  | IdleTimer int
  | Abort int
  | Poll int
  | McpClosed
  | MemoryClosed disk
  | MainReturns

text \<open>
  Timer callbacks are macrotasks.  After the abort signal the continuation of \<open>main\<close> is a
  microtask, so no timer fires before the process exits.
\<close>

definition timer_event :: "event \<Rightarrow> bool" where
  "timer_event e \<longleftrightarrow> (case e of Slept _ _ \<Rightarrow> True | Timeout _ _ \<Rightarrow> True | AggTimer _ _ \<Rightarrow> True
     | SaveTimer _ _ \<Rightarrow> True | IdleTimer _ \<Rightarrow> True | Poll _ \<Rightarrow> True | _ \<Rightarrow> False)"

definition with_pipe :: "nat \<Rightarrow> (pipeline \<Rightarrow> service option) \<Rightarrow> service \<Rightarrow> service option" where
  "with_pipe pid f s = (case mget (sv_pipes s) pid of Some p \<Rightarrow> f p | None \<Rightarrow> None)"

definition with_handler :: "nat \<Rightarrow> (handler \<Rightarrow> service option) \<Rightarrow> service \<Rightarrow> service option" where
  "with_handler hid f s = (case mget (sv_handlers s) hid of Some h \<Rightarrow> f h | None \<Rightarrow> None)"

fun dispatch :: "env \<Rightarrow> service \<Rightarrow> event \<Rightarrow> service option" where
  "dispatch v s (Arrive data now) = Some (if sv_shutdown s then s
     else (case parseMessagePayload data of None \<Rightarrow> s | Some e \<Rightarrow> on_message v e now s))"
| "dispatch v s (Parsed hid res now) = with_handler hid (\<lambda>h.
     if h_pc h = HParse then Some (on_parsed v hid h res now s) else None) s"
| "dispatch v s (Recorded hid res now rid) = with_handler hid (\<lambda>h.
     if h_pc h = HParse then None else on_recorded v hid h res now rid s) s"
| "dispatch v s (Routed pid res now) = with_pipe pid (\<lambda>p.
     if p_pc p = PRoute then Some (on_routed v pid p res now s) else None) s"
| "dispatch v s (Chatted pid res now) = with_pipe pid (\<lambda>p.
     if p_pc p = PChat then Some (on_chat v pid p res now s) else None) s"
| "dispatch v s (TurnStarted pid res) = with_pipe pid (\<lambda>p.
     if p_pc p = PStartTurn then Some (on_turn pid p res s) else None) s"
| "dispatch v s (Generated pid res) = with_pipe pid (\<lambda>p.
     if p_pc p = PGenerate1 \<or> p_pc p = PGenerate2 then Some (on_generated v pid p res s) else None) s"
| "dispatch v s (TurnFinished pid res now) = with_pipe pid (\<lambda>p. on_finished v pid p res now s) s"
| "dispatch v s (Sent pid res) = with_pipe pid (\<lambda>p.
     (case p_pc p of PSending mode \<Rightarrow> Some (on_sent pid p mode res s) | _ \<Rightarrow> None)) s"
| "dispatch v s (Slept pid now) = with_pipe pid (\<lambda>p.
     (case p_pc p of PSleeping mode \<Rightarrow> Some (on_slept v pid p mode now s) | _ \<Rightarrow> None)) s"
| "dispatch v s (ReplyRecorded pid res now) = with_pipe pid (\<lambda>p.
     if p_pc p = PRecord then Some (on_recorded_reply pid p res now s) else None) s"
| "dispatch v s (Settle pid now) = with_pipe pid (\<lambda>p.
     (case p_outer p of OWait d \<Rightarrow> on_settle pid p now s | _ \<Rightarrow> None)) s"
| "dispatch v s (ApologySent pid res now) = with_pipe pid (\<lambda>p.
     if p_outer p = OApology then Some (degrade pid p now s) else None) s"
| "dispatch v s (Timeout pid now) = with_pipe pid (\<lambda>p.
     (case p_outer p of OWait d \<Rightarrow> on_timeout pid p d now s | _ \<Rightarrow> None)) s"
| "dispatch v s (AggTimer key now) = Some (on_aggTimer key now s)"
| "dispatch v s (SaveTimer now d) = on_saveTimer now d s"
| "dispatch v s (IdleTimer now) = Some (s\<lparr> sv_sessions := sm_cleanupIdle now (sv_sessions s) \<rparr>)"
| "dispatch v s (Abort now) = (if sv_shutdown s then None else Some (on_abort now s))"
| "dispatch v s (Poll now) = on_poll now s"
| "dispatch v s McpClosed = (if sv_phase s = ClosingMcp then Some (s\<lparr> sv_phase := ClosingMemory \<rparr>) else None)"
| "dispatch v s (MemoryClosed d) = (if sv_phase s = ClosingMemory
     then Some (save_files d (s\<lparr> sv_phase := Closed \<rparr>)) else None)"
| "dispatch v s MainReturns = (if sv_shutdown s then Some (s\<lparr> sv_phase := Exited \<rparr>) else None)"

definition svc_step :: "env \<Rightarrow> service \<Rightarrow> event \<Rightarrow> service option" where
  "svc_step v s e = (if sv_phase s = Exited \<or> sv_phase s = Hung then None
     else if sv_shutdown s \<and> timer_event e then None
     else dispatch v s e)"

fun svc_run :: "env \<Rightarrow> service \<Rightarrow> event list \<Rightarrow> service option" where
  "svc_run v s [] = Some s"
| "svc_run v s (e # es) = (case svc_step v s e of Some t \<Rightarrow> svc_run v t es | None \<Rightarrow> None)"

inductive svc_rel :: "env \<Rightarrow> service \<Rightarrow> service \<Rightarrow> bool" for v where
  svc_relI: "svc_step v s e = Some t \<Longrightarrow> svc_rel v s t"

inductive_cases svc_relE: "svc_rel v s t"

end
