(* ===== verification/ServiceInv.thy ===== *)
theory ServiceInv
  imports Service
begin

text \<open>
  The invariants of the service machine and what follows from them.  \<open>hand_ok\<close> relates the
  two sets of message ids to the suspended handlers, \<open>pipe_ok\<close> the in-flight counter and the
  session map to the suspended pipelines.  Each is kept by every step.
\<close>

section \<open>What the small operations change\<close>

lemma emit_fields [simp]:
  "sv_mod (emit a s) = sv_mod s" "sv_sessions (emit a s) = sv_sessions s" "sv_agg (emit a s) = sv_agg s"
  "sv_inFlight (emit a s) = sv_inFlight s" "sv_shutdown (emit a s) = sv_shutdown s"
  "sv_phase (emit a s) = sv_phase s" "sv_handlers (emit a s) = sv_handlers s"
  "sv_nextH (emit a s) = sv_nextH s" "sv_pipes (emit a s) = sv_pipes s" "sv_nextP (emit a s) = sv_nextP s"
  "sv_out (emit a s) = sv_out s @ [a]"
  by (simp_all add: emit_def)

lemma emit_db_fields [simp]:
  "sv_mod (emit_db v a s) = sv_mod s" "sv_sessions (emit_db v a s) = sv_sessions s"
  "sv_agg (emit_db v a s) = sv_agg s" "sv_inFlight (emit_db v a s) = sv_inFlight s"
  "sv_shutdown (emit_db v a s) = sv_shutdown s" "sv_phase (emit_db v a s) = sv_phase s"
  "sv_handlers (emit_db v a s) = sv_handlers s" "sv_nextH (emit_db v a s) = sv_nextH s"
  "sv_pipes (emit_db v a s) = sv_pipes s" "sv_nextP (emit_db v a s) = sv_nextP s"
  "sv_out (emit_db v a s) = sv_out s @ (if e_memory v then [a] else [])"
  by (simp_all add: emit_db_def)

lemma goto_fields [simp]:
  "sv_mod (goto pid p s) = sv_mod s" "sv_sessions (goto pid p s) = sv_sessions s"
  "sv_agg (goto pid p s) = sv_agg s" "sv_inFlight (goto pid p s) = sv_inFlight s"
  "sv_shutdown (goto pid p s) = sv_shutdown s" "sv_phase (goto pid p s) = sv_phase s"
  "sv_handlers (goto pid p s) = sv_handlers s" "sv_nextH (goto pid p s) = sv_nextH s"
  "sv_pipes (goto pid p s) = mput (sv_pipes s) pid p" "sv_nextP (goto pid p s) = sv_nextP s"
  "sv_out (goto pid p s) = sv_out s"
  by (simp_all add: goto_def)

lemma transition_fields [simp]:
  "sv_mod (transition k st now s) = sv_mod s"
  "sv_sessions (transition k st now s) = sm_transition k st now (sv_sessions s)"
  "sv_agg (transition k st now s) = sv_agg s" "sv_inFlight (transition k st now s) = sv_inFlight s"
  "sv_shutdown (transition k st now s) = sv_shutdown s" "sv_phase (transition k st now s) = sv_phase s"
  "sv_handlers (transition k st now s) = sv_handlers s" "sv_nextH (transition k st now s) = sv_nextH s"
  "sv_pipes (transition k st now s) = sv_pipes s" "sv_nextP (transition k st now s) = sv_nextP s"
  "sv_out (transition k st now s) = sv_out s"
  by (simp_all add: transition_def)

lemma leave_fields [simp]:
  "sv_mod (leave k st now s) = sv_mod s"
  "sv_sessions (leave k st now s) = sm_clear k (sm_transition k st now (sv_sessions s))"
  "sv_agg (leave k st now s) = sv_agg s" "sv_inFlight (leave k st now s) = sv_inFlight s"
  "sv_shutdown (leave k st now s) = sv_shutdown s" "sv_phase (leave k st now s) = sv_phase s"
  "sv_handlers (leave k st now s) = sv_handlers s" "sv_nextH (leave k st now s) = sv_nextH s"
  "sv_pipes (leave k st now s) = sv_pipes s" "sv_nextP (leave k st now s) = sv_nextP s"
  "sv_out (leave k st now s) = sv_out s"
  by (simp_all add: leave_def)

lemma fail_fields [simp]:
  "sv_mod (fail pid p e s) = sv_mod s" "sv_sessions (fail pid p e s) = sv_sessions s"
  "sv_agg (fail pid p e s) = sv_agg s" "sv_inFlight (fail pid p e s) = sv_inFlight s"
  "sv_shutdown (fail pid p e s) = sv_shutdown s" "sv_phase (fail pid p e s) = sv_phase s"
  "sv_handlers (fail pid p e s) = sv_handlers s" "sv_nextH (fail pid p e s) = sv_nextH s"
  "sv_pipes (fail pid p e s) = mput (sv_pipes s) pid (p\<lparr> p_pc := PFailed e \<rparr>)"
  "sv_nextP (fail pid p e s) = sv_nextP s" "sv_out (fail pid p e s) = sv_out s"
  by (simp_all add: fail_def)

lemma generate_fields [simp]:
  "sv_mod (generate pid p pc x s) = sv_mod s" "sv_sessions (generate pid p pc x s) = sv_sessions s"
  "sv_agg (generate pid p pc x s) = sv_agg s" "sv_inFlight (generate pid p pc x s) = sv_inFlight s"
  "sv_shutdown (generate pid p pc x s) = sv_shutdown s" "sv_phase (generate pid p pc x s) = sv_phase s"
  "sv_handlers (generate pid p pc x s) = sv_handlers s" "sv_nextH (generate pid p pc x s) = sv_nextH s"
  "sv_pipes (generate pid p pc x s) = mput (sv_pipes s) pid (p\<lparr> p_pc := pc \<rparr>)"
  "sv_nextP (generate pid p pc x s) = sv_nextP s"
  by (simp_all add: generate_def)

lemma end_handler_fields [simp]:
  "sv_sessions (end_handler hid i now s) = sv_sessions s" "sv_agg (end_handler hid i now s) = sv_agg s"
  "sv_inFlight (end_handler hid i now s) = sv_inFlight s" "sv_shutdown (end_handler hid i now s) = sv_shutdown s"
  "sv_phase (end_handler hid i now s) = sv_phase s"
  "sv_handlers (end_handler hid i now s) = mdel (sv_handlers s) hid"
  "sv_nextH (end_handler hid i now s) = sv_nextH s" "sv_pipes (end_handler hid i now s) = sv_pipes s"
  "sv_nextP (end_handler hid i now s) = sv_nextP s" "sv_out (end_handler hid i now s) = sv_out s"
  "processedMessages (sv_mod (end_handler hid i now s)) = processedMessages (sv_mod s)"
  "processingMessages (sv_mod (end_handler hid i now s)) = sdel (processingMessages (sv_mod s)) i"
  "dedupeTimestamps (sv_mod (end_handler hid i now s)) = dedupeTimestamps (sv_mod s)"
  by (simp_all add: end_handler_def finally_block_def)

lemma mark_processed_fields [simp]:
  "sv_sessions (mark_processed i s) = sv_sessions s" "sv_agg (mark_processed i s) = sv_agg s"
  "sv_inFlight (mark_processed i s) = sv_inFlight s" "sv_shutdown (mark_processed i s) = sv_shutdown s"
  "sv_phase (mark_processed i s) = sv_phase s" "sv_handlers (mark_processed i s) = sv_handlers s"
  "sv_nextH (mark_processed i s) = sv_nextH s" "sv_pipes (mark_processed i s) = sv_pipes s"
  "sv_nextP (mark_processed i s) = sv_nextP s" "sv_out (mark_processed i s) = sv_out s"
  "processedMessages (sv_mod (mark_processed i s)) = sadd (processedMessages (sv_mod s)) i"
  "processingMessages (sv_mod (mark_processed i s)) = processingMessages (sv_mod s)"
  "dedupeTimestamps (sv_mod (mark_processed i s)) = dedupeTimestamps (sv_mod s)"
  by (simp_all add: mark_processed_def)

lemma start_pipeline_frame [simp]:
  "sv_mod (start_pipeline now a s) = sv_mod s" "sv_agg (start_pipeline now a s) = sv_agg s"
  "sv_shutdown (start_pipeline now a s) = sv_shutdown s" "sv_phase (start_pipeline now a s) = sv_phase s"
  "sv_handlers (start_pipeline now a s) = sv_handlers s" "sv_nextH (start_pipeline now a s) = sv_nextH s"
  by (simp_all add: start_pipeline_def Let_def case_prod_beta split: list.splits)

lemma submit_all_frame [simp]:
  "sv_mod (submit_all now as s) = sv_mod s" "sv_agg (submit_all now as s) = sv_agg s"
  "sv_shutdown (submit_all now as s) = sv_shutdown s" "sv_phase (submit_all now as s) = sv_phase s"
  "sv_handlers (submit_all now as s) = sv_handlers s" "sv_nextH (submit_all now as s) = sv_nextH s"
  by (induction now as s rule: submit_all.induct) simp_all

section \<open>Handlers and message ids\<close>

definition live_ids :: "(nat, handler) jsmap \<Rightarrow> jsstr set" where
  "live_ids hs = {i. \<exists>hid h. mget hs hid = Some h \<and> handler_id h = i}"

definition ids_inj :: "(nat, handler) jsmap \<Rightarrow> bool" where
  "ids_inj hs \<longleftrightarrow> (\<forall>hid hid' h h'. mget hs hid = Some h \<longrightarrow> mget hs hid' = Some h' \<longrightarrow>
     handler_id h = handler_id h' \<longrightarrow> hid = hid')"

lemma ids_injD: "ids_inj hs \<Longrightarrow> mget hs k = Some g \<Longrightarrow> mget hs k' = Some g' \<Longrightarrow>
    handler_id g = handler_id g' \<Longrightarrow> k = k'"
  unfolding ids_inj_def by blast

lemma live_ids_update:
  "mget hs hid = Some h \<Longrightarrow> handler_id h' = handler_id h \<Longrightarrow> live_ids (mput hs hid h') = live_ids hs"
  unfolding live_ids_def by (intro Collect_cong) (metis jm.get_put option.inject)

lemma ids_inj_update:
  "ids_inj hs \<Longrightarrow> mget hs hid = Some h \<Longrightarrow> handler_id h' = handler_id h \<Longrightarrow> ids_inj (mput hs hid h')"
  unfolding ids_inj_def by (metis jm.get_put option.inject)

lemma live_ids_new: "mget hs n = None \<Longrightarrow> live_ids (mput hs n h) = insert (handler_id h) (live_ids hs)"
  unfolding live_ids_def by (auto split: if_splits) (metis option.distinct(1))

lemma ids_inj_new: "ids_inj hs \<Longrightarrow> handler_id h \<notin> live_ids hs \<Longrightarrow> ids_inj (mput hs n h)"
  unfolding ids_inj_def live_ids_def by (simp split: if_splits) metis

lemma live_ids_del:
  "ids_inj hs \<Longrightarrow> mget hs hid = Some h \<Longrightarrow> live_ids (mdel hs hid) = live_ids hs - {handler_id h}"
  unfolding live_ids_def by (auto split: if_splits dest: ids_injD) (metis option.inject)

lemma ids_inj_del: "ids_inj hs \<Longrightarrow> ids_inj (mdel hs hid)"
  unfolding ids_inj_def by simp

definition hand_ok :: "module_state \<Rightarrow> (nat, handler) jsmap \<Rightarrow> nat \<Rightarrow> bool" where
  "hand_ok m hs n \<longleftrightarrow> distinct (mkeys hs) \<and> (\<forall>hid. mhas hs hid \<longrightarrow> hid < n)
    \<and> distinct (processingMessages m) \<and> distinct (processedMessages m) \<and> distinct (mkeys (dedupeTimestamps m))
    \<and> set (processingMessages m) = live_ids hs \<and> ids_inj hs
    \<and> set (processingMessages m) \<inter> set (processedMessages m) = {}"

abbreviation handlers_ok :: "service \<Rightarrow> bool" where
  "handlers_ok s \<equiv> hand_ok (sv_mod s) (sv_handlers s) (sv_nextH s)"

lemma hand_ok_mod:
  "hand_ok m hs n \<Longrightarrow> processingMessages m' = processingMessages m \<Longrightarrow>
   set (processedMessages m') \<subseteq> set (processedMessages m) \<Longrightarrow> distinct (processedMessages m') \<Longrightarrow>
   distinct (mkeys (dedupeTimestamps m')) \<Longrightarrow> hand_ok m' hs n"
  unfolding hand_ok_def by auto

lemma hand_ok_same:
  "hand_ok m hs n \<Longrightarrow> processingMessages m' = processingMessages m \<Longrightarrow>
   processedMessages m' = processedMessages m \<Longrightarrow> dedupeTimestamps m' = dedupeTimestamps m \<Longrightarrow> hand_ok m' hs n"
  unfolding hand_ok_def by auto

lemma hand_ok_update:
  "hand_ok m hs n \<Longrightarrow> mget hs hid = Some h \<Longrightarrow> handler_id h' = handler_id h \<Longrightarrow> hand_ok m (mput hs hid h') n"
  unfolding hand_ok_def by (auto simp: live_ids_update ids_inj_update mhas_mget)

lemma hand_ok_end:
  "hand_ok m hs n \<Longrightarrow> mget hs hid = Some h \<Longrightarrow>
   processingMessages m' = sdel (processingMessages m) (handler_id h) \<Longrightarrow>
   processedMessages m' = processedMessages m \<or> processedMessages m' = sadd (processedMessages m) (handler_id h) \<Longrightarrow>
   dedupeTimestamps m' = dedupeTimestamps m \<Longrightarrow> hand_ok m' (mdel hs hid) n"
  unfolding hand_ok_def by (auto simp: live_ids_del ids_inj_del)

lemma hand_ok_new:
  assumes ok: "hand_ok m hs n" and i: "handler_id h \<notin> set (processingMessages m)"
      "handler_id h \<notin> set (processedMessages m)"
    and m': "processingMessages m' = sadd (processingMessages m) (handler_id h)"
      "set (processedMessages m') \<subseteq> set (processedMessages m)" "distinct (processedMessages m')"
      "distinct (mkeys (dedupeTimestamps m'))"
  shows "hand_ok m' (mput hs n h) (Suc n)"
proof -
  have "\<not> mhas hs n" using ok unfolding hand_ok_def by blast
  then have fresh: "mget hs n = None" by (simp add: mhas_mget)
  then have "live_ids (mput hs n h) = insert (handler_id h) (live_ids hs)" by (rule live_ids_new)
  moreover have "ids_inj (mput hs n h)" using ok i ids_inj_new unfolding hand_ok_def by metis
  ultimately show ?thesis using ok m' i unfolding hand_ok_def by (auto simp: less_Suc_eq)
qed


text \<open>Each segment of a handler.\<close>

lemma handlers_ok_frame:
  "handlers_ok s \<Longrightarrow> processingMessages (sv_mod t) = processingMessages (sv_mod s) \<Longrightarrow>
   processedMessages (sv_mod t) = processedMessages (sv_mod s) \<Longrightarrow>
   dedupeTimestamps (sv_mod t) = dedupeTimestamps (sv_mod s) \<Longrightarrow>
   sv_handlers t = sv_handlers s \<Longrightarrow> sv_nextH t = sv_nextH s \<Longrightarrow> handlers_ok t"
  using hand_ok_same [of "sv_mod s" "sv_handlers s" "sv_nextH s" "sv_mod t"] by simp

lemma cleanup_subset: "set (processedMessages (cleanupDedupeSet now m)) \<subseteq> set (processedMessages m)"
  by (auto simp: cleanupDedupeSet_def Let_def)

lemma cleanup_distinct:
  "distinct (processedMessages m) \<Longrightarrow> distinct (processedMessages (cleanupDedupeSet now m))"
  "distinct (mkeys (dedupeTimestamps m)) \<Longrightarrow> distinct (mkeys (dedupeTimestamps (cleanupDedupeSet now m)))"
  by (simp_all add: cleanupDedupeSet_def Let_def)

lemma sdel_sadd: "x \<notin> set xs \<Longrightarrow> sdel (sadd xs x) x = xs"
  by (auto simp: sdel_def sadd_def intro: filter_True)

lemma handlers_ok_message:
  assumes "handlers_ok s"
  shows "handlers_ok (on_message v e now s)"
proof (cases "trim (message_id e) = [] \<or> trim (message_id e) \<in> set (processedMessages (sv_mod s))
    \<or> trim (message_id e) \<in> set (processingMessages (sv_mod s))")
  case True
  then show ?thesis using assms by (auto simp: on_message_def Let_def)
next
  case False
  let ?i = "trim (message_id e)" and ?m = "sv_mod s"
  let ?m1 = "cleanupDedupeSet now (?m\<lparr> processingMessages := sadd (processingMessages ?m) ?i,
      dedupeTimestamps := mput (dedupeTimestamps ?m) ?i now \<rparr>)"
  let ?h = "\<lparr> h_event = e, h_pc = HParse, h_text = [], h_images = [], h_imagePaths = [], h_shouldReply = False \<rparr>"
  have d: "set (processedMessages ?m1) \<subseteq> set (processedMessages ?m)" "distinct (processedMessages ?m1)"
      "distinct (mkeys (dedupeTimestamps ?m1))"
    using assms cleanup_subset cleanup_distinct
    by (fastforce simp: hand_ok_def)+
  have new: "hand_ok ?m1 (mput (sv_handlers s) (sv_nextH s) ?h) (Suc (sv_nextH s))"
    by (rule hand_ok_new [OF assms]) (use False d in \<open>auto simp: handler_id_def\<close>)
  have out: "handlers_ok (finally_block ?i now (mark_processed ?i (s\<lparr> sv_mod := ?m1 \<rparr>)))"
    using assms d False
    by (auto simp: hand_ok_def finally_block_def mark_processed_def sdel_sadd)
  show ?thesis
    using False new out by (auto simp: on_message_def Let_def)
qed

lemma handlers_ok_end:
  assumes "handlers_ok s" "mget (sv_handlers s) hid = Some h" "handler_id h = i"
  shows "handlers_ok (end_handler hid i now s)" "handlers_ok (end_handler hid i now (mark_processed i s))"
  using assms by (auto intro!: hand_ok_end)

lemma handlers_ok_parsed:
  assumes ok: "handlers_ok s" and h: "mget (sv_handlers s) hid = Some h"
  shows "handlers_ok (on_parsed v hid h res now s)"
proof -
  have upd: "hand_ok (sv_mod s) (mput (sv_handlers s) hid h') (sv_nextH s)"
    if "h_event h' = h_event h" for h'
    using hand_ok_update [OF ok h, of h'] that by (simp add: handler_id_def)
  show ?thesis
    using handlers_ok_end [OF ok h refl]
    by (auto simp: on_parsed_def Let_def upd split: sum.splits prod.splits)
qed

lemma handlers_ok_recorded:
  assumes ok: "handlers_ok s" and h: "mget (sv_handlers s) hid = Some h"
    and step: "on_recorded v hid h res now rid s = Some t"
  shows "handlers_ok t"
proof -
  have "handlers_ok (end_handler hid (handler_id h) now (mark_processed (handler_id h) s'))"
    if "processingMessages (sv_mod s') = processingMessages (sv_mod s)"
      "processedMessages (sv_mod s') = processedMessages (sv_mod s)"
      "dedupeTimestamps (sv_mod s') = dedupeTimestamps (sv_mod s)"
      "sv_handlers s' = sv_handlers s" "sv_nextH s' = sv_nextH s" for s'
    using handlers_ok_end(2) [OF handlers_ok_frame [OF ok that] _ refl] h that(4) by simp
  then show ?thesis
    using step handlers_ok_end(1) [OF ok h refl]
    by (auto simp: on_recorded_def Let_def case_prod_beta split: sum.splits handler_pc.splits if_splits)
qed


section \<open>Pipelines, sessions and the in-flight counter\<close>

text \<open>A pipeline owes its sender a \<open>clear\<close> as long as its own course or its time-out will do one.\<close>

definition owing :: "pipeline \<Rightarrow> bool" where
  "owing p \<longleftrightarrow> (case p_outer p of OWait _ \<Rightarrow> p_pc p \<noteq> PDone | OApology \<Rightarrow> True | OFinished \<Rightarrow> False)"

definition in_flight :: "pipeline \<Rightarrow> bool" where
  "in_flight p \<longleftrightarrow> p_outer p \<noteq> OFinished"

definition live_count :: "(nat, pipeline) jsmap \<Rightarrow> int" where
  "live_count ps = int (length (filter (\<lambda>q. in_flight (snd q)) ps))"

lemma live_count_update:
  "distinct (mkeys ps) \<Longrightarrow> mget ps pid = Some p \<Longrightarrow>
   live_count (mput ps pid p') = live_count ps - of_bool (in_flight p) + of_bool (in_flight p')"
  by (induction ps) (auto simp: live_count_def mget_def mput_def split: if_splits)

lemma live_count_new:
  "\<not> mhas ps n \<Longrightarrow> live_count (mput ps n p) = live_count ps + of_bool (in_flight p)"
  by (simp add: mput_absent live_count_def)

definition pipe_ok :: "(nat, pipeline) jsmap \<Rightarrow> nat \<Rightarrow> int \<Rightarrow> session_manager \<Rightarrow> bool" where
  "pipe_ok ps n f m \<longleftrightarrow> distinct (mkeys ps) \<and> (\<forall>pid. mhas ps pid \<longrightarrow> pid < n) \<and> f = live_count ps
    \<and> (\<forall>k. mhas (sm_map m) k \<longrightarrow> (\<exists>pid p. mget ps pid = Some p \<and> senderKey p = k \<and> owing p))
    \<and> (\<forall>pid p. mget ps pid = Some p \<longrightarrow> ag_items (p_agg p) \<noteq> [] \<and> mhas (sm_heap m) (p_session p))"

lemma pipe_ok_update:
  assumes ok: "pipe_ok ps n f m" and p: "mget ps pid = Some p"
    and p': "p_agg p' = p_agg p" "p_session p' = p_session p"
    and f': "f' = f - of_bool (in_flight p) + of_bool (in_flight p')"
    and map: "\<And>k. mhas (sm_map m') k \<Longrightarrow> mhas (sm_map m) k"
    and heap: "\<And>r. mhas (sm_heap m) r \<Longrightarrow> mhas (sm_heap m') r"
    and owe: "owing p' \<or> \<not> owing p \<or> \<not> mhas (sm_map m') (senderKey p)"
  shows "pipe_ok (mput ps pid p') n f' m'"
proof -
  have "\<exists>i q. mget (mput ps pid p') i = Some q \<and> senderKey q = k \<and> owing q"
    if k: "mhas (sm_map m') k" for k
  proof -
    obtain i q where q: "mget ps i = Some q" "senderKey q = k" "owing q"
      using ok map [OF k] unfolding pipe_ok_def by blast
    show ?thesis
    proof (cases "i = pid")
      case True
      then have "owing p'" using q p owe k by auto
      then show ?thesis using True q p p' by (intro exI [of _ pid] exI [of _ p']) (auto simp: senderKey_def)
    next
      case False
      then show ?thesis using q by (intro exI [of _ i] exI [of _ q]) simp
    qed
  qed
  moreover have "mhas (mput ps pid p') i \<longrightarrow> i < n" for i
    using ok p unfolding pipe_ok_def by (auto simp: mhas_mget)
  moreover have "mget (mput ps pid p') i = Some q \<longrightarrow> ag_items (p_agg q) \<noteq> [] \<and> mhas (sm_heap m') (p_session q)"
    for i q using ok p p' heap unfolding pipe_ok_def by (auto split: if_splits)
  ultimately show ?thesis
    using ok live_count_update [of ps pid p p'] p f' unfolding pipe_ok_def by simp
qed

lemma pipe_ok_sessions:
  assumes "pipe_ok ps n f m" "\<And>k. mhas (sm_map m') k \<Longrightarrow> mhas (sm_map m) k"
    "\<And>r. mhas (sm_heap m) r \<Longrightarrow> mhas (sm_heap m') r"
  shows "pipe_ok ps n f m'"
  using assms unfolding pipe_ok_def by blast

text \<open>What the session operations keep.\<close>

lemma heap_update [simp]: "mhas (sm_heap (sm_update r f m)) r' \<longleftrightarrow> mhas (sm_heap m) r'"
  by (auto simp: mhas_mget)

lemma heap_transition [simp]: "mhas (sm_heap (sm_transition k st now m)) r \<longleftrightarrow> mhas (sm_heap m) r"
  by (simp add: sm_transition_def split: option.splits)

lemma heap_appendItem [simp]: "mhas (sm_heap (sm_appendItem k i now m)) r \<longleftrightarrow> mhas (sm_heap m) r"
  by (simp add: sm_appendItem_def split: option.splits)

lemma heap_clear [simp]: "sm_heap (sm_clear k m) = sm_heap m"
  by (simp add: sm_clear_def)

lemma sm_active_update:
  "sm_active m \<Longrightarrow> (\<And>c. s_state (f c) = s_state c) \<Longrightarrow> sm_active (sm_update r f m)"
  by (fastforce simp: sm_active_def split: if_splits)

definition sess_ok :: "session_manager \<Rightarrow> bool" where
  "sess_ok m \<longleftrightarrow> sm_wf m \<and> sm_active m"

lemma sess_ok_transition: "sess_ok m \<Longrightarrow> active_state st \<Longrightarrow> sess_ok (sm_transition k st now m)"
  by (simp add: sess_ok_def sm_wf_transition sm_active_transition)

lemma sess_ok_leave: "sess_ok m \<Longrightarrow> sess_ok (sm_clear k (sm_transition k st now m))"
  by (simp add: sess_ok_def sm_wf_transition sm_wf_clear sm_active_transition_clear)

lemma sess_ok_update:
  "sess_ok m \<Longrightarrow> (\<And>c. s_state (f c) = s_state c) \<Longrightarrow> (\<And>c. s_senderId (f c) = s_senderId c) \<Longrightarrow>
   sess_ok (sm_update r f m)"
  by (simp add: sess_ok_def sm_wf_update sm_active_update)

lemma sess_ok_appendItem: "sess_ok m \<Longrightarrow> sess_ok (sm_appendItem k i now m)"
  by (simp add: sess_ok_def sm_wf_appendItem sm_active_appendItem)

lemma sess_ok_new [simp]: "sess_ok new_manager"
  by (simp add: sess_ok_def)

lemmas sess_ok_intros = sess_ok_transition sess_ok_leave sess_ok_update sess_ok_appendItem

lemma active_state_simps [simp]:
  "active_state ROUTING" "active_state PROCESSING" "active_state VALIDATING" "active_state SENDING"
  "active_state CHATTING" "\<not> active_state IDLE" "\<not> active_state DEGRADED"
  by (simp_all add: active_state_def)

section \<open>The whole invariant\<close>

definition core_ok :: "service \<Rightarrow> bool" where
  "core_ok s \<longleftrightarrow> handlers_ok s \<and> agg_ok (sv_agg s) \<and> sess_ok (sv_sessions s)
     \<and> pipe_ok (sv_pipes s) (sv_nextP s) (sv_inFlight s) (sv_sessions s)"

text \<open>One pipeline moves; the handlers and the aggregator are not touched.\<close>

definition same_front :: "service \<Rightarrow> service \<Rightarrow> bool" where
  "same_front s t \<longleftrightarrow> processingMessages (sv_mod t) = processingMessages (sv_mod s)
     \<and> processedMessages (sv_mod t) = processedMessages (sv_mod s)
     \<and> dedupeTimestamps (sv_mod t) = dedupeTimestamps (sv_mod s)
     \<and> sv_handlers t = sv_handlers s \<and> sv_nextH t = sv_nextH s \<and> sv_agg t = sv_agg s"

lemma core_move:
  assumes ok: "core_ok s" and p: "mget (sv_pipes s) pid = Some p" and front: "same_front s t"
    and t: "sv_nextP t = sv_nextP s" "sv_pipes t = mput (sv_pipes s) pid p'"
    and p': "p_agg p' = p_agg p" "p_session p' = p_session p"
    and f: "sv_inFlight t = sv_inFlight s - of_bool (in_flight p) + of_bool (in_flight p')"
    and sess: "sess_ok (sv_sessions s) \<Longrightarrow> sess_ok (sv_sessions t)"
    and map: "\<And>k. mhas (sm_map (sv_sessions t)) k \<Longrightarrow> mhas (sm_map (sv_sessions s)) k"
    and heap: "\<And>r. mhas (sm_heap (sv_sessions s)) r \<Longrightarrow> mhas (sm_heap (sv_sessions t)) r"
    and owe: "owing p' \<or> \<not> owing p \<or> \<not> mhas (sm_map (sv_sessions t)) (senderKey p)"
  shows "core_ok t"
proof -
  have "pipe_ok (sv_pipes t) (sv_nextP t) (sv_inFlight t) (sv_sessions t)"
    unfolding t f
    by (rule pipe_ok_update [OF _ p p' refl map heap owe]) (use ok in \<open>auto simp: core_ok_def\<close>)
  moreover have "handlers_ok t"
    by (rule handlers_ok_frame [of s]) (use ok front in \<open>auto simp: core_ok_def same_front_def\<close>)
  ultimately show ?thesis using ok front sess by (auto simp: core_ok_def same_front_def)
qed

text \<open>Only the pipeline's program counter and locals change.\<close>

lemma core_goto:
  assumes ok: "core_ok s" and p: "mget (sv_pipes s) pid = Some p" and front: "same_front s t"
    and t: "sv_nextP t = sv_nextP s" "sv_pipes t = mput (sv_pipes s) pid p'"
      "sv_inFlight t = sv_inFlight s"
    and p': "p_agg p' = p_agg p" "p_session p' = p_session p" "p_outer p' = p_outer p" "p_pc p' \<noteq> PDone"
    and sess: "sess_ok (sv_sessions s) \<Longrightarrow> sess_ok (sv_sessions t)"
    and map: "sm_map (sv_sessions t) = sm_map (sv_sessions s)"
    and heap: "\<And>r. mhas (sm_heap (sv_sessions s)) r \<Longrightarrow> mhas (sm_heap (sv_sessions t)) r"
  shows "core_ok t"
  by (rule core_move [OF ok p front t(1,2) p'(1,2)])
     (use t p' sess map heap in \<open>auto simp: in_flight_def owing_def split: outer_pc.splits\<close>)


section \<open>Every segment keeps the invariant\<close>

text \<open>The locals may have been updated since the pipeline was stored: \<open>q\<close> against \<open>p\<close>.\<close>

definition same_run :: "pipeline \<Rightarrow> pipeline \<Rightarrow> bool" where
  "same_run p q \<longleftrightarrow> p_agg q = p_agg p \<and> p_session q = p_session p \<and> p_outer q = p_outer p"

lemma same_run_refl [simp]: "same_run p p"
  by (simp add: same_run_def)

lemma same_run_upd [simp]:
  "same_run p (q\<lparr> p_pc := a \<rparr>) = same_run p q" "same_run p (q\<lparr> p_tone := b \<rparr>) = same_run p q"
  "same_run p (q\<lparr> p_aiTurn := c \<rparr>) = same_run p q" "same_run p (q\<lparr> p_reply := d \<rparr>) = same_run p q"
  "same_run p (q\<lparr> p_chunks := e \<rparr>) = same_run p q" "same_run p (q\<lparr> p_index := f \<rparr>) = same_run p q"
  by (simp_all add: same_run_def)

lemma same_front_simps [simp]:
  "same_front s s" "same_front s (emit a t) = same_front s t" "same_front s (emit_db v a t) = same_front s t"
  "same_front s (goto pid p t) = same_front s t" "same_front s (transition k st now t) = same_front s t"
  "same_front s (leave k st now t) = same_front s t" "same_front s (fail pid p e t) = same_front s t"
  "same_front s (generate pid p pc x t) = same_front s t"
  "same_front s (t\<lparr> sv_sessions := m \<rparr>) = same_front s t" "same_front s (t\<lparr> sv_inFlight := f \<rparr>) = same_front s t"
  "same_front s (t\<lparr> sv_phase := ph \<rparr>) = same_front s t"
  by (simp_all add: same_front_def)

lemma core_fail:
  "core_ok s \<Longrightarrow> mget (sv_pipes s) pid = Some p \<Longrightarrow> same_run p q \<Longrightarrow> core_ok (fail pid q e s)"
  by (rule core_goto [where p' = "q\<lparr> p_pc := PFailed e \<rparr>"]) (auto simp: same_run_def)

lemma core_pc:
  "core_ok s \<Longrightarrow> mget (sv_pipes s) pid = Some p \<Longrightarrow> same_run p q \<Longrightarrow> p_pc q \<noteq> PDone \<Longrightarrow> core_ok (goto pid q s)"
  by (rule core_goto [where p' = q]) (auto simp: same_run_def)

lemma core_generate:
  "core_ok s \<Longrightarrow> mget (sv_pipes s) pid = Some p \<Longrightarrow> same_run p q \<Longrightarrow> pc \<noteq> PDone \<Longrightarrow>
   core_ok (generate pid q pc x s)"
  by (rule core_goto [where p' = "q\<lparr> p_pc := pc \<rparr>"]) (auto simp: same_run_def)

lemma core_emit [simp]: "core_ok (emit a s) = core_ok s" "core_ok (emit_db v a s) = core_ok s"
  by (simp_all add: core_ok_def)

lemma core_sessions:
  assumes "core_ok s" "sess_ok (sv_sessions s) \<Longrightarrow> sess_ok m"
    "\<And>k. mhas (sm_map m) k \<Longrightarrow> mhas (sm_map (sv_sessions s)) k"
    "\<And>r. mhas (sm_heap (sv_sessions s)) r \<Longrightarrow> mhas (sm_heap m) r"
  shows "core_ok (s\<lparr> sv_sessions := m \<rparr>)"
  using assms pipe_ok_sessions [of "sv_pipes s" "sv_nextP s" "sv_inFlight s" "sv_sessions s" m]
  by (simp add: core_ok_def)

lemma core_transition: "core_ok s \<Longrightarrow> active_state st \<Longrightarrow> core_ok (transition k st now s)"
  unfolding transition_def by (rule core_sessions) (auto intro: sess_ok_intros)

lemma core_tone:
  "core_ok s \<Longrightarrow> core_ok (s\<lparr> sv_sessions := sm_update r (\<lambda>c. c\<lparr> s_tone := t \<rparr>) (sv_sessions s) \<rparr>)"
  by (rule core_sessions) (auto intro: sess_ok_intros)

lemma core_pending:
  "core_ok s \<Longrightarrow> core_ok (s\<lparr> sv_sessions := sm_update r (\<lambda>c. c\<lparr> s_retryCount := Suc (s_retryCount c),
      s_pendingItems := [] \<rparr>) (sv_sessions s) \<rparr>)"
  by (rule core_sessions) (auto intro: sess_ok_intros)

lemma core_phase [simp]: "core_ok (s\<lparr> sv_phase := ph \<rparr>) = core_ok s"
  by (simp add: core_ok_def)

lemma core_shutdown [simp]: "core_ok (s\<lparr> sv_shutdown := b \<rparr>) = core_ok s"
  by (simp add: core_ok_def)

lemma core_complete:
  "core_ok s \<Longrightarrow> mget (sv_pipes s) pid = Some p \<Longrightarrow> same_run p q \<Longrightarrow> core_ok (complete pid q now s)"
  unfolding complete_def
  by (rule core_move [of s pid p _ "q\<lparr> p_pc := PDone \<rparr>"])
     (auto simp: same_run_def same_front_def in_flight_def senderKey_def intro: sess_ok_intros)

lemma core_next_chunk:
  "core_ok s \<Longrightarrow> mget (sv_pipes s) pid = Some p \<Longrightarrow> same_run p q \<Longrightarrow> core_ok (next_chunk v mode pid q now s)"
  by (auto simp: next_chunk_def core_complete core_pc split: send_mode.splits)

lemma core_send_reply:
  "core_ok s \<Longrightarrow> mget (sv_pipes s) pid = Some p \<Longrightarrow> same_run p q \<Longrightarrow> core_ok (send_reply v mode pid q now s)"
  by (auto simp: send_reply_def core_next_chunk split: option.splits)

lemma core_send_answer:
  "core_ok s \<Longrightarrow> mget (sv_pipes s) pid = Some p \<Longrightarrow> same_run p q \<Longrightarrow> core_ok (send_answer v pid q now s)"
  by (simp add: send_answer_def core_send_reply core_transition)

lemma core_routed:
  assumes "core_ok s" "mget (sv_pipes s) pid = Some p"
  shows "core_ok (on_routed v pid p res now s)"
proof -
  have "core_ok (leave (senderKey p) IDLE now (goto pid (p\<lparr> p_pc := PDone \<rparr>) s))"
    by (rule core_move [OF assms, where p' = "p\<lparr> p_pc := PDone \<rparr>"])
       (auto simp: in_flight_def intro: sess_ok_intros)
  then show ?thesis
    using assms
    by (auto simp: on_routed_def Let_def core_fail core_transition core_generate core_pc core_tone
        split: sum.splits option.splits)
qed

lemma core_validate:
  assumes "core_ok s" "mget (sv_pipes s) pid = Some p"
  shows "core_ok (validate v pid p now s)"
  using assms
  by (auto simp: validate_def Let_def core_transition core_generate core_send_answer
      core_pending [OF core_transition, simplified] split: option.splits)

lemma core_finished:
  "core_ok s \<Longrightarrow> mget (sv_pipes s) pid = Some p \<Longrightarrow> on_finished v pid p res now s = Some t \<Longrightarrow> core_ok t"
  by (auto simp: on_finished_def core_validate core_send_answer core_fail core_pc
      split: pipe_pc.splits option.splits)

lemma core_degrade:
  "core_ok s \<Longrightarrow> mget (sv_pipes s) pid = Some p \<Longrightarrow> in_flight p \<Longrightarrow> core_ok (degrade pid p now s)"
  unfolding degrade_def Let_def
  by (rule core_move [where p' = "p\<lparr> p_outer := OFinished \<rparr>"])
     (auto simp: in_flight_def senderKey_def intro: sess_ok_intros)

lemma core_settle:
  assumes "core_ok s" "mget (sv_pipes s) pid = Some p" "p_outer p = OWait d"
    "on_settle pid p now s = Some t"
  shows "core_ok t"
proof -
  have "core_ok (let s1 = goto pid (p\<lparr> p_outer := OFinished \<rparr>) s in s1\<lparr> sv_inFlight := sv_inFlight s1 - 1 \<rparr>)"
    if "p_pc p = PDone"
    unfolding Let_def
    by (rule core_move [OF assms(1,2), where p' = "p\<lparr> p_outer := OFinished \<rparr>"]) (use assms that in \<open>auto simp: in_flight_def owing_def\<close>)
  moreover have "core_ok (emit (AApology pid (first_event (p_agg p)) APOLOGY) (goto pid (p\<lparr> p_outer := OApology \<rparr>) s))"
    by (rule core_move [OF assms(1,2), where p' = "p\<lparr> p_outer := OApology \<rparr>"]) (use assms in \<open>auto simp: in_flight_def owing_def\<close>)
  ultimately show ?thesis
    using assms by (auto simp: on_settle_def core_degrade in_flight_def
        split: pipe_pc.splits thrown.splits if_splits)
qed

lemma sess_ok_open:
  "sess_ok m \<Longrightarrow> op_senderId p = k \<Longrightarrow> active_state st \<Longrightarrow>
   sess_ok (sm_transition k st now (fst (sm_getOrCreate p now' rid m)))"
  by (simp add: sess_ok_def sm_active_open sm_wf_transition sm_wf_getOrCreate)

lemma heap_getOrCreate:
  "mhas (sm_heap m) r \<Longrightarrow> mhas (sm_heap (fst (sm_getOrCreate p now rid m))) r"
  by (simp add: sm_getOrCreate_def Let_def split: option.splits)

lemma heap_getOrCreate_new:
  "sm_wf m \<Longrightarrow> mhas (sm_heap (fst (sm_getOrCreate p now rid m))) (snd (sm_getOrCreate p now rid m))"
  by (fastforce simp: sm_getOrCreate_def Let_def sm_wf_def mhas_mget split: option.splits)

lemma pipe_ok_new:
  assumes ok: "pipe_ok ps n f m" and p: "in_flight p" "owing p" "ag_items (p_agg p) \<noteq> []"
    and map: "\<And>k. mhas (sm_map m') k \<longleftrightarrow> k = senderKey p \<or> mhas (sm_map m) k"
    and heap: "\<And>r. mhas (sm_heap m) r \<Longrightarrow> mhas (sm_heap m') r" "mhas (sm_heap m') (p_session p)"
  shows "pipe_ok (mput ps n p) (Suc n) (f + 1) m'"
proof -
  have fresh: "\<not> mhas ps n" using ok unfolding pipe_ok_def by blast
  have "\<exists>i q. mget (mput ps n p) i = Some q \<and> senderKey q = k \<and> owing q"
    if "mhas (sm_map m') k" for k
  proof (cases "k = senderKey p")
    case True
    then show ?thesis using p by (intro exI [of _ n] exI [of _ p]) simp
  next
    case False
    then have "mhas (sm_map m) k" using map that by simp
    then obtain i q where q: "mget ps i = Some q" "senderKey q = k" "owing q"
      using ok unfolding pipe_ok_def by blast
    then have "i \<noteq> n" using fresh by (auto simp: mhas_mget)
    then show ?thesis using q by (intro exI [of _ i] exI [of _ q]) simp
  qed
  moreover have "mget (mput ps n p) i = Some q \<longrightarrow> ag_items (p_agg q) \<noteq> [] \<and> mhas (sm_heap m') (p_session q)"
    for i q using ok p(3) heap unfolding pipe_ok_def by (cases "i = n") auto
  moreover have "mhas (mput ps n p) i \<longrightarrow> i < Suc n" for i
    using ok unfolding pipe_ok_def by (cases "i = n") (auto intro: less_SucI)
  moreover have "f + 1 = live_count (mput ps n p)"
    using ok p(1) live_count_new [OF fresh, of p] unfolding pipe_ok_def by simp
  moreover have "distinct (mkeys (mput ps n p))" using ok unfolding pipe_ok_def by simp
  ultimately show ?thesis unfolding pipe_ok_def by blast
qed

lemma core_start:
  assumes ok: "core_ok s"
  shows "core_ok (start_pipeline now a s)"
proof (cases "ag_items a")
  case Nil
  then show ?thesis using ok by (simp add: start_pipeline_def)
next
  case (Cons firstItem rest)
  let ?op = "\<lparr> op_senderId = ag_senderId a, op_senderName = ag_senderName a,
      op_sessionKey = ag_sessionKey a, op_chatId = ag_chatId a, op_chatType = ag_chatType a,
      op_accountId = ag_accountId a, op_triggerMessageId = message_id (it_event firstItem),
      op_triggerEvent = it_event firstItem \<rparr>"
  let ?g = "sm_getOrCreate ?op now (ag_requestId a) (sv_sessions s)"
  let ?p = "\<lparr> p_agg = a, p_session = snd ?g, p_pc = PRoute, p_outer = OWait (now + PIPELINE_TIMEOUT_MS),
      p_tone = Casual, p_aiTurn = None, p_reply = [], p_chunks = [], p_index = 0 \<rparr>"
  let ?ps = "sv_pipes s" and ?n = "sv_nextP s" and ?t = "start_pipeline now a s"
  have t: "sv_pipes ?t = mput ?ps ?n ?p" "sv_nextP ?t = Suc ?n" "sv_inFlight ?t = sv_inFlight s + 1"
    "same_front s ?t"
    by (simp_all add: start_pipeline_def Cons Let_def case_prod_beta same_front_def)
  have m: "mhas (sm_map (sv_sessions ?t)) k \<longleftrightarrow> k = ag_senderId a \<or> mhas (sm_map (sv_sessions s)) k" for k
    using sm_map_getOrCreate [of ?op now "ag_requestId a" "sv_sessions s" k]
    by (simp add: start_pipeline_def Cons Let_def case_prod_beta)
  have h: "mhas (sm_heap (sv_sessions s)) r \<Longrightarrow> mhas (sm_heap (sv_sessions ?t)) r" for r
    using heap_getOrCreate by (simp add: start_pipeline_def Cons Let_def case_prod_beta)
  have h0: "mhas (sm_heap (sv_sessions ?t)) (snd ?g)"
    using ok heap_getOrCreate_new
    by (simp add: start_pipeline_def Cons Let_def case_prod_beta core_ok_def sess_ok_def)
  have sess: "sess_ok (sv_sessions ?t)"
    using ok sess_ok_open [of "sv_sessions s" ?op "ag_senderId a" ROUTING now now "ag_requestId a"]
    by (auto simp: start_pipeline_def Cons Let_def case_prod_beta core_ok_def intro!: sess_ok_update)
  have "pipe_ok (mput ?ps ?n ?p) (Suc ?n) (sv_inFlight s + 1) (sv_sessions ?t)"
    by (rule pipe_ok_new [of _ _ _ "sv_sessions s"])
       (use ok m h h0 Cons in \<open>simp_all add: core_ok_def in_flight_def owing_def senderKey_def\<close>)
  moreover have "handlers_ok ?t"
    by (rule handlers_ok_frame [of s]) (use ok t(4) in \<open>auto simp: core_ok_def same_front_def\<close>)
  ultimately show ?thesis
    using ok t sess by (simp add: core_ok_def same_front_def)
qed

lemma core_submit: "core_ok s \<Longrightarrow> core_ok (submit_all now as s)"
  by (induction now as s rule: submit_all.induct) (simp_all add: core_start)


text \<open>The events that are not a pipeline's.\<close>

lemma core_frame:
  assumes "core_ok s" "handlers_ok t" "agg_ok (sv_agg t)" "sv_sessions t = sv_sessions s"
    "sv_pipes t = sv_pipes s" "sv_nextP t = sv_nextP s" "sv_inFlight t = sv_inFlight s"
  shows "core_ok t"
  using assms by (simp add: core_ok_def)

lemma core_handlers: "core_ok s \<Longrightarrow> handlers_ok s" and core_agg: "core_ok s \<Longrightarrow> agg_ok (sv_agg s)"
  by (simp_all add: core_ok_def)

lemma finally_fields [simp]:
  "sv_sessions (finally_block i now s) = sv_sessions s" "sv_agg (finally_block i now s) = sv_agg s"
  "sv_inFlight (finally_block i now s) = sv_inFlight s" "sv_shutdown (finally_block i now s) = sv_shutdown s"
  "sv_phase (finally_block i now s) = sv_phase s" "sv_handlers (finally_block i now s) = sv_handlers s"
  "sv_nextH (finally_block i now s) = sv_nextH s" "sv_pipes (finally_block i now s) = sv_pipes s"
  "sv_nextP (finally_block i now s) = sv_nextP s" "sv_out (finally_block i now s) = sv_out s"
  by (simp_all add: finally_block_def)

lemma on_message_back [simp]:
  "sv_sessions (on_message v e now s) = sv_sessions s" "sv_agg (on_message v e now s) = sv_agg s"
  "sv_inFlight (on_message v e now s) = sv_inFlight s" "sv_shutdown (on_message v e now s) = sv_shutdown s"
  "sv_phase (on_message v e now s) = sv_phase s" "sv_pipes (on_message v e now s) = sv_pipes s"
  "sv_nextP (on_message v e now s) = sv_nextP s" "sv_out (on_message v e now s) = sv_out s"
  by (simp_all add: on_message_def Let_def)

lemma on_parsed_back [simp]:
  "sv_sessions (on_parsed v hid h res now s) = sv_sessions s" "sv_agg (on_parsed v hid h res now s) = sv_agg s"
  "sv_inFlight (on_parsed v hid h res now s) = sv_inFlight s"
  "sv_shutdown (on_parsed v hid h res now s) = sv_shutdown s"
  "sv_phase (on_parsed v hid h res now s) = sv_phase s" "sv_pipes (on_parsed v hid h res now s) = sv_pipes s"
  "sv_nextP (on_parsed v hid h res now s) = sv_nextP s"
  by (simp_all add: on_parsed_def Let_def split: sum.splits prod.splits)

lemma core_message: "core_ok s \<Longrightarrow> core_ok (on_message v e now s)"
  by (rule core_frame) (simp_all add: core_agg handlers_ok_message core_handlers)

lemma core_parsed:
  "core_ok s \<Longrightarrow> mget (sv_handlers s) hid = Some h \<Longrightarrow> core_ok (on_parsed v hid h res now s)"
  by (rule core_frame) (simp_all add: core_agg handlers_ok_parsed core_handlers)

lemma core_end:
  "core_ok s \<Longrightarrow> mget (sv_handlers s) hid = Some h \<Longrightarrow> i = handler_id h \<Longrightarrow>
     core_ok (end_handler hid i now s)"
  "core_ok s \<Longrightarrow> mget (sv_handlers s) hid = Some h \<Longrightarrow> i = handler_id h \<Longrightarrow>
     core_ok (end_handler hid i now (mark_processed i s))"
  by (auto intro!: core_frame [of s] handlers_ok_end simp: core_agg core_handlers)

lemma core_history: "core_ok s \<Longrightarrow> core_ok (s\<lparr> sv_mod := addHistory k e now (sv_mod s) \<rparr>)"
  by (rule core_frame [of s])
     (auto simp: core_agg intro: hand_ok_same [OF core_handlers])

lemma core_aggregator: "core_ok s \<Longrightarrow> agg_ok a \<Longrightarrow> core_ok (s\<lparr> sv_agg := a \<rparr>)"
  by (simp add: core_ok_def)

lemma core_append:
  "core_ok s \<Longrightarrow> core_ok (s\<lparr> sv_sessions := sm_appendItem k i now (sv_sessions s) \<rparr>)"
  by (rule core_sessions) (auto intro: sess_ok_intros)

lemma core_recorded:
  assumes ok: "core_ok s" and h: "mget (sv_handlers s) hid = Some h"
    and step: "on_recorded v hid h res now rid s = Some t"
  shows "core_ok t"
proof -
  have hist: "core_ok (s\<lparr> sv_mod := addHistory (handler_key v h) (user_entry h now) now (sv_mod s) \<rparr>)"
    using ok by (rule core_history)
  have push: "agg_ok (fst (agg_push p now rid (sv_agg s)))" for p
    using agg_ok_step [OF core_agg [OF ok], of "Push p now rid"] by simp
  show ?thesis
    using step ok h core_append [OF hist, of "handler_sender h"] hist
      core_submit [OF core_aggregator [OF hist push]]
    by (auto simp: on_recorded_def Let_def case_prod_beta core_end split: sum.splits handler_pc.splits if_splits)
qed

lemma core_saved:
  "core_ok s \<Longrightarrow> core_ok (save_files d (s\<lparr> sv_mod := (sv_mod s)\<lparr> historySaveTimer := t \<rparr> \<rparr>))"
  "core_ok s \<Longrightarrow> core_ok (save_files d s)"
  using saveStateFiles_processed [of d "sv_mod s"] saveStateFiles_distinct [of "sv_mod s" d]
    saveStateFiles_processed [of d "(sv_mod s)\<lparr> historySaveTimer := t \<rparr>"]
    saveStateFiles_distinct [of "(sv_mod s)\<lparr> historySaveTimer := t \<rparr>" d]
  by (auto simp: save_files_def case_prod_beta core_ok_def hand_ok_def)

lemma core_aggStep: "core_ok s \<Longrightarrow> agg_ok (fst (agg_timerFires k now (sv_agg s)))"
    "core_ok s \<Longrightarrow> agg_ok (fst (agg_flushAll (sv_agg s)))"
  using agg_ok_step [OF core_agg, of s "TimerFires k now"] agg_ok_step [OF core_agg, of s FlushAll]
  by simp_all

lemma core_idle: "core_ok s \<Longrightarrow> s\<lparr> sv_sessions := sm_cleanupIdle now (sv_sessions s) \<rparr> = s"
  by (simp add: core_ok_def sess_ok_def sm_cleanupIdle_id)

lemma core_dispatch: "core_ok s \<Longrightarrow> dispatch v s e = Some t \<Longrightarrow> core_ok t"
proof (cases e)
  case (Recorded hid res now rid)
  then show "core_ok s \<Longrightarrow> dispatch v s e = Some t \<Longrightarrow> core_ok t"
    by (auto simp: with_handler_def split: option.splits if_splits intro: core_recorded)
next
  case (TurnFinished pid res now)
  then show "core_ok s \<Longrightarrow> dispatch v s e = Some t \<Longrightarrow> core_ok t"
    by (auto simp: with_pipe_def split: option.splits intro: core_finished)
next
  case (Settle pid now)
  then show "core_ok s \<Longrightarrow> dispatch v s e = Some t \<Longrightarrow> core_ok t"
    by (auto simp: with_pipe_def split: option.splits outer_pc.splits intro: core_settle)
next
  case (Abort now)
  then show "core_ok s \<Longrightarrow> dispatch v s e = Some t \<Longrightarrow> core_ok t"
    using core_submit [OF core_aggregator [of "s\<lparr> sv_shutdown := True \<rparr>"]] core_aggStep(2) [of s]
    by (auto simp: on_abort_def Let_def case_prod_beta split: if_splits)
next
  case (AggTimer key now)
  then show "core_ok s \<Longrightarrow> dispatch v s e = Some t \<Longrightarrow> core_ok t"
    using core_submit [OF core_aggregator [of s]] core_aggStep(1) [of s key now]
    by (auto simp: on_aggTimer_def Let_def case_prod_beta)
next
  case (MemoryClosed d)
  then show "core_ok s \<Longrightarrow> dispatch v s e = Some t \<Longrightarrow> core_ok t"
    using core_saved(2) [of "s\<lparr> sv_phase := Closed \<rparr>" d] by (auto split: if_splits)
qed (auto simp: with_pipe_def with_handler_def core_message core_parsed core_routed on_chat_def core_send_reply
      core_fail on_turn_def core_generate on_generated_def Let_def core_pc on_sent_def on_slept_def
      core_next_chunk on_recorded_reply_def core_complete core_degrade in_flight_def on_timeout_def
      on_saveTimer_def core_saved core_idle on_poll_def
    split: option.splits if_splits sum.splits pipe_pc.splits outer_pc.splits phase.splits)

lemma core_step: "core_ok s \<Longrightarrow> svc_rel v s t \<Longrightarrow> core_ok t"
  by (auto elim!: svc_relE simp: svc_step_def core_dispatch split: if_splits)

text \<open>The service starts from the state files.\<close>

definition svc_init :: "service \<Rightarrow> bool" where
  "svc_init s \<longleftrightarrow> (\<exists>now h d. s = new_service (loadStateFiles now h d new_module_state))"

lemma load_history_fields [simp]:
  "processingMessages (load_history now fs s) = processingMessages s"
  "processedMessages (load_history now fs s) = processedMessages s"
  "botMessageIds (load_history now fs s) = botMessageIds s"
  "dedupeTimestamps (load_history now fs s) = dedupeTimestamps s"
  by (induction now fs s rule: load_history.induct) (auto simp: Let_def split: jsval.splits)

lemma load_dedupe_fields [simp]:
  "processingMessages (load_dedupe vs s) = processingMessages s"
  "botMessageIds (load_dedupe vs s) = botMessageIds s"
  "dedupeTimestamps (load_dedupe vs s) = dedupeTimestamps s"
  by (induction vs s rule: load_dedupe.induct) (auto split: jsval.splits)

lemma load_dedupe_distinct: "distinct (processedMessages s) \<Longrightarrow> distinct (processedMessages (load_dedupe vs s))"
  by (induction vs s rule: load_dedupe.induct) (auto split: jsval.splits)

lemma loadStateFiles_fields:
  "processingMessages (loadStateFiles now h d new_module_state) = []"
  "botMessageIds (loadStateFiles now h d new_module_state) = []"
  "dedupeTimestamps (loadStateFiles now h d new_module_state) = []"
  "distinct (processedMessages (loadStateFiles now h d new_module_state))"
  by (auto simp: loadStateFiles_def Let_def new_module_state_def load_dedupe_distinct
      split: option.splits jsval.splits)

lemma core_init: "svc_init s \<Longrightarrow> core_ok s"
  by (auto simp: svc_init_def core_ok_def new_service_def hand_ok_def live_ids_def ids_inj_def agg_ok_new
      pipe_ok_def live_count_def loadStateFiles_fields) (simp_all add: new_manager_def)

end
