(* ===== verification/ServiceLog.thy ===== *)
theory ServiceLog
  imports ServiceInv
begin

text \<open>
  What a pipeline of the service machine has asked of the outside, related to where it stands:
  the messages sent are a prefix of the split reply, the model is asked at most twice (in chat mode agent A
  once and the model never), and at
  most one apology is sent, after a failure.
\<close>

section \<open>Reading the log\<close>

fun sent_of :: "nat \<Rightarrow> action \<Rightarrow> jsstr list" where
  "sent_of pid (ASend q _ c _) = (if q = pid then [c] else [])"
| "sent_of pid _ = []"

definition sent :: "nat \<Rightarrow> action list \<Rightarrow> jsstr list" where
  "sent pid out = concat (map (sent_of pid) out)"

fun is_generate :: "nat \<Rightarrow> action \<Rightarrow> bool" where
  "is_generate pid (AGenerate q _) \<longleftrightarrow> q = pid"
| "is_generate pid _ \<longleftrightarrow> False"

definition generations :: "nat \<Rightarrow> action list \<Rightarrow> nat" where
  "generations pid out = length (filter (is_generate pid) out)"

text \<open>In chat mode the reply is asked of agent A instead, once.\<close>

fun is_chat_ask :: "nat \<Rightarrow> action \<Rightarrow> bool" where
  "is_chat_ask pid (AChatModel q) \<longleftrightarrow> q = pid"
| "is_chat_ask pid _ \<longleftrightarrow> False"

definition chats :: "nat \<Rightarrow> action list \<Rightarrow> nat" where
  "chats pid out = length (filter (is_chat_ask pid) out)"

fun is_apology :: "nat \<Rightarrow> action \<Rightarrow> bool" where
  "is_apology pid (AApology q _ _) \<longleftrightarrow> q = pid"
| "is_apology pid _ \<longleftrightarrow> False"

definition apologies :: "nat \<Rightarrow> action list \<Rightarrow> nat" where
  "apologies pid out = length (filter (is_apology pid) out)"

lemma log_Nil [simp]: "sent pid [] = []" "generations pid [] = 0" "chats pid [] = 0" "apologies pid [] = 0"
  by (simp_all add: sent_def generations_def chats_def apologies_def)

lemma log_append [simp]:
  "sent pid (xs @ ys) = sent pid xs @ sent pid ys"
  "generations pid (xs @ ys) = generations pid xs + generations pid ys"
  "chats pid (xs @ ys) = chats pid xs + chats pid ys"
  "apologies pid (xs @ ys) = apologies pid xs + apologies pid ys"
  by (simp_all add: sent_def generations_def chats_def apologies_def)

lemma log_one [simp]:
  "sent pid [a] = sent_of pid a"
  "generations pid [a] = of_bool (is_generate pid a)"
  "chats pid [a] = of_bool (is_chat_ask pid a)"
  "apologies pid [a] = of_bool (is_apology pid a)"
  by (simp_all add: sent_def generations_def chats_def apologies_def)

section \<open>The stage of a pipeline\<close>

definition split_of :: "jsval \<Rightarrow> pipeline \<Rightarrow> bool" where
  "split_of cfg p \<longleftrightarrow> chunkReply (p_reply p) cfg = Some (p_chunks p)"

definition mode_count :: "send_mode \<Rightarrow> nat \<Rightarrow> nat \<Rightarrow> bool" where
  "mode_count mode g c \<longleftrightarrow> (case mode of ChatMode \<Rightarrow> g = 0 \<and> c = 1 | AnswerMode \<Rightarrow> 1 \<le> g \<and> g \<le> 2 \<and> c = 0)"

definition stage_ok :: "jsval \<Rightarrow> pipeline \<Rightarrow> nat \<Rightarrow> nat \<Rightarrow> jsstr list \<Rightarrow> bool" where
  "stage_ok cfg p g c ms \<longleftrightarrow> (case p_pc p of
     PRoute \<Rightarrow> g = 0 \<and> c = 0 \<and> ms = [] | PChat \<Rightarrow> g = 0 \<and> c = 1 \<and> ms = []
   | PStartTurn \<Rightarrow> g = 0 \<and> c = 0 \<and> ms = []
   | PGenerate1 \<Rightarrow> g = 1 \<and> c = 0 \<and> ms = [] | PFinishOk1 \<Rightarrow> g = 1 \<and> c = 0 \<and> ms = []
   | PFinishFailed1 _ \<Rightarrow> g = 1 \<and> c = 0 \<and> ms = []
   | PGenerate2 \<Rightarrow> g = 2 \<and> c = 0 \<and> ms = [] | PFinishOk2 \<Rightarrow> g = 2 \<and> c = 0 \<and> ms = []
   | PFinishFailed2 _ \<Rightarrow> g = 2 \<and> c = 0 \<and> ms = []
   | PSending mode \<Rightarrow> mode_count mode g c \<and> split_of cfg p \<and> p_index p < length (p_chunks p)
       \<and> ms = take (Suc (p_index p)) (p_chunks p)
   | PSleeping mode \<Rightarrow> mode_count mode g c \<and> split_of cfg p \<and> p_index p < length (p_chunks p)
       \<and> ms = take (Suc (p_index p)) (p_chunks p)
   | PRecord \<Rightarrow> mode_count AnswerMode g c \<and> split_of cfg p \<and> ms = p_chunks p
   | PDone \<Rightarrow> g = 0 \<and> c = 0 \<and> ms = [] \<or> (mode_count ChatMode g c \<or> mode_count AnswerMode g c) \<and> split_of cfg p \<and> ms = p_chunks p
   | PFailed _ \<Rightarrow> g \<le> 2 \<and> c \<le> 1 \<and> (g = 0 \<or> c = 0)
       \<and> (ms = [] \<or> split_of cfg p \<and> (\<exists>n. ms = take n (p_chunks p))))"

definition apology_ok :: "pipeline \<Rightarrow> nat \<Rightarrow> bool" where
  "apology_ok p n \<longleftrightarrow> (case p_pc p of
     PFailed _ \<Rightarrow> (case p_outer p of OWait _ \<Rightarrow> n = 0 | OApology \<Rightarrow> n = 1 | OFinished \<Rightarrow> n \<le> 1)
   | _ \<Rightarrow> n = 0 \<and> p_outer p \<noteq> OApology)"

definition log_ok :: "jsval \<Rightarrow> (nat, pipeline) jsmap \<Rightarrow> action list \<Rightarrow> bool" where
  "log_ok cfg ps out \<longleftrightarrow>
     (\<forall>pid p. mget ps pid = Some p \<longrightarrow> stage_ok cfg p (generations pid out) (chats pid out) (sent pid out)
        \<and> apology_ok p (apologies pid out))
   \<and> (\<forall>pid. mget ps pid = None \<longrightarrow> sent pid out = [] \<and> generations pid out = 0 \<and> chats pid out = 0 \<and> apologies pid out = 0)"

lemma log_okD:
  "log_ok cfg ps out \<Longrightarrow> mget ps pid = Some p \<Longrightarrow>
   stage_ok cfg p (generations pid out) (chats pid out) (sent pid out) \<and> apology_ok p (apologies pid out)"
  by (simp add: log_ok_def)

fun about :: "nat \<Rightarrow> action \<Rightarrow> bool" where
  "about pid (ASend q _ _ _) \<longleftrightarrow> q = pid"
| "about pid (AGenerate q _) \<longleftrightarrow> q = pid"
| "about pid (AChatModel q) \<longleftrightarrow> q = pid"
| "about pid (AApology q _ _) \<longleftrightarrow> q = pid"
| "about pid _ \<longleftrightarrow> True"

lemma about_other:
  "list_all (about pid) as \<Longrightarrow> q \<noteq> pid \<Longrightarrow> sent q as = [] \<and> generations q as = 0 \<and> chats q as = 0 \<and> apologies q as = 0"
proof (induction as)
  case (Cons a as)
  then show ?case by (cases a) (auto simp: sent_def generations_def chats_def apologies_def)
qed simp

lemma log_move:
  assumes ok: "log_ok cfg ps out" and as: "list_all (about pid) as"
    and st: "stage_ok cfg p' (generations pid (out @ as)) (chats pid (out @ as)) (sent pid (out @ as))"
      "apology_ok p' (apologies pid (out @ as))"
  shows "log_ok cfg (mput ps pid p') (out @ as)"
  using ok st about_other [OF as] unfolding log_ok_def by simp

lemma log_move0:
  assumes "log_ok cfg ps out" "stage_ok cfg p' (generations pid out) (chats pid out) (sent pid out)"
    "apology_ok p' (apologies pid out)"
  shows "log_ok cfg (mput ps pid p') out"
  using log_move [of cfg ps out pid "[]" p'] assms by simp

text \<open>Actions that are no pipeline's.\<close>

lemma log_neutral:
  "log_ok cfg ps out \<Longrightarrow> list_all (\<lambda>a. \<forall>pid. about pid a) as \<Longrightarrow> log_ok cfg ps (out @ as)"
proof -
  assume ok: "log_ok cfg ps out" and as: "list_all (\<lambda>a. \<forall>pid. about pid a) as"
  have "sent q as = [] \<and> generations q as = 0 \<and> chats q as = 0 \<and> apologies q as = 0" for q
    using about_other [of "Suc q" as q] as by (auto simp: list_all_iff)
  then show ?thesis using ok unfolding log_ok_def by simp
qed

definition logged :: "env \<Rightarrow> service \<Rightarrow> bool" where
  "logged v s \<longleftrightarrow> log_ok (e_config v) (sv_pipes s) (sv_out s)"

lemma log_move_db:
  assumes "log_ok cfg ps out" "about pid a" "stage_ok cfg p' (generations pid out) (chats pid out) (sent pid out)"
    "apology_ok p' (apologies pid out)" "sent_of pid a = []" "\<not> is_generate pid a" "\<not> is_chat_ask pid a" "\<not> is_apology pid a"
  shows "log_ok cfg (mput ps pid p') (out @ (if e_memory v then [a] else []))"
  by (rule log_move) (use assms in simp_all)

text \<open>A pipeline that is not stopped by an error has sent no apology.\<close>

definition running :: "pipeline \<Rightarrow> bool" where
  "running p \<longleftrightarrow> (case p_pc p of PFailed _ \<Rightarrow> False | _ \<Rightarrow> True)"

lemma apology_running: "apology_ok p n \<Longrightarrow> running p \<Longrightarrow> n = 0 \<and> p_outer p \<noteq> OApology"
  by (auto simp: apology_ok_def running_def split: pipe_pc.splits)

lemma apology_okI: "p_outer p \<noteq> OApology \<Longrightarrow> apology_ok p 0"
  by (auto simp: apology_ok_def split: pipe_pc.splits outer_pc.splits)

lemma generate_out [simp]:
  "sent pid (sv_out (generate q p pc x s)) = sent pid (sv_out s)"
  "generations pid (sv_out (generate q p pc x s)) = generations pid (sv_out s) + of_bool (q = pid)"
  "chats pid (sv_out (generate q p pc x s)) = chats pid (sv_out s)"
  "apologies pid (sv_out (generate q p pc x s)) = apologies pid (sv_out s)"
  by (simp_all add: generate_def)

lemma logged_frame [simp]:
  "logged v (transition k st now s) = logged v s" "logged v (leave k st now s) = logged v s"
  "logged v (s\<lparr> sv_sessions := m \<rparr>) = logged v s" "logged v (s\<lparr> sv_phase := ph \<rparr>) = logged v s"
  "logged v (s\<lparr> sv_mod := md \<rparr>) = logged v s" "logged v (s\<lparr> sv_agg := a \<rparr>) = logged v s"
  "logged v (s\<lparr> sv_shutdown := b \<rparr>) = logged v s"
  by (simp_all add: logged_def)

lemma log_generate:
  assumes "logged v s" "p_outer q \<noteq> OApology" "apologies pid (sv_out s) = 0" "sent pid (sv_out s) = []"
    "chats pid (sv_out s) = 0"
    "pc = PGenerate1 \<and> generations pid (sv_out s) = 0 \<or> pc = PGenerate2 \<and> generations pid (sv_out s) = 1"
  shows "logged v (generate pid q pc x s)"
  unfolding generate_def
  by (simp add: logged_def) (rule log_move; use assms in \<open>auto simp: logged_def stage_ok_def apology_okI\<close>)

lemma log_fail:
  assumes "logged v s" "p_outer q \<noteq> OApology" "apologies pid (sv_out s) = 0"
    "generations pid (sv_out s) \<le> 2" "chats pid (sv_out s) \<le> 1"
    "generations pid (sv_out s) = 0 \<or> chats pid (sv_out s) = 0"
    "sent pid (sv_out s) = [] \<or> split_of (e_config v) q \<and> (\<exists>n. sent pid (sv_out s) = take n (p_chunks q))"
  shows "logged v (fail pid q e s)"
  by (simp add: logged_def) (rule log_move0; use assms in \<open>auto simp: logged_def stage_ok_def apology_okI split_of_def\<close>)

lemma log_next_chunk:
  assumes "logged v s" "p_outer q \<noteq> OApology" "apologies pid (sv_out s) = 0"
    "mode_count mode (generations pid (sv_out s)) (chats pid (sv_out s))" "split_of (e_config v) q"
    "sent pid (sv_out s) = take (p_index q) (p_chunks q)" "p_index q \<le> length (p_chunks q)"
  shows "logged v (next_chunk v mode pid q now s)"
proof (cases "p_index q < length (p_chunks q)")
  case True
  then show ?thesis
    unfolding next_chunk_def
    by (simp add: logged_def) (rule log_move; use assms in
      \<open>auto simp: logged_def stage_ok_def apology_okI split_of_def take_Suc_conv_app_nth\<close>)
next
  case False
  show ?thesis
  proof (cases mode)
    case ChatMode
    then show ?thesis
      using False unfolding next_chunk_def
      by (simp add: complete_def logged_def)
         (rule log_move0; use assms in \<open>auto simp: logged_def stage_ok_def apology_okI split_of_def mode_count_def\<close>)
  next
    case AnswerMode
    then show ?thesis
      using False unfolding next_chunk_def
      by (simp add: logged_def split del: if_split) (rule log_move_db; use assms in
        \<open>auto simp: logged_def stage_ok_def apology_okI split_of_def mode_count_def\<close>)
  qed
qed

lemma log_send_reply:
  assumes "logged v s" "p_outer q \<noteq> OApology" "apologies pid (sv_out s) = 0"
    "mode_count mode (generations pid (sv_out s)) (chats pid (sv_out s))" "sent pid (sv_out s) = []"
  shows "logged v (send_reply v mode pid q now s)"
  using assms by (auto simp: send_reply_def split_of_def intro!: log_next_chunk split: option.splits)


section \<open>Every step keeps the log invariant\<close>

lemma log_send_answer:
  assumes "logged v s" "p_outer q \<noteq> OApology" "apologies pid (sv_out s) = 0"
    "mode_count AnswerMode (generations pid (sv_out s)) (chats pid (sv_out s))" "sent pid (sv_out s) = []"
  shows "logged v (send_answer v pid q now s)"
  unfolding send_answer_def by (rule log_send_reply) (use assms in simp_all)

lemma log_pc:
  assumes "logged v s" "stage_ok (e_config v) q (generations pid (sv_out s)) (chats pid (sv_out s)) (sent pid (sv_out s))"
    "p_outer q \<noteq> OApology" "apologies pid (sv_out s) = 0"
  shows "logged v (goto pid q s)"
  by (simp add: logged_def) (rule log_move0; use assms in \<open>simp_all add: logged_def apology_okI\<close>)

lemma log_pc_db:
  assumes "logged v s" "stage_ok (e_config v) q (generations pid (sv_out s)) (chats pid (sv_out s)) (sent pid (sv_out s))"
    "p_outer q \<noteq> OApology" "apologies pid (sv_out s) = 0"
    "sent_of pid a = []" "\<not> is_generate pid a" "\<not> is_chat_ask pid a" "\<not> is_apology pid a" "about pid a"
  shows "logged v (emit_db v a (goto pid q s))"
  by (simp add: logged_def split del: if_split) (rule log_move_db; use assms in \<open>simp_all add: logged_def apology_okI\<close>)

lemma log_start: "logged v s \<Longrightarrow> \<not> mhas (sv_pipes s) (sv_nextP s) \<Longrightarrow> logged v (start_pipeline now a s)"
proof -
  assume ok: "logged v s" and fresh: "\<not> mhas (sv_pipes s) (sv_nextP s)"
  have "sent (sv_nextP s) (sv_out s) = [] \<and> generations (sv_nextP s) (sv_out s) = 0
      \<and> chats (sv_nextP s) (sv_out s) = 0 \<and> apologies (sv_nextP s) (sv_out s) = 0"
    using ok fresh by (simp add: logged_def log_ok_def mhas_mget)
  then show ?thesis
    using ok by (cases "ag_items a")
      (auto simp: logged_def start_pipeline_def Let_def case_prod_beta stage_ok_def apology_okI intro!: log_move)
qed

lemma log_submit: "core_ok s \<Longrightarrow> logged v s \<Longrightarrow> logged v (submit_all now as s)"
proof (induction as arbitrary: s)
  case (Cons a as)
  have "\<not> mhas (sv_pipes s) (sv_nextP s)" using Cons.prems(1) by (auto simp: core_ok_def pipe_ok_def)
  then show ?case using Cons log_start core_start by simp
qed simp

lemma log_degrade:
  assumes "logged v s" "mget (sv_pipes s) pid = Some p" "p_outer p \<noteq> OFinished"
  shows "logged v (degrade pid p now s)"
  unfolding degrade_def Let_def
  by (simp add: logged_def) (rule log_move0; use assms log_okD [OF assms(1) [unfolded logged_def] assms(2)] in
    \<open>auto simp: logged_def stage_ok_def split_of_def apology_ok_def split: pipe_pc.splits outer_pc.splits\<close>)

lemma log_settle:
  assumes ok: "logged v s" and p: "mget (sv_pipes s) pid = Some p" "p_outer p = OWait d"
    and step: "on_settle pid p now s = Some t"
  shows "logged v t"
proof -
  note st = log_okD [OF ok [unfolded logged_def] p(1)]
  have "logged v (let s1 = goto pid (p\<lparr> p_outer := OFinished \<rparr>) s in s1\<lparr> sv_inFlight := sv_inFlight s1 - 1 \<rparr>)"
    if "p_pc p = PDone"
    unfolding Let_def
    by (simp add: logged_def) (rule log_move0; use ok p st that in \<open>auto simp: logged_def stage_ok_def split_of_def apology_ok_def\<close>)
  moreover have "logged v (emit (AApology pid (first_event (p_agg p)) APOLOGY) (goto pid (p\<lparr> p_outer := OApology \<rparr>) s))"
    if "p_pc p = PFailed e" for e
    by (simp add: logged_def) (rule log_move; use ok p st that in \<open>auto simp: logged_def stage_ok_def split_of_def apology_ok_def\<close>)
  ultimately show ?thesis
    using step log_degrade [OF ok p(1)] p(2)
    by (auto simp: on_settle_def split: pipe_pc.splits thrown.splits if_splits)
qed

text \<open>The facts a live stage gives, one program counter at a time.\<close>

lemma stage_facts:
  assumes "logged v s" "mget (sv_pipes s) pid = Some p" "running p"
  shows "p_outer p \<noteq> OApology" "apologies pid (sv_out s) = 0"
    "stage_ok (e_config v) p (generations pid (sv_out s)) (chats pid (sv_out s)) (sent pid (sv_out s))"
  using log_okD [OF assms(1) [unfolded logged_def] assms(2)] apology_running [of p] assms(3) by auto

lemma log_routed:
  assumes ok: "logged v s" and p: "mget (sv_pipes s) pid = Some p" "p_pc p = PRoute"
  shows "logged v (on_routed v pid p res now s)"
proof -
  have r: "running p" using p(2) by (simp add: running_def)
  note f = stage_facts [OF ok p(1) r]
  have z: "generations pid (sv_out s) = 0" "chats pid (sv_out s) = 0" "sent pid (sv_out s) = []"
    using f(3) p(2) by (simp_all add: stage_ok_def)
  have "logged v (emit (AChatModel pid) (transition k st now (goto pid (q\<lparr> p_pc := PChat \<rparr>) s')))"
    if "sv_pipes s' = sv_pipes s" "sv_out s' = sv_out s" "p_outer q = p_outer p" for k st q s'
    by (simp add: logged_def) (rule log_move; use ok that f z in \<open>simp_all add: logged_def stage_ok_def apology_okI\<close>)
  moreover have "logged v (leave k st now (goto pid (p\<lparr> p_pc := PDone \<rparr>) s))" for k st
    by (simp add: logged_def) (rule log_move0; use ok f z in \<open>simp_all add: logged_def stage_ok_def apology_okI\<close>)
  ultimately show ?thesis
    using ok f z
    by (auto simp: on_routed_def Let_def stage_ok_def
        intro!: log_fail log_generate log_pc_db split: sum.splits option.splits)
qed

lemma log_chat:
  assumes ok: "logged v s" and p: "mget (sv_pipes s) pid = Some p" "p_pc p = PChat"
  shows "logged v (on_chat v pid p res now s)"
proof -
  have r: "running p" using p(2) by (simp add: running_def)
  then show ?thesis
    using ok stage_facts [OF ok p(1) r] p(2)
    by (auto simp: on_chat_def stage_ok_def mode_count_def intro!: log_fail log_send_reply split: sum.splits)
qed

lemma log_turn:
  assumes ok: "logged v s" and p: "mget (sv_pipes s) pid = Some p" "p_pc p = PStartTurn"
  shows "logged v (on_turn pid p res s)"
proof -
  have r: "running p" using p(2) by (simp add: running_def)
  then show ?thesis
    using ok stage_facts [OF ok p(1) r] p(2)
    by (auto simp: on_turn_def stage_ok_def intro!: log_fail log_generate split: sum.splits)
qed

lemma log_generated:
  assumes ok: "logged v s" and p: "mget (sv_pipes s) pid = Some p" "p_pc p = PGenerate1 \<or> p_pc p = PGenerate2"
  shows "logged v (on_generated v pid p res s)"
proof -
  have r: "running p" using p(2) by (auto simp: running_def)
  then show ?thesis
    using ok stage_facts [OF ok p(1) r] p(2)
    by (auto simp: on_generated_def Let_def stage_ok_def intro!: log_pc_db split: sum.splits)
qed

lemma log_sent:
  assumes ok: "logged v s" and p: "mget (sv_pipes s) pid = Some p" "p_pc p = PSending mode"
  shows "logged v (on_sent pid p mode res s)"
proof -
  have r: "running p" using p(2) by (simp add: running_def)
  then show ?thesis
    using ok stage_facts [OF ok p(1) r] p(2)
    by (auto simp: on_sent_def stage_ok_def mode_count_def split_of_def
        intro!: log_fail log_pc split: option.splits send_mode.splits)
qed

lemma log_slept:
  assumes ok: "logged v s" and p: "mget (sv_pipes s) pid = Some p" "p_pc p = PSleeping mode"
  shows "logged v (on_slept v pid p mode now s)"
proof -
  have r: "running p" using p(2) by (simp add: running_def)
  then show ?thesis
    using ok stage_facts [OF ok p(1) r] p(2)
    by (auto simp: on_slept_def stage_ok_def split_of_def intro!: log_next_chunk)
qed

lemma log_recorded_reply:
  assumes ok: "logged v s" and p: "mget (sv_pipes s) pid = Some p" "p_pc p = PRecord"
  shows "logged v (on_recorded_reply pid p res now s)"
proof -
  have r: "running p" using p(2) by (simp add: running_def)
  note f = stage_facts [OF ok p(1) r]
  have "logged v (complete pid p now s)"
    unfolding complete_def
    by (simp add: logged_def) (rule log_move0; use ok f p(2) in
      \<open>auto simp: logged_def stage_ok_def apology_okI split_of_def mode_count_def\<close>)
  moreover have "\<exists>n. p_chunks p = take n (p_chunks p)" by (intro exI [of _ "length (p_chunks p)"]) simp
  ultimately show ?thesis
    using ok f p(2)
    by (auto simp: on_recorded_reply_def stage_ok_def mode_count_def intro!: log_fail split: option.splits)
qed

lemma log_validate:
  assumes ok: "logged v s" and p: "mget (sv_pipes s) pid = Some p" "p_pc p = PFinishOk1"
  shows "logged v (validate v pid p now s)"
proof -
  have r: "running p" using p(2) by (simp add: running_def)
  then show ?thesis
    using ok stage_facts [OF ok p(1) r] p(2)
    by (auto simp: validate_def Let_def stage_ok_def mode_count_def
        intro!: log_generate log_send_answer split: option.splits)
qed

lemma log_finished:
  assumes ok: "logged v s" and p: "mget (sv_pipes s) pid = Some p"
    and step: "on_finished v pid p res now s = Some t"
  shows "logged v t"
proof -
  have r: "running p" using step by (auto simp: running_def on_finished_def split: pipe_pc.splits option.splits)
  then show ?thesis
    using ok stage_facts [OF ok p(1) r] step log_validate [OF ok p]
    by (auto simp: on_finished_def stage_ok_def mode_count_def
        intro!: log_fail log_send_answer log_pc_db split: pipe_pc.splits option.splits)
qed


text \<open>The events of handlers and timers write nothing a pipeline's log sees.\<close>

lemma logged_neutral:
  assumes "logged v s" "sv_pipes t = sv_pipes s" "sv_out t = sv_out s @ as"
    "list_all (\<lambda>a. \<forall>pid. about pid a) as"
  shows "logged v t"
  using assms log_neutral by (simp add: logged_def)

lemma logged_same: "logged v s \<Longrightarrow> sv_pipes t = sv_pipes s \<Longrightarrow> sv_out t = sv_out s \<Longrightarrow> logged v t"
  by (simp add: logged_def)

lemma log_end [simp]:
  "logged v (end_handler hid i now s) = logged v s" "logged v (mark_processed i s) = logged v s"
  by (simp_all add: logged_def)

lemma log_record_user:
  "logged v s \<Longrightarrow> logged v (emit_db v (ARecordUser e t b) (s\<lparr> sv_handlers := hs \<rparr>))"
  by (rule logged_neutral [of v s _ "if e_memory v then [ARecordUser e t b] else []"]) simp_all

lemma log_parsed: "logged v s \<Longrightarrow> logged v (on_parsed v hid h res now s)"
  by (auto simp: on_parsed_def Let_def log_record_user split: sum.splits prod.splits)

lemma log_recorded:
  assumes "core_ok s" "logged v s" "on_recorded v hid h res now rid s = Some t"
  shows "logged v t"
proof -
  have hist: "core_ok (s\<lparr> sv_mod := addHistory (handler_key v h) (user_entry h now) now (sv_mod s) \<rparr>)"
    using assms(1) by (rule core_history)
  have push: "agg_ok (fst (agg_push p now rid (sv_agg s)))" for p
    using agg_ok_step [OF core_agg [OF assms(1)], of "Push p now rid"] by simp
  show ?thesis
    using assms(2,3) log_submit [OF core_aggregator [OF hist push], of v]
    by (auto simp: on_recorded_def Let_def case_prod_beta split: sum.splits handler_pc.splits if_splits)
qed

lemma log_save: "logged v s \<Longrightarrow> logged v (save_files d s)"
  by (rule logged_neutral [of v s _ "[AWriteFiles (fst (snd (saveStateFiles d (sv_mod s))))
      (snd (snd (saveStateFiles d (sv_mod s))))]"]) (simp_all add: save_files_def case_prod_beta)

lemma log_message: "logged v s \<Longrightarrow> logged v (on_message v' e now s)"
  by (rule logged_same [of v s]) simp_all

lemma log_timeout:
  "logged v s \<Longrightarrow> mget (sv_pipes s) pid = Some p \<Longrightarrow> p_outer p = OWait d \<Longrightarrow>
   on_timeout pid p d now s = Some t \<Longrightarrow> logged v t"
  by (auto simp: on_timeout_def log_degrade split: if_splits)

lemma log_dispatch: "core_ok s \<Longrightarrow> logged v s \<Longrightarrow> dispatch v s e = Some t \<Longrightarrow> logged v t"
proof (cases e)
  case (Recorded hid res now rid)
  then show "core_ok s \<Longrightarrow> logged v s \<Longrightarrow> dispatch v s e = Some t \<Longrightarrow> logged v t"
    by (auto simp: with_handler_def split: option.splits if_splits intro: log_recorded)
next
  case (TurnFinished pid res now)
  then show "core_ok s \<Longrightarrow> logged v s \<Longrightarrow> dispatch v s e = Some t \<Longrightarrow> logged v t"
    by (auto simp: with_pipe_def split: option.splits intro: log_finished)
next
  case (Settle pid now)
  then show "core_ok s \<Longrightarrow> logged v s \<Longrightarrow> dispatch v s e = Some t \<Longrightarrow> logged v t"
    by (auto simp: with_pipe_def split: option.splits outer_pc.splits intro: log_settle)
next
  case (Timeout pid now)
  then show "core_ok s \<Longrightarrow> logged v s \<Longrightarrow> dispatch v s e = Some t \<Longrightarrow> logged v t"
    by (auto simp: with_pipe_def split: option.splits outer_pc.splits intro: log_timeout)
next
  case (Abort now)
  then show "core_ok s \<Longrightarrow> logged v s \<Longrightarrow> dispatch v s e = Some t \<Longrightarrow> logged v t"
    using log_submit [OF core_aggregator [of "s\<lparr> sv_shutdown := True \<rparr>"], of _ v] core_aggStep(2) [of s]
    by (auto simp: on_abort_def Let_def case_prod_beta split: if_splits)
next
  case (AggTimer key now)
  then show "core_ok s \<Longrightarrow> logged v s \<Longrightarrow> dispatch v s e = Some t \<Longrightarrow> logged v t"
    using log_submit [OF core_aggregator [of s], of _ v] core_aggStep(1) [of s key now]
    by (auto simp: on_aggTimer_def Let_def case_prod_beta)
qed (auto simp: with_pipe_def with_handler_def log_message log_parsed log_routed log_chat log_turn
      log_generated log_sent log_slept log_recorded_reply log_degrade on_saveTimer_def log_save on_poll_def
    split: option.splits if_splits pipe_pc.splits outer_pc.splits phase.splits)

definition svc_inv :: "env \<Rightarrow> service \<Rightarrow> bool" where
  "svc_inv v s \<longleftrightarrow> core_ok s \<and> logged v s"

interpretation svc: invariant_system svc_init "svc_rel v" "svc_inv v" for v
proof unfold_locales
  show "svc_inv v s" if "svc_init s" for s
    using core_init [OF that] that
    by (auto simp: svc_inv_def svc_init_def new_service_def logged_def log_ok_def)
  show "svc_inv v t" if inv: "svc_inv v s" and st: "svc_rel v s t" for s t
  proof -
    obtain e where e: "dispatch v s e = Some t"
      using st by (elim svc_relE) (auto simp: svc_step_def split: if_splits)
    have "core_ok s" "logged v s" using inv by (simp_all add: svc_inv_def)
    then show ?thesis using core_dispatch [OF _ e] log_dispatch [OF _ _ e] by (simp add: svc_inv_def)
  qed
qed

lemmas reach_core = svc.reach_inv [unfolded svc_inv_def, THEN conjunct1]
lemmas reach_logged = svc.reach_inv [unfolded svc_inv_def, THEN conjunct2]

end
