(* ===== verification/ServiceProps.thy ===== *)
theory ServiceProps
  imports ServiceLog
begin

text \<open>
  The properties of the service machine: every one is about the states reachable from a start,
  or about the steps from such a state.
\<close>

section \<open>Idempotence of message handling\<close>

text \<open>C2: No message is handled twice at once. In every reachable state the ids in
  \<open>processingMessages\<close> are exactly those of the suspended handlers, each held by one handler, no id
  is both being processed and processed, and the arrival of an event with such an id changes nothing.\<close>

theorem no_double_processing:
  assumes "reach svc_init (svc_rel v) s"
  shows "set (processingMessages (sv_mod s))
      = {i. \<exists>hid h. mget (sv_handlers s) hid = Some h \<and> trim (message_id (h_event h)) = i}
    \<and> (mget (sv_handlers s) a = Some h \<and> mget (sv_handlers s) b = Some g
        \<and> trim (message_id (h_event h)) = trim (message_id (h_event g)) \<longrightarrow> a = b)
    \<and> set (processingMessages (sv_mod s)) \<inter> set (processedMessages (sv_mod s)) = {}
    \<and> (trim (message_id e) \<in> set (processingMessages (sv_mod s)) \<union> set (processedMessages (sv_mod s))
        \<longrightarrow> on_message v e now s = s)"
proof -
  have ok: "handlers_ok s" using reach_core [OF assms] by (rule core_handlers)
  then have "set (processingMessages (sv_mod s)) = live_ids (sv_handlers s)" "ids_inj (sv_handlers s)"
    "set (processingMessages (sv_mod s)) \<inter> set (processedMessages (sv_mod s)) = {}"
    unfolding hand_ok_def by blast+
  then show ?thesis
    unfolding live_ids_def handler_id_def
    by (auto dest: ids_injD simp: on_message_def Let_def handler_id_def)
qed

text \<open>A small start, and the arrival of a message in it.\<close>

definition start0 :: service where
  "start0 = new_service new_module_state"

definition env0 :: env where
  "env0 = \<lparr> e_accountId = js ''main'', e_config = VObj [], e_memory = False, e_botOpenId = Some (js ''ou_bot''),
     e_botName = None \<rparr>"

lemma svc_init_start0: "svc_init start0"
  unfolding svc_init_def start0_def
  by (rule exI [of _ 0], rule exI [of _ None], rule exI [of _ None]) (simp add: loadStateFiles_def)

lemma reach_start0: "reach svc_init (svc_rel v) start0"
  by (rule reach_init) (rule svc_init_start0)

lemma reach_run: "reach svc_init (svc_rel v) s \<Longrightarrow> svc_run v s es = Some t \<Longrightarrow> reach svc_init (svc_rel v) t"
proof (induction es arbitrary: s)
  case (Cons e es)
  then obtain u where u: "svc_step v s e = Some u" "svc_run v u es = Some t" by (auto split: option.splits)
  then have "reach svc_init (svc_rel v) u" using Cons.prems(1) by (blast intro: reach_step svc_relI)
  then show ?case using Cons.IH u(2) by blast
qed simp

text \<open>C8: A handler that fails leaves its message for a redelivery. When parsing or recording throws,
  the id is in neither set afterwards, so the same event is accepted again.\<close>

theorem failed_handler_can_retry:
  assumes "reach svc_init (svc_rel v) s" and "mget (sv_handlers s) hid = Some h"
    and "svc_step v s (Parsed hid (Inl err) now) = Some t
       \<or> svc_step v s (Recorded hid (Inl err) now rid) = Some t"
  shows "mget (sv_handlers t) hid = None
    \<and> trim (message_id (h_event h)) \<notin> set (processingMessages (sv_mod t)) \<union> set (processedMessages (sv_mod t))"
proof -
  have ok: "handlers_ok s" using reach_core [OF assms(1)] by (rule core_handlers)
  then have "handler_id h \<in> set (processingMessages (sv_mod s))"
    using assms(2) by (auto simp: hand_ok_def live_ids_def)
  moreover have "t = end_handler hid (handler_id h) now s"
    using assms(2,3)
    by (auto simp: svc_step_def with_handler_def on_parsed_def on_recorded_def split: if_splits)
  ultimately show ?thesis using ok by (auto simp: hand_ok_def handler_id_def)
qed


definition payload0 :: jsval where
  "payload0 = VObj [(js ''sender'', VObj [(js ''sender_id'', VObj [(js ''open_id'', VStr (js ''ou_1''))]),
       (js ''sender_type'', VStr (js ''user''))]),
     (js ''message'', VObj [(js ''message_id'', VStr (js ''om_1'')), (js ''chat_id'', VStr (js ''oc_1'')),
       (js ''chat_type'', VStr (js ''p2p'')), (js ''message_type'', VStr (js ''text'')),
       (js ''content'', VStr (js ''hello''))])]"

text \<open>The state after the arrival, and the one in which the reply is being generated.\<close>

definition arrived_events :: "event list" where
  "arrived_events = [Arrive payload0 0]"

definition busy_events :: "event list" where
  "busy_events = arrived_events @ [Parsed 0 (Inr (js ''hello'', [], [])) 1, Recorded 0 (Inr None) 2 [],
     Routed 0 (Inr \<lparr> rd_shouldReply = True, rd_intent = Question, rd_tone = Casual \<rparr>) 4100]"

definition state_after :: "event list \<Rightarrow> service" where
  "state_after es = (case svc_run env0 start0 es of Some t \<Rightarrow> t | None \<Rightarrow> start0)"

lemma reach_state_after: "reach svc_init (svc_rel env0) (state_after es)"
  using reach_run [OF reach_start0] reach_start0 by (auto simp: state_after_def split: option.splits)

definition holds_after :: "event list \<Rightarrow> (service \<Rightarrow> bool) \<Rightarrow> bool" where
  "holds_after es P = (case svc_run env0 start0 es of Some t \<Rightarrow> P t | None \<Rightarrow> False)"

lemma holds_afterD: "holds_after es P \<Longrightarrow> P (state_after es)"
  by (auto simp: holds_after_def state_after_def split: option.splits)

lemma arrived_handler:
  "map_option (\<lambda>h. message_id (h_event h)) (mget (sv_handlers (state_after arrived_events)) 0) = Some (js ''om_1'')
   \<and> (case svc_step env0 (state_after arrived_events) (Parsed 0 (Inl NonError) 1) of Some _ \<Rightarrow> True | None \<Rightarrow> False)"
proof -
  have "holds_after arrived_events (\<lambda>t. map_option (\<lambda>h. message_id (h_event h)) (mget (sv_handlers t) 0) = Some (js ''om_1'')
     \<and> (case svc_step env0 t (Parsed 0 (Inl NonError) 1) of Some _ \<Rightarrow> True | None \<Rightarrow> False))"
    by code_simp
  then show ?thesis by (rule holds_afterD)
qed

lemma arrived_processing:
  "processingMessages (sv_mod (state_after arrived_events)) = [js ''om_1'']"
proof -
  have "holds_after arrived_events (\<lambda>t. processingMessages (sv_mod t) = [js ''om_1''])"
    by code_simp
  then show ?thesis by (rule holds_afterD)
qed

theorem no_double_processing_witness:
  "processingMessages (sv_mod (state_after arrived_events)) = [js ''om_1''] \<and>
   on_message env0 (sample_event\<lparr> message_id := js ''om_1'' \<rparr>) 5 (state_after arrived_events)
     = state_after arrived_events"
proof -
  have "trim (js ''om_1'') = js ''om_1''"
    by (simp add: js_def trim_def trimStart_def trimEnd_def is_space_def)
  then show ?thesis
    using arrived_processing no_double_processing [OF reach_state_after [of arrived_events],
        where e = "sample_event\<lparr> message_id := js ''om_1'' \<rparr>" and now = 5]
    by simp
qed

theorem failed_handler_can_retry_witness:
  "\<exists>t. svc_step env0 (state_after arrived_events) (Parsed 0 (Inl NonError) 1) = Some t
     \<and> js ''om_1'' \<notin> set (processingMessages (sv_mod t)) \<union> set (processedMessages (sv_mod t))"
proof -
  obtain h where h: "mget (sv_handlers (state_after arrived_events)) 0 = Some h" "message_id (h_event h) = js ''om_1''"
    using arrived_handler by auto
  obtain t where t: "svc_step env0 (state_after arrived_events) (Parsed 0 (Inl NonError) 1) = Some t"
    using arrived_handler by (auto split: option.splits)
  have "trim (js ''om_1'') = js ''om_1''"
    by (simp add: js_def trim_def trimStart_def trimEnd_def is_space_def)
  then show ?thesis
    using failed_handler_can_retry [OF reach_state_after h(1) disjI1 [OF t]] t h(2) by auto
qed

section \<open>Sessions and requests in flight\<close>

text \<open>C6: The in-flight counter is exact. In every reachable state \<open>inFlightRequests\<close> is the number of
  \<open>processAggregatedMessage\<close> calls that have not returned.\<close>

theorem in_flight_exact:
  assumes "reach svc_init (svc_rel v) s"
  shows "sv_inFlight s = int (length (filter (\<lambda>q. p_outer (snd q) \<noteq> OFinished) (sv_pipes s)))
    \<and> distinct (mkeys (sv_pipes s))"
  using reach_core [OF assms] by (simp add: core_ok_def pipe_ok_def live_count_def in_flight_def)

theorem in_flight_exact_witness:
  "sv_inFlight (state_after busy_events) = 1"
proof -
  have "length (filter (\<lambda>q. p_outer (snd q) \<noteq> OFinished) (sv_pipes (state_after busy_events))) = 1"
    by code_simp
  then show ?thesis using in_flight_exact [OF reach_state_after [of busy_events]] by simp
qed

text \<open>C3: No sender is stuck in an abandoned session. In every reachable state a sender with a session has a pipeline that
  has not yet cleared it and will; the session counts as active; and so the periodic clean-up of idle
  sessions never has anything to remove.\<close>

theorem sessions_owned:
  assumes "reach svc_init (svc_rel v) s"
  shows "(mhas (sm_map (sv_sessions s)) k \<longrightarrow>
      (\<exists>pid p. mget (sv_pipes s) pid = Some p \<and> ag_senderId (p_agg p) = k
         \<and> (p_outer p = OApology \<or> (\<exists>d. p_outer p = OWait d) \<and> p_pc p \<noteq> PDone)))
    \<and> (sm_isActive k (sv_sessions s) \<longleftrightarrow> mhas (sm_map (sv_sessions s)) k)
    \<and> sm_cleanupIdle now (sv_sessions s) = sv_sessions s"
proof -
  have ok: "core_ok s" using assms by (rule reach_core)
  have "\<exists>pid p. mget (sv_pipes s) pid = Some p \<and> ag_senderId (p_agg p) = k
         \<and> (p_outer p = OApology \<or> (\<exists>d. p_outer p = OWait d) \<and> p_pc p \<noteq> PDone)"
    if k: "mhas (sm_map (sv_sessions s)) k"
  proof -
    obtain pid p where p: "mget (sv_pipes s) pid = Some p" "senderKey p = k" "owing p"
      using ok k unfolding core_ok_def pipe_ok_def by blast
    then show ?thesis
      by (intro exI [of _ pid] exI [of _ p]) (auto simp: senderKey_def owing_def split: outer_pc.splits)
  qed
  then show ?thesis
    using ok by (auto simp: core_ok_def sess_ok_def sm_isActive_iff sm_cleanupIdle_id)
qed

theorem sessions_owned_witness:
  "sm_isActive (js ''ou_1'') (sv_sessions (state_after busy_events))
   \<and> (\<exists>pid p. mget (sv_pipes (state_after busy_events)) pid = Some p \<and> ag_senderId (p_agg p) = js ''ou_1'')"
proof -
  have "sm_isActive (js ''ou_1'') (sv_sessions (state_after busy_events))" by code_simp
  then show ?thesis using sessions_owned [OF reach_state_after [of busy_events], of "js ''ou_1''" 0] by blast
qed

text \<open>C7: The time-out frees the sender. Once the deadline of a pipeline that is still at work has passed, the time-out
  can fire; it removes the sender's session and takes the request off the in-flight counter.\<close>

theorem timeout_frees_sender:
  assumes "mget (sv_pipes s) pid = Some p" and "p_outer p = OWait d" and "d \<le> now"
    and "\<not> terminal (p_pc p)" and "sv_phase s = Running" and "\<not> sv_shutdown s"
  shows "\<exists>t. svc_step v s (Timeout pid now) = Some t
    \<and> \<not> mhas (sm_map (sv_sessions t)) (ag_senderId (p_agg p)) \<and> sv_inFlight t = sv_inFlight s - 1
    \<and> sv_out t = sv_out s"
  using assms
  by (simp add: svc_step_def with_pipe_def on_timeout_def degrade_def Let_def senderKey_def)

lemma busy_pipeline:
  "(case mget (sv_pipes (state_after busy_events)) 0 of Some p \<Rightarrow> p_pc p = PGenerate1 \<and> p_outer p = OWait 60002
       \<and> ag_senderId (p_agg p) = js ''ou_1'' \<and> p_session p = 0 | None \<Rightarrow> False)
   \<and> sv_phase (state_after busy_events) = Running \<and> \<not> sv_shutdown (state_after busy_events)"
proof -
  have "holds_after busy_events (\<lambda>t. (case mget (sv_pipes t) 0 of Some p \<Rightarrow> p_pc p = PGenerate1 \<and> p_outer p = OWait 60002
         \<and> ag_senderId (p_agg p) = js ''ou_1'' \<and> p_session p = 0 | None \<Rightarrow> False)
     \<and> sv_phase t = Running \<and> \<not> sv_shutdown t)"
    by code_simp
  then show ?thesis by (rule holds_afterD)
qed

theorem timeout_frees_sender_witness:
  "\<exists>t. svc_step env0 (state_after busy_events) (Timeout 0 60002) = Some t
     \<and> \<not> mhas (sm_map (sv_sessions t)) (js ''ou_1'')"
proof -
  obtain p where p: "mget (sv_pipes (state_after busy_events)) 0 = Some p" "p_pc p = PGenerate1"
      "p_outer p = OWait 60002" "ag_senderId (p_agg p) = js ''ou_1''"
    using busy_pipeline by (auto split: option.splits)
  then show ?thesis
    using timeout_frees_sender [OF p(1) p(3), of 60002 env0] busy_pipeline by (auto simp: terminal_def)
qed

section \<open>What a pipeline sends\<close>

lemma stage_prefix:
  assumes "stage_ok cfg p g c ms"
  shows "ms = [] \<or> split_of cfg p \<and> (\<exists>n. ms = take n (p_chunks p))"
proof -
  have all: "\<exists>n. p_chunks p = take n (p_chunks p)" by (rule exI [of _ "length (p_chunks p)"]) simp
  show ?thesis using assms all by (cases "p_pc p") (auto simp: stage_ok_def)
qed

lemma stage_asked: "stage_ok cfg p g c ms \<Longrightarrow> g \<le> 2 \<and> c \<le> 1 \<and> (g = 0 \<or> c = 0)"
  by (cases "p_pc p") (auto simp: stage_ok_def mode_count_def split: send_mode.splits)

lemma apology_failed: "apology_ok p n \<Longrightarrow> n \<le> 1 \<and> (n = 1 \<longrightarrow> (\<exists>err. p_pc p = PFailed err))"
  by (cases "p_pc p") (auto simp: apology_ok_def split: outer_pc.splits)

text \<open>C4: What a pipeline sends. In every reachable state the messages a pipeline has sent are a prefix of the
  split reply; it has asked the model for at most two answers, or agent A for one reply in chat mode, never both; and it has sent at
  most one apology, that one only after a failure.  A finished pipeline that asked for an answer, of the model or of
  agent A, has sent the whole of the split reply; one that asked neither has sent nothing.\<close>

theorem pipeline_replies:
  assumes "reach svc_init (svc_rel v) s" and "mget (sv_pipes s) pid = Some p"
  shows "(\<exists>n. sent pid (sv_out s) = [] \<or> chunkReply (p_reply p) (e_config v) = Some (p_chunks p)
        \<and> sent pid (sv_out s) = take n (p_chunks p))
    \<and> generations pid (sv_out s) \<le> 2 \<and> chats pid (sv_out s) \<le> 1
    \<and> (generations pid (sv_out s) = 0 \<or> chats pid (sv_out s) = 0)
    \<and> apologies pid (sv_out s) \<le> 1
    \<and> (apologies pid (sv_out s) = 1 \<longrightarrow> (\<exists>err. p_pc p = PFailed err))
    \<and> (p_pc p = PDone \<longrightarrow>
        (if generations pid (sv_out s) = 0 \<and> chats pid (sv_out s) = 0 then sent pid (sv_out s) = []
         else chunkReply (p_reply p) (e_config v) = Some (sent pid (sv_out s))))"
proof -
  have st: "stage_ok (e_config v) p (generations pid (sv_out s)) (chats pid (sv_out s)) (sent pid (sv_out s))"
    and ap: "apology_ok p (apologies pid (sv_out s))"
    using log_okD reach_logged [OF assms(1)] assms(2) by (auto simp: logged_def)
  have "p_pc p = PDone \<longrightarrow> (if generations pid (sv_out s) = 0 \<and> chats pid (sv_out s) = 0 then sent pid (sv_out s) = []
      else chunkReply (p_reply p) (e_config v) = Some (sent pid (sv_out s)))"
    using st by (auto simp: stage_ok_def split_of_def mode_count_def)
  then show ?thesis
    using stage_prefix [OF st] stage_asked [OF st] apology_failed [OF ap] by (auto simp: split_of_def)
qed

definition answered_events :: "event list" where
  "answered_events = busy_events @ [Generated 0 (Inr (js ''hi'')), TurnFinished 0 None 5000, Sent 0 None,
     Slept 0 5300, ReplyRecorded 0 None 5400]"

text \<open>And the run in which the classifier takes the message for small talk, answered by agent A with two lines.\<close>

definition chat_events :: "event list" where
  "chat_events = arrived_events @ [Parsed 0 (Inr (js ''hello'', [], [])) 1, Recorded 0 (Inr None) 2 [],
     Routed 0 (Inr \<lparr> rd_shouldReply = True, rd_intent = Chat, rd_tone = Casual \<rparr>) 4100,
     Chatted 0 (Inr (js ''hi'' @ [0x0A] @ js ''you'')) 4200, Sent 0 None, Slept 0 4500, Sent 0 None, Slept 0 4800]"

lemma chat_pipeline:
  "(case mget (sv_pipes (state_after chat_events)) 0 of Some p \<Rightarrow> p_pc p = PDone \<and> p_reply p = js ''hi'' @ [0x0A] @ js ''you''
     | None \<Rightarrow> False)
   \<and> chats 0 (sv_out (state_after chat_events)) = 1"
proof -
  have "holds_after chat_events (\<lambda>t. (case mget (sv_pipes t) 0 of Some p \<Rightarrow> p_pc p = PDone \<and> p_reply p = js ''hi'' @ [0x0A] @ js ''you''
       | None \<Rightarrow> False)
     \<and> chats 0 (sv_out t) = 1)"
    by code_simp
  then show ?thesis by (rule holds_afterD)
qed

lemma answered_pipeline:
  "(case mget (sv_pipes (state_after answered_events)) 0 of Some p \<Rightarrow> p_pc p = PDone \<and> p_reply p = js ''hi''
     | None \<Rightarrow> False)
   \<and> generations 0 (sv_out (state_after answered_events)) = 1"
proof -
  have "holds_after answered_events (\<lambda>t. (case mget (sv_pipes t) 0 of Some p \<Rightarrow> p_pc p = PDone \<and> p_reply p = js ''hi''
       | None \<Rightarrow> False)
     \<and> generations 0 (sv_out t) = 1)"
    by code_simp
  then show ?thesis by (rule holds_afterD)
qed

theorem pipeline_replies_witness:
  "chunkReply (js ''hi'') (e_config env0) = Some (sent 0 (sv_out (state_after answered_events)))
   \<and> sent 0 (sv_out (state_after chat_events)) = [js ''hi'', js ''you'']"
proof
  obtain p where "mget (sv_pipes (state_after answered_events)) 0 = Some p" "p_pc p = PDone" "p_reply p = js ''hi''"
    using answered_pipeline by (auto split: option.splits)
  then show "chunkReply (js ''hi'') (e_config env0) = Some (sent 0 (sv_out (state_after answered_events)))"
    using pipeline_replies [OF reach_state_after [of answered_events], of 0 p] answered_pipeline by simp
  obtain q where "mget (sv_pipes (state_after chat_events)) 0 = Some q" "p_pc q = PDone" "p_reply q = js ''hi'' @ [0x0A] @ js ''you''"
    using chat_pipeline by (auto split: option.splits)
  moreover have "chunkReply (js ''hi'' @ [0x0A] @ js ''you'') (e_config env0) = Some [js ''hi'', js ''you'']" by code_simp
  ultimately show "sent 0 (sv_out (state_after chat_events)) = [js ''hi'', js ''you'']"
    using pipeline_replies [OF reach_state_after [of chat_events], of 0 q] chat_pipeline by simp
qed

section \<open>Two ways the answer and the message miss each other\<close>

text \<open>A pipeline that has timed out still answers. The time-out does not stop the inner course: the
  request is off the in-flight counter and the sender's session is gone, yet when the model
  answers the first piece of the reply is sent, and no apology ever was.\<close>

theorem timed_out_pipeline_still_sends:
  assumes "mget (sv_pipes s) pid = Some p" and "p_outer p = OWait d" and "d \<le> now" and "p_pc p = PGenerate1"
    and "sv_phase s = Running" and "\<not> sv_shutdown s"
    and "mget (sm_heap (sv_sessions s)) (p_session p) = Some c" and "s_pendingItems c = []"
    and "chunkReply txt (e_config v) = Some (m # ms)"
  shows "\<exists>t. svc_run v s [Timeout pid now, Generated pid (Inr txt), TurnFinished pid None later] = Some t
    \<and> sv_inFlight t = sv_inFlight s - 1 \<and> \<not> mhas (sm_map (sv_sessions t)) (ag_senderId (p_agg p))
    \<and> last (sv_out t) = ASend pid (first_event (p_agg p)) m True \<and> apologies pid (sv_out t) = apologies pid (sv_out s)"
proof -
  let ?k = "ag_senderId (p_agg p)"
  obtain t1 where t1: "svc_step v s (Timeout pid now) = Some t1" "t1 = degrade pid p now s"
    using assms by (auto simp: svc_step_def with_pipe_def on_timeout_def terminal_def)
  have p1: "mget (sv_pipes t1) pid = Some (p\<lparr> p_outer := OFinished \<rparr>)" "sv_phase t1 = Running" "\<not> sv_shutdown t1"
    "sv_out t1 = sv_out s" "sv_inFlight t1 = sv_inFlight s - 1" "\<not> mhas (sm_map (sv_sessions t1)) ?k"
    using assms by (simp_all add: t1 degrade_def Let_def senderKey_def)
  have c1: "\<exists>c'. mget (sm_heap (sv_sessions t1)) (p_session p) = Some c' \<and> s_pendingItems c' = []"
    using assms by (simp add: t1 degrade_def Let_def leave_def sm_transition_def split: option.splits)
  let ?p2 = "p\<lparr> p_outer := OFinished, p_reply := txt, p_pc := PFinishOk1 \<rparr>"
  obtain t2 where t2: "svc_step v t1 (Generated pid (Inr txt)) = Some t2"
    "t2 = on_generated v pid (p\<lparr> p_outer := OFinished \<rparr>) (Inr txt) t1"
    using assms(4) p1 by (auto simp: svc_step_def timer_event_def with_pipe_def)
  have p2: "mget (sv_pipes t2) pid = Some ?p2" "sv_phase t2 = Running" "\<not> sv_shutdown t2"
    "apologies pid (sv_out t2) = apologies pid (sv_out s)" "sv_inFlight t2 = sv_inFlight s - 1"
    "sv_sessions t2 = sv_sessions t1"
    using assms(4) p1 by (simp_all add: t2 on_generated_def Let_def)
  have off: "sm_transition ?k st later (sv_sessions t2) = sv_sessions t2" for st
    using p1(6) p2(6) by (simp add: sm_transition_def mhas_mget split: option.splits)
  have tr: "transition ?k st later t2 = t2" for st
    using off [of st] by (simp add: transition_def)
  have "svc_step v t2 (TurnFinished pid None later) = Some (validate v pid ?p2 later t2)"
    using p2 by (simp add: svc_step_def timer_event_def with_pipe_def on_finished_def)
  moreover have "validate v pid ?p2 later t2
      = next_chunk v AnswerMode pid (?p2\<lparr> p_chunks := m # ms, p_index := 0 \<rparr>) later t2"
    using c1 p2(6) assms(9) by (auto simp: validate_def Let_def senderKey_def tr send_answer_def send_reply_def)
  ultimately show ?thesis
    using t1(1) t2(1) p1 p2 by (simp add: next_chunk_def)
qed

lemma busy_session:
  "(case mget (sm_heap (sv_sessions (state_after busy_events))) 0 of Some c \<Rightarrow> s_pendingItems c = [] | None \<Rightarrow> False)"
proof -
  have "holds_after busy_events (\<lambda>t. (case mget (sm_heap (sv_sessions t)) 0 of Some c \<Rightarrow> s_pendingItems c = [] | None \<Rightarrow> False))"
    by code_simp
  then show ?thesis by (rule holds_afterD)
qed

theorem timed_out_pipeline_still_sends_witness:
  "\<exists>t. svc_run env0 (state_after busy_events)
      [Timeout 0 60002, Generated 0 (Inr (js ''hi'')), TurnFinished 0 None 70000] = Some t
    \<and> (\<exists>e. last (sv_out t) = ASend 0 e (js ''hi'') True)"
proof -
  obtain p where p: "mget (sv_pipes (state_after busy_events)) 0 = Some p" "p_pc p = PGenerate1"
      "p_outer p = OWait 60002" "p_session p = 0"
    using busy_pipeline by (auto split: option.splits)
  obtain c where c: "mget (sm_heap (sv_sessions (state_after busy_events))) 0 = Some c" "s_pendingItems c = []"
    using busy_session by (auto split: option.splits)
  have r: "chunkReply (js ''hi'') (e_config env0) = Some [js ''hi'']" by code_simp
  show ?thesis
    using timed_out_pipeline_still_sends [OF p(1,3) _ p(2), of 60002 c "js ''hi''" env0 "js ''hi''" "[]" 70000]
      busy_pipeline p(4) c r by auto
qed

text \<open>A message can fall between a session and the next. A handler that found the session active waits for the
  database; if the session ends meanwhile, the message is marked as processed but reaches
  neither a session, nor the aggregator, nor a pipeline: it will not be answered.\<close>

theorem append_after_clear_lost:
  assumes "mget (sv_handlers s) hid = Some h" and "h_pc h = HRecordActive"
    and "\<not> mhas (sm_map (sv_sessions s)) (handler_sender h)" and "sv_phase s = Running"
  shows "\<exists>t. svc_step v s (Recorded hid (Inr ref) now rid) = Some t
    \<and> handler_id h \<in> set (processedMessages (sv_mod t))
    \<and> sv_sessions t = sv_sessions s \<and> sv_agg t = sv_agg s \<and> sv_pipes t = sv_pipes s \<and> sv_out t = sv_out s"
  using assms
  by (auto simp: svc_step_def timer_event_def with_handler_def on_recorded_def Let_def sm_appendItem_def mhas_mget)

definition payload1 :: jsval where
  "payload1 = VObj [(js ''sender'', VObj [(js ''sender_id'', VObj [(js ''open_id'', VStr (js ''ou_1''))]),
       (js ''sender_type'', VStr (js ''user''))]),
     (js ''message'', VObj [(js ''message_id'', VStr (js ''om_2'')), (js ''chat_id'', VStr (js ''oc_1'')),
       (js ''chat_type'', VStr (js ''p2p'')), (js ''message_type'', VStr (js ''text'')),
       (js ''content'', VStr (js ''more''))])]"

definition crossing_events :: "event list" where
  "crossing_events = busy_events @ [Generated 0 (Inr (js ''hi'')), TurnFinished 0 None 5000, Sent 0 None,
     Slept 0 5300, Arrive payload1 5350, Parsed 1 (Inr (js ''more'', [], [])) 5360, ReplyRecorded 0 None 5400]"

lemma crossing_state:
  "(case mget (sv_handlers (state_after crossing_events)) 1 of
      Some h \<Rightarrow> h_pc h = HRecordActive \<and> handler_sender h = js ''ou_1'' \<and> handler_id h = js ''om_2''
    | None \<Rightarrow> False)
   \<and> \<not> mhas (sm_map (sv_sessions (state_after crossing_events))) (js ''ou_1'')
   \<and> sv_phase (state_after crossing_events) = Running"
proof -
  have "holds_after crossing_events (\<lambda>t. (case mget (sv_handlers t) 1 of
        Some h \<Rightarrow> h_pc h = HRecordActive \<and> handler_sender h = js ''ou_1'' \<and> handler_id h = js ''om_2''
      | None \<Rightarrow> False)
     \<and> \<not> mhas (sm_map (sv_sessions t)) (js ''ou_1'')
     \<and> sv_phase t = Running)"
    by code_simp
  then show ?thesis by (rule holds_afterD)
qed

theorem append_after_clear_lost_witness:
  "\<exists>t. svc_step env0 (state_after crossing_events) (Recorded 1 (Inr None) 5500 []) = Some t
    \<and> js ''om_2'' \<in> set (processedMessages (sv_mod t)) \<and> sv_agg t = sv_agg (state_after crossing_events)
    \<and> sv_pipes t = sv_pipes (state_after crossing_events)"
proof -
  obtain h where h: "mget (sv_handlers (state_after crossing_events)) 1 = Some h" "h_pc h = HRecordActive"
      "handler_sender h = js ''ou_1''" "handler_id h = js ''om_2''"
    using crossing_state by (auto split: option.splits)
  then show ?thesis
    using append_after_clear_lost [OF h(1,2), of env0 None 5500 "[]"] crossing_state by auto
qed

text \<open>Messages still pending when the reply is complete are dropped. When the reply is recorded, the session is removed
  with whatever was appended to it since the last look; nothing is asked or sent for it.\<close>

theorem pending_dropped_on_completion:
  assumes "mget (sv_pipes s) pid = Some p" and "p_pc p = PRecord" and "sv_phase s = Running"
  shows "\<exists>t. svc_step v s (ReplyRecorded pid None now) = Some t
    \<and> \<not> mhas (sm_map (sv_sessions t)) (ag_senderId (p_agg p)) \<and> sv_out t = sv_out s \<and> sv_agg t = sv_agg s
    \<and> (\<exists>q. mget (sv_pipes t) pid = Some q \<and> p_pc q = PDone)
    \<and> history_of (ag_sessionKey (p_agg p)) (sv_mod t)
        = history_of (ag_sessionKey (p_agg p)) (sv_mod s) @ [assistant_entry (p_reply p) now]"
  using assms
  by (simp add: svc_step_def timer_event_def with_pipe_def on_recorded_reply_def complete_def senderKey_def
      history_of_addHistory)

definition pending_events :: "event list" where
  "pending_events = busy_events @ [Generated 0 (Inr (js ''hi'')), TurnFinished 0 None 5000, Sent 0 None,
     Arrive payload1 5050, Parsed 1 (Inr (js ''more'', [], [])) 5060, Recorded 1 (Inr None) 5070 [], Slept 0 5300]"

lemma pending_state:
  "(case mget (sv_pipes (state_after pending_events)) 0 of
      Some p \<Rightarrow> p_pc p = PRecord \<and> ag_senderId (p_agg p) = js ''ou_1'' | None \<Rightarrow> False)
   \<and> (case sm_get (js ''ou_1'') (sv_sessions (state_after pending_events)) of
        Some c \<Rightarrow> map it_text (s_pendingItems c) = [js ''more''] | None \<Rightarrow> False)
   \<and> sv_phase (state_after pending_events) = Running"
proof -
  have "holds_after pending_events (\<lambda>t. (case mget (sv_pipes t) 0 of
        Some p \<Rightarrow> p_pc p = PRecord \<and> ag_senderId (p_agg p) = js ''ou_1'' | None \<Rightarrow> False)
     \<and> (case sm_get (js ''ou_1'') (sv_sessions t) of
          Some c \<Rightarrow> map it_text (s_pendingItems c) = [js ''more''] | None \<Rightarrow> False)
     \<and> sv_phase t = Running)"
    by code_simp
  then show ?thesis by (rule holds_afterD)
qed

theorem pending_dropped_on_completion_witness:
  "(\<exists>c. sm_get (js ''ou_1'') (sv_sessions (state_after pending_events)) = Some c \<and> s_pendingItems c \<noteq> [])
   \<and> (\<exists>t. svc_step env0 (state_after pending_events) (ReplyRecorded 0 None 5400) = Some t
      \<and> \<not> mhas (sm_map (sv_sessions t)) (js ''ou_1'') \<and> sv_out t = sv_out (state_after pending_events))"
proof -
  obtain p where p: "mget (sv_pipes (state_after pending_events)) 0 = Some p" "p_pc p = PRecord"
      "ag_senderId (p_agg p) = js ''ou_1''"
    using pending_state by (auto split: option.splits)
  have "\<exists>c. sm_get (js ''ou_1'') (sv_sessions (state_after pending_events)) = Some c \<and> s_pendingItems c \<noteq> []"
    using pending_state by (auto split: option.splits)
  then show ?thesis
    using pending_dropped_on_completion [OF p(1,2), of env0 5400] pending_state p(3)
    unfolding p(3) by blast
qed

end
