(* ===== verification/ServiceShutdown.thy ===== *)
theory ServiceShutdown
  imports ServiceProps
begin

text \<open>
  The shutdown of the service machine.  \<open>quiet s t\<close> says that a segment neither writes the
  state files nor changes the phase, except to a hang.  After an abort with requests in
  flight the only way on is the exit of the process.
\<close>

fun is_write :: "action \<Rightarrow> bool" where
  "is_write (AWriteFiles _ _) \<longleftrightarrow> True"
| "is_write _ \<longleftrightarrow> False"

definition writes :: "action list \<Rightarrow> nat" where
  "writes out = length (filter is_write out)"

lemma writes_append [simp]: "writes (xs @ ys) = writes xs + writes ys"
  by (simp add: writes_def)

lemma writes_simps [simp]: "writes [] = 0" "writes [a] = of_bool (is_write a)"
  by (simp_all add: writes_def)

definition quiet :: "service \<Rightarrow> service \<Rightarrow> bool" where
  "quiet s t \<longleftrightarrow> sv_shutdown t = sv_shutdown s \<and> (sv_phase t = sv_phase s \<or> sv_phase t = Hung)
     \<and> writes (sv_out t) = writes (sv_out s)"

lemma quiet_simps [simp]:
  "quiet s s" "quiet s (goto pid p t) = quiet s t" "quiet s (transition k st now t) = quiet s t"
  "quiet s (leave k st now t) = quiet s t" "quiet s (fail pid p e t) = quiet s t"
  "quiet s (generate pid p pc x t) = quiet s t" "quiet s (end_handler hid i now t) = quiet s t"
  "quiet s (mark_processed i t) = quiet s t" "quiet s (t\<lparr> sv_sessions := m \<rparr>) = quiet s t"
  "quiet s (t\<lparr> sv_mod := md \<rparr>) = quiet s t" "quiet s (t\<lparr> sv_agg := a \<rparr>) = quiet s t"
  "quiet s (t\<lparr> sv_inFlight := f \<rparr>) = quiet s t" "quiet s (t\<lparr> sv_handlers := hs \<rparr>) = quiet s t"
  "\<not> is_write act \<Longrightarrow> quiet s (emit act t) = quiet s t" "\<not> is_write act \<Longrightarrow> quiet s (emit_db v act t) = quiet s t"
  "quiet s t \<Longrightarrow> quiet s (t\<lparr> sv_phase := Hung \<rparr>)"
  by (auto simp: quiet_def generate_def)

lemma quiet_next_chunk: "quiet s t \<Longrightarrow> quiet s (next_chunk v mode pid p now t)"
  by (auto simp: next_chunk_def complete_def split: send_mode.splits)

lemma quiet_send_reply: "quiet s t \<Longrightarrow> quiet s (send_reply v mode pid p now t)"
  by (auto simp: send_reply_def quiet_next_chunk split: option.splits)

lemma quiet_routed: "quiet s (on_routed v pid p res now s)"
  by (auto simp: on_routed_def Let_def split: sum.splits option.splits)

lemma quiet_validate: "quiet s (validate v pid p now s)"
  by (auto simp: validate_def Let_def send_answer_def quiet_send_reply split: option.splits)

lemma quiet_finished: "on_finished v pid p res now s = Some t \<Longrightarrow> quiet s t"
  by (auto simp: on_finished_def send_answer_def quiet_send_reply quiet_validate
      split: pipe_pc.splits option.splits)

lemma quiet_degrade: "quiet s (degrade pid p now s)"
  by (simp add: degrade_def Let_def)

lemma quiet_settle: "on_settle pid p now s = Some t \<Longrightarrow> quiet s t"
  by (auto simp: on_settle_def quiet_degrade Let_def split: pipe_pc.splits thrown.splits if_splits)

lemma quiet_start: "quiet s t \<Longrightarrow> quiet s (start_pipeline now a t)"
  by (cases "ag_items a") (auto simp: start_pipeline_def Let_def case_prod_beta quiet_def)

lemma quiet_submit: "quiet s t \<Longrightarrow> quiet s (submit_all now as t)"
  by (induction as arbitrary: t) (simp_all add: quiet_start)

lemma quiet_message: "quiet s (on_message v e now s)"
  by (simp add: quiet_def)

lemma quiet_parsed: "quiet s (on_parsed v hid h res now s)"
  by (auto simp: on_parsed_def Let_def split: sum.splits prod.splits)

lemma quiet_recorded: "on_recorded v hid h res now rid s = Some t \<Longrightarrow> quiet s t"
  by (auto simp: on_recorded_def Let_def case_prod_beta quiet_submit
      split: sum.splits handler_pc.splits if_splits)

lemmas quiet_lemmas = quiet_next_chunk quiet_send_reply quiet_routed quiet_degrade quiet_message quiet_parsed

text \<open>Stopped: the abort has been seen, and nothing but the exit (or a hang) lies ahead.\<close>

definition stopping :: "service \<Rightarrow> bool" where
  "stopping s \<longleftrightarrow> sv_shutdown s \<and> ((\<exists>d. sv_phase s = Waiting d) \<or> sv_phase s = Exited \<or> sv_phase s = Hung)"

lemma stopping_quiet: "stopping s \<Longrightarrow> quiet s t \<Longrightarrow> stopping t \<and> writes (sv_out t) = writes (sv_out s)"
  by (auto simp: stopping_def quiet_def)

lemma stopping_step:
  assumes "stopping s" "svc_step v s e = Some t"
  shows "stopping t \<and> writes (sv_out t) = writes (sv_out s)"
proof -
  have d: "dispatch v s e = Some t" "\<not> timer_event e" "sv_shutdown s" "sv_phase s \<noteq> Hung" "sv_phase s \<noteq> Exited"
    using assms by (auto simp: svc_step_def stopping_def split: if_splits)
  show ?thesis
  proof (cases "e = MainReturns")
    case True
    then show ?thesis using d by (auto simp: stopping_def)
  next
    case False
    have "quiet s t"
      using d False assms(1)
      by (cases e)
         (auto simp: timer_event_def with_pipe_def with_handler_def quiet_lemmas on_chat_def on_turn_def
           on_generated_def Let_def on_sent_def on_recorded_reply_def complete_def stopping_def
           intro: quiet_finished quiet_settle quiet_recorded
           split: option.splits if_splits sum.splits pipe_pc.splits outer_pc.splits)
    then show ?thesis using stopping_quiet assms(1) by blast
  qed
qed

lemma stopping_run:
  "stopping s \<Longrightarrow> svc_run v s es = Some t \<Longrightarrow> stopping t \<and> writes (sv_out t) = writes (sv_out s)"
proof (induction es arbitrary: s)
  case (Cons e es)
  then obtain u where u: "svc_step v s e = Some u" "svc_run v u es = Some t" by (auto split: option.splits)
  show ?case using Cons.IH [OF _ u(2)] stopping_step [OF Cons.prems(1) u(1)] by simp
qed simp

lemma submit_inFlight: "sv_inFlight s \<le> sv_inFlight (submit_all now as s)"
proof (induction as arbitrary: s)
  case (Cons a as)
  have "sv_inFlight s \<le> sv_inFlight (start_pipeline now a s)"
    by (cases "ag_items a") (auto simp: start_pipeline_def Let_def case_prod_beta)
  then show ?case using Cons [of "start_pipeline now a s"] by simp
qed simp

text \<open>C5: A shutdown with requests in flight neither waits for them nor saves. When the abort signal finds a pipeline at
  work, the thirty-second wait of \<open>close\<close> can never be resumed, because \<open>main\<close>, resolved by the
  same signal, exits first: whatever happens next, the state files are not written, the waiting
  loop is not left, and the exit of the process is enabled.\<close>

theorem shutdown_loses_requests:
  assumes "svc_step v s (Abort now) = Some t" and "0 < sv_inFlight s" and "svc_run v t es = Some u"
  shows "writes (sv_out u) = writes (sv_out s)
    \<and> ((\<exists>d. sv_phase u = Waiting d) \<or> sv_phase u = Exited \<or> sv_phase u = Hung)
    \<and> (\<forall>later. svc_step v u (Poll later) = None)
    \<and> (\<exists>w. svc_step v t MainReturns = Some w \<and> sv_phase w = Exited)"
proof -
  let ?f = "agg_flushAll (sv_agg s)"
  let ?s1 = "submit_all now (snd ?f) (s\<lparr> sv_shutdown := True, sv_agg := fst ?f \<rparr>)"
  have t: "t = ?s1\<lparr> sv_phase := (if sv_inFlight ?s1 > 0 then Waiting (now + 30000) else ClosingMcp) \<rparr>"
    using assms(1) by (simp add: svc_step_def timer_event_def on_abort_def Let_def case_prod_beta split: if_splits)
  have "sv_inFlight ?s1 > 0"
    using assms(2) submit_inFlight [of "s\<lparr> sv_shutdown := True, sv_agg := fst ?f \<rparr>" now "snd ?f"] by simp
  then have st: "stopping t" "sv_shutdown t" "sv_phase t = Waiting (now + 30000)" by (simp_all add: t stopping_def)
  have w: "writes (sv_out t) = writes (sv_out s)"
    using quiet_submit [of "s\<lparr> sv_shutdown := True, sv_agg := fst ?f \<rparr>" _ now "snd ?f"]
    by (simp add: t quiet_def)
  have u: "stopping u" "writes (sv_out u) = writes (sv_out t)" using stopping_run [OF st(1) assms(3)] by simp_all
  show ?thesis
    using u w st(2,3) by (auto simp: stopping_def svc_step_def timer_event_def)
qed

theorem shutdown_loses_requests_witness:
  "\<exists>t. svc_step env0 (state_after busy_events) (Abort 5000) = Some t
     \<and> writes (sv_out t) = writes (sv_out (state_after busy_events))
     \<and> (\<exists>w. svc_step env0 t MainReturns = Some w \<and> sv_phase w = Exited)"
proof -
  have "holds_after busy_events (\<lambda>t. 0 < sv_inFlight t \<and> \<not> sv_shutdown t \<and> sv_phase t = Running)" by code_simp
  then have b: "0 < sv_inFlight (state_after busy_events) \<and> \<not> sv_shutdown (state_after busy_events)
      \<and> sv_phase (state_after busy_events) = Running"
    by (rule holds_afterD)
  then obtain t where t: "svc_step env0 (state_after busy_events) (Abort 5000) = Some t"
    by (simp add: svc_step_def timer_event_def)
  show ?thesis using shutdown_loses_requests [OF t _ svc_run.simps(1)] b t by auto
qed

end
