(* ===== verification/McpHub.thy ===== *)
theory McpHub
  imports TextRules
begin

text \<open>
  \<open>McpHub\<close> and its helpers (\<open>src/src/feishu-service.ts\<close>): names of tools, environment
  interpolation, the choice of a transport, the bindings that \<open>initialize\<close> collects, the
  retry loop of \<open>callOpenAiTool\<close> and the text made of a tool's result.  The MCP client library is
  not under \<open>src/\<close>: what a server answers is a parameter, as are \<open>process.env\<close> and
  whether the \<open>URL\<close> constructor accepts a text.
\<close>

section \<open>Data\<close>

record mcp_server =
  ms_command :: "jsstr option"
  ms_args :: "jsstr list"
  ms_env :: "(jsstr, jsstr) jsmap"
  ms_cwd :: "jsstr option"
  ms_url :: "jsstr option"
  ms_transport :: "jsstr option"
  ms_headers :: "(jsstr, jsstr) jsmap"
  ms_toolTimeoutMs :: jsval
  ms_toolAttempts :: jsval
  ms_disabled :: bool
  ms_enabled :: "bool option"

record tool_binding =
  tb_serverName :: jsstr
  tb_toolName :: jsstr
  tb_openAiName :: jsstr
  tb_description :: jsstr
  tb_inputSchema :: jsval

record openai_tool =
  ot_name :: jsstr
  ot_description :: jsstr
  ot_parameters :: jsval

section \<open>Tool names\<close>

definition name_char :: "jschar \<Rightarrow> bool" where
  "name_char c \<longleftrightarrow> word_char c"

text \<open>\<open>replace(/[^A-Za-z0-9_-]+/g, "_")\<close>: each run of other characters becomes one underscore.\<close>

function squash_runs :: "jsstr \<Rightarrow> jsstr" where
  "squash_runs [] = []"
| "squash_runs (c # s) = (if name_char c then c # squash_runs s
     else 0x5F # squash_runs (dropWhile (\<lambda>d. \<not> name_char d) s))"
  by pat_completeness auto
termination
  by (relation "measure length") (auto simp: le_imp_less_Suc length_dropWhile_le)

definition strip_underscores :: "jsstr \<Rightarrow> jsstr" where
  "strip_underscores s = rev (dropWhile (\<lambda>c. c = 0x5F) (rev (dropWhile (\<lambda>c. c = 0x5F) s)))"

definition sanitizeToolName :: "jsstr \<Rightarrow> jsstr" where
  "sanitizeToolName v = (let trimmed = take 64 (strip_underscores (squash_runs v))
     in if trimmed \<noteq> [] then trimmed else js ''tool'')"

definition name_candidate :: "jsstr \<Rightarrow> nat \<Rightarrow> jsstr" where
  "name_candidate base index = take 56 base @ 0x5F # nat_str index"

lemma nat_str_inj: "nat_str a = nat_str b \<Longrightarrow> a = b"
  using nat_str_digits by metis

lemma name_candidate_inj: "name_candidate base i = name_candidate base j \<Longrightarrow> i = j"
  by (simp add: name_candidate_def nat_str_inj)

lemma finite_taken: "finite {i. index \<le> i \<and> mhas bindings (name_candidate base i)}"
proof -
  have "inj_on (name_candidate base) {i. index \<le> i \<and> mhas bindings (name_candidate base i)}"
    by (auto intro: inj_onI name_candidate_inj)
  moreover have "name_candidate base ` {i. index \<le> i \<and> mhas bindings (name_candidate base i)}
      \<subseteq> set (mkeys bindings)"
    by (auto simp: mhas_def)
  ultimately show ?thesis using finite_imageD finite_subset by (metis (no_types, lifting) List.finite_set)
qed

text \<open>The loop of \<open>uniqueToolName\<close>; it ends because a taken candidate uses up one binding.\<close>

function unique_from :: "(jsstr, 'b) jsmap \<Rightarrow> jsstr \<Rightarrow> jsstr \<Rightarrow> nat \<Rightarrow> jsstr" where
  "unique_from bindings base candidate index =
    (if mhas bindings candidate
     then unique_from bindings base (name_candidate base index) (Suc index) else candidate)"
  by pat_completeness auto
termination
proof (relation "measure (\<lambda>(bindings, base, candidate, index).
    card {i. index \<le> i \<and> mhas bindings (name_candidate base i)}
    + (if mhas bindings candidate then 1 else 0))")
  fix bindings :: "(jsstr, 'b) jsmap" and base candidate index
  assume c: "mhas bindings candidate"
  let ?T = "\<lambda>n. {i. n \<le> i \<and> mhas bindings (name_candidate base i)}"
  have split: "?T index = (if mhas bindings (name_candidate base index) then {index} else {}) \<union> ?T (Suc index)"
    using Suc_le_eq le_neq_implies_less by (auto simp: Suc_le_eq) (metis le_neq_implies_less)
  have "index \<notin> ?T (Suc index)" by simp
  then have "card (?T index) = (if mhas bindings (name_candidate base index) then 1 else 0) + card (?T (Suc index))"
    unfolding split using finite_taken [of "Suc index" bindings base] by simp
  then show "((bindings, base, name_candidate base index, Suc index), bindings, base, candidate, index)
      \<in> measure (\<lambda>(bindings, base, candidate, index).
          card {i. index \<le> i \<and> mhas bindings (name_candidate base i)}
          + (if mhas bindings candidate then 1 else 0))"
    using c by simp
qed simp

declare unique_from.simps [simp del]

definition uniqueToolName :: "(jsstr, 'b) jsmap \<Rightarrow> jsstr \<Rightarrow> jsstr \<Rightarrow> jsstr" where
  "uniqueToolName bindings serverName toolName =
    (let base = sanitizeToolName (serverName @ js ''__'' @ toolName) in unique_from bindings base base 2)"

section \<open>Interpolation and transports\<close>

definition ident_char :: "jschar \<Rightarrow> bool" where
  "ident_char c \<longleftrightarrow> word_char c \<and> c \<noteq> 0x2D"

definition name_start :: "jschar \<Rightarrow> bool" where
  "name_start c \<longleftrightarrow> ident_char c \<and> \<not> is_digit c"

text \<open>\<open>{NAME}\<close> at the head of a text: the name and what follows.\<close>

definition braced :: "jsstr \<Rightarrow> (jsstr \<times> jsstr) option" where
  "braced s = (case s of
     [] \<Rightarrow> None
   | c # r \<Rightarrow>
      (let name = takeWhile ident_char r; rest = dropWhile ident_char r
       in if c = 0x7B \<and> name \<noteq> [] \<and> name_start (hd name) \<and> rest \<noteq> [] \<and> hd rest = 0x7D
          then Some (name, tl rest) else None))"

text \<open>\<open>/\$\$?\{([A-Za-z_][A-Za-z0-9_]*)\}/\<close> at the head of a text.\<close>

definition match_var :: "jsstr \<Rightarrow> (jsstr \<times> jsstr) option" where
  "match_var s = (case s of
     [] \<Rightarrow> None
   | c # r \<Rightarrow> if c \<noteq> 0x24 then None
       else if r \<noteq> [] \<and> hd r = 0x24 \<and> braced (tl r) \<noteq> None then braced (tl r) else braced r)"

lemma braced_length: "braced s = Some (n, r) \<Longrightarrow> length r < length s"
  using length_dropWhile_le [of ident_char "tl s"]
  by (cases s; cases "dropWhile ident_char (tl s)") (auto simp: braced_def Let_def split: if_splits)

lemma match_var_length: "match_var s = Some (n, r) \<Longrightarrow> length r < length s"
  by (cases s; cases "tl s") (auto simp: match_var_def split: if_splits dest!: braced_length)

function interpolateString :: "jsstr \<Rightarrow> (jsstr, jsstr) jsmap \<Rightarrow> jsstr" where
  "interpolateString [] env = []"
| "interpolateString (c # s) env = (case match_var (c # s) of
     Some (name, rest) \<Rightarrow> default [] (mget env name) @ interpolateString rest env
   | None \<Rightarrow> c # interpolateString s env)"
  by pat_completeness auto
termination
  by (relation "measure (length \<circ> fst)") (auto dest: match_var_length)

text \<open>\<open>{ ...a, ...b }\<close> on string maps.\<close>

definition merge_env :: "(jsstr, jsstr) jsmap \<Rightarrow> (jsstr, jsstr) jsmap \<Rightarrow> (jsstr, jsstr) jsmap" where
  "merge_env a b = fold (\<lambda>(k, v) m. mput m k v) b a"

definition interpolateStringRecord ::
  "(jsstr, jsstr) jsmap \<Rightarrow> (jsstr, jsstr) jsmap \<Rightarrow> (jsstr, jsstr) jsmap \<Rightarrow> (jsstr, jsstr) jsmap" where
  "interpolateStringRecord processEnv record env =
     map (\<lambda>(k, v). (k, interpolateString v (merge_env processEnv env))) record"

datatype transport =
    SseTransport jsstr "(jsstr, jsstr) jsmap option"
  | HttpTransport jsstr "(jsstr, jsstr) jsmap option"
  | StdioTransport jsstr "jsstr list" "(jsstr, jsstr) jsmap" "jsstr option"

datatype transport_result = NoTransport | InvalidUrl | Transport transport

definition createMcpTransport :: "(jsstr, jsstr) jsmap \<Rightarrow> (jsstr \<Rightarrow> bool) \<Rightarrow> mcp_server \<Rightarrow> transport_result" where
  "createMcpTransport processEnv validUrl cfg =
    (case first_nonempty [ms_url cfg] of
       Some url \<Rightarrow>
         (let headers = interpolateStringRecord processEnv (ms_headers cfg) (ms_env cfg);
              requestInit = (if headers \<noteq> [] then Some headers else None);
              kind = toLowerCase (default [] (ms_transport cfg))
          in if \<not> validUrl url then InvalidUrl
             else if kind = js ''sse'' \<or> str_includes url (js ''/sse'')
             then Transport (SseTransport url requestInit)
             else Transport (HttpTransport url requestInit))
     | None \<Rightarrow>
         (case readString (case ms_command cfg of Some c \<Rightarrow> VStr c | None \<Rightarrow> VUndef) of
            None \<Rightarrow> NoTransport
          | Some command \<Rightarrow>
              (let env = merge_env processEnv (interpolateStringRecord processEnv (ms_env cfg) (ms_env cfg));
                   args = map (\<lambda>a. interpolateString a env) (ms_args cfg)
               in Transport (StdioTransport command args env (ms_cwd cfg)))))"

section \<open>Initialisation\<close>

record listed_tool =
  lt_name :: jsstr
  lt_description :: "jsstr option"
  lt_inputSchema :: jsval

text \<open>What connecting to a server and listing its tools comes to.\<close>

datatype server_answer = ConnectFails | ListFails | Lists "listed_tool list"

record hub =
  hub_clients :: "(jsstr, mcp_server) jsmap"
  hub_bindings :: "(jsstr, tool_binding) jsmap"

definition bind_tool :: "jsstr \<Rightarrow> listed_tool \<Rightarrow> (jsstr, tool_binding) jsmap \<Rightarrow> (jsstr, tool_binding) jsmap" where
  "bind_tool serverName tool bindings =
    (let openAiName = uniqueToolName bindings serverName (lt_name tool)
     in mput bindings openAiName
          \<lparr> tb_serverName = serverName, tb_toolName = lt_name tool, tb_openAiName = openAiName,
            tb_description = [0x5B] @ serverName @ [0x5D, 0x20]
              @ default (lt_name tool) (first_nonempty [lt_description tool]),
            tb_inputSchema = (if isRecord (lt_inputSchema tool) then lt_inputSchema tool
              else VObj [(js ''type'', VStr (js ''object'')), (js ''properties'', VObj [])]) \<rparr>)"

definition init_server :: "(jsstr, jsstr) jsmap \<Rightarrow> (jsstr \<Rightarrow> bool) \<Rightarrow> (jsstr \<Rightarrow> server_answer) \<Rightarrow> jsstr
    \<Rightarrow> mcp_server \<Rightarrow> hub \<Rightarrow> hub" where
  "init_server processEnv validUrl answer serverName cfg h =
    (if ms_disabled cfg \<or> ms_enabled cfg = Some False then h
     else (case createMcpTransport processEnv validUrl cfg of
         NoTransport \<Rightarrow> h
       | InvalidUrl \<Rightarrow> h
       | Transport t \<Rightarrow>
          (case answer serverName of
             ConnectFails \<Rightarrow> h
           | ListFails \<Rightarrow> h\<lparr> hub_clients := mput (hub_clients h) serverName cfg \<rparr>
           | Lists tools \<Rightarrow> h\<lparr> hub_clients := mput (hub_clients h) serverName cfg,
               hub_bindings := fold (bind_tool serverName) tools (hub_bindings h) \<rparr>)))"

definition mcp_initialize :: "(jsstr, jsstr) jsmap \<Rightarrow> (jsstr \<Rightarrow> bool) \<Rightarrow> (jsstr \<Rightarrow> server_answer)
    \<Rightarrow> (jsstr, mcp_server) jsmap \<Rightarrow> hub" where
  "mcp_initialize processEnv validUrl answer servers =
     fold (\<lambda>(name, cfg). init_server processEnv validUrl answer name cfg) servers
       \<lparr> hub_clients = [], hub_bindings = [] \<rparr>"

definition openAiTools :: "hub \<Rightarrow> openai_tool list" where
  "openAiTools h = map (\<lambda>(k, b). \<lparr> ot_name = tb_openAiName b, ot_description = tb_description b,
     ot_parameters = tb_inputSchema b \<rparr>) (hub_bindings h)"

section \<open>Calling a tool\<close>

definition stringify :: "jsval \<Rightarrow> jsstr" where
  "stringify v = default (js ''undefined'') (json_stringify [] v)"

definition content_part :: "jsval \<Rightarrow> jsstr option" where
  "content_part it =
    (if \<not> isRecord it then None
     else if field it ''type'' = VStr (js ''text'') \<and> as_string (field it ''text'') \<noteq> None
     then as_string (field it ''text'')
     else if field it ''type'' = VStr (js ''resource'') \<and> isRecord (field it ''resource'')
     then (case field (field it ''resource'') ''text'' of
             VStr t \<Rightarrow> Some t | _ \<Rightarrow> Some (stringify (field it ''resource'')))
     else Some (stringify it))"

definition formatMcpToolResult :: "jsval \<Rightarrow> jsstr" where
  "formatMcpToolResult result =
    (if \<not> isRecord result then (case result of VStr s \<Rightarrow> s | _ \<Rightarrow> stringify result)
     else (let parts = somes (map content_part (as_list (field result ''content'')))
               @ (if isRecord (field result ''structuredContent'')
                  then [default [] (json_stringify (js ''  '') (field result ''structuredContent''))] else []);
               txt = trim (join [0x0A, 0x0A] parts)
           in if txt \<noteq> [] then txt else stringify result))"

record tool_record =
  tr_server :: jsstr
  tr_tool :: jsstr
  tr_openAiName :: jsstr
  tr_success :: bool
  tr_attempts :: nat
  tr_timeoutMs :: int

definition MCP_TOOL_TIMEOUT_MS :: int where "MCP_TOOL_TIMEOUT_MS = 120000"
definition MCP_TOOL_MAX_ATTEMPTS :: int where "MCP_TOOL_MAX_ATTEMPTS = 4"
definition MCP_TOOL_RETRY_BASE_DELAY_MS :: nat where "MCP_TOOL_RETRY_BASE_DELAY_MS = 750"

text \<open>
  The retry loop.  \<open>call a\<close> is the outcome of attempt \<open>a\<close>, an error message or a result;
  the outcome of the loop is the result with the attempts used, or the last error; the second
  component lists the delays slept.
\<close>

function tool_attempts :: "(nat \<Rightarrow> jsstr + jsval) \<Rightarrow> nat \<Rightarrow> nat \<Rightarrow> jsstr \<Rightarrow> nat
    \<Rightarrow> ((jsstr \<times> nat) + (jsval \<times> nat)) \<times> nat list" where
  "tool_attempts call maxAttempts attempt lastError used =
    (if attempt > maxAttempts then (Inl (lastError, used), [])
     else (case call attempt of
         Inr result \<Rightarrow> (Inr (result, attempt), [])
       | Inl err \<Rightarrow>
          if attempt \<ge> maxAttempts then (Inl (err, attempt), [])
          else (let (r, delays) = tool_attempts call maxAttempts (Suc attempt) err attempt
                in (r, min (MCP_TOOL_RETRY_BASE_DELAY_MS * attempt) 3000 # delays))))"
  by pat_completeness auto
termination
  by (relation "measure (\<lambda>(call, m, a, e, u). Suc m - a)") auto

declare tool_attempts.simps [simp del]

text \<open>\<open>redactError\<close> of \<open>undefined\<close>, when no attempt was made.\<close>

definition callOpenAiTool :: "hub \<Rightarrow> (nat \<Rightarrow> jsstr + jsval) \<Rightarrow> jsstr \<Rightarrow> jsstr \<times> tool_record option \<times> nat list" where
  "callOpenAiTool h call openAiName =
    (case mget (hub_bindings h) openAiName of
       None \<Rightarrow> (js ''Tool '' @ openAiName @ js '' is not available.'', None, [])
     | Some b \<Rightarrow>
        (case mget (hub_clients h) (tb_serverName b) of
           None \<Rightarrow> (js ''MCP server '' @ tb_serverName b @ js '' is not connected.'', None, [])
         | Some entry \<Rightarrow>
            (let timeoutMs = default MCP_TOOL_TIMEOUT_MS (readPositiveInteger (ms_toolTimeoutMs entry));
                 maxAttempts = nat (default MCP_TOOL_MAX_ATTEMPTS (readPositiveInteger (ms_toolAttempts entry)));
                 record = (\<lambda>ok used. \<lparr> tr_server = tb_serverName b, tr_tool = tb_toolName b,
                    tr_openAiName = openAiName, tr_success = ok, tr_attempts = used, tr_timeoutMs = timeoutMs \<rparr>);
                 (r, delays) = tool_attempts call maxAttempts 1 (js ''undefined'') 0
             in case r of
                  Inr (result, used) \<Rightarrow> (formatMcpToolResult result, Some (record True used), delays)
                | Inl (err, used) \<Rightarrow>
                    (js ''MCP tool '' @ openAiName @ js '' failed after '' @ nat_str maxAttempts
                       @ js '' attempt(s): '' @ redactError err,
                     Some (record False (if used \<noteq> 0 then used else maxAttempts)), delays))))"

section \<open>Lemmas\<close>

lemma name_char_simps [simp]: "name_char 0x5F" "name_char 0x2D"
  by (simp_all add: name_char_def word_char_def)

lemma set_squash: "c \<in> set (squash_runs s) \<Longrightarrow> name_char c"
  by (induction s rule: squash_runs.induct) (auto split: if_splits)

lemma set_strip: "set (strip_underscores s) \<subseteq> set s"
  unfolding strip_underscores_def by (auto dest!: set_dropWhileD)

lemma sanitize_chars: "c \<in> set (sanitizeToolName v) \<Longrightarrow> name_char c"
proof -
  assume c: "c \<in> set (sanitizeToolName v)"
  have "name_char d" if "d \<in> set (js ''tool'')" for d
    using that by (auto simp: js_def name_char_def word_char_def)
  moreover have "name_char d" if "d \<in> set (take 64 (strip_underscores (squash_runs v)))" for d
    using in_set_takeD [OF that] set_strip [of "squash_runs v"] set_squash [of d v] by blast
  ultimately show ?thesis using c by (auto simp: sanitizeToolName_def Let_def split: if_splits)
qed

lemma sanitize_length: "sanitizeToolName v \<noteq> [] \<and> length (sanitizeToolName v) \<le> 64"
  by (simp add: sanitizeToolName_def Let_def js_def)

lemma unique_from_free: "\<not> mhas bindings (unique_from bindings base candidate index)"
proof (induction bindings base candidate index rule: unique_from.induct)
  case (1 bindings base candidate index)
  then show ?case by (cases "mhas bindings candidate") (simp_all add: unique_from.simps [of bindings base candidate])
qed

lemma nat_str_name: "c \<in> set (nat_str n) \<Longrightarrow> name_char c"
proof -
  assume "c \<in> set (nat_str n)"
  then have "is_digit c" using nat_str_digits [of n] by (auto simp: list_all_iff)
  then show "name_char c" by (auto simp: is_digit_def name_char_def word_char_def)
qed

lemma unique_from_shape:
  "unique_from bindings base candidate index = candidate
   \<or> (\<exists>i. index \<le> i \<and> unique_from bindings base candidate index = name_candidate base i
        \<and> (\<forall>j. index \<le> j \<longrightarrow> j < i \<longrightarrow> mhas bindings (name_candidate base j)))"
proof (induction bindings base candidate index rule: unique_from.induct)
  case (1 bindings base candidate index)
  show ?case
  proof (cases "mhas bindings candidate")
    case True
    let ?u = "unique_from bindings base (name_candidate base index) (Suc index)"
    have u: "unique_from bindings base candidate index = ?u" using True by (subst unique_from.simps) simp
    from 1 [OF True] consider "?u = name_candidate base index"
      | i where "Suc index \<le> i" "?u = name_candidate base i"
          "\<forall>j. Suc index \<le> j \<longrightarrow> j < i \<longrightarrow> mhas bindings (name_candidate base j)" by blast
    then show ?thesis
    proof cases
      case 1
      then show ?thesis unfolding u by (intro disjI2 exI [of _ index]) auto
    next
      case 2
      have "mhas bindings (name_candidate base index)"
      proof (rule ccontr)
        assume "\<not> ?thesis"
        then have "?u = name_candidate base index" by (subst unique_from.simps) simp
        then show False using 2 name_candidate_inj by fastforce
      qed
      then have "mhas bindings (name_candidate base j)" if "index \<le> j" "j < i" for j
        using 2(3) that by (cases "j = index") auto
      then show ?thesis unfolding u using 2 by (intro disjI2 exI [of _ i]) auto
    qed
  next
    case False
    then show ?thesis by (subst unique_from.simps) simp
  qed
qed

text \<open>The index stays below the number of bindings plus two.\<close>

lemma taken_bound:
  assumes "\<forall>j. 2 \<le> j \<longrightarrow> j < i \<longrightarrow> mhas bindings (name_candidate base j)"
  shows "i \<le> length bindings + 2"
proof -
  have "name_candidate base ` {2..<i} \<subseteq> set (mkeys bindings)" using assms by (auto simp: mhas_def)
  then have "card (name_candidate base ` {2..<i}) \<le> card (set (mkeys bindings))" by (rule card_mono [rotated]) simp
  also have "\<dots> \<le> length bindings" using card_length [of "mkeys bindings"] by simp
  finally show ?thesis
    using card_image [of "name_candidate base" "{2..<i}"] by (simp add: inj_on_def name_candidate_inj)
qed

section \<open>Properties\<close>

text \<open>Tool names are fresh and legal. The name given to a tool is not yet bound, and with fewer than
  9,999,998 bindings it has between 1 and 64 characters, all letters, digits, underscores or hyphens, as
  the chat API requires; the search for it ends (it is a total function).\<close>

theorem unique_tool_name:
  assumes "length bindings < 9999998"
  shows "let n = uniqueToolName bindings serverName toolName in
    \<not> mhas bindings n \<and> 1 \<le> length n \<and> length n \<le> 64 \<and> list_all name_char n"
proof -
  let ?base = "sanitizeToolName (serverName @ js ''__'' @ toolName)"
  let ?n = "uniqueToolName bindings serverName toolName"
  have n: "?n = unique_from bindings ?base ?base 2" by (simp add: uniqueToolName_def Let_def)
  have base: "list_all name_char ?base" using sanitize_chars by (auto simp: list_all_iff)
  from unique_from_shape [of bindings ?base ?base 2] consider "?n = ?base"
    | i where "?n = name_candidate ?base i" "\<forall>j. 2 \<le> j \<longrightarrow> j < i \<longrightarrow> mhas bindings (name_candidate ?base j)"
    unfolding n by blast
  then have "1 \<le> length ?n \<and> length ?n \<le> 64 \<and> list_all name_char ?n"
  proof cases
    case 1
    then show ?thesis using base sanitize_length [of "serverName @ js ''__'' @ toolName"]
      by (cases ?base) auto
  next
    case 2
    have "i < 10 ^ 7" using taken_bound [OF 2(2)] assms by simp
    then have "length (nat_str i) \<le> 7" using nat_str_length [of i 7] by simp
    moreover have "list_all name_char (nat_str i)" using nat_str_name by (simp add: list_all_iff)
    moreover have "list_all name_char (take 56 ?base)" using base by (auto simp: list_all_iff dest: in_set_takeD)
    ultimately show ?thesis using 2(1) by (auto simp: name_candidate_def)
  qed
  then show ?thesis using unique_from_free n by (metis (no_types, lifting))
qed

theorem unique_tool_name_witness:
  "length (uniqueToolName [(js ''a__b'', ())] (js ''a'') (js ''b'')) \<le> 64
   \<and> \<not> mhas [(js ''a__b'', ())] (uniqueToolName [(js ''a__b'', ())] (js ''a'') (js ''b''))"
  using unique_tool_name [of "[(js ''a__b'', ())]" "js ''a''" "js ''b''"] by (simp add: Let_def)

text \<open>What \<open>initialize\<close> keeps: names are keys, and the server of every bound tool is connected.\<close>

definition hub_ok :: "hub \<Rightarrow> bool" where
  "hub_ok h \<longleftrightarrow> distinct (mkeys (hub_bindings h))
     \<and> list_all (\<lambda>(k, b). k = tb_openAiName b \<and> mhas (hub_clients h) (tb_serverName b)) (hub_bindings h)"

lemma bind_tool_append:
  "bind_tool sn tool bs = bs @ [(uniqueToolName bs sn (lt_name tool),
     snd (last (bind_tool sn tool bs)))]"
proof -
  have "\<not> mhas bs (uniqueToolName bs sn (lt_name tool))"
    by (simp add: uniqueToolName_def Let_def unique_from_free)
  then show ?thesis by (simp add: bind_tool_def Let_def mput_absent)
qed

lemma bind_tool_length: "length (bind_tool sn tool bs) = Suc (length bs)"
  by (subst bind_tool_append) simp

lemma bind_tool_ok:
  assumes "hub_ok \<lparr> hub_clients = cl, hub_bindings = bs \<rparr>" "mhas cl sn"
  shows "hub_ok \<lparr> hub_clients = cl, hub_bindings = bind_tool sn tool bs \<rparr>"
proof -
  have "\<not> mhas bs (uniqueToolName bs sn (lt_name tool))"
    by (simp add: uniqueToolName_def Let_def unique_from_free)
  then show ?thesis using assms by (simp add: hub_ok_def bind_tool_def Let_def mput_absent mhas_def)
qed

lemma bind_tools_ok:
  "hub_ok \<lparr> hub_clients = cl, hub_bindings = bs \<rparr> \<Longrightarrow> mhas cl sn \<Longrightarrow>
   hub_ok \<lparr> hub_clients = cl, hub_bindings = fold (bind_tool sn) tools bs \<rparr>
   \<and> length (fold (bind_tool sn) tools bs) = length bs + length tools"
  by (induction tools arbitrary: bs) (simp_all add: bind_tool_ok bind_tool_length)

lemma hub_ok_connect:
  "hub_ok h \<Longrightarrow> hub_ok \<lparr> hub_clients = mput (hub_clients h) sn cfg, hub_bindings = hub_bindings h \<rparr>"
  by (auto simp: hub_ok_def list_all_iff)

definition tools_of :: "(jsstr, jsstr) jsmap \<Rightarrow> (jsstr \<Rightarrow> bool) \<Rightarrow> (jsstr \<Rightarrow> server_answer) \<Rightarrow> jsstr \<times> mcp_server
    \<Rightarrow> listed_tool list" where
  "tools_of processEnv validUrl answer = (\<lambda>(name, cfg).
     if ms_disabled cfg \<or> ms_enabled cfg = Some False then []
     else (case (createMcpTransport processEnv validUrl cfg, answer name) of
       (Transport _, Lists tools) \<Rightarrow> tools | _ \<Rightarrow> []))"

lemma init_server_ok:
  assumes "hub_ok h"
  shows "hub_ok (init_server pe vu answer name cfg h)
    \<and> length (hub_bindings (init_server pe vu answer name cfg h))
        = length (hub_bindings h) + length (tools_of pe vu answer (name, cfg))"
  using assms hub_ok_connect [OF assms, of name cfg]
    bind_tools_ok [OF hub_ok_connect [OF assms, of name cfg], of name]
  by (cases h) (auto simp: init_server_def tools_of_def split: transport_result.splits server_answer.splits)

lemma init_all_ok:
  "hub_ok h \<Longrightarrow>
   hub_ok (fold (\<lambda>(name, cfg). init_server pe vu answer name cfg) servers h)
   \<and> length (hub_bindings (fold (\<lambda>(name, cfg). init_server pe vu answer name cfg) servers h))
       = length (hub_bindings h) + length (concat (map (tools_of pe vu answer) servers))"
proof (induction servers arbitrary: h)
  case (Cons s servers)
  obtain name cfg where s: "s = (name, cfg)" by (cases s)
  show ?case
    using Cons.IH [of "init_server pe vu answer name cfg h"] init_server_ok [OF Cons.prems, of pe vu answer name cfg]
    by (simp add: s)
qed simp

text \<open>Initialisation keeps every tool. Whatever the servers answer, each listed tool of each reachable enabled
  server gets a binding of its own (none is overwritten), the bindings are filed under their distinct
  names, and the server of every bound tool is connected, so that no offered tool is reported as not connected.\<close>

theorem mcp_initialize_sound:
  "let h = mcp_initialize processEnv validUrl answer servers in
     length (openAiTools h) = length (concat (map (tools_of processEnv validUrl answer) servers))
     \<and> distinct (map ot_name (openAiTools h))
     \<and> (mget (hub_bindings h) n = Some b \<longrightarrow> n = tb_openAiName b \<and> mget (hub_clients h) (tb_serverName b) \<noteq> None)"
proof -
  let ?h = "mcp_initialize processEnv validUrl answer servers"
  have ok: "hub_ok ?h" and len: "length (hub_bindings ?h) = length (concat (map (tools_of processEnv validUrl answer) servers))"
    using init_all_ok [of "\<lparr> hub_clients = [], hub_bindings = [] \<rparr>" processEnv validUrl answer servers]
    by (simp_all add: mcp_initialize_def hub_ok_def)
  have "map ot_name (openAiTools ?h) = mkeys (hub_bindings ?h)"
    using ok by (auto simp: openAiTools_def hub_ok_def list_all_iff)
  then have "distinct (map ot_name (openAiTools ?h))" using ok by (simp add: hub_ok_def)
  moreover have "length (openAiTools ?h) = length (hub_bindings ?h)" by (simp add: openAiTools_def)
  moreover have "mget (hub_bindings ?h) n = Some b \<longrightarrow> n = tb_openAiName b
      \<and> mget (hub_clients ?h) (tb_serverName b) \<noteq> None"
    using ok by (auto simp: hub_ok_def list_all_iff mhas_mget dest!: mget_in_set)
  ultimately show ?thesis using len by (simp add: Let_def)
qed

theorem mcp_initialize_sound_witness:
  "let h = mcp_initialize [] (\<lambda>u. True) (\<lambda>n. Lists [\<lparr> lt_name = js ''t'', lt_description = None, lt_inputSchema = VUndef \<rparr>])
       [(js ''s'', \<lparr> ms_command = None, ms_args = [], ms_env = [], ms_cwd = None, ms_url = Some (js ''http://h''),
          ms_transport = None, ms_headers = [], ms_toolTimeoutMs = VUndef, ms_toolAttempts = VUndef,
          ms_disabled = False, ms_enabled = None \<rparr>)]
   in length (openAiTools h) = 1"
  using mcp_initialize_sound [of "[]" "\<lambda>u. True"
      "\<lambda>n. Lists [\<lparr> lt_name = js ''t'', lt_description = None, lt_inputSchema = VUndef \<rparr>]"
      "[(js ''s'', \<lparr> ms_command = None, ms_args = [], ms_env = [], ms_cwd = None, ms_url = Some (js ''http://h''),
          ms_transport = None, ms_headers = [], ms_toolTimeoutMs = VUndef, ms_toolAttempts = VUndef,
          ms_disabled = False, ms_enabled = None \<rparr>)]"]
  by (simp add: Let_def tools_of_def createMcpTransport_def js_def)

text \<open>The reference for the retry loop: the first successful attempt, and the delays before it.\<close>

definition retry_delays :: "nat \<Rightarrow> nat list" where
  "retry_delays n = map (\<lambda>i. min (750 * i) 3000) [1..<n]"

lemma retry_from:
  assumes "1 \<le> a" "a \<le> m"
  shows "tool_attempts call m a e u =
    (case find (\<lambda>i. \<not> isl (call i)) [a..<Suc m] of
       Some i \<Rightarrow> (Inr (projr (call i), i), map (\<lambda>i. min (750 * i) 3000) [a..<i])
     | None \<Rightarrow> (Inl (projl (call m), m), map (\<lambda>i. min (750 * i) 3000) [a..<m]))"
  using assms
proof (induction call m a e u rule: tool_attempts.induct)
  case (1 call m a e u)
  have cons: "[a..<Suc m] = a # [Suc a..<Suc m]" using 1(3) by (simp add: upt_rec)
  show ?case
  proof (cases "call a")
    case (Inr r)
    then show ?thesis using 1(3) by (subst tool_attempts.simps) (simp add: cons del: upt_Suc)
  next
    case (Inl err)
    show ?thesis
    proof (cases "m \<le> a")
      case True
      then have "a = m" using 1(3) by simp
      then show ?thesis using Inl by (subst tool_attempts.simps) simp
    next
      case False
      have ih: "tool_attempts call m (Suc a) err a =
        (case find (\<lambda>i. \<not> isl (call i)) [Suc a..<Suc m] of
           Some i \<Rightarrow> (Inr (projr (call i), i), map (\<lambda>i. min (750 * i) 3000) [Suc a..<i])
         | None \<Rightarrow> (Inl (projl (call m), m), map (\<lambda>i. min (750 * i) 3000) [Suc a..<m]))"
        using 1(1) [OF _ Inl] False by simp
      have ups: "[a..<i] = a # [Suc a..<i]" if "a < i" for i using that by (simp add: upt_rec)
      have in_range: "a < i" if "find (\<lambda>i. \<not> isl (call i)) [Suc a..<Suc m] = Some i" for i
      proof -
        have "i \<in> set [Suc a..<Suc m]" using that by (metis find_Some_iff nth_mem)
        then show ?thesis by auto
      qed
      show ?thesis
        using False Inl ih ups in_range
        by (subst tool_attempts.simps)
           (auto simp: cons MCP_TOOL_RETRY_BASE_DELAY_MS_def split: option.splits simp del: upt_Suc)
    qed
  qed
qed

text \<open>The retry loop of a tool call. It returns the first success among the attempts 1 to \<open>maxAttempts\<close> with the number of
  attempts used, and otherwise the error of the last one; between attempts it sleeps 750, 1500, 2250 and then 3000
  milliseconds. With zero attempts, which a fractional \<open>toolAttempts\<close> below one gives, nothing is called.\<close>

theorem tool_retry:
  "tool_attempts call m 1 e 0 =
    (case find (\<lambda>i. \<not> isl (call i)) [1..<Suc m] of
       Some i \<Rightarrow> (Inr (projr (call i), i), retry_delays i)
     | None \<Rightarrow> (Inl (if m = 0 then e else projl (call m), m), retry_delays m))
   \<and> list_all (\<lambda>d. d \<le> 3000) (snd (tool_attempts call m 1 e 0))"
proof -
  have eq: "tool_attempts call m 1 e 0 =
    (case find (\<lambda>i. \<not> isl (call i)) [1..<Suc m] of
       Some i \<Rightarrow> (Inr (projr (call i), i), retry_delays i)
     | None \<Rightarrow> (Inl (if m = 0 then e else projl (call m), m), retry_delays m))"
  proof (cases m)
    case 0
    then show ?thesis by (subst tool_attempts.simps) (simp add: retry_delays_def)
  next
    case (Suc k)
    then have "(1 :: nat) \<le> m" by simp
    then show ?thesis using retry_from [of 1 m call e 0] by (simp add: retry_delays_def del: upt_Suc split: option.splits)
  qed
  then show ?thesis by (simp add: retry_delays_def list_all_iff del: upt_Suc split: option.splits)
qed

text \<open>Interpolation of \<open>${NAME}\<close>. A reference, with one or two dollar signs, is replaced by the variable's
  value or by nothing when it is unset; the text before it, free of dollar signs, stays, and
  the rest is treated alike; a text with no dollar sign is unchanged.\<close>

theorem interpolation_expands:
  assumes "0x24 \<notin> set pre" and "name \<noteq> []" and "name_start (hd name)" and "list_all ident_char name"
  shows "interpolateString (pre @ [0x24, 0x7B] @ name @ 0x7D # post) env
      = pre @ default [] (mget env name) @ interpolateString post env
    \<and> interpolateString (pre @ [0x24, 0x24, 0x7B] @ name @ 0x7D # post) env
      = pre @ default [] (mget env name) @ interpolateString post env
    \<and> interpolateString pre env = pre"
proof -
  have skip: "interpolateString (pre @ s) env = pre @ interpolateString s env" for s
    using assms(1) by (induction pre) (auto simp: match_var_def)
  have "\<not> ident_char 0x7D" by (simp add: ident_char_def word_char_def is_digit_def)
  then have tw: "takeWhile ident_char (name @ 0x7D # post) = name" "dropWhile ident_char (name @ 0x7D # post) = 0x7D # post"
    using assms(4) by (simp_all add: takeWhile_append2 dropWhile_append2 list_all_iff)
  have b: "braced (0x7B # name @ 0x7D # post) = Some (name, post)"
    unfolding braced_def list.case tw Let_def using assms(2,3) by simp
  have b2: "braced (0x24 # s) = None" for s by (simp add: braced_def Let_def)
  have "match_var ([0x24, 0x7B] @ name @ 0x7D # post) = Some (name, post)"
    "match_var ([0x24, 0x24, 0x7B] @ name @ 0x7D # post) = Some (name, post)"
    using b b2 by (simp_all add: match_var_def)
  then show ?thesis using skip [of "[0x24, 0x7B] @ name @ 0x7D # post"]
      skip [of "[0x24, 0x24, 0x7B] @ name @ 0x7D # post"] skip [of "[]"] by simp
qed

theorem interpolation_expands_witness:
  "interpolateString (js ''Bearer ${KEY}'') [(js ''KEY'', js ''abc'')] = js ''Bearer abc''"
  using interpolation_expands [of "js ''Bearer ''" "js ''KEY''" "[]" "[(js ''KEY'', js ''abc'')]"]
  by (simp add: js_def name_start_def ident_char_def word_char_def is_digit_def default_def mget_def)

end
