(* ===== verification/ReplyLoop.thy ===== *)
theory ReplyLoop
  imports Service McpHub
begin

text \<open>
  The model calls of \<open>src/src/feishu-service.ts\<close>: the request and the answer of \<open>callZaiChat\<close>, the
  classifier \<open>agentD\<close>, the chat agent \<open>agentA\<close>, the tool loop of \<open>generateReply\<close>, and the two
  ways \<open>sendFeishuReply\<close> delivers a message.  The chat API, the MCP tools and the Feishu client are
  outside: an HTTP answer, a tool's text or an API response is a parameter.  The formatted
  date of the prompts (\<open>Intl.DateTimeFormat\<close>) is a parameter too.
\<close>

section \<open>\<open>callZaiChat\<close>\<close>

definition summarizeUnknown :: "jsval \<Rightarrow> jsstr" where
  "summarizeUnknown v = (let txt = (case v of VStr s \<Rightarrow> s | _ \<Rightarrow> default [] (json_stringify [] v))
     in if length txt > 800 then take 800 txt @ js ''...'' else txt)"

definition safeJsonParse :: "jsstr \<Rightarrow> jsval" where
  "safeJsonParse txt = (case json_parse txt of Some v \<Rightarrow> if isRecord v then v else VObj [] | None \<Rightarrow> VObj [])"

record zai_params =
  zp_messages :: "jsval list"
  zp_tools :: "jsval list"
  zp_maxTokens :: "rat option"
  zp_temperature :: "rat option"
  zp_thinkingEnabled :: "bool option"

definition zai_body :: "jsstr \<Rightarrow> zai_params \<Rightarrow> jsval" where
  "zai_body model p = VObj
    ([(js ''model'', VStr model), (js ''messages'', VArr (zp_messages p)),
      (js ''temperature'', VNum (Fin (default (4 / 10) (zp_temperature p))))]
     @ (if zp_thinkingEnabled p \<noteq> Some False
        then [(js ''thinking'', VObj [(js ''type'', VStr (js ''enabled'')),
               (js ''budget_tokens'', VNum (Fin 131072))])] else [])
     @ (case zp_maxTokens p of Some n \<Rightarrow> [(js ''max_tokens'', VNum (Fin n))] | None \<Rightarrow> [])
     @ (if zp_tools p \<noteq> [] then [(js ''tools'', VArr (zp_tools p)), (js ''tool_choice'', VStr (js ''auto''))]
        else []))"

text \<open>What becomes of the HTTP answer: the error thrown, or the content and the tool calls.\<close>

definition zai_answer :: "bool \<Rightarrow> nat \<Rightarrow> jsstr \<Rightarrow> jsstr + (jsstr \<times> jsval list)" where
  "zai_answer ok status txt =
    (let payload = (if txt = [] then VObj [] else
           (case json_parse txt of Some v \<Rightarrow> v | None \<Rightarrow> VObj [(js ''raw'', VStr txt)]))
     in if \<not> ok then Inl (js ''ZAI request failed with HTTP '' @ nat_str status @ js '': '' @ summarizeUnknown payload)
        else (let choice = (case (isRecord payload, field payload ''choices'') of
                     (True, VArr (c # _)) \<Rightarrow> c | _ \<Rightarrow> VUndef);
                  message = (if isRecord choice \<and> isRecord (field choice ''message'')
                     then field choice ''message'' else VUndef)
              in Inr (case field message ''content'' of VStr c \<Rightarrow> c | _ \<Rightarrow> [],
                      as_list (field message ''tool_calls''))))"

section \<open>Agent D, the classifier\<close>

definition DEFAULT_DECISION :: routing_decision where
  "DEFAULT_DECISION = \<lparr> rd_shouldReply = True, rd_intent = Question, rd_tone = Casual \<rparr>"

definition entry_name :: "history_entry \<Rightarrow> jsstr" where
  "entry_name e = (case ce_role e of RoleAssistant \<Rightarrow> XIAO_JU
     | RoleUser \<Rightarrow> default [0x7528, 0x6237] (ce_name e))"

definition agentD_history :: "history_entry list \<Rightarrow> jsstr" where
  "agentD_history h = join [0x0A] (map (\<lambda>e. entry_name e @ js '': ''
     @ (if length (ce_content e) > 30 then take 30 (ce_content e) @ js ''...'' else ce_content e))
     (take_last 5 h))"

definition agentD_current :: "item list \<Rightarrow> jsstr" where
  "agentD_current its = join [0x0A] (map (\<lambda>i.
     (if it_mentioned i then [0x40, 0x5C0F, 0x6A58, 0x20] else []) @ it_text i
     @ (if it_images i \<noteq> [] \<or> it_imagePaths i \<noteq> [] then [0x20, 0x5B, 0x56FE, 0x7247,
       0x5D] else [])) its)"

definition agentD_prompt :: "history_entry list \<Rightarrow> item list \<Rightarrow> jsstr" where
  "agentD_prompt h its = [0x6700, 0x8FD1, 0xFF1A]
     @ (if agentD_history h \<noteq> [] then agentD_history h else [0x28, 0x65E0, 0x29])
     @ [0x0A, 0x5F53, 0x524D, 0xFF1A] @ agentD_current its"

text \<open>\<open>match(/\{[\s\S]*\}/)\<close>: from the first opening to the last closing brace.\<close>

definition json_span :: "jsstr \<Rightarrow> jsstr option" where
  "json_span s = (let r = dropWhile (\<lambda>c. c \<noteq> 0x7B) s;
                      m = rev (dropWhile (\<lambda>c. c \<noteq> 0x7D) (rev r))
                  in if m = [] then None else Some m)"

definition read_intent :: "jsval \<Rightarrow> intent" where
  "read_intent v = (if v = VStr (js ''chat'') then Chat else if v = VStr (js ''tool'') then Tool
     else if v = VStr (js ''vision'') then Vision else Question)"

definition read_tone :: "jsval \<Rightarrow> tone" where
  "read_tone v = (if v = VStr (js ''concise'') then Concise else if v = VStr (js ''detailed'') then Detailed
     else Casual)"

definition agentD :: "jsstr option \<Rightarrow> jsstr + (jsstr \<times> jsval list) \<Rightarrow> routing_decision" where
  "agentD apiKey answer =
    (case (apiKey, answer) of
       (None, _) \<Rightarrow> DEFAULT_DECISION
     | (Some _, Inl err) \<Rightarrow> DEFAULT_DECISION
     | (Some _, Inr (txt, _)) \<Rightarrow>
        (case Option.bind (json_span (trim txt)) json_parse of
           None \<Rightarrow> DEFAULT_DECISION
         | Some parsed \<Rightarrow> \<lparr> rd_shouldReply = truthy (field parsed ''shouldReply''),
             rd_intent = read_intent (field parsed ''intent''), rd_tone = read_tone (field parsed ''tone'') \<rparr>))"

section \<open>Agent A, small talk\<close>

datatype agentA_mode = AckMode | ChatReplyMode

definition agentA_system :: "agentA_mode \<Rightarrow> jsstr \<Rightarrow> jsstr \<Rightarrow> jsstr" where
  "agentA_system mode now timezone = (case mode of
     AckMode \<Rightarrow> join [0x0A]
      [([0x4F60, 0x662F, 0x5C0F, 0x6A58, 0xFF0C, 0x4E00, 0x4E2A, 0x6D3B, 0x6CFC, 0x53EF, 0x7231,
        0x7684, 0x98DE, 0x4E66, 0x7FA4, 0x804A] @ js '' AI '' @ [0x52A9, 0x624B, 0x3002]),
       [0x7528, 0x6237, 0x521A, 0x53D1, 0x4E86, 0x4E00, 0x6761, 0x9700, 0x8981, 0x5904, 0x7406, 0x7684,
         0x6D88, 0x606F, 0xFF0C, 0x4F60, 0x5728, 0x51C6, 0x5907, 0x8BE6, 0x7EC6, 0x56DE, 0x7B54,
         0x4E4B, 0x524D, 0x5148, 0x7ED9, 0x4E00, 0x4E2A, 0x7B80, 0x77ED, 0x81EA, 0x7136, 0x7684,
         0x5E94, 0x7B54, 0x3002],
       [],
       [0x8981, 0x6C42, 0xFF1A],
       (js ''- 1-2'' @ [0x53E5, 0x8BDD, 0xFF0C, 0x7B80, 0x77ED, 0x81EA, 0x7136]),
       [0x2D, 0x20, 0x8BED, 0x6C14, 0x4FCF, 0x76AE, 0xFF0C, 0x50CF, 0x771F, 0x4EBA, 0x670B, 0x53CB],
       ([0x2D, 0x20, 0x4E0D, 0x8981, 0x66B4, 0x9732, 0x4F60, 0x662F] @ js '' AI''),
       [0x2D, 0x20, 0x4E0D, 0x8981, 0x91CD, 0x590D, 0x7528, 0x6237, 0x8BF4, 0x7684, 0x8BDD],
       [0x2D, 0x20, 0x4E0D, 0x8981, 0x7ED9, 0x5177, 0x4F53, 0x7B54, 0x6848, 0xFF0C, 0x53EA, 0x662F,
         0x5E94, 0x7B54, 0x4E00, 0x4E0B]]
   | ChatReplyMode \<Rightarrow> join [0x0A]
      [([0x4F60, 0x662F, 0x5C0F, 0x6A58, 0xFF0C, 0x4E00, 0x4E2A, 0x6D3B, 0x6CFC, 0x53EF, 0x7231,
        0x7684, 0x98DE, 0x4E66, 0x7FA4, 0x804A] @ js '' AI '' @ [0x52A9, 0x624B, 0x3002]),
       [0x7528, 0x6237, 0x5728, 0x95F2, 0x804A, 0x6216, 0x6253, 0x62DB, 0x547C, 0xFF0C, 0x4F60, 0x76F4,
         0x63A5, 0x56DE, 0x590D, 0x5B8C, 0x6574, 0x5185, 0x5BB9, 0x3002],
       [],
       [0x8981, 0x6C42, 0xFF1A],
       [0x2D, 0x20, 0x8BED, 0x6C14, 0x4FCF, 0x76AE, 0x81EA, 0x7136, 0xFF0C, 0x50CF, 0x771F, 0x4EBA,
         0x670B, 0x53CB],
       (js ''- 2-3'' @ [0x53E5, 0x8BDD, 0xFF0C, 0x7B80, 0x77ED, 0x56DE, 0x590D]),
       [0x2D, 0x20, 0x53EF, 0x4EE5, 0x53CD, 0x95EE, 0x6216, 0x5F15, 0x5BFC, 0x5BF9, 0x8BDD],
       ([0x2D, 0x20, 0x4E0D, 0x8981, 0x66B4, 0x9732, 0x4F60, 0x662F] @ js '' AI''),
       [0x2D, 0x20, 0x4E0D, 0x8981, 0x8C03, 0x7528, 0x4EFB, 0x4F55, 0x5DE5, 0x5177],
       [0x5F53, 0x524D, 0x65F6, 0x95F4, 0xFF1A] @ now @ [0xFF08] @ timezone @ [0xFF09]])"

definition agentA_messages :: "jsstr \<Rightarrow> history_entry list \<Rightarrow> item list \<Rightarrow> (jsstr \<times> jsstr) list" where
  "agentA_messages system h its =
    (let recent = join [0x0A] (map (\<lambda>e. entry_name e @ js '': '' @ ce_content e) (take_last 5 h)) in
     [(js ''system'', system)] @ (if recent \<noteq> [] then [(js ''user'', recent)] else [])
       @ [(js ''user'', join [0x0A] (map it_text its))])"

text \<open>\<open>ack\<close> is the template \<open>randomAckTemplate\<close> picks.\<close>

definition agentA :: "jsstr option \<Rightarrow> agentA_mode \<Rightarrow> jsstr + (jsstr \<times> jsval list) \<Rightarrow> jsstr \<Rightarrow> jsstr" where
  "agentA apiKey mode answer ack =
    (case (apiKey, answer) of
       (None, _) \<Rightarrow> ack
     | (Some _, Inr (txt, _)) \<Rightarrow> if trim txt \<noteq> [] then trim txt else ack
     | (Some _, Inl err) \<Rightarrow> (case mode of AckMode \<Rightarrow> ack
         | ChatReplyMode \<Rightarrow> [0x5728, 0x5462, 0x7E, 0x6709, 0x4EC0, 0x4E48, 0x4E8B, 0x5440,
           0xFF1F]))"

section \<open>\<open>generateReply\<close>\<close>

definition buildSystemPrompt :: "jsstr \<Rightarrow> jsstr \<Rightarrow> jsstr \<Rightarrow> tone \<Rightarrow> jsstr" where
  "buildSystemPrompt now timezone contextDocumentsPrompt t = join [0x0A]
     [([0x4F60, 0x662F, 0x5C0F, 0x6A58, 0xFF0C, 0x8FD0, 0x884C, 0x5728] @ js '' LittleBaby '' @
       [0x98DE, 0x4E66, 0x7FA4, 0x804A, 0x52A9, 0x624B, 0x91CC, 0x3002]),
      [0x4F60, 0x53EA, 0x5728, 0x98DE, 0x4E66, 0x91CC, 0x548C, 0x7528, 0x6237, 0x4E92, 0x52A8, 0xFF0C,
        0x56DE, 0x590D, 0x8981, 0x81EA, 0x7136, 0x3001, 0x7B80, 0x6D01, 0x3001, 0x4E2D, 0x6587, 0x4F18,
        0x5148, 0x3002],
      (case t of
         Concise \<Rightarrow> [0x56DE, 0x590D, 0x7B80, 0x6D01, 0x660E, 0x4E86, 0xFF0C, 0x76F4, 0x63A5,
           0x7ED9, 0x7B54, 0x6848, 0xFF0C, 0x4E0D, 0x8981, 0x5570, 0x55E6, 0x3002]
       | Detailed \<Rightarrow> [0x56DE, 0x590D, 0x8BE6, 0x7EC6, 0x5B8C, 0x6574, 0xFF0C, 0x5305,
         0x542B, 0x5206, 0x6790, 0x548C, 0x8BF4, 0x660E, 0x3002]
       | Casual \<Rightarrow> [0x56DE, 0x590D, 0x81EA, 0x7136, 0x968F, 0x610F, 0xFF0C, 0x50CF, 0x670B,
         0x53CB, 0x804A, 0x5929, 0x3002]),
      ([0x9700, 0x8981, 0x67E5, 0x8BFE, 0x7A0B, 0x3001, 0x8BB0, 0x8D26, 0x3001, 0x67E5, 0x8D44, 0x6599,
        0x3001, 0x8BFB, 0x7F51, 0x9875, 0x6216, 0x4F7F, 0x7528, 0x5916, 0x90E8, 0x80FD, 0x529B, 0x65F6,
        0xFF0C, 0x4F18, 0x5148, 0x8C03, 0x7528, 0x53EF, 0x7528] @ js '' MCP '' @ [0x5DE5, 0x5177,
        0x3002]),
      ([0x4E0D, 0x8981, 0x66B4, 0x9732, 0x5BC6, 0x94A5, 0x3001] @ js ''Token'' @ [0x3001, 0x5185,
        0x90E8, 0x914D, 0x7F6E, 0x8DEF, 0x5F84, 0x6216, 0x7CFB, 0x7EDF, 0x5B9E, 0x73B0, 0x7EC6, 0x8282,
        0x3002]),
      ([0x5982, 0x679C, 0x7528, 0x6237, 0x53D1, 0x9001, 0x4E86, 0x56FE, 0x7247, 0xFF0C, 0x4F60, 0x5FC5,
        0x987B, 0x4F7F, 0x7528] @ js '' zai-mcp-server '' @ [0x7684, 0x89C6, 0x89C9, 0x5DE5, 0x5177,
        0xFF08, 0x5982] @ js '' analyze_image'' @ [0xFF09, 0x6765, 0x67E5, 0x770B, 0x56FE, 0x7247,
        0xFF0C, 0x4F20, 0x5165, 0x672C, 0x5730, 0x6587, 0x4EF6, 0x8DEF, 0x5F84, 0x3002, 0x4E0D, 0x8981,
        0x8BF4, 0x81EA, 0x5DF1, 0x770B, 0x4E0D, 0x5230, 0x56FE, 0x7247, 0x3002]),
      [0x5982, 0x679C, 0x5DE5, 0x5177, 0x8C03, 0x7528, 0x5931, 0x8D25, 0xFF0C, 0x76F4, 0x63A5, 0x8BF4,
        0x660E, 0x5931, 0x8D25, 0x539F, 0x56E0, 0x5E76, 0x7ED9, 0x51FA, 0x53EF, 0x6267, 0x884C, 0x7684,
        0x4E0B, 0x4E00, 0x6B65, 0x3002],
      [0x5F53, 0x524D, 0x7528, 0x6237, 0x65F6, 0x533A, 0x65F6, 0x95F4, 0xFF1A] @ now @ [0xFF08] @
        timezone @ [0xFF09, 0x3002],
      contextDocumentsPrompt]"

record chat_message =
  cm_role :: jsstr
  cm_content :: "jsstr option"
  cm_tool_call_id :: jsval
  cm_tool_calls :: "jsval list"

definition plain_message :: "string \<Rightarrow> jsstr \<Rightarrow> chat_message" where
  "plain_message r c = \<lparr> cm_role = js r, cm_content = Some c, cm_tool_call_id = VUndef, cm_tool_calls = [] \<rparr>"

definition imagePromptSuffix :: "jsstr list \<Rightarrow> jsstr" where
  "imagePromptSuffix paths = (if paths = [] then [] else
     [0x0A, 0x0A, 0x5B, 0x7CFB, 0x7EDF, 0x63D0, 0x793A, 0xFF1A, 0x7528, 0x6237, 0x53D1, 0x9001, 0x4E86,
       0x20] @ nat_str (length paths) @ [0x20, 0x5F20, 0x56FE, 0x7247, 0xFF0C, 0x56FE, 0x7247, 0x5DF2,
       0x4FDD, 0x5B58, 0x5230, 0x20]
     @ join [0x2C, 0x20] paths
     @ ([0x3002, 0x8BF7, 0x4F7F, 0x7528] @ js '' zai-mcp-server '' @ [0x7684, 0x89C6, 0x89C9, 0x5DE5,
       0x5177, 0xFF08, 0x5982] @ js '' analyze_image'' @ [0xFF09, 0x6765, 0x67E5, 0x770B, 0x56FE,
       0x7247, 0x5185, 0x5BB9, 0xFF0C, 0x4E0D, 0x8981, 0x8BF4, 0x81EA, 0x5DF1, 0x770B, 0x4E0D, 0x5230,
       0x3002, 0x5D]))"

definition history_message :: "history_entry \<Rightarrow> chat_message" where
  "history_message e = (case ce_role e of
     RoleAssistant \<Rightarrow> plain_message ''assistant'' (ce_content e)
   | RoleUser \<Rightarrow> plain_message ''user''
       ((case first_nonempty [ce_name e] of Some n \<Rightarrow> senderDisplayName n @ js '': '' | None \<Rightarrow> []) @ ce_content e))"

definition initial_messages :: "jsstr \<Rightarrow> history_entry list \<Rightarrow> generate_params \<Rightarrow> chat_message list" where
  "initial_messages system h p =
     [plain_message ''system'' system] @ map history_message h
     @ [plain_message ''user'' (gp_sender p @ js '': '' @ gp_text p @ imagePromptSuffix (gp_imagePaths p))]
     @ (case first_nonempty [gp_extraContext p] of Some x \<Rightarrow> [plain_message ''user'' x] | None \<Rightarrow> [])"

definition MAX_TOOL_ROUNDS :: nat where "MAX_TOOL_ROUNDS = 4"

text \<open>\<open>String(v)\<close> of a value that \<open>JSON.parse\<close> made; an object with a \<open>toString\<close> of its own, which is never a
  function, cannot be converted, which throws a \<open>TypeError\<close>.\<close>

fun text_of :: "jsval \<Rightarrow> jsstr option" where
  "text_of VUndef = Some (js ''undefined'')"
| "text_of VNull = Some (js ''null'')"
| "text_of (VBool b) = Some (if b then js ''true'' else js ''false'')"
| "text_of (VNum n) = Some (num_str n)"
| "text_of (VStr s) = Some s"
| "text_of (VArr xs) = map_option (join [0x2C])
     (those (map (\<lambda>x. if x = VUndef \<or> x = VNull then Some [] else text_of x) xs))"
| "text_of (VObj fs) = (if map_of fs (js ''toString'') = None then Some (js ''[object Object]'') else None)"

text \<open>
  One tool call.  The answer of the model is not validated, so the call is any value: reading a property of
  \<open>null\<close> throws, and so does the line that logs the arguments, \<open>argsText.slice(0, 200)\<close>, unless they are a text or an
  array.  \<open>tool n name args\<close> is what the hub returns or throws (recording the call in the database can throw);
  \<open>n\<close>, the length of the transcript, tells calls apart.
\<close>

definition sliced_text :: "jsval \<Rightarrow> jsstr option" where
  "sliced_text v = (case v of VStr s \<Rightarrow> Some (take 200 s) | VArr xs \<Rightarrow> text_of (VArr (take 200 xs)) | _ \<Rightarrow> None)"

definition parsed_arguments :: "jsval \<Rightarrow> jsval" where
  "parsed_arguments v = (case text_of v of Some s \<Rightarrow> safeJsonParse s | None \<Rightarrow> VObj [])"

definition call_name :: "jsval \<Rightarrow> jsval" where
  "call_name call = coalesce (field (field call ''function'') ''name'') (VStr [])"

definition call_arguments :: "jsval \<Rightarrow> jsval" where
  "call_arguments call = coalesce (field (field call ''function'') ''arguments'') (VStr (js ''{}''))"

definition call_id :: "jsval \<Rightarrow> jsval" where
  "call_id call = coalesce (field call ''id'') (call_name call)"

definition tool_message :: "(nat \<Rightarrow> jsval \<Rightarrow> jsval \<Rightarrow> jsstr + jsstr) \<Rightarrow> nat \<Rightarrow> jsval \<Rightarrow> jsstr + chat_message" where
  "tool_message tool n call =
    (if call = VNull \<or> call = VUndef \<or> text_of (call_name call) = None \<or> sliced_text (call_arguments call) = None
     then Inl (js ''TypeError'')
     else (case tool n (call_name call) (parsed_arguments (call_arguments call)) of
        Inl err \<Rightarrow> Inl err
      | Inr result \<Rightarrow> Inr \<lparr> cm_role = js ''tool'', cm_content = Some result, cm_tool_call_id = call_id call, cm_tool_calls = [] \<rparr>))"

fun run_calls :: "(nat \<Rightarrow> jsval \<Rightarrow> jsval \<Rightarrow> jsstr + jsstr) \<Rightarrow> jsval list \<Rightarrow> chat_message list \<Rightarrow> jsstr + chat_message list" where
  "run_calls tool [] messages = Inr messages"
| "run_calls tool (call # calls) messages = (case tool_message tool (length messages) call of
     Inl err \<Rightarrow> Inl err | Inr m \<Rightarrow> run_calls tool calls (messages @ [m]))"

text \<open>\<open>content: response.content || null\<close>.\<close>

definition assistant_message :: "jsstr \<Rightarrow> jsval list \<Rightarrow> chat_message" where
  "assistant_message txt calls = \<lparr> cm_role = js ''assistant'',
     cm_content = (if txt \<noteq> [] then Some txt else None), cm_tool_call_id = VUndef, cm_tool_calls = calls \<rparr>"

lemma assistant_message_fields [simp]:
  "cm_role (assistant_message txt calls) = js ''assistant''" "cm_tool_calls (assistant_message txt calls) = calls"
  by (simp_all add: assistant_message_def)

text \<open>The replies that are not the model's: for an empty answer, and for tool calls in a fifth answer.\<close>

definition NO_REPLY :: jsstr where
  "NO_REPLY = [0x6211, 0x8FD9, 0x8FB9, 0x6CA1, 0x6709, 0x751F, 0x6210, 0x6709, 0x6548, 0x56DE, 0x590D, 0x3002]"

definition TOO_MANY_ROUNDS :: jsstr where
  "TOO_MANY_ROUNDS = (js ''MCP '' @ [0x5DE5, 0x5177, 0x8C03, 0x7528, 0x8D85, 0x8FC7, 0x20])
     @ nat_str MAX_TOOL_ROUNDS @ [0x20, 0x8F6E, 0xFF0C, 0x6211, 0x5148, 0x505C, 0x5728, 0x8FD9, 0x91CC, 0x3002]"

text \<open>
  The loop.  \<open>model\<close> is what \<open>callZaiChat\<close> makes of a transcript, which grows with each round.
  The result is the reply with the tool rounds used, or the error; the second component is
  the list of the transcripts the model was asked with.
\<close>

function reply_loop :: "(chat_message list \<Rightarrow> jsstr + (jsstr \<times> jsval list)) \<Rightarrow> (nat \<Rightarrow> jsval \<Rightarrow> jsval \<Rightarrow> jsstr + jsstr)
    \<Rightarrow> nat \<Rightarrow> chat_message list \<Rightarrow> (jsstr + jsstr \<times> nat) \<times> chat_message list list" where
  "reply_loop model tool rounds messages =
    (case model messages of
       Inl err \<Rightarrow> (Inl err, [messages])
     | Inr (txt, calls) \<Rightarrow>
        if calls = [] then (Inr (if trim txt \<noteq> [] then trim txt else NO_REPLY, rounds), [messages])
        else if rounds \<ge> MAX_TOOL_ROUNDS then (Inr (TOO_MANY_ROUNDS, rounds), [messages])
        else (case run_calls tool calls (messages @ [assistant_message txt calls]) of
                Inl err \<Rightarrow> (Inl err, [messages])
              | Inr messages' \<Rightarrow> (let (r, asked) = reply_loop model tool (Suc rounds) messages'
                                 in (r, messages # asked))))"
  by pat_completeness auto
termination
  by (relation "measure (\<lambda>(m, t, rounds, ms). MAX_TOOL_ROUNDS - rounds)") (auto simp: MAX_TOOL_ROUNDS_def)

declare reply_loop.simps [simp del]

definition generateReply :: "jsstr option \<Rightarrow> (chat_message list \<Rightarrow> jsstr + (jsstr \<times> jsval list))
    \<Rightarrow> (nat \<Rightarrow> jsval \<Rightarrow> jsval \<Rightarrow> jsstr + jsstr) \<Rightarrow> jsstr \<Rightarrow> history_entry list \<Rightarrow> generate_params
    \<Rightarrow> (jsstr + jsstr \<times> nat) \<times> chat_message list list" where
  "generateReply apiKey model tool system h p = (case apiKey of
     None \<Rightarrow> (Inr ((js ''ZAI API Key '' @ [0x6CA1, 0x6709, 0x914D, 0x7F6E, 0xFF0C, 0x6682,
       0x65F6, 0x65E0, 0x6CD5, 0x56DE, 0x590D, 0x3002]), 0), [])
   | Some _ \<Rightarrow> reply_loop model tool 0 (initial_messages system h p))"

section \<open>\<open>sendFeishuReply\<close>\<close>

datatype api_outcome = ApiThrows thrown | ApiAnswers "jsnum option" "jsstr option"

datatype feishu_call = ReplyTo jsstr jsstr | CreateIn jsstr jsstr

definition api_ok :: "jsnum option \<Rightarrow> bool" where
  "api_ok code \<longleftrightarrow> code = Some (Fin 0) \<or> code = None"

definition send_create :: "jsstr \<Rightarrow> jsstr \<Rightarrow> api_outcome \<Rightarrow> feishu_call list \<times> thrown option" where
  "send_create chat body create = ([CreateIn chat body], case create of
     ApiThrows e \<Rightarrow> Some e
   | ApiAnswers code msg \<Rightarrow> if \<not> api_ok code
       then Some (ErrorWith (js ''Feishu send failed: '' @ default (case code of Some c \<Rightarrow> num_str c | None \<Rightarrow> []) msg))
       else None)"

definition sendFeishuReply :: "fevent \<Rightarrow> jsstr \<Rightarrow> bool \<Rightarrow> api_outcome \<Rightarrow> api_outcome \<Rightarrow> feishu_call list \<times> thrown option" where
  "sendFeishuReply e txt useReply reply create =
    (let body = buildPostContent txt;
         fallback = send_create (chat_id e) body create
     in if useReply
        then (case reply of
                ApiAnswers code msg \<Rightarrow> if api_ok code then ([ReplyTo (message_id e) body], None)
                  else (ReplyTo (message_id e) body # fst fallback, snd fallback)
              | ApiThrows err \<Rightarrow> (ReplyTo (message_id e) body # fst fallback, snd fallback))
        else fallback)"

section \<open>Lemmas\<close>

text \<open>After the initial messages a transcript consists of rounds: the model's answer to the transcript before, with its
  calls, followed by one tool message per call, in order, answering it by id.\<close>

definition answers :: "jsval list \<Rightarrow> chat_message list \<Rightarrow> bool" where
  "answers calls ms \<longleftrightarrow> map cm_tool_call_id ms = map call_id calls
     \<and> list_all (\<lambda>m. cm_role m = js ''tool'') ms"

inductive rounds_of :: "(chat_message list \<Rightarrow> jsstr + (jsstr \<times> jsval list)) \<Rightarrow> chat_message list \<Rightarrow> nat \<Rightarrow> chat_message list \<Rightarrow> bool"
  for model ini where
  rounds_Nil: "rounds_of model ini 0 []"
| rounds_snoc: "rounds_of model ini n ms \<Longrightarrow> model (ini @ ms) = Inr (txt, calls) \<Longrightarrow> calls \<noteq> [] \<Longrightarrow>
    answers calls rs \<Longrightarrow> rounds_of model ini (Suc n) (ms @ assistant_message txt calls # rs)"

lemma run_calls_answers:
  "run_calls tool calls ms = Inr ms' \<Longrightarrow> \<exists>rs. ms' = ms @ rs \<and> answers calls rs"
proof (induction tool calls ms rule: run_calls.induct)
  case (2 tool call calls messages)
  obtain m where m: "tool_message tool (length messages) call = Inr m"
    and r: "run_calls tool calls (messages @ [m]) = Inr ms'"
    using 2(2) by (auto split: sum.splits)
  obtain rs where "ms' = (messages @ [m]) @ rs" "answers calls rs" using 2(1) [OF m r] by blast
  moreover have "cm_role m = js ''tool''" "cm_tool_call_id m = call_id call"
    using m by (auto simp: tool_message_def split: if_splits sum.splits)
  ultimately show ?case by (intro exI [of _ "m # rs"]) (simp add: answers_def)
qed (simp add: answers_def)

text \<open>The run of the loop from \<open>rounds\<close> rounds on: what it returns, and the transcripts it asks with.\<close>

definition loop_result_ok :: "(chat_message list \<Rightarrow> jsstr + (jsstr \<times> jsval list)) \<Rightarrow> nat \<Rightarrow> jsstr + jsstr \<times> nat \<Rightarrow> chat_message list list \<Rightarrow> bool" where
  "loop_result_ok model rounds r asked \<longleftrightarrow> asked \<noteq> [] \<and> rounds + length asked \<le> Suc MAX_TOOL_ROUNDS
     \<and> (case r of Inl _ \<Rightarrow> True
        | Inr (txt, n) \<Rightarrow> rounds + length asked = Suc n
            \<and> (case model (last asked) of Inl _ \<Rightarrow> False | Inr (reply, calls) \<Rightarrow>
               (if calls = [] then txt = (if trim reply \<noteq> [] then trim reply else NO_REPLY)
                  else n = MAX_TOOL_ROUNDS \<and> txt = TOO_MANY_ROUNDS)))"

lemma reply_loop_cases:
  assumes "rounds_of model ini rounds suffix"
  obtains (stop) r where "reply_loop model tool rounds (ini @ suffix) = (r, [ini @ suffix])"
      "\<And>txt n. r = Inr (txt, n) \<Longrightarrow> n = rounds \<and> (case model (ini @ suffix) of Inl _ \<Rightarrow> False | Inr (reply, calls) \<Rightarrow>
        (if calls = [] then txt = (if trim reply \<noteq> [] then trim reply else NO_REPLY)
           else MAX_TOOL_ROUNDS \<le> rounds \<and> txt = TOO_MANY_ROUNDS))"
  | (round) next_suffix where "rounds < MAX_TOOL_ROUNDS" "rounds_of model ini (Suc rounds) next_suffix"
      "reply_loop model tool rounds (ini @ suffix)
        = (fst (reply_loop model tool (Suc rounds) (ini @ next_suffix)),
           (ini @ suffix) # snd (reply_loop model tool (Suc rounds) (ini @ next_suffix)))"
proof (cases "model (ini @ suffix)")
  case (Inl err)
  then show thesis by (intro stop [of "Inl err"]) (subst reply_loop.simps, simp_all)
next
  case (Inr p)
  obtain reply calls where p: "p = (reply, calls)" by (cases p)
  let ?a = "assistant_message reply calls"
  show thesis
  proof (cases "calls = [] \<or> MAX_TOOL_ROUNDS \<le> rounds")
    case True
    then show thesis using Inr p
      by (intro stop [of "Inr (if calls = [] then if trim reply \<noteq> [] then trim reply else NO_REPLY else TOO_MANY_ROUNDS, rounds)"])
         (subst reply_loop.simps, auto)
  next
    case False
    show thesis
    proof (cases "run_calls tool calls ((ini @ suffix) @ [?a])")
      case (Inl err')
      then show thesis using False Inr p by (intro stop [of "Inl err'"]) (subst reply_loop.simps, simp_all)
    next
      case run: (Inr ms')
      obtain rs where rs: "ms' = ini @ (suffix @ ?a # rs)" "answers calls rs"
        using run_calls_answers [OF run] by auto
      have "rounds_of model ini (Suc rounds) (suffix @ ?a # rs)"
        using assms rs(2) False Inr p by (intro rounds_snoc) auto
      then show thesis
        using False Inr p run rs(1)
        by (intro round [of "suffix @ ?a # rs"]) (simp, simp, subst reply_loop.simps, simp add: case_prod_beta)
    qed
  qed
qed

lemma reply_loop_spec:
  assumes "rounds \<le> MAX_TOOL_ROUNDS" and "rounds_of model ini rounds suffix"
  shows "loop_result_ok model rounds (fst (reply_loop model tool rounds (ini @ suffix))) (snd (reply_loop model tool rounds (ini @ suffix)))
    \<and> (\<forall>i < length (snd (reply_loop model tool rounds (ini @ suffix))).
        \<exists>s. snd (reply_loop model tool rounds (ini @ suffix)) ! i = ini @ s \<and> rounds_of model ini (rounds + i) s)"
  using assms
proof (induction "MAX_TOOL_ROUNDS - rounds" arbitrary: rounds suffix rule: less_induct)
  case less
  show ?case
  proof (cases rule: reply_loop_cases [OF less.prems(2), where tool = tool, case_names stop round])
    case (stop r)
    then show ?thesis using less.prems by (auto simp: loop_result_ok_def split: sum.splits)
  next
    case (round s')
    let ?l = "reply_loop model tool (Suc rounds) (ini @ s')"
    have ih: "loop_result_ok model (Suc rounds) (fst ?l) (snd ?l)"
      "\<forall>i < length (snd ?l). \<exists>s. snd ?l ! i = ini @ s \<and> rounds_of model ini (Suc rounds + i) s"
      using less.hyps [OF _ _ round(2)] round(1) by auto
    have "\<exists>s. ((ini @ suffix) # snd ?l) ! i = ini @ s \<and> rounds_of model ini (rounds + i) s" if "i < Suc (length (snd ?l))" for i
      using ih(2) less.prems(2) that by (cases i) auto
    moreover have "loop_result_ok model rounds (fst ?l) ((ini @ suffix) # snd ?l)"
      using ih(1) by (auto simp: loop_result_ok_def split: sum.splits)
    ultimately show ?thesis using round(3) by simp
  qed
qed

section \<open>Properties\<close>

text \<open>C13: The tool loop is bounded and follows the protocol. \<open>generateReply\<close> returns after at most five model calls; the transcript of
  the first call is the initial one, and that of each further call adds one round: the answer the model gave to the transcript
  before, with its tool calls, and then one tool message per call, in order, under the call's id.  A reply is not empty and
  reports the rounds made; it is the model's last answer (or the notice for an empty one), unless that is a fifth answer
  with tool calls: then it is the notice of too many rounds, and the calls of that answer are neither run nor answered.\<close>

theorem generate_reply_bounded:
  "let r = generateReply apiKey model tool system h p; ini = initial_messages system h p in
     length (snd r) \<le> 5
     \<and> (\<forall>i < length (snd r). \<exists>s. snd r ! i = ini @ s \<and> rounds_of model ini i s)
     \<and> (case fst r of Inl _ \<Rightarrow> True
        | Inr (txt, n) \<Rightarrow> txt \<noteq> [] \<and> n \<le> 4 \<and> (apiKey \<noteq> None \<longrightarrow> length (snd r) = Suc n
            \<and> (case model (last (snd r)) of Inl _ \<Rightarrow> False | Inr (reply, calls) \<Rightarrow>
               (if calls = [] then txt = (if trim reply \<noteq> [] then trim reply else NO_REPLY)
                  else n = 4 \<and> txt = TOO_MANY_ROUNDS))))"
proof (cases apiKey)
  case None
  then show ?thesis by (simp add: generateReply_def js_def)
next
  case (Some k)
  let ?ini = "initial_messages system h p"
  let ?l = "reply_loop model tool 0 ?ini"
  have notice: "NO_REPLY \<noteq> []" "TOO_MANY_ROUNDS \<noteq> []" by (simp_all add: NO_REPLY_def TOO_MANY_ROUNDS_def js_def)
  have l: "generateReply apiKey model tool system h p = ?l" by (simp add: generateReply_def Some)
  have ok: "loop_result_ok model 0 (fst ?l) (snd ?l)"
    and tr: "\<forall>i < length (snd ?l). \<exists>s. snd ?l ! i = ?ini @ s \<and> rounds_of model ?ini i s"
    using reply_loop_spec [OF _ rounds_Nil, where model = model and ini = ?ini and tool = tool] by simp_all
  show ?thesis
  proof (cases "fst ?l")
    case (Inl err)
    then show ?thesis using ok tr by (simp add: l Let_def loop_result_ok_def MAX_TOOL_ROUNDS_def)
  next
    case (Inr tn)
    obtain reply_text n where tn: "tn = (reply_text, n)" by (cases tn)
    obtain reply calls where "model (last (snd ?l)) = Inr (reply, calls)"
      using ok Inr tn by (auto simp: loop_result_ok_def split: sum.splits)
    then show ?thesis
      using ok tr Inr tn notice by (cases "calls = []") (auto simp: l Let_def loop_result_ok_def MAX_TOOL_ROUNDS_def)
  qed
qed

text \<open>A model that never stops asking for tools, and the malformed arguments that end the reply with an error.\<close>

definition sample_request :: generate_params where
  "sample_request = \<lparr> gp_sessionKey = [], gp_text = js ''q'', gp_sender = js ''s'', gp_aiTurn = None, gp_imagePaths = [],
     gp_tone = Casual, gp_extraContext = None \<rparr>"

theorem generate_reply_bounded_witness:
  "length (snd (generateReply (Some (js ''k'')) (\<lambda>ms. Inr (js ''ok'', [VObj []])) (\<lambda>n name args. Inr (js ''t'')) [] [] sample_request)) \<le> 5
   \<and> fst (generateReply (Some (js ''k'')) (\<lambda>ms. Inr (js ''ok'', [VObj []])) (\<lambda>n name args. Inr (js ''t'')) [] [] sample_request)
      = Inr (TOO_MANY_ROUNDS, 4)
   \<and> tool_message (\<lambda>n name args. Inr (js ''t'')) 0 (VObj [(js ''function'', VObj [(js ''arguments'', VObj [])])]) = Inl (js ''TypeError'')"
proof (intro conjI)
  show "length (snd (generateReply (Some (js ''k'')) (\<lambda>ms. Inr (js ''ok'', [VObj []])) (\<lambda>n name args. Inr (js ''t'')) [] [] sample_request)) \<le> 5"
    using generate_reply_bounded [of "Some (js ''k'')" "\<lambda>ms. Inr (js ''ok'', [VObj []])" "\<lambda>n name args. Inr (js ''t'')" "[]" "[]"]
    by (simp add: Let_def)
qed code_simp+

text \<open>The classifier fails open. Whenever there is no key, the call fails, or the answer holds no parsable
  object between its first and last brace, the message is answered as a casual question; otherwise the decision is the
  one the object states, with unknown intents and tones mapped to those defaults.\<close>

theorem classifier_fails_open:
  "agentD None answer = DEFAULT_DECISION \<and> agentD k (Inl err) = DEFAULT_DECISION
   \<and> (agentD (Some key) (Inr (txt, calls)) = (case Option.bind (json_span (trim txt)) json_parse of
        None \<Rightarrow> DEFAULT_DECISION
      | Some v \<Rightarrow> \<lparr> rd_shouldReply = truthy (field v ''shouldReply''), rd_intent = read_intent (field v ''intent''),
                   rd_tone = read_tone (field v ''tone'') \<rparr>))
   \<and> (0x7B \<notin> set pre \<and> 0x7D \<notin> set post \<longrightarrow>
        json_span (pre @ 0x7B # mid @ 0x7D # post) = Some (0x7B # mid @ [0x7D]))"
proof -
  have "json_span (pre @ 0x7B # mid @ 0x7D # post) = Some (0x7B # mid @ [0x7D])"
    if "0x7B \<notin> set pre" "0x7D \<notin> set post"
  proof -
    have "dropWhile (\<lambda>c. c \<noteq> 0x7B) (pre @ 0x7B # mid @ 0x7D # post) = 0x7B # mid @ 0x7D # post"
      using that(1) by (induction pre) auto
    moreover have "dropWhile (\<lambda>c. c \<noteq> 0x7D) (rev post @ 0x7D # rev mid @ [0x7B]) = 0x7D
      # rev mid @ [0x7B]"
      using that(2) by (subst dropWhile_append2) auto
    ultimately show ?thesis by (simp add: json_span_def Let_def)
  qed
  then show ?thesis by (auto simp: agentD_def split: option.splits)
qed

theorem classifier_fails_open_witness:
  "json_span (js ''ok {x} end'') = Some (js ''{x}'')"
  using classifier_fails_open [of undefined None "[]" "[]" "[]" "[]" "js ''ok ''" "js '' end''" "js ''x''"]
  by (simp add: js_def)

text \<open>A message is delivered by one of at most two calls. Replying is tried first when asked for; a message to the chat
  is created exactly when no reply was accepted; the same body is used; and an error is reported
  exactly when the last call was refused.\<close>

theorem send_feishu_reply_calls:
  "let (calls, err) = sendFeishuReply e txt useReply reply create;
       accepted = (\<lambda>r. case r of ApiThrows _ \<Rightarrow> False | ApiAnswers code _ \<Rightarrow> api_ok code)
   in calls = (if useReply then [ReplyTo (message_id e) (buildPostContent txt)] else [])
        @ (if useReply \<and> accepted reply then [] else [CreateIn (chat_id e) (buildPostContent txt)])
      \<and> (err = None \<longleftrightarrow> useReply \<and> accepted reply \<or> accepted create)"
  by (auto simp: sendFeishuReply_def send_create_def Let_def split: api_outcome.splits)

end
