(* ===== verification/ServiceConfig.thy ===== *)
theory ServiceConfig
  imports FeishuEvent
begin

text \<open>
  The configuration of the service (\<open>src/src/feishu-service.ts\<close>): where its files are
  (\<open>resolveStateDir\<close>, \<open>resolveConfigPath\<close>, \<open>resolveUserPath\<close>), the account
  (\<open>resolveAccountConfig\<close>, \<open>resolveSecretLike\<close>, \<open>resolveFeishuDomain\<close>), the model
  (\<open>resolveZaiBaseUrl\<close>, \<open>resolveZaiApiKey\<close>, \<open>resolveModelId\<close>) and the database
  (\<open>resolveMysqlMemoryConfig\<close>).  The configuration is the parsed file; \<open>env\<close> is
  \<open>process.env\<close>.  Paths are POSIX: \<open>path_join\<close> and \<open>path_resolve\<close> are Node's.
\<close>

type_synonym process_env = "(jsstr, jsstr) jsmap"

definition env_get :: "process_env \<Rightarrow> string \<Rightarrow> jsval" where
  [js_eval]: "env_get env k = (case mget env (js k) of Some s \<Rightarrow> VStr s | None \<Rightarrow> VUndef)"

section \<open>Paths\<close>

text \<open>\<open>normalizeString\<close> of Node: dots are dropped, a double dot removes the segment before it,
  and above the root it is dropped or, in a relative path, kept.\<close>

definition push_segment :: "bool \<Rightarrow> jsstr \<Rightarrow> jsstr list \<Rightarrow> jsstr list" where
  "push_segment absolute seg acc =
    (if seg = [] \<or> seg = js ''.'' then acc
     else if seg = js ''..'' then
       (if acc \<noteq> [] \<and> last acc \<noteq> js ''..'' then butlast acc
        else if absolute then acc else acc @ [seg])
     else acc @ [seg])"

definition segments :: "bool \<Rightarrow> jsstr \<Rightarrow> jsstr list" where
  "segments absolute p = fold (push_segment absolute) (split_on 0x2F p) []"

definition is_absolute :: "jsstr \<Rightarrow> bool" where
  "is_absolute p \<longleftrightarrow> p \<noteq> [] \<and> hd p = 0x2F"

definition path_normalize :: "jsstr \<Rightarrow> jsstr" where
  "path_normalize p =
    (if p = [] then js ''.''
     else (let absolute = is_absolute p; trailing = (last p = 0x2F);
               body = join [0x2F] (segments absolute p)
           in if body = [] then (if absolute then js ''/'' else if trailing then js ''./'' else js ''.'')
              else (if absolute then js ''/'' else []) @ body @ (if trailing then js ''/'' else [])))"

definition path_join :: "jsstr \<Rightarrow> jsstr \<Rightarrow> jsstr" where
  "path_join a b = path_normalize (join [0x2F] (filter (\<lambda>x. x \<noteq> []) [a, b]))"

definition path_resolve :: "jsstr \<Rightarrow> jsstr \<Rightarrow> jsstr" where
  "path_resolve cwd p =
     0x2F # join [0x2F] (segments True (if is_absolute p then p else cwd @ 0x2F # p))"

record host =
  host_env :: process_env
  host_home :: jsstr
  host_cwd :: jsstr

definition resolveUserPath :: "host \<Rightarrow> jsstr \<Rightarrow> jsstr" where
  "resolveUserPath h p =
    (if p = js ''~'' then host_home h
     else if starts_with p (js ''~/'') then path_join (host_home h) (drop 2 p)
     else path_resolve (host_cwd h) p)"

definition explicit_path :: "host \<Rightarrow> string \<Rightarrow> jsstr option" where
  "explicit_path h k = (case mget (host_env h) (js k) of
     Some s \<Rightarrow> if trim s \<noteq> [] then Some (trim s) else None | None \<Rightarrow> None)"

definition resolveStateDir :: "host \<Rightarrow> jsstr" where
  "resolveStateDir h = (case explicit_path h ''LITTLEBABY_STATE_DIR'' of
     Some e \<Rightarrow> resolveUserPath h e | None \<Rightarrow> path_join (host_home h) (js ''.littlebaby''))"

definition resolveConfigPath :: "host \<Rightarrow> jsstr" where
  "resolveConfigPath h = (case explicit_path h ''LITTLEBABY_CONFIG_PATH'' of
     Some e \<Rightarrow> resolveUserPath h e | None \<Rightarrow> path_join (resolveStateDir h) (js ''littlebaby.json''))"

definition historyPath :: "host \<Rightarrow> jsstr" where
  "historyPath h = path_join (resolveStateDir h) (js ''lite-history.json'')"

definition dedupePath :: "host \<Rightarrow> jsstr" where
  "dedupePath h = path_join (resolveStateDir h) (js ''lite-dedupe.json'')"

datatype config_error = ConfigNotFound jsstr | ConfigNotObject | ConfigUnparsable

text \<open>\<open>file\<close> is the content of the configuration file, parsed by the JSON5 package.\<close>

definition loadConfig :: "host \<Rightarrow> jsval option option \<Rightarrow> config_error + jsval" where
  "loadConfig h file = (case file of
     None \<Rightarrow> Inl (ConfigNotFound (resolveConfigPath h))
   | Some None \<Rightarrow> Inl ConfigUnparsable
   | Some (Some v) \<Rightarrow> if isRecord v then Inr v else Inl ConfigNotObject)"

section \<open>The account\<close>

definition resolveSecretLike :: "process_env \<Rightarrow> jsval \<Rightarrow> string option \<Rightarrow> jsstr option" where
  "resolveSecretLike env v envName =
    (case readString v of
       Some direct \<Rightarrow> Some direct
     | None \<Rightarrow>
        (case (isRecord v \<and> readString (field v ''source'') = Some (js ''env''), readString (field v ''id'')) of
           (True, Some i) \<Rightarrow> readString (case mget env i of Some s \<Rightarrow> VStr s | None \<Rightarrow> VUndef)
         | _ \<Rightarrow> (case envName of Some n \<Rightarrow> readString (env_get env n) | None \<Rightarrow> None)))"

record account =
  ac_accountId :: jsstr
  ac_appId :: jsstr
  ac_appSecret :: jsstr
  ac_domain :: jsval
  ac_config :: jsval

datatype account_error = NotConfigured | MissingCredentials jsstr | NotWebsocket

definition object_keys :: "jsval \<Rightarrow> jsstr list" where
  "object_keys v = (case v of VObj fs \<Rightarrow> mkeys fs | _ \<Rightarrow> [])"

definition account_id :: "jsval \<Rightarrow> jsstr" where
  "account_id feishu = (case readString (field feishu ''defaultAccount'') of
     Some a \<Rightarrow> a
   | None \<Rightarrow> (case object_keys (field feishu ''accounts'') of k # _ \<Rightarrow> k | [] \<Rightarrow> js ''main''))"

definition resolveAccountConfig :: "process_env \<Rightarrow> jsval \<Rightarrow> account_error + account" where
  "resolveAccountConfig env config =
    (let feishu = field (field config ''channels'') ''feishu'' in
     if \<not> truthy feishu \<or> field feishu ''enabled'' = VBool False then Inl NotConfigured
     else
      (let accountId = account_id feishu;
           accountConfig = spread feishu (coalesce (fieldOf (field feishu ''accounts'') accountId) (VObj []));
           appId = resolveSecretLike env (field accountConfig ''appId'') (Some ''LITTLEBABY_FEISHU_APP_ID'');
           appSecret = resolveSecretLike env (field accountConfig ''appSecret'') (Some ''LITTLEBABY_FEISHU_APP_SECRET'')
       in (case (appId, appSecret) of
             (Some i, Some s) \<Rightarrow>
               if coalesce (field accountConfig ''connectionMode'') (VStr (js ''websocket'')) \<noteq> VStr (js ''websocket'')
               then Inl NotWebsocket
               else Inr \<lparr> ac_accountId = accountId, ac_appId = i, ac_appSecret = s,
                      ac_domain = field accountConfig ''domain'', ac_config = accountConfig \<rparr>
           | _ \<Rightarrow> Inl (MissingCredentials accountId))))"

text \<open>\<open>replace(/\/+$/, "")\<close>.\<close>

definition strip_slashes :: "jsstr \<Rightarrow> jsstr" where
  "strip_slashes s = rev (dropWhile (\<lambda>c. c = 0x2F) (rev s))"

datatype lark_domain = DomainLark | DomainFeishu | DomainUrl jsstr

definition resolveFeishuDomain :: "jsstr option \<Rightarrow> lark_domain" where
  "resolveFeishuDomain d =
    (if d = Some (js ''lark'') then DomainLark
     else case first_nonempty [d] of
       None \<Rightarrow> DomainFeishu
     | Some u \<Rightarrow> if u = js ''feishu'' then DomainFeishu else DomainUrl (strip_slashes u))"

text \<open>The bot's identity from the answer of the probe: open id and name.\<close>

definition fetchBotIdentity :: "jsval \<Rightarrow> jsstr option \<times> jsstr option" where
  "fetchBotIdentity response =
    (if field response ''code'' \<noteq> VNum (Fin 0) then (None, None)
     else (readString (field (field response ''bot'') ''open_id''),
           readString (field (field response ''bot'') ''app_name'')))"

section \<open>The model\<close>

definition zai_provider :: "jsval \<Rightarrow> jsval" where
  "zai_provider config = field (field (field config ''models'') ''providers'') ''zai''"

definition resolveZaiBaseUrl :: "jsval \<Rightarrow> jsstr" where
  "resolveZaiBaseUrl config = strip_slashes
     (default (js ''https://open.bigmodel.cn/api/coding/paas/v4'') (readString (field (zai_provider config) ''baseUrl'')))"

fun first_some :: "'a option list \<Rightarrow> 'a option" where
  "first_some [] = None"
| "first_some (Some x # r) = Some x"
| "first_some (None # r) = first_some r"

definition server_values :: "jsval \<Rightarrow> jsval list" where
  "server_values config = (case field (field config ''mcp'') ''servers'' of VObj fs \<Rightarrow> map snd fs | _ \<Rightarrow> [])"

definition resolveZaiApiKey :: "process_env \<Rightarrow> jsval \<Rightarrow> jsstr option" where
  "resolveZaiApiKey env config = first_some
    ([readString (field (zai_provider config) ''apiKey'')]
     @ map (\<lambda>n. readString (env_get env n)) [''LITTLEBABY_ZAI_API_KEY'', ''Z_AI_API_KEY'', ''BIGMODEL_API_KEY'']
     @ concat (map (\<lambda>server. map (\<lambda>k. readString (field (field server ''env'') k))
         [''Z_AI_API_KEY'', ''BIGMODEL_API_KEY'']) (server_values config)))"

definition index_list :: "jsval \<Rightarrow> nat \<Rightarrow> jsval" where
  "index_list v i = (case v of VArr xs \<Rightarrow> if i < length xs then xs ! i else VUndef | _ \<Rightarrow> VUndef)"

definition strip_zai :: "jsstr \<Rightarrow> jsstr" where
  "strip_zai s = (if starts_with s (js ''zai/'') then drop 4 s else s)"

definition resolveModelId :: "jsval \<Rightarrow> nat \<Rightarrow> jsstr" where
  "resolveModelId config fallbackIndex =
    (let model = field (field (field config ''agents'') ''defaults'') ''model'';
         primary = readString (field model ''primary'');
         fallback = index_list (field model ''fallbacks'') fallbackIndex;
         raw = (if fallbackIndex > 0 then orElse (readString fallback) primary else primary)
     in strip_zai (default (js ''zai/glm-5-turbo'') raw))"

section \<open>The database\<close>

record mysql_config =
  my_host :: jsstr
  my_port :: int
  my_user :: jsstr
  my_password :: jsstr
  my_database :: jsstr
  my_connectionLimit :: int
  my_restoreRecentLimit :: int
  my_saveRawEvent :: bool

definition raw_mysql :: "jsval \<Rightarrow> jsval" where
  "raw_mysql config = coalesce (field (field config ''memory'') ''mysql'')
     (coalesce (field (field config ''database'') ''mysql'') (field config ''mysql''))"

text \<open>A text of the environment, else of the file; and a number, where a variable that is set wins
  even when it is no number.\<close>

definition text_setting :: "process_env \<Rightarrow> string \<Rightarrow> jsval \<Rightarrow> string \<Rightarrow> jsstr option" where
  "text_setting env var raw key = orElse (readString (env_get env var)) (readString (field raw key))"

definition number_setting :: "process_env \<Rightarrow> string \<Rightarrow> jsval \<Rightarrow> string \<Rightarrow> int \<Rightarrow> int" where
  "number_setting env var raw key d = default d (readPositiveInteger (coalesce (env_get env var) (field raw key)))"

definition resolveMysqlMemoryConfig :: "process_env \<Rightarrow> jsval \<Rightarrow> mysql_config option" where
  "resolveMysqlMemoryConfig env config =
    (let raw = raw_mysql config;
         hasEnv = (readString (env_get env ''LITTLEBABY_MYSQL_USER'') \<noteq> None
           \<or> readString (env_get env ''LITTLEBABY_MYSQL_PASSWORD'') \<noteq> None
           \<or> readString (env_get env ''LITTLEBABY_MYSQL_DATABASE'') \<noteq> None)
     in if \<not> truthy raw \<and> \<not> hasEnv then None
        else if truthy (field raw ''disabled'') \<or> field raw ''enabled'' = VBool False then None
        else (case (text_setting env ''LITTLEBABY_MYSQL_USER'' raw ''user'',
                    text_setting env ''LITTLEBABY_MYSQL_PASSWORD'' raw ''password'') of
          (Some user, Some password) \<Rightarrow> Some
            \<lparr> my_host = default (js ''127.0.0.1'') (text_setting env ''LITTLEBABY_MYSQL_HOST'' raw ''host''),
              my_port = number_setting env ''LITTLEBABY_MYSQL_PORT'' raw ''port'' 3306,
              my_user = user, my_password = password,
              my_database = default (js ''littlebaby'') (text_setting env ''LITTLEBABY_MYSQL_DATABASE'' raw ''database''),
              my_connectionLimit = number_setting env ''LITTLEBABY_MYSQL_CONNECTION_LIMIT'' raw ''connectionLimit'' 5,
              my_restoreRecentLimit =
                number_setting env ''LITTLEBABY_MYSQL_RESTORE_RECENT_LIMIT'' raw ''restoreRecentLimit'' 200,
              my_saveRawEvent = default False (orElse (readBoolean (env_get env ''LITTLEBABY_MYSQL_SAVE_RAW_EVENT''))
                (readBoolean (field raw ''saveRawEvent''))) \<rparr>
        | _ \<Rightarrow> None))"

section \<open>Lemmas\<close>

lemma mget_fold_put:
  "mget (foldl (\<lambda>m (k, v). mput m k v) a b) k = (case map_of (rev b) k of Some v \<Rightarrow> Some v | None \<Rightarrow> mget a k)"
  by (induction b arbitrary: a) (auto simp: map_of_append map_add_def split: option.splits)

lemma field_spread:
  "distinct (mkeys b) \<Longrightarrow> field (spread (VObj a) (VObj b)) k
     = (case mget b (js k) of Some v \<Rightarrow> v | None \<Rightarrow> field (VObj a) k)"
proof -
  assume d: "distinct (mkeys b)"
  then have "map_of (rev b) = map_of b" by (simp add: map_of_inject_set rev_map [symmetric])
  then show ?thesis
    using mget_fold_put [of a b "js k"] by (simp add: spread_def field_def mget_def split: option.splits)
qed

lemma resolveSecretLike_Some: "resolveSecretLike env v n = Some s \<Longrightarrow> s \<noteq> [] \<and> trim s = s"
  by (auto simp: resolveSecretLike_def dest: readString_Some split: option.splits bool.splits)

section \<open>Properties\<close>

text \<open>The account the service runs as. Resolution fails exactly when the channel is missing or disabled, when the app id or
  secret cannot be found, or when the mode is not websocket, in that order; otherwise the
  credentials are trimmed and not empty, and every setting of the chosen account overrides the channel's.\<close>

theorem account_resolution:
  assumes "field (field config ''channels'') ''feishu'' = VObj fs" and "distinct (mkeys as)"
    and "fieldOf (field (VObj fs) ''accounts'') (account_id (VObj fs)) = VObj as"
  shows "let setting = (\<lambda>k. case mget as (js k) of Some v \<Rightarrow> v | None \<Rightarrow> field (VObj fs) k);
       appId = resolveSecretLike env (setting ''appId'') (Some ''LITTLEBABY_FEISHU_APP_ID'');
       appSecret = resolveSecretLike env (setting ''appSecret'') (Some ''LITTLEBABY_FEISHU_APP_SECRET'')
     in case resolveAccountConfig env config of
          Inl NotConfigured \<Rightarrow> field (VObj fs) ''enabled'' = VBool False
        | Inl (MissingCredentials i) \<Rightarrow> i = account_id (VObj fs) \<and> (appId = None \<or> appSecret = None)
        | Inl NotWebsocket \<Rightarrow> setting ''connectionMode'' \<notin> {VUndef, VNull, VStr (js ''websocket'')}
        | Inr a \<Rightarrow> ac_accountId a = account_id (VObj fs) \<and> appId = Some (ac_appId a) \<and> appSecret = Some (ac_appSecret a)
            \<and> ac_appId a \<noteq> [] \<and> trim (ac_appId a) = ac_appId a
            \<and> setting ''connectionMode'' \<in> {VUndef, VNull, VStr (js ''websocket'')}
            \<and> field (ac_config a) k = setting k"
proof -
  let ?c = "spread (VObj fs) (VObj as)"
  have f: "field ?c x = (case mget as (js x) of Some v \<Rightarrow> v | None \<Rightarrow> field (VObj fs) x)" for x
    by (rule field_spread [OF assms(2)])
  have co: "coalesce (fieldOf (field (VObj fs) ''accounts'') (account_id (VObj fs))) (VObj []) = VObj as"
    unfolding assms(3) by (simp add: coalesce_def)
  have r: "resolveAccountConfig env config =
    (if field (VObj fs) ''enabled'' = VBool False then Inl NotConfigured
     else case (resolveSecretLike env (field ?c ''appId'') (Some ''LITTLEBABY_FEISHU_APP_ID''),
                resolveSecretLike env (field ?c ''appSecret'') (Some ''LITTLEBABY_FEISHU_APP_SECRET'')) of
             (Some i, Some s) \<Rightarrow>
               if coalesce (field ?c ''connectionMode'') (VStr (js ''websocket'')) \<noteq> VStr (js ''websocket'')
               then Inl NotWebsocket
               else Inr \<lparr> ac_accountId = account_id (VObj fs), ac_appId = i, ac_appSecret = s,
                      ac_domain = field ?c ''domain'', ac_config = ?c \<rparr>
           | _ \<Rightarrow> Inl (MissingCredentials (account_id (VObj fs))))"
    unfolding resolveAccountConfig_def Let_def assms(1) co by simp
  show ?thesis
    unfolding r Let_def f [symmetric]
    by (auto simp: coalesce_def dest: resolveSecretLike_Some split: option.splits if_splits)
qed

definition sample_channel :: jsval where
  "sample_channel = VObj [(js ''appId'', VStr (js ''cli_a'')), (js ''accounts'',
     VObj [(js ''a1'', VObj [(js ''appSecret'', VStr (js ''s1''))])])]"

theorem account_resolution_witness:
  "\<exists>a. resolveAccountConfig [] (VObj [(js ''channels'', VObj [(js ''feishu'', sample_channel)])]) = Inr a
     \<and> ac_accountId a = js ''a1'' \<and> ac_appId a = js ''cli_a''"
proof -
  let ?fs = "[(js ''appId'', VStr (js ''cli_a'')), (js ''accounts'',
     VObj [(js ''a1'', VObj [(js ''appSecret'', VStr (js ''s1''))])])]"
  let ?cfg = "VObj [(js ''channels'', VObj [(js ''feishu'', sample_channel)])]"
  have ch: "field (field ?cfg ''channels'') ''feishu'' = VObj ?fs"
    by (simp add: field_def sample_channel_def js_def)
  have i: "account_id (VObj ?fs) = js ''a1''"
    by (simp add: account_id_def field_def object_keys_def readString_def js_def)
  have acc: "fieldOf (field (VObj ?fs) ''accounts'') (account_id (VObj ?fs)) = VObj [(js ''appSecret'', VStr (js ''s1''))]"
    unfolding i by (simp add: fieldOf_def field_def js_def)
  have "\<not> isl (resolveAccountConfig [] ?cfg)" by code_simp
  then obtain a where a: "resolveAccountConfig [] ?cfg = Inr a" by (auto simp: isl_def) (metis sum.exhaust)
  have s: "resolveSecretLike [] (VStr (js ''cli_a'')) (Some ''LITTLEBABY_FEISHU_APP_ID'') = Some (js ''cli_a'')"
    by code_simp
  have n: "mget [(js ''appSecret'', VStr (js ''s1''))] (js ''appId'') = None"
    "field (VObj ?fs) ''appId'' = VStr (js ''cli_a'')"
    by (simp_all add: mget_def js_def field_def)
  show ?thesis
    using account_resolution [OF ch _ acc, of "[]"] a s n i by (simp add: Let_def)
qed

text \<open>The database settings. Without a user and a password from the environment or the file there is no database; a text of the
  environment wins over the file; and the restoring of recent messages cannot be turned
  off: a limit of zero or less in the file is replaced by 200.\<close>

theorem mysql_resolution:
  assumes "resolveMysqlMemoryConfig env config = Some c"
  shows "my_user c \<noteq> [] \<and> my_password c \<noteq> []
    \<and> (case readString (env_get env ''LITTLEBABY_MYSQL_USER'') of Some u \<Rightarrow> my_user c = u
       | None \<Rightarrow> readString (field (raw_mysql config) ''user'') = Some (my_user c))
    \<and> 0 \<le> my_restoreRecentLimit c
    \<and> (mget env (js ''LITTLEBABY_MYSQL_RESTORE_RECENT_LIMIT'') = None
        \<and> field (raw_mysql config) ''restoreRecentLimit'' = VNum (Fin (of_int n)) \<longrightarrow>
        my_restoreRecentLimit c = (if n \<le> 0 then 200 else n))"
proof -
  let ?raw = "raw_mysql config"
  have u: "text_setting env ''LITTLEBABY_MYSQL_USER'' ?raw ''user'' = Some (my_user c)"
    and p: "text_setting env ''LITTLEBABY_MYSQL_PASSWORD'' ?raw ''password'' = Some (my_password c)"
    and l: "my_restoreRecentLimit c =
      number_setting env ''LITTLEBABY_MYSQL_RESTORE_RECENT_LIMIT'' ?raw ''restoreRecentLimit'' 200"
    using assms by (auto simp: resolveMysqlMemoryConfig_def Let_def split: if_splits option.splits)
  have nonempty: "text_setting env v ?raw k = Some t \<Longrightarrow> t \<noteq> []" for v k t
    by (auto simp: text_setting_def orElse_def dest: readString_Some split: option.splits)
  have "0 \<le> my_restoreRecentLimit c"
    unfolding l number_setting_def default_def
    using readPositiveInteger_nonneg by (auto split: option.splits)
  moreover have "my_restoreRecentLimit c = (if n \<le> 0 then 200 else n)"
    if "mget env (js ''LITTLEBABY_MYSQL_RESTORE_RECENT_LIMIT'') = None"
      "field ?raw ''restoreRecentLimit'' = VNum (Fin (of_int n))"
    unfolding l number_setting_def env_get_def
    using that by (simp add: coalesce_def readPositiveInteger_def default_def)
  ultimately show ?thesis
    using u p nonempty by (auto simp: text_setting_def orElse_def split: option.splits)
qed

theorem mysql_resolution_witness:
  "\<exists>c. resolveMysqlMemoryConfig [] (VObj [(js ''mysql'', VObj [(js ''user'', VStr (js ''u'')), (js ''password'', VStr (js ''p'')),
      (js ''restoreRecentLimit'', VNum (Fin (of_int 0)))])]) = Some c \<and> my_restoreRecentLimit c = 200"
proof -
  let ?cfg = "VObj [(js ''mysql'', VObj [(js ''user'', VStr (js ''u'')), (js ''password'', VStr (js ''p'')),
      (js ''restoreRecentLimit'', VNum (Fin (of_int 0)))])]"
  have "\<not> Option.is_none (resolveMysqlMemoryConfig [] ?cfg)" by code_simp
  then obtain c where c: "resolveMysqlMemoryConfig [] ?cfg = Some c" by (auto simp: Option.is_none_def)
  have "field (raw_mysql ?cfg) ''restoreRecentLimit'' = VNum (Fin (of_int 0))"
    by (simp add: raw_mysql_def field_def coalesce_def js_def)
  then show ?thesis using mysql_resolution [OF c, of 0] c by simp
qed

text \<open>The only caller asks for the fallback with index 1, so the first fallback is never the one named.\<close>

lemma fallback_skips_first:
  "field (field (field (field config ''agents'') ''defaults'') ''model'') ''fallbacks'' = VArr (f0 # f1 # fs) \<Longrightarrow>
   readString f1 = Some m \<Longrightarrow> resolveModelId config 1 = strip_zai m"
  by (simp add: resolveModelId_def Let_def index_list_def orElse_def default_def)

text \<open>A resolved path has no empty, dot or double-dot segment left.\<close>

lemma segments_clean: "list_all (\<lambda>s. s \<noteq> [] \<and> s \<noteq> js ''.'' \<and> s \<noteq> js ''..'') (segments True p)"
proof -
  have "list_all (\<lambda>s. s \<noteq> [] \<and> s \<noteq> js ''.'' \<and> s \<noteq> js ''..'') (fold (push_segment True) ss acc)"
    if "list_all (\<lambda>s. s \<noteq> [] \<and> s \<noteq> js ''.'' \<and> s \<noteq> js ''..'') acc" for ss acc
    using that
  proof (induction ss arbitrary: acc)
    case (Cons x ss)
    have "list_all (\<lambda>s. s \<noteq> [] \<and> s \<noteq> js ''.'' \<and> s \<noteq> js ''..'') (push_segment True x acc)"
      using Cons.prems by (auto simp: push_segment_def list_all_iff dest: in_set_butlastD)
    then show ?case using Cons.IH by simp
  qed simp
  then show ?thesis by (simp add: segments_def)
qed

end
