(* ===== verification/MemoryStore.thy ===== *)
theory MemoryStore
  imports ServiceState ServiceConfig
begin

text \<open>
  \<open>MysqlMemoryStore\<close> (\<open>src/src/feishu-service.ts\<close>).  The database is outside: \<open>db\<close> gives the answer
  to each statement an operation issues, and an operation returns the statements it issued,
  in order.  A statement is a constructor of \<open>db_call\<close> with the parameters that are bound in it.
  \<open>hash\<close> is \<open>sha256Hex\<close>, \<open>millis\<close> is \<open>rowDateToMillis\<close> on a column of a row.
\<close>

section \<open>Data\<close>

datatype db_call =
    Ping
  | UpsertSession jsstr jsstr jsstr jsstr "jsstr option" jsnum
  | SelectSession jsstr
  | InsertUser int jsstr jsstr "jsstr option" "jsstr option" jsstr "jsstr option" jsstr jsstr jsstr bool bool
      "jsstr option" "jsstr option" jsnum
  | InsertAssistant int jsstr jsstr "jsstr option" "jsstr option" jsstr jsstr "int option" "jsstr option" jsnum
  | TouchSession int "int option" jsnum "jsnum option"
  | InsertTurn int "int option" jsstr "jsstr option" nat
  | UpdateTurn int bool nat "jsstr option"
  | InsertToolCall int "jsstr option" jsstr jsstr jsstr "jsstr option" "jsstr option" bool nat int "jsstr option"
  | SelectDocuments
  | SelectRecent int

datatype db_result = DbFails | DbInserted int | DbRows "jsval list"

record memory =
  mem_open :: bool
  mem_sessionIds :: "(jsstr, int) jsmap"
  mem_prompt :: jsstr
  mem_loadedAt :: int
  mem_config :: mysql_config

type_synonym database = "db_call \<Rightarrow> db_result"

section \<open>Sessions\<close>

text \<open>\<open>Number(result.insertId)\<close>, and the id of the first row; a failed statement throws.\<close>

definition inserted_id :: "db_result \<Rightarrow> int option" where
  "inserted_id r = (case r of DbFails \<Rightarrow> None | DbInserted i \<Rightarrow> Some i | DbRows _ \<Rightarrow> Some 0)"

definition first_row_id :: "db_result \<Rightarrow> int option" where
  "first_row_id r = (case r of
     DbRows (v # _) \<Rightarrow> (case field v ''id'' of VNum (Fin q) \<Rightarrow> Some \<lfloor>q\<rfloor> | _ \<Rightarrow> Some 0)
   | DbFails \<Rightarrow> None | _ \<Rightarrow> Some 0)"

definition thread_of_event :: "fevent \<Rightarrow> jsstr option" where
  "thread_of_event e = first_nonempty [root_id e, thread_id e]"

definition upsertSession :: "database \<Rightarrow> jsstr \<Rightarrow> jsstr \<Rightarrow> fevent \<Rightarrow> jsnum \<Rightarrow> memory
    \<Rightarrow> (int option \<times> memory) \<times> db_call list" where
  "upsertSession db accountId key e lastAt m =
    (case mget (mem_sessionIds m) key of
       Some i \<Rightarrow> if i \<noteq> 0 then ((Some i, m), []) else ((None, m), [])
     | None \<Rightarrow>
        if \<not> mem_open m then ((None, m), [])
        else
         (let c1 = UpsertSession key accountId (sessionTypeFor e) (chat_id e) (thread_of_event e) lastAt in
          case inserted_id (db c1) of
            None \<Rightarrow> ((None, m), [c1])
          | Some i \<Rightarrow>
             if i \<noteq> 0 then ((Some i, m\<lparr> mem_sessionIds := mput (mem_sessionIds m) key i \<rparr>), [c1])
             else (let c2 = SelectSession key in
               case first_row_id (db c2) of
                 None \<Rightarrow> ((None, m), [c1, c2])
               | Some j \<Rightarrow>
                  if j \<noteq> 0 then ((Some j, m\<lparr> mem_sessionIds := mput (mem_sessionIds m) key j \<rparr>), [c1, c2])
                  else ((None, m), [c1, c2]))))"

definition nonzero :: "int \<Rightarrow> int option" where
  "nonzero i = (if i = 0 then None else Some i)"

section \<open>Messages\<close>

record user_params =
  up_accountId :: jsstr
  up_event :: fevent
  up_rawEvent :: jsval
  up_sessionKey :: jsstr
  up_content :: jsstr
  up_senderName :: jsstr
  up_mentionedBot :: bool
  up_shouldReply :: bool

definition jsonForDb :: "jsval \<Rightarrow> jsstr option" where
  "jsonForDb v = (if v = VUndef then None else json_stringify [] v)"

definition optional_text :: "jsstr option \<Rightarrow> jsval" where
  "optional_text x = (case x of Some s \<Rightarrow> VStr s | None \<Rightarrow> VNull)"

definition user_metadata :: "fevent \<Rightarrow> jsval" where
  "user_metadata e = VObj ([(js ''chatType'', VStr (chat_type e))]
     @ (case sender_type e of Some s \<Rightarrow> [(js ''senderType'', VStr s)] | None \<Rightarrow> [])
     @ [(js ''threadId'', optional_text (thread_id e))])"

definition recordUserMessage :: "database \<Rightarrow> (jsstr \<Rightarrow> jsstr) \<Rightarrow> user_params \<Rightarrow> int \<Rightarrow> memory
    \<Rightarrow> (db_ref option \<times> memory) \<times> db_call list" where
  "recordUserMessage db hash p now m =
    (let e = up_event p;
         createdAt = default (Fin (of_int now)) (feishuMessageDate e);
         ((sid, m1), calls) = upsertSession db (up_accountId p) (up_sessionKey p) e createdAt m
     in case sid of
          None \<Rightarrow> ((None, m1), calls)
        | Some sessionId \<Rightarrow>
           if \<not> mem_open m1 then ((None, m1), calls)
           else
            (let insert = InsertUser sessionId (up_accountId p) (message_id e) (root_id e) (parent_id e)
                   (message_type e) (senderIdFor e) (up_senderName p) (up_content p) (hash (up_content p))
                   (up_mentionedBot p) (up_shouldReply p)
                   (if my_saveRawEvent (mem_config m1) then jsonForDb (up_rawEvent p) else None)
                   (jsonForDb (user_metadata e)) createdAt
             in case inserted_id (db insert) of
                  None \<Rightarrow> ((None, m1), calls @ [insert])
                | Some messageId \<Rightarrow>
                   (let touch = TouchSession sessionId (nonzero messageId) createdAt None in
                    case db touch of
                      DbFails \<Rightarrow> ((None, m1), calls @ [insert, touch])
                    | _ \<Rightarrow> ((Some \<lparr> ref_sessionId = sessionId, ref_messageId = messageId \<rparr>, m1), calls @ [insert, touch]))))"

record assistant_params =
  ap_accountId :: jsstr
  ap_event :: fevent
  ap_sessionKey :: jsstr
  ap_content :: jsstr
  ap_aiTurnId :: "int option"
  ap_chunkCount :: nat

definition recordAssistantMessage :: "database \<Rightarrow> (jsstr \<Rightarrow> jsstr) \<Rightarrow> assistant_params \<Rightarrow> int \<Rightarrow> memory
    \<Rightarrow> (db_ref option \<times> memory) \<times> db_call list" where
  "recordAssistantMessage db hash p now m =
    (let e = ap_event p; createdAt = Fin (of_int now);
         ((sid, m1), calls) = upsertSession db (ap_accountId p) (ap_sessionKey p) e createdAt m
     in case sid of
          None \<Rightarrow> ((None, m1), calls)
        | Some sessionId \<Rightarrow>
           if \<not> mem_open m1 then ((None, m1), calls)
           else
            (let insert = InsertAssistant sessionId (ap_accountId p) (message_id e) (root_id e) (parent_id e)
                   (ap_content p) (hash (ap_content p)) (ap_aiTurnId p)
                   (jsonForDb (VObj [(js ''chunkCount'', VNum (Fin (of_nat (ap_chunkCount p))))])) createdAt
             in case inserted_id (db insert) of
                  None \<Rightarrow> ((None, m1), calls @ [insert])
                | Some messageId \<Rightarrow>
                   (let touch = TouchSession sessionId (nonzero messageId) createdAt (Some createdAt) in
                    case db touch of
                      DbFails \<Rightarrow> ((None, m1), calls @ [insert, touch])
                    | _ \<Rightarrow> ((Some \<lparr> ref_sessionId = sessionId, ref_messageId = messageId \<rparr>, m1), calls @ [insert, touch]))))"

section \<open>Turns and tool calls\<close>

definition startAiTurn :: "database \<Rightarrow> int \<Rightarrow> int option \<Rightarrow> jsstr \<Rightarrow> jsstr option \<Rightarrow> nat \<Rightarrow> memory
    \<Rightarrow> int option \<times> db_call list" where
  "startAiTurn db sessionId trigger model fallback messageCount m =
    (if \<not> mem_open m then (None, [])
     else (let c = InsertTurn sessionId (case trigger of Some t \<Rightarrow> if t > 0 then Some t else None | None \<Rightarrow> None)
                     model fallback messageCount
           in (Option.bind (inserted_id (db c)) nonzero, [c])))"

definition stored_error :: "jsstr option \<Rightarrow> jsstr option" where
  "stored_error x = map_option (\<lambda>t. truncateForDb t 4000) (first_nonempty [x])"

definition finishAiTurn :: "database \<Rightarrow> int option \<Rightarrow> bool \<Rightarrow> nat \<Rightarrow> jsstr option \<Rightarrow> memory \<Rightarrow> db_call list" where
  "finishAiTurn db turn success toolRounds err m =
    (case Option.bind turn nonzero of
       None \<Rightarrow> []
     | Some t \<Rightarrow> if \<not> mem_open m then [] else [UpdateTurn t success toolRounds (stored_error err)])"

record tool_call_params =
  tc_aiTurnId :: "int option"
  tc_toolCallId :: "jsstr option"
  tc_serverName :: jsstr
  tc_toolName :: jsstr
  tc_openAiToolName :: jsstr
  tc_args :: jsval
  tc_success :: bool
  tc_attempts :: nat
  tc_timeoutMs :: int
  tc_resultPreview :: "jsstr option"
  tc_errorMessage :: "jsstr option"

definition recordToolCall :: "tool_call_params \<Rightarrow> memory \<Rightarrow> db_call list" where
  "recordToolCall p m =
    (case Option.bind (tc_aiTurnId p) nonzero of
       None \<Rightarrow> []
     | Some t \<Rightarrow> if \<not> mem_open m then []
         else [InsertToolCall t (tc_toolCallId p) (tc_serverName p) (tc_toolName p) (tc_openAiToolName p)
           (jsonForDb (tc_args p)) (map_option (\<lambda>r. truncateForDb r 8000) (first_nonempty [tc_resultPreview p]))
           (tc_success p) (tc_attempts p) (tc_timeoutMs p) (stored_error (tc_errorMessage p))])"

section \<open>Context documents\<close>

definition CONTEXT_DOCUMENT_REFRESH_MS :: int where "CONTEXT_DOCUMENT_REFRESH_MS = 60000"

definition document_of_row :: "jsval \<Rightarrow> context_document option" where
  "document_of_row row =
    (case (readString (field row ''name''), field row ''content'') of
       (Some name, VStr c) \<Rightarrow> if blank c then None
         else Some \<lparr> doc_name = name, doc_type = default (js ''note'') (readString (field row ''doc_type'')),
                doc_title = readString (field row ''title''), doc_content = c \<rparr>
     | _ \<Rightarrow> None)"

definition refreshContextDocuments :: "database \<Rightarrow> int \<Rightarrow> memory \<Rightarrow> memory \<times> db_call list" where
  "refreshContextDocuments db now m =
    (if \<not> mem_open m then (m\<lparr> mem_prompt := [], mem_loadedAt := now \<rparr>, [])
     else (case db SelectDocuments of
       DbRows rows \<Rightarrow> (m\<lparr> mem_prompt := buildContextDocumentsPrompt (somes (map document_of_row rows)),
                        mem_loadedAt := now \<rparr>, [SelectDocuments])
     | _ \<Rightarrow> (m\<lparr> mem_prompt := [], mem_loadedAt := now \<rparr>, [SelectDocuments])))"

definition getContextDocumentsPrompt :: "database \<Rightarrow> int \<Rightarrow> memory \<Rightarrow> (jsstr \<times> memory) \<times> db_call list" where
  "getContextDocumentsPrompt db now m =
    (let (m1, calls) = (if now - mem_loadedAt m > CONTEXT_DOCUMENT_REFRESH_MS
        then refreshContextDocuments db now m else (m, []))
     in ((mem_prompt m1, m1), calls))"

section \<open>Opening, restoring and closing\<close>

definition row_entry :: "(jsval \<Rightarrow> jsnum) \<Rightarrow> jsval \<Rightarrow> (jsstr \<times> history_entry) option" where
  "row_entry millis row =
    (let content = (case field row ''content'' of VStr c \<Rightarrow> c | _ \<Rightarrow> []) in
     case readString (field row ''session_key'') of
       None \<Rightarrow> None
     | Some key \<Rightarrow> if blank content then None
         else Some (key, \<lparr> ce_role = (if field row ''role'' = VStr (js ''assistant'') then RoleAssistant else RoleUser),
           ce_name = readString (field row ''sender_name''), ce_content = content,
           ce_ts = millis (field row ''created_at'') \<rparr>))"

fun group_entries :: "(jsstr \<times> history_entry) list \<Rightarrow> (jsstr, history_entry list) jsmap
    \<Rightarrow> (jsstr, history_entry list) jsmap" where
  "group_entries [] restored = restored"
| "group_entries ((key, e) # r) restored =
     group_entries r (mput restored key (default [] (mget restored key) @ [e]))"

definition set_conversations :: "(jsstr, history_entry list) jsmap \<Rightarrow> module_state \<Rightarrow> module_state" where
  "set_conversations restored s = s\<lparr> conversations :=
     fold (\<lambda>(k, es) c. mput c k es) restored (conversations s) \<rparr>"

text \<open>\<open>None\<close>: the statement throws, and with it \<open>initializeMemoryStore\<close> gives the store up.\<close>

definition restoreRecentConversations :: "database \<Rightarrow> (jsval \<Rightarrow> jsnum) \<Rightarrow> memory \<Rightarrow> module_state
    \<Rightarrow> module_state option \<times> db_call list" where
  "restoreRecentConversations db millis m s =
    (let limit = my_restoreRecentLimit (mem_config m) in
     if \<not> mem_open m then (None, [])
     else if limit \<le> 0 then (Some s, [])
     else (case db (SelectRecent limit) of
       DbRows rows \<Rightarrow> (Some (set_conversations (group_entries (somes (map (row_entry millis) rows)) []) s),
                        [SelectRecent limit])
     | _ \<Rightarrow> (None, [SelectRecent limit])))"

definition closed_memory :: "mysql_config \<Rightarrow> memory" where
  "closed_memory c = \<lparr> mem_open = False, mem_sessionIds = [], mem_prompt = [], mem_loadedAt = 0, mem_config = c \<rparr>"

definition mem_initialize :: "database \<Rightarrow> int \<Rightarrow> memory \<Rightarrow> memory option" where
  "mem_initialize db now m = (let m1 = m\<lparr> mem_open := True \<rparr> in
     case db Ping of DbFails \<Rightarrow> None | _ \<Rightarrow> Some (fst (refreshContextDocuments db now m1)))"

definition mem_close :: "memory \<Rightarrow> memory" where
  "mem_close m = (if \<not> mem_open m then m else m\<lparr> mem_open := False \<rparr>)"

definition initializeMemoryStore :: "database \<Rightarrow> (jsval \<Rightarrow> jsnum) \<Rightarrow> process_env \<Rightarrow> jsval \<Rightarrow> int \<Rightarrow> module_state
    \<Rightarrow> memory option \<times> module_state" where
  "initializeMemoryStore db millis env config now s =
    (case resolveMysqlMemoryConfig env config of
       None \<Rightarrow> (None, s)
     | Some c \<Rightarrow>
        (case mem_initialize db now (closed_memory c) of
           None \<Rightarrow> (None, s)
         | Some m \<Rightarrow>
            (case fst (restoreRecentConversations db millis m s) of
               None \<Rightarrow> (None, s) | Some s1 \<Rightarrow> (Some m, s1))))"

section \<open>Lemmas\<close>

lemma mget_group:
  "mget (group_entries es r) k = (let mine = map snd (filter (\<lambda>p. fst p = k) es) in
     if mine = [] then mget r k else Some (default [] (mget r k) @ mine))"
  by (induction es r rule: group_entries.induct) (auto simp: Let_def default_def)

lemma distinct_group: "distinct (mkeys r) \<Longrightarrow> distinct (mkeys (group_entries es r))"
  by (induction es r rule: group_entries.induct) simp_all

lemma mget_set_conversations:
  "distinct (mkeys r) \<Longrightarrow> mget (conversations (set_conversations r s)) k
     = (case mget r k of Some es \<Rightarrow> Some es | None \<Rightarrow> mget (conversations s) k)"
proof -
  assume d: "distinct (mkeys r)"
  have "distinct (mkeys r) \<Longrightarrow> mget (fold (\<lambda>(k, es) c. mput c k es) r c) k
      = (case mget r k of Some es \<Rightarrow> Some es | None \<Rightarrow> mget c k)" for c
  proof (induction r arbitrary: c)
    case (Cons a r)
    then show ?case
      using mget_None_iff [of r "fst a"] by (cases a) (auto simp: mget_def jm.get_put [unfolded mget_def] split: option.splits)
  qed simp
  with d show ?thesis by (simp add: set_conversations_def)
qed

lemma upsert_spec:
  assumes "upsertSession db acc key e t m = ((r, m'), calls)"
  shows "mem_open m' = mem_open m \<and> mem_config m' = mem_config m
    \<and> (case r of Some i \<Rightarrow> i \<noteq> 0 \<and> mget (mem_sessionIds m') key = Some i | None \<Rightarrow> m' = m)
    \<and> (mhas (mem_sessionIds m) key \<longrightarrow> calls = [] \<and> m' = m) \<and> length calls \<le> 2"
  using assms
  by (auto simp: upsertSession_def Let_def mhas_mget split: option.splits if_splits)

section \<open>Properties\<close>

text \<open>Restoring from the database. When the query answers, the history of every session named in a row is exactly that of its
  usable rows, in row order, replacing what the state file had; other sessions keep theirs.\<close>

theorem restore_groups_rows:
  assumes "mem_open m" and "0 < my_restoreRecentLimit (mem_config m)"
    and "db (SelectRecent (my_restoreRecentLimit (mem_config m))) = DbRows rows"
  shows "\<exists>t. fst (restoreRecentConversations db millis m s) = Some t
    \<and> mget (conversations t) k =
        (let mine = map snd (filter (\<lambda>p. fst p = k) (somes (map (row_entry millis) rows)))
         in if mine = [] then mget (conversations s) k else Some mine)"
  using assms mget_set_conversations [OF distinct_group [of "[]"], of "somes (map (row_entry millis) rows)" s k]
  by (simp add: restoreRecentConversations_def Let_def mget_group default_def)

definition sample_mysql :: mysql_config where
  "sample_mysql = \<lparr> my_host = js ''h'', my_port = 3306, my_user = js ''u'', my_password = js ''p'',
     my_database = js ''d'', my_connectionLimit = 5, my_restoreRecentLimit = 200, my_saveRawEvent = False \<rparr>"

definition sample_row :: jsval where
  "sample_row = VObj [(js ''session_key'', VStr (js ''k'')), (js ''role'', VStr (js ''user'')),
     (js ''content'', VStr (js ''hello''))]"

theorem restore_groups_rows_witness:
  "\<exists>t es. fst (restoreRecentConversations (\<lambda>c. DbRows [sample_row]) (\<lambda>v. Fin 7)
       ((closed_memory sample_mysql)\<lparr> mem_open := True \<rparr>) new_module_state) = Some t
     \<and> mget (conversations t) (js ''k'') = Some es \<and> map ce_content es = [js ''hello'']"
proof -
  have "row_entry (\<lambda>v. Fin 7) sample_row = Some (js ''k'', \<lparr> ce_role = RoleUser, ce_name = None,
      ce_content = js ''hello'', ce_ts = Fin 7 \<rparr>)" by code_simp
  then show ?thesis
    using restore_groups_rows [of "(closed_memory sample_mysql)\<lparr> mem_open := True \<rparr>" "\<lambda>c. DbRows [sample_row]"
        "[sample_row]" "\<lambda>v. Fin 7" new_module_state "js ''k''"]
    by (force simp: closed_memory_def sample_mysql_def Let_def somes_def)
qed

text \<open>Recording a message. The store never throws: a failed statement gives no reference; a reference names a session id that is not
  zero and is cached under the key; a cached key costs no session statement; the
  statements are at most four, ending with the insertion and the touch of that session.\<close>

theorem record_user_message:
  assumes "recordUserMessage db hash p now m = ((r, m'), calls)"
  shows "length calls \<le> 4
    \<and> (case r of
         None \<Rightarrow> True
       | Some ref \<Rightarrow> ref_sessionId ref \<noteq> 0
          \<and> mget (mem_sessionIds m') (up_sessionKey p) = Some (ref_sessionId ref) \<and> mem_open m
          \<and> (\<exists>pre ins c t. calls = pre @ [ins, TouchSession (ref_sessionId ref) c t None] \<and> length pre \<le> 2
               \<and> db ins \<noteq> DbFails \<and> (mhas (mem_sessionIds m) (up_sessionKey p) \<longrightarrow> pre = [])))"
proof -
  let ?t = "default (Fin (of_int now)) (feishuMessageDate (up_event p))"
  obtain sid m1 cs where u: "upsertSession db (up_accountId p) (up_sessionKey p) (up_event p) ?t m = ((sid, m1), cs)"
    by (metis prod.collapse)
  note spec = upsert_spec [OF u]
  have ins: "inserted_id r \<noteq> None \<Longrightarrow> r \<noteq> DbFails" for r by (auto simp: inserted_id_def)
  show ?thesis
    using assms spec u ins
    by (auto simp: recordUserMessage_def Let_def split: option.splits if_splits db_result.splits)
qed

theorem record_user_message_witness:
  "\<exists>ref. fst (fst (recordUserMessage (\<lambda>c. DbInserted 5) (\<lambda>s. s) \<lparr> up_accountId = js ''main'', up_event = sample_event,
      up_rawEvent = VUndef, up_sessionKey = js ''k'', up_content = js ''hello'', up_senderName = js ''n'',
      up_mentionedBot = False, up_shouldReply = True \<rparr> 9 ((closed_memory sample_mysql)\<lparr> mem_open := True \<rparr>))) = Some ref
    \<and> ref_sessionId ref \<noteq> 0"
proof -
  let ?p = "\<lparr> up_accountId = js ''main'', up_event = sample_event,
      up_rawEvent = VUndef, up_sessionKey = js ''k'', up_content = js ''hello'', up_senderName = js ''n'',
      up_mentionedBot = False, up_shouldReply = True \<rparr>"
  let ?r = "recordUserMessage (\<lambda>c. DbInserted 5) (\<lambda>s. s) ?p 9 ((closed_memory sample_mysql)\<lparr> mem_open := True \<rparr>)"
  have "\<not> Option.is_none (fst (fst ?r))" by code_simp
  then obtain ref where ref: "fst (fst ?r) = Some ref" by (auto simp: Option.is_none_def)
  have "?r = ((fst (fst ?r), snd (fst ?r)), snd ?r)" by simp
  from record_user_message [OF this] ref show ?thesis by auto
qed

text \<open>Turns and tool calls are only written for a known turn, and their errors are cut.\<close>

lemma finish_without_turn: "finishAiTurn db None ok n err m = [] \<and> finishAiTurn db (Some 0) ok n err m = []"
  by (simp add: finishAiTurn_def nonzero_def)

lemma stored_error_length: "stored_error (Some t) = Some u \<Longrightarrow> length u \<le> 4028"
  by (auto simp: stored_error_def truncateForDb_def js_def split: if_splits)

text \<open>The prompt is at most a minute old, and a failing query empties it.\<close>

lemma context_prompt_fresh:
  "getContextDocumentsPrompt db now m = ((txt, m'), calls) \<Longrightarrow> now - mem_loadedAt m' \<le> CONTEXT_DOCUMENT_REFRESH_MS"
  by (auto simp: getContextDocumentsPrompt_def refreshContextDocuments_def Let_def CONTEXT_DOCUMENT_REFRESH_MS_def
      split: if_splits db_result.splits)

end
