(* ===== verification/QueueHelpers.thy ===== *)
theory QueueHelpers
  imports JsValue
begin

text \<open>
  The queue helpers of \<open>src/src/utils/queue-helpers.ts\<close>: the summary of dropped items, the drop policy at
  the capacity, the runtime settings, the prompts, and the test for items of several channels.
  The asynchronous helpers (\<open>waitForQueueDebounce\<close>, \<open>drainNextQueueItem\<close>, \<open>drainCollectQueueStep\<close>) are
  part of the drain in FollowupQueue, which is their only modelled client.  The test-only
  switch that turns the debounce off is left out.
\<close>

section \<open>Queue state\<close>

datatype drop_policy = Summarize | DropOld | DropNew

record queue_summary =
  qs_dropPolicy :: drop_policy
  qs_droppedCount :: nat
  qs_summaryLines :: "jsstr list"

record 'a queue_state = queue_summary +
  q_items :: "'a list"
  q_cap :: jsnum

definition clearQueueSummaryState :: "'z queue_summary_scheme \<Rightarrow> 'z queue_summary_scheme" where
  "clearQueueSummaryState s = s\<lparr> qs_droppedCount := 0, qs_summaryLines := [] \<rparr>"

section \<open>Numbers\<close>

definition num_le :: "jsnum \<Rightarrow> jsnum \<Rightarrow> bool" where
  "num_le a b = (case (a, b) of
     (Fin p, Fin q) \<Rightarrow> p \<le> q | (NaN, _) \<Rightarrow> False | (_, NaN) \<Rightarrow> False | (NegInf, _) \<Rightarrow> True | (_, PosInf) \<Rightarrow> True | _ \<Rightarrow> False)"

definition num_less :: "jsnum \<Rightarrow> jsnum \<Rightarrow> bool" where
  "num_less a b \<longleftrightarrow> num_le a b \<and> \<not> num_le b a"

text \<open>\<open>Math.max(0, n)\<close> and \<open>Math.floor(n)\<close>.\<close>

definition num_max0 :: "jsnum \<Rightarrow> jsnum" where
  "num_max0 n = (case n of Fin q \<Rightarrow> Fin (max 0 q) | NegInf \<Rightarrow> Fin 0 | m \<Rightarrow> m)"

definition num_floor :: "jsnum \<Rightarrow> jsnum" where
  "num_floor n = (case n of Fin q \<Rightarrow> Fin (of_int \<lfloor>q\<rfloor>) | m \<Rightarrow> m)"

definition num_of :: "nat \<Rightarrow> jsnum" where
  "num_of n = Fin (of_nat n)"

section \<open>Runtime settings\<close>

text \<open>\<open>typeof cap === "number" && cap > 0 ? Math.floor(cap) : fallback\<close>, and the same for the debounce.\<close>

definition cap_setting :: "jsnum option \<Rightarrow> jsnum \<Rightarrow> jsnum" where
  "cap_setting c fallback = (case c of Some n \<Rightarrow> if num_less (Fin 0) n then num_floor n else fallback | None \<Rightarrow> fallback)"

definition debounce_setting :: "jsnum option \<Rightarrow> jsnum \<Rightarrow> jsnum" where
  "debounce_setting d fallback = (case d of Some n \<Rightarrow> num_max0 n | None \<Rightarrow> fallback)"

record 'm queue_target =
  qt_mode :: 'm
  qt_debounceMs :: jsnum
  qt_cap :: jsnum
  qt_dropPolicy :: drop_policy

record 'm queue_settings =
  set_mode :: 'm
  set_debounceMs :: "jsnum option"
  set_cap :: "jsnum option"
  set_dropPolicy :: "drop_policy option"

definition applyQueueRuntimeSettings :: "'m queue_settings \<Rightarrow> 'm queue_target \<Rightarrow> 'm queue_target" where
  "applyQueueRuntimeSettings settings target =
    \<lparr> qt_mode = set_mode settings,
      qt_debounceMs = debounce_setting (set_debounceMs settings) (qt_debounceMs target),
      qt_cap = cap_setting (set_cap settings) (qt_cap target),
      qt_dropPolicy = (case set_dropPolicy settings of Some p \<Rightarrow> p | None \<Rightarrow> qt_dropPolicy target) \<rparr>"

section \<open>Summary lines\<close>

definition elideQueueText :: "jsstr \<Rightarrow> nat \<Rightarrow> jsstr" where
  "elideQueueText text limit =
    (if length text \<le> limit then text else trimEnd (take (limit - 1) text) @ [0x2026])"

text \<open>\<open>replace(/\s+/g, " ")\<close>.\<close>

fun squash_space :: "jsstr \<Rightarrow> jsstr" where
  "squash_space [] = []"
| "squash_space [c] = (if is_space c then [0x20] else [c])"
| "squash_space (c # d # s) =
    (if is_space c then (if is_space d then squash_space (d # s) else 0x20 # squash_space (d # s))
     else c # squash_space (d # s))"

definition buildQueueSummaryLine :: "jsstr \<Rightarrow> nat \<Rightarrow> jsstr" where
  "buildQueueSummaryLine text limit = elideQueueText (trim (squash_space text)) limit"

section \<open>The drop policy\<close>

definition shouldSkipQueueItem :: "('a \<Rightarrow> 'a list \<Rightarrow> bool) option \<Rightarrow> 'a \<Rightarrow> 'a list \<Rightarrow> bool" where
  "shouldSkipQueueItem dedupe item items = (case dedupe of None \<Rightarrow> False | Some f \<Rightarrow> f item items)"

definition has_room :: "jsnum \<Rightarrow> nat \<Rightarrow> bool" where
  "has_room cap n \<longleftrightarrow> num_le cap (Fin 0) \<or> num_less (num_of n) cap"

text \<open>\<open>items.length - cap + 1\<close>, as a count for \<open>splice\<close>.\<close>

definition drop_count :: "nat \<Rightarrow> jsnum \<Rightarrow> nat" where
  "drop_count n cap = (case cap of Fin q \<Rightarrow> nat (int n - \<lfloor>q\<rfloor> + 1) | _ \<Rightarrow> 0)"

text \<open>\<open>Math.max(0, summaryLimit ?? cap)\<close>: the lines that stay, the last ones.\<close>

definition keep_lines :: "jsnum \<Rightarrow> jsstr list \<Rightarrow> jsstr list" where
  "keep_lines limit ls = (case num_max0 limit of Fin q \<Rightarrow> take_last (nat \<lfloor>q\<rfloor>) ls | _ \<Rightarrow> ls)"

definition applyQueueDropPolicy :: "('a \<Rightarrow> jsstr) \<Rightarrow> jsnum option \<Rightarrow> ('a, 'z) queue_state_scheme
    \<Rightarrow> bool \<times> ('a, 'z) queue_state_scheme" where
  "applyQueueDropPolicy summarize summaryLimit q =
    (let cap = q_cap q; n = length (q_items q) in
     if has_room cap n then (True, q)
     else if qs_dropPolicy q = DropNew then (False, q)
     else (let k = drop_count n cap; dropped = take k (q_items q); q1 = q\<lparr> q_items := drop k (q_items q) \<rparr> in
       if qs_dropPolicy q = Summarize
       then (True, q1\<lparr> qs_droppedCount := qs_droppedCount q + length dropped,
            qs_summaryLines := keep_lines (case summaryLimit of Some l \<Rightarrow> l | None \<Rightarrow> cap)
              (qs_summaryLines q @ map (\<lambda>i. buildQueueSummaryLine (summarize i) 160) dropped) \<rparr>)
       else (True, q1)))"

section \<open>Prompts\<close>

definition summary_title :: "nat \<Rightarrow> jsstr \<Rightarrow> jsstr" where
  "summary_title n noun = js ''[Queue overflow] Dropped '' @ nat_str n @ js '' '' @ noun
     @ (if n = 1 then [] else js ''s'') @ js '' due to cap.''"

definition buildQueueSummaryPrompt :: "jsstr \<Rightarrow> jsstr option \<Rightarrow> 'z queue_summary_scheme
    \<Rightarrow> jsstr option \<times> 'z queue_summary_scheme" where
  "buildQueueSummaryPrompt noun title s =
    (if qs_dropPolicy s \<noteq> Summarize \<or> qs_droppedCount s = 0 then (None, s)
     else (let t = (case title of Some t \<Rightarrow> t | None \<Rightarrow> summary_title (qs_droppedCount s) noun);
               ls = (if qs_summaryLines s = [] then []
                     else js ''Summary:'' # map (\<lambda>l. js ''- '' @ l) (qs_summaryLines s))
           in (Some (join [0x0A] (t # ls)), clearQueueSummaryState s)))"

definition previewQueueSummaryPrompt :: "jsstr \<Rightarrow> jsstr option \<Rightarrow> 'z queue_summary_scheme \<Rightarrow> jsstr option" where
  "previewQueueSummaryPrompt noun title s = fst (buildQueueSummaryPrompt noun title s)"

definition buildCollectPrompt :: "jsstr \<Rightarrow> 'a list \<Rightarrow> jsstr option \<Rightarrow> ('a \<Rightarrow> nat \<Rightarrow> jsstr) \<Rightarrow> jsstr" where
  "buildCollectPrompt title items summary renderItem =
    join [0x0A, 0x0A] (title # (case summary of Some s \<Rightarrow> if s = [] then [] else [s] | None \<Rightarrow> [])
      @ map (\<lambda>(i, idx). renderItem i idx) (zip items [0..<length items]))"

section \<open>Items of several channels\<close>

datatype channel_key = Cross | Unkeyed | Keyed jsstr

text \<open>The loop of \<open>hasCrossChannelItems\<close>: the keys seen and whether an item had none.\<close>

fun cross_loop :: "('a \<Rightarrow> channel_key) \<Rightarrow> 'a list \<Rightarrow> jsstr list \<Rightarrow> bool \<Rightarrow> bool" where
  "cross_loop resolveKey [] keys hasUnkeyed =
    (if keys = [] then False else if hasUnkeyed then True else 1 < length keys)"
| "cross_loop resolveKey (i # items) keys hasUnkeyed = (case resolveKey i of
     Cross \<Rightarrow> True
   | Unkeyed \<Rightarrow> cross_loop resolveKey items keys True
   | Keyed k \<Rightarrow> if k = [] then cross_loop resolveKey items keys True
       else cross_loop resolveKey items (sadd keys k) hasUnkeyed)"

definition hasCrossChannelItems :: "'a list \<Rightarrow> ('a \<Rightarrow> channel_key) \<Rightarrow> bool" where
  "hasCrossChannelItems items resolveKey = cross_loop resolveKey items [] False"

section \<open>Lemmas\<close>

lemma num_le_Fin [simp]: "num_le (Fin p) (Fin q) \<longleftrightarrow> p \<le> q"
  by (simp add: num_le_def)

lemma num_less_Fin [simp]: "num_less (Fin p) (Fin q) \<longleftrightarrow> p < q"
  by (auto simp: num_less_def)

lemma length_elide: "0 < limit \<Longrightarrow> length (elideQueueText t limit) \<le> limit"
  using length_trimEnd_le [of "take (limit - 1) t"] by (auto simp: elideQueueText_def)

lemma clear_summary_fields [simp]:
  "qs_droppedCount (clearQueueSummaryState s) = 0" "qs_summaryLines (clearQueueSummaryState s) = []"
  "qs_dropPolicy (clearQueueSummaryState s) = qs_dropPolicy s"
  by (simp_all add: clearQueueSummaryState_def)

lemma preview_None_iff:
  "previewQueueSummaryPrompt noun title s = None \<longleftrightarrow> qs_dropPolicy s \<noteq> Summarize \<or> qs_droppedCount s = 0"
  by (simp add: previewQueueSummaryPrompt_def buildQueueSummaryPrompt_def Let_def)

text \<open>At a finite capacity of at least one, an accepted item finds exactly one place free or the items below the
  capacity untouched.\<close>

lemma drop_policy_room:
  assumes "q_cap q = Fin (of_nat c)" and "1 \<le> c"
  shows "length (q_items (snd (applyQueueDropPolicy f l q))) \<le> length (q_items q)
    \<and> (fst (applyQueueDropPolicy f l q) \<longrightarrow> length (q_items (snd (applyQueueDropPolicy f l q))) < c)
    \<and> (fst (applyQueueDropPolicy f l q) \<longleftrightarrow> length (q_items q) < c \<or> qs_dropPolicy q \<noteq> DropNew)"
  using assms
  by (auto simp: applyQueueDropPolicy_def Let_def has_room_def num_of_def drop_count_def not_less)

lemma drop_policy_order:
  "\<exists>k. q_items (snd (applyQueueDropPolicy f l q)) = drop k (q_items q)
     \<and> qs_droppedCount (snd (applyQueueDropPolicy f l q)) =
        qs_droppedCount q + (if qs_dropPolicy q = Summarize then length (take k (q_items q)) else 0)"
  by (auto simp: applyQueueDropPolicy_def Let_def intro: exI [of _ 0])

lemma cross_loop_iff:
  "cross_loop f items keys b \<longleftrightarrow>
     (\<exists>i \<in> set items. f i = Cross)
     \<or> (let ks = set keys \<union> {k. k \<noteq> [] \<and> (\<exists>i \<in> set items. f i = Keyed k)};
            u = (b \<or> (\<exists>i \<in> set items. f i = Unkeyed \<or> f i = Keyed []))
        in ks \<noteq> {} \<and> (u \<or> (\<exists>j k. j \<in> ks \<and> k \<in> ks \<and> j \<noteq> k)))"
  if "distinct keys"
  using that
proof (induction items arbitrary: keys b)
  case Nil
  have "1 < length keys \<longleftrightarrow> (\<exists>j k. j \<in> set keys \<and> k \<in> set keys \<and> j \<noteq> k)"
  proof (cases keys)
    case (Cons a as)
    then show ?thesis using Nil by (cases as) auto
  qed simp
  then show ?case by (auto simp: Let_def)
next
  case (Cons i items)
  show ?case
  proof (cases "f i")
    case (Keyed k)
    show ?thesis
    proof (cases "k = []")
      case True
      then show ?thesis using Cons Keyed by (simp add: Let_def) blast
    next
      case False
      have "set (sadd keys k) \<union> {k. k \<noteq> [] \<and> (\<exists>i \<in> set items. f i = Keyed k)}
          = set keys \<union> {k. k \<noteq> [] \<and> (\<exists>j \<in> set (i # items). f j = Keyed k)}"
        using False Keyed by auto
      then show ?thesis using Cons.IH [of "sadd keys k" b] Cons.prems Keyed False by (simp add: Let_def)
    qed
  qed (use Cons in \<open>auto simp: Let_def\<close>)
qed

end
