(* ===== verification/DedupeCache.thy ===== *)
theory DedupeCache
  imports Prelude
begin

text \<open>
  The cache of recently seen keys of \<open>src/src/infra/dedupe.ts\<close> (\<open>createDedupeCache\<close>) with
  \<open>pruneMapToMaxSize\<close> of \<open>src/src/infra/map-size.ts\<close>: a map from keys to the time they were
  last checked, in the order of these times, bounded by a time to live and a size.  The
  specification is a list of all checks; the cache refines it.  Times and limits are integers.
\<close>

section \<open>The cache\<close>

record dedupe_cache =
  dc_ttlMs :: int
  dc_maxSize :: int
  dc_cache :: "(jsstr, int) jsmap"

definition createDedupeCache :: "int \<Rightarrow> int \<Rightarrow> dedupe_cache" where
  "createDedupeCache ttlMs maxSize = \<lparr> dc_ttlMs = max 0 ttlMs, dc_maxSize = max 0 maxSize, dc_cache = [] \<rparr>"

definition dc_touch :: "jsstr \<Rightarrow> int \<Rightarrow> (jsstr, int) jsmap \<Rightarrow> (jsstr, int) jsmap" where
  "dc_touch key now m = mput (mdel m key) key now"

text \<open>The loop deletes the oldest entry while there are more than \<open>limit\<close>.\<close>

fun delete_oldest :: "nat \<Rightarrow> ('k, 'v) jsmap \<Rightarrow> ('k, 'v) jsmap" where
  "delete_oldest limit [] = []"
| "delete_oldest limit (p # m) = (if length (p # m) > limit then delete_oldest limit m else p # m)"

definition pruneMapToMaxSize :: "('k, 'v) jsmap \<Rightarrow> int \<Rightarrow> ('k, 'v) jsmap" where
  "pruneMapToMaxSize m maxSize = (let limit = max 0 maxSize in if limit \<le> 0 then [] else delete_oldest (nat limit) m)"

definition dc_prune :: "int \<Rightarrow> dedupe_cache \<Rightarrow> dedupe_cache" where
  "dc_prune now c =
    (let m = (if 0 < dc_ttlMs c then filter (\<lambda>p. \<not> snd p < now - dc_ttlMs c) (dc_cache c) else dc_cache c)
     in c\<lparr> dc_cache := (if dc_maxSize c \<le> 0 then [] else pruneMapToMaxSize m (dc_maxSize c)) \<rparr>)"

definition hasUnexpired :: "jsstr \<Rightarrow> int \<Rightarrow> bool \<Rightarrow> dedupe_cache \<Rightarrow> bool \<times> dedupe_cache" where
  "hasUnexpired key now touchOnRead c = (case mget (dc_cache c) key of
     None \<Rightarrow> (False, c)
   | Some existing \<Rightarrow>
      if 0 < dc_ttlMs c \<and> dc_ttlMs c \<le> now - existing then (False, c\<lparr> dc_cache := mdel (dc_cache c) key \<rparr>)
      else (True, if touchOnRead then c\<lparr> dc_cache := dc_touch key now (dc_cache c) \<rparr> else c))"

definition dc_check :: "jsstr \<Rightarrow> int \<Rightarrow> dedupe_cache \<Rightarrow> bool \<times> dedupe_cache" where
  "dc_check key now c =
    (if key = [] then (False, c)
     else (let r = hasUnexpired key now True c in
       if fst r then (True, snd r)
       else (False, dc_prune now ((snd r)\<lparr> dc_cache := dc_touch key now (dc_cache (snd r)) \<rparr>))))"

definition dc_peek :: "jsstr \<Rightarrow> int \<Rightarrow> dedupe_cache \<Rightarrow> bool \<times> dedupe_cache" where
  "dc_peek key now c = (if key = [] then (False, c) else hasUnexpired key now False c)"

definition dc_delete :: "jsstr \<Rightarrow> dedupe_cache \<Rightarrow> dedupe_cache" where
  "dc_delete key c = (if key = [] then c else c\<lparr> dc_cache := mdel (dc_cache c) key \<rparr>)"

definition dc_clear :: "dedupe_cache \<Rightarrow> dedupe_cache" where
  "dc_clear c = c\<lparr> dc_cache := [] \<rparr>"

definition dc_size :: "dedupe_cache \<Rightarrow> nat" where
  "dc_size c = length (dc_cache c)"

datatype dc_op = Check jsstr int | Peek jsstr int | Delete jsstr | Clear

fun dc_step :: "dedupe_cache \<Rightarrow> dc_op \<Rightarrow> dedupe_cache \<times> bool list" where
  "dc_step c (Check key now) = (snd (dc_check key now c), [fst (dc_check key now c)])"
| "dc_step c (Peek key now) = (snd (dc_peek key now c), [fst (dc_peek key now c)])"
| "dc_step c (Delete key) = (dc_delete key c, [])"
| "dc_step c Clear = (dc_clear c, [])"

section \<open>The specification\<close>

text \<open>The keys checked, oldest first, each with the time of its last check, and the time of the last operation.  A key is a
  duplicate when it is among the \<open>maxSize\<close> last keys whose time to live has not passed.\<close>

record seen_keys =
  sk_ttl :: int
  sk_max :: nat
  sk_keys :: "(jsstr, int) jsmap"
  sk_now :: int

definition live :: "int \<Rightarrow> int \<Rightarrow> 'k \<times> int \<Rightarrow> bool" where
  "live ttl now p \<longleftrightarrow> ttl \<le> 0 \<or> now - snd p < ttl"

definition sk_seen :: "jsstr \<Rightarrow> int \<Rightarrow> seen_keys \<Rightarrow> bool" where
  "sk_seen key now a \<longleftrightarrow> key \<noteq> [] \<and> mhas (take_last (sk_max a) (filter (live (sk_ttl a) now) (sk_keys a))) key"

fun sk_step :: "seen_keys \<Rightarrow> dc_op \<Rightarrow> seen_keys \<times> bool list" where
  "sk_step a (Check key now) =
    (a\<lparr> sk_keys := (if key = [] then sk_keys a else mdel (sk_keys a) key @ [(key, now)]), sk_now := now \<rparr>, [sk_seen key now a])"
| "sk_step a (Peek key now) = (a\<lparr> sk_now := now \<rparr>, [sk_seen key now a])"
| "sk_step a (Delete key) = (a, [])"
| "sk_step a Clear = (a\<lparr> sk_keys := [] \<rparr>, [])"

text \<open>The clock does not go back; \<open>delete\<close>, which makes room, is outside the specification.\<close>

fun sk_legal :: "seen_keys \<Rightarrow> dc_op \<Rightarrow> bool" where
  "sk_legal a (Check key now) = (sk_now a \<le> now)"
| "sk_legal a (Peek key now) = (sk_now a \<le> now)"
| "sk_legal a (Delete key) = False"
| "sk_legal a Clear = True"

section \<open>Lists ordered by time\<close>

lemma delete_oldest_take_last: "delete_oldest n m = take_last n m"
  by (induction m) (auto simp: take_last_def Suc_diff_le not_less)

lemma filter_take_last:
  assumes mono: "\<And>p q. snd p \<le> snd q \<Longrightarrow> P p \<Longrightarrow> P q" and "sorted (map snd xs)"
  shows "filter P (take_last n xs) = take_last n (filter P xs)"
  using assms(2)
proof (induction xs)
  case Nil
  then show ?case by (simp add: take_last_def)
next
  case (Cons x xs)
  have IH: "filter P (take_last n xs) = take_last n (filter P xs)" using Cons by simp
  have split: "take_last n (y # ys) = (if length ys < n then y # ys else take_last n ys)" for y :: "'a \<times> 'b" and ys
    by (auto simp: take_last_def Suc_diff_le not_less)
  show ?case
  proof (cases "P x")
    case True
    then have "P y" if "y \<in> set xs" for y using mono [of x y] Cons.prems that by auto
    then have "filter P xs = xs" by (simp add: filter_id_conv)
    then show ?thesis using True IH by (simp add: split)
  next
    case False
    then show ?thesis using IH by (auto simp: split)
  qed
qed

section \<open>The cache refines its specification\<close>

lemma live_mono: "snd p \<le> snd q \<Longrightarrow> live ttl now p \<Longrightarrow> live ttl now q"
  by (auto simp: live_def)

lemma live_later: "now \<le> now' \<Longrightarrow> live ttl now' p \<Longrightarrow> live ttl now p"
  by (auto simp: live_def)

definition timed :: "int \<Rightarrow> (jsstr, int) jsmap \<Rightarrow> bool" where
  "timed now m \<longleftrightarrow> distinct (mkeys m) \<and> sorted (map snd m) \<and> (\<forall>p \<in> set m. snd p \<le> now)"

lemma timed_later: "timed now m \<Longrightarrow> now \<le> now' \<Longrightarrow> timed now' m"
  by (auto simp: timed_def)

lemma sorted_filter_snd: "sorted (map snd m) \<Longrightarrow> sorted (map snd (filter P m))"
  by (induction m) auto

lemma timed_filter: "timed now m \<Longrightarrow> timed now (filter P m)"
  by (auto simp: timed_def sorted_filter_snd)

lemma timed_mdel: "timed now m \<Longrightarrow> timed now (mdel m key)"
  unfolding mdel_def by (rule timed_filter)

lemma timed_take_last: "timed now m \<Longrightarrow> timed now (take_last n m)"
  by (auto simp: timed_def take_last_def drop_map [symmetric] sorted_wrt_drop dest: in_set_dropD)

lemma timed_touch: "timed now m \<Longrightarrow> timed now (mdel m key @ [(key, now)])"
  by (auto simp: timed_def mdel_def sorted_append sorted_filter_snd)

lemma touch_append: "dc_touch key now m = mdel m key @ [(key, now)]"
  by (simp add: dc_touch_def mput_absent)

text \<open>Both sides restricted to the live keys.\<close>

definition sk_rel :: "dedupe_cache \<Rightarrow> seen_keys \<Rightarrow> bool" where
  "sk_rel c a \<longleftrightarrow> dc_ttlMs c = sk_ttl a \<and> dc_maxSize c = int (sk_max a) \<and> 0 \<le> sk_ttl a
     \<and> timed (sk_now a) (dc_cache c) \<and> timed (sk_now a) (sk_keys a) \<and> length (dc_cache c) \<le> sk_max a
     \<and> filter (live (sk_ttl a) (sk_now a)) (dc_cache c) = take_last (sk_max a) (filter (live (sk_ttl a) (sk_now a)) (sk_keys a))"

lemma sk_rel_later:
  assumes "sk_rel c a" and "sk_now a \<le> now"
  shows "filter (live (sk_ttl a) now) (dc_cache c) = take_last (sk_max a) (filter (live (sk_ttl a) now) (sk_keys a))"
proof -
  let ?P = "live (sk_ttl a) (sk_now a)" and ?Q = "live (sk_ttl a) now"
  have "(?P p \<and> ?Q p) = ?Q p" for p :: "jsstr \<times> int" using live_later [OF assms(2)] by blast
  then have again: "filter ?Q (filter ?P m) = filter ?Q m" for m :: "(jsstr, int) jsmap"
    by (simp only: filter_filter)
  have "filter ?Q (dc_cache c) = filter ?Q (take_last (sk_max a) (filter ?P (sk_keys a)))"
    using assms(1) again [of "dc_cache c"] by (simp add: sk_rel_def)
  also have "\<dots> = take_last (sk_max a) (filter ?Q (filter ?P (sk_keys a)))"
  proof (rule filter_take_last)
    show "?Q q" if "snd p \<le> snd q" "?Q p" for p q :: "jsstr \<times> int" using live_mono that .
    show "sorted (map snd (filter ?P (sk_keys a)))" using assms(1) by (simp add: sk_rel_def timed_def sorted_filter_snd)
  qed
  finally show ?thesis unfolding again .
qed

lemma hit_iff:
  assumes "sk_rel c a" and "sk_now a \<le> now"
  shows "fst (hasUnexpired key now b c) \<longleftrightarrow> mhas (take_last (sk_max a) (filter (live (sk_ttl a) now) (sk_keys a))) key"
proof -
  have "timed (sk_now a) (dc_cache c)" using assms(1) by (simp add: sk_rel_def)
  then have "mhas (filter (live (sk_ttl a) now) (dc_cache c)) key
      \<longleftrightarrow> (\<exists>t. mget (dc_cache c) key = Some t \<and> live (sk_ttl a) now (key, t))"
    by (auto simp: mhas_mget mget_filter timed_def split: option.splits)
  then show ?thesis using assms sk_rel_later [OF assms]
    by (auto simp: hasUnexpired_def sk_rel_def live_def split: option.splits)
qed

lemma take_last_snoc: "take_last n (xs @ [y]) = (if n = 0 then [] else take_last (n - 1) xs @ [y])"
  by (cases n) (auto simp: take_last_def)

lemma take_last_split: "\<exists>xs. m = xs @ take_last n m \<and> (xs = [] \<or> length (take_last n m) = n)"
  by (rule exI [of _ "take (length m - n) m"]) (auto simp: take_last_def)

lemma take_last_append: "length ys = n \<or> (xs = [] \<and> length ys \<le> n) \<Longrightarrow> take_last n (xs @ ys) = ys"
  by (auto simp: take_last_def)

lemma mdel_append: "mdel (xs @ ys) key = mdel xs key @ mdel ys key"
  by (simp add: mdel_def)

lemma length_mdel: "distinct (mkeys m) \<Longrightarrow> mhas m key \<Longrightarrow> Suc (length (mdel m key)) = length m"
proof (induction m)
  case (Cons p m)
  then show ?case using mdel_absent [of m "fst p"] by (cases "fst p = key") (auto simp: mdel_def mhas_def)
qed (simp add: mhas_def)

lemma mdel_take_last_in:
  assumes "distinct (mkeys m)" and "mhas (take_last n m) key"
  shows "take_last (n - 1) (mdel m key) = mdel (take_last n m) key"
proof -
  obtain xs where m: "m = xs @ take_last n m" and xs: "xs = [] \<or> length (take_last n m) = n"
    using take_last_split by blast
  let ?ys = "take_last n m"
  have d: "distinct (mkeys (xs @ ?ys))" using assms(1) m by metis
  then have "\<not> mhas xs key" using assms(2) by (auto simp: mhas_def)
  then have "mdel m key = xs @ mdel ?ys key" by (metis m mdel_append mdel_absent)
  moreover have "Suc (length (mdel ?ys key)) = length ?ys" using length_mdel [OF _ assms(2)] d by simp
  moreover have "length (mdel ?ys key) = n - 1 \<or> (xs = [] \<and> length (mdel ?ys key) \<le> n - 1)"
    using calculation(2) xs length_take_last [of n m] by linarith
  ultimately show ?thesis using take_last_append by metis
qed

lemma mdel_take_last_out:
  assumes "\<not> mhas (take_last n m) key"
  shows "take_last n (mdel m key) = take_last n m"
proof -
  obtain xs where m: "m = xs @ take_last n m" and xs: "xs = [] \<or> length (take_last n m) = n"
    using take_last_split by blast
  have "mdel m key = mdel xs key @ take_last n m" by (metis m mdel_append mdel_absent assms)
  then show ?thesis using xs take_last_append [of "take_last n m" n "mdel xs key"] by (auto simp: mdel_def)
qed

text \<open>Moving a key to the end, in the last \<open>n\<close> keys.\<close>

lemma touch_in:
  "distinct (mkeys m) \<Longrightarrow> mhas (take_last n m) key \<Longrightarrow> take_last n (mdel m key @ [p]) = mdel (take_last n m) key @ [p]"
  using mdel_take_last_in [of m n key] by (cases "n = 0") (simp_all add: take_last_snoc, simp add: take_last_def mhas_def)

lemma take_last_take_last: "k \<le> n \<Longrightarrow> take_last k (take_last n m) = take_last k m"
  unfolding take_last_def drop_drop length_drop by (rule arg_cong [where f = "\<lambda>i. drop i m"]) linarith

lemma take_last_less: "\<not> mhas (take_last n m) key \<Longrightarrow> \<not> mhas (take_last (n - 1) m) key"
  using take_last_take_last [of "n - 1" n m] set_take_last [of "n - 1" "take_last n m"] by (auto simp: mhas_def)

lemma touch_out:
  "\<not> mhas (take_last n m) key \<Longrightarrow> take_last n (mdel m key @ [p]) = take_last n (take_last n m @ [p])"
  using mdel_take_last_out [OF take_last_less, of n m key] by (simp add: take_last_snoc take_last_take_last)


lemma live_now: "0 \<le> ttl \<Longrightarrow> live ttl now (key, now)"
  by (auto simp: live_def)

lemma filter_mdel: "filter P (mdel m key) = mdel (filter P m) key"
  by (auto simp: mdel_def filter_filter conj_commute)

lemma filter_touch: "0 \<le> ttl \<Longrightarrow> filter (live ttl now) (mdel m key @ [(key, now)]) = mdel (filter (live ttl now) m) key @ [(key, now)]"
  by (simp add: filter_mdel live_now)

lemma prune_cache:
  assumes "0 \<le> dc_maxSize c"
  shows "dc_cache (dc_prune now c) =
    take_last (nat (dc_maxSize c)) (if 0 < dc_ttlMs c then filter (\<lambda>p. \<not> snd p < now - dc_ttlMs c) (dc_cache c) else dc_cache c)"
  using assms by (simp add: dc_prune_def pruneMapToMaxSize_def delete_oldest_take_last Let_def take_last_def)

lemma prune_fields [simp]: "dc_ttlMs (dc_prune now c) = dc_ttlMs c" "dc_maxSize (dc_prune now c) = dc_maxSize c"
  by (simp_all add: dc_prune_def Let_def)

lemma unexpired_fields [simp]:
  "dc_ttlMs (snd (hasUnexpired key now b c)) = dc_ttlMs c" "dc_maxSize (snd (hasUnexpired key now b c)) = dc_maxSize c"
  by (simp_all add: hasUnexpired_def split: option.splits)

lemma check_fields [simp]:
  "dc_ttlMs (snd (dc_check key now c)) = dc_ttlMs c" "dc_maxSize (snd (dc_check key now c)) = dc_maxSize c"
  by (simp_all add: dc_check_def Let_def)

lemma unexpired_miss:
  "\<not> fst (hasUnexpired key now b c) \<Longrightarrow> dc_cache (snd (hasUnexpired key now b c)) = mdel (dc_cache c) key"
  by (auto simp: hasUnexpired_def mdel_absent mhas_mget split: option.splits if_splits)

lemma unexpired_hit:
  "fst (hasUnexpired key now b c) \<Longrightarrow>
   dc_cache (snd (hasUnexpired key now b c)) = (if b then mdel (dc_cache c) key @ [(key, now)] else dc_cache c) \<and> mhas (dc_cache c) key"
  by (auto simp: hasUnexpired_def touch_append mhas_mget split: option.splits if_splits)

lemma mdel_mdel [simp]: "mdel (mdel m key) key = mdel m key"
  by (simp add: mdel_def filter_filter)

lemma filter_mdel_dead:
  "\<not> mhas (filter P m) key \<Longrightarrow> filter P (mdel m key) = filter P m"
  by (simp add: filter_mdel mdel_absent)

lemma peek_refines:
  assumes rel: "sk_rel c a" and now: "sk_now a \<le> now"
  shows "sk_rel (snd (hasUnexpired key now False c)) (a\<lparr> sk_now := now \<rparr>)"
proof -
  let ?c = "snd (hasUnexpired key now False c)" and ?L = "live (sk_ttl a) now"
  have "dc_cache ?c = dc_cache c \<or> dc_cache ?c = mdel (dc_cache c) key \<and> \<not> mhas (filter ?L (dc_cache c)) key"
    using unexpired_hit [of key now False c] unexpired_miss [of key now False c] hit_iff [OF rel now, of key False] sk_rel_later [OF rel now]
    by (cases "fst (hasUnexpired key now False c)") auto
  then have "filter ?L (dc_cache ?c) = filter ?L (dc_cache c)" "length (dc_cache ?c) \<le> sk_max a" "timed (sk_now a) (dc_cache ?c)"
    using rel length_mdel_le [of "dc_cache c" key]
    by (auto simp: filter_mdel_dead sk_rel_def timed_mdel intro: order_trans)
  then show ?thesis
    using rel timed_later [OF _ now] sk_rel_later [OF rel now] by (simp add: sk_rel_def)
qed

lemma check_refines:
  assumes rel: "sk_rel c a" and now: "sk_now a \<le> now" and key: "key \<noteq> []"
  shows "sk_rel (snd (dc_check key now c)) (a\<lparr> sk_keys := mdel (sk_keys a) key @ [(key, now)], sk_now := now \<rparr>)"
proof -
  let ?L = "live (sk_ttl a) now" and ?n = "sk_max a" and ?m = "mdel (dc_cache c) key @ [(key, now)]"
  let ?live = "filter ?L (sk_keys a)"
  have ttl: "0 \<le> sk_ttl a" "dc_ttlMs c = sk_ttl a" "dc_maxSize c = int ?n" using rel by (simp_all add: sk_rel_def)
  have later: "filter ?L (dc_cache c) = take_last ?n ?live" by (rule sk_rel_later [OF rel now])
  have timed: "timed now (dc_cache c)" "timed now (sk_keys a)" using rel timed_later [OF _ now] by (auto simp: sk_rel_def)
  have tm: "timed now ?m" using timed_touch [OF timed(1)] .
  have live_m: "filter ?L ?m = mdel (take_last ?n ?live) key @ [(key, now)]" by (simp only: filter_touch [OF ttl(1)] later)
  have dl: "distinct (mkeys ?live)" using timed(2) by (simp add: timed_def)
  have goal: "sk_rel (snd (dc_check key now c)) (a\<lparr> sk_keys := mdel (sk_keys a) key @ [(key, now)], sk_now := now \<rparr>)"
    if "timed now (dc_cache (snd (dc_check key now c)))" "length (dc_cache (snd (dc_check key now c))) \<le> ?n"
      "filter ?L (dc_cache (snd (dc_check key now c))) = take_last ?n (mdel ?live key @ [(key, now)])"
    using that ttl timed_touch [OF timed(2)] by (simp add: sk_rel_def filter_mdel live_now)
  show ?thesis
  proof (cases "fst (hasUnexpired key now True c)")
    case True
    then have c': "dc_cache (snd (dc_check key now c)) = ?m" and has: "mhas (dc_cache c) key"
      using unexpired_hit [OF True] key by (simp_all add: dc_check_def Let_def)
    have "mhas (take_last ?n ?live) key" using hit_iff [OF rel now] True by blast
    moreover have "length ?m \<le> ?n"
      using length_mdel [OF _ has] timed(1) rel by (simp add: timed_def sk_rel_def)
    ultimately show ?thesis using c' tm live_m touch_in [OF dl] by (intro goal) simp_all
  next
    case False
    let ?f = "if 0 < sk_ttl a then filter (\<lambda>p. \<not> snd p < now - sk_ttl a) ?m else ?m"
    have c': "dc_cache (snd (dc_check key now c)) = take_last ?n ?f"
      using False key ttl unexpired_miss [OF False] by (simp add: dc_check_def Let_def prune_cache touch_append)
    have out: "\<not> mhas (take_last ?n ?live) key" using hit_iff [OF rel now] False by blast
    have tf: "timed now ?f" using tm by (auto intro: timed_filter simp del: filter_append)
    have "filter ?L ?f = filter ?L ?m"
      by (auto simp: filter_filter live_def intro!: filter_cong)
    moreover have "filter ?L (take_last ?n ?f) = take_last ?n (filter ?L ?f)"
    proof (rule filter_take_last)
      show "?L q" if "snd p \<le> snd q" "?L p" for p q :: "jsstr \<times> int" using live_mono that .
      show "sorted (map snd ?f)" using tf unfolding timed_def by blast
    qed
    ultimately have "filter ?L (take_last ?n ?f) = take_last ?n (filter ?L ?m)" by (simp only:)
    also have "\<dots> = take_last ?n (mdel ?live key @ [(key, now)])"
      unfolding live_m mdel_absent [OF out] by (rule touch_out [OF out, symmetric])
    finally show ?thesis using c' timed_take_last [OF tf] by (intro goal) simp_all
  qed
qed

lemma dc_refines:
  assumes "sk_rel c a" and "sk_legal a b"
  shows "snd (dc_step c b) = snd (sk_step a b) \<and> sk_rel (fst (dc_step c b)) (fst (sk_step a b))"
proof (cases b)
  case (Check key now)
  have now: "sk_now a \<le> now" using assms(2) Check by simp
  have empty: "sk_rel c (a\<lparr> sk_now := now \<rparr>)"
    using assms(1) timed_later [OF _ now] sk_rel_later [OF assms(1) now] by (simp add: sk_rel_def)
  show ?thesis
    using hit_iff [OF assms(1) now, of key True] check_refines [OF assms(1) now, of key] empty Check
    by (cases "key = []") (simp_all add: sk_seen_def dc_check_def Let_def)
next
  case (Peek key now)
  have now: "sk_now a \<le> now" using assms(2) Peek by simp
  have empty: "sk_rel c (a\<lparr> sk_now := now \<rparr>)"
    using assms(1) timed_later [OF _ now] sk_rel_later [OF assms(1) now] by (simp add: sk_rel_def)
  show ?thesis
    using hit_iff [OF assms(1) now, of key False] peek_refines [OF assms(1) now, of key] empty Peek
    by (cases "key = []") (simp_all add: sk_seen_def dc_peek_def)
next
  case Clear
  then show ?thesis using assms(1) by (simp add: sk_rel_def dc_clear_def timed_def take_last_def)
qed (use assms(2) in simp)

interpretation dc: refinement dc_step sk_step sk_rel sk_legal
  by unfold_locales (rule dc_refines)


section \<open>Properties\<close>

definition sk_new :: "int \<Rightarrow> int \<Rightarrow> int \<Rightarrow> seen_keys" where
  "sk_new ttlMs maxSize t0 = \<lparr> sk_ttl = max 0 ttlMs, sk_max = nat maxSize, sk_keys = [], sk_now = t0 \<rparr>"

lemma new_rel: "sk_rel (createDedupeCache ttlMs maxSize) (sk_new ttlMs maxSize t0)"
  by (simp add: sk_rel_def createDedupeCache_def sk_new_def timed_def take_last_def)

text \<open>C15: The bounded cache answers as the unbounded list of checks. For checks, peeks and clears with a clock that does not go
  back, every answer is that of the specification: a key is a duplicate exactly when it is among the
  \<open>maxSize\<close> keys checked last whose time to live has not passed; and the cache never holds
  more than \<open>maxSize\<close> keys.\<close>

theorem dedupe_cache_refines:
  assumes "legal_run sk_step sk_legal (sk_new ttlMs maxSize t0) bs"
  shows "snd (run_ops dc_step (createDedupeCache ttlMs maxSize) bs) = snd (run_ops sk_step (sk_new ttlMs maxSize t0) bs)
    \<and> dc_size (fst (run_ops dc_step (createDedupeCache ttlMs maxSize) bs)) \<le> nat maxSize"
proof -
  have "sk_max (fst (run_ops sk_step a bs)) = sk_max a" for a
  proof (induction bs arbitrary: a)
    case (Cons b bs)
    then show ?case by (cases b) (simp_all add: case_prod_beta Let_def)
  qed simp
  then show ?thesis
    using dc.run_refines [OF new_rel assms] by (simp add: sk_rel_def dc_size_def sk_new_def)
qed

theorem dedupe_cache_refines_witness:
  "snd (run_ops dc_step (createDedupeCache 10 2)
     [Check (js ''a'') 0, Check (js ''b'') 3, Check (js ''a'') 9, Check (js ''c'') 11, Check (js ''b'') 12, Peek (js ''a'') 12])
   = [False, False, True, False, False, False]"
proof -
  let ?bs = "[Check (js ''a'') 0, Check (js ''b'') 3, Check (js ''a'') 9, Check (js ''c'') 11, Check (js ''b'') 12, Peek (js ''a'') 12]"
  have "legal_run sk_step sk_legal (sk_new 10 2 0) ?bs" by code_simp
  note refines = conjunct1 [OF dedupe_cache_refines [OF this]]
  show ?thesis unfolding refines by code_simp
qed

end
