(* ===== verification/CommandQueue.thy ===== *)
theory CommandQueue
  imports JsValue
begin

text \<open>
  The command queue of \<open>src/src/process/command-queue.ts\<close>: lanes of tasks with a bounded
  number running at a time, the draining flag of a restart, and the waiters for
  the tasks that are running.

  A task and its promise are one number, \<open>qe_id\<close>; what the task does is outside the model, and
  its end comes as the operation \<open>Settle\<close>.  The asynchronous function that runs a task and
  remembers the generation of its lane is an entry of \<open>cq_running\<close>.  What the first
  synchronous part of a task does to the queue is taken to come after the pump that started
  it, so \<open>draining\<close> is only set inside \<open>drainLane\<close>.  The clock is an argument.  Logging is
  left out, but a task that waited too long is an output (\<open>onWait\<close>).
\<close>

section \<open>Data\<close>

record qentry =
  qe_id :: nat
  qe_enqueuedAt :: int
  qe_warnAfterMs :: int

record lane_state =
  ln_queue :: "qentry list"
  ln_active :: "nat list"
  ln_max :: jsnum
  ln_draining :: bool
  ln_generation :: nat

record run_instance =
  ri_lane :: jsstr
  ri_generation :: nat
  ri_entry :: qentry

record command_queue =
  cq_gatewayDraining :: bool
  cq_lanes :: "(jsstr, lane_state) jsmap"
  cq_waiters :: "(nat, nat list) jsmap"
  cq_nextTaskId :: nat
  cq_running :: "(nat, run_instance) jsmap"

datatype qout =
    QStarted jsstr nat nat
  | QWaitExceeded jsstr int nat
  | QSettled nat bool
  | QDrainingError nat
  | QClearedError jsstr nat
  | QDrained nat bool

definition new_lane :: lane_state where
  "new_lane = \<lparr> ln_queue = [], ln_active = [], ln_max = Fin 1, ln_draining = False, ln_generation = 0 \<rparr>"

definition new_queue :: command_queue where
  "new_queue = \<lparr> cq_gatewayDraining = False, cq_lanes = [], cq_waiters = [], cq_nextTaskId = 1, cq_running = [] \<rparr>"

definition normalizeLane :: "jsstr \<Rightarrow> jsstr" where
  "normalizeLane lane = (if trim lane = [] then js ''main'' else trim lane)"

definition getLaneDepth :: "lane_state \<Rightarrow> nat" where
  "getLaneDepth l = length (ln_queue l) + length (ln_active l)"

definition getLaneState :: "command_queue \<Rightarrow> jsstr \<Rightarrow> lane_state" where
  "getLaneState s lane = (case mget (cq_lanes s) lane of Some l \<Rightarrow> l | None \<Rightarrow> new_lane)"

definition put_lane :: "jsstr \<Rightarrow> lane_state \<Rightarrow> command_queue \<Rightarrow> command_queue" where
  "put_lane lane l s = s\<lparr> cq_lanes := mput (cq_lanes s) lane l \<rparr>"

section \<open>Waiters\<close>

definition hasPendingActiveTasks :: "command_queue \<Rightarrow> nat list \<Rightarrow> bool" where
  "hasPendingActiveTasks s ids = list_ex (\<lambda>(k, l). list_ex (\<lambda>t. t \<in> set ids) (ln_active l)) (cq_lanes s)"

definition drained_waiter :: "command_queue \<Rightarrow> nat \<times> nat list \<Rightarrow> bool" where
  "drained_waiter s w = (snd w = [] \<or> \<not> hasPendingActiveTasks s (snd w))"

definition notifyActiveTaskWaiters :: "command_queue \<Rightarrow> command_queue \<times> qout list" where
  "notifyActiveTaskWaiters s =
    (s\<lparr> cq_waiters := filter (\<lambda>w. \<not> drained_waiter s w) (cq_waiters s) \<rparr>,
     map (\<lambda>w. QDrained (fst w) True) (filter (drained_waiter s) (cq_waiters s)))"

section \<open>Pumping a lane\<close>

text \<open>\<open>n < m\<close> of a count and a JavaScript number.\<close>

definition below :: "nat \<Rightarrow> jsnum \<Rightarrow> bool" where
  "below n m = (case m of Fin q \<Rightarrow> of_nat n < q | PosInf \<Rightarrow> True | _ \<Rightarrow> False)"

text \<open>The loop of \<open>pump\<close> over the queue \<open>q\<close>: it starts tasks, each with a fresh id, while fewer than
  \<open>ln_max\<close> are active.\<close>

fun pump_loop :: "int \<Rightarrow> jsstr \<Rightarrow> qentry list \<Rightarrow> command_queue \<Rightarrow> command_queue \<times> qout list" where
  "pump_loop now lane [] s = (s, [])"
| "pump_loop now lane (e # q) s =
    (let l = getLaneState s lane; t = cq_nextTaskId s; waited = now - qe_enqueuedAt e in
     if below (length (ln_active l)) (ln_max l)
     then (let s1 = put_lane lane (l\<lparr> ln_queue := q, ln_active := sadd (ln_active l) t \<rparr>) s;
               s2 = s1\<lparr> cq_nextTaskId := t + 1,
                        cq_running := mput (cq_running s) t
                          \<lparr> ri_lane = lane, ri_generation = ln_generation l, ri_entry = e \<rparr> \<rparr>;
               r = pump_loop now lane q s2
           in (fst r, (if qe_warnAfterMs e \<le> waited then [QWaitExceeded lane waited (length q)] else [])
                      @ QStarted lane (qe_id e) t # snd r))
     else (s, []))"

definition set_draining :: "jsstr \<Rightarrow> bool \<Rightarrow> command_queue \<Rightarrow> command_queue" where
  "set_draining lane b s = put_lane lane ((getLaneState s lane)\<lparr> ln_draining := b \<rparr>) s"

definition pump :: "int \<Rightarrow> jsstr \<Rightarrow> command_queue \<Rightarrow> command_queue \<times> qout list" where
  "pump now lane s = (let r = pump_loop now lane (ln_queue (getLaneState s lane)) s
     in (set_draining lane False (fst r), snd r))"

definition drainLane :: "int \<Rightarrow> jsstr \<Rightarrow> command_queue \<Rightarrow> command_queue \<times> qout list" where
  "drainLane now lane s =
    (if ln_draining (getLaneState s lane) then (put_lane lane (getLaneState s lane) s, [])
     else pump now lane (set_draining lane True s))"

section \<open>Operations\<close>

definition markGatewayDraining :: "command_queue \<Rightarrow> command_queue" where
  "markGatewayDraining s = s\<lparr> cq_gatewayDraining := True \<rparr>"

text \<open>\<open>Math.max(1, Math.floor(m))\<close>.\<close>

definition clamp_concurrency :: "jsnum \<Rightarrow> jsnum" where
  "clamp_concurrency m = (case m of Fin q \<Rightarrow> Fin (max 1 (of_int \<lfloor>q\<rfloor>)) | NegInf \<Rightarrow> Fin 1 | n \<Rightarrow> n)"

definition setCommandLaneConcurrency :: "int \<Rightarrow> jsstr \<Rightarrow> jsnum \<Rightarrow> command_queue \<Rightarrow> command_queue \<times> qout list" where
  "setCommandLaneConcurrency now lane m s = (let k = normalizeLane lane in
     drainLane now k (put_lane k ((getLaneState s k)\<lparr> ln_max := clamp_concurrency m \<rparr>) s))"

definition enqueueCommandInLane :: "int \<Rightarrow> jsstr \<Rightarrow> nat \<Rightarrow> int option \<Rightarrow> command_queue \<Rightarrow> command_queue \<times> qout list" where
  "enqueueCommandInLane now lane task warnAfterMs s =
    (if cq_gatewayDraining s then (s, [QDrainingError task])
     else (let k = normalizeLane lane; l = getLaneState s k;
               e = \<lparr> qe_id = task, qe_enqueuedAt = now, qe_warnAfterMs = (case warnAfterMs of Some w \<Rightarrow> w | None \<Rightarrow> 2000) \<rparr>
           in drainLane now k (put_lane k (l\<lparr> ln_queue := ln_queue l @ [e] \<rparr>) s)))"

definition completeTask :: "jsstr \<Rightarrow> nat \<Rightarrow> nat \<Rightarrow> command_queue \<Rightarrow> command_queue option" where
  "completeTask lane t generation s = (let l = getLaneState s lane in
     if generation \<noteq> ln_generation l then None
     else Some (put_lane lane (l\<lparr> ln_active := sdel (ln_active l) t \<rparr>) s))"

text \<open>The rest of the asynchronous function of a task, once the task has returned or thrown.\<close>

definition settle :: "int \<Rightarrow> nat \<Rightarrow> bool \<Rightarrow> command_queue \<Rightarrow> command_queue \<times> qout list" where
  "settle now t success s = (case mget (cq_running s) t of
     None \<Rightarrow> (s, [])
   | Some r \<Rightarrow>
      (let s0 = s\<lparr> cq_running := mdel (cq_running s) t \<rparr> in
       case completeTask (ri_lane r) t (ri_generation r) s0 of
         None \<Rightarrow> (s0, [QSettled (qe_id (ri_entry r)) success])
       | Some s1 \<Rightarrow>
          (let n = notifyActiveTaskWaiters s1; p = pump now (ri_lane r) (fst n)
           in (fst p, snd n @ snd p @ [QSettled (qe_id (ri_entry r)) success]))))"

definition clearCommandLane :: "jsstr \<Rightarrow> command_queue \<Rightarrow> (command_queue \<times> qout list) \<times> nat" where
  "clearCommandLane lane s = (let k = normalizeLane lane in
     case mget (cq_lanes s) k of
       None \<Rightarrow> ((s, []), 0)
     | Some l \<Rightarrow> ((put_lane k (l\<lparr> ln_queue := [] \<rparr>) s, map (\<lambda>e. QClearedError k (qe_id e)) (ln_queue l)),
                  length (ln_queue l)))"

definition reset_lane :: "lane_state \<Rightarrow> lane_state" where
  "reset_lane l = l\<lparr> ln_generation := ln_generation l + 1, ln_active := [], ln_draining := False \<rparr>"

fun drain_lanes :: "int \<Rightarrow> jsstr list \<Rightarrow> command_queue \<Rightarrow> command_queue \<times> qout list" where
  "drain_lanes now [] s = (s, [])"
| "drain_lanes now (k # ks) s =
    (let r = drainLane now k s; r' = drain_lanes now ks (fst r) in (fst r', snd r @ snd r'))"

definition resetAllLanes :: "int \<Rightarrow> command_queue \<Rightarrow> command_queue \<times> qout list" where
  "resetAllLanes now s =
    (let s1 = s\<lparr> cq_gatewayDraining := False, cq_lanes := map (\<lambda>(k, l). (k, reset_lane l)) (cq_lanes s) \<rparr>;
         r = drain_lanes now (map fst (filter (\<lambda>(k, l). ln_queue l \<noteq> []) (cq_lanes s))) s1;
         n = notifyActiveTaskWaiters (fst r)
     in (fst n, snd r @ snd n))"

definition activeTaskIds :: "command_queue \<Rightarrow> nat list" where
  "activeTaskIds s = concat (map (\<lambda>(k, l). ln_active l) (cq_lanes s))"

definition getQueueSize :: "command_queue \<Rightarrow> jsstr \<Rightarrow> nat" where
  "getQueueSize s lane = (case mget (cq_lanes s) (normalizeLane lane) of None \<Rightarrow> 0 | Some l \<Rightarrow> getLaneDepth l)"

definition getTotalQueueSize :: "command_queue \<Rightarrow> nat" where
  "getTotalQueueSize s = sum_list (map (\<lambda>(k, l). getLaneDepth l) (cq_lanes s))"

definition getActiveTaskCount :: "command_queue \<Rightarrow> nat" where
  "getActiveTaskCount s = sum_list (map (\<lambda>(k, l). length (ln_active l)) (cq_lanes s))"

text \<open>The promise is the number \<open>w\<close>; the timer of a waiter fires as \<open>WaitTimeout\<close>.\<close>

definition waitForActiveTasks :: "nat \<Rightarrow> int \<Rightarrow> command_queue \<Rightarrow> command_queue \<times> qout list" where
  "waitForActiveTasks w timeoutMs s = (let ids = remdups (activeTaskIds s) in
     if ids = [] then (s, [QDrained w True])
     else if timeoutMs \<le> 0 then (s, [QDrained w False])
     else notifyActiveTaskWaiters (s\<lparr> cq_waiters := mput (cq_waiters s) w ids \<rparr>))"

definition wait_timeout :: "nat \<Rightarrow> command_queue \<Rightarrow> command_queue \<times> qout list" where
  "wait_timeout w s = (if mhas (cq_waiters s) w
     then (s\<lparr> cq_waiters := mdel (cq_waiters s) w \<rparr>, [QDrained w False]) else (s, []))"

datatype cq_op =
    Enqueue jsstr nat "int option"
  | Settle nat bool
  | SetConcurrency jsstr jsnum
  | ClearLane jsstr
  | MarkDraining
  | ResetAll
  | Wait nat int
  | WaitTimeout nat

fun cq_step :: "command_queue \<Rightarrow> int \<times> cq_op \<Rightarrow> command_queue \<times> qout list" where
  "cq_step s (now, Enqueue lane task w) = enqueueCommandInLane now lane task w s"
| "cq_step s (now, Settle t success) = settle now t success s"
| "cq_step s (now, SetConcurrency lane m) = setCommandLaneConcurrency now lane m s"
| "cq_step s (now, ClearLane lane) = fst (clearCommandLane lane s)"
| "cq_step s (now, MarkDraining) = (markGatewayDraining s, [])"
| "cq_step s (now, ResetAll) = resetAllLanes now s"
| "cq_step s (now, Wait w timeoutMs) = waitForActiveTasks w timeoutMs s"
| "cq_step s (now, WaitTimeout w) = wait_timeout w s"


section \<open>The invariant\<close>

lemma getLaneState_put [simp]:
  "getLaneState (put_lane k l s) k' = (if k' = k then l else getLaneState s k')"
  by (simp add: getLaneState_def put_lane_def)

lemma getLaneState_other [simp]:
  "getLaneState (s\<lparr> cq_running := r \<rparr>) = getLaneState s"
  "getLaneState (s\<lparr> cq_waiters := w \<rparr>) = getLaneState s"
  "getLaneState (s\<lparr> cq_nextTaskId := n \<rparr>) = getLaneState s"
  "getLaneState (s\<lparr> cq_gatewayDraining := b \<rparr>) = getLaneState s"
  by (simp_all add: fun_eq_iff getLaneState_def)

lemma put_lane_fields [simp]:
  "cq_running (put_lane k l s) = cq_running s"
  "cq_waiters (put_lane k l s) = cq_waiters s"
  "cq_nextTaskId (put_lane k l s) = cq_nextTaskId s"
  "cq_gatewayDraining (put_lane k l s) = cq_gatewayDraining s"
  "distinct (mkeys (cq_lanes s)) \<Longrightarrow> distinct (mkeys (cq_lanes (put_lane k l s)))"
  by (simp_all add: put_lane_def)

text \<open>The active ids of a lane are the running tasks of its current generation.\<close>

definition lane_wf :: "command_queue \<Rightarrow> jsstr \<Rightarrow> lane_state \<Rightarrow> bool" where
  "lane_wf s k l \<longleftrightarrow> distinct (ln_active l)
     \<and> set (ln_active l) = {t. \<exists>r. mget (cq_running s) t = Some r \<and> ri_lane r = k \<and> ri_generation r = ln_generation l}"

definition cq_wf :: "command_queue \<Rightarrow> bool" where
  "cq_wf s \<longleftrightarrow> distinct (mkeys (cq_lanes s)) \<and> (\<forall>t. mhas (cq_running s) t \<longrightarrow> t < cq_nextTaskId s)
     \<and> (\<forall>t r. mget (cq_running s) t = Some r \<longrightarrow> ri_generation r \<le> ln_generation (getLaneState s (ri_lane r)))
     \<and> (\<forall>k. lane_wf s k (getLaneState s k))"

text \<open>No lane is draining between operations, and a lane with queued work is full.\<close>

definition lane_busy :: "lane_state \<Rightarrow> bool" where
  "lane_busy l \<longleftrightarrow> ln_queue l = [] \<or> \<not> below (length (ln_active l)) (ln_max l)"

definition cq_inv :: "command_queue \<Rightarrow> bool" where
  "cq_inv s \<longleftrightarrow> cq_wf s
     \<and> (\<forall>k. \<not> ln_draining (getLaneState s k) \<and> lane_busy (getLaneState s k))
     \<and> list_all (\<lambda>w. \<not> drained_waiter s w) (cq_waiters s)"

lemma new_queue_inv: "cq_inv new_queue"
  by (simp add: cq_inv_def cq_wf_def new_queue_def getLaneState_def new_lane_def lane_wf_def lane_busy_def)

lemma pending_iff:
  assumes "distinct (mkeys (cq_lanes s))"
  shows "hasPendingActiveTasks s ids \<longleftrightarrow> (\<exists>k t. t \<in> set (ln_active (getLaneState s k)) \<and> t \<in> set ids)"
proof
  assume "hasPendingActiveTasks s ids"
  then obtain k l t where kl: "(k, l) \<in> set (cq_lanes s)" and t: "t \<in> set (ln_active l)" "t \<in> set ids"
    by (auto simp: hasPendingActiveTasks_def list_ex_iff)
  have "getLaneState s k = l" using in_set_mget [OF assms kl] by (simp add: getLaneState_def)
  then show "\<exists>k t. t \<in> set (ln_active (getLaneState s k)) \<and> t \<in> set ids" using t by blast
next
  assume "\<exists>k t. t \<in> set (ln_active (getLaneState s k)) \<and> t \<in> set ids"
  then obtain k t where t: "t \<in> set (ln_active (getLaneState s k))" "t \<in> set ids" by blast
  then obtain l where "mget (cq_lanes s) k = Some l" "t \<in> set (ln_active l)"
    by (auto simp: getLaneState_def new_lane_def split: option.splits)
  then show "hasPendingActiveTasks s ids"
    using t mget_in_set by (fastforce simp: hasPendingActiveTasks_def list_ex_iff)
qed

section \<open>What a pump does\<close>

fun lane_events :: "qout list \<Rightarrow> jsstr \<Rightarrow> nat list" where
  "lane_events [] k = []"
| "lane_events (QStarted lane e t # os) k = (if lane = k then e # lane_events os k else lane_events os k)"
| "lane_events (QClearedError lane e # os) k = (if lane = k then e # lane_events os k else lane_events os k)"
| "lane_events (_ # os) k = lane_events os k"

lemma lane_events_append [simp]: "lane_events (os @ os') k = lane_events os k @ lane_events os' k"
  by (induction os k rule: lane_events.induct) auto

lemma lane_events_drained [simp]: "lane_events (map (\<lambda>w. QDrained (f w) b) ws) k = []"
  by (induction ws) auto

lemma lane_events_cleared [simp]:
  "lane_events (map (\<lambda>e. QClearedError lane (qe_id e)) q) k = (if lane = k then map qe_id q else [])"
  by (induction q) auto

text \<open>Tasks of one lane were started, from the front of its queue, until it was empty or the lane full; nothing else
  changed.\<close>

definition pumped :: "jsstr \<Rightarrow> command_queue \<Rightarrow> command_queue \<times> qout list \<Rightarrow> bool" where
  "pumped k s r \<longleftrightarrow> (let l = getLaneState s k; l' = getLaneState (fst r) k in
     (\<forall>k'. k' \<noteq> k \<longrightarrow> getLaneState (fst r) k' = getLaneState s k' \<and> lane_events (snd r) k' = [])
     \<and> lane_events (snd r) k @ map qe_id (ln_queue l') = map qe_id (ln_queue l)
     \<and> ln_max l' = ln_max l \<and> ln_generation l' = ln_generation l \<and> lane_busy l'
     \<and> set (ln_active l) \<subseteq> set (ln_active l')
     \<and> (length (ln_active l') \<le> length (ln_active l) \<or> below (length (ln_active l') - 1) (ln_max l))
     \<and> cq_waiters (fst r) = cq_waiters s \<and> cq_gatewayDraining (fst r) = cq_gatewayDraining s)"

lemma below_grow: "n' \<le> Suc n \<or> below (n' - 1) m \<Longrightarrow> below n m \<Longrightarrow> n' \<le> n \<or> below (n' - 1) m"
  by (cases "n' = Suc n") auto

lemma start_wf:
  assumes wf: "cq_wf s" and l: "l = getLaneState s k" and t: "t = cq_nextTaskId s"
  shows "cq_wf ((put_lane k (l\<lparr> ln_queue := q, ln_active := sadd (ln_active l) t \<rparr>) s)
     \<lparr> cq_nextTaskId := t + 1, cq_running := mput (cq_running s) t \<lparr> ri_lane = k, ri_generation = ln_generation l, ri_entry = e \<rparr> \<rparr>)"
proof -
  have fresh: "\<not> mhas (cq_running s) t" using wf t by (auto simp: cq_wf_def)
  have old: "set (ln_active (getLaneState s k')) =
      {t'. \<exists>r. mget (cq_running s) t' = Some r \<and> ri_lane r = k' \<and> ri_generation r = ln_generation (getLaneState s k')}"
    "distinct (ln_active (getLaneState s k'))" for k'
    using wf by (auto simp: cq_wf_def lane_wf_def)
  show ?thesis
    using wf fresh unfolding cq_wf_def lane_wf_def
    by (auto simp: l t old mhas_mget less_Suc_eq split: if_splits)
qed

lemma pump_loop_spec:
  "cq_wf s \<Longrightarrow> ln_queue (getLaneState s k) = q \<Longrightarrow>
   cq_wf (fst (pump_loop now k q s)) \<and> pumped k s (pump_loop now k q s)
   \<and> ln_draining (getLaneState (fst (pump_loop now k q s)) k) = ln_draining (getLaneState s k)"
proof (induction q arbitrary: s)
  case Nil
  then show ?case by (simp add: pumped_def lane_busy_def Let_def)
next
  case (Cons e q)
  let ?l = "getLaneState s k" and ?t = "cq_nextTaskId s"
  show ?case
  proof (cases "below (length (ln_active ?l)) (ln_max ?l)")
    case False
    then show ?thesis using Cons.prems by (simp add: pumped_def lane_busy_def Let_def)
  next
    case True
    let ?l1 = "?l\<lparr> ln_queue := q, ln_active := sadd (ln_active ?l) ?t \<rparr>"
    let ?s2 = "(put_lane k ?l1 s)\<lparr> cq_nextTaskId := ?t + 1, cq_running := mput (cq_running s) ?t
        \<lparr> ri_lane = k, ri_generation = ln_generation ?l, ri_entry = e \<rparr> \<rparr>"
    have wf2: "cq_wf ?s2" by (rule start_wf [OF Cons.prems(1) refl refl])
    have fresh: "?t \<notin> set (ln_active ?l)"
      using Cons.prems(1) by (auto simp: cq_wf_def lane_wf_def mhas_mget)
    then have act: "sadd (ln_active ?l) ?t = ln_active ?l @ [?t]" by (simp add: sadd_def)
    have IH: "cq_wf (fst (pump_loop now k q ?s2))" "pumped k ?s2 (pump_loop now k q ?s2)"
      "ln_draining (getLaneState (fst (pump_loop now k q ?s2)) k) = ln_draining (getLaneState ?s2 k)"
      using Cons.IH [OF wf2] by simp_all
    then show ?thesis
      using True Cons.prems(2) act below_grow [OF _ True] unfolding pumped_def
      by (simp add: Let_def)
  qed
qed

lemma set_draining_same [simp]:
  "ln_draining (getLaneState s k) = b \<Longrightarrow> getLaneState (set_draining k b s) = getLaneState s"
  by (auto simp: set_draining_def fun_eq_iff)

lemma set_draining_wf: "cq_wf s \<Longrightarrow> cq_wf (set_draining k b s)"
  by (auto simp: cq_wf_def set_draining_def lane_wf_def)

lemma pumped_set_draining [simp]:
  "pumped k (set_draining k b s) r = pumped k s r"
  "pumped k s (set_draining k b s', os) = pumped k s (s', os)"
  by (simp_all add: pumped_def set_draining_def Let_def lane_busy_def)

lemma draining_set_draining [simp]: "ln_draining (getLaneState (set_draining k b s) k) = b"
  by (simp add: set_draining_def)

lemma pump_spec:
  assumes "cq_wf s"
  shows "cq_wf (fst (pump now k s)) \<and> pumped k s (pump now k s) \<and> \<not> ln_draining (getLaneState (fst (pump now k s)) k)"
  using pump_loop_spec [OF assms refl, where k = k and now = now]
  by (simp add: pump_def Let_def set_draining_wf)

lemma drainLane_spec:
  assumes "cq_wf s" and "\<not> ln_draining (getLaneState s k)"
  shows "cq_wf (fst (drainLane now k s)) \<and> pumped k s (drainLane now k s)
    \<and> \<not> ln_draining (getLaneState (fst (drainLane now k s)) k)"
  using pump_spec [OF set_draining_wf [OF assms(1), where k = k and b = True], where k = k and now = now] assms(2)
  by (simp add: drainLane_def)


section \<open>Every operation keeps the invariant and the order\<close>

lemma wf_distinct: "cq_wf s \<Longrightarrow> distinct (mkeys (cq_lanes s))"
  by (simp add: cq_wf_def)

lemma wf_put:
  assumes "cq_wf s" and "ln_active l = ln_active (getLaneState s k)" and "ln_generation l = ln_generation (getLaneState s k)"
  shows "cq_wf (put_lane k l s)"
  using assms by (auto simp: cq_wf_def lane_wf_def)

lemma wf_other [simp]:
  "cq_wf (s\<lparr> cq_waiters := w \<rparr>) = cq_wf s"
  "cq_wf (s\<lparr> cq_gatewayDraining := b \<rparr>) = cq_wf s"
  by (simp_all add: cq_wf_def lane_wf_def)

lemma waiters_mono:
  assumes "cq_wf s" and "cq_wf s'" and "cq_waiters s' = cq_waiters s"
    and "\<And>k. set (ln_active (getLaneState s k)) \<subseteq> set (ln_active (getLaneState s' k))"
    and "list_all (\<lambda>w. \<not> drained_waiter s w) (cq_waiters s)"
  shows "list_all (\<lambda>w. \<not> drained_waiter s' w) (cq_waiters s')"
  using assms(3-5) pending_iff [OF wf_distinct [OF assms(1)]] pending_iff [OF wf_distinct [OF assms(2)]]
  by (fastforce simp: list_all_iff drained_waiter_def)

lemma pumped_inv:
  assumes p: "pumped k s r" and wf: "cq_wf s" "cq_wf (fst r)"
    and d: "\<And>k'. k' \<noteq> k \<Longrightarrow> \<not> ln_draining (getLaneState s k')" "\<not> ln_draining (getLaneState (fst r) k)"
    and b: "\<And>k'. k' \<noteq> k \<Longrightarrow> lane_busy (getLaneState s k')"
    and w: "list_all (\<lambda>w. \<not> drained_waiter s w) (cq_waiters s)"
  shows "cq_inv (fst r)"
proof -
  have other: "k' \<noteq> k \<Longrightarrow> getLaneState (fst r) k' = getLaneState s k'" for k'
    using p by (simp add: pumped_def Let_def)
  have "list_all (\<lambda>w. \<not> drained_waiter (fst r) w) (cq_waiters (fst r))"
  proof (rule waiters_mono [OF wf _ _ w])
    show "cq_waiters (fst r) = cq_waiters s" using p by (simp add: pumped_def Let_def)
    show "set (ln_active (getLaneState s k')) \<subseteq> set (ln_active (getLaneState (fst r) k'))" for k'
      using p other by (cases "k' = k") (auto simp: pumped_def Let_def)
  qed
  moreover have "\<not> ln_draining (getLaneState (fst r) k') \<and> lane_busy (getLaneState (fst r) k')" for k'
    using p other d b by (cases "k' = k") (auto simp: pumped_def Let_def)
  ultimately show ?thesis using wf by (simp add: cq_inv_def)
qed

lemma pumped_events:
  "pumped k s r \<Longrightarrow> lane_events (snd r) k' @ map qe_id (ln_queue (getLaneState (fst r) k')) = map qe_id (ln_queue (getLaneState s k'))"
  by (cases "k' = k") (auto simp: pumped_def Let_def)

text \<open>A change of the queue or the limit of one lane, followed by a drain of it.\<close>

lemma touch_lane:
  assumes inv: "cq_inv s" and l: "l = (getLaneState s k)\<lparr> ln_queue := q, ln_max := m \<rparr>"
  shows "cq_inv (fst (drainLane now k (put_lane k l s)))
    \<and> pumped k (put_lane k l s) (drainLane now k (put_lane k l s))"
proof -
  let ?s = "put_lane k l s"
  have wf: "cq_wf ?s" using inv l by (intro wf_put) (simp_all add: cq_inv_def)
  have d: "\<not> ln_draining (getLaneState ?s k')" for k' using inv l by (auto simp: cq_inv_def)
  have w: "list_all (\<lambda>w. \<not> drained_waiter ?s w) (cq_waiters ?s)"
    by (rule waiters_mono [OF _ wf]) (use inv l in \<open>auto simp: cq_inv_def\<close>)
  have spec: "cq_wf (fst (drainLane now k ?s))" "pumped k ?s (drainLane now k ?s)"
    "\<not> ln_draining (getLaneState (fst (drainLane now k ?s)) k)"
    using drainLane_spec [OF wf d] by simp_all
  have "cq_inv (fst (drainLane now k ?s))"
    by (rule pumped_inv [OF spec(2) wf spec(1) d spec(3) _ w]) (use inv l in \<open>auto simp: cq_inv_def\<close>)
  then show ?thesis using spec(2) by simp
qed

lemma notify_inv:
  assumes "cq_wf s" and "\<And>k. \<not> ln_draining (getLaneState s k) \<and> lane_busy (getLaneState s k)"
  shows "cq_inv (fst (notifyActiveTaskWaiters s))"
  using assms by (auto simp: notifyActiveTaskWaiters_def cq_inv_def list_all_iff drained_waiter_def hasPendingActiveTasks_def)

lemma notify_waiters: "list_all (\<lambda>w. \<not> drained_waiter (fst (notifyActiveTaskWaiters s)) w) (cq_waiters (fst (notifyActiveTaskWaiters s)))"
  by (auto simp: notifyActiveTaskWaiters_def list_all_iff drained_waiter_def hasPendingActiveTasks_def)

lemma notify_lanes [simp]:
  "getLaneState (fst (notifyActiveTaskWaiters s)) = getLaneState s"
  "cq_wf (fst (notifyActiveTaskWaiters s)) = cq_wf s"
  "lane_events (snd (notifyActiveTaskWaiters s)) k = []"
  by (simp_all add: notifyActiveTaskWaiters_def)

lemma settled_wf:
  assumes wf: "cq_wf s" and r: "mget (cq_running s) t = Some r" and l: "l = getLaneState s (ri_lane r)"
    and g: "ri_generation r = ln_generation l"
  shows "cq_wf (put_lane (ri_lane r) (l\<lparr> ln_active := sdel (ln_active l) t \<rparr>) (s\<lparr> cq_running := mdel (cq_running s) t \<rparr>))"
proof -
  have "set (ln_active (getLaneState s k)) =
      {t. \<exists>r. mget (cq_running s) t = Some r \<and> ri_lane r = k \<and> ri_generation r = ln_generation (getLaneState s k)}"
    "distinct (ln_active (getLaneState s k))" for k
    using wf by (auto simp: cq_wf_def lane_wf_def)
  then show ?thesis using wf r g unfolding cq_wf_def lane_wf_def by (auto simp: l split: if_splits) metis
qed

lemma stale_wf:
  assumes wf: "cq_wf s" and r: "mget (cq_running s) t = Some r" and g: "ri_generation r \<noteq> ln_generation (getLaneState s (ri_lane r))"
  shows "cq_wf (s\<lparr> cq_running := mdel (cq_running s) t \<rparr>)"
proof -
  have "set (ln_active (getLaneState s k)) =
      {t. \<exists>r. mget (cq_running s) t = Some r \<and> ri_lane r = k \<and> ri_generation r = ln_generation (getLaneState s k)}"
    "distinct (ln_active (getLaneState s k))" for k
    using wf by (auto simp: cq_wf_def lane_wf_def)
  then show ?thesis using wf r g unfolding cq_wf_def lane_wf_def by (auto split: if_splits)
qed

lemma settle_ok:
  assumes inv: "cq_inv s"
  shows "cq_inv (fst (settle now t b s))
    \<and> lane_events (snd (settle now t b s)) k @ map qe_id (ln_queue (getLaneState (fst (settle now t b s)) k))
      = map qe_id (ln_queue (getLaneState s k))"
proof (cases "mget (cq_running s) t")
  case None
  then show ?thesis using inv by (simp add: settle_def)
next
  case (Some r)
  let ?k = "ri_lane r" and ?s0 = "s\<lparr> cq_running := mdel (cq_running s) t \<rparr>"
  let ?l = "getLaneState s ?k"
  show ?thesis
  proof (cases "ri_generation r = ln_generation ?l")
    case False
    have "cq_inv ?s0" using inv stale_wf [OF _ Some False]
      by (simp add: cq_inv_def drained_waiter_def hasPendingActiveTasks_def)
    then show ?thesis using False Some by (simp add: settle_def completeTask_def Let_def)
  next
    case True
    let ?s1 = "put_lane ?k (?l\<lparr> ln_active := sdel (ln_active ?l) t \<rparr>) ?s0"
    let ?n = "fst (notifyActiveTaskWaiters ?s1)"
    have wf: "cq_wf ?n" using settled_wf [OF _ Some refl True] inv by (simp add: cq_inv_def)
    have spec: "cq_wf (fst (pump now ?k ?n))" "pumped ?k ?n (pump now ?k ?n)"
      "\<not> ln_draining (getLaneState (fst (pump now ?k ?n)) ?k)"
      using pump_spec [OF wf] by simp_all
    have "cq_inv (fst (pump now ?k ?n))"
      by (rule pumped_inv [OF spec(2) wf spec(1) _ spec(3) _ notify_waiters]) (use inv in \<open>auto simp: cq_inv_def\<close>)
    then show ?thesis
      using True Some pumped_events [OF spec(2), of k] by (auto simp: settle_def completeTask_def Let_def)
  qed
qed

lemma drain_lanes_spec:
  "distinct ks \<Longrightarrow> cq_wf s \<Longrightarrow> (\<And>k. \<not> ln_draining (getLaneState s k)) \<Longrightarrow>
   cq_wf (fst (drain_lanes now ks s))
   \<and> (\<forall>k. \<not> ln_draining (getLaneState (fst (drain_lanes now ks s)) k))
   \<and> (\<forall>k. k \<notin> set ks \<longrightarrow> getLaneState (fst (drain_lanes now ks s)) k = getLaneState s k)
   \<and> (\<forall>k \<in> set ks. lane_busy (getLaneState (fst (drain_lanes now ks s)) k))
   \<and> (\<forall>k. lane_events (snd (drain_lanes now ks s)) k @ map qe_id (ln_queue (getLaneState (fst (drain_lanes now ks s)) k))
          = map qe_id (ln_queue (getLaneState s k)))"
proof (induction ks arbitrary: s)
  case (Cons k ks)
  let ?r = "drainLane now k s"
  have spec: "cq_wf (fst ?r)" "pumped k s ?r" "\<not> ln_draining (getLaneState (fst ?r) k)"
    using drainLane_spec [OF Cons.prems(2,3)] by simp_all
  have other: "k' \<noteq> k \<Longrightarrow> getLaneState (fst ?r) k' = getLaneState s k'" for k'
    using spec(2) by (simp add: pumped_def Let_def)
  have "\<not> ln_draining (getLaneState (fst ?r) k')" for k'
    using Cons.prems(3) spec(3) other by (cases "k' = k") simp_all
  note IH = Cons.IH [OF _ spec(1) this, simplified]
  have busy: "lane_busy (getLaneState (fst ?r) k)" using spec(2) by (simp add: pumped_def Let_def)
  show ?case
    using IH Cons.prems(1) busy other pumped_events [OF spec(2)] by (auto simp: Let_def)
qed simp


lemma reset_lane_fields [simp]:
  "ln_generation (reset_lane l) = ln_generation l + 1" "ln_active (reset_lane l) = []"
  "ln_queue (reset_lane l) = ln_queue l" "ln_max (reset_lane l) = ln_max l" "\<not> ln_draining (reset_lane l)"
  by (simp_all add: reset_lane_def)

lemma new_lane_fields [simp]:
  "ln_generation new_lane = 0" "ln_active new_lane = []" "ln_queue new_lane = []" "\<not> ln_draining new_lane"
  by (simp_all add: new_lane_def)

lemma getLane_absent: "\<not> mhas (cq_lanes s) k \<Longrightarrow> getLaneState s k = new_lane"
  by (simp add: getLaneState_def mhas_mget)

lemma reset_lanes:
  "getLaneState (s\<lparr> cq_gatewayDraining := b, cq_lanes := map (\<lambda>(k, l). (k, reset_lane l)) (cq_lanes s) \<rparr>) k
    = (if mhas (cq_lanes s) k then reset_lane (getLaneState s k) else new_lane)"
proof -
  have "map_of (map (\<lambda>(k, l). (k, reset_lane l)) m) k = map_option reset_lane (map_of m k)" for m
    by (induction m) auto
  then show ?thesis
    by (auto simp: getLaneState_def mhas_mget mget_def split: option.splits)
qed

lemma running_lane_present:
  assumes "cq_wf s" and "mget (cq_running s) t = Some r"
  shows "mhas (cq_lanes s) (ri_lane r)"
proof (rule ccontr)
  assume "\<not> mhas (cq_lanes s) (ri_lane r)"
  then have l: "getLaneState s (ri_lane r) = new_lane" by (rule getLane_absent)
  have "lane_wf s (ri_lane r) (getLaneState s (ri_lane r))"
    "ri_generation r \<le> ln_generation (getLaneState s (ri_lane r))" using assms by (auto simp: cq_wf_def)
  then show False using assms(2) unfolding l by (fastforce simp: lane_wf_def)
qed

lemma reset_wf:
  assumes "cq_wf s"
  shows "cq_wf (s\<lparr> cq_gatewayDraining := b, cq_lanes := map (\<lambda>(k, l). (k, reset_lane l)) (cq_lanes s) \<rparr>)"
proof -
  let ?s = "s\<lparr> cq_gatewayDraining := b, cq_lanes := map (\<lambda>(k, l). (k, reset_lane l)) (cq_lanes s) \<rparr>"
  have old: "mget (cq_running s) t = Some r \<Longrightarrow> ri_generation r \<le> ln_generation (getLaneState s (ri_lane r))"
    "lane_wf s k (getLaneState s k)" for t r k
    using assms by (auto simp: cq_wf_def)
  note run = running_lane_present [OF assms]
  have "lane_wf ?s k (getLaneState ?s k)" for k
    using old(1) run by (fastforce simp: reset_lanes lane_wf_def)
  moreover have "ri_generation r \<le> ln_generation (getLaneState ?s (ri_lane r))" if "mget (cq_running s) t = Some r" for t r
    using old(1) [OF that] run [OF that] by (simp add: reset_lanes)
  ultimately show ?thesis using assms by (simp add: cq_wf_def comp_def case_prod_beta)
qed

lemma reset_ok:
  assumes inv: "cq_inv s"
  shows "cq_inv (fst (resetAllLanes now s))
    \<and> lane_events (snd (resetAllLanes now s)) k @ map qe_id (ln_queue (getLaneState (fst (resetAllLanes now s)) k))
      = map qe_id (ln_queue (getLaneState s k))"
proof -
  let ?s = "s\<lparr> cq_gatewayDraining := False, cq_lanes := map (\<lambda>(k, l). (k, reset_lane l)) (cq_lanes s) \<rparr>"
  let ?ks = "map fst (filter (\<lambda>(k, l). ln_queue l \<noteq> []) (cq_lanes s))"
  let ?r = "drain_lanes now ?ks ?s"
  have wf0: "cq_wf s" using inv by (simp add: cq_inv_def)
  have dist: "distinct ?ks" using wf_distinct [OF wf0] by simp
  have nd: "\<not> ln_draining (getLaneState ?s k)" for k
    by (simp add: reset_lanes)
  have queues: "ln_queue (getLaneState ?s k) = ln_queue (getLaneState s k)" for k
    by (simp add: reset_lanes getLane_absent)
  have spec: "cq_wf (fst ?r)" "\<And>k. \<not> ln_draining (getLaneState (fst ?r) k)"
    "\<And>k. k \<notin> set ?ks \<Longrightarrow> getLaneState (fst ?r) k = getLaneState ?s k"
    "\<And>k. k \<in> set ?ks \<Longrightarrow> lane_busy (getLaneState (fst ?r) k)"
    "\<And>k. lane_events (snd ?r) k @ map qe_id (ln_queue (getLaneState (fst ?r) k)) = map qe_id (ln_queue (getLaneState ?s k))"
    using drain_lanes_spec [OF dist reset_wf [OF wf0] nd] by blast+
  have empty: "k \<notin> set ?ks \<Longrightarrow> ln_queue (getLaneState s k) = []" for k
    by (auto simp: getLaneState_def new_lane_def image_iff split: option.splits dest!: mget_in_set)
  have "lane_busy (getLaneState (fst ?r) k)" for k
    using spec(3) [of k] spec(4) [of k] empty [of k] queues [of k] by (cases "k \<in> set ?ks") (auto simp: lane_busy_def)
  then have "cq_inv (fst (notifyActiveTaskWaiters (fst ?r)))"
    using spec(1,2) by (intro notify_inv) simp_all
  then show ?thesis using spec(5) [of k] queues by (simp add: resetAllLanes_def Let_def)
qed

lemma wait_ok:
  assumes inv: "cq_inv s"
  shows "cq_inv (fst (waitForActiveTasks w ms s)) \<and> cq_inv (fst (wait_timeout w s))"
proof -
  have "cq_inv (fst (notifyActiveTaskWaiters (s\<lparr> cq_waiters := mput (cq_waiters s) w ids \<rparr>)))" for ids
    using inv by (intro notify_inv) (simp_all add: cq_inv_def)
  moreover have "cq_inv (s\<lparr> cq_waiters := mdel (cq_waiters s) w \<rparr>)"
    using inv by (auto simp: cq_inv_def mdel_def list_all_iff drained_waiter_def hasPendingActiveTasks_def)
  ultimately show ?thesis using inv by (simp add: waitForActiveTasks_def wait_timeout_def Let_def)
qed

section \<open>The delivery contract\<close>

fun admitted :: "command_queue \<Rightarrow> int \<times> cq_op \<Rightarrow> jsstr \<Rightarrow> nat list" where
  "admitted s (now, Enqueue lane task w) k = (if \<not> cq_gatewayDraining s \<and> normalizeLane lane = k then [task] else [])"
| "admitted s (now, _) k = []"

definition queued :: "command_queue \<Rightarrow> jsstr \<Rightarrow> nat list" where
  "queued s k = map qe_id (ln_queue (getLaneState s k))"

lemma step_ok:
  assumes inv: "cq_inv s"
  shows "cq_inv (fst (cq_step s a)) \<and> lane_events (snd (cq_step s a)) k @ queued (fst (cq_step s a)) k = queued s k @ admitted s a k"
proof -
  obtain now b where a: "a = (now, b)" by (cases a)
  show ?thesis unfolding a
  proof (cases b)
    case (Enqueue lane task w)
    let ?k = "normalizeLane lane" and ?e = "\<lparr> qe_id = task, qe_enqueuedAt = now, qe_warnAfterMs = (case w of Some w \<Rightarrow> w | None \<Rightarrow> 2000) \<rparr>"
    let ?l = "(getLaneState s ?k)\<lparr> ln_queue := ln_queue (getLaneState s ?k) @ [?e] \<rparr>"
    have t: "cq_inv (fst (drainLane now ?k (put_lane ?k ?l s)))
        \<and> pumped ?k (put_lane ?k ?l s) (drainLane now ?k (put_lane ?k ?l s))"
      by (rule touch_lane [OF inv, where q = "ln_queue (getLaneState s ?k) @ [?e]" and m = "ln_max (getLaneState s ?k)"]) simp
    then show "cq_inv (fst (cq_step s (now, b))) \<and> lane_events (snd (cq_step s (now, b))) k @ queued (fst (cq_step s (now, b))) k
        = queued s k @ admitted s (now, b) k"
      using inv pumped_events [OF conjunct2 [OF t], of k]
      by (auto simp: Enqueue enqueueCommandInLane_def Let_def queued_def)
  next
    case (SetConcurrency lane m)
    let ?k = "normalizeLane lane"
    let ?l = "(getLaneState s ?k)\<lparr> ln_max := clamp_concurrency m \<rparr>"
    have t: "cq_inv (fst (drainLane now ?k (put_lane ?k ?l s)))
        \<and> pumped ?k (put_lane ?k ?l s) (drainLane now ?k (put_lane ?k ?l s))"
      by (rule touch_lane [OF inv, where q = "ln_queue (getLaneState s ?k)" and m = "clamp_concurrency m"]) simp
    then show "cq_inv (fst (cq_step s (now, b))) \<and> lane_events (snd (cq_step s (now, b))) k @ queued (fst (cq_step s (now, b))) k
        = queued s k @ admitted s (now, b) k"
      using pumped_events [OF conjunct2 [OF t], of k]
      by (auto simp: SetConcurrency setCommandLaneConcurrency_def Let_def queued_def)
  next
    case (ClearLane lane)
    let ?k = "normalizeLane lane"
    let ?s = "put_lane ?k ((getLaneState s ?k)\<lparr> ln_queue := [] \<rparr>) s"
    have wf: "cq_wf ?s" using inv by (intro wf_put) (simp_all add: cq_inv_def)
    have "list_all (\<lambda>w. \<not> drained_waiter ?s w) (cq_waiters ?s)"
      by (rule waiters_mono [OF _ wf]) (use inv in \<open>auto simp: cq_inv_def\<close>)
    then have inv': "cq_inv ?s" using inv wf by (auto simp: cq_inv_def lane_busy_def)
    show "cq_inv (fst (cq_step s (now, b))) \<and> lane_events (snd (cq_step s (now, b))) k @ queued (fst (cq_step s (now, b))) k
        = queued s k @ admitted s (now, b) k"
    proof (cases "mget (cq_lanes s) ?k")
      case None
      then show ?thesis using inv by (simp add: ClearLane clearCommandLane_def Let_def)
    next
      case (Some l)
      then have "getLaneState s ?k = l" by (simp add: getLaneState_def)
      then show ?thesis using inv' Some by (auto simp: ClearLane clearCommandLane_def Let_def queued_def)
    qed
  next
    case (Settle t success)
    then show "cq_inv (fst (cq_step s (now, b))) \<and> lane_events (snd (cq_step s (now, b))) k @ queued (fst (cq_step s (now, b))) k
        = queued s k @ admitted s (now, b) k"
      using settle_ok [OF inv, of now t success k] by (simp add: queued_def)
  next
    case ResetAll
    then show "cq_inv (fst (cq_step s (now, b))) \<and> lane_events (snd (cq_step s (now, b))) k @ queued (fst (cq_step s (now, b))) k
        = queued s k @ admitted s (now, b) k"
      using reset_ok [OF inv, of now k] by (simp add: queued_def)
  qed (use inv wait_ok [OF inv] in \<open>auto simp: markGatewayDraining_def queued_def cq_inv_def drained_waiter_def hasPendingActiveTasks_def
        waitForActiveTasks_def wait_timeout_def Let_def notifyActiveTaskWaiters_def\<close>)
qed


interpretation cq: guarded_delivery cq_step admitted queued lane_events cq_inv
  by unfold_locales (auto simp: step_ok)

lemma reached_inv: "cq_inv (fst (run_ops cq_step new_queue as))"
  by (rule cq.run_ok [OF new_queue_inv])

section \<open>Growth and ageing\<close>

text \<open>A lane gains a task only while it has room for it.\<close>

definition grows_within :: "command_queue \<Rightarrow> command_queue \<Rightarrow> bool" where
  "grows_within s s' \<longleftrightarrow> (\<forall>k. length (ln_active (getLaneState s' k)) \<le> length (ln_active (getLaneState s k))
      \<or> below (length (ln_active (getLaneState s' k)) - 1) (ln_max (getLaneState s' k)))"

text \<open>Task ids are not used again and generations only grow.\<close>

definition aged :: "command_queue \<Rightarrow> command_queue \<Rightarrow> bool" where
  "aged s s' \<longleftrightarrow> cq_nextTaskId s \<le> cq_nextTaskId s'
     \<and> (\<forall>t r. t < cq_nextTaskId s \<and> mget (cq_running s') t = Some r \<longrightarrow> mget (cq_running s) t = Some r)
     \<and> (\<forall>k. ln_generation (getLaneState s k) \<le> ln_generation (getLaneState s' k))"

lemma aged_refl [simp]: "aged s s"
  by (simp add: aged_def)

lemma aged_trans [trans]: "aged s s' \<Longrightarrow> aged s' s'' \<Longrightarrow> aged s s''"
  unfolding aged_def by (meson order_less_le_trans order_trans)

lemma aged_other [simp]:
  "aged s (s'\<lparr> cq_waiters := w \<rparr>) = aged s s'" "aged s (s'\<lparr> cq_gatewayDraining := b \<rparr>) = aged s s'"
  "aged (s\<lparr> cq_waiters := w \<rparr>) s' = aged s s'"
  by (simp_all add: aged_def)

lemma aged_put: "ln_generation (getLaneState s k) \<le> ln_generation l \<Longrightarrow> aged s (put_lane k l s)"
  by (simp add: aged_def)

lemma grows_refl [simp]: "grows_within s s"
  by (simp add: grows_within_def)

lemma pump_loop_aged: "aged s (fst (pump_loop now k q s))"
proof (induction q arbitrary: s)
  case (Cons e q)
  show ?case
    by (auto simp: Let_def intro!: aged_trans [OF _ Cons.IH]) (auto simp: aged_def)
qed simp

lemma set_draining_aged [simp]: "aged s (set_draining k b s)"
  by (simp add: set_draining_def aged_put)

lemma pump_aged: "aged s (fst (pump now k s))"
  using aged_trans [OF pump_loop_aged set_draining_aged] by (simp add: pump_def Let_def)

lemma drainLane_aged: "aged s (fst (drainLane now k s))"
  using aged_trans [OF set_draining_aged pump_aged] by (simp add: drainLane_def aged_put)

lemma drain_lanes_aged: "aged s (fst (drain_lanes now ks s))"
proof (induction ks arbitrary: s)
  case (Cons k ks)
  then show ?case using aged_trans [OF drainLane_aged Cons.IH] by (simp add: Let_def)
qed simp

lemma running_del_aged: "aged s (s\<lparr> cq_running := mdel (cq_running s) t \<rparr>)"
  by (simp add: aged_def)

lemma step_aged:
  assumes "cq_inv s" shows "aged s (fst (cq_step s a))"
proof -
  obtain now b where a: "a = (now, b)" by (cases a)
  have put: "aged s (fst (drainLane now k (put_lane k l s)))" if "ln_generation (getLaneState s k) \<le> ln_generation l" for k l
    by (rule aged_trans [OF aged_put [OF that] drainLane_aged])
  have settle: "aged s (fst (settle now t c s))" for t c
  proof (cases "mget (cq_running s) t")
    case (Some r)
    let ?s0 = "s\<lparr> cq_running := mdel (cq_running s) t \<rparr>"
    let ?s1 = "put_lane (ri_lane r) ((getLaneState s (ri_lane r))\<lparr> ln_active := sdel (ln_active (getLaneState s (ri_lane r))) t \<rparr>) ?s0"
    have "aged s ?s1" by (rule aged_trans [OF running_del_aged aged_put]) simp
    then have "aged s (fst (pump now (ri_lane r) (fst (notifyActiveTaskWaiters ?s1))))"
      by (intro aged_trans [OF _ pump_aged]) (simp add: notifyActiveTaskWaiters_def)
    then show ?thesis using running_del_aged Some by (simp add: settle_def completeTask_def Let_def)
  qed (simp add: settle_def)
  have reset: "aged s (fst (resetAllLanes now s))"
  proof -
    let ?s = "s\<lparr> cq_gatewayDraining := False, cq_lanes := map (\<lambda>(k, l). (k, reset_lane l)) (cq_lanes s) \<rparr>"
    have "aged s ?s" by (auto simp: aged_def reset_lanes getLane_absent)
    then have "aged s (fst (drain_lanes now ks ?s))" for ks by (rule aged_trans [OF _ drain_lanes_aged])
    then show ?thesis by (simp add: resetAllLanes_def Let_def notifyActiveTaskWaiters_def)
  qed
  have clear: "aged s (fst (fst (clearCommandLane lane s)))" for lane
    by (auto simp: clearCommandLane_def Let_def getLaneState_def split: option.splits intro!: aged_put)
  show ?thesis unfolding a
    by (cases b) (auto simp: put settle reset clear enqueueCommandInLane_def setCommandLaneConcurrency_def Let_def
        markGatewayDraining_def waitForActiveTasks_def wait_timeout_def notifyActiveTaskWaiters_def)
qed

lemma reset_generation:
  assumes "mhas (cq_lanes s) k"
  shows "ln_generation (getLaneState s k) < ln_generation (getLaneState (fst (resetAllLanes now s)) k)"
proof -
  let ?s = "s\<lparr> cq_gatewayDraining := False, cq_lanes := map (\<lambda>(k, l). (k, reset_lane l)) (cq_lanes s) \<rparr>"
  have "ln_generation (getLaneState ?s k) \<le> ln_generation (getLaneState (fst (drain_lanes now ks ?s)) k)" for ks
    using drain_lanes_aged by (simp only: aged_def)
  then show ?thesis using assms by (simp add: resetAllLanes_def Let_def reset_lanes Suc_le_eq)
qed

lemma run_aged: "cq_inv s \<Longrightarrow> aged s (fst (run_ops cq_step s as))"
proof (induction as arbitrary: s)
  case (Cons a as)
  then show ?case using aged_trans [OF step_aged [OF Cons.prems] Cons.IH] step_ok [OF Cons.prems]
    by (simp add: case_prod_beta Let_def)
qed simp


lemma grows_from:
  assumes "grows_within s0 s1" and "getLaneState s2 = getLaneState s1"
    and "\<And>k. length (ln_active (getLaneState s0 k)) \<le> length (ln_active (getLaneState s k))"
  shows "grows_within s s2"
  using assms unfolding grows_within_def by (metis order_trans)

lemma pumped_grows:
  assumes "pumped k s r"
    and "\<And>k'. length (ln_active (getLaneState s k')) \<le> length (ln_active (getLaneState s0 k'))"
  shows "grows_within s0 (fst r)"
  unfolding grows_within_def
proof
  fix k'
  show "length (ln_active (getLaneState (fst r) k')) \<le> length (ln_active (getLaneState s0 k'))
      \<or> below (length (ln_active (getLaneState (fst r) k')) - 1) (ln_max (getLaneState (fst r) k'))"
    using assms(1) assms(2) [of k'] by (cases "k' = k") (auto simp: pumped_def Let_def)
qed

lemma drain_lanes_grows:
  "distinct ks \<Longrightarrow> cq_wf s \<Longrightarrow> (\<And>k. \<not> ln_draining (getLaneState s k)) \<Longrightarrow> grows_within s (fst (drain_lanes now ks s))"
proof (induction ks arbitrary: s)
  case (Cons k ks)
  let ?r = "drainLane now k s"
  have spec: "cq_wf (fst ?r)" "pumped k s ?r" "\<not> ln_draining (getLaneState (fst ?r) k)"
    using drainLane_spec [OF Cons.prems(2,3)] by simp_all
  have other: "k' \<noteq> k \<Longrightarrow> getLaneState (fst ?r) k' = getLaneState s k'" for k'
    using spec(2) by (simp add: pumped_def Let_def)
  have nd: "\<not> ln_draining (getLaneState (fst ?r) k')" for k'
    using Cons.prems(3) spec(3) other by (cases "k' = k") simp_all
  have dist: "distinct ks" using Cons.prems(1) by simp
  have "grows_within (fst ?r) (fst (drain_lanes now ks (fst ?r)))"
    by (rule Cons.IH [OF dist spec(1) nd])
  moreover have "grows_within s (fst ?r)" by (rule pumped_grows [OF spec(2) order_refl])
  moreover have "getLaneState (fst (drain_lanes now ks (fst ?r))) k = getLaneState (fst ?r) k"
    using drain_lanes_spec [OF dist spec(1) nd, of now] Cons.prems(1) by simp
  ultimately show ?case
    unfolding grows_within_def using other by (metis drain_lanes.simps(2) fst_conv)
qed simp

lemma step_grows:
  assumes inv: "cq_inv s" shows "grows_within s (fst (cq_step s a))"
proof -
  obtain now b where a: "a = (now, b)" by (cases a)
  have touch: "grows_within s (fst (drainLane now k (put_lane k ((getLaneState s k)\<lparr> ln_queue := q, ln_max := m \<rparr>) s)))" for k q m
    by (rule pumped_grows [OF conjunct2 [OF touch_lane [OF inv refl]]]) simp
  have settle: "grows_within s (fst (settle now t c s))" for t c
  proof (cases "mget (cq_running s) t")
    case (Some r)
    let ?k = "ri_lane r" and ?s0 = "s\<lparr> cq_running := mdel (cq_running s) t \<rparr>"
    let ?l = "getLaneState s ?k"
    let ?n = "fst (notifyActiveTaskWaiters (put_lane ?k (?l\<lparr> ln_active := sdel (ln_active ?l) t \<rparr>) ?s0))"
    have "grows_within s (fst (pump now ?k ?n))" if "ri_generation r = ln_generation ?l"
    proof (rule pumped_grows)
      show "pumped ?k ?n (pump now ?k ?n)"
        using settled_wf [OF _ Some refl that] inv by (intro conjunct1 [OF conjunct2 [OF pump_spec]]) (simp add: cq_inv_def)
      show "length (ln_active (getLaneState ?n k')) \<le> length (ln_active (getLaneState s k'))" for k'
        by (simp add: sdel_def)
    qed
    then show ?thesis using Some by (auto simp: settle_def completeTask_def Let_def grows_within_def)
  qed (simp add: settle_def)
  have reset: "grows_within s (fst (resetAllLanes now s))"
  proof -
    let ?s = "s\<lparr> cq_gatewayDraining := False, cq_lanes := map (\<lambda>(k, l). (k, reset_lane l)) (cq_lanes s) \<rparr>"
    let ?ks = "map fst (filter (\<lambda>(k, l). ln_queue l \<noteq> []) (cq_lanes s))"
    have wf: "cq_wf s" using inv by (simp add: cq_inv_def)
    have act: "ln_active (getLaneState ?s k) = []" for k by (simp add: reset_lanes)
    have "grows_within ?s (fst (drain_lanes now ?ks ?s))"
      using wf_distinct [OF wf] by (intro drain_lanes_grows reset_wf [OF wf]) (simp_all add: reset_lanes)
    moreover have "getLaneState (fst (resetAllLanes now s)) = getLaneState (fst (drain_lanes now ?ks ?s))"
      by (simp add: resetAllLanes_def Let_def)
    ultimately show ?thesis by (rule grows_from) (simp add: act)
  qed
  have touch_q: "grows_within s (fst (drainLane now k (put_lane k ((getLaneState s k)\<lparr> ln_queue := q \<rparr>) s)))" for k q
    using touch [where k = k and q = q and m = "ln_max (getLaneState s k)"] by simp
  have touch_m: "grows_within s (fst (drainLane now k (put_lane k ((getLaneState s k)\<lparr> ln_max := m \<rparr>) s)))" for k m
    using touch [where k = k and q = "ln_queue (getLaneState s k)" and m = m] by simp
  have clear: "grows_within s (fst (fst (clearCommandLane lane s)))" for lane
    by (auto simp: clearCommandLane_def Let_def grows_within_def getLaneState_def put_lane_def split: option.splits)
  have other: "grows_within s (s\<lparr> cq_waiters := w \<rparr>)" "grows_within s (s\<lparr> cq_gatewayDraining := c \<rparr>)" for w c
    by (simp_all add: grows_within_def)
  show ?thesis unfolding a
    by (cases b) (simp_all add: touch_q touch_m settle reset clear other enqueueCommandInLane_def setCommandLaneConcurrency_def Let_def
        markGatewayDraining_def waitForActiveTasks_def wait_timeout_def notifyActiveTaskWaiters_def
        grows_within_def [where s' = "s\<lparr> cq_waiters := _ \<rparr>\<lparr> cq_waiters := _ \<rparr>"])
qed

section \<open>Properties\<close>

definition sample_ops :: "(int \<times> cq_op) list" where
  "sample_ops = [(0, Enqueue (js '' main'') 11 None), (1, Enqueue (js ''main'') 12 (Some 5)), (2, Wait 7 100)]"

text \<open>C14: Every command is handed on once and in order. Whatever operations ran, for each lane the commands that were started
  or rejected because the lane was cleared, in the order this happened, followed by the commands still
  queued, are exactly the commands accepted for that lane in the order they were enqueued; a
  command is not accepted only while the gateway drains.\<close>

theorem command_queue_fifo:
  "lane_events (snd (run_ops cq_step new_queue as)) k @ queued (fst (run_ops cq_step new_queue as)) k
   = run_admitted cq_step admitted new_queue as k"
  using cq.run_conserve [OF new_queue_inv, where k = k and as = as]
  by (simp add: queued_def new_queue_def getLaneState_def)

text \<open>A lane is never idle with work waiting, and its active set is exact. After any operations a lane with queued
  commands has no room left, the ids it counts as active are those of the unfinished tasks
  started since its last reset, no lane is left draining, and every pending
  \<open>waitForActiveTasks\<close> still has an active task to wait for.\<close>

theorem command_queue_scheduling:
  assumes "s = fst (run_ops cq_step new_queue as)" and "l = getLaneState s k"
  shows "(ln_queue l \<noteq> [] \<longrightarrow> \<not> below (length (ln_active l)) (ln_max l))
    \<and> set (ln_active l) = {t. \<exists>r. mget (cq_running s) t = Some r \<and> ri_lane r = k \<and> ri_generation r = ln_generation l}
    \<and> \<not> ln_draining l
    \<and> (\<forall>w ids. (w, ids) \<in> set (cq_waiters s) \<longrightarrow> (\<exists>k. set ids \<inter> set (ln_active (getLaneState s k)) \<noteq> {}))"
proof -
  have inv: "cq_inv s" using reached_inv assms(1) by simp
  then have wf: "cq_wf s" by (simp add: cq_inv_def)
  have "\<exists>k. set ids \<inter> set (ln_active (getLaneState s k)) \<noteq> {}" if "(w, ids) \<in> set (cq_waiters s)" for w ids
  proof -
    have "hasPendingActiveTasks s ids"
      using inv that by (auto simp: cq_inv_def list_all_iff drained_waiter_def)
    then show ?thesis using pending_iff [OF wf_distinct [OF wf]] by blast
  qed
  then show ?thesis using inv wf assms(2) by (auto simp: cq_inv_def cq_wf_def lane_wf_def lane_busy_def)
qed

theorem command_queue_scheduling_witness:
  "\<not> below (length (ln_active (getLaneState (fst (run_ops cq_step new_queue sample_ops)) (js ''main''))))
     (ln_max (getLaneState (fst (run_ops cq_step new_queue sample_ops)) (js ''main'')))"
proof -
  have "ln_queue (getLaneState (fst (run_ops cq_step new_queue sample_ops)) (js ''main'')) \<noteq> []" by code_simp
  then show ?thesis
    using command_queue_scheduling [OF refl refl, where as = sample_ops and k = "js ''main''"] by blast
qed

text \<open>The concurrency of a lane is bounded. One operation makes the active set of a lane larger only by
  starting tasks while fewer than the lane's maximum were active.\<close>

theorem command_queue_bound:
  assumes "s = fst (run_ops cq_step new_queue as)" and "s' = fst (cq_step s a)"
  shows "length (ln_active (getLaneState s' k)) \<le> length (ln_active (getLaneState s k))
    \<or> below (length (ln_active (getLaneState s' k)) - 1) (ln_max (getLaneState s' k))"
  using step_grows [OF reached_inv] assms by (simp add: grows_within_def)

theorem command_queue_bound_witness:
  "below 1 (ln_max (getLaneState (fst (cq_step (fst (run_ops cq_step new_queue sample_ops))
     (3, SetConcurrency (js ''main'') (Fin 2)))) (js ''main'')))"
proof -
  let ?s = "fst (run_ops cq_step new_queue sample_ops)"
  let ?s' = "fst (cq_step ?s (3, SetConcurrency (js ''main'') (Fin 2)))"
  have "length (ln_active (getLaneState ?s (js ''main''))) = 1" by code_simp
  moreover have "length (ln_active (getLaneState ?s' (js ''main''))) = 2" by code_simp
  ultimately show ?thesis
    using command_queue_bound [OF refl refl, where as = sample_ops and k = "js ''main''"
        and a = "(3, SetConcurrency (js ''main'') (Fin 2))"] by simp
qed

text \<open>Work of a previous generation is ignored. When a task that was running before \<open>resetAllLanes\<close> ends at any
  later time, its promise settles and nothing else happens: no lane, waiter or other task
  is touched and nothing is started.\<close>

theorem stale_completion_ignored:
  assumes "s = fst (run_ops cq_step new_queue as)" and "mget (cq_running s) t = Some r"
    and "s' = fst (run_ops cq_step s ((now, ResetAll) # bs))" and "mhas (cq_running s') t"
  shows "settle now' t success s' = (s'\<lparr> cq_running := mdel (cq_running s') t \<rparr>, [QSettled (qe_id (ri_entry r)) success])"
proof -
  let ?s1 = "fst (resetAllLanes now s)"
  let ?k = "ri_lane r"
  have inv: "cq_inv s" using reached_inv assms(1) by simp
  then have wf: "cq_wf s" by (simp add: cq_inv_def)
  have inv1: "cq_inv ?s1" using reset_ok [OF inv] by blast
  have s': "s' = fst (run_ops cq_step ?s1 bs)" using assms(3) by (simp add: case_prod_beta Let_def)
  have aged1: "aged s ?s1" using step_aged [OF inv, of "(now, ResetAll)"] by simp
  have aged: "aged s s'" using aged_trans [OF aged1 run_aged [OF inv1]] s' by simp
  have lt: "t < cq_nextTaskId s" using wf assms(2) by (auto simp: cq_wf_def mhas_mget)
  have run': "mget (cq_running s') t = Some r"
    using aged lt assms(2,4) by (auto simp: aged_def mhas_mget)
  have "ri_generation r \<le> ln_generation (getLaneState s ?k)" using wf assms(2) by (auto simp: cq_wf_def)
  moreover have "ln_generation (getLaneState s ?k) < ln_generation (getLaneState ?s1 ?k)"
    by (rule reset_generation [OF running_lane_present [OF wf assms(2)]])
  ultimately have "ri_generation r \<noteq> ln_generation (getLaneState s' ?k)"
    using run_aged [OF inv1, of bs] s' by (auto simp: aged_def) (metis leD order_le_less_trans order_less_le_trans)
  then show ?thesis using run' by (simp add: settle_def completeTask_def Let_def)
qed

theorem stale_completion_ignored_witness:
  "snd (settle 9 1 True (fst (run_ops cq_step (fst (run_ops cq_step new_queue sample_ops)) [(4, ResetAll)]))) = [QSettled 11 True]"
proof -
  let ?s = "fst (run_ops cq_step new_queue sample_ops)"
  let ?e = "\<lparr> qe_id = 11, qe_enqueuedAt = 0, qe_warnAfterMs = 2000 \<rparr>"
  have r: "mget (cq_running ?s) 1 = Some \<lparr> ri_lane = js ''main'', ri_generation = 0, ri_entry = ?e \<rparr>" by code_simp
  have m: "mhas (cq_running (fst (run_ops cq_step ?s [(4, ResetAll)]))) 1" by code_simp
  show ?thesis by (subst stale_completion_ignored [OF refl r refl m]) simp
qed

end
