(* ===== verification/StringCoerce.thy ===== *)
theory StringCoerce
  imports JsValue
begin

text \<open>
  The coercions of optional texts in \<open>src/src/shared/string-coerce.ts\<close> that the modelled parts of the gateway
  share: trimmed, empty texts dropped, lowered.
\<close>

definition normalizeOptionalString :: "jsstr option \<Rightarrow> jsstr option" where
  "normalizeOptionalString v = (case v of Some s \<Rightarrow> if trim s = [] then None else Some (trim s) | None \<Rightarrow> None)"

definition normalizeOptionalLowercaseString :: "jsstr option \<Rightarrow> jsstr option" where
  "normalizeOptionalLowercaseString v = map_option toLowerCase (normalizeOptionalString v)"

definition normalizeLowercaseStringOrEmpty :: "jsstr option \<Rightarrow> jsstr" where
  "normalizeLowercaseStringOrEmpty v = (case normalizeOptionalLowercaseString v of None \<Rightarrow> [] | Some s \<Rightarrow> s)"

lemma lowercase_or_empty: "normalizeLowercaseStringOrEmpty (Some s) = toLowerCase (trim s)"
  by (simp add: normalizeLowercaseStringOrEmpty_def normalizeOptionalLowercaseString_def normalizeOptionalString_def toLowerCase_def)

lemma lowercase_or_empty_None [simp]: "normalizeLowercaseStringOrEmpty None = []"
  by (simp add: normalizeLowercaseStringOrEmpty_def normalizeOptionalLowercaseString_def normalizeOptionalString_def)

end
