(* ===== verification/FollowupQueue.thy ===== *)
theory FollowupQueue
  imports QueueHelpers DedupeCache Json CommandQueue StringCoerce
begin

text \<open>
  The follow-up queues of \<open>src/src/auto-reply/reply/queue/\<close> (\<open>types.ts\<close>, \<open>state.ts\<close>, \<open>enqueue.ts\<close>,
  \<open>drain.ts\<close>, \<open>cleanup.ts\<close>): messages that arrive while an agent run of their session is active wait
  in a queue per key, and a drain hands them to a callback, one by one or collected.

  Queues are objects that the registry and the drains share, so they live in a store
  (\<open>fs_heap\<close>) and the registry maps keys to addresses; a drain keeps the address of its queue
  when the registry forgets it.  An asynchronous drain is a state of \<open>fs_drains\<close>: it waits for
  the debounce or for its callback, and the operations \<open>Debounced\<close> and \<open>RunSettled\<close> resume it.
  A callback is a number and its calls are outputs.  The \<open>run\<close> objects are values: the
  callback's own reference to the run it was given is not modelled.  \<open>registered\<close> is the
  channel registry (\<open>normalizeChatChannelId\<close>, \<open>normalizeChannelId\<close>).
\<close>

section \<open>Data\<close>

record exec_overrides =
  eo_host :: "jsstr option"
  eo_security :: "jsstr option"
  eo_ask :: "jsstr option"
  eo_node :: "jsstr option"

record bash_elevated =
  be_enabled :: bool
  be_allowed :: bool
  be_defaultLevel :: jsstr

record run_context =
  ru_sessionId :: jsstr
  ru_sessionFile :: jsstr
  ru_provider :: jsstr
  ru_model :: jsstr
  ru_authProfileId :: "jsstr option"
  ru_authProfileIdSource :: "jsstr option"
  ru_senderId :: "jsstr option"
  ru_senderName :: "jsstr option"
  ru_senderUsername :: "jsstr option"
  ru_senderE164 :: "jsstr option"
  ru_senderIsOwner :: "bool option"
  ru_execOverrides :: "exec_overrides option"
  ru_bashElevated :: "bash_elevated option"
  ru_rest :: jsval

datatype thread_id = ThreadNum jsnum | ThreadStr jsstr

record followup_run =
  fr_prompt :: jsstr
  fr_messageId :: "jsstr option"
  fr_summaryLine :: "jsstr option"
  fr_enqueuedAt :: int
  fr_channel :: "jsstr option"
  fr_to :: "jsstr option"
  fr_accountId :: "jsstr option"
  fr_threadId :: "thread_id option"
  fr_run :: run_context

datatype queue_mode = Steer | Followup | Collect | SteerBacklog | Interrupt | QueueMode

datatype dedupe_mode = ByMessageId | ByPrompt | NoDedupe

record followup_queue = "followup_run queue_state" +
  fq_draining :: bool
  fq_lastEnqueuedAt :: int
  fq_mode :: queue_mode
  fq_debounceMs :: jsnum
  fq_lastRun :: "run_context option"

datatype drain_phase =
    Debouncing jsnum
  | RunningItem followup_run
  | RunningSummary
  | RunningSummaryItem
  | RunningGroup "followup_run list" "followup_run list list" "jsstr option"

record drain =
  dr_queue :: nat
  dr_key :: jsstr
  dr_callback :: nat
  dr_forceIndividualCollect :: bool
  dr_phase :: drain_phase

record followup_state =
  fs_heap :: "(nat, followup_queue) jsmap"
  fs_queues :: "(jsstr, nat) jsmap"
  fs_callbacks :: "(jsstr, nat) jsmap"
  fs_recent :: dedupe_cache
  fs_drains :: "(nat, drain) jsmap"
  fs_next :: nat

text \<open>A call of a callback, with the queued items it stands for, and its success, with the key and these items.\<close>

datatype followup_out =
    RunFollowup nat nat followup_run "followup_run list"
  | FollowupDone jsstr "followup_run list"

definition DEFAULT_QUEUE_DEBOUNCE_MS :: jsnum where "DEFAULT_QUEUE_DEBOUNCE_MS = Fin 1000"
definition DEFAULT_QUEUE_CAP :: jsnum where "DEFAULT_QUEUE_CAP = Fin 20"
definition DEFAULT_QUEUE_DROP :: drop_policy where "DEFAULT_QUEUE_DROP = Summarize"

definition new_followup_state :: followup_state where
  "new_followup_state = \<lparr> fs_heap = [], fs_queues = [], fs_callbacks = [],
     fs_recent = createDedupeCache (5 * 60 * 1000) 10000, fs_drains = [], fs_next = 1 \<rparr>"

definition heap_queue :: "followup_state \<Rightarrow> nat \<Rightarrow> followup_queue option" where
  "heap_queue s a = mget (fs_heap s) a"

definition set_queue :: "nat \<Rightarrow> followup_queue \<Rightarrow> followup_state \<Rightarrow> followup_state" where
  "set_queue a q s = s\<lparr> fs_heap := mput (fs_heap s) a q \<rparr>"

section \<open>The registry (\<open>state.ts\<close>)\<close>

definition getExistingFollowupQueue :: "jsstr \<Rightarrow> followup_state \<Rightarrow> nat option" where
  "getExistingFollowupQueue key s = (if trim key = [] then None else mget (fs_queues s) (trim key))"

definition apply_settings :: "queue_mode queue_settings \<Rightarrow> followup_queue \<Rightarrow> followup_queue" where
  "apply_settings settings q = (let t = applyQueueRuntimeSettings settings
       \<lparr> qt_mode = fq_mode q, qt_debounceMs = fq_debounceMs q, qt_cap = q_cap q, qt_dropPolicy = qs_dropPolicy q \<rparr>
     in q\<lparr> fq_mode := qt_mode t, fq_debounceMs := qt_debounceMs t, q_cap := qt_cap t, qs_dropPolicy := qt_dropPolicy t \<rparr>)"

definition new_followup_queue :: "queue_mode queue_settings \<Rightarrow> followup_queue" where
  "new_followup_queue settings =
    \<lparr> qs_dropPolicy = (case set_dropPolicy settings of Some p \<Rightarrow> p | None \<Rightarrow> DEFAULT_QUEUE_DROP),
      qs_droppedCount = 0, qs_summaryLines = [], q_items = [],
      q_cap = cap_setting (set_cap settings) DEFAULT_QUEUE_CAP,
      fq_draining = False, fq_lastEnqueuedAt = 0, fq_mode = set_mode settings,
      fq_debounceMs = debounce_setting (set_debounceMs settings) DEFAULT_QUEUE_DEBOUNCE_MS, fq_lastRun = None \<rparr>"

text \<open>Returns the address of the queue.\<close>

definition getFollowupQueue :: "jsstr \<Rightarrow> queue_mode queue_settings \<Rightarrow> followup_state \<Rightarrow> nat \<times> followup_state" where
  "getFollowupQueue key settings s = (case mget (fs_queues s) key of
     Some a \<Rightarrow> (a, case heap_queue s a of Some q \<Rightarrow> set_queue a (apply_settings settings q) s | None \<Rightarrow> s)
   | None \<Rightarrow> (fs_next s, (set_queue (fs_next s) (apply_settings settings (new_followup_queue settings)) s)
        \<lparr> fs_queues := mput (fs_queues s) key (fs_next s), fs_next := fs_next s + 1 \<rparr>))"

definition clearFollowupQueue :: "jsstr \<Rightarrow> followup_state \<Rightarrow> nat \<times> followup_state" where
  "clearFollowupQueue key s = (let cleaned = trim key in
     case getExistingFollowupQueue cleaned s of
       None \<Rightarrow> (0, s)
     | Some a \<Rightarrow> (case heap_queue s a of
         None \<Rightarrow> (0, s)
       | Some q \<Rightarrow> (length (q_items q) + qs_droppedCount q,
           (set_queue a (q\<lparr> q_items := [], qs_droppedCount := 0, qs_summaryLines := [], fq_lastRun := None,
              fq_lastEnqueuedAt := 0 \<rparr>) s)\<lparr> fs_queues := mdel (fs_queues s) cleaned \<rparr>)))"

text \<open>The parameters of \<open>refreshQueuedFollowupSession\<close>; a property that is present but undefined is \<open>Some None\<close>.\<close>

record refresh_params =
  rf_key :: jsstr
  rf_previousSessionId :: "jsstr option"
  rf_nextSessionId :: "jsstr option"
  rf_nextSessionFile :: "jsstr option"
  rf_nextProvider :: "jsstr option"
  rf_nextModel :: "jsstr option"
  rf_nextAuthProfileId :: "jsstr option option"
  rf_nextAuthProfileIdSource :: "jsstr option option"

definition nonempty :: "jsstr option \<Rightarrow> bool" where
  "nonempty v = (case v of Some s \<Rightarrow> s \<noteq> [] | None \<Rightarrow> False)"

definition rewrites_session :: "refresh_params \<Rightarrow> bool" where
  "rewrites_session p \<longleftrightarrow> nonempty (rf_previousSessionId p) \<and> nonempty (rf_nextSessionId p)
     \<and> rf_previousSessionId p \<noteq> rf_nextSessionId p"

definition rewrites_selection :: "refresh_params \<Rightarrow> bool" where
  "rewrites_selection p \<longleftrightarrow> rf_nextProvider p \<noteq> None \<or> rf_nextModel p \<noteq> None
     \<or> rf_nextAuthProfileId p \<noteq> None \<or> rf_nextAuthProfileIdSource p \<noteq> None"

definition rewrite_session :: "refresh_params \<Rightarrow> run_context \<Rightarrow> run_context" where
  "rewrite_session p r =
    (if rewrites_session p \<and> Some (ru_sessionId r) = rf_previousSessionId p
     then r\<lparr> ru_sessionId := the (rf_nextSessionId p),
       ru_sessionFile := (case normalizeOptionalString (rf_nextSessionFile p) of Some f \<Rightarrow> f | None \<Rightarrow> ru_sessionFile r) \<rparr>
     else r)"

definition rewrite_selection :: "refresh_params \<Rightarrow> run_context \<Rightarrow> run_context" where
  "rewrite_selection p r =
    (let auth = (case rf_nextAuthProfileId p of Some v \<Rightarrow> normalizeOptionalString v | None \<Rightarrow> ru_authProfileId r) in
     r\<lparr> ru_provider := (case rf_nextProvider p of Some v \<Rightarrow> v | None \<Rightarrow> ru_provider r),
       ru_model := (case rf_nextModel p of Some v \<Rightarrow> v | None \<Rightarrow> ru_model r),
       ru_authProfileId := auth,
       ru_authProfileIdSource := (case rf_nextAuthProfileIdSource p of
          Some v \<Rightarrow> (if nonempty auth then v else None) | None \<Rightarrow> ru_authProfileIdSource r) \<rparr>)"

definition rewriteRun :: "refresh_params \<Rightarrow> run_context \<Rightarrow> run_context" where
  "rewriteRun p r = rewrite_selection p (rewrite_session p r)"

text \<open>A drain that collects holds the same items as the queue: those still queued are rewritten there too.\<close>

definition rewrite_item :: "refresh_params \<Rightarrow> followup_run \<Rightarrow> followup_run" where
  "rewrite_item p i = i\<lparr> fr_run := rewriteRun p (fr_run i) \<rparr>"

definition rewrite_phase :: "refresh_params \<Rightarrow> followup_run list \<Rightarrow> drain_phase \<Rightarrow> drain_phase" where
  "rewrite_phase p items ph = (let f = (\<lambda>i. if i \<in> set items then rewrite_item p i else i) in
     case ph of RunningGroup g rest pending \<Rightarrow> RunningGroup (map f g) (map (map f) rest) pending
     | RunningItem i \<Rightarrow> RunningItem (f i) | _ \<Rightarrow> ph)"

definition refreshQueuedFollowupSession :: "refresh_params \<Rightarrow> followup_state \<Rightarrow> followup_state" where
  "refreshQueuedFollowupSession p s = (case getExistingFollowupQueue (trim (rf_key p)) s of
     None \<Rightarrow> s
   | Some a \<Rightarrow> (case heap_queue s a of
       None \<Rightarrow> s
     | Some q \<Rightarrow> if \<not> rewrites_session p \<and> \<not> rewrites_selection p then s
         else (set_queue a (q\<lparr> fq_lastRun := map_option (rewriteRun p) (fq_lastRun q),
                q_items := map (rewrite_item p) (q_items q) \<rparr>) s)
           \<lparr> fs_drains := map (\<lambda>(d, dr). (d, if dr_queue dr = a
                then dr\<lparr> dr_phase := rewrite_phase p (q_items q) (dr_phase dr) \<rparr> else dr)) (fs_drains s) \<rparr>))"


section \<open>Draining (\<open>drain.ts\<close>)\<close>

definition rememberFollowupDrainCallback :: "jsstr \<Rightarrow> nat \<Rightarrow> followup_state \<Rightarrow> followup_state" where
  "rememberFollowupDrainCallback key cb s = s\<lparr> fs_callbacks := mput (fs_callbacks s) key cb \<rparr>"

definition clearFollowupDrainCallback :: "jsstr \<Rightarrow> followup_state \<Rightarrow> followup_state" where
  "clearFollowupDrainCallback key s = s\<lparr> fs_callbacks := mdel (fs_callbacks s) key \<rparr>"

definition truthy_text :: "jsstr option \<Rightarrow> bool" where
  "truthy_text v = (case v of Some s \<Rightarrow> s \<noteq> [] | None \<Rightarrow> False)"

definition thread_set :: "thread_id option \<Rightarrow> bool" where
  "thread_set t \<longleftrightarrow> t \<noteq> None \<and> t \<noteq> Some (ThreadStr [])"

definition thread_text :: "thread_id \<Rightarrow> jsstr" where
  "thread_text t = (case t of ThreadNum n \<Rightarrow> num_str n | ThreadStr s \<Rightarrow> s)"

definition find_value :: "(followup_run \<Rightarrow> 'v option) \<Rightarrow> ('v option \<Rightarrow> bool) \<Rightarrow> followup_run list \<Rightarrow> 'v option" where
  "find_value f ok items = (case find (\<lambda>i. ok (f i)) items of Some i \<Rightarrow> f i | None \<Rightarrow> None)"

text \<open>The call made for several items: the prompt, the run, and the first routing value of each kind.\<close>

definition resolveOriginRoutingMetadata :: "followup_run list \<Rightarrow> followup_run \<Rightarrow> followup_run" where
  "resolveOriginRoutingMetadata items r = r\<lparr>
     fr_channel := find_value fr_channel truthy_text items,
     fr_to := find_value fr_to truthy_text items,
     fr_accountId := find_value fr_accountId truthy_text items,
     fr_threadId := find_value fr_threadId thread_set items \<rparr>"

definition text_value :: "jsstr option \<Rightarrow> jsval" where
  "text_value v = VStr (case v of Some s \<Rightarrow> s | None \<Rightarrow> [])"

definition authorization_values :: "run_context \<Rightarrow> jsval list" where
  "authorization_values r =
    (let ov = (\<lambda>f. text_value (case ru_execOverrides r of Some e \<Rightarrow> f e | None \<Rightarrow> None));
         el = (\<lambda>f. VBool (case ru_bashElevated r of Some b \<Rightarrow> f b | None \<Rightarrow> False))
     in [text_value (ru_senderId r), text_value (ru_senderE164 r), VBool (ru_senderIsOwner r = Some True),
         ov eo_host, ov eo_security, ov eo_ask, ov eo_node,
         el be_enabled, el be_allowed,
         VStr (case ru_bashElevated r of Some b \<Rightarrow> be_defaultLevel b | None \<Rightarrow> [])])"

definition resolveFollowupAuthorizationKey :: "run_context \<Rightarrow> jsstr" where
  "resolveFollowupAuthorizationKey r = ser (VArr (authorization_values r))"

text \<open>The loop of \<open>splitCollectItemsByAuthorization\<close>: the current group and its key, and the groups done.\<close>

fun split_loop :: "followup_run list \<Rightarrow> followup_run list \<Rightarrow> jsstr \<Rightarrow> followup_run list list" where
  "split_loop [] cur key = (if cur = [] then [] else [cur])"
| "split_loop (i # items) cur key =
    (let k = resolveFollowupAuthorizationKey (fr_run i) in
     if cur = [] \<or> k = key then split_loop items (cur @ [i]) k
     else cur # split_loop items [i] k)"

definition splitCollectItemsByAuthorization :: "followup_run list \<Rightarrow> followup_run list list" where
  "splitCollectItemsByAuthorization items =
    (if length items \<le> 1 then (if items = [] then [] else [items]) else split_loop items [] [])"

definition first_label :: "run_context \<Rightarrow> jsstr option" where
  "first_label r = orElse (ru_senderName r) (orElse (ru_senderUsername r) (orElse (ru_senderId r) (ru_senderE164 r)))"

definition renderCollectItem :: "followup_run \<Rightarrow> nat \<Rightarrow> jsstr" where
  "renderCollectItem i idx =
    (let suffix = (case first_label (fr_run i) of
         Some l \<Rightarrow> if l = [] then [] else js '' (from '' @ l @ js '')'' | None \<Rightarrow> [])
     in trim (js ''---'' @ [0x0A] @ js ''Queued #'' @ nat_str (idx + 1) @ suffix @ [0x0A] @ fr_prompt i))"

definition INTERNAL_MESSAGE_CHANNEL :: jsstr where "INTERNAL_MESSAGE_CHANNEL = js ''webchat''"

definition isRoutableChannel :: "(jsstr \<Rightarrow> bool) \<Rightarrow> jsstr option \<Rightarrow> bool" where
  "isRoutableChannel registered channel = (case channel of None \<Rightarrow> False
     | Some c \<Rightarrow> c \<noteq> [] \<and> c \<noteq> INTERNAL_MESSAGE_CHANNEL \<and> registered c)"

definition resolveCrossChannelKey :: "(jsstr \<Rightarrow> bool) \<Rightarrow> followup_run \<Rightarrow> channel_key" where
  "resolveCrossChannelKey registered i =
    (if \<not> truthy_text (fr_channel i) \<and> \<not> truthy_text (fr_to i) \<and> \<not> truthy_text (fr_accountId i) \<and> \<not> thread_set (fr_threadId i)
     then Unkeyed
     else if \<not> isRoutableChannel registered (fr_channel i) \<or> \<not> truthy_text (fr_to i) then Cross
     else Keyed (join [0x7C] [the (fr_channel i), the (fr_to i), (case fr_accountId i of Some a \<Rightarrow> a | None \<Rightarrow> []),
       (if thread_set (fr_threadId i) then thread_text (the (fr_threadId i)) else [])]))"

definition has_work :: "followup_queue \<Rightarrow> bool" where
  "has_work q \<longleftrightarrow> q_items q \<noteq> [] \<or> 0 < qs_droppedCount q"

definition goto_phase :: "nat \<Rightarrow> drain_phase \<Rightarrow> drain \<Rightarrow> followup_state \<Rightarrow> followup_state" where
  "goto_phase d ph dr s = s\<lparr> fs_drains := mput (fs_drains s) d (dr\<lparr> dr_phase := ph \<rparr>) \<rparr>"

text \<open>The \<open>finally\<close> block when nothing is left: the registry entry of the key and its callback go, whatever queue the key
  leads to by now.\<close>

definition forget_key :: "jsstr \<Rightarrow> followup_state \<Rightarrow> followup_state" where
  "forget_key key s = clearFollowupDrainCallback key (s\<lparr> fs_queues := mdel (fs_queues s) key \<rparr>)"

text \<open>\<open>beginQueueDrain\<close> and \<open>scheduleFollowupDrain\<close>, up to the first \<open>await\<close>: the debounce when there is work, and
  otherwise the \<open>finally\<close> block at once.\<close>

definition scheduleFollowupDrain :: "jsstr \<Rightarrow> nat \<Rightarrow> followup_state \<Rightarrow> followup_state" where
  "scheduleFollowupDrain key runFollowup s = (case mget (fs_queues s) key of
     None \<Rightarrow> s
   | Some a \<Rightarrow> (case heap_queue s a of
       None \<Rightarrow> s
     | Some q \<Rightarrow>
        if fq_draining q then s
        else (let cb = (case mget (fs_callbacks s) key of Some c \<Rightarrow> c | None \<Rightarrow> runFollowup);
                  s1 = rememberFollowupDrainCallback key cb s;
                  d = fs_next s
              in if has_work q
                 then (set_queue a (q\<lparr> fq_draining := True \<rparr>) s1)
                    \<lparr> fs_drains := mput (fs_drains s) d \<lparr> dr_queue = a, dr_key = key, dr_callback = cb,
                        dr_forceIndividualCollect = False, dr_phase = Debouncing (num_max0 (fq_debounceMs q)) \<rparr>,
                      fs_next := d + 1 \<rparr>
                 else forget_key key s1)))"

definition kickFollowupDrainIfIdle :: "jsstr \<Rightarrow> followup_state \<Rightarrow> followup_state" where
  "kickFollowupDrainIfIdle key s = (case mget (fs_callbacks s) key of None \<Rightarrow> s | Some cb \<Rightarrow> scheduleFollowupDrain key cb s)"

text \<open>The \<open>finally\<close> block of drain \<open>d\<close>.\<close>

definition finish_drain :: "nat \<Rightarrow> drain \<Rightarrow> followup_queue \<Rightarrow> followup_state \<Rightarrow> followup_state" where
  "finish_drain d dr q s =
    (let s1 = (set_queue (dr_queue dr) (q\<lparr> fq_draining := False \<rparr>) s)\<lparr> fs_drains := mdel (fs_drains s) d \<rparr> in
     if has_work q then scheduleFollowupDrain (dr_key dr) (dr_callback dr) s1 else forget_key (dr_key dr) s1)"

text \<open>The head of the loop: its condition, and the wait for the debounce.\<close>

definition loop_head :: "nat \<Rightarrow> drain \<Rightarrow> followup_queue \<Rightarrow> followup_state \<Rightarrow> followup_state" where
  "loop_head d dr q s =
    (if has_work q then goto_phase d (Debouncing (num_max0 (fq_debounceMs q))) dr (set_queue (dr_queue dr) q s)
     else finish_drain d dr q s)"

definition bare_run :: "jsstr \<Rightarrow> run_context \<Rightarrow> int \<Rightarrow> followup_run" where
  "bare_run prompt r now = \<lparr> fr_prompt = prompt, fr_messageId = None, fr_summaryLine = None, fr_enqueuedAt = now,
     fr_channel = None, fr_to = None, fr_accountId = None, fr_threadId = None, fr_run = r \<rparr>"

definition collect_title :: jsstr where
  "collect_title = js ''[Queued messages while agent was busy]''"

text \<open>The body of the loop over the authorization groups, up to its \<open>await\<close>.\<close>

definition call_group :: "nat \<Rightarrow> drain \<Rightarrow> int \<Rightarrow> followup_run list \<Rightarrow> followup_run list list \<Rightarrow> jsstr option
    \<Rightarrow> followup_state \<Rightarrow> followup_state \<times> followup_out list" where
  "call_group d dr now g rest pending s =
    (goto_phase d (RunningGroup g rest pending) dr s,
     [RunFollowup d (dr_callback dr)
        (resolveOriginRoutingMetadata g (bare_run (buildCollectPrompt collect_title g pending renderCollectItem) (fr_run (last g)) now)) g])"

definition summary_of :: "followup_queue \<Rightarrow> jsstr option" where
  "summary_of q = previewQueueSummaryPrompt (js ''message'') None q"

text \<open>A call with the summary alone, or the end of the drain.\<close>

definition summary_only :: "nat \<Rightarrow> drain \<Rightarrow> followup_queue \<Rightarrow> int \<Rightarrow> followup_state \<Rightarrow> followup_state \<times> followup_out list" where
  "summary_only d dr q now s = (case (summary_of q, fq_lastRun q) of
     (Some p, Some r) \<Rightarrow> (goto_phase d RunningSummary dr s, [RunFollowup d (dr_callback dr) (bare_run p r now) []])
   | _ \<Rightarrow> (finish_drain d dr q s, []))"

definition collect_body :: "(jsstr \<Rightarrow> bool) \<Rightarrow> nat \<Rightarrow> drain \<Rightarrow> followup_queue \<Rightarrow> int \<Rightarrow> followup_state
    \<Rightarrow> followup_state \<times> followup_out list" where
  "collect_body registered d dr q now s =
    (let cross = hasCrossChannelItems (q_items q) (resolveCrossChannelKey registered) in
     if dr_forceIndividualCollect dr \<or> cross
     then (let dr' = dr\<lparr> dr_forceIndividualCollect := dr_forceIndividualCollect dr \<or> cross \<rparr> in
       case q_items q of
         [] \<Rightarrow> summary_only d dr' q now s
       | i # _ \<Rightarrow> (goto_phase d (RunningItem i) dr' s, [RunFollowup d (dr_callback dr) i [i]]))
     else (case splitCollectItemsByAuthorization (q_items q) of
         [] \<Rightarrow> summary_only d dr q now s
       | g # rest \<Rightarrow> call_group d dr now g rest (summary_of q) s))"

definition plain_body :: "nat \<Rightarrow> drain \<Rightarrow> followup_queue \<Rightarrow> int \<Rightarrow> followup_state \<Rightarrow> followup_state \<times> followup_out list" where
  "plain_body d dr q now s = (case summary_of q of
     Some p \<Rightarrow> (case (fq_lastRun q, q_items q) of
         (Some r, i # _) \<Rightarrow> (goto_phase d RunningSummaryItem dr s,
            [RunFollowup d (dr_callback dr) ((bare_run p r now)\<lparr> fr_channel := fr_channel i, fr_to := fr_to i,
                fr_accountId := fr_accountId i, fr_threadId := fr_threadId i \<rparr>) []])
       | _ \<Rightarrow> (finish_drain d dr q s, []))
   | None \<Rightarrow> (case q_items q of
         i # _ \<Rightarrow> (goto_phase d (RunningItem i) dr s, [RunFollowup d (dr_callback dr) i [i]])
       | [] \<Rightarrow> (finish_drain d dr q s, [])))"

text \<open>The drain resumes when the queue has been quiet for the debounce (\<open>waitForQueueDebounce\<close>).\<close>

definition debounce_over :: "jsnum \<Rightarrow> int \<Rightarrow> followup_queue \<Rightarrow> bool" where
  "debounce_over debounceMs now q \<longleftrightarrow> num_le debounceMs (Fin 0) \<or> num_le debounceMs (Fin (of_int (now - fq_lastEnqueuedAt q)))"

definition debounced :: "(jsstr \<Rightarrow> bool) \<Rightarrow> int \<Rightarrow> nat \<Rightarrow> followup_state \<Rightarrow> followup_state \<times> followup_out list" where
  "debounced registered now d s = (case mget (fs_drains s) d of
     None \<Rightarrow> (s, [])
   | Some dr \<Rightarrow> (case (dr_phase dr, heap_queue s (dr_queue dr)) of
       (Debouncing ms, Some q) \<Rightarrow>
         if \<not> debounce_over ms now q then (s, [])
         else if fq_mode q = Collect then collect_body registered d dr q now s
         else plain_body d dr q now s
     | _ \<Rightarrow> (s, [])))"

text \<open>The callback has returned: what is removed from the queue is its first items, whatever they are by now.\<close>

definition run_succeeded :: "int \<Rightarrow> nat \<Rightarrow> drain \<Rightarrow> followup_queue \<Rightarrow> followup_state \<Rightarrow> followup_state \<times> followup_out list" where
  "run_succeeded now d dr q s = (case dr_phase dr of
     Debouncing _ \<Rightarrow> (s, [])
   | RunningItem i \<Rightarrow> (loop_head d dr (q\<lparr> q_items := tl (q_items q) \<rparr>) s, [FollowupDone (dr_key dr) [i]])
   | RunningSummary \<Rightarrow> (loop_head d dr (clearQueueSummaryState q) s, [])
   | RunningSummaryItem \<Rightarrow> (loop_head d dr (clearQueueSummaryState (q\<lparr> q_items := tl (q_items q) \<rparr>)) s, [])
   | RunningGroup g rest pending \<Rightarrow>
      (let q1 = q\<lparr> q_items := drop (length g) (q_items q) \<rparr>;
           q2 = (if pending = None then q1 else clearQueueSummaryState q1)
       in case rest of
            [] \<Rightarrow> (loop_head d dr q2 s, [FollowupDone (dr_key dr) g])
          | g' # rest' \<Rightarrow> (let r = call_group d dr now g' rest' None (set_queue (dr_queue dr) q2 s)
              in (fst r, FollowupDone (dr_key dr) g # snd r))))"

definition run_settled :: "int \<Rightarrow> nat \<Rightarrow> bool \<Rightarrow> followup_state \<Rightarrow> followup_state \<times> followup_out list" where
  "run_settled now d success s = (case mget (fs_drains s) d of
     None \<Rightarrow> (s, [])
   | Some dr \<Rightarrow> (case heap_queue s (dr_queue dr) of
       None \<Rightarrow> (s, [])
     | Some q \<Rightarrow>
        if success then run_succeeded now d dr q s
        else (case dr_phase dr of Debouncing _ \<Rightarrow> (s, [])
              | _ \<Rightarrow> (finish_drain d dr (q\<lparr> fq_lastEnqueuedAt := now \<rparr>) s, []))))"

section \<open>Enqueueing (\<open>enqueue.ts\<close>)\<close>

definition buildRecentMessageIdKey :: "followup_run \<Rightarrow> jsstr \<Rightarrow> jsstr option" where
  "buildRecentMessageIdKey r queueKey = (case normalizeOptionalString (fr_messageId r) of
     None \<Rightarrow> None
   | Some messageId \<Rightarrow> Some (ser (VArr [VStr (js ''queue''), VStr queueKey, text_value (fr_channel r), text_value (fr_to r),
       text_value (fr_accountId r), VStr (case fr_threadId r of None \<Rightarrow> [] | Some t \<Rightarrow> thread_text t), VStr messageId])))"

definition hasSameRouting :: "followup_run \<Rightarrow> followup_run \<Rightarrow> bool" where
  "hasSameRouting r i \<longleftrightarrow> fr_channel i = fr_channel r \<and> fr_to i = fr_to r \<and> fr_accountId i = fr_accountId r
     \<and> fr_threadId i = fr_threadId r"

definition isRunAlreadyQueued :: "followup_run \<Rightarrow> followup_run list \<Rightarrow> bool \<Rightarrow> bool" where
  "isRunAlreadyQueued r items allowPromptFallback = (case normalizeOptionalString (fr_messageId r) of
     Some messageId \<Rightarrow> list_ex (\<lambda>i. normalizeOptionalString (fr_messageId i) = Some messageId \<and> hasSameRouting r i) items
   | None \<Rightarrow> allowPromptFallback \<and> list_ex (\<lambda>i. fr_prompt i = fr_prompt r \<and> hasSameRouting r i) items)"

definition summary_text :: "followup_run \<Rightarrow> jsstr" where
  "summary_text i = (case normalizeOptionalString (fr_summaryLine i) of Some l \<Rightarrow> l | None \<Rightarrow> trim (fr_prompt i))"

definition enqueueFollowupRun :: "int \<Rightarrow> jsstr \<Rightarrow> followup_run \<Rightarrow> queue_mode queue_settings \<Rightarrow> dedupe_mode \<Rightarrow> nat option
    \<Rightarrow> bool \<Rightarrow> followup_state \<Rightarrow> bool \<times> followup_state" where
  "enqueueFollowupRun now key r settings dedupeMode runFollowup restartIfIdle s0 =
    (let (a, s) = getFollowupQueue key settings s0;
         q = (case heap_queue s a of Some q \<Rightarrow> q | None \<Rightarrow> new_followup_queue settings);
         recentKey = (if dedupeMode = NoDedupe then None else buildRecentMessageIdKey r key);
         peek = (case recentKey of None \<Rightarrow> (False, fs_recent s) | Some k \<Rightarrow> dc_peek k now (fs_recent s));
         s1 = s\<lparr> fs_recent := snd peek \<rparr>;
         dedupe = (if dedupeMode = NoDedupe then None else Some (\<lambda>i items. isRunAlreadyQueued i items (dedupeMode = ByPrompt)))
     in if fst peek then (False, s1)
        else if shouldSkipQueueItem dedupe r (q_items q) then (False, s1)
        else (let q1 = q\<lparr> fq_lastEnqueuedAt := now, fq_lastRun := Some (fr_run r) \<rparr>;
                  (ok, q2) = applyQueueDropPolicy summary_text None q1
              in if \<not> ok then (False, set_queue a q2 s1)
                 else (let s2 = set_queue a (q2\<lparr> q_items := q_items q2 @ [r] \<rparr>) s1;
                           s3 = (case recentKey of None \<Rightarrow> s2 | Some k \<Rightarrow> s2\<lparr> fs_recent := snd (dc_check k now (fs_recent s2)) \<rparr>);
                           s4 = (case runFollowup of None \<Rightarrow> s3 | Some cb \<Rightarrow> rememberFollowupDrainCallback key cb s3)
                       in (True, if restartIfIdle \<and> \<not> fq_draining q2 then kickFollowupDrainIfIdle key s4 else s4))))"

definition getFollowupQueueDepth :: "jsstr \<Rightarrow> followup_state \<Rightarrow> nat" where
  "getFollowupQueueDepth key s = (case getExistingFollowupQueue key s of None \<Rightarrow> 0
     | Some a \<Rightarrow> (case heap_queue s a of None \<Rightarrow> 0 | Some q \<Rightarrow> length (q_items q)))"

section \<open>Clearing the queues of a session (\<open>cleanup.ts\<close>)\<close>

definition resolveSessionLane :: "jsstr \<Rightarrow> jsstr" where
  "resolveSessionLane key = (let cleaned = (if trim key = [] then js ''main'' else trim key) in
     if starts_with cleaned (js ''session:'') then cleaned else js ''session:'' @ cleaned)"

record clear_result =
  cl_followupCleared :: nat
  cl_laneCleared :: nat
  cl_keys :: "jsstr list"

text \<open>The loop over the keys, with the command queue whose lanes it clears; \<open>cl_keys\<close> is also the set of keys seen.\<close>

fun clear_loop :: "jsstr option list \<Rightarrow> clear_result \<Rightarrow> followup_state \<times> command_queue \<Rightarrow> clear_result \<times> followup_state \<times> command_queue" where
  "clear_loop [] r st = (r, st)"
| "clear_loop (k # ks) r (s, c) = (case normalizeOptionalString k of
     None \<Rightarrow> clear_loop ks r (s, c)
   | Some cleaned \<Rightarrow>
      if cleaned \<in> set (cl_keys r) then clear_loop ks r (s, c)
      else (let (n, s1) = clearFollowupQueue cleaned s;
                s2 = clearFollowupDrainCallback cleaned s1;
                ((c1, _), m) = clearCommandLane (resolveSessionLane cleaned) c
            in clear_loop ks \<lparr> cl_followupCleared = cl_followupCleared r + n, cl_laneCleared = cl_laneCleared r + m,
                 cl_keys = cl_keys r @ [cleaned] \<rparr> (s2, c1)))"

definition clearSessionQueues :: "jsstr option list \<Rightarrow> followup_state \<times> command_queue \<Rightarrow> clear_result \<times> followup_state \<times> command_queue" where
  "clearSessionQueues ks = clear_loop ks \<lparr> cl_followupCleared = 0, cl_laneCleared = 0, cl_keys = [] \<rparr>"

section \<open>The machine\<close>

datatype followup_op =
    EnqueueRun jsstr followup_run "queue_mode queue_settings" dedupe_mode "nat option" bool
  | Debounced nat
  | RunSettled nat bool
  | Schedule jsstr nat
  | ClearQueue jsstr
  | Refresh refresh_params

fun followup_step :: "(jsstr \<Rightarrow> bool) \<Rightarrow> followup_state \<Rightarrow> int \<times> followup_op \<Rightarrow> followup_state \<times> followup_out list" where
  "followup_step registered s (now, EnqueueRun key r settings mode cb restart) =
     (snd (enqueueFollowupRun now key r settings mode cb restart s), [])"
| "followup_step registered s (now, Debounced d) = debounced registered now d s"
| "followup_step registered s (now, RunSettled d success) = run_settled now d success s"
| "followup_step registered s (now, Schedule key cb) = (scheduleFollowupDrain key cb s, [])"
| "followup_step registered s (now, ClearQueue key) = (clearFollowupDrainCallback key (snd (clearFollowupQueue key s)), [])"
| "followup_step registered s (now, Refresh p) = (refreshQueuedFollowupSession p s, [])"


section \<open>Grouping by authorization\<close>

definition auth_key :: "followup_run \<Rightarrow> jsstr" where
  "auth_key i = resolveFollowupAuthorizationKey (fr_run i)"

definition uniform :: "followup_run list \<Rightarrow> bool" where
  "uniform g \<longleftrightarrow> g \<noteq> [] \<and> (\<exists>k. \<forall>i \<in> set g. auth_key i = k)"

lemma uniform_last: "uniform g \<Longrightarrow> list_all (\<lambda>i. auth_key i = auth_key (last g)) g"
proof -
  assume "uniform g"
  then obtain k where "g \<noteq> []" "\<forall>i \<in> set g. auth_key i = k" by (auto simp: uniform_def)
  moreover from this have "auth_key (last g) = k" by simp
  ultimately show ?thesis by (simp add: list_all_iff)
qed

lemma split_loop_join: "cur = [] \<or> auth_key i = key \<Longrightarrow> split_loop (i # items) cur key = split_loop items (cur @ [i]) (auth_key i)"
  by (auto simp: auth_key_def Let_def)

lemma split_loop_new: "cur \<noteq> [] \<Longrightarrow> auth_key i \<noteq> key \<Longrightarrow> split_loop (i # items) cur key = cur # split_loop items [i] (auth_key i)"
  by (auto simp: auth_key_def Let_def)

lemma split_loop_spec:
  "cur = [] \<or> (\<forall>i \<in> set cur. auth_key i = key) \<Longrightarrow>
   concat (split_loop items cur key) = cur @ items
   \<and> (\<forall>g \<in> set (split_loop items cur key). uniform g)
   \<and> successively (\<lambda>g h. auth_key (last g) \<noteq> auth_key (hd h)) (split_loop items cur key)
   \<and> (cur \<noteq> [] \<longrightarrow> (\<exists>g gs. split_loop items cur key = g # gs \<and> hd g = hd cur))"
proof (induction items arbitrary: cur key)
  case Nil
  then show ?case by (auto simp: uniform_def)
next
  case (Cons i items)
  show ?case
  proof (cases "cur = [] \<or> auth_key i = key")
    case True
    have "\<forall>j \<in> set (cur @ [i]). auth_key j = auth_key i" using True Cons.prems by auto
    then show ?thesis
      using Cons.IH [of "cur @ [i]" "auth_key i"] unfolding split_loop_join [OF True] by (auto simp: hd_append)
  next
    case False
    then have cur: "cur \<noteq> []" "auth_key i \<noteq> key" "\<forall>i \<in> set cur. auth_key i = key" using Cons.prems by auto
    obtain g gs where g: "split_loop items [i] (auth_key i) = g # gs" "hd g = i"
      using Cons.IH [of "[i]" "auth_key i"] by auto
    have "uniform cur" "auth_key (last cur) = key" using cur by (auto simp: uniform_def)
    then show ?thesis
      using Cons.IH [of "[i]" "auth_key i"] cur g unfolding split_loop_new [OF cur(1,2)] by simp
  qed
qed

lemma split_spec:
  "concat (splitCollectItemsByAuthorization items) = items
   \<and> (\<forall>g \<in> set (splitCollectItemsByAuthorization items). uniform g)
   \<and> successively (\<lambda>g h. auth_key (last g) \<noteq> auth_key (hd h)) (splitCollectItemsByAuthorization items)"
proof (cases "length items \<le> 1")
  case True
  then show ?thesis
    by (cases items) (auto simp: splitCollectItemsByAuthorization_def uniform_def)
next
  case False
  then show ?thesis using split_loop_spec [of "[]" "[]" items] by (simp add: splitCollectItemsByAuthorization_def)
qed


lemma rewriteRun_fields [simp]:
  "ru_senderId (rewriteRun p r) = ru_senderId r" "ru_senderE164 (rewriteRun p r) = ru_senderE164 r"
  "ru_senderIsOwner (rewriteRun p r) = ru_senderIsOwner r" "ru_execOverrides (rewriteRun p r) = ru_execOverrides r"
  "ru_bashElevated (rewriteRun p r) = ru_bashElevated r"
  by (simp_all add: rewriteRun_def rewrite_selection_def rewrite_session_def Let_def)

lemma rewrite_keeps_authorization [simp]: "auth_key (rewrite_item p i) = auth_key i"
  by (simp add: auth_key_def rewrite_item_def resolveFollowupAuthorizationKey_def authorization_values_def)

lemma uniform_map: "(\<And>i. auth_key (f i) = auth_key i) \<Longrightarrow> uniform g \<Longrightarrow> uniform (map f g)"
  by (auto simp: uniform_def last_map)

text \<open>The groups still to be handed over share one authorization key each.\<close>

fun phase_uniform :: "drain_phase \<Rightarrow> bool" where
  "phase_uniform (RunningGroup g rest pending) \<longleftrightarrow> uniform g \<and> (\<forall>h \<in> set rest. uniform h)"
| "phase_uniform _ \<longleftrightarrow> True"

definition drains_uniform :: "followup_state \<Rightarrow> bool" where
  "drains_uniform s \<longleftrightarrow> (\<forall>(d, dr) \<in> set (fs_drains s). phase_uniform (dr_phase dr))"

text \<open>What a call carries and under whose authorization, \<open>s\<close> being the state the step starts from: one queued message as it is;
  or several, collected, whose authorization keys are all the call's, with the pending summary or without; or no queued message but the
  summary of the dropped ones, under the run that was queued last.\<close>

fun authorized :: "followup_state \<Rightarrow> followup_out \<Rightarrow> bool" where
  "authorized s (RunFollowup d cb call src) \<longleftrightarrow>
     (case mget (fs_drains s) d of None \<Rightarrow> False | Some dr \<Rightarrow>
       (case heap_queue s (dr_queue dr) of None \<Rightarrow> False | Some q \<Rightarrow>
          src = [call]
        \<or> src \<noteq> [] \<and> list_all (\<lambda>i. auth_key i = auth_key call) src \<and> fr_run call = fr_run (last src)
          \<and> (\<exists>summary \<in> {None, summary_of q}. fr_prompt call = buildCollectPrompt collect_title src summary renderCollectItem)
        \<or> src = [] \<and> fq_lastRun q = Some (fr_run call) \<and> summary_of q = Some (fr_prompt call)))"
| "authorized s (FollowupDone key src) \<longleftrightarrow> True"

lemma set_mput: "set (mput m k v) \<subseteq> insert (k, v) (set m)"
  by (induction m) (auto simp: mput_def)

lemma drains_uniform_put:
  "drains_uniform s \<Longrightarrow> phase_uniform (dr_phase dr) \<Longrightarrow> drains_uniform (s\<lparr> fs_drains := mput (fs_drains s) d dr \<rparr>)"
  using set_mput [of "fs_drains s" d dr] by (auto simp: drains_uniform_def)


lemma drains_uniform_fields [simp]:
  "drains_uniform (s\<lparr> fs_heap := h \<rparr>) = drains_uniform s" "drains_uniform (s\<lparr> fs_queues := qs \<rparr>) = drains_uniform s"
  "drains_uniform (s\<lparr> fs_callbacks := c \<rparr>) = drains_uniform s" "drains_uniform (s\<lparr> fs_recent := r \<rparr>) = drains_uniform s"
  "drains_uniform (s\<lparr> fs_next := n \<rparr>) = drains_uniform s" "drains_uniform (set_queue a q s) = drains_uniform s"
  "drains_uniform (rememberFollowupDrainCallback key cb s) = drains_uniform s"
  "drains_uniform (clearFollowupDrainCallback key s) = drains_uniform s"
  "drains_uniform (forget_key key s) = drains_uniform s"
  by (simp_all add: drains_uniform_def set_queue_def rememberFollowupDrainCallback_def clearFollowupDrainCallback_def forget_key_def)

lemma drains_uniform_del: "drains_uniform s \<Longrightarrow> drains_uniform (s\<lparr> fs_drains := mdel (fs_drains s) d \<rparr>)"
  by (auto simp: drains_uniform_def mdel_def)

lemma uniform_goto: "drains_uniform s \<Longrightarrow> phase_uniform ph \<Longrightarrow> drains_uniform (goto_phase d ph dr s)"
  unfolding goto_phase_def by (rule drains_uniform_put) simp_all

lemma schedule_drains:
  "fs_drains (scheduleFollowupDrain key cb s) = fs_drains s
   \<or> (\<exists>dr ms. fs_drains (scheduleFollowupDrain key cb s) = mput (fs_drains s) (fs_next s) dr \<and> dr_phase dr = Debouncing ms)"
  by (auto simp: scheduleFollowupDrain_def Let_def set_queue_def rememberFollowupDrainCallback_def
      clearFollowupDrainCallback_def forget_key_def split: option.split)

lemma uniform_schedule:
  assumes "drains_uniform s" shows "drains_uniform (scheduleFollowupDrain key cb s)"
  using schedule_drains [of key cb s]
proof
  assume "fs_drains (scheduleFollowupDrain key cb s) = fs_drains s"
  then show ?thesis using assms by (simp add: drains_uniform_def)
next
  assume "\<exists>dr ms. fs_drains (scheduleFollowupDrain key cb s) = mput (fs_drains s) (fs_next s) dr \<and> dr_phase dr = Debouncing ms"
  then obtain dr ms where dr: "fs_drains (scheduleFollowupDrain key cb s) = mput (fs_drains s) (fs_next s) dr"
    "dr_phase dr = Debouncing ms" by blast
  have "drains_uniform (s\<lparr> fs_drains := mput (fs_drains s) (fs_next s) dr \<rparr>)"
    by (rule drains_uniform_put [OF assms]) (simp add: dr(2))
  then show ?thesis by (simp add: drains_uniform_def dr(1))
qed

lemma uniform_finish:
  assumes "drains_uniform s" shows "drains_uniform (finish_drain d dr q s)"
proof -
  have "drains_uniform (s1\<lparr> fs_drains := mdel (fs_drains s) d \<rparr>)" for s1 :: followup_state
    using assms by (auto simp: drains_uniform_def mdel_def)
  then show ?thesis by (simp add: finish_drain_def Let_def uniform_schedule)
qed

lemma uniform_loop_head: "drains_uniform s \<Longrightarrow> drains_uniform (loop_head d dr q s)"
  by (simp add: loop_head_def uniform_finish uniform_goto)

lemma auth_key_metadata [simp]: "auth_key (resolveOriginRoutingMetadata g r) = auth_key r"
  by (simp add: auth_key_def resolveOriginRoutingMetadata_def)

lemma auth_key_bare [simp]: "auth_key (bare_run p (fr_run i) now) = auth_key i"
  by (simp add: auth_key_def bare_run_def)

lemma call_fields [simp]:
  "fr_run (bare_run p r now) = r" "fr_prompt (bare_run p r now) = p"
  "fr_run (resolveOriginRoutingMetadata g i) = fr_run i" "fr_prompt (resolveOriginRoutingMetadata g i) = fr_prompt i"
  by (simp_all add: bare_run_def resolveOriginRoutingMetadata_def)

lemma uniform_call_group:
  assumes "drains_uniform s" and "uniform g" and "\<forall>h \<in> set rest. uniform h"
  shows "drains_uniform (fst (call_group d dr now g rest pending s))"
    and "mget (fs_drains s0) d = Some dr0 \<Longrightarrow> heap_queue s0 (dr_queue dr0) = Some q \<Longrightarrow> pending \<in> {None, summary_of q} \<Longrightarrow>
      list_all (authorized s0) (snd (call_group d dr now g rest pending s))"
proof -
  show "drains_uniform (fst (call_group d dr now g rest pending s))"
    using assms uniform_goto [OF assms(1), of "RunningGroup g rest pending"] by (simp add: call_group_def)
  have "g \<noteq> []" using assms(2) by (simp add: uniform_def)
  then show "list_all (authorized s0) (snd (call_group d dr now g rest pending s))"
    if "mget (fs_drains s0) d = Some dr0" "heap_queue s0 (dr_queue dr0) = Some q" "pending \<in> {None, summary_of q}"
    using that uniform_last [OF assms(2)] by (auto simp: call_group_def)
qed

lemma uniform_summary_only:
  assumes "drains_uniform s" "mget (fs_drains s) d = Some dr0" "heap_queue s (dr_queue dr0) = Some q"
  shows "drains_uniform (fst (summary_only d dr q now s)) \<and> list_all (authorized s) (snd (summary_only d dr q now s))"
  using assms by (auto simp: summary_only_def uniform_goto uniform_finish split: option.splits)

lemma uniform_body:
  assumes "drains_uniform s" "mget (fs_drains s) d = Some dr" "heap_queue s (dr_queue dr) = Some q"
  shows "drains_uniform (fst (collect_body registered d dr q now s)) \<and> list_all (authorized s) (snd (collect_body registered d dr q now s))"
    and "drains_uniform (fst (plain_body d dr q now s)) \<and> list_all (authorized s) (snd (plain_body d dr q now s))"
proof -
  have g: "uniform g \<and> (\<forall>h \<in> set rest. uniform h)" if "splitCollectItemsByAuthorization (q_items q) = g # rest" for g rest
    using split_spec [of "q_items q"] that by auto
  have grp: "drains_uniform (fst (call_group d dr now g rest (summary_of q) s))
      \<and> list_all (authorized s) (snd (call_group d dr now g rest (summary_of q) s))"
    if "splitCollectItemsByAuthorization (q_items q) = g # rest" for g rest
    using uniform_call_group [OF assms(1), of g rest] assms(2,3) g [OF that] by blast
  show "drains_uniform (fst (collect_body registered d dr q now s)) \<and> list_all (authorized s) (snd (collect_body registered d dr q now s))"
    using assms grp
    by (auto simp: collect_body_def Let_def uniform_summary_only uniform_goto split: list.splits)
  show "drains_uniform (fst (plain_body d dr q now s)) \<and> list_all (authorized s) (snd (plain_body d dr q now s))"
    using assms by (auto simp: plain_body_def uniform_goto uniform_finish split: option.splits list.splits)
qed

lemma mget_uniform: "drains_uniform s \<Longrightarrow> mget (fs_drains s) d = Some dr \<Longrightarrow> phase_uniform (dr_phase dr)"
  using mget_in_set [of "fs_drains s" d dr] by (auto simp: drains_uniform_def)

lemma uniform_settled:
  assumes "drains_uniform s"
  shows "drains_uniform (fst (run_settled now d success s)) \<and> list_all (authorized s) (snd (run_settled now d success s))"
proof (cases "mget (fs_drains s) d")
  case (Some dr)
  have ph: "phase_uniform (dr_phase dr)" by (rule mget_uniform [OF assms Some])
  have "drains_uniform (fst (run_succeeded now d dr q s)) \<and> list_all (authorized s) (snd (run_succeeded now d dr q s))"
    if q: "heap_queue s (dr_queue dr) = Some q" for q
  proof (cases "dr_phase dr")
    case (RunningGroup g rest pending)
    show ?thesis
    proof (cases rest)
      case (Cons h hs)
      have "uniform h" "\<forall>h \<in> set hs. uniform h" using ph RunningGroup Cons by auto
      then show ?thesis
        using RunningGroup Cons Some q uniform_call_group [of "set_queue (dr_queue dr) _ s" h hs] assms
        by (simp add: run_succeeded_def Let_def)
    qed (use RunningGroup assms in \<open>simp add: run_succeeded_def Let_def uniform_loop_head\<close>)
  qed (use assms in \<open>simp_all add: run_succeeded_def uniform_loop_head\<close>)
  then show ?thesis
    using assms Some by (auto simp: run_settled_def uniform_finish split: option.splits drain_phase.splits)
qed (use assms in \<open>simp add: run_settled_def\<close>)

lemma uniform_get: "drains_uniform (snd (getFollowupQueue key settings s)) = drains_uniform s"
  by (simp add: getFollowupQueue_def split: option.split)

lemma uniform_enqueue:
  assumes "drains_uniform s"
  shows "drains_uniform (snd (enqueueFollowupRun now key r settings mode cb restart s))"
proof -
  obtain a s1 where g: "getFollowupQueue key settings s = (a, s1)" by (cases "getFollowupQueue key settings s")
  then have "drains_uniform s1" using uniform_get [of key settings s] assms by simp
  then show ?thesis
    by (simp add: enqueueFollowupRun_def g Let_def case_prod_beta kickFollowupDrainIfIdle_def uniform_schedule split: option.split)
qed

lemma uniform_rewrite: "phase_uniform ph \<Longrightarrow> phase_uniform (rewrite_phase p items ph)"
  by (cases ph) (auto simp: rewrite_phase_def Let_def intro!: uniform_map)

lemma uniform_refresh:
  assumes "drains_uniform s" shows "drains_uniform (refreshQueuedFollowupSession p s)"
proof -
  have "drains_uniform (s1\<lparr> fs_drains := map (\<lambda>(d, dr). (d, if dr_queue dr = a
      then dr\<lparr> dr_phase := rewrite_phase p items (dr_phase dr) \<rparr> else dr)) (fs_drains s) \<rparr>)" for s1 :: followup_state and a items
    using assms uniform_rewrite by (auto simp: drains_uniform_def)
  then show ?thesis using assms by (simp add: refreshQueuedFollowupSession_def split: option.split)
qed

lemma uniform_clear: "drains_uniform (snd (clearFollowupQueue key s)) = drains_uniform s"
  by (simp add: clearFollowupQueue_def Let_def split: option.split)

lemma uniform_debounced:
  assumes "drains_uniform s"
  shows "drains_uniform (fst (debounced registered now d s)) \<and> list_all (authorized s) (snd (debounced registered now d s))"
  using uniform_body [OF assms] assms by (simp add: debounced_def split: option.split drain_phase.split)

lemma uniform_step:
  assumes "drains_uniform s"
  shows "drains_uniform (fst (followup_step registered s a)) \<and> list_all (authorized s) (snd (followup_step registered s a))"
proof -
  obtain now b where "a = (now, b)" by (cases a)
  then show ?thesis
    using assms uniform_debounced [OF assms] uniform_settled [OF assms]
    by (cases b) (simp_all add: uniform_enqueue uniform_schedule uniform_refresh uniform_clear)
qed

lemma uniform_run: "drains_uniform s \<Longrightarrow> drains_uniform (fst (run_ops (followup_step registered) s as))"
proof (induction as arbitrary: s)
  case (Cons a as)
  then show ?case using uniform_step [OF Cons.prems, of registered a] Cons.IH
    by (simp add: case_prod_beta Let_def)
qed simp

section \<open>Runs in which no queue overflows\<close>

text \<open>The queue an operation finds for a key, once its settings are applied.\<close>

definition target_queue :: "jsstr \<Rightarrow> queue_mode queue_settings \<Rightarrow> followup_state \<Rightarrow> followup_queue" where
  "target_queue key settings s = (let (a, s1) = getFollowupQueue key settings s in
     case heap_queue s1 a of Some q \<Rightarrow> q | None \<Rightarrow> new_followup_queue settings)"

fun calm :: "followup_state \<Rightarrow> int \<times> followup_op \<Rightarrow> bool" where
  "calm s (now, EnqueueRun key r settings mode cb restart) =
     (let q = target_queue key settings s in has_room (q_cap q) (length (q_items q)))"
| "calm s (now, ClearQueue key) = False"
| "calm s (now, Refresh p) = False"
| "calm s (now, _) = True"

definition calm_step :: "(jsstr \<Rightarrow> bool) \<Rightarrow> followup_state \<Rightarrow> int \<times> followup_op \<Rightarrow> followup_state \<times> followup_out list" where
  "calm_step registered s a = (if calm s a then followup_step registered s a else (s, []))"

definition waiting :: "followup_state \<Rightarrow> jsstr \<Rightarrow> followup_run list" where
  "waiting s key = (case mget (fs_queues s) key of None \<Rightarrow> [] | Some a \<Rightarrow>
     (case heap_queue s a of None \<Rightarrow> [] | Some q \<Rightarrow> q_items q))"

fun done_items :: "followup_out list \<Rightarrow> jsstr \<Rightarrow> followup_run list" where
  "done_items [] k = []"
| "done_items (FollowupDone key src # os) k = (if key = k then src @ done_items os k else done_items os k)"
| "done_items (RunFollowup _ _ _ _ # os) k = done_items os k"

fun accepted :: "followup_state \<Rightarrow> int \<times> followup_op \<Rightarrow> jsstr \<Rightarrow> followup_run list" where
  "accepted s (now, EnqueueRun key r settings mode cb restart) k =
     (if key = k \<and> calm s (now, EnqueueRun key r settings mode cb restart)
         \<and> fst (enqueueFollowupRun now key r settings mode cb restart s) then [r] else [])"
| "accepted s (now, _) k = []"

text \<open>What a drain is waiting for is what stands at the front of its queue.\<close>

fun phase_front :: "drain_phase \<Rightarrow> followup_run list \<Rightarrow> bool" where
  "phase_front (Debouncing ms) items \<longleftrightarrow> True"
| "phase_front (RunningItem i) items \<longleftrightarrow> (\<exists>t. items = i # t)"
| "phase_front (RunningGroup g rest pending) items \<longleftrightarrow> pending = None \<and> (\<exists>t. items = g @ concat rest @ t)"
| "phase_front _ items \<longleftrightarrow> False"

text \<open>Every drain works on the queue its key leads to, a queue is draining exactly when it has a drain, and has then only one.\<close>

definition calm_inv :: "followup_state \<Rightarrow> bool" where
  "calm_inv s \<longleftrightarrow>
     (\<forall>a q. heap_queue s a = Some q \<longrightarrow> a < fs_next s \<and> qs_droppedCount q = 0)
     \<and> (\<forall>k a. mget (fs_queues s) k = Some a \<longrightarrow> heap_queue s a \<noteq> None)
     \<and> (\<forall>k k' a. mget (fs_queues s) k = Some a \<and> mget (fs_queues s) k' = Some a \<longrightarrow> k = k')
     \<and> (\<forall>d dr. mget (fs_drains s) d = Some dr \<longrightarrow> d < fs_next s \<and> mget (fs_queues s) (dr_key dr) = Some (dr_queue dr)
          \<and> (\<exists>q. heap_queue s (dr_queue dr) = Some q \<and> fq_draining q \<and> phase_front (dr_phase dr) (q_items q)))
     \<and> (\<forall>d d' dr dr'. mget (fs_drains s) d = Some dr \<and> mget (fs_drains s) d' = Some dr' \<and> dr_queue dr = dr_queue dr' \<longrightarrow> d = d')
     \<and> distinct (mkeys (fs_queues s)) \<and> distinct (mkeys (fs_drains s)) \<and> distinct (mkeys (fs_heap s))"

lemma calm_inv_new: "calm_inv new_followup_state"
  by (simp add: calm_inv_def new_followup_state_def heap_queue_def)

end
