(* ===== verification/FollowupDelivery.thy ===== *)
theory FollowupDelivery
  imports FollowupQueue
begin

text \<open>
  What the follow-up queues of FollowupQueue deliver.  In runs in which no queue overflows and none is cleared
  or rewritten (\<open>calm_step\<close>) every accepted message is handed over with success exactly once and in
  order, whatever the callbacks do.  The second part shows what overflow and clearing break:
  a message accepted while a run is in flight can be removed unseen, a queue of capacity one can drain for ever
  without a call, and the end of a drain can make the registry forget a queue it did not drain.
\<close>

section \<open>Stores\<close>

lemma heap_set [simp]: "heap_queue (set_queue a q s) a' = (if a' = a then Some q else heap_queue s a')"
  by (simp add: heap_queue_def set_queue_def)

lemma heap_other [simp]:
  "heap_queue (s\<lparr> fs_queues := qs \<rparr>) = heap_queue s" "heap_queue (s\<lparr> fs_callbacks := c \<rparr>) = heap_queue s"
  "heap_queue (s\<lparr> fs_recent := r \<rparr>) = heap_queue s" "heap_queue (s\<lparr> fs_drains := ds \<rparr>) = heap_queue s"
  "heap_queue (s\<lparr> fs_next := n \<rparr>) = heap_queue s"
  by (simp_all add: fun_eq_iff heap_queue_def)

lemma set_queue_fields [simp]:
  "fs_queues (set_queue a q s) = fs_queues s" "fs_callbacks (set_queue a q s) = fs_callbacks s"
  "fs_recent (set_queue a q s) = fs_recent s" "fs_drains (set_queue a q s) = fs_drains s" "fs_next (set_queue a q s) = fs_next s"
  "distinct (mkeys (fs_heap s)) \<Longrightarrow> distinct (mkeys (fs_heap (set_queue a q s)))"
  by (simp_all add: set_queue_def)

lemma waiting_fields [simp]:
  "waiting (s\<lparr> fs_callbacks := c \<rparr>) = waiting s" "waiting (s\<lparr> fs_recent := r \<rparr>) = waiting s"
  "waiting (s\<lparr> fs_drains := ds \<rparr>) = waiting s" "waiting (s\<lparr> fs_next := n \<rparr>) = waiting s"
  by (simp_all add: waiting_def fun_eq_iff split: option.split)

lemma calm_fields [simp]:
  "calm_inv (s\<lparr> fs_callbacks := c \<rparr>) = calm_inv s" "calm_inv (s\<lparr> fs_recent := r \<rparr>) = calm_inv s"
  by (simp_all add: calm_inv_def)

lemma waiting_set_queue:
  "waiting (set_queue a q s) k = (if mget (fs_queues s) k = Some a then q_items q else waiting s k)"
  by (auto simp: waiting_def split: option.split)

lemma waiting_set_same:
  "heap_queue s a = Some q \<Longrightarrow> q_items q' = q_items q \<Longrightarrow> waiting (set_queue a q' s) = waiting s"
  by (simp add: fun_eq_iff waiting_set_queue) (simp add: waiting_def)

lemma calm_heapD:
  assumes "calm_inv s" and "heap_queue s a = Some q"
  shows "a < fs_next s" and "qs_droppedCount q = 0"
  using assms unfolding calm_inv_def by blast+

lemma calm_queueD:
  assumes "calm_inv s" and "mget (fs_queues s) k = Some a"
  shows "\<exists>q. heap_queue s a = Some q" and "mget (fs_queues s) k' = Some a \<Longrightarrow> k = k'"
  using assms unfolding calm_inv_def by blast+

lemma calm_drainD:
  assumes "calm_inv s" and "mget (fs_drains s) d = Some dr"
  shows "d < fs_next s" and "mget (fs_queues s) (dr_key dr) = Some (dr_queue dr)"
    and "\<exists>q. heap_queue s (dr_queue dr) = Some q \<and> fq_draining q \<and> phase_front (dr_phase dr) (q_items q)"
    and "mget (fs_drains s) d' = Some dr' \<Longrightarrow> dr_queue dr = dr_queue dr' \<Longrightarrow> d = d'"
  using assms unfolding calm_inv_def by blast+

lemma calm_front:
  assumes "calm_inv s" and "heap_queue s a = Some q" and "mget (fs_drains s) d = Some dr" and "dr_queue dr = a"
  shows "phase_front (dr_phase dr) (q_items q)"
  using calm_drainD(3) [OF assms(1,3)] assms(2,4) by auto

lemma set_queue_recent [simp]: "set_queue a q (s\<lparr> fs_recent := r \<rparr>) = (set_queue a q s)\<lparr> fs_recent := r \<rparr>"
  by (simp add: set_queue_def)

lemma calm_key:
  assumes "calm_inv s" and "mget (fs_drains s) d = Some dr"
  shows "mget (fs_queues s) k = Some (dr_queue dr) \<longleftrightarrow> k = dr_key dr"
  using calm_drainD(2) [OF assms] calm_queueD(2) [OF assms(1)] by metis

lemma calm_distinct:
  assumes "calm_inv s"
  shows "distinct (mkeys (fs_queues s))" "distinct (mkeys (fs_drains s))" "distinct (mkeys (fs_heap s))"
  using assms unfolding calm_inv_def by blast+

lemma calm_invI:
  assumes "\<And>a q. heap_queue s a = Some q \<Longrightarrow> a < fs_next s \<and> qs_droppedCount q = 0"
    and "\<And>k a. mget (fs_queues s) k = Some a \<Longrightarrow> heap_queue s a \<noteq> None"
    and "\<And>k k' a. mget (fs_queues s) k = Some a \<Longrightarrow> mget (fs_queues s) k' = Some a \<Longrightarrow> k = k'"
    and "\<And>d dr. mget (fs_drains s) d = Some dr \<Longrightarrow> d < fs_next s \<and> mget (fs_queues s) (dr_key dr) = Some (dr_queue dr)
          \<and> (\<exists>q. heap_queue s (dr_queue dr) = Some q \<and> fq_draining q \<and> phase_front (dr_phase dr) (q_items q))"
    and "\<And>d d' dr dr'. mget (fs_drains s) d = Some dr \<Longrightarrow> mget (fs_drains s) d' = Some dr' \<Longrightarrow> dr_queue dr = dr_queue dr' \<Longrightarrow> d = d'"
    and "distinct (mkeys (fs_queues s))" "distinct (mkeys (fs_drains s))" "distinct (mkeys (fs_heap s))"
  shows "calm_inv s"
  using assms unfolding calm_inv_def by blast

text \<open>A new state of one queue, with drains that fit it.\<close>

lemma calm_update:
  assumes inv: "calm_inv s" and q: "heap_queue s a = Some q" "qs_droppedCount q' = 0"
    and heap: "\<And>b. heap_queue s' b = (if b = a then Some q' else heap_queue s b)" "distinct (mkeys (fs_heap s'))"
    and same: "fs_queues s' = fs_queues s" "fs_next s \<le> fs_next s'"
    and drains: "distinct (mkeys (fs_drains s'))"
      "\<And>d dr. mget (fs_drains s') d = Some dr \<Longrightarrow> dr_queue dr \<noteq> a \<Longrightarrow> mget (fs_drains s) d = Some dr"
      "\<And>d dr. mget (fs_drains s') d = Some dr \<Longrightarrow> dr_queue dr = a \<Longrightarrow>
         d < fs_next s' \<and> mget (fs_queues s) (dr_key dr) = Some a \<and> fq_draining q' \<and> phase_front (dr_phase dr) (q_items q')"
      "\<And>d d' dr dr'. mget (fs_drains s') d = Some dr \<Longrightarrow> mget (fs_drains s') d' = Some dr' \<Longrightarrow>
         dr_queue dr = a \<Longrightarrow> dr_queue dr' = a \<Longrightarrow> d = d'"
  shows "calm_inv s'"
proof (rule calm_invI)
  show "b < fs_next s' \<and> qs_droppedCount r = 0" if "heap_queue s' b = Some r" for b r
    using that q calm_heapD [OF inv] heap(1) [of b] same(2) by (auto split: if_splits intro: less_le_trans)
  show "heap_queue s' b \<noteq> None" if "mget (fs_queues s') k = Some b" for k b
    using that calm_queueD(1) [OF inv] heap(1) [of b] same(1) by auto
  show "k = k'" if "mget (fs_queues s') k = Some b" "mget (fs_queues s') k' = Some b" for k k' b
    using that calm_queueD(2) [OF inv] same(1) by auto
  show "d < fs_next s' \<and> mget (fs_queues s') (dr_key dr) = Some (dr_queue dr)
      \<and> (\<exists>q. heap_queue s' (dr_queue dr) = Some q \<and> fq_draining q \<and> phase_front (dr_phase dr) (q_items q))"
    if dr: "mget (fs_drains s') d = Some dr" for d dr
  proof (cases "dr_queue dr = a")
    case True
    then show ?thesis using drains(3) [OF dr] heap(1) same(1) by auto
  next
    case False
    from drains(2) [OF dr False] show ?thesis
      using calm_drainD [OF inv] heap(1) [of "dr_queue dr"] same False by (auto intro: less_le_trans)
  qed
  show "d = d'" if "mget (fs_drains s') d = Some dr" "mget (fs_drains s') d' = Some dr'" "dr_queue dr = dr_queue dr'" for d d' dr dr'
    using that drains(2,4) calm_drainD(4) [OF inv] by (cases "dr_queue dr = a") metis+
qed (use calm_distinct [OF inv] same(1) heap(2) drains(1) in simp_all)

lemma calm_set_queue:
  assumes inv: "calm_inv s" and q: "heap_queue s a = Some q" and q': "qs_droppedCount q' = 0" "fq_draining q' = fq_draining q"
    and ph: "\<And>d dr. mget (fs_drains s) d = Some dr \<Longrightarrow> dr_queue dr = a \<Longrightarrow> phase_front (dr_phase dr) (q_items q')"
  shows "calm_inv (set_queue a q' s)"
proof (rule calm_update [OF inv q q'(1)])
  show "d < fs_next (set_queue a q' s) \<and> mget (fs_queues s) (dr_key dr) = Some a \<and> fq_draining q' \<and> phase_front (dr_phase dr) (q_items q')"
    if "mget (fs_drains (set_queue a q' s)) d = Some dr" "dr_queue dr = a" for d dr
    using calm_drainD [OF inv] that q q'(2) ph by fastforce
  show "d = d'" if "mget (fs_drains (set_queue a q' s)) d = Some dr" "mget (fs_drains (set_queue a q' s)) d' = Some dr'"
    "dr_queue dr = a" "dr_queue dr' = a" for d d' dr dr'
    using calm_drainD(4) [OF inv] that by fastforce
qed (use calm_distinct [OF inv] in simp_all)

lemma calm_update_put:
  assumes inv: "calm_inv s" and q: "heap_queue s a = Some q" "qs_droppedCount q' = 0" "fq_draining q'"
    and heap: "\<And>b. heap_queue s' b = (if b = a then Some q' else heap_queue s b)" "distinct (mkeys (fs_heap s'))"
    and same: "fs_queues s' = fs_queues s" "fs_next s \<le> fs_next s'"
    and drains: "fs_drains s' = mput (fs_drains s) d dr'" "d < fs_next s'" "dr_queue dr' = a" "mget (fs_queues s) (dr_key dr') = Some a"
      "phase_front (dr_phase dr') (q_items q')"
    and only: "\<And>d' dr0. mget (fs_drains s) d' = Some dr0 \<Longrightarrow> dr_queue dr0 = a \<Longrightarrow> d' = d"
  shows "calm_inv s'"
proof (rule calm_update [OF inv q(1,2) heap same])
  show "distinct (mkeys (fs_drains s'))" using drains(1) calm_distinct [OF inv] by simp
  show "mget (fs_drains s) e = Some dr" if "mget (fs_drains s') e = Some dr" "dr_queue dr \<noteq> a" for e dr
    using that drains(1,3) by (auto split: if_splits)
  have only': "e = d \<and> dr = dr'" if "mget (fs_drains s') e = Some dr" "dr_queue dr = a" for e dr
    using that drains(1) only [of e dr] by (auto split: if_splits)
  show "e < fs_next s' \<and> mget (fs_queues s) (dr_key dr) = Some a \<and> fq_draining q' \<and> phase_front (dr_phase dr) (q_items q')"
    if "mget (fs_drains s') e = Some dr" "dr_queue dr = a" for e dr
    using only' [OF that] q(3) drains by simp
  show "e = e'" if "mget (fs_drains s') e = Some dr" "mget (fs_drains s') e' = Some dr0" "dr_queue dr = a" "dr_queue dr0 = a" for e e' dr dr0
    using only' [OF that(1,3)] only' [OF that(2,4)] by simp
qed

lemma calm_update_del:
  assumes inv: "calm_inv s" and q: "heap_queue s a = Some q" "qs_droppedCount q' = 0"
    and heap: "\<And>b. heap_queue s' b = (if b = a then Some q' else heap_queue s b)" "distinct (mkeys (fs_heap s'))"
    and same: "fs_queues s' = fs_queues s" "fs_next s \<le> fs_next s'"
    and drains: "fs_drains s' = mdel (fs_drains s) d"
    and only: "\<And>d' dr0. mget (fs_drains s) d' = Some dr0 \<Longrightarrow> dr_queue dr0 = a \<Longrightarrow> d' = d"
  shows "calm_inv s'"
proof (rule calm_update [OF inv q heap same])
  show "distinct (mkeys (fs_drains s'))" using drains(1) calm_distinct [OF inv] by simp
  show "mget (fs_drains s) e = Some dr" if "mget (fs_drains s') e = Some dr" for e dr
    using that drains by (auto split: if_splits)
  have no: False if "mget (fs_drains s') e = Some dr" "dr_queue dr = a" for e dr
    using that drains only [of e dr] by (auto split: if_splits)
  show "e < fs_next s' \<and> mget (fs_queues s) (dr_key dr) = Some a \<and> fq_draining q' \<and> phase_front (dr_phase dr) (q_items q')"
    if "mget (fs_drains s') e = Some dr" "dr_queue dr = a" for e dr using no [OF that] ..
  show "e = e'" if "mget (fs_drains s') e = Some dr" "dr_queue dr = a" for e e' dr using no [OF that] ..
qed

text \<open>The drain \<open>d\<close> moves on, with a new state of its queue.\<close>

lemma calm_goto:
  assumes inv: "calm_inv s" and d: "mget (fs_drains s) d = Some dr" and q': "qs_droppedCount q' = 0" "fq_draining q'"
    and ph: "phase_front ph (q_items q')" and dr': "dr_queue dr' = dr_queue dr" "dr_key dr' = dr_key dr"
  shows "calm_inv (goto_phase d ph dr' (set_queue (dr_queue dr) q' s))"
proof -
  obtain q where q: "heap_queue s (dr_queue dr) = Some q" using calm_drainD(3) [OF inv d] by blast
  have only: "d' = d" if "mget (fs_drains s) d' = Some dr0" "dr_queue dr0 = dr_queue dr" for d' dr0
    using calm_drainD(4) [OF inv that(1) d] that(2) by simp
  show ?thesis
    by (rule calm_update_put [OF inv q q', where d = d and dr' = "dr'\<lparr> dr_phase := ph \<rparr>"])
      (use calm_distinct [OF inv] calm_drainD(1,2) [OF inv d] only ph dr' in \<open>simp_all add: goto_phase_def\<close>)
qed


lemma calm_forget:
  assumes inv: "calm_inv s" and none: "\<And>d dr. mget (fs_drains s) d = Some dr \<Longrightarrow> dr_key dr \<noteq> key"
  shows "calm_inv (forget_key key s)"
proof (rule calm_invI)
  show "d < fs_next (forget_key key s) \<and> mget (fs_queues (forget_key key s)) (dr_key dr) = Some (dr_queue dr)
      \<and> (\<exists>q. heap_queue (forget_key key s) (dr_queue dr) = Some q \<and> fq_draining q \<and> phase_front (dr_phase dr) (q_items q))"
    if "mget (fs_drains (forget_key key s)) d = Some dr" for d dr
    using that none calm_drainD [OF inv] by (auto simp: forget_key_def clearFollowupDrainCallback_def)
qed (use calm_heapD [OF inv] calm_queueD [OF inv] calm_drainD(4) [OF inv] calm_distinct [OF inv] in
    \<open>auto simp: forget_key_def clearFollowupDrainCallback_def split: if_splits\<close>)

lemma waiting_forget: "waiting s key = [] \<Longrightarrow> waiting (forget_key key s) = waiting s"
  by (auto simp: waiting_def forget_key_def clearFollowupDrainCallback_def fun_eq_iff split: option.splits)

lemma calm_schedule:
  assumes inv: "calm_inv s"
  shows "calm_inv (scheduleFollowupDrain key cb s) \<and> waiting (scheduleFollowupDrain key cb s) = waiting s"
proof (cases "mget (fs_queues s) key")
  case None
  then show ?thesis using inv by (simp add: scheduleFollowupDrain_def)
next
  case (Some a)
  obtain q where q: "heap_queue s a = Some q" using calm_queueD(1) [OF inv Some] by blast
  show ?thesis
  proof (cases "fq_draining q")
    case True
    then show ?thesis using inv Some q by (simp add: scheduleFollowupDrain_def)
  next
    case False
    have none: "dr_queue dr \<noteq> a" if "mget (fs_drains s) d = Some dr" for d dr
      using calm_drainD(3) [OF inv that] q False by auto
    let ?cb = "case mget (fs_callbacks s) key of Some c \<Rightarrow> c | None \<Rightarrow> cb"
    let ?s1 = "rememberFollowupDrainCallback key ?cb s"
    have s1: "calm_inv ?s1" "waiting ?s1 = waiting s" using inv by (simp_all add: rememberFollowupDrainCallback_def)
    show ?thesis
    proof (cases "has_work q")
      case True
      let ?dr = "\<lparr> dr_queue = a, dr_key = key, dr_callback = ?cb,
                        dr_forceIndividualCollect = False, dr_phase = Debouncing (num_max0 (fq_debounceMs q)) \<rparr>"
      let ?s' = "(set_queue a (q\<lparr> fq_draining := True \<rparr>) ?s1)\<lparr> fs_drains := mput (fs_drains s) (fs_next s) ?dr, fs_next := fs_next s + 1 \<rparr>"
      have "calm_inv ?s'"
        by (rule calm_update_put [OF inv q, where q' = "q\<lparr> fq_draining := True \<rparr>" and d = "fs_next s" and dr' = ?dr])
          (use calm_distinct [OF inv] calm_heapD [OF inv q] none Some in \<open>auto simp: rememberFollowupDrainCallback_def\<close>)
      moreover have "waiting ?s' = waiting s"
        using waiting_set_same [of ?s1 a q "q\<lparr> fq_draining := True \<rparr>"] q s1(2)
        by (simp add: rememberFollowupDrainCallback_def)
      moreover have "scheduleFollowupDrain key cb s = ?s'"
        using Some q False True by (simp add: scheduleFollowupDrain_def Let_def)
      ultimately show ?thesis by simp
    next
      case no: False
      have "dr_key dr \<noteq> key" if "mget (fs_drains s) d = Some dr" for d dr
        using calm_drainD(2) [OF inv that] none [OF that] Some by auto
      then have "calm_inv (forget_key key ?s1)"
        using s1(1) by (intro calm_forget) (auto simp: rememberFollowupDrainCallback_def)
      moreover have "waiting ?s1 key = []" using no q Some s1(2) by (simp add: waiting_def has_work_def)
      ultimately show ?thesis
        using Some q False no s1(2) waiting_forget [of ?s1 key] by (simp add: scheduleFollowupDrain_def Let_def)
    qed
  qed
qed

lemma calm_finish:
  assumes inv: "calm_inv s" and d: "mget (fs_drains s) d = Some dr" and q': "qs_droppedCount q' = 0"
    and dr': "dr_queue dr' = dr_queue dr" "dr_key dr' = dr_key dr"
  shows "calm_inv (finish_drain d dr' q' s)
    \<and> waiting (finish_drain d dr' q' s) k = (if k = dr_key dr then q_items q' else waiting s k)"
proof -
  let ?a = "dr_queue dr" and ?q = "q'\<lparr> fq_draining := False \<rparr>"
  let ?s1 = "(set_queue ?a ?q s)\<lparr> fs_drains := mdel (fs_drains s) d \<rparr>"
  obtain q where q: "heap_queue s ?a = Some q" using calm_drainD(3) [OF inv d] by blast
  have key: "mget (fs_queues s) (dr_key dr) = Some ?a" by (rule calm_drainD(2) [OF inv d])
  have only: "d' = d" if "mget (fs_drains s) d' = Some dr0" "dr_queue dr0 = ?a" for d' dr0
    using calm_drainD(4) [OF inv that(1) d] that(2) by simp
  have inv1: "calm_inv ?s1"
    by (rule calm_update_del [OF inv q, where q' = ?q and d = d]) (use calm_distinct [OF inv] only q' in simp_all)
  have w1: "waiting ?s1 k = (if k = dr_key dr then q_items q' else waiting s k)" for k
    using calm_key [OF inv d, of k] by (simp add: waiting_set_queue)
  show ?thesis
  proof (cases "has_work q'")
    case True
    then show ?thesis using calm_schedule [OF inv1] w1 dr' by (simp add: finish_drain_def Let_def)
  next
    case False
    have "dr_key dr0 \<noteq> dr_key dr" if "mget (fs_drains ?s1) d' = Some dr0" for d' dr0
      using that only [of d' dr0] calm_drainD(2) [OF inv, of d' dr0] key by (auto split: if_splits)
    then have "calm_inv (forget_key (dr_key dr) ?s1)" by (rule calm_forget [OF inv1])
    moreover have "waiting ?s1 (dr_key dr) = []" using False w1 by (simp add: has_work_def)
    ultimately show ?thesis using False w1 dr' waiting_forget [of ?s1 "dr_key dr"] by (simp add: finish_drain_def Let_def)
  qed
qed

lemma waiting_goto: "waiting (goto_phase d ph dr s) = waiting s"
  by (simp add: goto_phase_def)

lemma calm_loop_head:
  assumes inv: "calm_inv s" and d: "mget (fs_drains s) d = Some dr" and q': "qs_droppedCount q' = 0" "fq_draining q'"
  shows "calm_inv (loop_head d dr q' s) \<and> waiting (loop_head d dr q' s) k = (if k = dr_key dr then q_items q' else waiting s k)"
proof (cases "has_work q'")
  case True
  have "calm_inv (goto_phase d (Debouncing (num_max0 (fq_debounceMs q'))) dr (set_queue (dr_queue dr) q' s))"
    by (rule calm_goto [OF inv d q']) simp_all
  then show ?thesis using True calm_key [OF inv d, of k] by (simp add: loop_head_def waiting_goto waiting_set_queue)
next
  case False
  then show ?thesis using calm_finish [OF inv d q'(1) refl refl] by (simp add: loop_head_def)
qed


lemma done_append [simp]: "done_items (os @ os') k = done_items os k @ done_items os' k"
  by (induction os k rule: done_items.induct) auto

text \<open>The callback of drain \<open>d\<close> returns or throws.\<close>

lemma calm_settled:
  assumes inv: "calm_inv s"
  shows "calm_inv (fst (run_settled now d success s))
    \<and> done_items (snd (run_settled now d success s)) k @ waiting (fst (run_settled now d success s)) k = waiting s k"
proof (cases "mget (fs_drains s) d")
  case None
  then show ?thesis using inv by (simp add: run_settled_def)
next
  case (Some dr)
  obtain q where q: "heap_queue s (dr_queue dr) = Some q" "fq_draining q" "phase_front (dr_phase dr) (q_items q)"
    using calm_drainD(3) [OF inv Some] by blast
  have dropped: "qs_droppedCount q = 0" by (rule calm_heapD(2) [OF inv q(1)])
  have w: "waiting s (dr_key dr) = q_items q" using calm_drainD(2) [OF inv Some] q(1) by (simp add: waiting_def)
  have head: "calm_inv (loop_head d dr (q\<lparr> q_items := xs \<rparr>) s)"
    "waiting (loop_head d dr (q\<lparr> q_items := xs \<rparr>) s) k = (if k = dr_key dr then xs else waiting s k)" for xs
    using calm_loop_head [OF inv Some, of "q\<lparr> q_items := xs \<rparr>" k] dropped q(2) by simp_all
  have failed: "calm_inv (finish_drain d dr (q\<lparr> fq_lastEnqueuedAt := now \<rparr>) s)"
    "waiting (finish_drain d dr (q\<lparr> fq_lastEnqueuedAt := now \<rparr>) s) k = waiting s k"
    using calm_finish [OF inv Some, of "q\<lparr> fq_lastEnqueuedAt := now \<rparr>" dr k] dropped w by simp_all
  show ?thesis
  proof (cases "dr_phase dr")
    case (Debouncing ms)
    then show ?thesis using inv Some q(1) by (simp add: run_settled_def run_succeeded_def)
  next
    case (RunningItem i)
    then obtain t where "q_items q = i # t" using q(3) by auto
    then show ?thesis using RunningItem Some q(1) head failed w by (simp add: run_settled_def run_succeeded_def)
  next
    case (RunningGroup g rest pending)
    then obtain t where t: "q_items q = g @ concat rest @ t" and pending: "pending = None" using q(3) by auto
    show ?thesis
    proof (cases rest)
      case Nil
      then show ?thesis using RunningGroup Some q(1) head failed w t pending by (simp add: run_settled_def run_succeeded_def)
    next
      case (Cons g' rest')
      let ?q = "q\<lparr> q_items := concat rest @ t \<rparr>"
      have "calm_inv (goto_phase d (RunningGroup g' rest' None) dr (set_queue (dr_queue dr) ?q s))"
        by (rule calm_goto [OF inv Some]) (use dropped q(2) Cons in simp_all)
      then show ?thesis
        using RunningGroup Some q(1) failed w t pending Cons calm_key [OF inv Some, of k]
        by (simp add: run_settled_def run_succeeded_def call_group_def waiting_goto waiting_set_queue Let_def)
    qed
  qed (use q(3) in simp_all)
qed

text \<open>The debounce of drain \<open>d\<close> is over.\<close>

lemma calm_summary: "qs_droppedCount q = 0 \<Longrightarrow> summary_of q = None"
  by (simp add: summary_of_def preview_None_iff)

lemma calm_debounced:
  assumes inv: "calm_inv s"
  shows "calm_inv (fst (debounced registered now d s))
    \<and> done_items (snd (debounced registered now d s)) k @ waiting (fst (debounced registered now d s)) k = waiting s k"
proof (cases "mget (fs_drains s) d")
  case None
  then show ?thesis using inv by (simp add: debounced_def)
next
  case (Some dr)
  obtain q where q: "heap_queue s (dr_queue dr) = Some q" "fq_draining q"
    using calm_drainD(3) [OF inv Some] by blast
  have dropped: "qs_droppedCount q = 0" by (rule calm_heapD(2) [OF inv q(1)])
  have w: "waiting s (dr_key dr) = q_items q" using calm_drainD(2) [OF inv Some] q(1) by (simp add: waiting_def)
  have same: "set_queue (dr_queue dr) q s = s"
    using q(1) calm_distinct(3) [OF inv] by (simp add: set_queue_def heap_queue_def mput_def mget_def update_triv)
  have goto: "calm_inv (goto_phase d ph dr' s)" if "phase_front ph (q_items q)" "dr_queue dr' = dr_queue dr" "dr_key dr' = dr_key dr" for ph dr'
    using calm_goto [OF inv Some dropped q(2) that] same by simp
  have fin: "calm_inv (finish_drain d dr' q s)" "waiting (finish_drain d dr' q s) k = waiting s k"
    if "dr_queue dr' = dr_queue dr" "dr_key dr' = dr_key dr" for dr'
    using calm_finish [OF inv Some dropped that, of k] w by simp_all
  have body: "calm_inv (fst (collect_body registered d dr q now s))
      \<and> done_items (snd (collect_body registered d dr q now s)) k @ waiting (fst (collect_body registered d dr q now s)) k = waiting s k"
  proof -
    let ?gs = "splitCollectItemsByAuthorization (q_items q)"
    have groups: "concat ?gs = q_items q" using split_spec by blast
    have grp: "calm_inv (goto_phase d (RunningGroup g rest None) dr s)" if "?gs = g # rest" for g rest
      using groups that by (intro goto) (auto intro: exI [of _ "[]"])
    show ?thesis
    proof (cases "dr_forceIndividualCollect dr \<or> hasCrossChannelItems (q_items q) (resolveCrossChannelKey registered)")
      case True
      then show ?thesis
        using goto fin calm_summary [OF dropped]
        by (cases "q_items q") (simp_all add: collect_body_def Let_def summary_only_def waiting_goto)
    next
      case False
      then show ?thesis
        using grp fin calm_summary [OF dropped]
        by (cases ?gs) (simp_all add: collect_body_def Let_def summary_only_def call_group_def waiting_goto)
    qed
  qed
  have plain: "calm_inv (fst (plain_body d dr q now s))
      \<and> done_items (snd (plain_body d dr q now s)) k @ waiting (fst (plain_body d dr q now s)) k = waiting s k"
    using goto fin calm_summary [OF dropped] by (simp add: plain_body_def waiting_goto split: list.split)
  show ?thesis
    using inv Some q(1) body plain by (simp add: debounced_def split: drain_phase.split)
qed


lemma phase_front_append: "phase_front ph items \<Longrightarrow> phase_front ph (items @ xs)"
  by (cases ph) auto

text \<open>Finding or making the queue of a key.\<close>

lemma apply_settings_fields [simp]:
  "q_items (apply_settings settings q) = q_items q" "qs_droppedCount (apply_settings settings q) = qs_droppedCount q"
  "fq_draining (apply_settings settings q) = fq_draining q"
  by (simp_all add: apply_settings_def Let_def)

lemma calm_get:
  assumes inv: "calm_inv s" and g: "getFollowupQueue key settings s = (a, s1)"
  shows "calm_inv s1 \<and> waiting s1 = waiting s \<and> mget (fs_queues s1) key = Some a
    \<and> (\<exists>q. heap_queue s1 a = Some q \<and> q_items q = waiting s key)"
proof (cases "mget (fs_queues s) key")
  case (Some b)
  then obtain q where q: "heap_queue s b = Some q" using calm_queueD(1) [OF inv] by blast
  have s1: "a = b" "s1 = set_queue b (apply_settings settings q) s" using g Some q by (auto simp: getFollowupQueue_def)
  have "calm_inv (set_queue b (apply_settings settings q) s)"
    by (rule calm_set_queue [OF inv q]) (use calm_heapD(2) [OF inv q] calm_front [OF inv q] in simp_all)
  then show ?thesis using s1 Some q waiting_set_same [OF q, of "apply_settings settings q"] by (simp add: waiting_def)
next
  case None
  let ?q = "apply_settings settings (new_followup_queue settings)"
  have q: "q_items ?q = []" "qs_droppedCount ?q = 0" by (simp_all add: new_followup_queue_def)
  have s1: "a = fs_next s" "s1 = (set_queue (fs_next s) ?q s)\<lparr> fs_queues := mput (fs_queues s) key (fs_next s), fs_next := fs_next s + 1 \<rparr>"
    using g None by (auto simp: getFollowupQueue_def)
  have fresh: "heap_queue s b \<noteq> None \<Longrightarrow> b < fs_next s" for b using calm_heapD(1) [OF inv] by auto
  have old: "mget (fs_queues s) k = Some b \<Longrightarrow> b < fs_next s" for k b
    using calm_queueD(1) [OF inv] fresh by blast
  have drain: "mget (fs_drains s) d = Some dr \<Longrightarrow> dr_key dr \<noteq> key \<and> dr_queue dr < fs_next s" for d dr
    using calm_drainD(2) [OF inv] old None by fastforce
  have "calm_inv s1"
  proof (rule calm_invI)
    show "b < fs_next s1 \<and> qs_droppedCount r = 0" if "heap_queue s1 b = Some r" for b r
      using that calm_heapD [OF inv] q(2) by (fastforce simp: s1 less_Suc_eq split: if_splits)
    show "heap_queue s1 b \<noteq> None" if "mget (fs_queues s1) k = Some b" for k b
      using that calm_queueD(1) [OF inv] by (fastforce simp: s1 split: if_splits)
    show "k = k'" if "mget (fs_queues s1) k = Some b" "mget (fs_queues s1) k' = Some b" for k k' b
      using that calm_queueD(2) [OF inv] old [of k b] old [of k' b] by (auto simp: s1 split: if_splits)
    show "d < fs_next s1 \<and> mget (fs_queues s1) (dr_key dr) = Some (dr_queue dr)
      \<and> (\<exists>q. heap_queue s1 (dr_queue dr) = Some q \<and> fq_draining q \<and> phase_front (dr_phase dr) (q_items q))"
      if "mget (fs_drains s1) d = Some dr" for d dr
    proof -
      have d: "mget (fs_drains s) d = Some dr" using that by (simp add: s1)
      obtain q' where "heap_queue s (dr_queue dr) = Some q'" "fq_draining q'" "phase_front (dr_phase dr) (q_items q')"
        using calm_drainD(3) [OF inv d] by blast
      then show ?thesis using calm_drainD(1,2) [OF inv d] drain [OF d] by (simp add: s1)
    qed
    show "d = d'" if "mget (fs_drains s1) d = Some dr" "mget (fs_drains s1) d' = Some dr'" "dr_queue dr = dr_queue dr'" for d d' dr dr'
      using that calm_drainD(4) [OF inv] by (simp add: s1)
  qed (use calm_distinct [OF inv] in \<open>simp_all add: s1\<close>)
  moreover have "waiting s1 k = waiting s k" for k
    using old [of k] None q(1) by (auto simp: s1 waiting_def split: option.split)
  ultimately show ?thesis using None q(1) by (auto simp: s1 fun_eq_iff waiting_def)
qed

lemma calm_enqueue:
  assumes inv: "calm_inv s" and calm: "calm s (now, EnqueueRun key r settings mode cb restart)"
  shows "calm_inv (snd (enqueueFollowupRun now key r settings mode cb restart s))
    \<and> waiting (snd (enqueueFollowupRun now key r settings mode cb restart s)) k
      = waiting s k @ (if key = k \<and> fst (enqueueFollowupRun now key r settings mode cb restart s) then [r] else [])"
proof -
  obtain a s1 where g: "getFollowupQueue key settings s = (a, s1)" by (cases "getFollowupQueue key settings s")
  obtain q where inv1: "calm_inv s1" "waiting s1 = waiting s" and key: "mget (fs_queues s1) key = Some a"
    and q: "heap_queue s1 a = Some q" "q_items q = waiting s key"
    using calm_get [OF inv g] by blast
  have room: "has_room (q_cap q) (length (q_items q))"
    using calm by (simp add: target_queue_def g q(1) Let_def)
  let ?q1 = "q\<lparr> fq_lastEnqueuedAt := now, fq_lastRun := Some (fr_run r) \<rparr>"
  have drop: "applyQueueDropPolicy f l ?q1 = (True, ?q1)" for f l
    using room by (simp add: applyQueueDropPolicy_def Let_def)
  have put: "calm_inv (set_queue a (?q1\<lparr> q_items := q_items q @ [r] \<rparr>) s1)"
    by (rule calm_set_queue [OF inv1(1) q(1)])
      (use calm_heapD(2) [OF inv1(1) q(1)] calm_front [OF inv1(1) q(1)] phase_front_append in simp_all)
  have w: "waiting (set_queue a (?q1\<lparr> q_items := q_items q @ [r] \<rparr>) s1) k = waiting s k @ (if key = k then [r] else [])"
    using calm_queueD(2) [OF inv1(1) key, of k] key q(2) inv1(2) by (auto simp: waiting_set_queue)
  show ?thesis
    using inv1 put w calm_schedule
    by (simp add: enqueueFollowupRun_def g q(1) drop Let_def case_prod_beta rememberFollowupDrainCallback_def
        kickFollowupDrainIfIdle_def split: option.split)
qed

lemma calm_ok:
  assumes inv: "calm_inv s"
  shows "calm_inv (fst (calm_step registered s a))
    \<and> done_items (snd (calm_step registered s a)) k @ waiting (fst (calm_step registered s a)) k = waiting s k @ accepted s a k"
proof -
  obtain now b where a: "a = (now, b)" by (cases a)
  show ?thesis
  proof (cases b)
    case (EnqueueRun key r settings mode cb restart)
    then show ?thesis
    proof (cases "calm s (now, b)")
      case True
      then show ?thesis
        using calm_enqueue [OF inv, of now key r settings mode cb restart k] by (simp add: a EnqueueRun calm_step_def)
    qed (use inv in \<open>simp add: a EnqueueRun calm_step_def\<close>)
  qed (use inv calm_settled [OF inv] calm_debounced [OF inv] calm_schedule [OF inv] in \<open>simp_all add: a calm_step_def\<close>)
qed

interpretation fq: guarded_delivery "calm_step registered" accepted waiting done_items calm_inv for registered
  by unfold_locales (use calm_ok in auto)


section \<open>Exactly once\<close>

text \<open>C16: Without overflow every message is handed over once and in order. For any operations of which those that would
  overflow, clear or rewrite a queue are skipped, and whatever the callbacks return or throw, the messages of a key
  whose hand-over succeeded, in that order, followed by those still waiting, are exactly
  the messages accepted for the key in the order of acceptance.\<close>

theorem followup_exactly_once:
  "done_items (snd (run_ops (calm_step registered) new_followup_state as)) key
     @ waiting (fst (run_ops (calm_step registered) new_followup_state as)) key
   = run_admitted (calm_step registered) accepted new_followup_state as key"
  using fq.run_conserve [OF calm_inv_new, where k = key and as = as and registered = registered]
  by (simp add: waiting_def new_followup_state_def)

text \<open>Two messages for a queue of capacity one, the run of its drain, and the return of the callback.\<close>

definition plain_settings :: "nat \<Rightarrow> queue_mode queue_settings" where
  "plain_settings cap = \<lparr> set_mode = Followup, set_debounceMs = Some (Fin 0), set_cap = Some (Fin (of_nat cap)), set_dropPolicy = None \<rparr>"

definition overflow_ops :: "jsstr \<Rightarrow> followup_run \<Rightarrow> followup_run \<Rightarrow> (int \<times> followup_op) list" where
  "overflow_ops k i r = [(0, EnqueueRun k i (plain_settings 1) NoDedupe (Some 9) True),
     (0, EnqueueRun k r (plain_settings 1) NoDedupe (Some 9) True), (0, Debounced 2), (0, RunSettled 2 True)]"

lemma overflow_run:
  "\<exists>call. snd (run_ops (followup_step registered) new_followup_state (overflow_ops k i r)) = [RunFollowup 2 9 call []]
     \<and> fr_run call = fr_run r
     \<and> fr_prompt call = join [0x0A] [summary_title 1 (js ''message''), js ''Summary:'', js ''- '' @ buildQueueSummaryLine (summary_text i) 160]
     \<and> waiting (fst (run_ops (followup_step registered) new_followup_state (overflow_ops k i r))) k = []"
  by (simp add: overflow_ops_def new_followup_state_def enqueueFollowupRun_def getFollowupQueue_def plain_settings_def
    new_followup_queue_def apply_settings_def applyQueueRuntimeSettings_def Let_def cap_setting_def debounce_setting_def num_floor_def
    num_max0_def shouldSkipQueueItem_def applyQueueDropPolicy_def has_room_def num_of_def drop_count_def rememberFollowupDrainCallback_def
    kickFollowupDrainIfIdle_def scheduleFollowupDrain_def has_work_def DEFAULT_QUEUE_DROP_def keep_lines_def take_last_def
    debounced_def debounce_over_def plain_body_def summary_of_def previewQueueSummaryPrompt_def buildQueueSummaryPrompt_def goto_phase_def
    run_settled_def run_succeeded_def loop_head_def clearQueueSummaryState_def finish_drain_def forget_key_def
    clearFollowupDrainCallback_def waiting_def bare_run_def)

text \<open>C17: A message runs under its own authorization; a summary runs under the last sender's.  At any step of any run of all
  operations, rewrites included, a call of the callback is made with one queued message as it is; or with several collected, all
  of the authorization key of the call's run, and at most the pending summary before them; or, with no queued message, with the
  summary alone, under \<open>queue.lastRun\<close>.  The summary quotes the dropped messages whoever sent them, so the separation ends there: of any two
  messages to a queue of capacity one the first is dropped, and the one call that is made carries its text under the
  authorization of the second, which is removed without a call of its own.\<close>

theorem calls_authorized:
  "list_all (authorized (fst (run_ops (followup_step registered) new_followup_state as)))
     (snd (followup_step registered (fst (run_ops (followup_step registered) new_followup_state as)) a))
   \<and> (\<exists>call. snd (run_ops (followup_step registered) new_followup_state (overflow_ops k i r)) = [RunFollowup 2 9 call []]
     \<and> fr_run call = fr_run r
     \<and> fr_prompt call = join [0x0A] [summary_title 1 (js ''message''), js ''Summary:'', js ''- '' @ buildQueueSummaryLine (summary_text i) 160]
     \<and> waiting (fst (run_ops (followup_step registered) new_followup_state (overflow_ops k i r))) k = [])"
proof
  have "drains_uniform new_followup_state" by (simp add: drains_uniform_def new_followup_state_def)
  then show "list_all (authorized (fst (run_ops (followup_step registered) new_followup_state as)))
     (snd (followup_step registered (fst (run_ops (followup_step registered) new_followup_state as)) a))"
    using uniform_step [OF uniform_run] by blast
qed (rule overflow_run)

section \<open>Overflow while a run is in flight\<close>

lemma schedule_items:
  "heap_queue s a = Some q \<Longrightarrow> \<exists>q'. heap_queue (scheduleFollowupDrain key cb s) a = Some q' \<and> q_items q' = q_items q"
  by (auto simp: scheduleFollowupDrain_def Let_def forget_key_def clearFollowupDrainCallback_def rememberFollowupDrainCallback_def
      split: option.split)

lemma finish_items:
  "\<exists>q'. heap_queue (finish_drain d dr q s) (dr_queue dr) = Some q' \<and> q_items q' = q_items q"
  using schedule_items [of "(set_queue (dr_queue dr) (q\<lparr> fq_draining := False \<rparr>) s)\<lparr> fs_drains := mdel (fs_drains s) d \<rparr>" "dr_queue dr"
      "q\<lparr> fq_draining := False \<rparr>" "dr_key dr" "dr_callback dr"]
  by (simp add: finish_drain_def Let_def forget_key_def clearFollowupDrainCallback_def)

lemma loop_head_items:
  "\<exists>q'. heap_queue (loop_head d dr q s) (dr_queue dr) = Some q' \<and> q_items q' = q_items q"
  using finish_items [of d dr q s] by (simp add: loop_head_def goto_phase_def)

text \<open>A message accepted during a run can vanish. A drain has handed the first of a full queue to the callback;
  a message is accepted, which drops the front of the queue; when the callback returns, the drain removes the front
  again. The second message, or the accepted one when the capacity is one, is gone: no call is made with
  it, and a summary counts the message that ran instead.\<close>

theorem inflight_overflow_loses_message:
  assumes q: "heap_queue s a = Some q" and key: "mget (fs_queues s) key = Some a"
    and dr: "mget (fs_drains s) d = Some dr" "dr_queue dr = a" "dr_phase dr = RunningItem i"
    and full: "q_items q = i # rest" "q_cap q = Fin (of_nat (length (q_items q)))" "qs_dropPolicy q \<noteq> DropNew"
    and op: "st = \<lparr> set_mode = fq_mode q, set_debounceMs = None, set_cap = None, set_dropPolicy = None \<rparr>"
    and s1: "r1 = enqueueFollowupRun now key r st NoDedupe None False s"
    and s2: "r2 = run_settled later d True (snd r1)"
  shows "fst r1 \<and> (\<exists>q1. heap_queue (snd r1) a = Some q1 \<and> q_items q1 = rest @ [r])
    \<and> (\<exists>q2. heap_queue (fst r2) a = Some q2 \<and> q_items q2 = tl (rest @ [r]))
    \<and> snd r2 = [FollowupDone (dr_key dr) [i]]"
proof -
  let ?q0 = "apply_settings st q"
  have q0: "?q0 = q" by (simp add: apply_settings_def applyQueueRuntimeSettings_def op Let_def cap_setting_def debounce_setting_def)
  have full': "\<not> has_room (q_cap q) (length (q_items q))" "drop_count (length (q_items q)) (q_cap q) = 1"
    using full(1,2) by (auto simp: has_room_def num_of_def drop_count_def)
  have "\<exists>q1. heap_queue (snd r1) a = Some q1 \<and> q_items q1 = rest @ [r] \<and> fst r1 \<and> fs_drains (snd r1) = fs_drains s"
    using key q full' full(1,3)
    by (simp add: s1 enqueueFollowupRun_def getFollowupQueue_def q0 applyQueueDropPolicy_def Let_def shouldSkipQueueItem_def)
  then obtain q1 where q1: "heap_queue (snd r1) a = Some q1" "q_items q1 = rest @ [r]" "fst r1" "fs_drains (snd r1) = fs_drains s" by blast
  then have "r2 = (loop_head d dr (q1\<lparr> q_items := tl (rest @ [r]) \<rparr>) (snd r1), [FollowupDone (dr_key dr) [i]])"
    using dr by (simp add: s2 run_settled_def run_succeeded_def)
  then show ?thesis
    using q1 dr(2) loop_head_items [of d dr "q1\<lparr> q_items := tl (rest @ [r]) \<rparr>" "snd r1"] by simp
qed

section \<open>A drain without end\<close>

text \<open>Dropped items are counted, none is queued, and the drain waits for its debounce.\<close>

definition summary_stuck :: "followup_state \<Rightarrow> jsstr \<Rightarrow> nat \<Rightarrow> int \<Rightarrow> bool" where
  "summary_stuck s key d now \<longleftrightarrow> (case mget (fs_queues s) key of None \<Rightarrow> False | Some a \<Rightarrow>
     (case (heap_queue s a, mget (fs_drains s) d) of
        (Some q, Some dr) \<Rightarrow> dr_queue dr = a \<and> dr_key dr = key \<and> fq_mode q \<noteq> Collect \<and> q_items q = []
          \<and> 0 < qs_droppedCount q \<and> qs_dropPolicy q = Summarize \<and> fq_draining q
          \<and> (case dr_phase dr of Debouncing ms \<Rightarrow> ms = num_max0 (fq_debounceMs q) \<and> debounce_over ms now q | _ \<Rightarrow> False)
      | _ \<Rightarrow> False))"

text \<open>One round: the drain finds the summary but no message, ends, and is scheduled again under the next number.\<close>

lemma stuck_step:
  assumes "summary_stuck s key d now"
  shows "summary_stuck (fst (debounced registered now d s)) key (fs_next s) now \<and> snd (debounced registered now d s) = []
    \<and> fs_next (fst (debounced registered now d s)) = Suc (fs_next s)
    \<and> fs_queues (fst (debounced registered now d s)) = fs_queues s
    \<and> heap_queue (fst (debounced registered now d s)) = heap_queue s"
proof -
  obtain a q dr ms where st: "mget (fs_queues s) key = Some a" "heap_queue s a = Some q" "mget (fs_drains s) d = Some dr"
    "dr_queue dr = a" "dr_key dr = key" "fq_mode q \<noteq> Collect" "q_items q = []" "0 < qs_droppedCount q"
    "qs_dropPolicy q = Summarize" "fq_draining q" "dr_phase dr = Debouncing ms" "ms = num_max0 (fq_debounceMs q)" "debounce_over ms now q"
    using assms by (auto simp: summary_stuck_def split: option.splits drain_phase.splits)
  have same: "q\<lparr> fq_draining := True \<rparr> = q" using st(10) by simp
  obtain p where p: "summary_of q = Some p" using st(8,9) by (cases "summary_of q") (auto simp: summary_of_def preview_None_iff)
  have step: "debounced registered now d s = (finish_drain d dr q s, [])"
    using st p by (simp add: debounced_def plain_body_def split: option.split)
  let ?s1 = "(set_queue a (q\<lparr> fq_draining := False \<rparr>) s)\<lparr> fs_drains := mdel (fs_drains s) d \<rparr>"
  have fin: "finish_drain d dr q s = scheduleFollowupDrain key (dr_callback dr) ?s1"
    using st by (simp add: finish_drain_def Let_def has_work_def)
  then show ?thesis
    using st same by (auto simp: step fin has_work_def scheduleFollowupDrain_def rememberFollowupDrainCallback_def
        summary_stuck_def debounce_over_def fun_eq_iff Let_def)
qed

text \<open>The drains of the loop: the one that waits in \<open>s\<close>, then the ones that the ends of drains schedule.\<close>

definition drain_id :: "followup_state \<Rightarrow> nat \<Rightarrow> nat \<Rightarrow> nat" where
  "drain_id s d i = (case i of 0 \<Rightarrow> d | Suc j \<Rightarrow> fs_next s + j)"

text \<open>C18: A queue whose messages were all dropped drains for ever. With nothing queued, a summary due and a mode other
  than collect, the drain ends without a call and schedules a new drain of the queue, whose debounce is over at once.  So it goes on:
  after any number \<open>n\<close> of rounds at the same instant, each made by the drain that the round before scheduled, \<open>n\<close> drains have been
  started, no callback was called, the queues are unchanged, the summary is still due, and the next drain stands ready.\<close>

theorem followup_livelock:
  assumes "summary_stuck s key d now"
  shows "let (t, out) = run_ops (followup_step registered) s (map (\<lambda>i. (now, Debounced (drain_id s d i))) [0..<n]) in
    out = [] \<and> summary_stuck t key (drain_id s d n) now \<and> fs_next t = fs_next s + n
    \<and> fs_queues t = fs_queues s \<and> heap_queue t = heap_queue s"
proof (induction n)
  case 0
  then show ?case using assms by (simp add: drain_id_def)
next
  case (Suc n)
  let ?run = "\<lambda>n. run_ops (followup_step registered) s (map (\<lambda>i. (now, Debounced (drain_id s d i))) [0..<n])"
  obtain t out where t: "?run n = (t, out)" by (cases "?run n")
  have "?run (Suc n) = (fst (debounced registered now (drain_id s d n) t), out @ snd (debounced registered now (drain_id s d n) t))"
    using t by (simp add: run_ops_append case_prod_beta)
  then show ?case
    using Suc.IH stuck_step [of t key "drain_id s d n" now registered] t by (simp add: drain_id_def)
qed

text \<open>The end of a drain can make a queue unreachable. A drain keeps its queue when the queue is cleared; if a new queue of the
  same key has been made meanwhile, the end of the old drain deletes the registry entry and the callback of the
  key: the messages of the new queue stay in it, without a drain, and no later drain of the key finds them.\<close>

theorem stale_drain_forgets_queue:
  assumes dr: "mget (fs_drains s) d = Some dr" "heap_queue s (dr_queue dr) = Some q" "dr_phase dr = RunningItem i"
    and cleared: "q_items q = []" "qs_droppedCount q = 0"
    and new: "mget (fs_queues s) (dr_key dr) = Some a" "a \<noteq> dr_queue dr" "heap_queue s a = Some q'"
    and s': "s' = fst (run_settled now d True s)"
  shows "mget (fs_queues s') (dr_key dr) = None \<and> heap_queue s' a = Some q'
    \<and> scheduleFollowupDrain (dr_key dr) cb s' = s' \<and> waiting s' (dr_key dr) = []"
  using assms
  by (simp add: run_settled_def run_succeeded_def loop_head_def has_work_def finish_drain_def Let_def forget_key_def
      clearFollowupDrainCallback_def scheduleFollowupDrain_def waiting_def)


text \<open>Outside the collect mode a due summary takes the place of a queued message: the call is made with the summary prompt,
  for no message, and when it returns the first message is removed.\<close>

lemma summary_swallows_message:
  assumes dr: "mget (fs_drains s) d = Some dr" "dr_phase dr = Debouncing ms" and q: "heap_queue s (dr_queue dr) = Some q"
    and over: "debounce_over ms now q" and mode: "fq_mode q \<noteq> Collect" and items: "q_items q = i # rest"
    and due: "qs_dropPolicy q = Summarize" "0 < qs_droppedCount q" and run: "fq_lastRun q = Some r"
    and r1: "r1 = debounced registered now d s" and r2: "r2 = run_settled later d True (fst r1)"
  shows "(\<exists>call. snd r1 = [RunFollowup d (dr_callback dr) call []] \<and> Some (fr_prompt call) = summary_of q)
    \<and> (\<exists>q2. heap_queue (fst r2) (dr_queue dr) = Some q2 \<and> q_items q2 = rest) \<and> snd r2 = []"
proof -
  obtain p where p: "summary_of q = Some p" using due by (cases "summary_of q") (auto simp: summary_of_def preview_None_iff)
  let ?call = "(bare_run p r now)\<lparr> fr_channel := fr_channel i, fr_to := fr_to i, fr_accountId := fr_accountId i, fr_threadId := fr_threadId i \<rparr>"
  have e1: "r1 = (goto_phase d RunningSummaryItem dr s, [RunFollowup d (dr_callback dr) ?call []])"
    using dr q over mode items run p by (simp add: r1 debounced_def plain_body_def)
  have "r2 = (loop_head d (dr\<lparr> dr_phase := RunningSummaryItem \<rparr>) (clearQueueSummaryState (q\<lparr> q_items := rest \<rparr>)) (fst r1), [])"
    using q items by (simp add: r2 e1 run_settled_def run_succeeded_def goto_phase_def heap_queue_def)
  then show ?thesis
    using e1 p loop_head_items [of d "dr\<lparr> dr_phase := RunningSummaryItem \<rparr>" "clearQueueSummaryState (q\<lparr> q_items := rest \<rparr>)" "fst r1"]
    by (simp add: bare_run_def clearQueueSummaryState_def)
qed

section \<open>Witnesses\<close>

definition sample_context :: run_context where
  "sample_context = \<lparr> ru_sessionId = js ''s'', ru_sessionFile = js ''f'', ru_provider = js ''p'', ru_model = js ''m'',
     ru_authProfileId = None, ru_authProfileIdSource = None, ru_senderId = Some (js ''u''), ru_senderName = None,
     ru_senderUsername = None, ru_senderE164 = None, ru_senderIsOwner = None, ru_execOverrides = None, ru_bashElevated = None,
     ru_rest = VUndef \<rparr>"

definition sample_run :: "string \<Rightarrow> followup_run" where
  "sample_run prompt = bare_run (js prompt) sample_context 0"

definition enqueue_sample :: "string \<Rightarrow> nat \<Rightarrow> int \<times> followup_op" where
  "enqueue_sample prompt cap = (0, EnqueueRun (js ''k'') (sample_run prompt) (plain_settings cap) NoDedupe (Some 9) True)"

definition after_ops :: "(int \<times> followup_op) list \<Rightarrow> followup_state" where
  "after_ops ops = fst (run_ops (followup_step (\<lambda>c. True)) new_followup_state ops)"

text \<open>Reached from the empty state: a message that arrives while another one runs drops it.\<close>

definition stuck_state :: followup_state where
  "stuck_state = after_ops [enqueue_sample ''a'' 1, (0, Debounced 2), enqueue_sample ''b'' 1, (0, RunSettled 2 True)]"

theorem followup_livelock_witness:
  "let (t, out) = run_ops (followup_step (\<lambda>c. True)) stuck_state (map (\<lambda>i. (0, Debounced (drain_id stuck_state 2 i))) [0..<1000]) in
    out = [] \<and> fs_next t = fs_next stuck_state + 1000 \<and> mget (fs_drains t) (drain_id stuck_state 2 1000) \<noteq> None"
proof -
  have "summary_stuck stuck_state (js ''k'') 2 0" by code_simp
  from followup_livelock [OF this, of "\<lambda>c. True" 1000] show ?thesis
    by (auto simp: case_prod_beta Let_def summary_stuck_def split: option.splits)
qed

text \<open>A queue of capacity two, its first message with the callback; a third message arrives and the second is gone.\<close>

definition full_state :: followup_state where
  "full_state = after_ops [enqueue_sample ''a'' 2, enqueue_sample ''b'' 2, (0, Debounced 2)]"

theorem inflight_overflow_loses_message_witness:
  "\<exists>q2. heap_queue (fst (run_settled 0 2 True (snd (enqueueFollowupRun 0 (js ''k'') (sample_run ''c'')
       \<lparr> set_mode = Followup, set_debounceMs = None, set_cap = None, set_dropPolicy = None \<rparr> NoDedupe None False full_state)))) 1 = Some q2
     \<and> q_items q2 = [sample_run ''c'']"
proof -
  let ?q = "the (heap_queue full_state 1)" and ?d = "the (mget (fs_drains full_state) 2)"
  let ?st = "\<lparr> set_mode = fq_mode ?q, set_debounceMs = None, set_cap = None, set_dropPolicy = None \<rparr>"
  have mode: "fq_mode ?q = Followup" by code_simp
  have "heap_queue full_state 1 \<noteq> None" "mget (fs_drains full_state) 2 \<noteq> None" by code_simp+
  then have q: "heap_queue full_state 1 = Some ?q" and d: "mget (fs_drains full_state) 2 = Some ?d" by auto
  have key: "mget (fs_queues full_state) (js ''k'') = Some 1" by code_simp
  have dr: "dr_queue ?d = 1" "dr_phase ?d = RunningItem (sample_run ''a'')" by code_simp+
  have full: "q_items ?q = sample_run ''a'' # [sample_run ''b'']" "q_cap ?q = Fin (of_nat (length (q_items ?q)))" "qs_dropPolicy ?q \<noteq> DropNew"
    by code_simp+
  show ?thesis
    using inflight_overflow_loses_message [OF q key d dr full refl refl refl, where r = "sample_run ''c''" and now = 0 and later = 0]
    unfolding mode by simp
qed

text \<open>The queue of a key is cleared during a run and a new message arrives without a restart, as the caller of
  \<open>enqueueFollowupRun\<close> in \<open>agent-runner.ts\<close> does; then the run ends.\<close>

definition replaced_state :: followup_state where
  "replaced_state = after_ops [enqueue_sample ''a'' 2, (0, Debounced 2), (0, ClearQueue (js ''k'')),
     (0, EnqueueRun (js ''k'') (sample_run ''b'') (plain_settings 2) NoDedupe (Some 9) False)]"

theorem stale_drain_forgets_queue_witness:
  "waiting replaced_state (js ''k'') = [sample_run ''b'']
   \<and> waiting (fst (run_settled 0 2 True replaced_state)) (js ''k'') = []
   \<and> scheduleFollowupDrain (js ''k'') 9 (fst (run_settled 0 2 True replaced_state)) = fst (run_settled 0 2 True replaced_state)"
proof -
  let ?d = "the (mget (fs_drains replaced_state) 2)" and ?q = "the (heap_queue replaced_state 1)" and ?q' = "the (heap_queue replaced_state 3)"
  have "mget (fs_drains replaced_state) 2 \<noteq> None" "heap_queue replaced_state 1 \<noteq> None" "heap_queue replaced_state 3 \<noteq> None"
    by code_simp+
  moreover have dr: "dr_queue ?d = 1" "dr_key ?d = js ''k''" "dr_phase ?d = RunningItem (sample_run ''a'')" by code_simp+
  ultimately have s: "mget (fs_drains replaced_state) 2 = Some ?d" "heap_queue replaced_state (dr_queue ?d) = Some ?q" "heap_queue replaced_state 3 = Some ?q'"
    by auto
  have c: "q_items ?q = []" "qs_droppedCount ?q = 0" by code_simp+
  have n: "mget (fs_queues replaced_state) (dr_key ?d) = Some 3" "3 \<noteq> dr_queue ?d" unfolding dr by code_simp+
  have "waiting replaced_state (js ''k'') = [sample_run ''b'']" by code_simp
  then show ?thesis
    using stale_drain_forgets_queue [OF s(1,2) dr(3) c n s(3) refl, where cb = 9 and now = 0] dr(2) by simp
qed

end
