(* ===== verification/IpAddress.thy ===== *)
theory IpAddress
  imports StringCoerce
begin

text \<open>
  Address parsing and classification of \<open>src/src/shared/net/ip.ts\<close>: canonical and loose parsing, addresses with an
  embedded IPv4 address, the ranges that are private or blocked, and membership in a CIDR block.

  \<open>ipaddr.js\<close> and \<open>net.isIP\<close> are not part of the repository: they are a record of functions, an argument of every
  definition.  An address is a list of octets or of 16-bit groups, as the library's objects have
  them (\<open>octets\<close>, \<open>parts\<close>).
\<close>

section \<open>The library\<close>

datatype ip_address = IPv4 "8 word list" | IPv6 "16 word list" "jsstr option"

record ip_library =
  v4_isValid :: "jsstr \<Rightarrow> bool"
  v4_isValidFourPartDecimal :: "jsstr \<Rightarrow> bool"
  v4_parse :: "jsstr \<Rightarrow> 8 word list"
  v6_isValid :: "jsstr \<Rightarrow> bool"
  v6_parse :: "jsstr \<Rightarrow> ip_address"
  ip_isValid :: "jsstr \<Rightarrow> bool"
  ip_parse :: "jsstr \<Rightarrow> ip_address"
  ip_parseCIDR :: "jsstr \<Rightarrow> (ip_address \<times> int) option"
  ip_match :: "ip_address \<Rightarrow> ip_address \<times> int \<Rightarrow> bool option"
  ip_range :: "ip_address \<Rightarrow> string"
  ip_toString :: "ip_address \<Rightarrow> jsstr"
  isIPv4MappedAddress :: "ip_address \<Rightarrow> bool"
  toIPv4Address :: "ip_address \<Rightarrow> 8 word list"
  net_isIP :: "jsstr \<Rightarrow> nat"

unbundle bit_operations_syntax

section \<open>Parsing\<close>

definition ends_with :: "jsstr \<Rightarrow> jschar \<Rightarrow> bool" where
  "ends_with s c \<longleftrightarrow> s \<noteq> [] \<and> last s = c"

definition stripIpv6Brackets :: "jsstr \<Rightarrow> jsstr" where
  "stripIpv6Brackets v = (if starts_with v (js ''['') \<and> ends_with v 0x5D then butlast (tl v) else v)"

definition hex_digit_char :: "jschar \<Rightarrow> bool" where
  "hex_digit_char c \<longleftrightarrow> is_digit c \<or> (0x61 \<le> c \<and> c \<le> 0x66) \<or> (0x41 \<le> c \<and> c \<le> 0x46)"

definition isNumericIpv4LiteralPart :: "jsstr \<Rightarrow> bool" where
  "isNumericIpv4LiteralPart v \<longleftrightarrow> (v \<noteq> [] \<and> list_all is_digit v)
     \<or> (toLowerCase (take 2 v) = js ''0x'' \<and> drop 2 v \<noteq> [] \<and> list_all hex_digit_char (drop 2 v))"

text \<open>The regular expression \<open>[^:%]+(?:\.[^:%]+){n}\<close>, on the whole string.\<close>

fun dotted :: "nat \<Rightarrow> jsstr \<Rightarrow> bool" where
  "dotted 0 s \<longleftrightarrow> s \<noteq> [] \<and> 0x3A \<notin> set s \<and> 0x25 \<notin> set s"
| "dotted (Suc n) s \<longleftrightarrow> list_ex (\<lambda>i. s ! i = 0x2E \<and> dotted 0 (take i s) \<and> dotted n (drop (Suc i) s)) [0..<length s]"

definition alnum :: "jschar \<Rightarrow> bool" where
  "alnum c \<longleftrightarrow> is_digit c \<or> (0x41 \<le> c \<and> c \<le> 0x5A) \<or> (0x61 \<le> c \<and> c \<le> 0x7A)"

text \<open>What the expression of \<open>parseIpv6WithEmbeddedIpv4\<close> matches: the text up to the last colon, an address in dots, and a
  zone.  The dot of \<open>.*\<close> matches no line terminator.\<close>

definition line_terminator :: "jschar \<Rightarrow> bool" where
  "line_terminator c \<longleftrightarrow> c = 0x0A \<or> c = 0x0D \<or> c = 0x2028 \<or> c = 0x2029"

definition embedded_match :: "jsstr \<Rightarrow> (jsstr \<times> jsstr \<times> jsstr) option" where
  "embedded_match raw =
    (let tail = rev (takeWhile (\<lambda>c. c \<noteq> 0x3A) (rev raw));
         prefix = take (length raw - length tail) raw;
         addr = takeWhile (\<lambda>c. c \<noteq> 0x25) tail;
         zone = drop (length addr) tail
     in if prefix \<noteq> [] \<and> \<not> list_ex line_terminator prefix \<and> dotted 3 addr
           \<and> (zone = [] \<or> (tl zone \<noteq> [] \<and> list_all alnum (tl zone)))
        then Some (prefix, addr, zone) else None)"

fun hex_str :: "nat \<Rightarrow> jsstr" where
  "hex_str n = (let d = (\<lambda>k. if k < 10 then 0x30 + of_nat k else 0x57 + of_nat k) in
     if n < 16 then [d n] else hex_str (n div 16) @ [d (n mod 16)])"

declare hex_str.simps [simp del]

definition pair_value :: "nat \<Rightarrow> nat \<Rightarrow> nat" where
  "pair_value a b = a * 256 + b"

definition parseIpv6WithEmbeddedIpv4 :: "ip_library \<Rightarrow> jsstr \<Rightarrow> ip_address option" where
  "parseIpv6WithEmbeddedIpv4 L raw =
    (if \<not> (0x3A \<in> set raw) \<or> \<not> (0x2E \<in> set raw) then None
     else (case embedded_match raw of
       None \<Rightarrow> None
     | Some (prefix, addr, zone) \<Rightarrow>
        if \<not> v4_isValidFourPartDecimal L addr then None
        else (let octets = map digits_val (split_on 0x2E addr);
                  v = prefix @ hex_str (pair_value (octets ! 0) (octets ! 1)) @ js '':'' @
                      hex_str (pair_value (octets ! 2) (octets ! 3)) @ zone
              in if v6_isValid L v then Some (v6_parse L v) else None)))"

definition isIpv4Address :: "ip_address \<Rightarrow> bool" where
  "isIpv4Address a = (case a of IPv4 _ \<Rightarrow> True | IPv6 _ _ \<Rightarrow> False)"

definition normalizeIpv4MappedAddress :: "ip_library \<Rightarrow> ip_address \<Rightarrow> ip_address" where
  "normalizeIpv4MappedAddress L a =
    (if isIpv4Address a then a else if \<not> isIPv4MappedAddress L a then a else IPv4 (toIPv4Address L a))"

definition normalizeIpParseInput :: "jsstr option \<Rightarrow> jsstr option" where
  "normalizeIpParseInput raw = map_option stripIpv6Brackets (normalizeOptionalString raw)"

definition parseCanonicalIpAddress :: "ip_library \<Rightarrow> jsstr option \<Rightarrow> ip_address option" where
  "parseCanonicalIpAddress L raw = (case normalizeIpParseInput raw of
     None \<Rightarrow> None
   | Some s \<Rightarrow>
      if s = [] then None
      else if v4_isValid L s
      then (if \<not> v4_isValidFourPartDecimal L s then None else Some (IPv4 (v4_parse L s)))
      else if v6_isValid L s then Some (v6_parse L s)
      else parseIpv6WithEmbeddedIpv4 L s)"

definition parseLooseIpAddress :: "ip_library \<Rightarrow> jsstr option \<Rightarrow> ip_address option" where
  "parseLooseIpAddress L raw = (case normalizeIpParseInput raw of
     None \<Rightarrow> None
   | Some s \<Rightarrow> if s = [] then None else if ip_isValid L s then Some (ip_parse L s) else parseIpv6WithEmbeddedIpv4 L s)"

definition normalizeIpAddress :: "ip_library \<Rightarrow> jsstr option \<Rightarrow> jsstr option" where
  "normalizeIpAddress L raw = (case parseCanonicalIpAddress L raw of
     None \<Rightarrow> None
   | Some a \<Rightarrow> Some (toLowerCase (trim (ip_toString L (normalizeIpv4MappedAddress L a)))))"

definition isCanonicalDottedDecimalIPv4 :: "ip_library \<Rightarrow> jsstr option \<Rightarrow> bool" where
  "isCanonicalDottedDecimalIPv4 L raw = (case normalizeOptionalString raw of
     None \<Rightarrow> False
   | Some t \<Rightarrow> stripIpv6Brackets t \<noteq> [] \<and> v4_isValidFourPartDecimal L (stripIpv6Brackets t))"

definition isLegacyIpv4Literal :: "ip_library \<Rightarrow> jsstr option \<Rightarrow> bool" where
  "isLegacyIpv4Literal L raw = (case normalizeOptionalString raw of
     None \<Rightarrow> False
   | Some t \<Rightarrow> (let s = stripIpv6Brackets t; parts = split_on 0x2E s in
       s \<noteq> [] \<and> 0x3A \<notin> set s \<and> \<not> isCanonicalDottedDecimalIPv4 L (Some s)
       \<and> parts \<noteq> [] \<and> length parts \<le> 4 \<and> \<not> list_ex (\<lambda>p. p = []) parts \<and> list_all isNumericIpv4LiteralPart parts))"

section \<open>Classification\<close>

definition PRIVATE_OR_LOOPBACK_IPV4_RANGES :: "string list" where
  "PRIVATE_OR_LOOPBACK_IPV4_RANGES = [''loopback'', ''private'', ''linkLocal'', ''carrierGradeNat'']"

definition BLOCKED_IPV4_SPECIAL_USE_RANGES :: "string list" where
  "BLOCKED_IPV4_SPECIAL_USE_RANGES = [''unspecified'', ''broadcast'', ''multicast'', ''linkLocal'', ''loopback'',
     ''carrierGradeNat'', ''private'', ''reserved'']"

definition BLOCKED_IPV6_SPECIAL_USE_RANGES :: "string list" where
  "BLOCKED_IPV6_SPECIAL_USE_RANGES = [''unspecified'', ''loopback'', ''linkLocal'', ''uniqueLocal'', ''multicast'',
     ''reserved'', ''benchmarking'', ''discard'', ''orchid2'']"

definition ip_parts :: "ip_address \<Rightarrow> 16 word list" where
  "ip_parts a = (case a of IPv6 parts _ \<Rightarrow> parts | IPv4 _ \<Rightarrow> [])"

definition isLoopbackIpAddress :: "ip_library \<Rightarrow> jsstr option \<Rightarrow> bool" where
  "isLoopbackIpAddress L raw = (case parseCanonicalIpAddress L raw of
     None \<Rightarrow> False | Some a \<Rightarrow> ip_range L (normalizeIpv4MappedAddress L a) = ''loopback'')"

definition isBlockedSpecialUseIpv6Address :: "ip_library \<Rightarrow> ip_address \<Rightarrow> bool" where
  "isBlockedSpecialUseIpv6Address L a \<longleftrightarrow>
     ip_range L a \<in> set BLOCKED_IPV6_SPECIAL_USE_RANGES \<or> (ip_parts a ! 0) AND 0xffc0 = 0xfec0"

definition isPrivateOrLoopbackIpAddress :: "ip_library \<Rightarrow> jsstr option \<Rightarrow> bool" where
  "isPrivateOrLoopbackIpAddress L raw = (case parseCanonicalIpAddress L raw of
     None \<Rightarrow> False
   | Some p \<Rightarrow> (let a = normalizeIpv4MappedAddress L p in
       if isIpv4Address a then ip_range L a \<in> set PRIVATE_OR_LOOPBACK_IPV4_RANGES
       else isBlockedSpecialUseIpv6Address L a))"

definition isRfc1918Ipv4Address :: "ip_library \<Rightarrow> jsstr option \<Rightarrow> bool" where
  "isRfc1918Ipv4Address L raw = (case parseCanonicalIpAddress L raw of
     None \<Rightarrow> False | Some a \<Rightarrow> isIpv4Address a \<and> ip_range L a = ''private'')"

definition isCarrierGradeNatIpv4Address :: "ip_library \<Rightarrow> jsstr option \<Rightarrow> bool" where
  "isCarrierGradeNatIpv4Address L raw = (case parseCanonicalIpAddress L raw of
     None \<Rightarrow> False | Some a \<Rightarrow> isIpv4Address a \<and> ip_range L a = ''carrierGradeNat'')"

definition RFC2544_BENCHMARK_PREFIX :: "ip_library \<Rightarrow> ip_address \<times> int" where
  "RFC2544_BENCHMARK_PREFIX L = (IPv4 (v4_parse L (js ''198.18.0.0'')), 15)"

definition isBlockedSpecialUseIpv4Address :: "ip_library \<Rightarrow> bool \<Rightarrow> ip_address \<Rightarrow> bool" where
  "isBlockedSpecialUseIpv4Address L allowBenchmark a =
    (let inBenchmark = (ip_match L a (RFC2544_BENCHMARK_PREFIX L) = Some True) in
     if inBenchmark \<and> allowBenchmark then False
     else ip_range L a \<in> set BLOCKED_IPV4_SPECIAL_USE_RANGES \<or> inBenchmark)"

section \<open>Embedded IPv4 addresses\<close>

definition octet_of :: "16 word \<Rightarrow> nat" where
  "octet_of w = unat (w AND 0xff)"

definition decodeIpv4FromHextets :: "ip_library \<Rightarrow> 16 word \<Rightarrow> 16 word \<Rightarrow> ip_address" where
  "decodeIpv4FromHextets L high low =
    (let octets = [octet_of (drop_bit 8 high), octet_of high, octet_of (drop_bit 8 low), octet_of low]
     in IPv4 (v4_parse L (join [0x2E] (map nat_str octets))))"

text \<open>\<open>EMBEDDED_IPV4_SENTINEL_RULES\<close>: the test and the two groups of each rule, in order.\<close>

definition EMBEDDED_IPV4_SENTINEL_RULES :: "((16 word list \<Rightarrow> bool) \<times> (16 word list \<Rightarrow> 16 word \<times> 16 word)) list" where
  "EMBEDDED_IPV4_SENTINEL_RULES =
    [(\<lambda>p. p!0 = 0 \<and> p!1 = 0 \<and> p!2 = 0 \<and> p!3 = 0 \<and> p!4 = 0 \<and> p!5 = 0, \<lambda>p. (p!6, p!7)),
     (\<lambda>p. p!0 = 0x0064 \<and> p!1 = 0xff9b \<and> p!2 = 0x0001 \<and> p!3 = 0 \<and> p!4 = 0 \<and> p!5 = 0, \<lambda>p. (p!6, p!7)),
     (\<lambda>p. p!0 = 0x2002, \<lambda>p. (p!1, p!2)),
     (\<lambda>p. p!0 = 0x2001 \<and> p!1 = 0x0000, \<lambda>p. (p!6 XOR 0xffff, p!7 XOR 0xffff)),
     (\<lambda>p. p!4 AND 0xfcff = 0 \<and> p!5 = 0x5efe, \<lambda>p. (p!6, p!7))]"

definition extractEmbeddedIpv4FromIpv6 :: "ip_library \<Rightarrow> ip_address \<Rightarrow> ip_address option" where
  "extractEmbeddedIpv4FromIpv6 L a =
    (if isIPv4MappedAddress L a then Some (IPv4 (toIPv4Address L a))
     else (let p = ip_parts a in
       if ip_range L a = ''rfc6145'' then Some (decodeIpv4FromHextets L (p!6) (p!7))
       else if ip_range L a = ''rfc6052'' then Some (decodeIpv4FromHextets L (p!6) (p!7))
       else (case find (\<lambda>rule. fst rule p) EMBEDDED_IPV4_SENTINEL_RULES of
         None \<Rightarrow> None
       | Some rule \<Rightarrow> (let (high, low) = snd rule p in Some (decodeIpv4FromHextets L high low)))))"

section \<open>CIDR blocks\<close>

definition same_kind :: "ip_address \<Rightarrow> ip_address \<Rightarrow> bool" where
  "same_kind a b \<longleftrightarrow> isIpv4Address a = isIpv4Address b"

definition isIpInCidr :: "ip_library \<Rightarrow> jsstr \<Rightarrow> jsstr \<Rightarrow> bool" where
  "isIpInCidr L ip cidr = (case parseCanonicalIpAddress L (Some ip) of
     None \<Rightarrow> False
   | Some n \<Rightarrow> (let candidate = trim cidr; x = normalizeIpv4MappedAddress L n in
       if candidate = [] then False
       else if 0x2F \<notin> set candidate
       then (case parseCanonicalIpAddress L (Some candidate) of
           None \<Rightarrow> False
         | Some e \<Rightarrow> (let y = normalizeIpv4MappedAddress L e in same_kind x y \<and> ip_toString L x = ip_toString L y))
       else (case ip_parseCIDR L candidate of
           None \<Rightarrow> False
         | Some (base, prefixLength) \<Rightarrow> (let y = normalizeIpv4MappedAddress L base in
             same_kind x y \<and> ip_match L x (y, prefixLength) = Some True))))"

end
