(* ===== verification/ClientAddress.thy ===== *)
theory ClientAddress
  imports IpAddress TextRules
begin

text \<open>
  Hosts and client addresses of the gateway, \<open>src/src/gateway/net.ts\<close>, with the interface tables of
  \<open>src/src/infra/network-interfaces.ts\<close> and \<open>src/src/infra/tailnet.ts\<close>: which address a request is taken to come
  from, which hosts are local, which host the gateway binds to.

  The table of interfaces, the parsed URL, the files a container leaves and the outcome of a test bind are
  arguments.  The lemmas show what the client-origin headers can and cannot change.
\<close>

section \<open>Network interfaces\<close>

record interface_entry =
  if_address :: "jsstr option"
  if_family :: jsval
  if_internal :: bool

type_synonym interfaces = "(jsstr \<times> interface_entry list option) list"

datatype if_family = FamilyIPv4 | FamilyIPv6

record external_address =
  ex_name :: jsstr
  ex_address :: jsstr
  ex_family :: if_family

definition normalizeNetworkInterfaceFamily :: "jsval \<Rightarrow> if_family option" where
  "normalizeNetworkInterfaceFamily family =
    (if family = VStr (js ''IPv4'') \<or> family = VNum (Fin 4) then Some FamilyIPv4
     else if family = VStr (js ''IPv6'') \<or> family = VNum (Fin 6) then Some FamilyIPv6
     else None)"

definition external_entry :: "if_family option \<Rightarrow> jsstr \<Rightarrow> interface_entry \<Rightarrow> external_address option" where
  "external_entry family name e =
    (if if_internal e then None
     else (case normalizeOptionalString (if_address e) of
       None \<Rightarrow> None
     | Some address \<Rightarrow> (case normalizeNetworkInterfaceFamily (if_family e) of
         None \<Rightarrow> None
       | Some f \<Rightarrow>
          if (case family of None \<Rightarrow> False | Some wanted \<Rightarrow> f \<noteq> wanted) then None
          else Some \<lparr> ex_name = name, ex_address = address, ex_family = f \<rparr>)))"

definition listExternalInterfaceAddresses :: "interfaces option \<Rightarrow> if_family option \<Rightarrow> external_address list" where
  "listExternalInterfaceAddresses snapshot family = (case snapshot of
     None \<Rightarrow> []
   | Some table \<Rightarrow> concat (map (\<lambda>(name, entries). case entries of
         None \<Rightarrow> [] | Some es \<Rightarrow> List.map_filter (external_entry family name) es) table))"

fun pick_preferred :: "(jsstr \<Rightarrow> bool) \<Rightarrow> external_address list \<Rightarrow> jsstr list \<Rightarrow> jsstr option" where
  "pick_preferred matches addresses [] = None"
| "pick_preferred matches addresses (name # names) =
    (case find (\<lambda>e. ex_name e = name \<and> matches (ex_address e)) addresses of
       Some preferred \<Rightarrow> Some (ex_address preferred)
     | None \<Rightarrow> pick_preferred matches addresses names)"

definition pickMatchingExternalInterfaceAddress ::
    "interfaces option \<Rightarrow> if_family \<Rightarrow> jsstr list \<Rightarrow> (jsstr \<Rightarrow> bool) \<Rightarrow> jsstr option" where
  "pickMatchingExternalInterfaceAddress snapshot family preferredNames matches =
    (let addresses = listExternalInterfaceAddresses snapshot (Some family) in
     (case pick_preferred matches addresses preferredNames of
        Some a \<Rightarrow> Some a
      | None \<Rightarrow> map_option ex_address (find (\<lambda>e. matches (ex_address e)) addresses)))"

definition TAILNET_IPV4_CIDR :: jsstr where
  "TAILNET_IPV4_CIDR = js ''100.64.0.0/10''"

definition TAILNET_IPV6_CIDR :: jsstr where
  "TAILNET_IPV6_CIDR = js ''fd7a:115c:a1e0::/48''"

definition isTailnetIPv4 :: "ip_library \<Rightarrow> jsstr \<Rightarrow> bool" where
  "isTailnetIPv4 L address = isIpInCidr L address TAILNET_IPV4_CIDR"

definition isTailnetIPv6 :: "ip_library \<Rightarrow> jsstr \<Rightarrow> bool" where
  "isTailnetIPv6 L address = isIpInCidr L address TAILNET_IPV6_CIDR"

definition listTailnetAddresses :: "ip_library \<Rightarrow> interfaces \<Rightarrow> jsstr list \<times> jsstr list" where
  "listTailnetAddresses L table =
    (let es = listExternalInterfaceAddresses (Some table) None in
     (foldl sadd [] (map ex_address (filter (\<lambda>e. ex_family e = FamilyIPv4 \<and> isTailnetIPv4 L (ex_address e)) es)),
      foldl sadd [] (map ex_address (filter (\<lambda>e. ex_family e = FamilyIPv6 \<and> isTailnetIPv6 L (ex_address e)) es))))"

definition first_of :: "'a list \<Rightarrow> 'a option" where
  "first_of xs = (case xs of [] \<Rightarrow> None | x # _ \<Rightarrow> Some x)"

definition pickPrimaryTailnetIPv4 :: "ip_library \<Rightarrow> interfaces \<Rightarrow> jsstr option" where
  "pickPrimaryTailnetIPv4 L table = first_of (fst (listTailnetAddresses L table))"

definition pickPrimaryTailnetIPv6 :: "ip_library \<Rightarrow> interfaces \<Rightarrow> jsstr option" where
  "pickPrimaryTailnetIPv6 L table = first_of (snd (listTailnetAddresses L table))"

definition pickPrimaryLanIPv4 :: "interfaces \<Rightarrow> jsstr option" where
  "pickPrimaryLanIPv4 table =
    pickMatchingExternalInterfaceAddress (Some table) FamilyIPv4 [js ''en0'', js ''eth0''] (\<lambda>_. True)"

section \<open>Host names\<close>

definition normalizeHostHeader :: "jsstr option \<Rightarrow> jsstr" where
  "normalizeHostHeader hostHeader = normalizeLowercaseStringOrEmpty hostHeader"

text \<open>\<open>slice(1, indexOf("]"))\<close> of a text that starts with a bracket, when it has a closing one.\<close>

definition bracketed :: "jsstr \<Rightarrow> jsstr option" where
  "bracketed s = (if starts_with s (js ''['') \<and> 0x5D \<in> set s then Some (takeWhile (\<lambda>c. c \<noteq> 0x5D) (tl s)) else None)"

definition resolveHostName :: "ip_library \<Rightarrow> jsstr option \<Rightarrow> jsstr" where
  "resolveHostName L hostHeader =
    (let host = normalizeHostHeader hostHeader in
     if host = [] then []
     else (case bracketed host of
       Some name \<Rightarrow> name
     | None \<Rightarrow> if net_isIP L host = 6 then host else hd (split_on 0x3A host)))"

definition isLoopbackAddress :: "ip_library \<Rightarrow> jsstr option \<Rightarrow> bool" where
  "isLoopbackAddress L ip = isLoopbackIpAddress L ip"

definition isPrivateOrLoopbackAddress :: "ip_library \<Rightarrow> jsstr option \<Rightarrow> bool" where
  "isPrivateOrLoopbackAddress L ip = isPrivateOrLoopbackIpAddress L ip"

text \<open>A text that is used only when it is truthy.\<close>

definition present :: "jsstr option \<Rightarrow> jsstr option" where
  "present v = (case v of Some s \<Rightarrow> if s = [] then None else Some s | None \<Rightarrow> None)"

definition normalizeIp :: "ip_library \<Rightarrow> jsstr option \<Rightarrow> jsstr option" where
  "normalizeIp L ip = normalizeIpAddress L ip"

section \<open>The client address of a request\<close>

definition stripOptionalPort :: "ip_library \<Rightarrow> jsstr \<Rightarrow> jsstr" where
  "stripOptionalPort L ip = (case bracketed ip of
     Some inner \<Rightarrow> inner
   | None \<Rightarrow>
      if net_isIP L ip \<noteq> 0 then ip
      else if count_list ip 0x3A = 1 \<and> 0x2E \<in> set ip
      then (let candidate = takeWhile (\<lambda>c. c \<noteq> 0x3A) ip in if net_isIP L candidate = 4 then candidate else ip)
      else ip)"

definition parseIpLiteral :: "ip_library \<Rightarrow> jsstr option \<Rightarrow> jsstr option" where
  "parseIpLiteral L raw = (case present (map_option trim raw) of
     None \<Rightarrow> None
   | Some trimmed \<Rightarrow> (case present (normalizeIp L (Some (stripOptionalPort L trimmed))) of
       None \<Rightarrow> None
     | Some normalized \<Rightarrow> if net_isIP L normalized = 0 then None else Some normalized))"

definition parseRealIp :: "ip_library \<Rightarrow> jsstr option \<Rightarrow> jsstr option" where
  "parseRealIp L realIp = parseIpLiteral L realIp"

definition isTrustedProxyAddress :: "ip_library \<Rightarrow> jsstr option \<Rightarrow> jsstr list option \<Rightarrow> bool" where
  "isTrustedProxyAddress L ip trustedProxies = (case present (normalizeIp L ip) of
     None \<Rightarrow> False
   | Some normalized \<Rightarrow> (case trustedProxies of
       None \<Rightarrow> False
     | Some proxies \<Rightarrow> list_ex (\<lambda>proxy. trim proxy \<noteq> [] \<and> isIpInCidr L normalized (trim proxy)) proxies))"

definition forwarded_chain :: "ip_library \<Rightarrow> jsstr option \<Rightarrow> jsstr list" where
  "forwarded_chain L forwardedFor = (case forwardedFor of
     None \<Rightarrow> []
   | Some s \<Rightarrow> List.map_filter (\<lambda>entry. parseIpLiteral L (Some entry)) (split_on 0x2C s))"

definition untrusted_hop :: "ip_library \<Rightarrow> jsstr list option \<Rightarrow> jsstr \<Rightarrow> bool" where
  "untrusted_hop L trustedProxies hop \<longleftrightarrow>
    \<not> isLoopbackAddress L (Some hop) \<and> \<not> isTrustedProxyAddress L (Some hop) trustedProxies"

definition resolveForwardedClientIp :: "ip_library \<Rightarrow> jsstr option \<Rightarrow> jsstr list option \<Rightarrow> jsstr option" where
  "resolveForwardedClientIp L forwardedFor trustedProxies =
    (case trustedProxies of
       None \<Rightarrow> None
     | Some proxies \<Rightarrow> if proxies = [] then None
         else find (untrusted_hop L trustedProxies) (rev (forwarded_chain L forwardedFor)))"

record client_params =
  cp_remoteAddr :: "jsstr option"
  cp_forwardedFor :: "jsstr option"
  cp_realIp :: "jsstr option"
  cp_trustedProxies :: "jsstr list option"
  cp_allowRealIpFallback :: bool

definition resolveClientIp :: "ip_library \<Rightarrow> client_params \<Rightarrow> jsstr option" where
  "resolveClientIp L p = (case present (normalizeIp L (cp_remoteAddr p)) of
     None \<Rightarrow> None
   | Some remote \<Rightarrow>
      if \<not> isTrustedProxyAddress L (Some remote) (cp_trustedProxies p) then Some remote
      else (case resolveForwardedClientIp L (cp_forwardedFor p) (cp_trustedProxies p) of
        Some forwardedIp \<Rightarrow> Some forwardedIp
      | None \<Rightarrow> if cp_allowRealIpFallback p then parseRealIp L (cp_realIp p) else None))"

text \<open>A header is absent, one text, or a list of texts.\<close>

datatype header_value = HAbsent | HText jsstr | HList "jsstr list"

definition headerValue :: "header_value \<Rightarrow> jsstr option" where
  "headerValue v = (case v of HAbsent \<Rightarrow> None | HText s \<Rightarrow> Some s | HList ss \<Rightarrow> first_of ss)"

record http_request =
  rq_remoteAddress :: "jsstr option"
  rq_forwarded :: header_value
  rq_real_ip :: header_value

definition resolveRequestClientIp :: "ip_library \<Rightarrow> http_request option \<Rightarrow> jsstr list option \<Rightarrow> bool \<Rightarrow> jsstr option" where
  "resolveRequestClientIp L req trustedProxies allowRealIpFallback = (case req of
     None \<Rightarrow> None
   | Some r \<Rightarrow> resolveClientIp L
      \<lparr> cp_remoteAddr = Some (case rq_remoteAddress r of None \<Rightarrow> [] | Some a \<Rightarrow> a),
        cp_forwardedFor = headerValue (rq_forwarded r), cp_realIp = headerValue (rq_real_ip r),
        cp_trustedProxies = trustedProxies, cp_allowRealIpFallback = allowRealIpFallback \<rparr>)"

definition isLocalGatewayAddress :: "ip_library \<Rightarrow> interfaces \<Rightarrow> jsstr option \<Rightarrow> bool" where
  "isLocalGatewayAddress L table ip =
    (if isLoopbackAddress L ip then True
     else (case present ip of
       None \<Rightarrow> False
     | Some _ \<Rightarrow> (case present (normalizeIp L ip) of
         None \<Rightarrow> False
       | Some normalized \<Rightarrow>
          (case present (pickPrimaryTailnetIPv4 L table) of None \<Rightarrow> False | Some t \<Rightarrow> normalized = normalizeLowercaseStringOrEmpty (Some t))
          \<or> (case present (pickPrimaryTailnetIPv6 L table) of None \<Rightarrow> False | Some t \<Rightarrow> normalizeLowercaseStringOrEmpty ip = normalizeLowercaseStringOrEmpty (Some t)))))"

section \<open>Local and private hosts\<close>

record host_check =
  hc_isLocalhost :: bool
  hc_unbracketedHost :: jsstr

definition strip_dots :: "jsstr \<Rightarrow> jsstr" where
  "strip_dots s = rev (dropWhile (\<lambda>c. c = 0x2E) (rev s))"

definition parseHostForAddressChecks :: "jsstr \<Rightarrow> host_check option" where
  "parseHostForAddressChecks host =
    (if host = [] then None
     else (let normalizedHost = normalizeLowercaseStringOrEmpty (Some host); canonicalHost = strip_dots normalizedHost in
       if canonicalHost = js ''localhost'' then Some \<lparr> hc_isLocalhost = True, hc_unbracketedHost = canonicalHost \<rparr>
       else Some \<lparr> hc_isLocalhost = False, hc_unbracketedHost = stripIpv6Brackets normalizedHost \<rparr>))"

definition isLoopbackHost :: "ip_library \<Rightarrow> jsstr \<Rightarrow> bool" where
  "isLoopbackHost L host = (case parseHostForAddressChecks host of
     None \<Rightarrow> False
   | Some parsed \<Rightarrow> if hc_isLocalhost parsed then True else isLoopbackAddress L (Some (hc_unbracketedHost parsed)))"

definition str_ends_with :: "jsstr \<Rightarrow> jsstr \<Rightarrow> bool" where
  "str_ends_with s t \<longleftrightarrow> length t \<le> length s \<and> take_last (length t) s = t"

definition isLocalishHost :: "ip_library \<Rightarrow> jsstr option \<Rightarrow> bool" where
  "isLocalishHost L hostHeader =
    (let host = resolveHostName L hostHeader in
     if host = [] then False else isLoopbackHost L host \<or> str_ends_with host (js ''.ts.net''))"

definition isPrivateOrLoopbackHost :: "ip_library \<Rightarrow> jsstr \<Rightarrow> bool" where
  "isPrivateOrLoopbackHost L host = (case parseHostForAddressChecks host of
     None \<Rightarrow> False
   | Some parsed \<Rightarrow>
      if hc_isLocalhost parsed then True
      else (case present (normalizeIp L (Some (hc_unbracketedHost parsed))) of
        None \<Rightarrow> False
      | Some normalized \<Rightarrow>
         if \<not> isPrivateOrLoopbackAddress L (Some normalized) then False
         else if net_isIP L normalized = 6
         then (if starts_with normalized (js ''ff'') then False else normalized \<noteq> js ''::'')
         else True))"

text \<open>What \<open>new URL\<close> makes of a text; \<open>None\<close> when it throws.\<close>

record url_parts =
  url_protocol :: jsstr
  url_hostname :: jsstr

definition ws_protocol :: "jsstr \<Rightarrow> jsstr" where
  "ws_protocol protocol =
    (if protocol = js ''https:'' then js ''wss:'' else if protocol = js ''http:'' then js ''ws:'' else protocol)"

definition isSecureWebSocketUrl :: "ip_library \<Rightarrow> (jsstr \<Rightarrow> url_parts option) \<Rightarrow> jsstr \<Rightarrow> bool \<Rightarrow> bool" where
  "isSecureWebSocketUrl L parse_url url allowPrivateWs = (case parse_url url of
     None \<Rightarrow> False
   | Some parsed \<Rightarrow> (let protocol = ws_protocol (url_protocol parsed); hostname = url_hostname parsed in
       if protocol = js ''wss:'' then True
       else if protocol \<noteq> js ''ws:'' then False
       else if isLoopbackHost L hostname then True
       else if allowPrivateWs
       then (if isPrivateOrLoopbackHost L hostname then True else net_isIP L (stripIpv6Brackets hostname) = 0)
       else False))"

section \<open>The host the gateway binds to\<close>

text \<open>The files a container leaves: the paths that exist and the text of \<open>/proc/1/cgroup\<close>, if it can be read.\<close>

record container_files =
  cf_exists :: "jsstr \<Rightarrow> bool"
  cf_cgroup :: "jsstr option"

definition anywhere :: "(jsstr \<Rightarrow> jsstr \<Rightarrow> bool) \<Rightarrow> jsstr \<Rightarrow> bool" where
  "anywhere m s \<longleftrightarrow> list_ex (\<lambda>i. m (take i s) (drop i s)) [0..<Suc (length s)]"

definition lower_hex :: "jschar \<Rightarrow> bool" where
  "lower_hex c \<longleftrightarrow> is_digit c \<or> (0x61 \<le> c \<and> c \<le> 0x66)"

definition regex_word :: "jschar \<Rightarrow> bool" where
  "regex_word c \<longleftrightarrow> alnum c \<or> c = 0x5F"

text \<open>The alternatives of the expression for container markers, at one position.\<close>

definition cgroup_marker :: "jsstr \<Rightarrow> jsstr \<Rightarrow> bool" where
  "cgroup_marker before rest \<longleftrightarrow>
     starts_with rest (js ''/docker/'')
   \<or> (starts_with rest (js ''cri-containerd-'') \<and> (case drop 15 rest of [] \<Rightarrow> False | c # _ \<Rightarrow> lower_hex c))
   \<or> (starts_with rest (js ''containerd/'') \<and> length (take 64 (drop 11 rest)) = 64 \<and> list_all lower_hex (take 64 (drop 11 rest)))
   \<or> (starts_with rest (js ''/kubepods'') \<and> (case drop 9 rest of [] \<Rightarrow> False | c # _ \<Rightarrow> c = 0x2F \<or> c = 0x2E))
   \<or> (starts_with rest (js ''lxc'') \<and> (before = [] \<or> \<not> regex_word (last before))
      \<and> (case drop 3 rest of [] \<Rightarrow> True | c # _ \<Rightarrow> \<not> regex_word c))"

definition detectContainerEnvironment :: "container_files \<Rightarrow> bool" where
  "detectContainerEnvironment fs =
    (if list_ex (cf_exists fs) [js ''/.dockerenv'', js ''/run/.containerenv'', js ''/var/run/.containerenv''] then True
     else (case cf_cgroup fs of None \<Rightarrow> False | Some cgroup \<Rightarrow> anywhere cgroup_marker cgroup))"

text \<open>The state is \<open>_containerCacheResult\<close>.\<close>

definition isContainerEnvironment :: "container_files \<Rightarrow> bool option \<Rightarrow> bool \<times> bool option" where
  "isContainerEnvironment fs cache = (case cache of
     Some result \<Rightarrow> (result, cache)
   | None \<Rightarrow> (let result = detectContainerEnvironment fs in (result, Some result)))"

datatype bind_mode = BindLoopback | BindTailnet | BindLan | BindCustom | BindAuto

record host_environment =
  he_library :: ip_library
  he_interfaces :: interfaces
  he_files :: container_files
  he_canBind :: "jsstr \<Rightarrow> bool"

definition isValidIPv4 :: "ip_library \<Rightarrow> jsstr \<Rightarrow> bool" where
  "isValidIPv4 L host = isCanonicalDottedDecimalIPv4 L (Some host)"

definition LOOPBACK_HOST :: jsstr where
  "LOOPBACK_HOST = js ''127.0.0.1''"

definition ANY_HOST :: jsstr where
  "ANY_HOST = js ''0.0.0.0''"

definition loopback_or_any :: "host_environment \<Rightarrow> jsstr" where
  "loopback_or_any env = (if he_canBind env LOOPBACK_HOST then LOOPBACK_HOST else ANY_HOST)"

definition resolveGatewayBindHost ::
    "host_environment \<Rightarrow> bind_mode option \<Rightarrow> jsstr option \<Rightarrow> bool option \<Rightarrow> jsstr \<times> bool option" where
  "resolveGatewayBindHost env bind customHost cache =
    (case (case bind of None \<Rightarrow> BindLoopback | Some mode \<Rightarrow> mode) of
       BindLoopback \<Rightarrow> (loopback_or_any env, cache)
     | BindTailnet \<Rightarrow> (case present (pickPrimaryTailnetIPv4 (he_library env) (he_interfaces env)) of
         None \<Rightarrow> (loopback_or_any env, cache)
       | Some tailnetIP \<Rightarrow> (if he_canBind env tailnetIP then tailnetIP else loopback_or_any env, cache))
     | BindLan \<Rightarrow> (ANY_HOST, cache)
     | BindCustom \<Rightarrow> (case present (map_option trim customHost) of
         None \<Rightarrow> (ANY_HOST, cache)
       | Some host \<Rightarrow> (if isValidIPv4 (he_library env) host \<and> he_canBind env host then host else ANY_HOST, cache))
     | BindAuto \<Rightarrow> (let (container, cache') = isContainerEnvironment (he_files env) cache in
         (if container then ANY_HOST else loopback_or_any env, cache')))"

definition defaultGatewayBindMode :: "container_files \<Rightarrow> jsstr option \<Rightarrow> bool option \<Rightarrow> bind_mode \<times> bool option" where
  "defaultGatewayBindMode fs tailscaleMode cache =
    (case present tailscaleMode of
       Some mode \<Rightarrow> if mode \<noteq> js ''off'' then (BindLoopback, cache)
         else (let (container, cache') = isContainerEnvironment fs cache in (if container then BindAuto else BindLoopback, cache'))
     | None \<Rightarrow> (let (container, cache') = isContainerEnvironment fs cache in (if container then BindAuto else BindLoopback, cache')))"

definition resolveGatewayListenHosts :: "(jsstr \<Rightarrow> bool) \<Rightarrow> jsstr \<Rightarrow> jsstr list" where
  "resolveGatewayListenHosts canBind bindHost =
    (if bindHost \<noteq> LOOPBACK_HOST then [bindHost]
     else if canBind (js ''::1'') then [bindHost, js ''::1''] else [bindHost])"

section \<open>What the headers can change\<close>

lemma forwarded_chain_append:
  "forwarded_chain L (Some (pre @ 0x2C # suf)) = forwarded_chain L (Some pre) @ forwarded_chain L (Some suf)"
  by (simp add: forwarded_chain_def split_on_append map_filter_def)

lemma find_append: "find P (xs @ ys) = (case find P xs of Some x \<Rightarrow> Some x | None \<Rightarrow> find P ys)"
  by (induction xs) auto

text \<open>What a client writes before the part of the header that the trusted proxy appends is not looked at.\<close>

lemma forwarded_prefix_ignored:
  "resolveForwardedClientIp L (Some suf) proxies = Some ip \<Longrightarrow>
   resolveForwardedClientIp L (Some (pre @ 0x2C # suf)) proxies = Some ip"
  by (auto simp: resolveForwardedClientIp_def forwarded_chain_append find_append split: option.splits if_splits)

lemma present_Some_iff [simp]: "present v = Some s \<longleftrightarrow> v = Some s \<and> s \<noteq> []"
  by (auto simp: present_def split: option.splits)

lemma forwarded_hop:
  "resolveForwardedClientIp L h proxies = Some ip \<Longrightarrow>
   \<exists>before after. forwarded_chain L h = before @ ip # after \<and> untrusted_hop L proxies ip \<and> list_all (\<lambda>hop. \<not> untrusted_hop L proxies hop) after"
proof -
  assume "resolveForwardedClientIp L h proxies = Some ip"
  then have "find (untrusted_hop L proxies) (rev (forwarded_chain L h)) = Some ip"
    by (auto simp: resolveForwardedClientIp_def split: option.splits if_splits)
  then obtain i where i: "i < length (forwarded_chain L h)" "rev (forwarded_chain L h) ! i = ip" "untrusted_hop L proxies ip"
      and first: "\<And>j. j < i \<Longrightarrow> \<not> untrusted_hop L proxies (rev (forwarded_chain L h) ! j)"
    by (auto simp: find_Some_iff)
  let ?r = "rev (forwarded_chain L h)"
  have "?r = take i ?r @ ip # drop (Suc i) ?r" using i by (metis id_take_nth_drop length_rev)
  then have "forwarded_chain L h = rev (drop (Suc i) ?r) @ ip # rev (take i ?r)"
    by (metis append.assoc append_Cons append_Nil rev.simps(2) rev_append rev_rev_ident)
  moreover have "list_all (\<lambda>hop. \<not> untrusted_hop L proxies hop) (rev (take i ?r))"
    using first by (auto simp: list_all_iff in_set_conv_nth)
  ultimately show ?thesis using i(3) by blast
qed

lemma no_forwarded_hop:
  assumes "resolveForwardedClientIp L h proxies = None" and "isTrustedProxyAddress L ip proxies"
  shows "list_all (\<lambda>hop. \<not> untrusted_hop L proxies hop) (forwarded_chain L h)"
  using assms
  by (auto simp: resolveForwardedClientIp_def isTrustedProxyAddress_def find_None_iff list_all_iff split: option.splits if_splits)

section \<open>A library of dotted addresses\<close>

text \<open>A small instance of the address library, for addresses in four decimal parts only, on which the
  definitions can be evaluated.\<close>

definition quad :: "jsstr \<Rightarrow> 8 word list option" where
  "quad s = (let ps = split_on 0x2E s in
     if length ps = 4 \<and> list_all (\<lambda>p. p \<noteq> [] \<and> list_all is_digit p \<and> digits_val p < 256 \<and> nat_str (digits_val p) = p) ps
     then Some (map (\<lambda>p. of_nat (digits_val p)) ps) else None)"

definition octets_of :: "ip_address \<Rightarrow> 8 word list" where
  "octets_of a = (case a of IPv4 os \<Rightarrow> os | IPv6 _ _ \<Rightarrow> [])"

definition quad_value :: "ip_address \<Rightarrow> int" where
  "quad_value a = foldl (\<lambda>n x. 256 * n + uint x) 0 (octets_of a)"

definition quad_range :: "ip_address \<Rightarrow> string" where
  "quad_range a = (case octets_of a of
     x # y # _ \<Rightarrow> (if x = 127 then ''loopback'' else if x = 10 \<or> (x = 192 \<and> y = 168) then ''private'' else ''unicast'')
   | _ \<Rightarrow> ''unicast'')"

definition quad_library :: ip_library where
  "quad_library = \<lparr>
     v4_isValid = (\<lambda>s. quad s \<noteq> None), v4_isValidFourPartDecimal = (\<lambda>s. quad s \<noteq> None), v4_parse = (\<lambda>s. the (quad s)),
     v6_isValid = (\<lambda>_. False), v6_parse = (\<lambda>_. IPv6 [] None),
     ip_isValid = (\<lambda>s. quad s \<noteq> None), ip_parse = (\<lambda>s. IPv4 (the (quad s))),
     ip_parseCIDR = (\<lambda>s. case split_on 0x2F s of
        [a, n] \<Rightarrow> map_option (\<lambda>q. (IPv4 q, int (digits_val n))) (quad a) | _ \<Rightarrow> None),
     ip_match = (\<lambda>a (b, n). Some (quad_value a div 2 ^ (32 - nat n) = quad_value b div 2 ^ (32 - nat n))),
     ip_range = quad_range,
     ip_toString = (\<lambda>a. join [0x2E] (map (\<lambda>x. nat_str (unat x)) (octets_of a))),
     isIPv4MappedAddress = (\<lambda>_. False), toIPv4Address = octets_of,
     net_isIP = (\<lambda>s. if quad s \<noteq> None then 4 else 0) \<rparr>"

section \<open>Properties\<close>

text \<open>C19: Where the client address comes from. A peer that is not a trusted proxy is its own client, whatever the headers say.
  Behind a trusted proxy the address is the last hop of the forwarded chain that is neither loopback nor
  trusted, every later hop being one or the other, so nothing a client writes before such a hop changes
  the answer; without such a hop it is what the real-ip header says where that is allowed, and
  otherwise there is no address at all.\<close>

theorem client_address_source:
  assumes peer: "normalizeIp L (cp_remoteAddr p) = Some peer" "peer \<noteq> []"
  shows "(if \<not> isTrustedProxyAddress L (Some peer) (cp_trustedProxies p)
      then \<forall>h r b. resolveClientIp L (p\<lparr> cp_forwardedFor := h, cp_realIp := r, cp_allowRealIpFallback := b \<rparr>) = Some peer
      else (\<exists>ip before after.
              resolveClientIp L p = Some ip \<and> forwarded_chain L (cp_forwardedFor p) = before @ ip # after
              \<and> untrusted_hop L (cp_trustedProxies p) ip \<and> list_all (\<lambda>hop. \<not> untrusted_hop L (cp_trustedProxies p) hop) after
              \<and> (\<forall>spoofed suf. cp_forwardedFor p = Some suf \<longrightarrow>
                   resolveClientIp L (p\<lparr> cp_forwardedFor := Some (spoofed @ js '','' @ suf) \<rparr>) = Some ip))
        \<or> (list_all (\<lambda>hop. \<not> untrusted_hop L (cp_trustedProxies p) hop) (forwarded_chain L (cp_forwardedFor p))
            \<and> resolveClientIp L p = (if cp_allowRealIpFallback p then parseRealIp L (cp_realIp p) else None)))"
proof (cases "isTrustedProxyAddress L (Some peer) (cp_trustedProxies p)")
  case trusted: True
  have comma: "js '','' = [0x2C]" by (simp add: js_def)
  show ?thesis
  proof (cases "resolveForwardedClientIp L (cp_forwardedFor p) (cp_trustedProxies p)")
    case None
    then show ?thesis using peer trusted no_forwarded_hop [OF None trusted] by (simp add: resolveClientIp_def present_def)
  next
    case (Some ip)
    then have "resolveClientIp L p = Some ip" using peer trusted by (simp add: resolveClientIp_def present_def)
    moreover have "resolveClientIp L (p\<lparr> cp_forwardedFor := Some (spoofed @ js '','' @ suf) \<rparr>) = Some ip"
      if "cp_forwardedFor p = Some suf" for spoofed suf
      using forwarded_prefix_ignored [of L suf "cp_trustedProxies p" ip spoofed] Some that peer trusted
      by (simp add: resolveClientIp_def present_def comma)
    ultimately show ?thesis using forwarded_hop [OF Some] trusted by auto
  qed
qed (use peer in \<open>simp add: resolveClientIp_def present_def\<close>)

definition proxied_request :: client_params where
  "proxied_request = \<lparr> cp_remoteAddr = Some (js ''10.0.0.2''), cp_forwardedFor = Some (js ''203.0.113.7, 10.1.1.1''),
     cp_realIp = None, cp_trustedProxies = Some [js ''10.0.0.0/8''], cp_allowRealIpFallback = False \<rparr>"

theorem client_address_source_witness:
  "resolveClientIp quad_library proxied_request = Some (js ''203.0.113.7'')
   \<and> resolveClientIp quad_library (proxied_request\<lparr> cp_forwardedFor := Some (js ''127.0.0.1,1.2.3.4'' @ js '','' @ js ''203.0.113.7, 10.1.1.1'') \<rparr>)
     = Some (js ''203.0.113.7'')"
proof -
  have peer: "normalizeIp quad_library (cp_remoteAddr proxied_request) = Some (js ''10.0.0.2'')" "js ''10.0.0.2'' \<noteq> []"
    by code_simp+
  have trusted: "isTrustedProxyAddress quad_library (Some (js ''10.0.0.2'')) (cp_trustedProxies proxied_request)"
    and ip: "resolveClientIp quad_library proxied_request = Some (js ''203.0.113.7'')"
    and hop: "\<not> list_all (\<lambda>hop. \<not> untrusted_hop quad_library (cp_trustedProxies proxied_request) hop)
        (forwarded_chain quad_library (cp_forwardedFor proxied_request))"
    and fwd: "cp_forwardedFor proxied_request = Some (js ''203.0.113.7, 10.1.1.1'')"
    by code_simp+
  show ?thesis using client_address_source [OF peer] trusted ip hop fwd by auto
qed

end
