(* ===== verification/AuthRateLimit.thy ===== *)
theory AuthRateLimit
  imports ClientAddress
begin

text \<open>
  The limiter of failed gateway logins, \<open>src/src/gateway/auth-rate-limit.ts\<close>: per scope and client address the
  times of recent failures and a lockout.  Its specification keeps every failure for ever and never
  prunes; the limiter refines it for callers that check before they record a failure, and a lockout
  holds against every sequence of operations.  Times and limits are integers.
\<close>

section \<open>The limiter\<close>

record rate_limit_config =
  rc_maxAttempts :: "int option"
  rc_windowMs :: "int option"
  rc_lockoutMs :: "int option"
  rc_exemptLoopback :: "bool option"
  rc_pruneIntervalMs :: "int option"

record rate_entry =
  re_attempts :: "int list"
  re_lockedUntil :: "int option"

record check_result =
  cr_allowed :: bool
  cr_remaining :: int
  cr_retryAfterMs :: int

record rate_limiter =
  rl_maxAttempts :: int
  rl_windowMs :: int
  rl_lockoutMs :: int
  rl_exemptLoopback :: bool
  rl_pruneTimer :: bool
  rl_entries :: "(jsstr, rate_entry) jsmap"

definition AUTH_RATE_LIMIT_SCOPE_DEFAULT :: jsstr where
  "AUTH_RATE_LIMIT_SCOPE_DEFAULT = js ''default''"

definition BROWSER_ORIGIN_RATE_LIMIT_KEY_PREFIX :: jsstr where
  "BROWSER_ORIGIN_RATE_LIMIT_KEY_PREFIX = js ''browser-origin:''"

definition DEFAULT_MAX_ATTEMPTS :: int where "DEFAULT_MAX_ATTEMPTS = 10"

definition DEFAULT_WINDOW_MS :: int where "DEFAULT_WINDOW_MS = 60000"

definition DEFAULT_LOCKOUT_MS :: int where "DEFAULT_LOCKOUT_MS = 300000"

definition PRUNE_INTERVAL_MS :: int where "PRUNE_INTERVAL_MS = 60000"

definition or_default :: "'a option \<Rightarrow> 'a \<Rightarrow> 'a" where
  "or_default v d = (case v of None \<Rightarrow> d | Some x \<Rightarrow> x)"

definition createAuthRateLimiter :: "rate_limit_config \<Rightarrow> rate_limiter" where
  "createAuthRateLimiter config = \<lparr>
     rl_maxAttempts = or_default (rc_maxAttempts config) DEFAULT_MAX_ATTEMPTS,
     rl_windowMs = or_default (rc_windowMs config) DEFAULT_WINDOW_MS,
     rl_lockoutMs = or_default (rc_lockoutMs config) DEFAULT_LOCKOUT_MS,
     rl_exemptLoopback = or_default (rc_exemptLoopback config) True,
     rl_pruneTimer = (0 < or_default (rc_pruneIntervalMs config) PRUNE_INTERVAL_MS),
     rl_entries = [] \<rparr>"

definition normalizeRateLimitClientIp :: "ip_library \<Rightarrow> jsstr option \<Rightarrow> jsstr" where
  "normalizeRateLimitClientIp L ip =
    (if (case ip of Some s \<Rightarrow> starts_with s BROWSER_ORIGIN_RATE_LIMIT_KEY_PREFIX | None \<Rightarrow> False) then the ip
     else or_default (resolveClientIp L
       \<lparr> cp_remoteAddr = ip, cp_forwardedFor = None, cp_realIp = None, cp_trustedProxies = None, cp_allowRealIpFallback = False \<rparr>)
       (js ''unknown''))"

definition normalizeScope :: "jsstr option \<Rightarrow> jsstr" where
  "normalizeScope scope =
    (let s = trim (or_default scope AUTH_RATE_LIMIT_SCOPE_DEFAULT) in if s = [] then AUTH_RATE_LIMIT_SCOPE_DEFAULT else s)"

definition rl_resolveKey :: "ip_library \<Rightarrow> jsstr option \<Rightarrow> jsstr option \<Rightarrow> jsstr \<times> jsstr" where
  "rl_resolveKey L rawIp rawScope =
    (let ip = normalizeRateLimitClientIp L rawIp; scope = normalizeScope rawScope in (scope @ js '':'' @ ip, ip))"

definition isExempt :: "ip_library \<Rightarrow> rate_limiter \<Rightarrow> jsstr \<Rightarrow> bool" where
  "isExempt L r ip \<longleftrightarrow> rl_exemptLoopback r \<and> isLoopbackAddress L (Some ip)"

definition slideWindow :: "rate_limiter \<Rightarrow> int \<Rightarrow> rate_entry \<Rightarrow> rate_entry" where
  "slideWindow r now e = e\<lparr> re_attempts := filter (\<lambda>ts. now - rl_windowMs r < ts) (re_attempts e) \<rparr>"

text \<open>\<open>entry.lockedUntil\<close> where it is truthy.\<close>

definition lock_time :: "rate_entry \<Rightarrow> int option" where
  "lock_time e = (case re_lockedUntil e of None \<Rightarrow> None | Some t \<Rightarrow> if t = 0 then None else Some t)"

definition locked_now :: "int \<Rightarrow> rate_entry \<Rightarrow> bool" where
  "locked_now now e = (case lock_time e of None \<Rightarrow> False | Some t \<Rightarrow> now < t)"

definition allowed_result :: "int \<Rightarrow> check_result" where
  "allowed_result remaining = \<lparr> cr_allowed = 0 < remaining, cr_remaining = remaining, cr_retryAfterMs = 0 \<rparr>"

definition unlimited_result :: "rate_limiter \<Rightarrow> check_result" where
  "unlimited_result r = \<lparr> cr_allowed = True, cr_remaining = rl_maxAttempts r, cr_retryAfterMs = 0 \<rparr>"

definition rl_check :: "ip_library \<Rightarrow> jsstr option \<Rightarrow> jsstr option \<Rightarrow> int \<Rightarrow> rate_limiter \<Rightarrow> check_result \<times> rate_limiter" where
  "rl_check L rawIp rawScope now r =
    (let (key, ip) = rl_resolveKey L rawIp rawScope in
     if isExempt L r ip then (unlimited_result r, r)
     else (case mget (rl_entries r) key of
       None \<Rightarrow> (unlimited_result r, r)
     | Some entry \<Rightarrow>
        if locked_now now entry
        then (\<lparr> cr_allowed = False, cr_remaining = 0, cr_retryAfterMs = the (lock_time entry) - now \<rparr>, r)
        else (let cleared = (if lock_time entry \<noteq> None then \<lparr> re_attempts = [], re_lockedUntil = None \<rparr> else entry);
                  slid = slideWindow r now cleared;
                  remaining = max 0 (rl_maxAttempts r - int (length (re_attempts slid)))
              in (allowed_result remaining, r\<lparr> rl_entries := mput (rl_entries r) key slid \<rparr>))))"

definition rl_recordFailure :: "ip_library \<Rightarrow> jsstr option \<Rightarrow> jsstr option \<Rightarrow> int \<Rightarrow> rate_limiter \<Rightarrow> rate_limiter" where
  "rl_recordFailure L rawIp rawScope now r =
    (let (key, ip) = rl_resolveKey L rawIp rawScope in
     if isExempt L r ip then r
     else (let entry = or_default (mget (rl_entries r) key) \<lparr> re_attempts = [], re_lockedUntil = None \<rparr> in
       if locked_now now entry then r
       else (let slid = slideWindow r now entry;
                 pushed = slid\<lparr> re_attempts := re_attempts slid @ [now] \<rparr>;
                 updated = (if rl_maxAttempts r \<le> int (length (re_attempts pushed))
                            then pushed\<lparr> re_lockedUntil := Some (now + rl_lockoutMs r) \<rparr> else pushed)
             in r\<lparr> rl_entries := mput (rl_entries r) key updated \<rparr>)))"

definition rl_reset :: "ip_library \<Rightarrow> jsstr option \<Rightarrow> jsstr option \<Rightarrow> rate_limiter \<Rightarrow> rate_limiter" where
  "rl_reset L rawIp rawScope r = r\<lparr> rl_entries := mdel (rl_entries r) (fst (rl_resolveKey L rawIp rawScope)) \<rparr>"

definition prune_entry :: "rate_limiter \<Rightarrow> int \<Rightarrow> rate_entry \<Rightarrow> rate_entry option" where
  "prune_entry r now e =
    (if locked_now now e then Some e
     else (let slid = slideWindow r now e in if re_attempts slid = [] then None else Some slid))"

definition rl_prune :: "int \<Rightarrow> rate_limiter \<Rightarrow> rate_limiter" where
  "rl_prune now r = r\<lparr> rl_entries := List.map_filter (\<lambda>p. map_option (Pair (fst p)) (prune_entry r now (snd p))) (rl_entries r) \<rparr>"

definition rl_size :: "rate_limiter \<Rightarrow> nat" where
  "rl_size r = length (rl_entries r)"

definition rl_dispose :: "rate_limiter \<Rightarrow> rate_limiter" where
  "rl_dispose r = r\<lparr> rl_pruneTimer := False, rl_entries := [] \<rparr>"

datatype rl_op =
  RlCheck "jsstr option" "jsstr option" int
| RlFail "jsstr option" "jsstr option" int
| RlReset "jsstr option" "jsstr option"
| RlPrune int
| RlDispose

fun rl_step :: "ip_library \<Rightarrow> rate_limiter \<Rightarrow> rl_op \<Rightarrow> rate_limiter \<times> check_result list" where
  "rl_step L r (RlCheck ip scope now) = (snd (rl_check L ip scope now r), [fst (rl_check L ip scope now r)])"
| "rl_step L r (RlFail ip scope now) = (rl_recordFailure L ip scope now r, [])"
| "rl_step L r (RlReset ip scope) = (rl_reset L ip scope r, [])"
| "rl_step L r (RlPrune now) = (rl_prune now r, [])"
| "rl_step L r RlDispose = (rl_dispose r, [])"

section \<open>The specification\<close>

text \<open>Every failure since the last success or the end of the last lockout, and the end of the lockout, for each key.\<close>

record attempt_log =
  al_max :: int
  al_window :: int
  al_lockout :: int
  al_exempt :: bool
  al_failures :: "jsstr \<Rightarrow> int list"
  al_lock :: "jsstr \<Rightarrow> int option"
  al_now :: int

definition al_counted :: "attempt_log \<Rightarrow> int \<Rightarrow> jsstr \<Rightarrow> nat" where
  "al_counted a now key = length (filter (\<lambda>ts. now - al_window a < ts) (al_failures a key))"

definition al_exempted :: "ip_library \<Rightarrow> attempt_log \<Rightarrow> jsstr \<Rightarrow> bool" where
  "al_exempted L a ip \<longleftrightarrow> al_exempt a \<and> isLoopbackAddress L (Some ip)"

definition al_answer :: "attempt_log \<Rightarrow> int \<Rightarrow> jsstr \<Rightarrow> check_result" where
  "al_answer a now key = (case al_lock a key of
     Some t \<Rightarrow> if now < t then \<lparr> cr_allowed = False, cr_remaining = 0, cr_retryAfterMs = t - now \<rparr> else allowed_result (al_max a)
   | None \<Rightarrow> allowed_result (max 0 (al_max a - int (al_counted a now key))))"

definition al_forget :: "jsstr \<Rightarrow> attempt_log \<Rightarrow> attempt_log" where
  "al_forget key a = a\<lparr> al_failures := (al_failures a)(key := []), al_lock := (al_lock a)(key := None) \<rparr>"

definition al_expired :: "attempt_log \<Rightarrow> int \<Rightarrow> jsstr \<Rightarrow> bool" where
  "al_expired a now key \<longleftrightarrow> (case al_lock a key of None \<Rightarrow> False | Some t \<Rightarrow> t \<le> now)"

fun al_step :: "ip_library \<Rightarrow> attempt_log \<Rightarrow> rl_op \<Rightarrow> attempt_log \<times> check_result list" where
  "al_step L a (RlCheck rawIp rawScope now) =
    (let (key, ip) = rl_resolveKey L rawIp rawScope; b = a\<lparr> al_now := now \<rparr> in
     if al_exempted L a ip then (b, [allowed_result (al_max a)])
     else (if al_expired a now key then al_forget key b else b, [al_answer a now key]))"
| "al_step L a (RlFail rawIp rawScope now) =
    (let (key, ip) = rl_resolveKey L rawIp rawScope; b = a\<lparr> al_now := now \<rparr> in
     if al_exempted L a ip \<or> al_lock a key \<noteq> None then (b, [])
     else (b\<lparr> al_failures := (al_failures a)(key := al_failures a key @ [now]),
              al_lock := (if al_max a \<le> int (al_counted a now key) + 1
                          then (al_lock a)(key := Some (now + al_lockout a)) else al_lock a) \<rparr>, []))"
| "al_step L a (RlReset rawIp rawScope) = (al_forget (fst (rl_resolveKey L rawIp rawScope)) a, [])"
| "al_step L a (RlPrune now) = (a\<lparr> al_now := now \<rparr>, [])"
| "al_step L a RlDispose = (a\<lparr> al_failures := (\<lambda>_. []), al_lock := (\<lambda>_. None) \<rparr>, [])"

text \<open>The clock is positive and does not go back, and nobody records a failure for a key whose lockout has run out
  before checking it.\<close>

fun al_legal :: "ip_library \<Rightarrow> attempt_log \<Rightarrow> rl_op \<Rightarrow> bool" where
  "al_legal L a (RlCheck rawIp rawScope now) \<longleftrightarrow> 0 < now \<and> al_now a \<le> now"
| "al_legal L a (RlFail rawIp rawScope now) \<longleftrightarrow>
     0 < now \<and> al_now a \<le> now \<and> \<not> al_expired a now (fst (rl_resolveKey L rawIp rawScope))"
| "al_legal L a (RlReset rawIp rawScope) \<longleftrightarrow> True"
| "al_legal L a (RlPrune now) \<longleftrightarrow> 0 < now \<and> al_now a \<le> now"
| "al_legal L a RlDispose \<longleftrightarrow> True"

section \<open>The limiter refines its specification\<close>

lemma keys_map_filter:
  "set (mkeys (List.map_filter (\<lambda>p. map_option (Pair (fst p)) (f (snd p))) m)) \<subseteq> set (mkeys m)"
  by (induction m) (auto simp: map_filter_simps split: option.splits)

lemma distinct_map_filter:
  "distinct (mkeys m) \<Longrightarrow> distinct (mkeys (List.map_filter (\<lambda>p. map_option (Pair (fst p)) (f (snd p))) m))"
proof (induction m)
  case (Cons p m)
  then show ?case using keys_map_filter [of f m] by (cases "f (snd p)") (auto simp: map_filter_simps)
qed (simp add: map_filter_simps)

lemma mget_map_filter:
  "distinct (mkeys m) \<Longrightarrow>
   mget (List.map_filter (\<lambda>p. map_option (Pair (fst p)) (f (snd p))) m) k = Option.bind (mget m k) f"
proof (induction m)
  case (Cons p m)
  have "mget (List.map_filter (\<lambda>p. map_option (Pair (fst p)) (f (snd p))) m) (fst p) = None"
    using Cons.prems keys_map_filter [of f m] by (auto simp: mget_None_iff)
  then show ?case using Cons by (cases "f (snd p)") (auto simp: mget_def map_filter_simps)
qed (simp add: map_filter_simps mget_def)

text \<open>What an entry, or its absence, has to do with the failures and the lockout of its key.\<close>

definition key_rel :: "int \<Rightarrow> int \<Rightarrow> rate_entry option \<Rightarrow> int list \<Rightarrow> int option \<Rightarrow> bool" where
  "key_rel t w me fs lk \<longleftrightarrow>
     (case lk of None \<Rightarrow> True | Some u \<Rightarrow> 0 < u) \<and>
     (case me of
        None \<Rightarrow> filter (\<lambda>ts. t - w < ts) fs = [] \<and> (case lk of None \<Rightarrow> True | Some u \<Rightarrow> u \<le> t)
      | Some e \<Rightarrow> re_lockedUntil e = lk \<and> filter (\<lambda>ts. t - w < ts) (re_attempts e) = filter (\<lambda>ts. t - w < ts) fs)"

lemma window_later:
  assumes "filter (\<lambda>ts. t - w < ts) xs = filter (\<lambda>ts. t - w < ts) ys" and "t \<le> (t' :: int)"
  shows "filter (\<lambda>ts. t' - w < ts) xs = filter (\<lambda>ts. t' - w < ts) ys"
proof -
  have "filter (\<lambda>ts. t' - w < ts) zs = filter (\<lambda>ts. t' - w < ts) (filter (\<lambda>ts. t - w < ts) zs)" for zs
    using assms(2) by (auto simp: filter_filter intro: filter_cong)
  then show ?thesis using assms(1) by metis
qed

lemma key_rel_later: "key_rel t w me fs lk \<Longrightarrow> t \<le> t' \<Longrightarrow> key_rel t' w me fs lk"
  using window_later [of t w "[]" fs t'] window_later [of t w "re_attempts (the me)" fs t']
  by (cases me; cases lk) (simp_all add: key_rel_def)

lemma key_rel_forgotten [simp]: "key_rel t w None [] None"
  by (simp add: key_rel_def)

definition rl_rel :: "rate_limiter \<Rightarrow> attempt_log \<Rightarrow> bool" where
  "rl_rel r a \<longleftrightarrow>
     rl_maxAttempts r = al_max a \<and> rl_windowMs r = al_window a \<and> rl_lockoutMs r = al_lockout a
     \<and> rl_exemptLoopback r = al_exempt a \<and> 0 < al_max a \<and> 0 \<le> al_lockout a \<and> distinct (mkeys (rl_entries r))
     \<and> (\<forall>k. key_rel (al_now a) (al_window a) (mget (rl_entries r) k) (al_failures a k) (al_lock a k))"

lemma rl_rel_later: "rl_rel r a \<Longrightarrow> al_now a \<le> now \<Longrightarrow> rl_rel r (a\<lparr> al_now := now \<rparr>)"
  using key_rel_later [of "al_now a" "al_window a" _ _ _ now] by (simp add: rl_rel_def)

lemma rl_rel_put:
  assumes "rl_rel r a" and "key_rel (al_now a) (al_window a) (Some e) fs lk"
  shows "rl_rel (r\<lparr> rl_entries := mput (rl_entries r) key e \<rparr>)
    (a\<lparr> al_failures := (al_failures a)(key := fs), al_lock := (al_lock a)(key := lk) \<rparr>)"
  using assms by (simp add: rl_rel_def)

lemma rl_rel_keep:
  assumes "rl_rel r a" and "key_rel (al_now a) (al_window a) (Some e) (al_failures a key) (al_lock a key)"
  shows "rl_rel (r\<lparr> rl_entries := mput (rl_entries r) key e \<rparr>) a"
  using rl_rel_put [OF assms, of key] by simp

lemma rl_rel_forget:
  assumes "rl_rel r a"
  shows "rl_rel (r\<lparr> rl_entries := mdel (rl_entries r) key \<rparr>) (al_forget key a)"
  using assms by (simp add: rl_rel_def al_forget_def)

lemma exempted_same: "rl_rel r a \<Longrightarrow> isExempt L r ip = al_exempted L a ip"
  by (simp add: rl_rel_def isExempt_def al_exempted_def)

lemma rl_rel_entry:
  assumes "rl_rel r a" and "mget (rl_entries r) key = Some e"
  shows "lock_time e = al_lock a key" "re_lockedUntil e = al_lock a key"
    "filter (\<lambda>ts. al_now a - al_window a < ts) (re_attempts e) = filter (\<lambda>ts. al_now a - al_window a < ts) (al_failures a key)"
proof -
  have "key_rel (al_now a) (al_window a) (Some e) (al_failures a key) (al_lock a key)"
    using assms unfolding rl_rel_def by metis
  then show "lock_time e = al_lock a key" "re_lockedUntil e = al_lock a key"
    "filter (\<lambda>ts. al_now a - al_window a < ts) (re_attempts e) = filter (\<lambda>ts. al_now a - al_window a < ts) (al_failures a key)"
    by (auto simp: key_rel_def lock_time_def split: option.splits)
qed

lemma rl_rel_absent:
  assumes "rl_rel r a" and "mget (rl_entries r) key = None"
  shows "al_counted a (al_now a) key = 0" "al_lock a key = None \<or> al_expired a (al_now a) key"
proof -
  have "key_rel (al_now a) (al_window a) None (al_failures a key) (al_lock a key)"
    using assms unfolding rl_rel_def by metis
  then show "al_counted a (al_now a) key = 0" "al_lock a key = None \<or> al_expired a (al_now a) key"
    by (auto simp: key_rel_def al_counted_def al_expired_def split: option.splits)
qed

lemma slide_key_rel:
  assumes "key_rel (al_now a) (al_window a) (Some e) fs lk" and "rl_windowMs r = al_window a"
  shows "key_rel (al_now a) (al_window a) (Some (slideWindow r (al_now a) e)) fs lk"
  using assms by (simp add: key_rel_def slideWindow_def)

lemma al_simps [simp]:
  "al_counted (a\<lparr> al_now := t \<rparr>) now key = al_counted a now key" "al_exempted L (a\<lparr> al_now := t \<rparr>) ip = al_exempted L a ip"
  "al_expired (a\<lparr> al_now := t \<rparr>) now key = al_expired a now key" "al_answer (a\<lparr> al_now := t \<rparr>) now key = al_answer a now key"
  by (simp_all add: al_counted_def al_exempted_def al_expired_def al_answer_def split: option.split)

lemma check_simulates:
  assumes rel: "rl_rel r a" and now: "now = al_now a" and key: "rl_resolveKey L rawIp rawScope = (key, ip)"
    and ex: "\<not> al_exempted L a ip"
  shows "fst (rl_check L rawIp rawScope now r) = al_answer a now key
    \<and> rl_rel (snd (rl_check L rawIp rawScope now r)) (if al_expired a now key then al_forget key a else a)"
proof -
  have cfg: "rl_maxAttempts r = al_max a" "rl_windowMs r = al_window a" "0 < al_max a" using rel by (simp_all add: rl_rel_def)
  have ex': "\<not> isExempt L r ip" using ex exempted_same [OF rel] by simp
  show ?thesis
  proof (cases "mget (rl_entries r) key")
    case None
    have "rl_rel r (al_forget key a)"
      using rl_rel_forget [OF rel, of key] None by (simp add: mdel_absent mhas_mget)
    then show ?thesis
      using None ex' key rl_rel_absent [OF rel None] rel cfg now
      by (auto simp: rl_check_def al_answer_def al_expired_def unlimited_result_def allowed_result_def split: option.splits)
  next
    case (Some e)
    note e = rl_rel_entry [OF rel Some]
    show ?thesis
    proof (cases "al_lock a key")
      case lock: None
      have "key_rel (al_now a) (al_window a) (Some e) (al_failures a key) (al_lock a key)" using rel Some unfolding rl_rel_def by metis
      from rl_rel_keep [OF rel slide_key_rel [OF this cfg(2)]]
      have "rl_rel (r\<lparr> rl_entries := mput (rl_entries r) key (slideWindow r (al_now a) e) \<rparr>) a" .
      moreover have "length (re_attempts (slideWindow r (al_now a) e)) = al_counted a (al_now a) key"
        using e(3) cfg by (simp add: slideWindow_def al_counted_def)
      ultimately show ?thesis
        using Some ex' key now lock e cfg by (simp add: rl_check_def locked_now_def al_answer_def al_expired_def Let_def)
    next
      case lock: (Some u)
      let ?c = "\<lparr> re_attempts = [], re_lockedUntil = None \<rparr>"
      have "key_rel (al_now a) (al_window a) (Some (slideWindow r (al_now a) ?c)) [] None"
        by (simp add: key_rel_def slideWindow_def)
      from rl_rel_put [OF rel this, of key]
      have "rl_rel (r\<lparr> rl_entries := mput (rl_entries r) key (slideWindow r (al_now a) ?c) \<rparr>) (al_forget key a)"
        by (simp add: al_forget_def)
      then show ?thesis
        using Some ex' key now lock e cfg rel
        by (simp add: rl_check_def locked_now_def al_answer_def al_expired_def slideWindow_def Let_def not_le)
    qed
  qed
qed

lemma failure_simulates:
  assumes rel: "rl_rel r a" and now: "now = al_now a" "0 < now" and key: "rl_resolveKey L rawIp rawScope = (key, ip)"
    and ex: "\<not> al_exempted L a ip" and fresh: "\<not> al_expired a now key"
  shows "rl_rel (rl_recordFailure L rawIp rawScope now r) (fst (al_step L a (RlFail rawIp rawScope now)))"
proof -
  have cfg: "rl_maxAttempts r = al_max a" "rl_windowMs r = al_window a" "rl_lockoutMs r = al_lockout a" "0 \<le> al_lockout a"
    using rel by (simp_all add: rl_rel_def)
  have ex': "\<not> isExempt L r ip" using ex exempted_same [OF rel] by simp
  have at_now: "a\<lparr> al_now := now \<rparr> = a" using now by simp
  let ?e = "or_default (mget (rl_entries r) key) \<lparr> re_attempts = [], re_lockedUntil = None \<rparr>"
  have lock: "lock_time ?e = al_lock a key"
    using rl_rel_entry(1) [OF rel] rl_rel_absent(2) [OF rel, of key] fresh now
    by (cases "mget (rl_entries r) key") (auto simp: or_default_def lock_time_def)
  have win: "filter (\<lambda>ts. al_now a - al_window a < ts) (re_attempts ?e) = filter (\<lambda>ts. al_now a - al_window a < ts) (al_failures a key)"
    using rl_rel_entry(3) [OF rel] rl_rel_absent(1) [OF rel, of key]
    by (cases "mget (rl_entries r) key") (auto simp: or_default_def al_counted_def)
  show ?thesis
  proof (cases "al_lock a key")
    case (Some u)
    then have "locked_now now ?e" using fresh lock by (auto simp: locked_now_def al_expired_def)
    then show ?thesis using Some ex' key rel at_now ex by (simp add: rl_recordFailure_def)
  next
    case None
    then have unlocked: "re_lockedUntil ?e = None"
      using rl_rel_entry(2) [OF rel] by (cases "mget (rl_entries r) key") (auto simp: or_default_def)
    let ?lk = "if al_max a \<le> int (al_counted a now key) + 1 then Some (now + al_lockout a) else None"
    let ?p = "\<lparr> re_attempts = filter (\<lambda>ts. now - al_window a < ts) (re_attempts ?e) @ [now], re_lockedUntil = ?lk \<rparr>"
    have "key_rel (al_now a) (al_window a) (Some ?p) (al_failures a key @ [now]) ?lk"
      using win now cfg(4) by (simp add: key_rel_def filter_filter)
    from rl_rel_put [OF rel this, of key]
    have put: "rl_rel (r\<lparr> rl_entries := mput (rl_entries r) key ?p \<rparr>)
      (a\<lparr> al_failures := (al_failures a)(key := al_failures a key @ [now]), al_lock := (al_lock a)(key := ?lk) \<rparr>)" .
    have slid: "slideWindow r now ?e = \<lparr> re_attempts = filter (\<lambda>ts. now - al_window a < ts) (re_attempts ?e), re_lockedUntil = None \<rparr>"
      using unlocked cfg(2) by (cases ?e) (simp add: slideWindow_def)
    have conc: "rl_recordFailure L rawIp rawScope now r = r\<lparr> rl_entries := mput (rl_entries r) key ?p \<rparr>"
      using key ex' lock None win now cfg slid
      by (simp add: rl_recordFailure_def locked_now_def Let_def al_counted_def)
    have keep: "(al_lock a)(key := None) = al_lock a" using None by auto
    have "fst (al_step L a (RlFail rawIp rawScope now))
      = a\<lparr> al_failures := (al_failures a)(key := al_failures a key @ [now]), al_lock := (al_lock a)(key := ?lk) \<rparr>"
      using key ex None at_now keep by (simp add: Let_def)
    then show ?thesis using put conc by simp
  qed
qed

lemma prune_simulates:
  assumes rel: "rl_rel r a" and now: "now = al_now a"
  shows "rl_rel (rl_prune now r) a"
proof -
  have cfg: "rl_windowMs r = al_window a" "distinct (mkeys (rl_entries r))" using rel by (simp_all add: rl_rel_def)
  have "key_rel (al_now a) (al_window a) (Option.bind (mget (rl_entries r) k) (prune_entry r now)) (al_failures a k) (al_lock a k)" for k
  proof (cases "mget (rl_entries r) k")
    case None
    then show ?thesis using rel unfolding rl_rel_def by (metis bind.bind_lunit bind_eq_None_conv)
  next
    case (Some e)
    then have e: "key_rel (al_now a) (al_window a) (Some e) (al_failures a k) (al_lock a k)" using rel unfolding rl_rel_def by metis
    have "al_lock a k = None \<or> the (al_lock a k) \<le> al_now a" if "\<not> locked_now now e"
      using that now rl_rel_entry(1) [OF rel Some] by (cases "al_lock a k") (auto simp: locked_now_def)
    then show ?thesis
      using Some e now cfg slide_key_rel [OF e cfg(1)]
      by (auto simp: prune_entry_def Let_def slideWindow_def key_rel_def split: option.splits)
  qed
  then show ?thesis using rel cfg
    by (simp add: rl_rel_def rl_prune_def mget_map_filter distinct_map_filter)
qed

lemma rl_refines:
  assumes rel: "rl_rel r a" and legal: "al_legal L a b"
  shows "snd (rl_step L r b) = snd (al_step L a b) \<and> rl_rel (fst (rl_step L r b)) (fst (al_step L a b))"
proof (cases b)
  case (RlCheck rawIp rawScope now)
  obtain key ip where key: "rl_resolveKey L rawIp rawScope = (key, ip)" by (cases "rl_resolveKey L rawIp rawScope")
  have later: "rl_rel r (a\<lparr> al_now := now \<rparr>)" using rl_rel_later [OF rel] legal RlCheck by simp
  show ?thesis
  proof (cases "al_exempted L a ip")
    case True
    then show ?thesis using later RlCheck key exempted_same [OF rel] rel
      by (simp add: rl_check_def unlimited_result_def allowed_result_def rl_rel_def)
  next
    case False
    then show ?thesis using check_simulates [OF later _ key, of now] RlCheck key by (simp add: Let_def)
  qed
next
  case (RlFail rawIp rawScope now)
  obtain key ip where key: "rl_resolveKey L rawIp rawScope = (key, ip)" by (cases "rl_resolveKey L rawIp rawScope")
  have later: "rl_rel r (a\<lparr> al_now := now \<rparr>)" using rl_rel_later [OF rel] legal RlFail by simp
  show ?thesis
  proof (cases "al_exempted L a ip")
    case True
    then show ?thesis using later RlFail key exempted_same [OF rel] by (simp add: rl_recordFailure_def)
  next
    case False
    have same: "fst (al_step L (a\<lparr> al_now := now \<rparr>) (RlFail rawIp rawScope now)) = fst (al_step L a (RlFail rawIp rawScope now))"
      and quiet: "snd (al_step L a (RlFail rawIp rawScope now)) = []"
      using key by (simp_all add: Let_def)
    have "rl_rel (rl_recordFailure L rawIp rawScope now r) (fst (al_step L (a\<lparr> al_now := now \<rparr>) (RlFail rawIp rawScope now)))"
      using failure_simulates [OF later _ _ key, of now] False RlFail key legal by simp
    then show ?thesis unfolding same RlFail rl_step.simps quiet by simp
  qed
next
  case (RlReset rawIp rawScope)
  then show ?thesis using rl_rel_forget [OF rel] by (simp add: rl_reset_def)
next
  case (RlPrune now)
  then show ?thesis using prune_simulates [OF rl_rel_later [OF rel]] legal by simp
next
  case RlDispose
  then show ?thesis using rel by (simp add: rl_rel_def rl_dispose_def)
qed

interpretation rl: refinement "rl_step L" "al_step L" rl_rel "al_legal L" for L
  by unfold_locales (rule rl_refines)

section \<open>A lockout holds\<close>

definition rl_locked :: "rate_limiter \<Rightarrow> jsstr \<Rightarrow> int \<Rightarrow> bool" where
  "rl_locked r key t \<longleftrightarrow> (case mget (rl_entries r) key of None \<Rightarrow> False | Some e \<Rightarrow> lock_time e = Some t)"

text \<open>Any operation before the end of the lockout, except a reset of the key and the end of the limiter.\<close>

fun spares :: "ip_library \<Rightarrow> jsstr \<Rightarrow> int \<Rightarrow> rl_op \<Rightarrow> bool" where
  "spares L key t (RlCheck ip scope now) \<longleftrightarrow> now < t"
| "spares L key t (RlFail ip scope now) \<longleftrightarrow> now < t"
| "spares L key t (RlReset ip scope) \<longleftrightarrow> fst (rl_resolveKey L ip scope) \<noteq> key"
| "spares L key t (RlPrune now) \<longleftrightarrow> now < t"
| "spares L key t RlDispose \<longleftrightarrow> False"

lemma locked_step:
  assumes "rl_locked r key t" and "distinct (mkeys (rl_entries r))" and "spares L key t b"
  shows "rl_locked (fst (rl_step L r b)) key t \<and> distinct (mkeys (rl_entries (fst (rl_step L r b))))"
proof -
  obtain e where e: "mget (rl_entries r) key = Some e" "lock_time e = Some t"
    using assms(1) by (auto simp: rl_locked_def split: option.splits)
  then have locked: "now < t \<Longrightarrow> locked_now now e" for now by (simp add: locked_now_def)
  show ?thesis
  proof (cases b)
    case (RlCheck ip scope now)
    obtain k i where k: "rl_resolveKey L ip scope = (k, i)" by (cases "rl_resolveKey L ip scope")
    show ?thesis
      using assms e locked [of now] RlCheck k
      by (cases "k = key") (auto simp: rl_check_def rl_locked_def Let_def split: option.splits)
  next
    case (RlFail ip scope now)
    obtain k i where k: "rl_resolveKey L ip scope = (k, i)" by (cases "rl_resolveKey L ip scope")
    show ?thesis
      using assms e locked [of now] RlFail k
      by (cases "k = key") (simp_all add: rl_recordFailure_def rl_locked_def or_default_def Let_def)
  next
    case (RlPrune now)
    then have "prune_entry r now e = Some e" using locked assms(3) by (simp add: prune_entry_def)
    then show ?thesis using assms e RlPrune by (simp add: rl_prune_def rl_locked_def mget_map_filter distinct_map_filter)
  qed (use assms e in \<open>simp_all add: rl_reset_def rl_locked_def\<close>)
qed

lemma locked_run:
  "rl_locked r key t \<Longrightarrow> distinct (mkeys (rl_entries r)) \<Longrightarrow> list_all (spares L key t) bs \<Longrightarrow>
   rl_locked (fst (run_ops (rl_step L) r bs)) key t"
proof (induction bs arbitrary: r)
  case (Cons b bs)
  then show ?case using locked_step [of r key t L b] by (simp add: case_prod_beta Let_def)
qed simp

lemma locked_check:
  assumes "rl_locked r key t" and "rl_resolveKey L ip scope = (key, i)" and "\<not> isExempt L r i" and "now < t"
  shows "fst (rl_check L ip scope now r) = \<lparr> cr_allowed = False, cr_remaining = 0, cr_retryAfterMs = t - now \<rparr>"
  using assms by (auto simp: rl_locked_def rl_check_def locked_now_def split: option.splits)

lemma exempt_run: "isExempt L (fst (run_ops (rl_step L) r bs)) i = isExempt L r i"
proof (induction bs arbitrary: r)
  case (Cons b bs)
  have "rl_exemptLoopback (fst (rl_step L r b)) = rl_exemptLoopback r"
    by (cases b) (simp_all add: rl_check_def rl_recordFailure_def rl_reset_def rl_prune_def rl_dispose_def
        case_prod_beta Let_def split: option.split)
  then show ?case using Cons by (simp add: case_prod_beta Let_def isExempt_def)
qed simp

section \<open>Properties\<close>

definition al_new :: "rate_limiter \<Rightarrow> int \<Rightarrow> attempt_log" where
  "al_new r t0 = \<lparr> al_max = rl_maxAttempts r, al_window = rl_windowMs r, al_lockout = rl_lockoutMs r,
     al_exempt = rl_exemptLoopback r, al_failures = (\<lambda>_. []), al_lock = (\<lambda>_. None), al_now = t0 \<rparr>"

lemma al_new_rel:
  assumes "r = createAuthRateLimiter config" and "0 < rl_maxAttempts r" and "0 \<le> rl_lockoutMs r"
  shows "rl_rel r (al_new r t0)"
  using assms by (simp add: rl_rel_def al_new_def createAuthRateLimiter_def)

text \<open>C20: The pruned, sliding limiter answers as the full log of failures. With at least one attempt allowed and callers that
  check a key before recording a failure after its lockout, every check answers what the log says: denied with
  the time left while the lockout lasts, and otherwise allowed as many attempts as the failures in the
  window leave. Pruning, sliding and the order of other keys' operations never show.\<close>

theorem rate_limiter_refines:
  assumes "0 < rl_maxAttempts (createAuthRateLimiter config)" and "0 \<le> rl_lockoutMs (createAuthRateLimiter config)"
    and "legal_run (al_step L) (al_legal L) (al_new (createAuthRateLimiter config) t0) bs"
  shows "snd (run_ops (rl_step L) (createAuthRateLimiter config) bs)
    = snd (run_ops (al_step L) (al_new (createAuthRateLimiter config) t0) bs)"
  using rl.run_refines [OF al_new_rel [OF refl assms(1,2)] assms(3)] by blast

definition two_attempts :: rate_limit_config where
  "two_attempts = \<lparr> rc_maxAttempts = Some 2, rc_windowMs = Some 10, rc_lockoutMs = Some 20, rc_exemptLoopback = None,
     rc_pruneIntervalMs = None \<rparr>"

definition sample_logins :: "rl_op list" where
  "sample_logins = (let a = Some (js ''1.2.3.4''); b = Some (js ''::1'') in
     [RlFail a None 1, RlPrune 5, RlCheck a None 6, RlFail a None 7, RlPrune 18, RlCheck a None 18, RlCheck b None 18, RlCheck a None 27])"

theorem rate_limiter_refines_witness:
  "snd (run_ops (rl_step quad_library) (createAuthRateLimiter two_attempts) sample_logins)
   = [allowed_result 1, \<lparr> cr_allowed = False, cr_remaining = 0, cr_retryAfterMs = 9 \<rparr>, allowed_result 2, allowed_result 2]"
proof -
  have ok: "0 < rl_maxAttempts (createAuthRateLimiter two_attempts)" "0 \<le> rl_lockoutMs (createAuthRateLimiter two_attempts)"
    by code_simp+
  have legal: "legal_run (al_step quad_library) (al_legal quad_library) (al_new (createAuthRateLimiter two_attempts) 0) sample_logins"
    by code_simp
  show ?thesis unfolding rate_limiter_refines [OF ok legal] by code_simp
qed

text \<open>C21: A lockout holds. Once a key is locked until \<open>t\<close>, no sequence of checks, failures, prunes and resets of other keys
  before \<open>t\<close>, in any order and for any clients, shortens it: a check of the key by a client that is not exempt
  is denied with exactly the time left.\<close>

theorem lockout_holds:
  assumes "rl_locked r key t" and "distinct (mkeys (rl_entries r))" and "list_all (spares L key t) bs"
    and "rl_resolveKey L ip scope = (key, i)" and "\<not> isExempt L r i" and "now < t"
  shows "fst (rl_check L ip scope now (fst (run_ops (rl_step L) r bs)))
    = \<lparr> cr_allowed = False, cr_remaining = 0, cr_retryAfterMs = t - now \<rparr>"
  using locked_check [OF locked_run [OF assms(1-3)] assms(4) _ assms(6)] assms(5) by (simp add: exempt_run)

theorem lockout_holds_witness:
  "fst (rl_check quad_library (Some (js ''1.2.3.4'')) None 20
     (fst (run_ops (rl_step quad_library)
       (fst (run_ops (rl_step quad_library) (createAuthRateLimiter two_attempts) [RlFail (Some (js ''1.2.3.4'')) None 1, RlFail (Some (js ''1.2.3.4'')) None 2]))
       [RlPrune 19, RlReset (Some (js ''5.6.7.8'')) None, RlFail (Some (js ''1.2.3.4'')) None 19])))
   = \<lparr> cr_allowed = False, cr_remaining = 0, cr_retryAfterMs = 2 \<rparr>"
proof -
  let ?r = "fst (run_ops (rl_step quad_library) (createAuthRateLimiter two_attempts)
    [RlFail (Some (js ''1.2.3.4'')) None 1, RlFail (Some (js ''1.2.3.4'')) None 2])"
  let ?bs = "[RlPrune 19, RlReset (Some (js ''5.6.7.8'')) None, RlFail (Some (js ''1.2.3.4'')) None 19]"
  have "rl_locked ?r (js ''default:1.2.3.4'') 22" "distinct (mkeys (rl_entries ?r))"
    "list_all (spares quad_library (js ''default:1.2.3.4'') 22) ?bs"
    "rl_resolveKey quad_library (Some (js ''1.2.3.4'')) None = (js ''default:1.2.3.4'', js ''1.2.3.4'')"
    "\<not> isExempt quad_library ?r (js ''1.2.3.4'')"
    by code_simp+
  from lockout_holds [OF this, of 20] show ?thesis by simp
qed

text \<open>A failure recorded after the lockout has run out, before any check, is forgotten by the next check; after a check it counts.\<close>

lemma failure_after_lockout_forgotten:
  "let a = Some (js ''1.2.3.4''); run = (\<lambda>bs. snd (run_ops (rl_step quad_library) (createAuthRateLimiter two_attempts) bs)) in
     run [RlFail a None 1, RlFail a None 2, RlFail a None 30, RlCheck a None 31] = [allowed_result 2] \<and>
     run [RlFail a None 1, RlFail a None 2, RlCheck a None 30, RlFail a None 30, RlCheck a None 31] = [allowed_result 2, allowed_result 1]"
  by code_simp

end
