(* ===== verification/QueueDirective.thy ===== *)
theory QueueDirective
  imports FollowupQueue
begin

text \<open>
  Where the settings of a follow-up queue come from: the inline directive \<open>/queue ...\<close> of a message
  (\<open>src/src/auto-reply/reply/queue/directive.ts\<close>, \<open>normalize.ts\<close>, with the tokens of
  \<open>src/src/auto-reply/reply/directive-parsing.ts\<close> and the durations of \<open>src/src/cli/parse-duration.ts\<close>), the
  configuration and the session (\<open>settings.ts\<close>), and what is done with a message while a run is
  active (\<open>src/src/auto-reply/reply/queue-policy.ts\<close>).  Positions in a text are numbers, as in the source.
\<close>

section \<open>Names of modes and policies\<close>

definition normalizeQueueMode :: "jsstr option \<Rightarrow> queue_mode option" where
  "normalizeQueueMode raw = (case normalizeOptionalLowercaseString raw of
     None \<Rightarrow> None
   | Some cleaned \<Rightarrow>
      if cleaned = js ''queue'' \<or> cleaned = js ''queued'' then Some Steer
      else if cleaned = js ''interrupt'' \<or> cleaned = js ''interrupts'' \<or> cleaned = js ''abort'' then Some Interrupt
      else if cleaned = js ''steer'' \<or> cleaned = js ''steering'' then Some Steer
      else if cleaned = js ''followup'' \<or> cleaned = js ''follow-ups'' \<or> cleaned = js ''followups'' then Some Followup
      else if cleaned = js ''collect'' \<or> cleaned = js ''coalesce'' then Some Collect
      else if cleaned = js ''steer+backlog'' \<or> cleaned = js ''steer-backlog'' \<or> cleaned = js ''steer_backlog'' then Some SteerBacklog
      else None)"

definition normalizeQueueDropPolicy :: "jsstr option \<Rightarrow> drop_policy option" where
  "normalizeQueueDropPolicy raw = (case normalizeOptionalLowercaseString raw of
     None \<Rightarrow> None
   | Some cleaned \<Rightarrow>
      if cleaned = js ''old'' \<or> cleaned = js ''oldest'' then Some DropOld
      else if cleaned = js ''new'' \<or> cleaned = js ''newest'' then Some DropNew
      else if cleaned = js ''summarize'' \<or> cleaned = js ''summary'' then Some Summarize
      else None)"

section \<open>Durations\<close>

datatype time_unit = MS | S | M | H | D

definition DURATION_MULTIPLIERS :: "time_unit \<Rightarrow> rat" where
  "DURATION_MULTIPLIERS u = (case u of MS \<Rightarrow> 1 | S \<Rightarrow> 1000 | M \<Rightarrow> 60000 | H \<Rightarrow> 3600000 | D \<Rightarrow> 86400000)"

text \<open>\<open>\d+(?:\.\d+)?\<close> at the start of a text: what it matches and the rest.\<close>

definition match_number :: "jsstr \<Rightarrow> (jsstr \<times> jsstr) option" where
  "match_number s = (let ds = takeWhile is_digit s; rest = drop (length ds) s in
     if ds = [] then None
     else (case rest of
       c # r \<Rightarrow> if c = 0x2E \<and> takeWhile is_digit r \<noteq> []
         then Some (ds @ c # takeWhile is_digit r, drop (length (takeWhile is_digit r)) r) else Some (ds, rest)
     | [] \<Rightarrow> Some (ds, [])))"

text \<open>\<open>(ms|s|m|h|d)\<close> at the start of a text.\<close>

definition match_unit :: "jsstr \<Rightarrow> (time_unit \<times> jsstr) option" where
  "match_unit s =
    (if starts_with s (js ''ms'') then Some (MS, drop 2 s)
     else (case s of
       c # r \<Rightarrow> if c = 0x73 then Some (S, r) else if c = 0x6D then Some (M, r)
         else if c = 0x68 then Some (H, r) else if c = 0x64 then Some (D, r) else None
     | [] \<Rightarrow> None))"

definition num_rat :: "jsstr \<Rightarrow> rat option" where
  "num_rat s = (case Number s of Fin q \<Rightarrow> if q < 0 then None else Some q | _ \<Rightarrow> None)"

text \<open>\<open>Math.round\<close>.\<close>

definition math_round :: "rat \<Rightarrow> int" where
  "math_round q = \<lfloor>q + 1 / 2\<rfloor>"

text \<open>One token of the composite form, which starts where the last one ended; \<open>None\<close> is the exception.\<close>

definition match_duration :: "jsstr \<Rightarrow> (rat \<times> jsstr) option" where
  "match_duration s = (case match_number s of
     None \<Rightarrow> None
   | Some (n, r) \<Rightarrow> (case match_unit r of
       None \<Rightarrow> None
     | Some (u, r') \<Rightarrow> (case num_rat n of None \<Rightarrow> None | Some q \<Rightarrow> Some (q * DURATION_MULTIPLIERS u, r'))))"

lemma match_number_length: "match_number s = Some (n, r) \<Longrightarrow> length r < length s"
proof -
  assume a: "match_number s = Some (n, r)"
  let ?ds = "takeWhile is_digit s" and ?rest = "drop (length (takeWhile is_digit s)) s"
  have ne: "?ds \<noteq> []" using a by (auto simp: match_number_def Let_def)
  have "length ?ds + length ?rest = length s" using length_takeWhile_le [of is_digit s] by simp
  moreover have "0 < length ?ds" using ne by blast
  moreover have "length r \<le> length ?rest"
  proof (cases ?rest)
    case Nil
    then show ?thesis using a ne by (simp add: match_number_def Let_def)
  next
    case (Cons c t)
    then have "r = c # t \<or> r = drop (length (takeWhile is_digit t)) t"
      using a ne by (simp add: match_number_def Let_def split: if_splits)
    then show ?thesis using Cons by auto
  qed
  ultimately show ?thesis by linarith
qed

lemma match_duration_length: "match_duration s = Some (q, r) \<Longrightarrow> length r < length s"
  using match_number_length [of s]
  by (fastforce simp: match_duration_def match_unit_def split: option.splits if_splits list.splits)

function duration_tokens :: "jsstr \<Rightarrow> rat option" where
  "duration_tokens s =
    (if s = [] then Some 0
     else (case match_duration s of
       None \<Rightarrow> None
     | Some (q, r) \<Rightarrow> (case duration_tokens r of None \<Rightarrow> None | Some t \<Rightarrow> Some (q + t))))"
  by pat_completeness auto
termination by (relation "measure length") (auto dest: match_duration_length)

declare duration_tokens.simps [simp del]

definition parseDurationMs :: "jsstr \<Rightarrow> time_unit option \<Rightarrow> int option" where
  "parseDurationMs raw defaultUnit =
    (let trimmed = toLowerCase (trim raw);
         single = (case match_number trimmed of
             None \<Rightarrow> None
           | Some (n, r) \<Rightarrow> if r = [] then Some (n, None)
               else (case match_unit r of Some (u, r') \<Rightarrow> if r' = [] then Some (n, Some u) else None | None \<Rightarrow> None))
     in if trimmed = [] then None
        else (case single of
          Some (n, u) \<Rightarrow> (case num_rat n of
              None \<Rightarrow> None
            | Some value \<Rightarrow> Some (math_round (value * DURATION_MULTIPLIERS
                (case u of Some x \<Rightarrow> x | None \<Rightarrow> (case defaultUnit of Some d \<Rightarrow> d | None \<Rightarrow> MS)))))
        | None \<Rightarrow> map_option math_round (duration_tokens trimmed)))"

section \<open>Tokens\<close>

definition spaces :: "jsstr \<Rightarrow> nat" where
  "spaces s = length (takeWhile is_space s)"

definition skipDirectiveArgPrefix :: "jsstr \<Rightarrow> nat" where
  "skipDirectiveArgPrefix raw = (let i = spaces raw in
     case drop i raw of
       c # _ \<Rightarrow> if c = 0x3A then i + 1 + spaces (drop (i + 1) raw) else i
     | [] \<Rightarrow> i)"

definition takeDirectiveToken :: "jsstr \<Rightarrow> nat \<Rightarrow> jsstr option \<times> nat" where
  "takeDirectiveToken raw startIndex =
    (let i = startIndex + spaces (drop startIndex raw) in
     if length raw \<le> i then (None, i)
     else (let token = takeWhile (\<lambda>c. \<not> is_space c) (drop i raw); j = i + length token
           in (Some token, j + spaces (drop j raw))))"

section \<open>The arguments of the directive\<close>

record queue_directive =
  qd_cleaned :: jsstr
  qd_queueMode :: "queue_mode option"
  qd_queueReset :: bool
  qd_rawMode :: "jsstr option"
  qd_hasDirective :: bool
  qd_debounceMs :: "int option"
  qd_cap :: "int option"
  qd_dropPolicy :: "drop_policy option"
  qd_rawDebounce :: "jsstr option"
  qd_rawCap :: "jsstr option"
  qd_rawDrop :: "jsstr option"
  qd_hasOptions :: bool

definition no_directive :: "jsstr \<Rightarrow> queue_directive" where
  "no_directive cleaned = \<lparr> qd_cleaned = cleaned, qd_queueMode = None, qd_queueReset = False, qd_rawMode = None,
     qd_hasDirective = False, qd_debounceMs = None, qd_cap = None, qd_dropPolicy = None, qd_rawDebounce = None,
     qd_rawCap = None, qd_rawDrop = None, qd_hasOptions = False \<rparr>"

definition parseQueueDebounce :: "jsstr option \<Rightarrow> int option" where
  "parseQueueDebounce raw = (case raw of
     None \<Rightarrow> None
   | Some s \<Rightarrow> if s = [] then None
      else (case parseDurationMs (trim s) (Some MS) of
        None \<Rightarrow> None | Some parsed \<Rightarrow> if parsed \<le> 0 then None else Some parsed))"

definition parseQueueCap :: "jsstr option \<Rightarrow> int option" where
  "parseQueueCap raw = (case raw of
     None \<Rightarrow> None
   | Some s \<Rightarrow> if s = [] then None
      else (case Number s of Fin q \<Rightarrow> if \<lfloor>q\<rfloor> < 1 then None else Some \<lfloor>q\<rfloor> | _ \<Rightarrow> None))"

text \<open>\<open>token.split(/[:=]/)[1] ?? ""\<close>.\<close>

definition option_value :: "jsstr \<Rightarrow> jsstr" where
  "option_value token = (case dropWhile (\<lambda>c. c \<noteq> 0x3A \<and> c \<noteq> 0x3D) token of
     [] \<Rightarrow> [] | _ # r \<Rightarrow> takeWhile (\<lambda>c. c \<noteq> 0x3A \<and> c \<noteq> 0x3D) r)"

definition option_named :: "string \<Rightarrow> jsstr \<Rightarrow> bool" where
  "option_named name lowered \<longleftrightarrow> starts_with lowered (js (name @ '':'')) \<or> starts_with lowered (js (name @ ''=''))"

text \<open>What one token does: end the loop without using it, end it with a reset, or change the state and go on.\<close>

datatype 'd token_effect = Unused | Reset | Used 'd

definition token_step :: "jsstr \<Rightarrow> queue_directive \<Rightarrow> queue_directive token_effect" where
  "token_step token d = (case normalizeOptionalLowercaseString (Some token) of
     None \<Rightarrow> Unused
   | Some lowered \<Rightarrow>
      if lowered = js ''default'' \<or> lowered = js ''reset'' \<or> lowered = js ''clear'' then Reset
      else if option_named ''debounce'' lowered
      then Used (d\<lparr> qd_rawDebounce := Some (option_value token), qd_debounceMs := parseQueueDebounce (Some (option_value token)),
                 qd_hasOptions := True \<rparr>)
      else if option_named ''cap'' lowered
      then Used (d\<lparr> qd_rawCap := Some (option_value token), qd_cap := parseQueueCap (Some (option_value token)), qd_hasOptions := True \<rparr>)
      else if option_named ''drop'' lowered
      then Used (d\<lparr> qd_rawDrop := Some (option_value token), qd_dropPolicy := normalizeQueueDropPolicy (Some (option_value token)),
                 qd_hasOptions := True \<rparr>)
      else (case normalizeQueueMode (Some token) of
        Some mode \<Rightarrow> Used (d\<lparr> qd_queueMode := Some mode, qd_rawMode := Some token \<rparr>)
      | None \<Rightarrow> Unused))"

lemma take_token_advances: "takeDirectiveToken raw i = (Some token, j) \<Longrightarrow> i < j \<and> i < length raw"
proof -
  assume a: "takeDirectiveToken raw i = (Some token, j)"
  let ?i = "i + spaces (drop i raw)" and ?t = "takeWhile (\<lambda>c. \<not> is_space c) (drop (i + spaces (drop i raw)) raw)"
  have i: "?i < length raw" using a by (auto simp: takeDirectiveToken_def Let_def split: if_splits)
  then have "drop ?i raw = dropWhile is_space (drop i raw)"
    by (simp add: spaces_def dropWhile_eq_drop add.commute)
  then have "\<not> is_space (hd (drop ?i raw))" using i hd_dropWhile [of is_space "drop i raw"] by (metis drop_eq_Nil leD)
  then have "?t \<noteq> []" using i by (cases "drop ?i raw") auto
  then have "0 < length ?t" by simp
  moreover have "j = ?i + length ?t + spaces (drop (?i + length ?t) raw)"
    using a i by (auto simp: takeDirectiveToken_def Let_def split: if_splits)
  ultimately show ?thesis using i by linarith
qed

function directive_loop :: "jsstr \<Rightarrow> nat \<Rightarrow> nat \<Rightarrow> queue_directive \<Rightarrow> nat \<times> queue_directive" where
  "directive_loop raw i consumed d =
    (if length raw \<le> i then (consumed, d)
     else (case takeDirectiveToken raw i of
       (None, _) \<Rightarrow> (consumed, d)
     | (Some token, j) \<Rightarrow> (case token_step token d of
         Unused \<Rightarrow> (consumed, d)
       | Reset \<Rightarrow> (j, d\<lparr> qd_queueReset := True \<rparr>)
       | Used d' \<Rightarrow> directive_loop raw j j d')))"
  by pat_completeness auto
termination
  by (relation "measure (\<lambda>(raw, i, _). length raw - i)") (auto dest!: take_token_advances [OF sym] intro!: diff_less_mono2)

declare directive_loop.simps [simp del]

definition parseQueueDirectiveArgs :: "jsstr \<Rightarrow> nat \<times> queue_directive" where
  "parseQueueDirectiveArgs raw = (let i = skipDirectiveArgPrefix raw in directive_loop raw i i (no_directive []))"

section \<open>The directive in a message\<close>

definition directive_word :: jsstr where
  "directive_word = js ''/queue''"

text \<open>\<open>/(?:^|\s)\/queue(?=$|\s|:)/i\<close> at a position: the length of the match.  The expression ignores case.\<close>

definition ends_directive :: "jsstr \<Rightarrow> bool" where
  "ends_directive rest = (case rest of [] \<Rightarrow> True | c # _ \<Rightarrow> is_space c \<or> c = 0x3A)"

definition word_here :: "jsstr \<Rightarrow> bool" where
  "word_here s \<longleftrightarrow> toLowerCase (take 6 s) = directive_word \<and> ends_directive (drop 6 s)"

definition match_at :: "jsstr \<Rightarrow> nat \<Rightarrow> nat option" where
  "match_at body i =
    (if i = 0 \<and> word_here body then Some 6
     else (case drop i body of c # r \<Rightarrow> if is_space c \<and> word_here r then Some 7 else None | [] \<Rightarrow> None))"

definition first_match :: "jsstr \<Rightarrow> (nat \<times> nat) option" where
  "first_match body = (case List.map_filter (\<lambda>i. map_option (Pair i) (match_at body i)) [0..<Suc (length body)] of
     [] \<Rightarrow> None | m # _ \<Rightarrow> Some m)"

text \<open>\<open>m.indexOf("/queue")\<close>, which minds the case, in a match of six or seven units.\<close>

definition word_index :: "jsstr \<Rightarrow> int" where
  "word_index m = (if starts_with m directive_word then 0 else if starts_with (drop 1 m) directive_word then 1 else - 1)"

text \<open>\<open>body.slice(0, end)\<close> and \<open>body.slice(start)\<close>, where a negative position counts from the end.\<close>

definition slice_end :: "jsstr \<Rightarrow> int \<Rightarrow> jsstr" where
  "slice_end s e = take (nat (if e < 0 then int (length s) + e else e)) s"

definition slice_from :: "jsstr \<Rightarrow> int \<Rightarrow> jsstr" where
  "slice_from s b = drop (nat (if b < 0 then max 0 (int (length s) + b) else b)) s"

definition extractQueueDirective :: "jsstr option \<Rightarrow> queue_directive" where
  "extractQueueDirective body_opt = (case body_opt of
     None \<Rightarrow> no_directive []
   | Some body \<Rightarrow>
      if body = [] then no_directive []
      else (case first_match body of
        None \<Rightarrow> no_directive (trim body)
      | Some (index, n) \<Rightarrow>
         (let start = int index + word_index (take n (drop index body));
              argsStart = start + 6;
              (consumed, d) = parseQueueDirectiveArgs (slice_from body argsStart);
              cleanedRaw = slice_end body start @ [0x20] @ slice_from body (argsStart + int consumed)
          in d\<lparr> qd_cleaned := trim (squash_space cleanedRaw), qd_hasDirective := True \<rparr>)))"

section \<open>The settings of a queue\<close>

record queue_config =
  qc_mode :: "jsstr option"
  qc_byChannel :: "(jsstr, jsstr) jsmap option"
  qc_debounceMs :: "jsnum option"
  qc_debounceMsByChannel :: "(jsstr, jsval) jsmap option"
  qc_cap :: "jsnum option"
  qc_drop :: "jsstr option"

record session_queue =
  sq_queueMode :: "jsstr option"
  sq_queueDebounceMs :: "jsnum option"
  sq_queueCap :: "jsnum option"
  sq_queueDrop :: "drop_policy option"

record settings_params =
  sp_queue :: "queue_config option"
  sp_channel :: "jsstr option"
  sp_session :: "session_queue option"
  sp_inlineMode :: "queue_mode option"
  sp_inlineDebounceMs :: "jsnum option"
  sp_inlineCap :: "jsnum option"
  sp_inlineDrop :: "drop_policy option"
  sp_pluginDebounceMs :: "jsnum option"

definition defaultQueueModeForChannel :: "jsstr option \<Rightarrow> queue_mode" where
  "defaultQueueModeForChannel channel = Collect"

definition resolveChannelDebounce :: "(jsstr, jsval) jsmap option \<Rightarrow> jsstr option \<Rightarrow> jsnum option" where
  "resolveChannelDebounce byChannel channelKey = (case (channelKey, byChannel) of
     (Some k, Some m) \<Rightarrow> (case mget m k of Some (VNum (Fin q)) \<Rightarrow> Some (Fin (max 0 q)) | _ \<Rightarrow> None)
   | _ \<Rightarrow> None)"

text \<open>\<open>a ?? b ?? ...\<close>.\<close>

fun first_set :: "'a option list \<Rightarrow> 'a option" where
  "first_set [] = None"
| "first_set (None # xs) = first_set xs"
| "first_set (Some x # xs) = Some x"

definition num_max1_floor :: "jsnum \<Rightarrow> jsnum" where
  "num_max1_floor n = (case num_floor n of Fin q \<Rightarrow> Fin (max 1 q) | NegInf \<Rightarrow> Fin 1 | m \<Rightarrow> m)"

definition resolveQueueSettings :: "settings_params \<Rightarrow> queue_mode queue_settings" where
  "resolveQueueSettings p =
    (let channelKey = normalizeOptionalLowercaseString (sp_channel p);
         queueCfg = sp_queue p;
         providerModeRaw = (case (channelKey, Option.bind queueCfg qc_byChannel) of (Some k, Some m) \<Rightarrow> mget m k | _ \<Rightarrow> None);
         mode = the (first_set [sp_inlineMode p, normalizeQueueMode (Option.bind (sp_session p) sq_queueMode),
             normalizeQueueMode providerModeRaw, normalizeQueueMode (Option.bind queueCfg qc_mode),
             Some (defaultQueueModeForChannel channelKey)]);
         debounceRaw = the (first_set [sp_inlineDebounceMs p, Option.bind (sp_session p) sq_queueDebounceMs,
             resolveChannelDebounce (Option.bind queueCfg qc_debounceMsByChannel) channelKey, sp_pluginDebounceMs p,
             Option.bind queueCfg qc_debounceMs, Some DEFAULT_QUEUE_DEBOUNCE_MS]);
         capRaw = the (first_set [sp_inlineCap p, Option.bind (sp_session p) sq_queueCap, Option.bind queueCfg qc_cap,
             Some DEFAULT_QUEUE_CAP]);
         dropRaw = the (first_set [sp_inlineDrop p, Option.bind (sp_session p) sq_queueDrop,
             normalizeQueueDropPolicy (Option.bind queueCfg qc_drop), Some DEFAULT_QUEUE_DROP])
     in \<lparr> set_mode = mode, set_debounceMs = Some (num_max0 debounceRaw), set_cap = Some (num_max1_floor capRaw),
          set_dropPolicy = Some dropRaw \<rparr>)"

datatype active_run_action = RunNow | EnqueueFollowup | DropMessage

definition resolveActiveRunQueueAction :: "bool \<Rightarrow> bool \<Rightarrow> bool \<Rightarrow> queue_mode \<Rightarrow> active_run_action" where
  "resolveActiveRunQueueAction isActive isHeartbeat shouldFollowup queueMode =
    (if \<not> isActive then RunNow
     else if isHeartbeat then DropMessage
     else if shouldFollowup \<or> queueMode = Steer then EnqueueFollowup
     else RunNow)"

section \<open>Numbers and tokens read back\<close>

lemma digit_facts: "is_digit c \<Longrightarrow> \<not> is_space c \<and> lower_char c = c \<and> c \<noteq> 0x2D \<and> c \<noteq> 0x2B \<and> c \<noteq> 0x78 \<and> c \<noteq> 0x58
    \<and> c \<noteq> 0x6F \<and> c \<noteq> 0x4F \<and> c \<noteq> 0x62 \<and> c \<noteq> 0x42 \<and> c \<noteq> 0x49 \<and> c \<noteq> 0x3A \<and> c \<noteq> 0x3D"
  by (auto simp: is_digit_def is_space_def lower_char_def word_le_nat_alt)

lemma nat_str_hd: "is_digit (hd (nat_str n))" "is_digit (last (nat_str n))"
  using nat_str_digits [of n] nat_str_nonempty [of n] by (auto simp: list_all_iff)

lemma nat_str_all: "c \<in> set (nat_str n) \<Longrightarrow> is_digit c"
  using nat_str_digits [of n] by (simp add: list_all_iff)

lemma trim_nat_str: "trim (nat_str n) = nat_str n"
  using nat_str_hd [of n] digit_facts by (intro trim_id) blast

lemma Number_nat_str: "Number (nat_str n) = Fin (of_nat n)"
proof -
  obtain c r where cr: "nat_str n = c # r" using nat_str_nonempty [of n] by (cases "nat_str n") auto
  have digits: "is_digit c" "\<And>x. x \<in> set r \<Longrightarrow> is_digit x" using nat_str_all [of _ n] cr by auto
  have "r \<noteq> [] \<Longrightarrow> is_digit (hd r)" using digits(2) by simp
  moreover have "nat_str n \<noteq> js ''Infinity''" using digits(1) digit_facts [of c] by (auto simp: cr js_def)
  moreover have "trim (c # r) = c # r" "unsigned_decimal (c # r) = Fin (of_nat n)"
    using trim_nat_str [of n] unsigned_decimal_nat [of n] by (simp_all add: cr)
  ultimately show ?thesis
    using digits(1) digit_facts [of c] digit_facts [of "hd r"] by (auto simp: Number_def cr Let_def)
qed

lemma num_rat_nat_str: "num_rat (nat_str n) = Some (of_nat n)"
  by (simp add: num_rat_def Number_nat_str)

lemma math_round_nat: "math_round (of_nat n) = int n"
  by (simp add: math_round_def)

lemma match_number_nat_str:
  assumes "r = [] \<or> (\<not> is_digit (hd r) \<and> hd r \<noteq> 0x2E)"
  shows "match_number (nat_str n @ r) = Some (nat_str n, r)"
proof -
  have ds: "takeWhile is_digit (nat_str n @ r) = nat_str n"
    using assms nat_str_all [of _ n] by (cases r) (auto simp: takeWhile_append2)
  show ?thesis using assms unfolding match_number_def Let_def ds by (auto split: list.split)
qed

lemma lower_nat_str: "toLowerCase (nat_str n @ js ''ms'') = nat_str n @ js ''ms''"
  using nat_str_all [of _ n] digit_facts by (auto simp: toLowerCase_def js_def lower_char_def intro: map_idI)

lemma trim_nat_ms: "trim (nat_str n @ js ''ms'') = nat_str n @ js ''ms''"
  using nat_str_hd(1) [of n] digit_facts [of "hd (nat_str n)"]
  by (intro trim_id) (auto simp: js_def is_space_def)

lemma parse_debounce_text: "0 < n \<Longrightarrow> parseQueueDebounce (Some (nat_str n @ js ''ms'')) = Some (int n)"
proof -
  assume "0 < n"
  have u: "match_unit (js ''ms'') = Some (MS, [])" by code_simp
  have m: "match_number (nat_str n @ js ''ms'') = Some (nat_str n, js ''ms'')"
    by (rule match_number_nat_str) (simp add: js_def is_digit_def)
  have "js ''ms'' \<noteq> []" by (simp add: js_def)
  then show ?thesis
    using \<open>0 < n\<close> u m
    by (simp add: parseQueueDebounce_def parseDurationMs_def trim_nat_ms lower_nat_str num_rat_nat_str
        DURATION_MULTIPLIERS_def math_round_nat)
qed

lemma parse_cap_text: "0 < n \<Longrightarrow> parseQueueCap (Some (nat_str n)) = Some (int n)"
  by (simp add: parseQueueCap_def Number_nat_str)

text \<open>A token that is followed by a space is taken whole, and the loop goes on behind the space.\<close>

definition plain_token :: "jsstr \<Rightarrow> bool" where
  "plain_token t \<longleftrightarrow> t \<noteq> [] \<and> list_all (\<lambda>c. \<not> is_space c) t"

definition starts_text :: "jsstr \<Rightarrow> bool" where
  "starts_text s \<longleftrightarrow> s = [] \<or> \<not> is_space (hd s)"

lemma spaces_starts [simp]: "starts_text s \<Longrightarrow> spaces s = 0"
  by (cases s) (auto simp: spaces_def starts_text_def)

lemma plain_starts: "plain_token t \<Longrightarrow> starts_text (t @ r)"
  by (cases t) (auto simp: plain_token_def starts_text_def)

lemma take_token:
  assumes "plain_token t" and "starts_text rest"
  shows "takeDirectiveToken (before @ t @ 0x20 # rest) (length before) = (Some t, length before + length t + 1)"
proof -
  have t: "takeWhile (\<lambda>c. \<not> is_space c) (t @ 0x20 # rest) = t"
    using assms(1) by (auto simp: plain_token_def list_all_iff takeWhile_append2 is_space_def)
  have "spaces (0x20 # rest) = 1" using assms(2) by (cases rest) (auto simp: spaces_def starts_text_def is_space_def)
  moreover have "spaces (t @ 0x20 # rest) = 0" using plain_starts [OF assms(1)] by simp
  ultimately show ?thesis using t assms(1)
    by (simp add: takeDirectiveToken_def Let_def add.commute plain_token_def)
qed

lemma directive_loop_used:
  assumes "plain_token t" and "starts_text rest" and "token_step t d = Used d'"
  shows "directive_loop (before @ t @ 0x20 # rest) (length before) c d =
    directive_loop ((before @ t @ [0x20]) @ rest) (length (before @ t @ [0x20])) (length (before @ t @ [0x20])) d'"
  using take_token [OF assms(1,2), of before] assms(1,3)
  by (simp add: directive_loop.simps [of "before @ t @ 0x20 # rest" "length before"])

lemma directive_loop_stops:
  assumes "starts_text rest" and "\<And>d. token_step (takeWhile (\<lambda>c. \<not> is_space c) rest) d = Unused"
  shows "directive_loop (before @ rest) (length before) c d = (c, d)"
  using assms by (simp add: directive_loop.simps [of "before @ rest"] takeDirectiveToken_def Let_def)

section \<open>The texts of modes and policies\<close>

definition mode_text :: "queue_mode \<Rightarrow> jsstr" where
  "mode_text m = (case m of Steer \<Rightarrow> js ''steer'' | Followup \<Rightarrow> js ''followup'' | Collect \<Rightarrow> js ''collect''
     | SteerBacklog \<Rightarrow> js ''steer-backlog'' | Interrupt \<Rightarrow> js ''interrupt'' | QueueMode \<Rightarrow> js ''queue'')"

definition drop_text :: "drop_policy \<Rightarrow> jsstr" where
  "drop_text p = (case p of Summarize \<Rightarrow> js ''summarize'' | DropOld \<Rightarrow> js ''old'' | DropNew \<Rightarrow> js ''new'')"

text \<open>The directive that states all four settings.\<close>

definition directive_args :: "queue_mode \<Rightarrow> nat \<Rightarrow> nat \<Rightarrow> drop_policy \<Rightarrow> jsstr list" where
  "directive_args m ms cap p =
     [mode_text m, js ''debounce:'' @ nat_str ms @ js ''ms'', js ''cap:'' @ nat_str cap, js ''drop:'' @ drop_text p]"

lemma plain_nat_str: "list_all (\<lambda>c. \<not> is_space c) (nat_str n)"
  using nat_str_all [of _ n] digit_facts by (auto simp: list_all_iff)

lemma plain_args:
  "plain_token (mode_text m)" "plain_token (js ''debounce:'' @ nat_str n @ js ''ms'')" "plain_token (js ''cap:'' @ nat_str n)"
  "plain_token (js ''drop:'' @ drop_text p)"
  using plain_nat_str [of n]
  by (cases m; cases p; simp add: plain_token_def mode_text_def drop_text_def js_def is_space_def)+

lemma mode_step: "m \<noteq> QueueMode \<Longrightarrow> token_step (mode_text m) d = Used (d\<lparr> qd_queueMode := Some m, qd_rawMode := Some (mode_text m) \<rparr>)"
proof -
  assume m: "m \<noteq> QueueMode"
  have low: "normalizeOptionalLowercaseString (Some (mode_text m)) = Some (mode_text m)"
    by (cases m; simp only:; code_simp)
  have n: "normalizeQueueMode (Some (mode_text m)) = Some m" using m by (cases m; simp only:) code_simp+
  have "mode_text m \<noteq> js ''default'' \<and> mode_text m \<noteq> js ''reset'' \<and> mode_text m \<noteq> js ''clear''
      \<and> \<not> option_named ''debounce'' (mode_text m) \<and> \<not> option_named ''cap'' (mode_text m) \<and> \<not> option_named ''drop'' (mode_text m)"
    by (cases m; simp only:; code_simp)
  then show ?thesis using low n by (simp add: token_step_def)
qed

lemma takeWhile_value:
  "list_all (\<lambda>c. is_digit c \<or> 0x61 \<le> c) v \<Longrightarrow> takeWhile (\<lambda>c. c \<noteq> 0x3A \<and> c \<noteq> 0x3D) v = v"
  by (induction v) (auto simp: is_digit_def word_le_nat_alt)

lemma lower_value: "list_all (\<lambda>c. is_digit c \<or> (0x61 \<le> c \<and> c \<le> 0x7A)) v \<Longrightarrow> toLowerCase v = v"
  by (induction v) (auto simp: toLowerCase_def lower_char_def is_digit_def word_le_nat_alt)

lemma value_chars:
  "list_all (\<lambda>c. is_digit c \<or> (0x61 \<le> c \<and> c \<le> 0x7A)) (nat_str n @ js ''ms'')"
  "list_all (\<lambda>c. is_digit c \<or> (0x61 \<le> c \<and> c \<le> 0x7A)) (nat_str n)"
  "list_all (\<lambda>c. is_digit c \<or> (0x61 \<le> c \<and> c \<le> 0x7A)) (drop_text p)"
  using nat_str_all [of _ n] by (cases p; auto simp: list_all_iff js_def drop_text_def)+

lemma value_not_blank: "list_all (\<lambda>c. is_digit c \<or> (0x61 \<le> c \<and> c \<le> 0x7A)) v \<Longrightarrow> c \<in> set v \<Longrightarrow> \<not> is_space c"
  by (auto simp: list_all_iff is_digit_def is_space_def word_le_nat_alt)

lemma option_token:
  assumes v: "list_all (\<lambda>c. is_digit c \<or> (0x61 \<le> c \<and> c \<le> 0x7A)) v" "v \<noteq> []"
    and name: "name \<in> {''debounce'', ''cap'', ''drop''}"
  shows "normalizeOptionalLowercaseString (Some (js (name @ '':'') @ v)) = Some (js (name @ '':'') @ v)"
    and "option_value (js (name @ '':'') @ v) = v"
    and "other \<in> {''debounce'', ''cap'', ''drop''} \<Longrightarrow> option_named other (js (name @ '':'') @ v) \<longleftrightarrow> other = name"
proof -
  have "\<not> is_space (hd (js (name @ '':'') @ v))" using name by (auto simp: js_def is_space_def)
  moreover have "\<not> is_space (last (js (name @ '':'') @ v))" using value_not_blank [OF v(1), of "last v"] v(2) by simp
  ultimately have t: "trim (js (name @ '':'') @ v) = js (name @ '':'') @ v" by (intro trim_id) blast
  have "toLowerCase (js (name @ '':'')) = js (name @ '':'')"
    using name by (auto simp: js_def toLowerCase_def lower_char_def)
  then have l: "toLowerCase (js (name @ '':'') @ v) = js (name @ '':'') @ v"
    using lower_value [OF v(1)] by (simp add: toLowerCase_def)
  show "normalizeOptionalLowercaseString (Some (js (name @ '':'') @ v)) = Some (js (name @ '':'') @ v)"
    using t l name by (auto simp: normalizeOptionalLowercaseString_def normalizeOptionalString_def js_def)
  have "takeWhile (\<lambda>c. c \<noteq> 0x3A \<and> c \<noteq> 0x3D) v = v" using v(1) by (intro takeWhile_value) (auto simp: list_all_iff)
  then show "option_value (js (name @ '':'') @ v) = v" using name by (auto simp: option_value_def js_def)
  show "option_named other (js (name @ '':'') @ v) \<longleftrightarrow> other = name" if "other \<in> {''debounce'', ''cap'', ''drop''}"
    using that name by (auto simp: option_named_def starts_with_def js_def)
qed

lemma js_append: "js (a @ b) = js a @ js b"
  by (simp add: js_def)

lemma option_steps:
  "0 < n \<Longrightarrow> token_step (js ''debounce:'' @ nat_str n @ js ''ms'') d =
     Used (d\<lparr> qd_rawDebounce := Some (nat_str n @ js ''ms''), qd_debounceMs := Some (int n), qd_hasOptions := True \<rparr>)"
  "0 < n \<Longrightarrow> token_step (js ''cap:'' @ nat_str n) d =
     Used (d\<lparr> qd_rawCap := Some (nat_str n), qd_cap := Some (int n), qd_hasOptions := True \<rparr>)"
  "token_step (js ''drop:'' @ drop_text p) d =
     Used (d\<lparr> qd_rawDrop := Some (drop_text p), qd_dropPolicy := Some p, qd_hasOptions := True \<rparr>)"
proof -
  have other: "js (name @ '':'') @ v \<noteq> js ''default''" "js (name @ '':'') @ v \<noteq> js ''reset''" "js (name @ '':'') @ v \<noteq> js ''clear''"
    if "name \<in> {''debounce'', ''cap'', ''drop''}" for name v using that by (auto simp: js_def)
  have d: "normalizeQueueDropPolicy (Some (drop_text p)) = Some p" by (cases p; simp only:; code_simp)
  have ne: "drop_text p \<noteq> []" by (cases p) (simp_all add: drop_text_def js_def)
  show "token_step (js ''debounce:'' @ nat_str n @ js ''ms'') d =
     Used (d\<lparr> qd_rawDebounce := Some (nat_str n @ js ''ms''), qd_debounceMs := Some (int n), qd_hasOptions := True \<rparr>)" if "0 < n"
    using option_token [OF value_chars(1) [of n], of "''debounce''"] other [of "''debounce''" "nat_str n @ js ''ms''"] parse_debounce_text [OF that]
    by (simp add: token_step_def)
  show "token_step (js ''cap:'' @ nat_str n) d =
     Used (d\<lparr> qd_rawCap := Some (nat_str n), qd_cap := Some (int n), qd_hasOptions := True \<rparr>)" if "0 < n"
    using option_token [OF value_chars(2) [of n], of "''cap''"] other [of "''cap''" "nat_str n"] parse_cap_text [OF that]
    by (simp add: token_step_def)
  show "token_step (js ''drop:'' @ drop_text p) d =
     Used (d\<lparr> qd_rawDrop := Some (drop_text p), qd_dropPolicy := Some p, qd_hasOptions := True \<rparr>)"
    using option_token [OF value_chars(3) [of p] ne, of "''drop''"] other [of "''drop''" "drop_text p"] d
    by (simp add: token_step_def)
qed

text \<open>Where the directive is found: behind a text without a slash.\<close>

lemma word_here_slash: "word_here s \<Longrightarrow> hd s = 0x2F \<and> s \<noteq> []"
  by (cases s) (auto simp: word_here_def directive_word_def toLowerCase_def js_def lower_char_def split: if_splits)

lemma match_before:
  assumes "0x2F \<notin> set pre" and "i < length pre"
  shows "match_at (pre @ 0x20 # rest) i = None"
proof -
  have no: "\<not> word_here (drop k (pre @ 0x20 # rest))" if "k \<le> length pre" for k
  proof (cases "k = length pre")
    case True
    then show ?thesis using word_here_slash [of "0x20 # rest"] by auto
  next
    case False
    then have "k < length pre" using that by simp
    then have "hd (drop k (pre @ 0x20 # rest)) \<in> set pre" by (simp add: hd_drop_conv_nth nth_append)
    then show ?thesis using word_here_slash assms(1) by metis
  qed
  have "drop i (pre @ 0x20 # rest) = (pre @ 0x20 # rest) ! i # drop (Suc i) (pre @ 0x20 # rest)"
    by (rule Cons_nth_drop_Suc [symmetric]) (use assms(2) in simp)
  then show ?thesis using no [of 0] no [of "Suc i"] assms(2) by (simp add: match_at_def)
qed

lemma find_directive:
  assumes "0x2F \<notin> set pre" and "ends_directive rest"
  shows "first_match (pre @ 0x20 # js ''/queue'' @ rest) = Some (length pre, 7)"
proof -
  let ?b = "pre @ 0x20 # js ''/queue'' @ rest" and ?f = "\<lambda>i. map_option (Pair i) (match_at (pre @ 0x20 # js ''/queue'' @ rest) i)"
  have "word_here (js ''/queue'' @ rest)"
    using assms(2) by (simp add: word_here_def directive_word_def js_def toLowerCase_def lower_char_def)
  moreover have "\<not> word_here (0x20 # js ''/queue'' @ rest)" using word_here_slash [of "0x20 # js ''/queue'' @ rest"] by auto
  ultimately have at: "match_at ?b (length pre) = Some 7"
    by (auto simp: match_at_def is_space_def)
  have "[0..<Suc (length ?b)] = [0..<length pre] @ length pre # [Suc (length pre)..<Suc (length ?b)]"
    using upt_add_eq_append [of 0 "length pre" "Suc (length ?b) - length pre"]
      upt_conv_Cons [of "length pre" "Suc (length ?b)"] by (simp del: upt_Suc)
  moreover have "List.map_filter ?f [0..<length pre] = []"
    using match_before [OF assms(1)] by (auto simp: map_filter_def filter_empty_conv)
  moreover have "List.map_filter ?f (xs @ ys) = List.map_filter ?f xs @ List.map_filter ?f ys" for xs ys
    by (simp add: map_filter_def)
  ultimately show ?thesis unfolding first_match_def using at by (simp only:) (simp add: map_filter_simps)
qed

section \<open>Properties\<close>

lemma starts_args: "starts_text (js ''debounce:'' @ r)" "starts_text (js ''cap:'' @ r)" "starts_text (js ''drop:'' @ r)"
  "starts_text (mode_text m @ r)"
  by (cases m; simp add: starts_text_def js_def is_space_def mode_text_def)+

text \<open>C22: A directive reads back. The directive that states a mode, a debounce, a capacity and a drop policy, between any two texts
  of which the first has no slash and the second does not go on with a word of the directive, gives
  exactly these settings and is cut out of the message.\<close>

theorem queue_directive_round_trip:
  assumes "m \<noteq> QueueMode" and "0 < ms" and "0 < cap" and pre: "0x2F \<notin> set pre"
    and post: "starts_text post" "\<And>d. token_step (takeWhile (\<lambda>c. \<not> is_space c) post) d = Unused"
  shows "let d = extractQueueDirective (Some (pre @ js '' /queue '' @ join [0x20] (directive_args m ms cap p) @ 0x20 # post))
    in qd_hasDirective d \<and> \<not> qd_queueReset d \<and> qd_queueMode d = Some m \<and> qd_debounceMs d = Some (int ms)
      \<and> qd_cap d = Some (int cap) \<and> qd_dropPolicy d = Some p
      \<and> qd_cleaned d = trim (squash_space (pre @ js ''  '' @ post))"
proof -
  let ?deb = "js ''debounce:'' @ nat_str ms @ js ''ms''" and ?cap = "js ''cap:'' @ nat_str cap" and ?drop = "js ''drop:'' @ drop_text p"
  let ?args = "0x20 # mode_text m @ 0x20 # ?deb @ 0x20 # ?cap @ 0x20 # ?drop @ 0x20 # post"
  let ?body = "pre @ 0x20 # js ''/queue'' @ ?args"
  have body: "pre @ js '' /queue '' @ join [0x20] (directive_args m ms cap p) @ 0x20 # post = ?body"
    by (simp add: directive_args_def js_def)
  have six: "length (js ''/queue'') = 6" by (simp add: js_def)
  have skip: "skipDirectiveArgPrefix ?args = 1"
    using starts_args(4) [of m] plain_args(1) [of m] by (cases "mode_text m")
      (auto simp: skipDirectiveArgPrefix_def spaces_def is_space_def plain_token_def mode_text_def js_def split: queue_mode.splits)
  define d1 where "d1 = (no_directive [])\<lparr> qd_queueMode := Some m, qd_rawMode := Some (mode_text m) \<rparr>"
  define d2 where "d2 = d1\<lparr> qd_rawDebounce := Some (nat_str ms @ js ''ms''), qd_debounceMs := Some (int ms), qd_hasOptions := True \<rparr>"
  define d3 where "d3 = d2\<lparr> qd_rawCap := Some (nat_str cap), qd_cap := Some (int cap), qd_hasOptions := True \<rparr>"
  define d4 where "d4 = d3\<lparr> qd_rawDrop := Some (drop_text p), qd_dropPolicy := Some p, qd_hasOptions := True \<rparr>"
  let ?n = "length ([0x20] @ mode_text m @ 0x20 # ?deb @ 0x20 # ?cap @ 0x20 # ?drop @ [0x20])"
  have "directive_loop ?args 1 1 (no_directive []) = (?n, d4)"
    using directive_loop_used [where before = "[0x20]" and d = "no_directive []", OF plain_args(1) starts_args(1) mode_step [OF assms(1)]]
      directive_loop_used [where before = "[0x20] @ mode_text m @ [0x20]" and d = d1, OF plain_args(2) starts_args(2) option_steps(1) [OF assms(2)]]
      directive_loop_used [where before = "[0x20] @ mode_text m @ 0x20 # ?deb @ [0x20]" and d = d2, OF plain_args(3) starts_args(3) option_steps(2) [OF assms(3)]]
      directive_loop_used [where before = "[0x20] @ mode_text m @ 0x20 # ?deb @ 0x20 # ?cap @ [0x20]" and d = d3, OF plain_args(4) post(1) option_steps(3)]
      directive_loop_stops [where before = "[0x20] @ mode_text m @ 0x20 # ?deb @ 0x20 # ?cap @ 0x20 # ?drop @ [0x20]" and d = d4, OF post]
    by (simp flip: d1_def d2_def d3_def d4_def)
  then have args: "parseQueueDirectiveArgs ?args = (?n, d4)" unfolding parseQueueDirectiveArgs_def skip Let_def .
  have found: "first_match ?body = Some (length pre, 7)"
    by (rule find_directive [OF pre]) (simp add: ends_directive_def is_space_def)
  have word: "word_index (take 7 (drop (length pre) ?body)) = 1"
    by (simp add: word_index_def directive_word_def starts_with_def js_def)
  have ends: "drop (7 + length pre) ?body = ?args" "take (length pre + 1) ?body = pre @ [0x20]" "drop ?n ?args = post"
    using six by (simp_all add: drop_Cons')
  have s1: "slice_from ?body (int (length pre) + 1 + 6) = ?args" and s2: "slice_end ?body (int (length pre) + 1) = pre @ [0x20]"
    using ends by (simp_all add: slice_from_def slice_end_def nat_add_distrib add.commute del: append_assoc)
  have "slice_from ?body (int (length pre) + 1 + 6 + int ?n) = drop ?n (drop (7 + length pre) ?body)"
    unfolding slice_from_def drop_drop by (rule arg_cong [where f = "\<lambda>k. drop k ?body"]) simp
  then have s3: "slice_from ?body (int (length pre) + 1 + 6 + int ?n) = post" unfolding ends .
  have ne: "(?body = []) = False" by simp
  have "extractQueueDirective (Some ?body) = d4\<lparr> qd_cleaned := trim (squash_space ((pre @ [0x20]) @ [0x20] @ post)), qd_hasDirective := True \<rparr>"
    unfolding extractQueueDirective_def option.case ne if_False found prod.case Let_def word s1 s2 args s3 ..
  then show ?thesis unfolding body
    by (simp add: d4_def d3_def d2_def d1_def no_directive_def js_def)
qed

theorem queue_directive_round_trip_witness:
  "qd_cleaned (extractQueueDirective (Some (js ''hi'' @ js '' /queue '' @ join [0x20] (directive_args Collect 1500 5 DropOld) @ 0x20 # js ''there'')))
     = js ''hi there''
   \<and> qd_debounceMs (extractQueueDirective (Some (js ''hi'' @ js '' /queue '' @ join [0x20] (directive_args Collect 1500 5 DropOld) @ 0x20 # js ''there'')))
     = Some 1500"
proof -
  have post: "starts_text (js ''there'')" by code_simp
  have w: "takeWhile (\<lambda>c. \<not> is_space c) (js ''there'') = js ''there''" by code_simp
  have "normalizeOptionalLowercaseString (Some (js ''there'')) = Some (js ''there'')" "normalizeQueueMode (Some (js ''there'')) = None"
    "js ''there'' \<noteq> js ''default'' \<and> js ''there'' \<noteq> js ''reset'' \<and> js ''there'' \<noteq> js ''clear''"
    "\<not> option_named ''debounce'' (js ''there'') \<and> \<not> option_named ''cap'' (js ''there'') \<and> \<not> option_named ''drop'' (js ''there'')"
    by code_simp+
  then have unused: "token_step (takeWhile (\<lambda>c. \<not> is_space c) (js ''there'')) d = Unused" for d by (simp add: token_step_def w)
  have pre: "0x2F \<notin> set (js ''hi'')" by code_simp
  have cleaned: "trim (squash_space (js ''hi'' @ js ''  '' @ js ''there'')) = js ''hi there''" by code_simp
  show ?thesis
    using queue_directive_round_trip [of Collect 1500 5 "js ''hi''", OF _ _ _ pre post unused, of DropOld] cleaned
    by (simp add: Let_def)
qed

text \<open>The expression that finds the directive ignores case; the search for its position does not.  A directive
  in capitals is therefore not obeyed, and the message around it is damaged.\<close>

lemma capital_directive_damages:
  "qd_queueMode (extractQueueDirective (Some (js ''/Queue collect''))) = None
   \<and> qd_hasDirective (extractQueueDirective (Some (js ''/Queue collect'')))
   \<and> qd_cleaned (extractQueueDirective (Some (js ''/Queue collect''))) = js ''/Queue collec e collect''
   \<and> qd_cleaned (extractQueueDirective (Some (js ''say /QUEUE reset''))) = js ''sa UE reset''"
  by code_simp

text \<open>A debounce of zero cannot be asked for: it is read as no setting.\<close>

lemma zero_debounce_ignored: "parseQueueDebounce (Some (js ''0'')) = None \<and> parseQueueDebounce (Some (js ''0ms'')) = None"
  by code_simp

text \<open>Every setting is resolved to a usable value: a number is never negative and a capacity is at least one, unless it is
  not a number at all.\<close>

lemma resolved_settings:
  "\<exists>d c p. set_debounceMs (resolveQueueSettings s) = Some d \<and> set_cap (resolveQueueSettings s) = Some c
    \<and> set_dropPolicy (resolveQueueSettings s) = Some p \<and> (\<forall>q. d = Fin q \<longrightarrow> 0 \<le> q) \<and> (\<forall>q. c = Fin q \<longrightarrow> 1 \<le> q)
    \<and> d \<noteq> NegInf \<and> c \<noteq> NegInf"
  by (auto simp: resolveQueueSettings_def Let_def num_max0_def num_max1_floor_def num_floor_def split: jsnum.split)

end
