(* ===== verification/SessionKey.thy ===== *)
theory SessionKey
  imports StringCoerce
begin

text \<open>
  Account ids, agent ids and session keys: \<open>src/src/routing/account-id.ts\<close>, \<open>src/src/routing/session-key.ts\<close>,
  \<open>src/src/sessions/session-key-utils.ts\<close>, \<open>src/src/channels/chat-type.ts\<close> and \<open>src/src/infra/prototype-keys.ts\<close>.
  An id is brought into a path-safe form; a session key is \<open>agent:<agent>:<rest>\<close>.  The lemmas show the
  form of the ids, that the caches of account ids never show, and that a built key is read back.
\<close>

section \<open>Chat types\<close>

datatype chat_type = ChatDirect | ChatGroup | ChatChannel

definition normalizeChatType :: "jsstr option \<Rightarrow> chat_type option" where
  "normalizeChatType raw = (case normalizeOptionalLowercaseString raw of
     None \<Rightarrow> None
   | Some value \<Rightarrow>
      if value = js ''direct'' \<or> value = js ''dm'' then Some ChatDirect
      else if value = js ''group'' then Some ChatGroup
      else if value = js ''channel'' then Some ChatChannel
      else None)"

definition chat_type_text :: "chat_type \<Rightarrow> jsstr" where
  "chat_type_text k = (case k of ChatDirect \<Rightarrow> js ''direct'' | ChatGroup \<Rightarrow> js ''group'' | ChatChannel \<Rightarrow> js ''channel'')"

section \<open>Ids\<close>

definition id_char :: "jschar \<Rightarrow> bool" where
  "id_char c \<longleftrightarrow> (0x61 \<le> c \<and> c \<le> 0x7A) \<or> is_digit c \<or> c = 0x5F \<or> c = 0x2D"

definition letter_or_digit :: "jschar \<Rightarrow> bool" where
  "letter_or_digit c \<longleftrightarrow> (0x61 \<le> c \<and> c \<le> 0x7A) \<or> (0x41 \<le> c \<and> c \<le> 0x5A) \<or> is_digit c"

text \<open>\<open>VALID_ID_RE\<close>, which ignores case.\<close>

definition valid_id :: "jsstr \<Rightarrow> bool" where
  "valid_id s \<longleftrightarrow> s \<noteq> [] \<and> length s \<le> 64 \<and> letter_or_digit (hd s) \<and> list_all (\<lambda>c. letter_or_digit c \<or> c = 0x5F \<or> c = 0x2D) (tl s)"

text \<open>\<open>replace(INVALID_CHARS_RE, "-")\<close>: each run of other characters becomes one dash.\<close>

function collapse_invalid :: "jsstr \<Rightarrow> jsstr" where
  "collapse_invalid [] = []"
| "collapse_invalid (c # s) =
    (if id_char c then c # collapse_invalid s else 0x2D # collapse_invalid (dropWhile (\<lambda>d. \<not> id_char d) s))"
  by pat_completeness auto
termination by (relation "measure length") (auto simp: le_imp_less_Suc length_dropWhile_le)

definition strip_dashes :: "jsstr \<Rightarrow> jsstr" where
  "strip_dashes s = rev (dropWhile (\<lambda>c. c = 0x2D) (rev (dropWhile (\<lambda>c. c = 0x2D) s)))"

definition collapse_id :: "jsstr \<Rightarrow> jsstr" where
  "collapse_id normalized = take 64 (strip_dashes (collapse_invalid normalized))"

definition BLOCKED_OBJECT_KEYS :: "jsstr list" where
  "BLOCKED_OBJECT_KEYS = [js ''__proto__'', js ''prototype'', js ''constructor'']"

definition isBlockedObjectKey :: "jsstr \<Rightarrow> bool" where
  "isBlockedObjectKey key \<longleftrightarrow> key \<in> set BLOCKED_OBJECT_KEYS"

definition DEFAULT_ACCOUNT_ID :: jsstr where
  "DEFAULT_ACCOUNT_ID = js ''default''"

definition canonicalizeAccountId :: "jsstr \<Rightarrow> jsstr" where
  "canonicalizeAccountId value =
    (let normalized = normalizeLowercaseStringOrEmpty (Some value) in
     if valid_id value then normalized else collapse_id normalized)"

definition normalizeCanonicalAccountId :: "jsstr \<Rightarrow> jsstr option" where
  "normalizeCanonicalAccountId value =
    (let canonical = canonicalizeAccountId value in
     if canonical = [] \<or> isBlockedObjectKey canonical then None else Some canonical)"

text \<open>What \<open>normalizeAccountId\<close> and \<open>normalizeOptionalAccountId\<close> compute, without their caches.\<close>

definition text_or_empty :: "jsstr option \<Rightarrow> jsstr" where
  "text_or_empty v = (case v of None \<Rightarrow> [] | Some s \<Rightarrow> s)"

definition account_of :: "jsstr \<Rightarrow> jsstr" where
  "account_of trimmed = (case normalizeCanonicalAccountId trimmed of None \<Rightarrow> DEFAULT_ACCOUNT_ID | Some a \<Rightarrow> a)"

definition normalizeAccountId :: "jsstr option \<Rightarrow> jsstr" where
  "normalizeAccountId value =
    (let trimmed = trim (text_or_empty value) in if trimmed = [] then DEFAULT_ACCOUNT_ID else account_of trimmed)"

definition normalizeOptionalAccountId :: "jsstr option \<Rightarrow> jsstr option" where
  "normalizeOptionalAccountId value =
    (let trimmed = trim (text_or_empty value) in if trimmed = [] then None else normalizeCanonicalAccountId trimmed)"

text \<open>The two caches, which forget their oldest entry beyond 512.\<close>

record account_caches =
  ac_normalize :: "(jsstr, jsstr) jsmap"
  ac_optional :: "(jsstr, jsstr option) jsmap"

definition ACCOUNT_ID_CACHE_MAX :: nat where "ACCOUNT_ID_CACHE_MAX = 512"

definition setNormalizeCache :: "(jsstr, 'v) jsmap \<Rightarrow> jsstr \<Rightarrow> 'v \<Rightarrow> (jsstr, 'v) jsmap" where
  "setNormalizeCache cache key v = (let c = mput cache key v in if length c \<le> ACCOUNT_ID_CACHE_MAX then c else tl c)"

definition cached_normalizeAccountId :: "jsstr option \<Rightarrow> account_caches \<Rightarrow> jsstr \<times> account_caches" where
  "cached_normalizeAccountId value s =
    (let trimmed = trim (text_or_empty value) in
     if trimmed = [] then (DEFAULT_ACCOUNT_ID, s)
     else (case mget (ac_normalize s) trimmed of
       Some cached \<Rightarrow> if cached \<noteq> [] then (cached, s)
         else (account_of trimmed, s\<lparr> ac_normalize := setNormalizeCache (ac_normalize s) trimmed (account_of trimmed) \<rparr>)
     | None \<Rightarrow> (account_of trimmed, s\<lparr> ac_normalize := setNormalizeCache (ac_normalize s) trimmed (account_of trimmed) \<rparr>)))"

definition cached_normalizeOptionalAccountId :: "jsstr option \<Rightarrow> account_caches \<Rightarrow> jsstr option \<times> account_caches" where
  "cached_normalizeOptionalAccountId value s =
    (let trimmed = trim (text_or_empty value) in
     if trimmed = [] then (None, s)
     else (case mget (ac_optional s) trimmed of
       Some cached \<Rightarrow> (cached, s)
     | None \<Rightarrow> (let normalized = normalizeCanonicalAccountId trimmed in
         (normalized, s\<lparr> ac_optional := setNormalizeCache (ac_optional s) trimmed normalized \<rparr>))))"

definition DEFAULT_AGENT_ID :: jsstr where
  "DEFAULT_AGENT_ID = js ''main''"

definition normalizeAgentId :: "jsstr option \<Rightarrow> jsstr" where
  "normalizeAgentId value =
    (let trimmed = trim (text_or_empty value); normalized = normalizeLowercaseStringOrEmpty (Some trimmed) in
     if trimmed = [] then DEFAULT_AGENT_ID
     else if valid_id trimmed then normalized
     else if collapse_id normalized = [] then DEFAULT_AGENT_ID else collapse_id normalized)"

definition isValidAgentId :: "jsstr option \<Rightarrow> bool" where
  "isValidAgentId value \<longleftrightarrow> trim (text_or_empty value) \<noteq> [] \<and> valid_id (trim (text_or_empty value))"

definition sanitizeAgentId :: "jsstr option \<Rightarrow> jsstr" where
  "sanitizeAgentId value = normalizeAgentId value"

section \<open>Reading session keys\<close>

record parsed_key =
  pk_agentId :: jsstr
  pk_rest :: jsstr

definition key_parts :: "jsstr \<Rightarrow> jsstr list" where
  "key_parts s = filter (\<lambda>p. p \<noteq> []) (split_on 0x3A s)"

definition parseAgentSessionKey :: "jsstr option \<Rightarrow> parsed_key option" where
  "parseAgentSessionKey sessionKey = (case normalizeOptionalLowercaseString sessionKey of
     None \<Rightarrow> None
   | Some raw \<Rightarrow> (let parts = key_parts raw in
       if length parts < 3 then None
       else if parts ! 0 \<noteq> js ''agent'' then None
       else (let rest = join (js '':'') (drop 2 parts) in
         (case normalizeOptionalString (Some (parts ! 1)) of
            None \<Rightarrow> None
          | Some agentId \<Rightarrow> if rest = [] then None else Some \<lparr> pk_agentId = agentId, pk_rest = rest \<rparr>))))"

definition isCronRunSessionKey :: "jsstr option \<Rightarrow> bool" where
  "isCronRunSessionKey sessionKey = (case parseAgentSessionKey sessionKey of
     None \<Rightarrow> False
   | Some parsed \<Rightarrow> (case split_on 0x3A (pk_rest parsed) of
       [a, x, b, y] \<Rightarrow> a = js ''cron'' \<and> x \<noteq> [] \<and> b = js ''run'' \<and> y \<noteq> []
     | _ \<Rightarrow> False))"

text \<open>\<open>normalizeOptionalLowercaseString(v)?.startsWith(prefix) === true\<close>.\<close>

definition lowered_starts :: "jsstr option \<Rightarrow> string \<Rightarrow> bool" where
  "lowered_starts v prefix = (case normalizeOptionalLowercaseString v of None \<Rightarrow> False | Some s \<Rightarrow> starts_with s (js prefix))"

definition isCronSessionKey :: "jsstr option \<Rightarrow> bool" where
  "isCronSessionKey sessionKey = (case parseAgentSessionKey sessionKey of
     None \<Rightarrow> False | Some parsed \<Rightarrow> lowered_starts (Some (pk_rest parsed)) ''cron:'')"

definition isSubagentSessionKey :: "jsstr option \<Rightarrow> bool" where
  "isSubagentSessionKey sessionKey = (case normalizeOptionalString sessionKey of
     None \<Rightarrow> False
   | Some raw \<Rightarrow> if lowered_starts (Some raw) ''subagent:'' then True
      else lowered_starts (map_option pk_rest (parseAgentSessionKey (Some raw))) ''subagent:'')"

definition isAcpSessionKey :: "jsstr option \<Rightarrow> bool" where
  "isAcpSessionKey sessionKey = (case normalizeOptionalString sessionKey of
     None \<Rightarrow> False
   | Some raw \<Rightarrow> if starts_with (normalizeLowercaseStringOrEmpty (Some raw)) (js ''acp:'') then True
      else lowered_starts (map_option pk_rest (parseAgentSessionKey (Some raw))) ''acp:'')"

text \<open>\<open>raw.split(":subagent:").length - 1\<close>.\<close>

function subagent_marks :: "jsstr \<Rightarrow> nat" where
  "subagent_marks s =
    (if s = [] then 0
     else if starts_with s (js '':subagent:'') then Suc (subagent_marks (drop 10 s))
     else subagent_marks (tl s))"
  by pat_completeness auto
termination by (relation "measure length") auto

declare subagent_marks.simps [simp del]

definition getSubagentDepth :: "jsstr option \<Rightarrow> nat" where
  "getSubagentDepth sessionKey = (case normalizeOptionalLowercaseString sessionKey of None \<Rightarrow> 0 | Some raw \<Rightarrow> subagent_marks raw)"

text \<open>\<open>s.lastIndexOf(t)\<close>.\<close>

definition last_index :: "jsstr \<Rightarrow> jsstr \<Rightarrow> nat option" where
  "last_index s t = find (\<lambda>i. starts_with (drop i s) t) (rev [0..<Suc (length s)])"

record thread_suffix =
  ts_baseSessionKey :: "jsstr option"
  ts_threadId :: "jsstr option"

definition parseThreadSessionSuffix :: "jsstr option \<Rightarrow> thread_suffix" where
  "parseThreadSessionSuffix sessionKey = (case normalizeOptionalString sessionKey of
     None \<Rightarrow> \<lparr> ts_baseSessionKey = None, ts_threadId = None \<rparr>
   | Some raw \<Rightarrow> (case last_index (normalizeLowercaseStringOrEmpty (Some raw)) (js '':thread:'') of
       None \<Rightarrow> \<lparr> ts_baseSessionKey = Some raw, ts_threadId = None \<rparr>
     | Some i \<Rightarrow> \<lparr> ts_baseSessionKey = Some (take i raw), ts_threadId = normalizeOptionalString (Some (drop (i + 8) raw)) \<rparr>))"

definition resolveThreadParentSessionKey :: "jsstr option \<Rightarrow> jsstr option" where
  "resolveThreadParentSessionKey sessionKey =
    (let p = parseThreadSessionSuffix sessionKey in
     case ts_threadId p of None \<Rightarrow> None | Some _ \<Rightarrow> normalizeOptionalString (ts_baseSessionKey p))"

record conversation_ref =
  cv_channel :: jsstr
  cv_kind :: chat_type
  cv_rawId :: jsstr
  cv_prefix :: jsstr

definition parseRawSessionConversationRef :: "jsstr option \<Rightarrow> conversation_ref option" where
  "parseRawSessionConversationRef sessionKey = (case normalizeOptionalString sessionKey of
     None \<Rightarrow> None
   | Some raw \<Rightarrow>
      (let rawParts = key_parts raw;
           bodyStartIndex = (if 3 \<le> length rawParts \<and> normalizeOptionalLowercaseString (Some (rawParts ! 0)) = Some (js ''agent'') then 2 else 0);
           parts = drop bodyStartIndex rawParts
       in if length parts < 3 then None
          else (let channel = normalizeOptionalLowercaseString (Some (parts ! 0)); kind = normalizeOptionalLowercaseString (Some (parts ! 1));
                    rawId = normalizeOptionalString (Some (join (js '':'') (drop 2 parts)));
                    prefix = normalizeOptionalString (Some (join (js '':'') (take (bodyStartIndex + 2) rawParts)))
                in case (channel, rawId, prefix) of
                    (Some c, Some i, Some p) \<Rightarrow>
                      if kind = Some (js ''group'') then Some \<lparr> cv_channel = c, cv_kind = ChatGroup, cv_rawId = i, cv_prefix = p \<rparr>
                      else if kind = Some (js ''channel'') then Some \<lparr> cv_channel = c, cv_kind = ChatChannel, cv_rawId = i, cv_prefix = p \<rparr>
                      else None
                  | _ \<Rightarrow> None)))"

section \<open>Building session keys\<close>

definition DEFAULT_MAIN_KEY :: jsstr where
  "DEFAULT_MAIN_KEY = js ''main''"

definition non_empty_or :: "jsstr \<Rightarrow> jsstr \<Rightarrow> jsstr" where
  "non_empty_or s d = (if s = [] then d else s)"

definition normalizeMainKey :: "jsstr option \<Rightarrow> jsstr" where
  "normalizeMainKey value = non_empty_or (normalizeLowercaseStringOrEmpty value) DEFAULT_MAIN_KEY"

definition toAgentRequestSessionKey :: "jsstr option \<Rightarrow> jsstr option" where
  "toAgentRequestSessionKey storeKey =
    (let raw = trim (text_or_empty storeKey) in
     if raw = [] then None
     else (case parseAgentSessionKey (Some raw) of Some p \<Rightarrow> Some (pk_rest p) | None \<Rightarrow> Some raw))"

definition agent_key :: "jsstr \<Rightarrow> jsstr list \<Rightarrow> jsstr" where
  "agent_key agentId parts = join (js '':'') (js ''agent'' # agentId # parts)"

definition buildAgentMainSessionKey :: "jsstr \<Rightarrow> jsstr option \<Rightarrow> jsstr" where
  "buildAgentMainSessionKey agentId mainKey = agent_key (normalizeAgentId (Some agentId)) [normalizeMainKey mainKey]"

definition toAgentStoreSessionKey :: "jsstr \<Rightarrow> jsstr option \<Rightarrow> jsstr option \<Rightarrow> jsstr" where
  "toAgentStoreSessionKey agentId requestKey mainKey =
    (let raw = trim (text_or_empty requestKey); lowered = normalizeLowercaseStringOrEmpty (Some raw) in
     if raw = [] \<or> lowered = DEFAULT_MAIN_KEY then buildAgentMainSessionKey agentId mainKey
     else (case parseAgentSessionKey (Some raw) of
       Some parsed \<Rightarrow> agent_key (pk_agentId parsed) [pk_rest parsed]
     | None \<Rightarrow> if starts_with lowered (js ''agent:'') then lowered
         else agent_key (normalizeAgentId (Some agentId)) [lowered]))"

definition resolveAgentIdFromSessionKey :: "jsstr option \<Rightarrow> jsstr" where
  "resolveAgentIdFromSessionKey sessionKey =
    normalizeAgentId (Some (case parseAgentSessionKey sessionKey of Some p \<Rightarrow> pk_agentId p | None \<Rightarrow> DEFAULT_AGENT_ID))"

datatype key_shape = ShapeMissing | ShapeAgent | ShapeLegacyOrAlias | ShapeMalformedAgent

definition classifySessionKeyShape :: "jsstr option \<Rightarrow> key_shape" where
  "classifySessionKeyShape sessionKey =
    (let raw = trim (text_or_empty sessionKey) in
     if raw = [] then ShapeMissing
     else if parseAgentSessionKey (Some raw) \<noteq> None then ShapeAgent
     else if starts_with (normalizeLowercaseStringOrEmpty (Some raw)) (js ''agent:'') then ShapeMalformedAgent
     else ShapeLegacyOrAlias)"

datatype dm_scope = DmMain | DmPerPeer | DmPerChannelPeer | DmPerAccountChannelPeer

type_synonym identity_links = "(jsstr \<times> jsstr list) list"

definition link_candidates :: "jsstr \<Rightarrow> jsstr \<Rightarrow> jsstr list" where
  "link_candidates channel peerId =
    (let raw = normalizeLowercaseStringOrEmpty (Some peerId); c = normalizeLowercaseStringOrEmpty (Some channel);
         scoped = normalizeLowercaseStringOrEmpty (Some (c @ js '':'' @ peerId))
     in (if raw = [] then [] else [raw]) @ (if c = [] \<or> scoped = [] then [] else [scoped]))"

definition link_matches :: "jsstr list \<Rightarrow> jsstr \<times> jsstr list \<Rightarrow> bool" where
  "link_matches candidates entry \<longleftrightarrow> trim (fst entry) \<noteq> [] \<and>
     list_ex (\<lambda>i. normalizeLowercaseStringOrEmpty (Some i) \<noteq> [] \<and> normalizeLowercaseStringOrEmpty (Some i) \<in> set candidates) (snd entry)"

definition resolveLinkedPeerId :: "identity_links option \<Rightarrow> jsstr \<Rightarrow> jsstr \<Rightarrow> jsstr option" where
  "resolveLinkedPeerId identityLinks channel rawPeerId = (case identityLinks of
     None \<Rightarrow> None
   | Some links \<Rightarrow> (let peerId = trim rawPeerId; candidates = link_candidates channel peerId in
       if peerId = [] \<or> candidates = [] then None
       else map_option (\<lambda>e. trim (fst e)) (find (link_matches candidates) links)))"

record peer_key_params =
  bk_agentId :: jsstr
  bk_mainKey :: "jsstr option"
  bk_channel :: jsstr
  bk_accountId :: "jsstr option"
  bk_peerKind :: "chat_type option"
  bk_peerId :: "jsstr option"
  bk_identityLinks :: "identity_links option"
  bk_dmScope :: "dm_scope option"

definition direct_peer :: "peer_key_params \<Rightarrow> dm_scope \<Rightarrow> jsstr" where
  "direct_peer p dmScope =
    (let peerId = trim (text_or_empty (bk_peerId p));
         linked = (if dmScope = DmMain then None else resolveLinkedPeerId (bk_identityLinks p) (bk_channel p) peerId)
     in normalizeLowercaseStringOrEmpty (Some (case linked of Some l \<Rightarrow> if l = [] then peerId else l | None \<Rightarrow> peerId)))"

definition key_channel :: "jsstr \<Rightarrow> jsstr" where
  "key_channel channel = non_empty_or (normalizeLowercaseStringOrEmpty (Some channel)) (js ''unknown'')"

definition buildAgentPeerSessionKey :: "peer_key_params \<Rightarrow> jsstr" where
  "buildAgentPeerSessionKey p =
    (let agentId = normalizeAgentId (Some (bk_agentId p)) in
     case (case bk_peerKind p of None \<Rightarrow> ChatDirect | Some k \<Rightarrow> k) of
       ChatDirect \<Rightarrow>
         (let dmScope = (case bk_dmScope p of None \<Rightarrow> DmMain | Some d \<Rightarrow> d); peerId = direct_peer p dmScope in
          if dmScope = DmPerAccountChannelPeer \<and> peerId \<noteq> []
          then agent_key agentId [key_channel (bk_channel p), normalizeAccountId (bk_accountId p), js ''direct'', peerId]
          else if dmScope = DmPerChannelPeer \<and> peerId \<noteq> []
          then agent_key agentId [key_channel (bk_channel p), js ''direct'', peerId]
          else if dmScope = DmPerPeer \<and> peerId \<noteq> []
          then agent_key agentId [js ''direct'', peerId]
          else buildAgentMainSessionKey (bk_agentId p) (bk_mainKey p))
     | kind \<Rightarrow> agent_key agentId [key_channel (bk_channel p), chat_type_text kind,
         non_empty_or (normalizeLowercaseStringOrEmpty (bk_peerId p)) (js ''unknown'')])"

definition buildGroupHistoryKey :: "jsstr \<Rightarrow> jsstr option \<Rightarrow> chat_type \<Rightarrow> jsstr \<Rightarrow> jsstr" where
  "buildGroupHistoryKey channel accountId peerKind peerId =
    join (js '':'') [key_channel channel, normalizeAccountId accountId, chat_type_text peerKind,
      non_empty_or (normalizeLowercaseStringOrEmpty (Some peerId)) (js ''unknown'')]"

definition resolveThreadSessionKeys ::
    "jsstr \<Rightarrow> jsstr option \<Rightarrow> jsstr option \<Rightarrow> bool option \<Rightarrow> (jsstr \<Rightarrow> jsstr) option \<Rightarrow> jsstr \<times> jsstr option" where
  "resolveThreadSessionKeys baseSessionKey threadIdRaw parentSessionKey useSuffix normalizeThreadId =
    (let threadId = trim (text_or_empty threadIdRaw) in
     if threadId = [] then (baseSessionKey, None)
     else (let normalizedThread = (case normalizeThreadId of Some f \<Rightarrow> f threadId | None \<Rightarrow> normalizeLowercaseStringOrEmpty (Some threadId)) in
       (if useSuffix = Some False then baseSessionKey else baseSessionKey @ js '':thread:'' @ normalizedThread, parentSessionKey)))"

section \<open>The form of the ids\<close>

text \<open>At most 64 letters, digits, underscores and dashes, at least one, and no dash in front.\<close>

definition path_safe :: "jsstr \<Rightarrow> bool" where
  "path_safe s \<longleftrightarrow> s \<noteq> [] \<and> length s \<le> 64 \<and> list_all id_char s \<and> hd s \<noteq> 0x2D"

lemma id_char_facts: "id_char c \<Longrightarrow> \<not> is_space c \<and> lower_char c = c \<and> c \<noteq> 0x3A"
  by (auto simp: id_char_def is_digit_def is_space_def lower_char_def word_le_nat_alt)

lemma letter_facts: "letter_or_digit c \<Longrightarrow> id_char (lower_char c) \<and> lower_char c \<noteq> 0x2D \<and> \<not> is_space c"
proof -
  have "unat (c + 32) = unat c + 32" if "c \<le> 0x5A" using that by (simp add: unat_word_ariths word_le_nat_alt)
  moreover have "c + 32 \<noteq> 0x2D" if "0x41 \<le> c" "c \<le> 0x5A"
  proof
    assume "c + 32 = 0x2D"
    then have "unat (c + 32) = 45" by simp
    then show False using calculation that by (simp add: word_le_nat_alt)
  qed
  ultimately show "letter_or_digit c \<Longrightarrow> id_char (lower_char c) \<and> lower_char c \<noteq> 0x2D \<and> \<not> is_space c"
    by (auto simp: letter_or_digit_def id_char_def is_digit_def lower_char_def is_space_def word_le_nat_alt)
qed

lemma collapse_invalid_chars: "list_all id_char (collapse_invalid s)"
  by (induction s rule: collapse_invalid.induct) (auto simp: id_char_def is_digit_def)

lemma strip_dashes_subset: "set (strip_dashes s) \<subseteq> set s"
  by (auto simp: strip_dashes_def dest!: set_dropWhileD)

lemma strip_dashes_hd: "strip_dashes s \<noteq> [] \<Longrightarrow> hd (strip_dashes s) \<noteq> 0x2D"
proof -
  let ?t = "dropWhile (\<lambda>c. c = 0x2D) s" and ?P = "\<lambda>c::jschar. c = 0x2D"
  assume ne: "strip_dashes s \<noteq> []"
  have "?t = rev (takeWhile ?P (rev ?t) @ dropWhile ?P (rev ?t))" unfolding takeWhile_dropWhile_id by simp
  then have split: "?t = strip_dashes s @ rev (takeWhile ?P (rev ?t))" unfolding strip_dashes_def rev_append .
  have "hd ?t = hd (strip_dashes s)" by (subst split) (simp add: ne)
  moreover have "?t \<noteq> []" using ne by (metis split append_is_Nil_conv)
  ultimately have "hd (strip_dashes s) = hd ?t" "?t \<noteq> []" by simp_all
  then show ?thesis using hd_dropWhile [of ?P s] by auto
qed

lemma collapse_id_safe: "collapse_id s \<noteq> [] \<Longrightarrow> path_safe (collapse_id s)"
proof -
  assume ne: "collapse_id s \<noteq> []"
  have "list_all id_char (collapse_id s)"
    using collapse_invalid_chars [of s] strip_dashes_subset [of "collapse_invalid s"] set_take_subset [of 64 "strip_dashes (collapse_invalid s)"]
    by (auto simp: list_all_iff collapse_id_def)
  moreover have "hd (collapse_id s) \<noteq> 0x2D"
    using ne strip_dashes_hd [of "collapse_invalid s"] by (simp add: collapse_id_def)
  ultimately show ?thesis using ne by (simp add: path_safe_def collapse_id_def)
qed

lemma valid_lower_safe: "valid_id t \<Longrightarrow> path_safe (toLowerCase t)"
proof -
  assume v: "valid_id t"
  then obtain c r where t: "t = c # r" by (cases t) (auto simp: valid_id_def)
  have "id_char (lower_char d)" if "letter_or_digit d \<or> d = 0x5F \<or> d = 0x2D" for d
    using that letter_facts [of d] by (auto simp: id_char_def lower_char_def)
  then show ?thesis using v letter_facts [of c] by (auto simp: path_safe_def valid_id_def toLowerCase_def t list_all_iff)
qed

lemma normal_text: "path_safe s \<Longrightarrow> trim s = s \<and> toLowerCase s = s"
proof -
  assume s: "path_safe s"
  then have "\<not> is_space (hd s)" "\<not> is_space (last s)" using id_char_facts by (auto simp: path_safe_def list_all_iff)
  moreover have "toLowerCase s = s"
    using s id_char_facts by (auto simp: path_safe_def list_all_iff toLowerCase_def intro: map_idI)
  ultimately show ?thesis using trim_id by blast
qed

lemma account_of_safe: "path_safe (account_of t) \<and> \<not> isBlockedObjectKey (account_of t)" if "trim t = t"
proof (cases "normalizeCanonicalAccountId t")
  case None
  have "path_safe DEFAULT_ACCOUNT_ID \<and> \<not> isBlockedObjectKey DEFAULT_ACCOUNT_ID" by code_simp
  then show ?thesis using None by (simp add: account_of_def)
next
  case (Some a)
  then have a: "a = canonicalizeAccountId t" "a \<noteq> []" "\<not> isBlockedObjectKey a"
    by (auto simp: normalizeCanonicalAccountId_def Let_def split: if_splits)
  then show ?thesis
    using Some valid_lower_safe [of t] collapse_id_safe [of "toLowerCase t"] that
    by (auto simp: account_of_def canonicalizeAccountId_def lowercase_or_empty Let_def split: if_splits)
qed

lemma default_ids_safe: "path_safe DEFAULT_AGENT_ID" "path_safe DEFAULT_ACCOUNT_ID \<and> \<not> isBlockedObjectKey DEFAULT_ACCOUNT_ID"
  by code_simp+

lemma agent_id_safe: "path_safe (normalizeAgentId v)"
  using valid_lower_safe [of "trim (text_or_empty v)"] collapse_id_safe [of "toLowerCase (trim (text_or_empty v))"] default_ids_safe(1)
  by (auto simp: normalizeAgentId_def Let_def lowercase_or_empty)

lemma account_id_safe: "path_safe (normalizeAccountId v) \<and> \<not> isBlockedObjectKey (normalizeAccountId v)"
  using account_of_safe [of "trim (text_or_empty v)"] default_ids_safe(2) by (simp add: normalizeAccountId_def Let_def)

section \<open>The caches never show\<close>

interpretation ac: memo_table setNormalizeCache ACCOUNT_ID_CACHE_MAX
proof unfold_locales
  fix m :: "(jsstr, 'v) jsmap" and k v
  show "set (setNormalizeCache m k v) \<subseteq> insert (k, v) (set m)"
    using set_mput_subset [of m k v] by (cases "mput m k v") (auto simp: setNormalizeCache_def Let_def)
  show "length m \<le> ACCOUNT_ID_CACHE_MAX \<Longrightarrow> length (setNormalizeCache m k v) \<le> ACCOUNT_ID_CACHE_MAX"
    using length_mput_le [of m k v] by (auto simp: setNormalizeCache_def Let_def)
qed

definition caches_ok :: "account_caches \<Rightarrow> bool" where
  "caches_ok s \<longleftrightarrow> memo_ok ACCOUNT_ID_CACHE_MAX (\<lambda>t a. a = account_of t) (ac_normalize s)
     \<and> memo_ok ACCOUNT_ID_CACHE_MAX (\<lambda>t a. a = normalizeCanonicalAccountId t) (ac_optional s)"

lemma cached_account:
  assumes "caches_ok s"
  shows "fst (cached_normalizeAccountId v s) = normalizeAccountId v \<and> caches_ok (snd (cached_normalizeAccountId v s))"
proof -
  let ?t = "trim (text_or_empty v)" and ?P = "\<lambda>t a. a = account_of t"
  have m: "memo_ok ACCOUNT_ID_CACHE_MAX ?P (ac_normalize s)" using assms by (simp add: caches_ok_def)
  have "caches_ok (s\<lparr> ac_normalize := setNormalizeCache (ac_normalize s) ?t (account_of ?t) \<rparr>)"
    using assms ac.memo_put [OF m refl] by (simp add: caches_ok_def)
  moreover have "mget (ac_normalize s) ?t = Some c \<Longrightarrow> c = account_of ?t" for c using memo_hit [OF m] by simp
  ultimately show ?thesis using assms
    by (cases "mget (ac_normalize s) ?t") (auto simp: cached_normalizeAccountId_def normalizeAccountId_def Let_def)
qed

lemma cached_optional_account:
  assumes "caches_ok s"
  shows "fst (cached_normalizeOptionalAccountId v s) = normalizeOptionalAccountId v
    \<and> caches_ok (snd (cached_normalizeOptionalAccountId v s))"
proof -
  let ?t = "trim (text_or_empty v)" and ?P = "\<lambda>t a. a = normalizeCanonicalAccountId t"
  have m: "memo_ok ACCOUNT_ID_CACHE_MAX ?P (ac_optional s)" using assms by (simp add: caches_ok_def)
  have "caches_ok (s\<lparr> ac_optional := setNormalizeCache (ac_optional s) ?t (normalizeCanonicalAccountId ?t) \<rparr>)"
    using assms ac.memo_put [OF m refl] by (simp add: caches_ok_def)
  moreover have "mget (ac_optional s) ?t = Some c \<Longrightarrow> c = normalizeCanonicalAccountId ?t" for c using memo_hit [OF m] by simp
  ultimately show ?thesis using assms
    by (cases "mget (ac_optional s) ?t") (simp_all add: cached_normalizeOptionalAccountId_def normalizeOptionalAccountId_def Let_def)
qed

section \<open>Agent ids again\<close>

lemma strip_dashes_id: "s = [] \<or> hd s \<noteq> 0x2D \<and> last s \<noteq> 0x2D \<Longrightarrow> strip_dashes s = s"
proof -
  assume h: "s = [] \<or> hd s \<noteq> 0x2D \<and> last s \<noteq> 0x2D"
  then have "dropWhile (\<lambda>c. c = 0x2D) s = s" "dropWhile (\<lambda>c. c = 0x2D) (rev s) = rev s"
    by (auto simp: dropWhile_eq_self_iff hd_rev)
  then show ?thesis by (simp add: strip_dashes_def)
qed

lemma collapse_invalid_id: "list_all id_char s \<Longrightarrow> collapse_invalid s = s"
  by (induction s) auto

lemma collapse_id_id: "path_safe s \<Longrightarrow> last s \<noteq> 0x2D \<Longrightarrow> collapse_id s = s"
  by (simp add: collapse_id_def path_safe_def collapse_invalid_id strip_dashes_id)

lemma lower_letter: "id_char c \<Longrightarrow> letter_or_digit c \<or> c = 0x5F \<or> c = 0x2D"
  by (auto simp: id_char_def letter_or_digit_def)

text \<open>
  An id that ends in no dash, or starts with a letter or a digit, is left as it is by a second normalisation.
  The cut to 64 units comes after the dashes are stripped, so an id may end in one: then it is not.
\<close>

lemma agent_id_idempotent:
  assumes "a = normalizeAgentId v" and "last a \<noteq> 0x2D \<or> letter_or_digit (hd a)"
  shows "normalizeAgentId (Some a) = a"
proof -
  have s: "path_safe a" using agent_id_safe assms(1) by simp
  then have t: "trim a = a" "toLowerCase a = a" "a \<noteq> []" using normal_text [of a] by (simp_all add: path_safe_def)
  have "valid_id a" if "letter_or_digit (hd a)"
    using s that lower_letter by (cases a) (auto simp: path_safe_def valid_id_def list_all_iff)
  then show ?thesis
    using assms(2) s t collapse_id_id [of a] by (auto simp: normalizeAgentId_def text_or_empty_def lowercase_or_empty Let_def)
qed

definition long_agent_id :: jsstr where
  "long_agent_id = [0x5F] @ replicate 62 0x61 @ js ''!b''"

lemma agent_id_not_idempotent:
  "normalizeAgentId (Some (normalizeAgentId (Some long_agent_id))) \<noteq> normalizeAgentId (Some long_agent_id)"
  by code_simp

section \<open>Keys are read back\<close>

lemma key_parts_append: "key_parts (a @ 0x3A # b) = key_parts a @ key_parts b"
  by (simp add: key_parts_def split_on_append)

lemma key_parts_plain: "0x3A \<notin> set a \<Longrightarrow> a \<noteq> [] \<Longrightarrow> key_parts a = [a]"
  by (simp add: key_parts_def split_on_plain)

lemma join_parts: "[] \<notin> set (split_on 0x3A s) \<Longrightarrow> join (js '':'') (key_parts s) = s"
proof -
  assume "[] \<notin> set (split_on 0x3A s)"
  then have "key_parts s = split_on 0x3A s" by (auto simp: key_parts_def filter_id_conv)
  then show ?thesis using join_split_on [where d = "0x3A" and s = s] by (simp add: js_def)
qed

lemma upper_facts:
  assumes "(0x41 \<le> c \<and> c \<le> 0x5A) \<or> (0xC0 \<le> c \<and> c \<le> 0xDE \<and> c \<noteq> (0xD7::jschar))"
  shows "\<not> is_space c \<and> \<not> is_space (c + 32) \<and> lower_char (c + 32) = c + 32"
proof -
  have u: "unat (c + 32) = unat c + 32" using assms by (auto simp: unat_word_ariths word_le_nat_alt)
  have eq: "x = y \<longleftrightarrow> unat x = unat y" for x y :: jschar by (simp add: word_unat_eq_iff)
  have sp: "\<not> is_space (c + 32)" using assms unfolding is_space_def eq word_le_nat_alt u by simp arith
  have "\<not> is_space c" using assms unfolding is_space_def eq word_le_nat_alt by simp arith
  moreover have "\<not> ((0x41 \<le> c + 32 \<and> c + 32 \<le> 0x5A) \<or> (0xC0 \<le> c + 32 \<and> c + 32 \<le> 0xDE \<and> c + 32 \<noteq> 0xD7))"
    using assms unfolding eq word_le_nat_alt u by simp arith
  ultimately show ?thesis using sp by (simp add: lower_char_def)
qed

lemma is_space_lower [simp]: "is_space (lower_char c) = is_space c"
  using upper_facts [of c] by (auto simp: lower_char_def)

lemma lower_lower [simp]: "lower_char (lower_char c) = lower_char c"
  using upper_facts [of c] by (cases "(0x41 \<le> c \<and> c \<le> 0x5A) \<or> (0xC0 \<le> c \<and> c \<le> 0xDE \<and> c \<noteq> 0xD7)") (auto simp: lower_char_def)

text \<open>A text that trimming and lowering leave as it is.\<close>

definition settled :: "jsstr \<Rightarrow> bool" where
  "settled s \<longleftrightarrow> s \<noteq> [] \<and> toLowerCase s = s \<and> \<not> is_space (hd s) \<and> \<not> is_space (last s)"

lemma settled_join: "settled a \<Longrightarrow> settled b \<Longrightarrow> settled (a @ js '':'' @ b)"
  by (auto simp: settled_def toLowerCase_def js_def lower_char_def)

lemma settled_lowered: "toLowerCase (trim s) \<noteq> [] \<Longrightarrow> settled (toLowerCase (trim s))"
proof -
  assume ne: "toLowerCase (trim s) \<noteq> []"
  then have "trim s \<noteq> []" by (simp add: toLowerCase_def)
  then have "\<not> is_space (hd (trim s))" "\<not> is_space (last (trim s))"
    by (metis list.collapse trim_no_leading, metis append_butlast_last_id trim_no_trailing)
  then show ?thesis using ne by (simp add: settled_def toLowerCase_def hd_map last_map del: trim_Nil_iff)
qed

lemma settled_or: "settled d \<Longrightarrow> settled (non_empty_or (normalizeLowercaseStringOrEmpty v) d)"
  using settled_lowered by (cases v) (auto simp: non_empty_or_def lowercase_or_empty simp del: trim_Nil_iff)

lemma settled_safe: "path_safe s \<Longrightarrow> settled s"
  using normal_text [of s] id_char_facts by (auto simp: settled_def path_safe_def list_all_iff)

lemma settled_words: "settled (js ''main'')" "settled (js ''unknown'')" "settled (js ''agent'')"
  "settled (js ''direct'')" "settled (chat_type_text k)"
  by (code_simp | (cases k; simp only:; code_simp))+

lemma settled_text: "settled s \<Longrightarrow> trim s = s \<and> toLowerCase s = s \<and> s \<noteq> []"
  using trim_id [of s] by (simp add: settled_def)

lemma agent_key_rest: "ps \<noteq> [] \<Longrightarrow> agent_key a ps = js ''agent'' @ js '':'' @ a @ js '':'' @ join (js '':'') ps"
  by (cases ps) (simp_all add: agent_key_def)

lemma agent_key_single: "ps \<noteq> [] \<Longrightarrow> agent_key a ps = agent_key a [join (js '':'') ps]"
  by (simp add: agent_key_rest)

lemma key_parts_colon: "key_parts (a @ js '':'' @ b) = key_parts a @ key_parts b"
  using key_parts_append [of a b] by (simp add: js_def)

lemma key_parts_words: "key_parts (js ''agent'') = [js ''agent'']" "key_parts (js ''direct'') = [js ''direct'']"
  "key_parts (chat_type_text k) = [chat_type_text k]"
  by (code_simp | (cases k; simp only:; code_simp))+

lemma key_parts_agent: "path_safe a \<Longrightarrow> key_parts (agent_key a [r]) = js ''agent'' # a # key_parts r"
proof -
  assume a: "path_safe a"
  then have "0x3A \<notin> set a" using id_char_facts by (auto simp: path_safe_def list_all_iff)
  then have "key_parts a = [a]" using a key_parts_plain by (simp add: path_safe_def)
  then show ?thesis by (simp add: agent_key_rest key_parts_colon key_parts_words)
qed

lemma join_not_Nil: "ps \<noteq> [] \<Longrightarrow> [] \<notin> set ps \<Longrightarrow> join sep ps \<noteq> []"
  by (cases ps; cases "tl ps") auto

lemma settled_agent_key: "path_safe a \<Longrightarrow> settled r \<Longrightarrow> settled (agent_key a [r])"
  by (simp add: agent_key_rest settled_join settled_safe settled_words)

lemma parse_agent_key:
  assumes "path_safe a" and "settled r" and "key_parts r \<noteq> []"
  shows "parseAgentSessionKey (Some (agent_key a [r])) = Some \<lparr> pk_agentId = a, pk_rest = join (js '':'') (key_parts r) \<rparr>"
proof -
  have "[] \<notin> set (key_parts r)" by (simp add: key_parts_def)
  then have "join (js '':'') (key_parts r) \<noteq> []" using join_not_Nil assms(3) by blast
  moreover have "normalizeOptionalLowercaseString (Some (agent_key a [r])) = Some (agent_key a [r])"
    using settled_text [OF settled_agent_key [OF assms(1,2)]]
    by (simp add: normalizeOptionalLowercaseString_def normalizeOptionalString_def del: trim_Nil_iff)
  moreover have "normalizeOptionalString (Some a) = Some a"
    using settled_text [OF settled_safe [OF assms(1)]] by (simp add: normalizeOptionalString_def del: trim_Nil_iff)
  moreover have "2 < length (js ''agent'' # a # key_parts r)" using assms(3) by (cases "key_parts r") simp_all
  ultimately show ?thesis by (simp add: parseAgentSessionKey_def key_parts_agent [OF assms(1)] Let_def)
qed

text \<open>What a built key carries behind the agent id.\<close>

definition key_rest_ok :: "jsstr \<Rightarrow> bool" where
  "key_rest_ok r \<longleftrightarrow> settled r \<and> key_parts r \<noteq> []"

lemma rest_ok_colon: "settled a \<Longrightarrow> key_rest_ok b \<Longrightarrow> key_rest_ok (a @ js '':'' @ b)"
  by (simp add: key_rest_ok_def settled_join key_parts_colon)

lemma rest_ok_word: "settled b \<Longrightarrow> key_rest_ok (chat_type_text k @ js '':'' @ b)"
  by (simp add: key_rest_ok_def settled_join settled_words key_parts_colon key_parts_words)

lemma settled_channel: "settled (key_channel c)"
  by (simp add: key_channel_def settled_or settled_words)

lemma direct_peer_settled: "direct_peer p d \<noteq> [] \<Longrightarrow> settled (direct_peer p d)"
  unfolding direct_peer_def Let_def lowercase_or_empty by (rule settled_lowered)

lemma built_key_rest:
  assumes "key_parts (normalizeMainKey (bk_mainKey p)) \<noteq> []"
  shows "\<exists>r. buildAgentPeerSessionKey p = agent_key (normalizeAgentId (Some (bk_agentId p))) [r] \<and> key_rest_ok r
    \<and> (r = normalizeMainKey (bk_mainKey p) \<or> r \<noteq> js ''main'')"
proof -
  let ?a = "normalizeAgentId (Some (bk_agentId p))"
  have main: "key_rest_ok (normalizeMainKey (bk_mainKey p))"
    using assms settled_or [OF settled_words(1)] by (simp add: key_rest_ok_def normalizeMainKey_def DEFAULT_MAIN_KEY_def)
  have long: "a @ js '':'' @ b \<noteq> js ''main''" for a b
  proof
    assume eq: "a @ js '':'' @ b = js ''main''"
    have "0x3A \<in> set (a @ js '':'' @ b)" by (simp add: js_def)
    moreover have "0x3A \<notin> set (js ''main'')" by code_simp
    ultimately show False using eq by simp
  qed
  have one: ?thesis if "buildAgentPeerSessionKey p = agent_key ?a (x # y # ps)" "key_rest_ok (join (js '':'') (x # y # ps))" for x y ps
    using that long agent_key_single [of "x # y # ps" ?a] by (intro exI [of _ "join (js '':'') (x # y # ps)"]) auto
  have main_case: ?thesis if "buildAgentPeerSessionKey p = buildAgentMainSessionKey (bk_agentId p) (bk_mainKey p)"
    using that main by (auto simp: buildAgentMainSessionKey_def)
  let ?d = "case bk_dmScope p of None \<Rightarrow> DmMain | Some d \<Rightarrow> d"
  have direct: "key_rest_ok (join (js '':'') [js ''direct'', direct_peer p d])" if "direct_peer p d \<noteq> []" for d
    using rest_ok_word [of "direct_peer p d" ChatDirect] direct_peer_settled [OF that] by (simp add: chat_type_text_def)
  show ?thesis
  proof (cases "bk_peerKind p = None \<or> bk_peerKind p = Some ChatDirect")
    case True
    then have k: "(case bk_peerKind p of None \<Rightarrow> ChatDirect | Some k \<Rightarrow> k) = ChatDirect" by auto
    show ?thesis
    proof (cases "direct_peer p ?d = [] \<or> ?d = DmMain")
      case True
      then show ?thesis by (intro main_case) (auto simp: buildAgentPeerSessionKey_def Let_def k)
    next
      case False
      then have d: "direct_peer p ?d \<noteq> []" "?d \<noteq> DmMain" by simp_all
      have ch: "key_rest_ok (key_channel (bk_channel p) @ js '':'' @ join (js '':'') [js ''direct'', direct_peer p ?d])"
        using rest_ok_colon [OF settled_channel direct [OF d(1)]] .
      have acc: "key_rest_ok (key_channel (bk_channel p) @ js '':'' @ normalizeAccountId (bk_accountId p) @ js '':''
          @ join (js '':'') [js ''direct'', direct_peer p ?d])"
        using account_id_safe by (intro rest_ok_colon settled_channel settled_safe direct d(1)) simp
      show ?thesis
      proof (cases ?d)
        case DmPerPeer
        then show ?thesis using d direct [OF d(1)] by (intro one [of "js ''direct''" "direct_peer p DmPerPeer" "[]"]) (simp_all add: buildAgentPeerSessionKey_def Let_def k)
      next
        case DmPerChannelPeer
        then show ?thesis using d ch by (intro one [of _ "js ''direct''" "[direct_peer p DmPerChannelPeer]"]) (simp_all add: buildAgentPeerSessionKey_def Let_def k)
      next
        case DmPerAccountChannelPeer
        then show ?thesis using d acc by (intro one [of _ _ "[js ''direct'', direct_peer p DmPerAccountChannelPeer]"]) (simp_all add: buildAgentPeerSessionKey_def Let_def k)
      qed (use d in simp)
    qed
  next
    case False
    then obtain kind where kind: "bk_peerKind p = Some kind" "kind \<noteq> ChatDirect" by auto
    have "key_rest_ok (key_channel (bk_channel p) @ js '':'' @ chat_type_text kind @ js '':''
        @ non_empty_or (normalizeLowercaseStringOrEmpty (bk_peerId p)) (js ''unknown''))"
      by (intro rest_ok_colon settled_channel rest_ok_word settled_or settled_words)
    moreover have "buildAgentPeerSessionKey p = agent_key ?a [key_channel (bk_channel p), chat_type_text kind,
        non_empty_or (normalizeLowercaseStringOrEmpty (bk_peerId p)) (js ''unknown'')]"
      using kind by (cases kind) (simp_all add: buildAgentPeerSessionKey_def)
    ultimately show ?thesis using one by simp
  qed
qed

text \<open>C24: A session key is read back: parsing the key that \<open>buildAgentPeerSessionKey\<close> makes gives the normalised agent
  id, and as rest the parts behind it without the empty ones, whatever channel, account, peer and links went in;
  the key counts as an agent key.  If the rest has no empty part, the parsed key is the built one, and (unless the
  rest looks like an agent key itself) the request form of the key leads back to it.  The main key has to hold
  something besides colons.
\<close>

theorem session_key_round_trip:
  assumes "key_parts (normalizeMainKey (bk_mainKey p)) \<noteq> []"
  shows "\<exists>rest. let agent = normalizeAgentId (Some (bk_agentId p)); key = buildAgentPeerSessionKey p in
      key = agent_key agent [rest]
    \<and> parseAgentSessionKey (Some key) = Some \<lparr> pk_agentId = agent, pk_rest = join (js '':'') (key_parts rest) \<rparr>
    \<and> classifySessionKeyShape (Some key) = ShapeAgent
    \<and> ([] \<notin> set (split_on 0x3A rest) \<longrightarrow>
         parseAgentSessionKey (Some key) = Some \<lparr> pk_agentId = agent, pk_rest = rest \<rparr>
       \<and> (parseAgentSessionKey (Some rest) = None \<and> \<not> starts_with rest (js ''agent:'') \<longrightarrow>
            toAgentStoreSessionKey (bk_agentId p) (toAgentRequestSessionKey (Some key)) (bk_mainKey p) = key))"
proof -
  let ?a = "normalizeAgentId (Some (bk_agentId p))" and ?k = "buildAgentPeerSessionKey p"
  obtain r where r: "?k = agent_key ?a [r]" "key_rest_ok r" "r = normalizeMainKey (bk_mainKey p) \<or> r \<noteq> js ''main''"
    using built_key_rest [OF assms] by blast
  then have parse: "parseAgentSessionKey (Some ?k) = Some \<lparr> pk_agentId = ?a, pk_rest = join (js '':'') (key_parts r) \<rparr>"
    using parse_agent_key [OF agent_id_safe] by (simp add: key_rest_ok_def)
  have k: "trim ?k = ?k" "?k \<noteq> []" and rt: "trim r = r" "toLowerCase r = r" "r \<noteq> []"
    using settled_text [OF settled_agent_key [OF agent_id_safe]] settled_text [of r] r by (simp_all add: key_rest_ok_def)
  have shape: "classifySessionKeyShape (Some ?k) = ShapeAgent"
    using k parse by (simp add: classifySessionKeyShape_def text_or_empty_def Let_def del: trim_Nil_iff)
  have again: "toAgentStoreSessionKey (bk_agentId p) (toAgentRequestSessionKey (Some ?k)) (bk_mainKey p) = ?k"
    if "join (js '':'') (key_parts r) = r" "parseAgentSessionKey (Some r) = None" "\<not> starts_with r (js ''agent:'')"
    using that r(1,3) k rt parse
    by (auto simp: toAgentStoreSessionKey_def toAgentRequestSessionKey_def buildAgentMainSessionKey_def text_or_empty_def
        lowercase_or_empty DEFAULT_MAIN_KEY_def Let_def simp del: trim_Nil_iff)
  show ?thesis unfolding Let_def
    using r(1) parse shape again join_parts [of r] by (intro exI [of _ r]) simp
qed

definition sample_key_params :: peer_key_params where
  "sample_key_params = \<lparr> bk_agentId = js ''Ops Team'', bk_mainKey = None, bk_channel = js ''Feishu'', bk_accountId = None,
     bk_peerKind = Some ChatGroup, bk_peerId = Some (js ''oc_1''), bk_identityLinks = None, bk_dmScope = None \<rparr>"

lemma session_key_round_trip_witness:
  "\<exists>rest. let agent = normalizeAgentId (Some (bk_agentId sample_key_params)); key = buildAgentPeerSessionKey sample_key_params in
      key = agent_key agent [rest]
    \<and> parseAgentSessionKey (Some key) = Some \<lparr> pk_agentId = agent, pk_rest = join (js '':'') (key_parts rest) \<rparr>
    \<and> classifySessionKeyShape (Some key) = ShapeAgent
    \<and> ([] \<notin> set (split_on 0x3A rest) \<longrightarrow>
         parseAgentSessionKey (Some key) = Some \<lparr> pk_agentId = agent, pk_rest = rest \<rparr>
       \<and> (parseAgentSessionKey (Some rest) = None \<and> \<not> starts_with rest (js ''agent:'') \<longrightarrow>
            toAgentStoreSessionKey (bk_agentId sample_key_params) (toAgentRequestSessionKey (Some key)) (bk_mainKey sample_key_params) = key))"
  by (rule session_key_round_trip) code_simp

lemma sample_key:
  "buildAgentPeerSessionKey sample_key_params = js ''agent:ops-team:feishu:group:oc_1''"
  "toAgentRequestSessionKey (Some (js ''agent:ops-team:feishu:group:oc_1'')) = Some (js ''feishu:group:oc_1'')"
  by code_simp+

text \<open>A sequence of calls that share the two caches.\<close>

datatype account_call = NormalizeCall "jsstr option" | OptionalCall "jsstr option"

fun account_step :: "account_caches \<Rightarrow> account_call \<Rightarrow> account_caches \<times> jsstr option list" where
  "account_step s (NormalizeCall v) = (let (a, s') = cached_normalizeAccountId v s in (s', [Some a]))"
| "account_step s (OptionalCall v) = (let (a, s') = cached_normalizeOptionalAccountId v s in (s', [a]))"

fun account_answer :: "account_call \<Rightarrow> jsstr option" where
  "account_answer (NormalizeCall v) = Some (normalizeAccountId v)"
| "account_answer (OptionalCall v) = normalizeOptionalAccountId v"

definition no_account_caches :: account_caches where
  "no_account_caches = \<lparr> ac_normalize = [], ac_optional = [] \<rparr>"

interpretation ar: refinement account_step "\<lambda>u c. (u, [account_answer c])" "\<lambda>s (u::unit). caches_ok s" "\<lambda>u c. True"
proof unfold_locales
  fix s a b
  assume "caches_ok s"
  then show "snd (account_step s b) = snd (a, [account_answer b]) \<and> caches_ok (fst (account_step s b))"
    using cached_account [of s] cached_optional_account [of s] by (cases b) (simp_all add: case_prod_beta Let_def)
qed

text \<open>C23: Ids are path-safe: whatever text is given, the agent id and the account id are one to 64 lower-case letters,
  digits, underscores and dashes and do not start with a dash, and the account id is none of the keys that would
  reach an object's prototype.  The two caches never show: any sequence of calls that share them answers what the
  functions without caches answer.
\<close>

theorem normalized_ids_safe:
  "path_safe (normalizeAgentId v) \<and> path_safe (normalizeAccountId v) \<and> \<not> isBlockedObjectKey (normalizeAccountId v)
   \<and> snd (run_ops account_step no_account_caches calls) = map account_answer calls"
  using agent_id_safe [of v] account_id_safe [of v] ar.run_refines [of no_account_caches "()" calls, OF _ legal_run_True]
    run_ops_answers [of account_answer "()" calls]
  by (simp add: caches_ok_def no_account_caches_def)

end
