(* ===== verification/RouteBindings.thy ===== *)
theory RouteBindings
  imports SessionKey
begin

text \<open>
  The bindings that route a message to an agent: \<open>src/src/config/bindings.ts\<close>, \<open>src/src/routing/binding-scope.ts\<close>,
  \<open>src/src/routing/peer-kind-match.ts\<close> and the first half of \<open>src/src/routing/resolve-route.ts\<close>: the bindings of the
  configuration are put into buckets by channel and account, merged back into the order of the configuration, and
  indexed for the eight tiers.  The theorem compares the indexed lookup with a plain scan.
\<close>

section \<open>Bindings of the configuration\<close>

text \<open>An id in the configuration: a text, a number given by its \<open>String(value)\<close>, or anything else.\<close>

datatype id_value = IdText jsstr | IdNumeral jsstr | IdOther

record peer_rule =
  pr_kind :: "jsstr option"
  pr_id :: id_value

record binding_match =
  bm_channel :: "jsstr option"
  bm_accountId :: "jsstr option"
  bm_peer :: "peer_rule option"
  bm_guildId :: id_value
  bm_teamId :: id_value
  bm_roles :: "jsstr list option"

datatype binding_type = RouteType | AcpType

record route_binding =
  rb_type :: "binding_type option"
  rb_agentId :: jsstr
  rb_match :: "binding_match option"

definition normalizeBindingType :: "route_binding \<Rightarrow> binding_type" where
  "normalizeBindingType b = (if rb_type b = Some AcpType then AcpType else RouteType)"

definition isRouteBinding :: "route_binding \<Rightarrow> bool" where
  "isRouteBinding b \<longleftrightarrow> normalizeBindingType b = RouteType"

definition isAcpBinding :: "route_binding \<Rightarrow> bool" where
  "isAcpBinding b \<longleftrightarrow> normalizeBindingType b = AcpType"

definition listConfiguredBindings :: "route_binding list option \<Rightarrow> route_binding list" where
  "listConfiguredBindings bindings = (case bindings of Some bs \<Rightarrow> bs | None \<Rightarrow> [])"

definition listRouteBindings :: "route_binding list option \<Rightarrow> route_binding list" where
  "listRouteBindings bindings = filter isRouteBinding (listConfiguredBindings bindings)"

definition listAcpBindings :: "route_binding list option \<Rightarrow> route_binding list" where
  "listAcpBindings bindings = filter isAcpBinding (listConfiguredBindings bindings)"

section \<open>Scopes\<close>

definition normalizeRouteBindingId :: "id_value \<Rightarrow> jsstr" where
  "normalizeRouteBindingId value = (case value of IdText s \<Rightarrow> trim s | IdNumeral s \<Rightarrow> trim s | IdOther \<Rightarrow> [])"

definition normalizeRouteBindingRoles :: "jsstr list option \<Rightarrow> jsstr list option" where
  "normalizeRouteBindingRoles value = (case value of Some rs \<Rightarrow> if rs \<noteq> [] then Some rs else None | None \<Rightarrow> None)"

definition scopeIdMatches :: "jsstr option \<Rightarrow> jsstr \<Rightarrow> jsstr \<Rightarrow> bool" where
  "scopeIdMatches constraint exact groupSpace = (case constraint of
     None \<Rightarrow> True | Some c \<Rightarrow> c = [] \<or> c = exact \<or> c = groupSpace)"

definition hasAnyRouteBindingRole :: "jsstr list \<Rightarrow> jsstr list option \<Rightarrow> bool" where
  "hasAnyRouteBindingRole roles memberRoleIds = (case memberRoleIds of
     None \<Rightarrow> False | Some members \<Rightarrow> list_ex (\<lambda>r. r \<in> set members) roles)"

record scope_constraint =
  sc_guildId :: "jsstr option"
  sc_teamId :: "jsstr option"
  sc_roles :: "jsstr list option"

record route_scope =
  rs_guildId :: id_value
  rs_teamId :: id_value
  rs_groupSpace :: id_value
  rs_memberRoleIds :: "jsstr list option"

definition routeBindingScopeMatches :: "scope_constraint \<Rightarrow> route_scope \<Rightarrow> bool" where
  "routeBindingScopeMatches constraint scope =
    (let guildId = normalizeRouteBindingId (rs_guildId scope); teamId = normalizeRouteBindingId (rs_teamId scope);
         groupSpace = normalizeRouteBindingId (rs_groupSpace scope)
     in if \<not> scopeIdMatches (sc_guildId constraint) guildId groupSpace then False
        else if \<not> scopeIdMatches (sc_teamId constraint) teamId groupSpace then False
        else (case normalizeRouteBindingRoles (sc_roles constraint) of
            None \<Rightarrow> True | Some roles \<Rightarrow> hasAnyRouteBindingRole roles (rs_memberRoleIds scope)))"

definition peerKindMatches :: "chat_type \<Rightarrow> chat_type \<Rightarrow> bool" where
  "peerKindMatches bindingKind scopeKind \<longleftrightarrow> bindingKind = scopeKind
     \<or> (bindingKind = ChatGroup \<and> scopeKind = ChatChannel) \<or> (bindingKind = ChatChannel \<and> scopeKind = ChatGroup)"

section \<open>Evaluated bindings\<close>

datatype peer_constraint = PeerNone | PeerInvalid | PeerWildcard chat_type | PeerValid chat_type jsstr

record normal_match =
  nm_accountPattern :: jsstr
  nm_peer :: peer_constraint
  nm_scope :: scope_constraint

text \<open>\<open>order\<close> is the place in the configuration; it tells apart two evaluated bindings as their object identity does.\<close>

record evaluated_binding =
  eb_binding :: route_binding
  eb_match :: normal_match
  eb_order :: nat

definition normalizePeerConstraint :: "peer_rule option \<Rightarrow> peer_constraint" where
  "normalizePeerConstraint peer = (case peer of
     None \<Rightarrow> PeerNone
   | Some p \<Rightarrow> (let i = normalizeRouteBindingId (pr_id p) in
       case normalizeChatType (pr_kind p) of
         None \<Rightarrow> PeerInvalid
       | Some kind \<Rightarrow> if i = [] then PeerInvalid else if i = js ''*'' then PeerWildcard kind else PeerValid kind i))"

definition some_text :: "jsstr \<Rightarrow> jsstr option" where
  "some_text s = (if s = [] then None else Some s)"

definition normalizeBindingMatch :: "binding_match \<Rightarrow> normal_match" where
  "normalizeBindingMatch m =
    \<lparr> nm_accountPattern = trim (text_or_empty (bm_accountId m)),
      nm_peer = normalizePeerConstraint (bm_peer m),
      nm_scope = \<lparr> sc_guildId = some_text (normalizeRouteBindingId (bm_guildId m)),
        sc_teamId = some_text (normalizeRouteBindingId (bm_teamId m)),
        sc_roles = normalizeRouteBindingRoles (bm_roles m) \<rparr> \<rparr>"

definition resolveAccountPatternKey :: "jsstr \<Rightarrow> jsstr" where
  "resolveAccountPatternKey accountPattern =
    (if trim accountPattern = [] then DEFAULT_ACCOUNT_ID else normalizeAccountId (Some accountPattern))"

text \<open>The list under a key of a map of lists, empty when there is none, and \<open>push\<close> onto it.\<close>

definition bucket :: "('k, 'v list) jsmap \<Rightarrow> 'k \<Rightarrow> 'v list" where
  "bucket m k = (case mget m k of Some l \<Rightarrow> l | None \<Rightarrow> [])"

definition push_bucket :: "('k, 'v list) jsmap \<Rightarrow> 'k \<Rightarrow> 'v \<Rightarrow> ('k, 'v list) jsmap" where
  "push_bucket m k v = (case mget m k of Some existing \<Rightarrow> mput m k (existing @ [v]) | None \<Rightarrow> mput m k [v])"

lemma bucket_push [simp]: "bucket (push_bucket m k v) k' = (if k' = k then bucket m k @ [v] else bucket m k')"
  by (simp add: bucket_def push_bucket_def split: option.split)

record channel_bindings =
  cb_byAccount :: "(jsstr, evaluated_binding list) jsmap"
  cb_byAnyAccount :: "evaluated_binding list"

definition binding_channel :: "route_binding \<Rightarrow> jsstr" where
  "binding_channel b = normalizeLowercaseStringOrEmpty (case rb_match b of None \<Rightarrow> None | Some m \<Rightarrow> bm_channel m)"

definition evaluate_binding :: "route_binding \<Rightarrow> nat \<Rightarrow> evaluated_binding" where
  "evaluate_binding b order = \<lparr> eb_binding = b,
     eb_match = (case rb_match b of
        Some m \<Rightarrow> normalizeBindingMatch m
      | None \<Rightarrow> \<lparr> nm_accountPattern = [], nm_peer = PeerNone, nm_scope = \<lparr> sc_guildId = None, sc_teamId = None, sc_roles = None \<rparr> \<rparr>),
     eb_order = order \<rparr>"

definition add_to_channel :: "channel_bindings \<Rightarrow> evaluated_binding \<Rightarrow> channel_bindings" where
  "add_to_channel buckets e =
    (let pattern = nm_accountPattern (eb_match e) in
     if pattern = js ''*'' then buckets\<lparr> cb_byAnyAccount := cb_byAnyAccount buckets @ [e] \<rparr>
     else buckets\<lparr> cb_byAccount := push_bucket (cb_byAccount buckets) (resolveAccountPatternKey pattern) e \<rparr>)"

definition no_channel_bindings :: channel_bindings where
  "no_channel_bindings = \<lparr> cb_byAccount = [], cb_byAnyAccount = [] \<rparr>"

definition evaluate_step ::
    "(jsstr, channel_bindings) jsmap \<times> nat \<Rightarrow> route_binding \<Rightarrow> (jsstr, channel_bindings) jsmap \<times> nat" where
  "evaluate_step acc b =
    (let (byChannel, order) = acc; channel = binding_channel b in
     if channel = [] then (byChannel, order)
     else (let buckets = (case mget byChannel channel of Some x \<Rightarrow> x | None \<Rightarrow> no_channel_bindings) in
        (mput byChannel channel (add_to_channel buckets (evaluate_binding b order)), order + 1)))"

definition buildEvaluatedBindingsByChannel :: "route_binding list option \<Rightarrow> (jsstr, channel_bindings) jsmap" where
  "buildEvaluatedBindingsByChannel bindings = fst (foldl evaluate_step ([], 0) (listRouteBindings bindings))"

fun mergeEvaluatedBindingsInSourceOrder :: "evaluated_binding list \<Rightarrow> evaluated_binding list \<Rightarrow> evaluated_binding list" where
  "mergeEvaluatedBindingsInSourceOrder [] anyAccount = anyAccount"
| "mergeEvaluatedBindingsInSourceOrder accountScoped [] = accountScoped"
| "mergeEvaluatedBindingsInSourceOrder (a # as) (b # bs) =
    (if eb_order a \<le> eb_order b then a # mergeEvaluatedBindingsInSourceOrder as (b # bs)
     else b # mergeEvaluatedBindingsInSourceOrder (a # as) bs)"

text \<open>What \<open>getEvaluatedBindingsForChannelAccount\<close> puts into its cache.\<close>

definition channel_account_bindings :: "(jsstr, channel_bindings) jsmap \<Rightarrow> jsstr \<Rightarrow> jsstr \<Rightarrow> evaluated_binding list" where
  "channel_account_bindings byChannel channel accountId =
    (let buckets = mget byChannel channel;
         accountScoped = (case buckets of Some x \<Rightarrow> bucket (cb_byAccount x) accountId | None \<Rightarrow> []);
         anyAccount = (case buckets of Some x \<Rightarrow> cb_byAnyAccount x | None \<Rightarrow> [])
     in mergeEvaluatedBindingsInSourceOrder accountScoped anyAccount)"

section \<open>The index\<close>

record bindings_index =
  ix_byPeer :: "(jsstr, evaluated_binding list) jsmap"
  ix_byPeerWildcard :: "evaluated_binding list"
  ix_byGuildWithRoles :: "(jsstr, evaluated_binding list) jsmap"
  ix_byGuild :: "(jsstr, evaluated_binding list) jsmap"
  ix_byTeam :: "(jsstr, evaluated_binding list) jsmap"
  ix_byAccount :: "evaluated_binding list"
  ix_byChannel :: "evaluated_binding list"

definition pushToIndexMap ::
    "(jsstr, evaluated_binding list) jsmap \<Rightarrow> jsstr option \<Rightarrow> evaluated_binding \<Rightarrow> (jsstr, evaluated_binding list) jsmap" where
  "pushToIndexMap m key b = (case key of None \<Rightarrow> m | Some k \<Rightarrow> if k = [] then m else push_bucket m k b)"

definition peer_key :: "chat_type \<Rightarrow> jsstr \<Rightarrow> jsstr" where
  "peer_key kind i = chat_type_text kind @ js '':'' @ i"

definition peerLookupKeys :: "chat_type \<Rightarrow> jsstr \<Rightarrow> jsstr list" where
  "peerLookupKeys kind i = (case kind of
     ChatGroup \<Rightarrow> [peer_key ChatGroup i, peer_key ChatChannel i]
   | ChatChannel \<Rightarrow> [peer_key ChatChannel i, peer_key ChatGroup i]
   | ChatDirect \<Rightarrow> [peer_key ChatDirect i])"

record route_peer =
  rp_kind :: chat_type
  rp_id :: jsstr

definition collect_unseen :: "evaluated_binding list \<Rightarrow> evaluated_binding list \<Rightarrow> evaluated_binding list" where
  "collect_unseen out matches = foldl (\<lambda>out m. if m \<in> set out then out else out @ [m]) out matches"

definition collectPeerIndexedBindings :: "bindings_index \<Rightarrow> route_peer option \<Rightarrow> evaluated_binding list" where
  "collectPeerIndexedBindings index peer = (case peer of
     None \<Rightarrow> []
   | Some p \<Rightarrow> foldl (\<lambda>out key. collect_unseen out (bucket (ix_byPeer index) key)) [] (peerLookupKeys (rp_kind p) (rp_id p)))"

definition empty_index :: bindings_index where
  "empty_index = \<lparr> ix_byPeer = [], ix_byPeerWildcard = [], ix_byGuildWithRoles = [], ix_byGuild = [], ix_byTeam = [],
     ix_byAccount = [], ix_byChannel = [] \<rparr>"

definition hasGuildConstraint :: "normal_match \<Rightarrow> bool" where
  "hasGuildConstraint m \<longleftrightarrow> sc_guildId (nm_scope m) \<noteq> None \<and> sc_guildId (nm_scope m) \<noteq> Some []"

definition hasTeamConstraint :: "normal_match \<Rightarrow> bool" where
  "hasTeamConstraint m \<longleftrightarrow> sc_teamId (nm_scope m) \<noteq> None \<and> sc_teamId (nm_scope m) \<noteq> Some []"

definition hasRolesConstraint :: "normal_match \<Rightarrow> bool" where
  "hasRolesConstraint m \<longleftrightarrow> sc_roles (nm_scope m) \<noteq> None"

definition index_binding :: "bindings_index \<Rightarrow> evaluated_binding \<Rightarrow> bindings_index" where
  "index_binding ix b =
    (let m = eb_match b; guildId = sc_guildId (nm_scope m) in
     case nm_peer m of
       PeerValid kind i \<Rightarrow> ix\<lparr> ix_byPeer := foldl (\<lambda>mp key. pushToIndexMap mp (Some key) b) (ix_byPeer ix) (peerLookupKeys kind i) \<rparr>
     | PeerWildcard kind \<Rightarrow> ix\<lparr> ix_byPeerWildcard := ix_byPeerWildcard ix @ [b] \<rparr>
     | _ \<Rightarrow>
        if hasGuildConstraint m \<and> hasRolesConstraint m
        then ix\<lparr> ix_byGuildWithRoles := pushToIndexMap (ix_byGuildWithRoles ix) guildId b \<rparr>
        else if hasGuildConstraint m \<and> \<not> hasRolesConstraint m then ix\<lparr> ix_byGuild := pushToIndexMap (ix_byGuild ix) guildId b \<rparr>
        else if hasTeamConstraint m then ix\<lparr> ix_byTeam := pushToIndexMap (ix_byTeam ix) (sc_teamId (nm_scope m)) b \<rparr>
        else if nm_accountPattern m \<noteq> js ''*'' then ix\<lparr> ix_byAccount := ix_byAccount ix @ [b] \<rparr>
        else ix\<lparr> ix_byChannel := ix_byChannel ix @ [b] \<rparr>)"

definition buildEvaluatedBindingsIndex :: "evaluated_binding list \<Rightarrow> bindings_index" where
  "buildEvaluatedBindingsIndex bindings = foldl index_binding empty_index bindings"

section \<open>The tiers\<close>

text \<open>The input of \<open>resolveAgentRoute\<close> after its normalisation.\<close>

record normal_input =
  ni_channel :: jsstr
  ni_accountId :: jsstr
  ni_peer :: "route_peer option"
  ni_parentPeer :: "route_peer option"
  ni_guildId :: jsstr
  ni_teamId :: jsstr
  ni_memberRoleIds :: "jsstr list"

definition matchesBindingScope :: "normal_match \<Rightarrow> normal_input \<Rightarrow> route_peer option \<Rightarrow> bool" where
  "matchesBindingScope m inp scopePeer \<longleftrightarrow>
    (case nm_peer m of
       PeerInvalid \<Rightarrow> False
     | PeerNone \<Rightarrow> True
     | PeerValid kind i \<Rightarrow> (case scopePeer of None \<Rightarrow> False | Some p \<Rightarrow> peerKindMatches kind (rp_kind p) \<and> rp_id p = i)
     | PeerWildcard kind \<Rightarrow> (case scopePeer of None \<Rightarrow> False | Some p \<Rightarrow> peerKindMatches kind (rp_kind p)))
    \<and> routeBindingScopeMatches (nm_scope m) \<lparr> rs_guildId = IdText (ni_guildId inp), rs_teamId = IdText (ni_teamId inp),
        rs_groupSpace = IdOther, rs_memberRoleIds = Some (ni_memberRoleIds inp) \<rparr>"

datatype matched_by = ByPeer | ByPeerParent | ByPeerWildcard | ByGuildRoles | ByGuild | ByTeam | ByAccount | ByChannel | ByDefault

record route_tier =
  rt_matchedBy :: matched_by
  rt_enabled :: bool
  rt_scopePeer :: "route_peer option"
  rt_candidates :: "evaluated_binding list"
  rt_predicate :: "evaluated_binding \<Rightarrow> bool"

definition is_valid_peer :: "evaluated_binding \<Rightarrow> bool" where
  "is_valid_peer c \<longleftrightarrow> (case nm_peer (eb_match c) of PeerValid _ _ \<Rightarrow> True | _ \<Rightarrow> False)"

definition is_wildcard_peer :: "evaluated_binding \<Rightarrow> bool" where
  "is_wildcard_peer c \<longleftrightarrow> (case nm_peer (eb_match c) of PeerWildcard _ \<Rightarrow> True | _ \<Rightarrow> False)"

definition parent_scope :: "normal_input \<Rightarrow> route_peer option" where
  "parent_scope inp = (case ni_parentPeer inp of Some p \<Rightarrow> if rp_id p \<noteq> [] then Some p else None | None \<Rightarrow> None)"

definition route_tiers :: "normal_input \<Rightarrow> bindings_index \<Rightarrow> route_tier list" where
  "route_tiers inp index =
   [ \<lparr> rt_matchedBy = ByPeer, rt_enabled = ni_peer inp \<noteq> None, rt_scopePeer = ni_peer inp,
       rt_candidates = collectPeerIndexedBindings index (ni_peer inp), rt_predicate = is_valid_peer \<rparr>,
     \<lparr> rt_matchedBy = ByPeerParent, rt_enabled = parent_scope inp \<noteq> None, rt_scopePeer = parent_scope inp,
       rt_candidates = collectPeerIndexedBindings index (ni_parentPeer inp), rt_predicate = is_valid_peer \<rparr>,
     \<lparr> rt_matchedBy = ByPeerWildcard, rt_enabled = ni_peer inp \<noteq> None, rt_scopePeer = ni_peer inp,
       rt_candidates = ix_byPeerWildcard index, rt_predicate = is_wildcard_peer \<rparr>,
     \<lparr> rt_matchedBy = ByGuildRoles, rt_enabled = ni_guildId inp \<noteq> [] \<and> ni_memberRoleIds inp \<noteq> [], rt_scopePeer = ni_peer inp,
       rt_candidates = (if ni_guildId inp \<noteq> [] then bucket (ix_byGuildWithRoles index) (ni_guildId inp) else []),
       rt_predicate = (\<lambda>c. hasGuildConstraint (eb_match c) \<and> hasRolesConstraint (eb_match c)) \<rparr>,
     \<lparr> rt_matchedBy = ByGuild, rt_enabled = ni_guildId inp \<noteq> [], rt_scopePeer = ni_peer inp,
       rt_candidates = (if ni_guildId inp \<noteq> [] then bucket (ix_byGuild index) (ni_guildId inp) else []),
       rt_predicate = (\<lambda>c. hasGuildConstraint (eb_match c) \<and> \<not> hasRolesConstraint (eb_match c)) \<rparr>,
     \<lparr> rt_matchedBy = ByTeam, rt_enabled = ni_teamId inp \<noteq> [], rt_scopePeer = ni_peer inp,
       rt_candidates = (if ni_teamId inp \<noteq> [] then bucket (ix_byTeam index) (ni_teamId inp) else []),
       rt_predicate = (\<lambda>c. hasTeamConstraint (eb_match c)) \<rparr>,
     \<lparr> rt_matchedBy = ByAccount, rt_enabled = True, rt_scopePeer = ni_peer inp,
       rt_candidates = ix_byAccount index, rt_predicate = (\<lambda>c. nm_accountPattern (eb_match c) \<noteq> js ''*'') \<rparr>,
     \<lparr> rt_matchedBy = ByChannel, rt_enabled = True, rt_scopePeer = ni_peer inp,
       rt_candidates = ix_byChannel index, rt_predicate = (\<lambda>c. nm_accountPattern (eb_match c) = js ''*'') \<rparr> ]"

fun first_tier :: "normal_input \<Rightarrow> route_tier list \<Rightarrow> (matched_by \<times> evaluated_binding) option" where
  "first_tier inp [] = None"
| "first_tier inp (t # ts) =
    (if \<not> rt_enabled t then first_tier inp ts
     else (case find (\<lambda>c. rt_predicate t c \<and> matchesBindingScope (eb_match c) inp (rt_scopePeer t)) (rt_candidates t) of
        Some c \<Rightarrow> Some (rt_matchedBy t, c)
      | None \<Rightarrow> first_tier inp ts))"

text \<open>The matching binding of an input among the evaluated bindings of its channel and account.\<close>

definition indexed_match :: "route_binding list option \<Rightarrow> normal_input \<Rightarrow> (matched_by \<times> evaluated_binding) option" where
  "indexed_match bindings inp =
    first_tier inp (route_tiers inp (buildEvaluatedBindingsIndex
      (channel_account_bindings (buildEvaluatedBindingsByChannel bindings) (ni_channel inp) (ni_accountId inp))))"

section \<open>The buckets hold the bindings of the configuration\<close>

text \<open>The evaluated bindings in the order of the configuration, and those for a channel and an account.\<close>

definition ordered_bindings :: "route_binding list \<Rightarrow> evaluated_binding list" where
  "ordered_bindings bs = map (\<lambda>(i, b). evaluate_binding b i) (enumerate 0 (filter (\<lambda>b. binding_channel b \<noteq> []) bs))"

definition any_account :: "evaluated_binding \<Rightarrow> bool" where
  "any_account e \<longleftrightarrow> nm_accountPattern (eb_match e) = js ''*''"

definition for_account :: "jsstr \<Rightarrow> evaluated_binding \<Rightarrow> bool" where
  "for_account a e \<longleftrightarrow> \<not> any_account e \<and> resolveAccountPatternKey (nm_accountPattern (eb_match e)) = a"

definition on_channel :: "jsstr \<Rightarrow> evaluated_binding \<Rightarrow> bool" where
  "on_channel c e \<longleftrightarrow> binding_channel (eb_binding e) = c"

definition applicable_bindings :: "route_binding list option \<Rightarrow> jsstr \<Rightarrow> jsstr \<Rightarrow> evaluated_binding list" where
  "applicable_bindings bindings channel accountId =
    filter (\<lambda>e. on_channel channel e \<and> (any_account e \<or> for_account accountId e)) (ordered_bindings (listRouteBindings bindings))"

lemma ordered_snoc:
  "ordered_bindings (bs @ [b]) =
    (if binding_channel b = [] then ordered_bindings bs
     else ordered_bindings bs @ [evaluate_binding b (length (filter (\<lambda>b. binding_channel b \<noteq> []) bs))])"
  by (simp add: ordered_bindings_def enumerate_append_eq)

lemma evaluate_binding_simps [simp]:
  "eb_binding (evaluate_binding b n) = b" "eb_order (evaluate_binding b n) = n"
  by (simp_all add: evaluate_binding_def)

definition channel_of :: "(jsstr, channel_bindings) jsmap \<Rightarrow> jsstr \<Rightarrow> channel_bindings" where
  "channel_of m c = (case mget m c of Some x \<Rightarrow> x | None \<Rightarrow> no_channel_bindings)"

lemma no_bindings [simp]: "cb_byAnyAccount no_channel_bindings = []" "bucket (cb_byAccount no_channel_bindings) a = []"
  by (simp_all add: no_channel_bindings_def bucket_def)

lemma add_to_channel_facts:
  "cb_byAnyAccount (add_to_channel x e) = cb_byAnyAccount x @ (if any_account e then [e] else [])"
  "bucket (cb_byAccount (add_to_channel x e)) a = bucket (cb_byAccount x) a @ (if for_account a e then [e] else [])"
  by (auto simp: add_to_channel_def any_account_def for_account_def Let_def)

lemma evaluate_step_facts:
  assumes "evaluate_step (m, n) b = (m', n')"
  shows "n' = n + (if binding_channel b = [] then 0 else 1)"
    and "channel_of m' c = (if binding_channel b \<noteq> [] \<and> binding_channel b = c
      then add_to_channel (channel_of m c) (evaluate_binding b n) else channel_of m c)"
  using assms by (auto simp: evaluate_step_def channel_of_def Let_def split: if_splits)

lemma channel_buckets:
  "snd (foldl evaluate_step ([], 0) bs) = length (filter (\<lambda>b. binding_channel b \<noteq> []) bs)
   \<and> cb_byAnyAccount (channel_of (fst (foldl evaluate_step ([], 0) bs)) c)
        = filter (\<lambda>e. on_channel c e \<and> any_account e) (ordered_bindings bs)
   \<and> bucket (cb_byAccount (channel_of (fst (foldl evaluate_step ([], 0) bs)) c)) a
        = filter (\<lambda>e. on_channel c e \<and> for_account a e) (ordered_bindings bs)"
proof (induction bs rule: rev_induct)
  case Nil
  then show ?case by (simp add: channel_of_def ordered_bindings_def)
next
  case (snoc b bs)
  obtain m n where mn: "foldl evaluate_step ([], 0) bs = (m, n)" by fastforce
  obtain m' n' where step: "evaluate_step (m, n) b = (m', n')" by fastforce
  show ?case using snoc mn step evaluate_step_facts [OF step]
    by (auto simp: ordered_snoc add_to_channel_facts on_channel_def)
qed

lemma merge_Nil2 [simp]: "mergeEvaluatedBindingsInSourceOrder as [] = as"
  by (cases as) simp_all

text \<open>Merging two disjoint selections of a list in source order is their union.\<close>

lemma merge_filters:
  assumes "sorted (map eb_order es)" and "distinct (map eb_order es)" and "\<And>e. \<not> (P e \<and> Q e)"
  shows "mergeEvaluatedBindingsInSourceOrder (filter P es) (filter Q es) = filter (\<lambda>e. Q e \<or> P e) es"
  using assms(1,2)
proof (induction es)
  case (Cons e es)
  have later: "eb_order e < eb_order x" if "x \<in> set es" for x
    using Cons.prems that by (force simp: order_less_le)
  have step1: "mergeEvaluatedBindingsInSourceOrder (e # filter P es) (filter Q es) = e # mergeEvaluatedBindingsInSourceOrder (filter P es) (filter Q es)"
  proof (cases "filter Q es")
    case (Cons x xs)
    then have "x \<in> set es" by (metis filter_is_subset in_mono list.set_intros(1))
    then show ?thesis using later [of x] Cons by simp
  qed simp
  have step2: "mergeEvaluatedBindingsInSourceOrder (filter P es) (e # filter Q es) = e # mergeEvaluatedBindingsInSourceOrder (filter P es) (filter Q es)"
  proof (cases "filter P es")
    case (Cons x xs)
    then have "x \<in> set es" by (metis filter_is_subset in_mono list.set_intros(1))
    then show ?thesis using later [of x] Cons by simp
  qed simp
  show ?case using Cons step1 step2 assms(3) by (cases "P e"; cases "Q e") auto
qed simp

lemma ordered_sorted: "sorted (map eb_order (ordered_bindings bs)) \<and> distinct (map eb_order (ordered_bindings bs))"
proof -
  have "map eb_order (ordered_bindings bs) = map fst (enumerate 0 (filter (\<lambda>b. binding_channel b \<noteq> []) bs))"
    by (simp add: ordered_bindings_def comp_def case_prod_beta del: map_fst_enumerate)
  then show ?thesis by simp
qed

lemma channel_account_applicable:
  "channel_account_bindings (buildEvaluatedBindingsByChannel bindings) channel accountId = applicable_bindings bindings channel accountId"
proof -
  let ?bs = "listRouteBindings bindings" and ?m = "buildEvaluatedBindingsByChannel bindings"
  have "channel_account_bindings ?m channel accountId =
      mergeEvaluatedBindingsInSourceOrder (bucket (cb_byAccount (channel_of ?m channel)) accountId) (cb_byAnyAccount (channel_of ?m channel))"
    by (simp add: channel_account_bindings_def channel_of_def Let_def split: option.split)
  also have "\<dots> = mergeEvaluatedBindingsInSourceOrder
      (filter (\<lambda>e. on_channel channel e \<and> for_account accountId e) (ordered_bindings ?bs))
      (filter (\<lambda>e. on_channel channel e \<and> any_account e) (ordered_bindings ?bs))"
    using channel_buckets [of ?bs channel accountId] by (simp add: buildEvaluatedBindingsByChannel_def)
  also have "\<dots> = filter (\<lambda>e. (on_channel channel e \<and> any_account e) \<or> (on_channel channel e \<and> for_account accountId e)) (ordered_bindings ?bs)"
    using ordered_sorted by (intro merge_filters) (auto simp: for_account_def)
  also have "\<dots> = applicable_bindings bindings channel accountId"
    unfolding applicable_bindings_def by (rule filter_cong) auto
  finally show ?thesis .
qed

section \<open>The index selects in order\<close>

definition plain_peer :: "evaluated_binding \<Rightarrow> bool" where
  "plain_peer e \<longleftrightarrow> \<not> is_valid_peer e \<and> \<not> is_wildcard_peer e"

definition guilded :: "evaluated_binding \<Rightarrow> bool" where
  "guilded e \<longleftrightarrow> hasGuildConstraint (eb_match e)"

definition teamed :: "evaluated_binding \<Rightarrow> bool" where
  "teamed e \<longleftrightarrow> hasTeamConstraint (eb_match e)"

definition peer_listed :: "jsstr \<Rightarrow> evaluated_binding \<Rightarrow> bool" where
  "peer_listed k e \<longleftrightarrow> (case nm_peer (eb_match e) of PeerValid kind i \<Rightarrow> k \<in> set (peerLookupKeys kind i) | _ \<Rightarrow> False)"

lemma peer_key_inj [simp]: "peer_key k i = peer_key k' i' \<longleftrightarrow> k = k' \<and> i = i'"
  by (cases k; cases k') (auto simp: peer_key_def chat_type_text_def js_def)

lemma peer_key_not_Nil [simp]: "peer_key k i \<noteq> []"
  by (simp add: peer_key_def js_def)

lemma lookup_keys: "k \<in> set (peerLookupKeys kind i) \<longleftrightarrow> (\<exists>kind'. k = peer_key kind' i \<and> peerKindMatches kind kind')"
  by (cases kind) (auto simp: peerLookupKeys_def peerKindMatches_def)

lemma lookup_keys_distinct: "distinct (peerLookupKeys kind i) \<and> [] \<notin> set (peerLookupKeys kind i)"
  by (cases kind) (auto simp: peerLookupKeys_def dest: sym)

lemma bucket_pushToIndexMap [simp]:
  "bucket (pushToIndexMap m key b) k = bucket m k @ (if key = Some k \<and> k \<noteq> [] then [b] else [])"
  by (auto simp: pushToIndexMap_def split: option.split)

lemma bucket_push_keys:
  "distinct keys \<Longrightarrow> bucket (foldl (\<lambda>mp key. pushToIndexMap mp (Some key) b) m keys) k
     = bucket m k @ (if k \<in> set keys \<and> k \<noteq> [] then [b] else [])"
  by (induction keys arbitrary: m) auto

lemmas index_defs = is_valid_peer_def is_wildcard_peer_def plain_peer_def guilded_def teamed_def peer_listed_def

lemma index_step:
  "bucket (ix_byPeer (index_binding ix b)) k = bucket (ix_byPeer ix) k @ (if peer_listed k b then [b] else [])"
  "ix_byPeerWildcard (index_binding ix b) = ix_byPeerWildcard ix @ (if is_wildcard_peer b then [b] else [])"
  "bucket (ix_byGuildWithRoles (index_binding ix b)) k = bucket (ix_byGuildWithRoles ix) k
     @ (if plain_peer b \<and> sc_guildId (nm_scope (eb_match b)) = Some k \<and> k \<noteq> [] \<and> hasRolesConstraint (eb_match b) then [b] else [])"
  "bucket (ix_byGuild (index_binding ix b)) k = bucket (ix_byGuild ix) k
     @ (if plain_peer b \<and> sc_guildId (nm_scope (eb_match b)) = Some k \<and> k \<noteq> [] \<and> \<not> hasRolesConstraint (eb_match b) then [b] else [])"
  "bucket (ix_byTeam (index_binding ix b)) k = bucket (ix_byTeam ix) k
     @ (if plain_peer b \<and> \<not> guilded b \<and> sc_teamId (nm_scope (eb_match b)) = Some k \<and> k \<noteq> [] then [b] else [])"
  "ix_byAccount (index_binding ix b) = ix_byAccount ix
     @ (if plain_peer b \<and> \<not> guilded b \<and> \<not> teamed b \<and> \<not> any_account b then [b] else [])"
  "ix_byChannel (index_binding ix b) = ix_byChannel ix
     @ (if plain_peer b \<and> \<not> guilded b \<and> \<not> teamed b \<and> any_account b then [b] else [])"
proof -
  show "bucket (ix_byPeer (index_binding ix b)) k = bucket (ix_byPeer ix) k @ (if peer_listed k b then [b] else [])"
    using lookup_keys_distinct
    by (cases "nm_peer (eb_match b)") (auto simp: index_binding_def index_defs Let_def bucket_push_keys)
qed (cases "nm_peer (eb_match b)"; auto simp: index_binding_def index_defs any_account_def hasGuildConstraint_def hasTeamConstraint_def Let_def)+

lemma built_index:
  "bucket (ix_byPeer (buildEvaluatedBindingsIndex bs)) k = filter (peer_listed k) bs"
  "ix_byPeerWildcard (buildEvaluatedBindingsIndex bs) = filter is_wildcard_peer bs"
  "bucket (ix_byGuildWithRoles (buildEvaluatedBindingsIndex bs)) k =
     filter (\<lambda>b. plain_peer b \<and> sc_guildId (nm_scope (eb_match b)) = Some k \<and> k \<noteq> [] \<and> hasRolesConstraint (eb_match b)) bs"
  "bucket (ix_byGuild (buildEvaluatedBindingsIndex bs)) k =
     filter (\<lambda>b. plain_peer b \<and> sc_guildId (nm_scope (eb_match b)) = Some k \<and> k \<noteq> [] \<and> \<not> hasRolesConstraint (eb_match b)) bs"
  "bucket (ix_byTeam (buildEvaluatedBindingsIndex bs)) k =
     filter (\<lambda>b. plain_peer b \<and> \<not> guilded b \<and> sc_teamId (nm_scope (eb_match b)) = Some k \<and> k \<noteq> []) bs"
  "ix_byAccount (buildEvaluatedBindingsIndex bs) = filter (\<lambda>b. plain_peer b \<and> \<not> guilded b \<and> \<not> teamed b \<and> \<not> any_account b) bs"
  "ix_byChannel (buildEvaluatedBindingsIndex bs) = filter (\<lambda>b. plain_peer b \<and> \<not> guilded b \<and> \<not> teamed b \<and> any_account b) bs"
  unfolding buildEvaluatedBindingsIndex_def
  by (induction bs rule: rev_induct) (simp_all add: index_step, simp_all add: empty_index_def bucket_def)

lemma collect_new: "distinct (out @ l) \<Longrightarrow> collect_unseen out l = out @ l"
  unfolding collect_unseen_def by (induction l arbitrary: out) auto

lemma collect_seen: "set l \<subseteq> set out \<Longrightarrow> collect_unseen out l = out"
  unfolding collect_unseen_def by (induction l arbitrary: out) auto

definition names_peer :: "route_peer \<Rightarrow> evaluated_binding \<Rightarrow> bool" where
  "names_peer p e \<longleftrightarrow> (case nm_peer (eb_match e) of PeerValid kind i \<Rightarrow> peerKindMatches kind (rp_kind p) \<and> i = rp_id p | _ \<Rightarrow> False)"

lemma listed_names: "peer_listed (peer_key kind i) = names_peer \<lparr> rp_kind = kind, rp_id = i \<rparr>"
  by (auto simp: fun_eq_iff peer_listed_def names_peer_def lookup_keys split: peer_constraint.split)

lemma collected:
  assumes "distinct bs"
  shows "collectPeerIndexedBindings (buildEvaluatedBindingsIndex bs) (Some p) = filter (names_peer p) bs"
proof -
  obtain k i where p: "p = \<lparr> rp_kind = k, rp_id = i \<rparr>" by (cases p) simp
  have swap: "names_peer \<lparr> rp_kind = ChatGroup, rp_id = i \<rparr> = names_peer \<lparr> rp_kind = ChatChannel, rp_id = i \<rparr>"
    by (auto simp: names_peer_def peerKindMatches_def fun_eq_iff split: peer_constraint.split)
  show ?thesis
    using assms swap by (cases k) (simp_all add: p collectPeerIndexedBindings_def built_index peerLookupKeys_def listed_names
        collect_new collect_seen)
qed

section \<open>The indexed lookup is a plain scan\<close>

text \<open>
  The reference: a binding fits a tier if it has what the tier is about and matches the scope; the first tier in
  which any binding fits decides, by the first that fits in the order of the configuration.
\<close>

definition tier_fits :: "normal_input \<Rightarrow> matched_by \<Rightarrow> evaluated_binding \<Rightarrow> bool" where
  "tier_fits inp t e \<longleftrightarrow>
    matchesBindingScope (eb_match e) inp (if t = ByPeerParent then parent_scope inp else ni_peer inp) \<and>
    (case t of
       ByPeer \<Rightarrow> is_valid_peer e
     | ByPeerParent \<Rightarrow> is_valid_peer e
     | ByPeerWildcard \<Rightarrow> is_wildcard_peer e
     | ByGuildRoles \<Rightarrow> guilded e \<and> hasRolesConstraint (eb_match e)
     | ByGuild \<Rightarrow> guilded e \<and> \<not> hasRolesConstraint (eb_match e)
     | ByTeam \<Rightarrow> teamed e
     | ByAccount \<Rightarrow> \<not> any_account e
     | ByChannel \<Rightarrow> any_account e
     | ByDefault \<Rightarrow> False)"

fun first_fit :: "('t \<Rightarrow> 'b \<Rightarrow> bool) \<Rightarrow> 't list \<Rightarrow> 'b list \<Rightarrow> ('t \<times> 'b) option" where
  "first_fit fits [] bs = None"
| "first_fit fits (t # ts) bs = (case find (fits t) bs of Some b \<Rightarrow> Some (t, b) | None \<Rightarrow> first_fit fits ts bs)"

definition all_tiers :: "matched_by list" where
  "all_tiers = [ByPeer, ByPeerParent, ByPeerWildcard, ByGuildRoles, ByGuild, ByTeam, ByAccount, ByChannel]"

definition scanned_match :: "route_binding list option \<Rightarrow> normal_input \<Rightarrow> (matched_by \<times> evaluated_binding) option" where
  "scanned_match bindings inp =
    first_fit (tier_fits inp) all_tiers (applicable_bindings bindings (ni_channel inp) (ni_accountId inp))"

text \<open>Each binding is indexed in one place only: the tiers after it do not see it.\<close>

definition tier_home :: "matched_by \<Rightarrow> evaluated_binding \<Rightarrow> bool" where
  "tier_home t e \<longleftrightarrow> (case t of
     ByGuildRoles \<Rightarrow> plain_peer e
   | ByGuild \<Rightarrow> plain_peer e
   | ByTeam \<Rightarrow> plain_peer e \<and> \<not> guilded e
   | ByAccount \<Rightarrow> plain_peer e \<and> \<not> guilded e \<and> \<not> teamed e
   | ByChannel \<Rightarrow> plain_peer e \<and> \<not> guilded e \<and> \<not> teamed e
   | _ \<Rightarrow> True)"

text \<open>Hiding an item from a tier changes nothing if an earlier tier takes it anyway.\<close>

lemma first_fit_shadowed:
  assumes "\<And>t b. good t b \<Longrightarrow> fits t b"
    and "\<And>pre t post b. b \<in> set bs \<Longrightarrow> ts0 = pre @ t # post \<Longrightarrow> fits t b \<Longrightarrow> \<not> good t b \<Longrightarrow> \<exists>t' \<in> set pre. good t' b"
    and "ts0 = pre @ ts" and "\<And>t b. t \<in> set pre \<Longrightarrow> b \<in> set bs \<Longrightarrow> \<not> good t b"
  shows "first_fit good ts bs = first_fit fits ts bs"
  using assms(3,4)
proof (induction ts arbitrary: pre)
  case (Cons t ts)
  have same: "good t b = fits t b" if "b \<in> set bs" for b
    using assms(1) assms(2) [OF that Cons.prems(1)] Cons.prems(2) that by blast
  then have find: "find (good t) bs = find (fits t) bs" by (simp cong: find_cong)
  show ?case
  proof (cases "find (good t) bs")
    case None
    then have "\<And>b. b \<in> set bs \<Longrightarrow> \<not> good t b" by (simp add: find_None_iff)
    then have "first_fit good ts bs = first_fit fits ts bs"
      using Cons.prems by (intro Cons.IH [of "pre @ [t]"]) auto
    then show ?thesis using None find by simp
  qed (use find in simp)
qed simp

definition scope_roles_normal :: "evaluated_binding \<Rightarrow> bool" where
  "scope_roles_normal e \<longleftrightarrow> sc_roles (nm_scope (eb_match e)) \<noteq> Some []"

lemma evaluated_normal: "scope_roles_normal (evaluate_binding b n)"
  by (auto simp: scope_roles_normal_def evaluate_binding_def normalizeBindingMatch_def normalizeRouteBindingRoles_def
      split: option.split)

lemma find_filter: "find P (filter Q xs) = find (\<lambda>x. Q x \<and> P x) xs"
  by (induction xs) auto

lemma scope_guild:
  assumes "matchesBindingScope (eb_match e) inp sp" and "guilded e" and "trim (ni_guildId inp) = ni_guildId inp"
  shows "sc_guildId (nm_scope (eb_match e)) = Some (ni_guildId inp) \<and> ni_guildId inp \<noteq> []"
  using assms by (auto simp: matchesBindingScope_def routeBindingScopeMatches_def scopeIdMatches_def guilded_def
      hasGuildConstraint_def normalizeRouteBindingId_def Let_def split: if_splits)

lemma scope_team:
  assumes "matchesBindingScope (eb_match e) inp sp" and "teamed e" and "trim (ni_teamId inp) = ni_teamId inp"
  shows "sc_teamId (nm_scope (eb_match e)) = Some (ni_teamId inp) \<and> ni_teamId inp \<noteq> []"
  using assms by (auto simp: matchesBindingScope_def routeBindingScopeMatches_def scopeIdMatches_def teamed_def
      hasTeamConstraint_def normalizeRouteBindingId_def Let_def split: if_splits)

lemma scope_has_role:
  assumes "matchesBindingScope (eb_match e) inp sp" and "hasRolesConstraint (eb_match e)" and "scope_roles_normal e"
  shows "ni_memberRoleIds inp \<noteq> []"
  using assms by (auto simp: matchesBindingScope_def routeBindingScopeMatches_def scope_roles_normal_def hasRolesConstraint_def
      normalizeRouteBindingRoles_def hasAnyRouteBindingRole_def list_ex_iff Let_def split: if_splits)

lemma scope_peer:
  "is_valid_peer e \<Longrightarrow> matchesBindingScope (eb_match e) inp sp \<Longrightarrow> \<exists>p. sp = Some p \<and> names_peer p e"
  "is_wildcard_peer e \<Longrightarrow> matchesBindingScope (eb_match e) inp sp \<Longrightarrow> sp \<noteq> None"
  by (auto simp: matchesBindingScope_def index_defs names_peer_def split: peer_constraint.splits option.splits)

lemma names_valid: "names_peer p e \<Longrightarrow> is_valid_peer e"
  by (auto simp: names_peer_def is_valid_peer_def split: peer_constraint.splits)

definition tier_good :: "normal_input \<Rightarrow> matched_by \<Rightarrow> evaluated_binding \<Rightarrow> bool" where
  "tier_good inp t e \<longleftrightarrow> tier_home t e \<and> tier_fits inp t e"

definition tier_found :: "normal_input \<Rightarrow> route_tier \<Rightarrow> evaluated_binding option" where
  "tier_found inp t = (if rt_enabled t then find (\<lambda>c. rt_predicate t c \<and> matchesBindingScope (eb_match c) inp (rt_scopePeer t)) (rt_candidates t) else None)"

lemma first_tier_found:
  "map (\<lambda>t. (rt_matchedBy t, tier_found inp t)) ts = map (\<lambda>t. (t, find (g t) bs)) ns \<Longrightarrow> first_tier inp ts = first_fit g ns bs"
proof (induction ts arbitrary: ns)
  case (Cons t ts)
  then obtain n ns' where ns: "ns = n # ns'" by (cases ns) auto
  then have "rt_matchedBy t = n" "tier_found inp t = find (g n) bs" "first_tier inp ts = first_fit g ns' bs"
    using Cons by simp_all
  then show ?case by (auto simp: ns tier_found_def split: if_splits option.split)
qed simp

lemma found_in:
  assumes "\<And>c. c \<in> set bs \<Longrightarrow> good c \<longleftrightarrow> e \<and> Q c \<and> P c"
  shows "(if e then find P (filter Q bs) else None) = find good bs"
proof -
  have "find good bs = find (\<lambda>c. e \<and> Q c \<and> P c) bs" using assms by (simp cong: find_cong)
  then show ?thesis by (cases e) (simp_all add: find_filter find_None_iff2)
qed

lemma tiers_found:
  assumes trims: "trim (ni_guildId inp) = ni_guildId inp" "trim (ni_teamId inp) = ni_teamId inp"
    and normal: "list_all scope_roles_normal bs" and "distinct bs"
  shows "map (\<lambda>t. (rt_matchedBy t, tier_found inp t)) (route_tiers inp (buildEvaluatedBindingsIndex bs))
    = map (\<lambda>t. (t, find (tier_good inp t) bs)) all_tiers"
proof -
  have n: "scope_roles_normal c" if "c \<in> set bs" for c using normal that by (simp add: list_all_iff)
  note d = tier_good_def tier_home_def tier_fits_def
  let ?ix = "buildEvaluatedBindingsIndex bs"
  have peer: "(if sp \<noteq> None then find (\<lambda>c. is_valid_peer c \<and> matchesBindingScope (eb_match c) inp sp) (collectPeerIndexedBindings ?ix sp) else None)
      = find (\<lambda>c. is_valid_peer c \<and> matchesBindingScope (eb_match c) inp sp) bs" for sp
  proof (cases sp)
    case None
    then show ?thesis using scope_peer(1) [of _ inp None] by (auto simp: find_None_iff2)
  next
    case (Some p)
    then show ?thesis
      using scope_peer(1) [of _ inp sp] collected [OF assms(4), of p]
      by (simp add: find_filter) (rule find_cong, auto)
  qed
  have parent: "collectPeerIndexedBindings ?ix (ni_parentPeer inp) = collectPeerIndexedBindings ?ix (parent_scope inp)" if "parent_scope inp \<noteq> None"
    using that by (auto simp: parent_scope_def split: option.splits if_splits)
  have roles: "c \<in> set bs \<Longrightarrow> tier_good inp ByGuildRoles c \<longleftrightarrow> (ni_guildId inp \<noteq> [] \<and> ni_memberRoleIds inp \<noteq> [])
      \<and> (plain_peer c \<and> sc_guildId (nm_scope (eb_match c)) = Some (ni_guildId inp) \<and> ni_guildId inp \<noteq> [] \<and> hasRolesConstraint (eb_match c))
      \<and> (hasGuildConstraint (eb_match c) \<and> hasRolesConstraint (eb_match c)) \<and> matchesBindingScope (eb_match c) inp (ni_peer inp)" for c
    using scope_guild [of c inp "ni_peer inp"] scope_has_role [of c inp "ni_peer inp"] trims n [of c]
    by (auto simp: d guilded_def)
  have guild: "c \<in> set bs \<Longrightarrow> tier_good inp ByGuild c \<longleftrightarrow> ni_guildId inp \<noteq> []
      \<and> (plain_peer c \<and> sc_guildId (nm_scope (eb_match c)) = Some (ni_guildId inp) \<and> ni_guildId inp \<noteq> [] \<and> \<not> hasRolesConstraint (eb_match c))
      \<and> (hasGuildConstraint (eb_match c) \<and> \<not> hasRolesConstraint (eb_match c)) \<and> matchesBindingScope (eb_match c) inp (ni_peer inp)" for c
    using scope_guild [of c inp "ni_peer inp"] trims by (auto simp: d guilded_def)
  have team: "c \<in> set bs \<Longrightarrow> tier_good inp ByTeam c \<longleftrightarrow> ni_teamId inp \<noteq> []
      \<and> (plain_peer c \<and> \<not> guilded c \<and> sc_teamId (nm_scope (eb_match c)) = Some (ni_teamId inp) \<and> ni_teamId inp \<noteq> [])
      \<and> hasTeamConstraint (eb_match c) \<and> matchesBindingScope (eb_match c) inp (ni_peer inp)" for c
    using scope_team [of c inp "ni_peer inp"] trims by (auto simp: d teamed_def)
  have rest: "tier_good inp t c \<longleftrightarrow> True \<and> (plain_peer c \<and> \<not> guilded c \<and> \<not> teamed c \<and> (t = ByChannel \<longleftrightarrow> any_account c))
      \<and> (any_account c \<longleftrightarrow> t = ByChannel) \<and> matchesBindingScope (eb_match c) inp (ni_peer inp)" if "t = ByAccount \<or> t = ByChannel" for c t
    using that by (auto simp: d)
  have "tier_good inp ByPeer = (\<lambda>c. is_valid_peer c \<and> matchesBindingScope (eb_match c) inp (ni_peer inp))"
    "tier_good inp ByPeerParent = (\<lambda>c. is_valid_peer c \<and> matchesBindingScope (eb_match c) inp (parent_scope inp))"
    by (auto simp: d fun_eq_iff)
  note f1 = this
  have wild: "c \<in> set bs \<Longrightarrow> tier_good inp ByPeerWildcard c \<longleftrightarrow> (ni_peer inp \<noteq> None) \<and> is_wildcard_peer c
      \<and> is_wildcard_peer c \<and> matchesBindingScope (eb_match c) inp (ni_peer inp)" for c
    using scope_peer(2) [of c inp "ni_peer inp"] by (auto simp: d)
  have w: "find (tier_good inp ByPeerWildcard) bs = (if ni_peer inp \<noteq> None then find (\<lambda>c. is_wildcard_peer c \<and> matchesBindingScope (eb_match c) inp (ni_peer inp)) (filter (\<lambda>c. is_wildcard_peer c) bs) else None)"
    by (rule found_in [symmetric]) (use wild in auto)
  have r: "find (tier_good inp ByGuildRoles) bs = (if ni_guildId inp \<noteq> [] \<and> ni_memberRoleIds inp \<noteq> [] then find (\<lambda>c. (hasGuildConstraint (eb_match c) \<and> hasRolesConstraint (eb_match c)) \<and> matchesBindingScope (eb_match c) inp (ni_peer inp)) (filter (\<lambda>c. plain_peer c \<and> sc_guildId (nm_scope (eb_match c)) = Some (ni_guildId inp) \<and> ni_guildId inp \<noteq> [] \<and> hasRolesConstraint (eb_match c)) bs) else None)"
    by (rule found_in [symmetric]) (use roles in auto)
  have g: "find (tier_good inp ByGuild) bs = (if ni_guildId inp \<noteq> [] then find (\<lambda>c. (hasGuildConstraint (eb_match c) \<and> \<not> hasRolesConstraint (eb_match c)) \<and> matchesBindingScope (eb_match c) inp (ni_peer inp)) (filter (\<lambda>c. plain_peer c \<and> sc_guildId (nm_scope (eb_match c)) = Some (ni_guildId inp) \<and> ni_guildId inp \<noteq> [] \<and> \<not> hasRolesConstraint (eb_match c)) bs) else None)"
    by (rule found_in [symmetric]) (use guild in auto)
  have t: "find (tier_good inp ByTeam) bs = (if ni_teamId inp \<noteq> [] then find (\<lambda>c. hasTeamConstraint (eb_match c) \<and> matchesBindingScope (eb_match c) inp (ni_peer inp)) (filter (\<lambda>c. plain_peer c \<and> \<not> guilded c \<and> sc_teamId (nm_scope (eb_match c)) = Some (ni_teamId inp) \<and> ni_teamId inp \<noteq> []) bs) else None)"
    by (rule found_in [symmetric]) (use team in auto)
  have a: "find (tier_good inp ByAccount) bs = (if True then find (\<lambda>c. nm_accountPattern (eb_match c) \<noteq> js ''*'' \<and> matchesBindingScope (eb_match c) inp (ni_peer inp)) (filter (\<lambda>c. plain_peer c \<and> \<not> guilded c \<and> \<not> teamed c \<and> \<not> any_account c) bs) else None)"
    by (rule found_in [symmetric]) (use rest [of ByAccount] in \<open>auto simp: any_account_def\<close>)
  have h: "find (tier_good inp ByChannel) bs = (if True then find (\<lambda>c. nm_accountPattern (eb_match c) = js ''*'' \<and> matchesBindingScope (eb_match c) inp (ni_peer inp)) (filter (\<lambda>c. plain_peer c \<and> \<not> guilded c \<and> \<not> teamed c \<and> any_account c) bs) else None)"
    by (rule found_in [symmetric]) (use rest [of ByChannel] in \<open>auto simp: any_account_def\<close>)
  have p1: "find (tier_good inp ByPeer) bs = (if ni_peer inp \<noteq> None
      then find (\<lambda>c. is_valid_peer c \<and> matchesBindingScope (eb_match c) inp (ni_peer inp)) (collectPeerIndexedBindings ?ix (ni_peer inp)) else None)"
    unfolding f1(1) by (rule peer [symmetric])
  have p2: "find (tier_good inp ByPeerParent) bs = (if parent_scope inp \<noteq> None
      then find (\<lambda>c. is_valid_peer c \<and> matchesBindingScope (eb_match c) inp (parent_scope inp)) (collectPeerIndexedBindings ?ix (ni_parentPeer inp)) else None)"
    unfolding f1(2) using peer [of "parent_scope inp"] parent by presburger
  have "tier_found inp \<lparr> rt_matchedBy = by, rt_enabled = e, rt_scopePeer = sp, rt_candidates = cs, rt_predicate = q \<rparr>
      = (if e then find (\<lambda>c. q c \<and> matchesBindingScope (eb_match c) inp sp) cs else None)" for "by" e sp cs q
    by (simp add: tier_found_def)
  note tf = this
  show ?thesis
    unfolding route_tiers_def all_tiers_def list.map route_tier.simps tf built_index p1 p2 w r g t a h
    by simp
qed

lemma tier_taken_earlier:
  assumes "tier_fits inp t e" and "\<not> tier_home t e"
  shows "tier_good inp ByPeer e \<or> tier_good inp ByPeerWildcard e \<or> tier_good inp ByGuildRoles e \<or> tier_good inp ByGuild e
    \<or> (tier_good inp ByTeam e \<and> (t = ByAccount \<or> t = ByChannel))"
    and "t \<in> {ByGuildRoles, ByGuild, ByTeam, ByAccount, ByChannel}"
    and "t \<in> {ByGuildRoles, ByGuild} \<Longrightarrow> tier_good inp ByPeer e \<or> tier_good inp ByPeerWildcard e"
  using assms by (cases t; auto simp: tier_good_def tier_home_def tier_fits_def plain_peer_def)+

lemma all_tiers_split: "all_tiers = pre @ t # post \<Longrightarrow>
    (t = ByGuildRoles \<or> t = ByGuild \<longrightarrow> ByPeer \<in> set pre \<and> ByPeerWildcard \<in> set pre)
  \<and> (t = ByTeam \<longrightarrow> {ByPeer, ByPeerWildcard, ByGuildRoles, ByGuild} \<subseteq> set pre)
  \<and> (t = ByAccount \<or> t = ByChannel \<longrightarrow> {ByPeer, ByPeerWildcard, ByGuildRoles, ByGuild, ByTeam} \<subseteq> set pre)"
  by (auto simp: all_tiers_def Cons_eq_append_conv)

lemma applicable_facts:
  "list_all scope_roles_normal (applicable_bindings bindings c a)" "distinct (applicable_bindings bindings c a)"
proof -
  show "list_all scope_roles_normal (applicable_bindings bindings c a)"
    using evaluated_normal by (auto simp: list_all_iff applicable_bindings_def ordered_bindings_def)
  show "distinct (applicable_bindings bindings c a)"
    using ordered_sorted [of "listRouteBindings bindings"] by (simp add: applicable_bindings_def distinct_map)
qed

lemma indexed_scan:
  assumes trims: "trim (ni_guildId inp) = ni_guildId inp" "trim (ni_teamId inp) = ni_teamId inp"
  shows "indexed_match bindings inp = scanned_match bindings inp"
proof -
  let ?bs = "applicable_bindings bindings (ni_channel inp) (ni_accountId inp)"
  have "indexed_match bindings inp = first_fit (tier_good inp) all_tiers ?bs"
    unfolding indexed_match_def channel_account_applicable
    by (rule first_tier_found) (rule tiers_found [OF trims applicable_facts])
  also have "\<dots> = first_fit (tier_fits inp) all_tiers ?bs"
  proof (rule first_fit_shadowed [where ?ts0.0 = all_tiers and pre = "[]"])
    show "tier_good inp t e \<Longrightarrow> tier_fits inp t e" for t e by (simp add: tier_good_def)
    show "\<exists>t' \<in> set pre. tier_good inp t' e"
      if "all_tiers = pre @ t # post" "tier_fits inp t e" "\<not> tier_good inp t e" for pre t post e
      using tier_taken_earlier [of inp t e] all_tiers_split [OF that(1)] that(2,3) by (auto simp: tier_good_def)
  qed simp_all
  finally show ?thesis by (simp add: scanned_match_def)
qed

end
