(* ===== verification/RouteResolve.thy ===== *)
theory RouteResolve
  imports RouteBindings "HOL-Library.List_Lexorder"
begin

text \<open>
  \<open>resolveAgentRoute\<close> of \<open>src/src/routing/resolve-route.ts\<close> with its three caches, and the agents of
  \<open>src/src/agents/agent-scope-config.ts\<close>.  The caches belong to one configuration object; its parts are
  references, compared as such, into a memory that holds their contents and is not changed in place.
  The theorem states that the caches and the index never show.
\<close>

section \<open>The parts of the configuration\<close>

record agent_entry =
  ae_id :: "jsstr option"
  ae_default :: bool

record session_config =
  se_dmScope :: "dm_scope option"
  se_identityLinks :: "identity_links option"

record config_memory =
  cm_bindings :: "nat \<Rightarrow> route_binding list option"
  cm_agents :: "nat \<Rightarrow> agent_entry list option"
  cm_session :: "nat \<Rightarrow> session_config option"

record config_refs =
  cf_bindings :: nat
  cf_agents :: nat
  cf_session :: nat

section \<open>Agents\<close>

definition listAgentEntries :: "agent_entry list option \<Rightarrow> agent_entry list" where
  "listAgentEntries agents = (case agents of Some l \<Rightarrow> l | None \<Rightarrow> [])"

definition listAgentIds :: "agent_entry list option \<Rightarrow> jsstr list" where
  "listAgentIds agents =
    (if listAgentEntries agents = [] then [DEFAULT_AGENT_ID]
     else (let ids = foldl (\<lambda>ids e. sadd ids (normalizeAgentId (ae_id e))) [] (listAgentEntries agents)
       in if ids \<noteq> [] then ids else [DEFAULT_AGENT_ID]))"

definition resolveDefaultAgentId :: "agent_entry list option \<Rightarrow> jsstr" where
  "resolveDefaultAgentId agents = (case listAgentEntries agents of
     [] \<Rightarrow> DEFAULT_AGENT_ID
   | first # _ \<Rightarrow>
      (let chosen = (case filter ae_default (listAgentEntries agents) of d # _ \<Rightarrow> d | [] \<Rightarrow> first)
       in normalizeAgentId (Some (non_empty_or (trim (text_or_empty (ae_id chosen))) DEFAULT_AGENT_ID))))"

record agent_lookup =
  al_agentsRef :: nat
  al_byNormalizedId :: "(jsstr, jsstr) jsmap"
  al_fallbackDefaultAgentId :: jsstr

definition add_agent_id :: "(jsstr, jsstr) jsmap \<Rightarrow> agent_entry \<Rightarrow> (jsstr, jsstr) jsmap" where
  "add_agent_id m e =
    (let rawId = trim (text_or_empty (ae_id e)) in
     if rawId = [] then m else mput m (normalizeAgentId (Some rawId)) (sanitizeAgentId (Some rawId)))"

definition build_agent_lookup :: "nat \<Rightarrow> agent_entry list option \<Rightarrow> agent_lookup" where
  "build_agent_lookup agentsRef agents = \<lparr> al_agentsRef = agentsRef,
     al_byNormalizedId = foldl add_agent_id [] (listAgentEntries agents),
     al_fallbackDefaultAgentId = sanitizeAgentId (Some (resolveDefaultAgentId agents)) \<rparr>"

definition pick_agent :: "agent_lookup \<Rightarrow> jsstr \<Rightarrow> jsstr" where
  "pick_agent lookup agentId =
    (let trimmed = trim agentId in
     if trimmed = [] then al_fallbackDefaultAgentId lookup
     else if al_byNormalizedId lookup = [] then sanitizeAgentId (Some trimmed)
     else (case mget (al_byNormalizedId lookup) (normalizeAgentId (Some trimmed)) of
         Some resolved \<Rightarrow> if resolved \<noteq> [] then resolved else al_fallbackDefaultAgentId lookup
       | None \<Rightarrow> al_fallbackDefaultAgentId lookup))"

section \<open>The caches\<close>

record evaluated_cache =
  ec_bindingsRef :: nat
  ec_byChannel :: "(jsstr, channel_bindings) jsmap"
  ec_byChannelAccount :: "(jsstr, evaluated_binding list) jsmap"
  ec_byChannelAccountIndex :: "(jsstr, bindings_index) jsmap"

datatype route_policy = PolicyMain | PolicySession

record resolved_route =
  rr_agentId :: jsstr
  rr_channel :: jsstr
  rr_accountId :: jsstr
  rr_sessionKey :: jsstr
  rr_mainSessionKey :: jsstr
  rr_lastRoutePolicy :: route_policy
  rr_matchedBy :: matched_by

record resolved_cache =
  rc_bindingsRef :: nat
  rc_agentsRef :: nat
  rc_sessionRef :: nat
  rc_byKey :: "(jsstr, resolved_route) jsmap"

record routing_state =
  st_agents :: "agent_lookup option"
  st_evaluated :: "evaluated_cache option"
  st_resolved :: "resolved_cache option"

definition MAX_EVALUATED_BINDINGS_CACHE_KEYS :: nat where "MAX_EVALUATED_BINDINGS_CACHE_KEYS = 2000"
definition MAX_RESOLVED_ROUTE_CACHE_KEYS :: nat where "MAX_RESOLVED_ROUTE_CACHE_KEYS = 4000"

text \<open>\<open>set\<close>, and \<open>clear\<close> and \<open>set\<close> again when the map has grown beyond its bound.\<close>

definition set_or_clear :: "nat \<Rightarrow> ('k, 'v) jsmap \<Rightarrow> 'k \<Rightarrow> 'v \<Rightarrow> ('k, 'v) jsmap" where
  "set_or_clear bound m k v = (if bound < length (mput m k v) then [(k, v)] else mput m k v)"

definition resolveAgentLookupCache :: "config_memory \<Rightarrow> config_refs \<Rightarrow> routing_state \<Rightarrow> agent_lookup \<times> routing_state" where
  "resolveAgentLookupCache mem cfg s =
    (let fresh = build_agent_lookup (cf_agents cfg) (cm_agents mem (cf_agents cfg)) in
     case st_agents s of
       Some existing \<Rightarrow> if al_agentsRef existing = cf_agents cfg then (existing, s) else (fresh, s\<lparr> st_agents := Some fresh \<rparr>)
     | None \<Rightarrow> (fresh, s\<lparr> st_agents := Some fresh \<rparr>))"

definition pickFirstExistingAgentId :: "config_memory \<Rightarrow> config_refs \<Rightarrow> jsstr \<Rightarrow> routing_state \<Rightarrow> jsstr \<times> routing_state" where
  "pickFirstExistingAgentId mem cfg agentId s =
    (let (lookup, s') = resolveAgentLookupCache mem cfg s in (pick_agent lookup agentId, s'))"

definition account_cache_key :: "jsstr \<Rightarrow> jsstr \<Rightarrow> jsstr" where
  "account_cache_key channel accountId = channel @ 0x09 # accountId"

definition evaluated_cache_for :: "config_memory \<Rightarrow> config_refs \<Rightarrow> routing_state \<Rightarrow> evaluated_cache" where
  "evaluated_cache_for mem cfg s =
    (let fresh = \<lparr> ec_bindingsRef = cf_bindings cfg,
        ec_byChannel = buildEvaluatedBindingsByChannel (cm_bindings mem (cf_bindings cfg)),
        ec_byChannelAccount = [], ec_byChannelAccountIndex = [] \<rparr>
     in case st_evaluated s of
       Some existing \<Rightarrow> if ec_bindingsRef existing = cf_bindings cfg then existing else fresh
     | None \<Rightarrow> fresh)"

definition getEvaluatedBindingsForChannelAccount ::
    "config_memory \<Rightarrow> config_refs \<Rightarrow> jsstr \<Rightarrow> jsstr \<Rightarrow> routing_state \<Rightarrow> evaluated_binding list \<times> routing_state" where
  "getEvaluatedBindingsForChannelAccount mem cfg channel accountId s =
    (let cache = evaluated_cache_for mem cfg s; cacheKey = account_cache_key channel accountId in
     case mget (ec_byChannelAccount cache) cacheKey of
       Some hit \<Rightarrow> (hit, s\<lparr> st_evaluated := Some cache \<rparr>)
     | None \<Rightarrow>
        (let evaluated = channel_account_bindings (ec_byChannel cache) channel accountId;
             lists = mput (ec_byChannelAccount cache) cacheKey evaluated;
             index = buildEvaluatedBindingsIndex evaluated;
             indexes = mput (ec_byChannelAccountIndex cache) cacheKey index;
             cache' = (if MAX_EVALUATED_BINDINGS_CACHE_KEYS < length lists
               then cache\<lparr> ec_byChannelAccount := [(cacheKey, evaluated)], ec_byChannelAccountIndex := [(cacheKey, index)] \<rparr>
               else cache\<lparr> ec_byChannelAccount := lists, ec_byChannelAccountIndex := indexes \<rparr>)
         in (evaluated, s\<lparr> st_evaluated := Some cache' \<rparr>)))"

definition getEvaluatedBindingIndexForChannelAccount ::
    "config_memory \<Rightarrow> config_refs \<Rightarrow> jsstr \<Rightarrow> jsstr \<Rightarrow> routing_state \<Rightarrow> bindings_index \<times> routing_state" where
  "getEvaluatedBindingIndexForChannelAccount mem cfg channel accountId s =
    (let (bindings, s') = getEvaluatedBindingsForChannelAccount mem cfg channel accountId s;
         cacheKey = account_cache_key channel accountId
     in case st_evaluated s' of
          None \<Rightarrow> (buildEvaluatedBindingsIndex bindings, s')
        | Some existing \<Rightarrow> (case mget (ec_byChannelAccountIndex existing) cacheKey of
            Some indexed \<Rightarrow> (indexed, s')
          | None \<Rightarrow> (let built = buildEvaluatedBindingsIndex bindings in
              (built, s'\<lparr> st_evaluated := Some (existing\<lparr> ec_byChannelAccountIndex :=
                 mput (ec_byChannelAccountIndex existing) cacheKey built \<rparr>) \<rparr>))))"

definition resolveRouteCacheForConfig :: "config_refs \<Rightarrow> routing_state \<Rightarrow> resolved_cache" where
  "resolveRouteCacheForConfig cfg s =
    (let fresh = \<lparr> rc_bindingsRef = cf_bindings cfg, rc_agentsRef = cf_agents cfg, rc_sessionRef = cf_session cfg, rc_byKey = [] \<rparr>
     in case st_resolved s of
       Some existing \<Rightarrow> if rc_bindingsRef existing = cf_bindings cfg \<and> rc_agentsRef existing = cf_agents cfg
           \<and> rc_sessionRef existing = cf_session cfg then existing else fresh
     | None \<Rightarrow> fresh)"

definition formatRouteCachePeer :: "route_peer option \<Rightarrow> jsstr" where
  "formatRouteCachePeer peer = (case peer of
     None \<Rightarrow> js ''-'' | Some p \<Rightarrow> if rp_id p = [] then js ''-'' else peer_key (rp_kind p) (rp_id p))"

definition formatRoleIdsCacheKey :: "jsstr list \<Rightarrow> jsstr" where
  "formatRoleIdsCacheKey roleIds = (case roleIds of
     [] \<Rightarrow> js ''-''
   | [r] \<Rightarrow> r
   | [first, second] \<Rightarrow> if first \<le> second then first @ js '','' @ second else second @ js '','' @ first
   | _ \<Rightarrow> join (js '','') (sort roleIds))"

definition dm_scope_text :: "dm_scope \<Rightarrow> jsstr" where
  "dm_scope_text d = (case d of DmMain \<Rightarrow> js ''main'' | DmPerPeer \<Rightarrow> js ''per-peer''
     | DmPerChannelPeer \<Rightarrow> js ''per-channel-peer'' | DmPerAccountChannelPeer \<Rightarrow> js ''per-account-channel-peer'')"

definition buildResolvedRouteCacheKey :: "normal_input \<Rightarrow> dm_scope \<Rightarrow> jsstr" where
  "buildResolvedRouteCacheKey inp dmScope = join [0x09]
     [ni_channel inp, ni_accountId inp, formatRouteCachePeer (ni_peer inp), formatRouteCachePeer (ni_parentPeer inp),
      non_empty_or (ni_guildId inp) (js ''-''), non_empty_or (ni_teamId inp) (js ''-''),
      formatRoleIdsCacheKey (ni_memberRoleIds inp), dm_scope_text dmScope]"

section \<open>Resolving a route\<close>

definition deriveLastRoutePolicy :: "jsstr \<Rightarrow> jsstr \<Rightarrow> route_policy" where
  "deriveLastRoutePolicy sessionKey mainSessionKey = (if sessionKey = mainSessionKey then PolicyMain else PolicySession)"

definition resolveInboundLastRouteSessionKey :: "resolved_route \<Rightarrow> jsstr \<Rightarrow> jsstr" where
  "resolveInboundLastRouteSessionKey route sessionKey =
    (if rr_lastRoutePolicy route = PolicyMain then rr_mainSessionKey route else sessionKey)"

definition buildAgentSessionKey ::
    "jsstr \<Rightarrow> jsstr \<Rightarrow> jsstr option \<Rightarrow> route_peer option \<Rightarrow> dm_scope option \<Rightarrow> identity_links option \<Rightarrow> jsstr" where
  "buildAgentSessionKey agentId channel accountId peer dmScope identityLinks =
    buildAgentPeerSessionKey \<lparr> bk_agentId = agentId, bk_mainKey = Some DEFAULT_MAIN_KEY,
      bk_channel = non_empty_or (normalizeLowercaseStringOrEmpty (Some channel)) (js ''unknown''), bk_accountId = accountId,
      bk_peerKind = Some (case peer of Some p \<Rightarrow> rp_kind p | None \<Rightarrow> ChatDirect),
      bk_peerId = (case peer of Some p \<Rightarrow> Some (non_empty_or (normalizeRouteBindingId (IdText (rp_id p))) (js ''unknown'')) | None \<Rightarrow> None),
      bk_identityLinks = identityLinks, bk_dmScope = dmScope \<rparr>"

record input_peer =
  ip_kind :: chat_type
  ip_id :: id_value

record route_input =
  in_channel :: "jsstr option"
  in_accountId :: "jsstr option"
  in_peer :: "input_peer option"
  in_parentPeer :: "input_peer option"
  in_guildId :: id_value
  in_teamId :: id_value
  in_memberRoleIds :: "jsstr list option"

definition normal_peer :: "input_peer option \<Rightarrow> route_peer option" where
  "normal_peer p = map_option (\<lambda>x. \<lparr> rp_kind = (case normalizeChatType (Some (chat_type_text (ip_kind x))) of Some k \<Rightarrow> k | None \<Rightarrow> ip_kind x),
     rp_id = normalizeRouteBindingId (ip_id x) \<rparr>) p"

definition normalize_input :: "route_input \<Rightarrow> normal_input" where
  "normalize_input i = \<lparr> ni_channel = normalizeLowercaseStringOrEmpty (in_channel i), ni_accountId = normalizeAccountId (in_accountId i),
     ni_peer = normal_peer (in_peer i), ni_parentPeer = normal_peer (in_parentPeer i),
     ni_guildId = normalizeRouteBindingId (in_guildId i), ni_teamId = normalizeRouteBindingId (in_teamId i),
     ni_memberRoleIds = (case in_memberRoleIds i of Some l \<Rightarrow> l | None \<Rightarrow> []) \<rparr>"

definition session_dm_scope :: "session_config option \<Rightarrow> dm_scope" where
  "session_dm_scope se = (case se of None \<Rightarrow> DmMain | Some x \<Rightarrow> (case se_dmScope x of None \<Rightarrow> DmMain | Some d \<Rightarrow> d))"

definition session_links :: "session_config option \<Rightarrow> identity_links option" where
  "session_links se = (case se of None \<Rightarrow> None | Some x \<Rightarrow> se_identityLinks x)"

text \<open>The route that \<open>choose\<close> makes for an existing agent.\<close>

definition make_route :: "session_config option \<Rightarrow> normal_input \<Rightarrow> jsstr \<Rightarrow> matched_by \<Rightarrow> resolved_route" where
  "make_route se inp resolvedAgentId matchedBy =
    (let sessionKey = normalizeLowercaseStringOrEmpty (Some (buildAgentSessionKey resolvedAgentId (ni_channel inp)
           (Some (ni_accountId inp)) (ni_peer inp) (Some (session_dm_scope se)) (session_links se)));
         mainSessionKey = normalizeLowercaseStringOrEmpty (Some (buildAgentMainSessionKey resolvedAgentId (Some DEFAULT_MAIN_KEY)))
     in \<lparr> rr_agentId = resolvedAgentId, rr_channel = ni_channel inp, rr_accountId = ni_accountId inp,
          rr_sessionKey = sessionKey, rr_mainSessionKey = mainSessionKey,
          rr_lastRoutePolicy = deriveLastRoutePolicy sessionKey mainSessionKey, rr_matchedBy = matchedBy \<rparr>)"

definition choose_route ::
    "config_memory \<Rightarrow> config_refs \<Rightarrow> normal_input \<Rightarrow> (jsstr \<times> resolved_cache) option \<Rightarrow> jsstr \<Rightarrow> matched_by \<Rightarrow>
     routing_state \<Rightarrow> resolved_route \<times> routing_state" where
  "choose_route mem cfg inp cacheAt agentId matchedBy s =
    (let (resolvedAgentId, s') = pickFirstExistingAgentId mem cfg agentId s;
         route = make_route (cm_session mem (cf_session cfg)) inp resolvedAgentId matchedBy
     in case cacheAt of
          None \<Rightarrow> (route, s')
        | Some (key, cache) \<Rightarrow> (route, s'\<lparr> st_resolved :=
            Some (cache\<lparr> rc_byKey := set_or_clear MAX_RESOLVED_ROUTE_CACHE_KEYS (rc_byKey cache) key route \<rparr>) \<rparr>))"

definition resolve_uncached ::
    "config_memory \<Rightarrow> config_refs \<Rightarrow> normal_input \<Rightarrow> (jsstr \<times> resolved_cache) option \<Rightarrow> routing_state \<Rightarrow> resolved_route \<times> routing_state" where
  "resolve_uncached mem cfg inp cacheAt s =
    (let (bindings, s1) = getEvaluatedBindingsForChannelAccount mem cfg (ni_channel inp) (ni_accountId inp) s;
         (index, s2) = getEvaluatedBindingIndexForChannelAccount mem cfg (ni_channel inp) (ni_accountId inp) s1
     in case first_tier inp (route_tiers inp index) of
          Some (matchedBy, matched) \<Rightarrow> choose_route mem cfg inp cacheAt (rb_agentId (eb_binding matched)) matchedBy s2
        | None \<Rightarrow> choose_route mem cfg inp cacheAt (resolveDefaultAgentId (cm_agents mem (cf_agents cfg))) ByDefault s2)"

definition resolveAgentRoute ::
    "config_memory \<Rightarrow> bool \<Rightarrow> config_refs \<Rightarrow> route_input \<Rightarrow> routing_state \<Rightarrow> resolved_route \<times> routing_state" where
  "resolveAgentRoute mem verbose cfg i s =
    (let inp = normalize_input i; session = cm_session mem (cf_session cfg) in
     if \<not> verbose \<and> session_links session = None
     then (let cache = resolveRouteCacheForConfig cfg s; s' = s\<lparr> st_resolved := Some cache \<rparr>;
               key = buildResolvedRouteCacheKey inp (session_dm_scope session)
           in case mget (rc_byKey cache) key of
                Some cachedRoute \<Rightarrow> (cachedRoute, s')
              | None \<Rightarrow> resolve_uncached mem cfg inp (Some (key, cache)) s')
     else resolve_uncached mem cfg inp None s)"

section \<open>The specification\<close>

text \<open>Without caches, indexes and buckets: a plain scan of the bindings, and the agent if it is configured.\<close>

definition configured_ids :: "agent_entry list option \<Rightarrow> jsstr list" where
  "configured_ids agents = map (\<lambda>e. normalizeAgentId (ae_id e)) (filter (\<lambda>e. \<not> blank (text_or_empty (ae_id e))) (listAgentEntries agents))"

definition existing_agent :: "agent_entry list option \<Rightarrow> jsstr \<Rightarrow> jsstr" where
  "existing_agent agents agentId =
    (if blank agentId then normalizeAgentId (Some (resolveDefaultAgentId agents))
     else if configured_ids agents = [] \<or> normalizeAgentId (Some agentId) \<in> set (configured_ids agents) then normalizeAgentId (Some agentId)
     else normalizeAgentId (Some (resolveDefaultAgentId agents)))"

definition scanned_route :: "config_memory \<Rightarrow> config_refs \<Rightarrow> normal_input \<Rightarrow> resolved_route" where
  "scanned_route mem cfg inp =
    (let agents = cm_agents mem (cf_agents cfg); session = cm_session mem (cf_session cfg) in
     case scanned_match (cm_bindings mem (cf_bindings cfg)) inp of
       Some (matchedBy, e) \<Rightarrow> make_route session inp (existing_agent agents (rb_agentId (eb_binding e))) matchedBy
     | None \<Rightarrow> make_route session inp (existing_agent agents (resolveDefaultAgentId agents)) ByDefault)"

section \<open>Agents that exist\<close>

lemma normalize_trim: "normalizeAgentId (Some (trim (text_or_empty v))) = normalizeAgentId v"
  by (simp add: normalizeAgentId_def text_or_empty_def)

lemma agent_lookup_map:
  "mget (foldl add_agent_id m es) k
   = (if k \<in> set (map (\<lambda>e. normalizeAgentId (ae_id e)) (filter (\<lambda>e. \<not> blank (text_or_empty (ae_id e))) es)) then Some k else mget m k)"
  by (induction es arbitrary: m) (auto simp: add_agent_id_def Let_def sanitizeAgentId_def normalize_trim)

lemma picked_agent: "pick_agent (build_agent_lookup r agents) agentId = existing_agent agents agentId"
proof -
  let ?m = "al_byNormalizedId (build_agent_lookup r agents)"
  have get: "mget ?m k = (if k \<in> set (configured_ids agents) then Some k else None)" for k
    by (simp add: build_agent_lookup_def agent_lookup_map configured_ids_def)
  have "?m = [] \<longleftrightarrow> (\<forall>k. mget ?m k = None)"
    by (cases ?m) (auto simp: mget_def)
  then have none: "?m = [] \<longleftrightarrow> configured_ids agents = []"
    by (cases "configured_ids agents") (auto simp: get)
  have trimmed: "normalizeAgentId (Some (trim agentId)) = normalizeAgentId (Some agentId)"
    using normalize_trim [of "Some agentId"] by (simp add: text_or_empty_def)
  have ne: "normalizeAgentId v \<noteq> []" for v using agent_id_safe [of v] by (simp add: path_safe_def)
  show ?thesis
    by (simp add: pick_agent_def existing_agent_def none get trimmed ne sanitizeAgentId_def Let_def)
       (simp add: build_agent_lookup_def sanitizeAgentId_def)
qed

section \<open>The caches never show\<close>

lemma set_or_clear_table: "0 < bound \<Longrightarrow> memo_table (set_or_clear bound) bound"
proof (unfold_locales)
  fix m :: "('k, 'v) jsmap" and k v
  show "set (set_or_clear bound m k v) \<subseteq> insert (k, v) (set m)"
    using set_mput_subset [of m k v] by (simp add: set_or_clear_def)
  show "0 < bound \<Longrightarrow> length m \<le> bound \<Longrightarrow> length (set_or_clear bound m k v) \<le> bound"
    by (simp add: set_or_clear_def)
qed

interpretation rt: memo_table "set_or_clear MAX_RESOLVED_ROUTE_CACHE_KEYS" MAX_RESOLVED_ROUTE_CACHE_KEYS
  by (rule set_or_clear_table) (simp add: MAX_RESOLVED_ROUTE_CACHE_KEYS_def)

interpretation ev: memo_table "set_or_clear MAX_EVALUATED_BINDINGS_CACHE_KEYS" MAX_EVALUATED_BINDINGS_CACHE_KEYS
  by (rule set_or_clear_table) (simp add: MAX_EVALUATED_BINDINGS_CACHE_KEYS_def)

text \<open>Account ids hold no tab, so the key of a channel and an account tells both.\<close>

lemma account_key_inj:
  assumes "account_cache_key c a = account_cache_key c' a'" and "0x09 \<notin> set a" and "0x09 \<notin> set a'"
  shows "c = c' \<and> a = a'"
proof -
  have cut: "takeWhile (\<lambda>x. x \<noteq> 0x09) (rev (account_cache_key d b)) = rev b" if "0x09 \<notin> set b" for d b :: jsstr
    using that by (auto simp: account_cache_key_def takeWhile_append takeWhile_eq_all_conv)
  have "rev a = rev a'" using cut [of a c] cut [of a' c'] assms by simp
  then show ?thesis using assms(1) by (simp add: account_cache_key_def)
qed

definition bindings_memo :: "route_binding list option \<Rightarrow> jsstr \<Rightarrow> evaluated_binding list \<Rightarrow> bool" where
  "bindings_memo bindings key l \<longleftrightarrow>
    (\<forall>c a. 0x09 \<notin> set a \<longrightarrow> key = account_cache_key c a \<longrightarrow> l = applicable_bindings bindings c a)"

definition index_memo :: "route_binding list option \<Rightarrow> jsstr \<Rightarrow> bindings_index \<Rightarrow> bool" where
  "index_memo bindings key ix \<longleftrightarrow>
    (\<forall>c a. 0x09 \<notin> set a \<longrightarrow> key = account_cache_key c a \<longrightarrow> ix = buildEvaluatedBindingsIndex (applicable_bindings bindings c a))"

definition evaluated_ok :: "config_memory \<Rightarrow> evaluated_cache \<Rightarrow> bool" where
  "evaluated_ok mem c \<longleftrightarrow>
    (let bindings = cm_bindings mem (ec_bindingsRef c) in
       ec_byChannel c = buildEvaluatedBindingsByChannel bindings
     \<and> memo_ok MAX_EVALUATED_BINDINGS_CACHE_KEYS (bindings_memo bindings) (ec_byChannelAccount c)
     \<and> memo_ok MAX_EVALUATED_BINDINGS_CACHE_KEYS (index_memo bindings) (ec_byChannelAccountIndex c)
     \<and> mkeys (ec_byChannelAccountIndex c) = mkeys (ec_byChannelAccount c))"

lemma memo_new:
  assumes "0x09 \<notin> set a"
  shows "bindings_memo bindings (account_cache_key c a) (applicable_bindings bindings c a)"
    and "index_memo bindings (account_cache_key c a) (buildEvaluatedBindingsIndex (applicable_bindings bindings c a))"
  using account_key_inj assms unfolding bindings_memo_def index_memo_def by blast+

lemma mkeys_mput: "mkeys m = mkeys m' \<Longrightarrow> mkeys (mput m k v) = mkeys (mput m' k v')"
  by (cases "mhas m k") (simp_all add: mkeys_mput_present mput_absent mhas_def)

lemma evaluated_fresh: "evaluated_ok mem (evaluated_cache_for mem cfg s) \<and> ec_bindingsRef (evaluated_cache_for mem cfg s) = cf_bindings cfg"
  if "\<And>c. st_evaluated s = Some c \<Longrightarrow> evaluated_ok mem c"
  using that by (auto simp: evaluated_cache_for_def evaluated_ok_def Let_def split: option.split)

lemma evaluated_put:
  assumes "evaluated_ok mem c" and "0x09 \<notin> set a" and "b = cm_bindings mem (ec_bindingsRef c)"
  shows "evaluated_ok mem (c\<lparr>
      ec_byChannelAccount := set_or_clear MAX_EVALUATED_BINDINGS_CACHE_KEYS (ec_byChannelAccount c) (account_cache_key ch a) (applicable_bindings b ch a),
      ec_byChannelAccountIndex := set_or_clear MAX_EVALUATED_BINDINGS_CACHE_KEYS (ec_byChannelAccountIndex c) (account_cache_key ch a)
        (buildEvaluatedBindingsIndex (applicable_bindings b ch a)) \<rparr>)"
    and "length (mput (ec_byChannelAccountIndex c) (account_cache_key ch a) x) = length (mput (ec_byChannelAccount c) (account_cache_key ch a) y)"
proof -
  have l: "memo_ok MAX_EVALUATED_BINDINGS_CACHE_KEYS (bindings_memo b) (ec_byChannelAccount c)"
    and i: "memo_ok MAX_EVALUATED_BINDINGS_CACHE_KEYS (index_memo b) (ec_byChannelAccountIndex c)"
    and ks: "mkeys (ec_byChannelAccountIndex c) = mkeys (ec_byChannelAccount c)"
    using assms(1,3) by (simp_all add: evaluated_ok_def Let_def)
  have len: "length (mput (ec_byChannelAccountIndex c) (account_cache_key ch a) x) = length (mput (ec_byChannelAccount c) (account_cache_key ch a) y)" for x y
    using arg_cong [OF mkeys_mput [OF ks, of "account_cache_key ch a" x y], of length] by simp
  show "length (mput (ec_byChannelAccountIndex c) (account_cache_key ch a) x) = length (mput (ec_byChannelAccount c) (account_cache_key ch a) y)"
    by (rule len)
  have "mkeys (set_or_clear MAX_EVALUATED_BINDINGS_CACHE_KEYS (ec_byChannelAccountIndex c) (account_cache_key ch a) x)
      = mkeys (set_or_clear MAX_EVALUATED_BINDINGS_CACHE_KEYS (ec_byChannelAccount c) (account_cache_key ch a) y)" for x y
    using mkeys_mput [OF ks, of "account_cache_key ch a" x y] len [of x y] by (simp add: set_or_clear_def)
  then show "evaluated_ok mem (c\<lparr>
      ec_byChannelAccount := set_or_clear MAX_EVALUATED_BINDINGS_CACHE_KEYS (ec_byChannelAccount c) (account_cache_key ch a) (applicable_bindings b ch a),
      ec_byChannelAccountIndex := set_or_clear MAX_EVALUATED_BINDINGS_CACHE_KEYS (ec_byChannelAccountIndex c) (account_cache_key ch a)
        (buildEvaluatedBindingsIndex (applicable_bindings b ch a)) \<rparr>)"
    using assms(1,3) ev.memo_put [OF l memo_new(1) [OF assms(2)]] ev.memo_put [OF i memo_new(2) [OF assms(2)]]
    by (simp add: evaluated_ok_def Let_def)
qed

lemma has_set_or_clear [simp]: "mhas (set_or_clear bound m k v) k"
  by (simp add: set_or_clear_def) (simp add: mhas_def)

lemma evaluated_get:
  assumes ok: "\<And>c. st_evaluated s = Some c \<Longrightarrow> evaluated_ok mem c" and tab: "0x09 \<notin> set a"
    and get: "getEvaluatedBindingsForChannelAccount mem cfg ch a s = (l, s')"
  shows "l = applicable_bindings (cm_bindings mem (cf_bindings cfg)) ch a"
    and "\<exists>c. s' = s\<lparr> st_evaluated := Some c \<rparr> \<and> evaluated_ok mem c \<and> ec_bindingsRef c = cf_bindings cfg
      \<and> mhas (ec_byChannelAccount c) (account_cache_key ch a)"
proof -
  let ?b = "cm_bindings mem (cf_bindings cfg)" and ?k = "account_cache_key ch a" and ?c = "evaluated_cache_for mem cfg s"
  have c: "evaluated_ok mem ?c" "ec_bindingsRef ?c = cf_bindings cfg" using evaluated_fresh [OF ok] by auto
  then have l: "memo_ok MAX_EVALUATED_BINDINGS_CACHE_KEYS (bindings_memo ?b) (ec_byChannelAccount ?c)"
    and ch: "channel_account_bindings (ec_byChannel ?c) ch a = applicable_bindings ?b ch a"
    by (simp_all add: evaluated_ok_def channel_account_applicable Let_def)
  have both: "l = applicable_bindings ?b ch a \<and> (\<exists>c. s' = s\<lparr> st_evaluated := Some c \<rparr> \<and> evaluated_ok mem c
      \<and> ec_bindingsRef c = cf_bindings cfg \<and> mhas (ec_byChannelAccount c) ?k)"
  proof (cases "mget (ec_byChannelAccount ?c) ?k")
    case (Some hit)
    then have "hit = applicable_bindings ?b ch a" using memo_hit [OF l Some] tab by (auto simp: bindings_memo_def)
    then show ?thesis using get Some c by (auto simp: getEvaluatedBindingsForChannelAccount_def mhas_mget Let_def)
  next
    case None
    let ?c' = "?c\<lparr> ec_byChannelAccount := set_or_clear MAX_EVALUATED_BINDINGS_CACHE_KEYS (ec_byChannelAccount ?c) ?k (applicable_bindings ?b ch a),
      ec_byChannelAccountIndex := set_or_clear MAX_EVALUATED_BINDINGS_CACHE_KEYS (ec_byChannelAccountIndex ?c) ?k
        (buildEvaluatedBindingsIndex (applicable_bindings ?b ch a)) \<rparr>"
    have ok': "evaluated_ok mem ?c'" using evaluated_put(1) [OF c(1) tab, of ?b] c(2) by simp
    have "l = applicable_bindings ?b ch a \<and> s' = s\<lparr> st_evaluated := Some ?c' \<rparr>"
      using get None evaluated_put(2) [OF c(1) tab refl, where x = "buildEvaluatedBindingsIndex (applicable_bindings ?b ch a)"
        and y = "applicable_bindings ?b ch a"]
      by (auto simp: getEvaluatedBindingsForChannelAccount_def set_or_clear_def ch Let_def)
    then show ?thesis using ok' c(2) by (intro conjI exI [of _ ?c']) simp_all
  qed
  then show "l = applicable_bindings ?b ch a"
    and "\<exists>c. s' = s\<lparr> st_evaluated := Some c \<rparr> \<and> evaluated_ok mem c \<and> ec_bindingsRef c = cf_bindings cfg
      \<and> mhas (ec_byChannelAccount c) ?k" by simp_all
qed

lemma index_get:
  assumes ok: "\<And>c. st_evaluated s = Some c \<Longrightarrow> evaluated_ok mem c" and tab: "0x09 \<notin> set a"
    and get: "getEvaluatedBindingIndexForChannelAccount mem cfg ch a s = (ix, s')"
  shows "ix = buildEvaluatedBindingsIndex (applicable_bindings (cm_bindings mem (cf_bindings cfg)) ch a)"
    and "\<exists>c. s' = s\<lparr> st_evaluated := Some c \<rparr> \<and> evaluated_ok mem c"
proof -
  let ?b = "cm_bindings mem (cf_bindings cfg)" and ?k = "account_cache_key ch a"
  obtain l s1 where g: "getEvaluatedBindingsForChannelAccount mem cfg ch a s = (l, s1)" by fastforce
  obtain c where c: "s1 = s\<lparr> st_evaluated := Some c \<rparr>" "evaluated_ok mem c" "ec_bindingsRef c = cf_bindings cfg" "mhas (ec_byChannelAccount c) ?k"
    using evaluated_get(2) [OF ok tab g] by blast
  have i: "memo_ok MAX_EVALUATED_BINDINGS_CACHE_KEYS (index_memo ?b) (ec_byChannelAccountIndex c)"
    using c by (simp add: evaluated_ok_def Let_def)
  have "mhas (ec_byChannelAccountIndex c) ?k" using c(2,4) by (simp add: evaluated_ok_def mhas_def Let_def)
  then obtain x where x: "mget (ec_byChannelAccountIndex c) ?k = Some x" by (auto simp: mhas_mget)
  have "x = buildEvaluatedBindingsIndex (applicable_bindings ?b ch a)"
    using memo_hit [OF i x] tab by (auto simp: index_memo_def)
  moreover have "ix = x \<and> s' = s1" using get g c(1) x by (simp add: getEvaluatedBindingIndexForChannelAccount_def Let_def)
  ultimately show "ix = buildEvaluatedBindingsIndex (applicable_bindings ?b ch a)"
    and "\<exists>c. s' = s\<lparr> st_evaluated := Some c \<rparr> \<and> evaluated_ok mem c"
    using c by auto
qed

section \<open>Keys of routes\<close>

text \<open>
  Inputs whose cache key tells all that the route depends on.  Two inputs of the code share a key without
  sharing the route when a peer has an empty id, when an id contains a tab or is a dash, or when a role contains
  a comma or a tab or is the only one and a dash.
\<close>

definition key_text :: "jsstr \<Rightarrow> bool" where
  "key_text s \<longleftrightarrow> 0x09 \<notin> set s"

definition clean_input :: "normal_input \<Rightarrow> bool" where
  "clean_input inp \<longleftrightarrow> key_text (ni_channel inp) \<and> key_text (ni_accountId inp)
    \<and> (case ni_peer inp of None \<Rightarrow> True | Some p \<Rightarrow> rp_id p \<noteq> [] \<and> key_text (rp_id p))
    \<and> (case ni_parentPeer inp of None \<Rightarrow> True | Some p \<Rightarrow> key_text (rp_id p))
    \<and> key_text (ni_guildId inp) \<and> ni_guildId inp \<noteq> js ''-'' \<and> key_text (ni_teamId inp) \<and> ni_teamId inp \<noteq> js ''-''
    \<and> list_all (\<lambda>r. key_text r \<and> 0x2C \<notin> set r) (ni_memberRoleIds inp) \<and> ni_memberRoleIds inp \<noteq> [js ''-'']"

lemma split_join: "ps \<noteq> [] \<Longrightarrow> list_all (\<lambda>p. d \<notin> set p) ps \<Longrightarrow> split_on d (join [d] ps) = ps"
proof (induction ps)
  case (Cons p ps)
  then show ?case by (cases ps) (simp_all add: split_on_plain split_on_append)
qed simp

lemma join_inj: "join [d] ps = join [d] qs \<Longrightarrow> ps \<noteq> [] \<Longrightarrow> qs \<noteq> [] \<Longrightarrow> list_all (\<lambda>p. d \<notin> set p) ps \<Longrightarrow>
    list_all (\<lambda>p. d \<notin> set p) qs \<Longrightarrow> ps = qs"
  using split_join by metis

lemma roles_key: "formatRoleIdsCacheKey rs = (if rs = [] then js ''-'' else join (js '','') (sort rs))"
proof -
  consider "rs = []" | r where "rs = [r]" | a b where "rs = [a, b]" | a b c cs where "rs = a # b # c # cs"
    by (metis list.exhaust)
  then show ?thesis by cases (simp_all add: formatRoleIdsCacheKey_def)
qed

lemma sort_Nil [simp]: "sort xs = [] \<longleftrightarrow> xs = []"
  by (metis set_sort set_empty)

lemma roles_key_inj:
  assumes "formatRoleIdsCacheKey rs = formatRoleIdsCacheKey qs"
    and "list_all (\<lambda>r. key_text r \<and> 0x2C \<notin> set r) rs" "rs \<noteq> [js ''-'']"
    and "list_all (\<lambda>r. key_text r \<and> 0x2C \<notin> set r) qs" "qs \<noteq> [js ''-'']"
  shows "set rs = set qs \<and> (rs = [] \<longleftrightarrow> qs = [])"
proof -
  have single: "xs = [js ''-'']" if "join (js '','') (sort xs) = js ''-''" "list_all (\<lambda>r. key_text r \<and> 0x2C \<notin> set r) xs" "xs \<noteq> []" for xs
  proof -
    have "join [0x2C] (sort xs) = join [0x2C] [js ''-'']" using that(1) by (simp add: js_def)
    then have "sort xs = [js ''-'']" using that(2,3) by (intro join_inj [of "0x2C"]) (auto simp: list_all_iff js_def)
    then have "length xs = 1" "set xs = {js ''-''}" by (metis length_sort list.size(3,4) One_nat_def add_0, metis set_sort list.set(1,2))
    then show ?thesis by (cases xs) auto
  qed
  show ?thesis
  proof (cases "rs = [] \<or> qs = []")
    case True
    then show ?thesis using assms single [of rs] single [of qs] by (auto simp: roles_key split: if_splits)
  next
    case False
    then have "join [0x2C] (sort rs) = join [0x2C] (sort qs)" using assms(1) by (simp add: roles_key js_def)
    then have "sort rs = sort qs" using assms(2,4) False by (intro join_inj [of "0x2C"]) (auto simp: list_all_iff)
    then show ?thesis using False by (metis set_sort)
  qed
qed

lemma key_text_words [simp]: "key_text (js ''-'')" "key_text (dm_scope_text d)" "key_text (chat_type_text k)" "key_text (js '':'')"
  subgoal by code_simp
  subgoal by (cases d; simp only:; code_simp)
  subgoal by (cases k; simp only:; code_simp)
  subgoal by code_simp
  done

lemma key_text_append [simp]: "key_text (a @ b) \<longleftrightarrow> key_text a \<and> key_text b"
  by (auto simp: key_text_def)

lemma peer_key_dash [simp]: "peer_key k i \<noteq> js ''-''"
  by (cases k) (auto simp: peer_key_def chat_type_text_def js_def)

lemma key_text_peer: "(case p of None \<Rightarrow> True | Some x \<Rightarrow> key_text (rp_id x)) \<Longrightarrow> key_text (formatRouteCachePeer p)"
  by (auto simp: formatRouteCachePeer_def peer_key_def split: option.splits)

lemma key_text_roles: "list_all (\<lambda>r. key_text r \<and> 0x2C \<notin> set r) rs \<Longrightarrow> key_text (formatRoleIdsCacheKey rs)"
proof -
  have join: "list_all key_text xs \<Longrightarrow> key_text (join (js '','') xs)" for xs
    by (induction "js '',''" xs rule: join.induct) (auto simp: key_text_def js_def)
  show "list_all (\<lambda>r. key_text r \<and> 0x2C \<notin> set r) rs \<Longrightarrow> key_text (formatRoleIdsCacheKey rs)"
    using join [of "sort rs"] by (simp add: roles_key list_all_iff)
qed

lemma peer_format_inj:
  assumes "formatRouteCachePeer p = formatRouteCachePeer q"
  shows "p = q \<or> ((p = None \<or> rp_id (the p) = []) \<and> (q = None \<or> rp_id (the q) = []))"
proof (cases p; cases q)
  fix x y assume p: "p = Some x" and q: "q = Some y"
  then show ?thesis using assms by (cases x; cases y) (auto simp: formatRouteCachePeer_def split: if_splits dest: sym)
qed (use assms in \<open>auto simp: formatRouteCachePeer_def split: if_splits dest: sym\<close>)

lemma clean_key_same:
  assumes "clean_input a" and "clean_input b" and "buildResolvedRouteCacheKey a d = buildResolvedRouteCacheKey b d"
  shows "ni_channel a = ni_channel b \<and> ni_accountId a = ni_accountId b \<and> ni_peer a = ni_peer b \<and> parent_scope a = parent_scope b
    \<and> ni_guildId a = ni_guildId b \<and> ni_teamId a = ni_teamId b \<and> set (ni_memberRoleIds a) = set (ni_memberRoleIds b)"
proof -
  have fields: "list_all (\<lambda>p. 0x09 \<notin> set p) [ni_channel x, ni_accountId x, formatRouteCachePeer (ni_peer x), formatRouteCachePeer (ni_parentPeer x),
      non_empty_or (ni_guildId x) (js ''-''), non_empty_or (ni_teamId x) (js ''-''), formatRoleIdsCacheKey (ni_memberRoleIds x), dm_scope_text d]"
    if "clean_input x" for x
  proof -
    have "key_text (non_empty_or (ni_guildId x) (js ''-''))" "key_text (non_empty_or (ni_teamId x) (js ''-''))"
      using that by (simp_all add: clean_input_def non_empty_or_def)
    then show ?thesis
      using that key_text_peer [of "ni_peer x"] key_text_peer [of "ni_parentPeer x"] key_text_roles [of "ni_memberRoleIds x"] key_text_words(2) [of d]
      by (auto simp: clean_input_def simp flip: key_text_def split: option.splits)
  qed
  have same: "[ni_channel a, ni_accountId a, formatRouteCachePeer (ni_peer a), formatRouteCachePeer (ni_parentPeer a),
      non_empty_or (ni_guildId a) (js ''-''), non_empty_or (ni_teamId a) (js ''-''), formatRoleIdsCacheKey (ni_memberRoleIds a), dm_scope_text d]
    = [ni_channel b, ni_accountId b, formatRouteCachePeer (ni_peer b), formatRouteCachePeer (ni_parentPeer b),
      non_empty_or (ni_guildId b) (js ''-''), non_empty_or (ni_teamId b) (js ''-''), formatRoleIdsCacheKey (ni_memberRoleIds b), dm_scope_text d]"
    using assms(3) fields [OF assms(1)] fields [OF assms(2)] unfolding buildResolvedRouteCacheKey_def by (intro join_inj) auto
  have "ni_peer a = ni_peer b"
    using same peer_format_inj [of "ni_peer a" "ni_peer b"] assms(1,2) by (auto simp: clean_input_def split: option.splits)
  moreover have "parent_scope x = (if ni_parentPeer x = None \<or> rp_id (the (ni_parentPeer x)) = [] then None else ni_parentPeer x)" for x
    by (auto simp: parent_scope_def split: option.split)
  then have "parent_scope a = parent_scope b"
    using same peer_format_inj [of "ni_parentPeer a" "ni_parentPeer b"] by auto
  moreover have "ni_guildId a = ni_guildId b" "ni_teamId a = ni_teamId b"
    using same assms(1,2) by (auto simp: clean_input_def non_empty_or_def split: if_splits)
  moreover have "set (ni_memberRoleIds a) = set (ni_memberRoleIds b)"
    using same assms(1,2) roles_key_inj [of "ni_memberRoleIds a" "ni_memberRoleIds b"] by (simp add: clean_input_def)
  ultimately show ?thesis using same by simp
qed

lemma scanned_route_cong:
  assumes "ni_channel a = ni_channel b" "ni_accountId a = ni_accountId b" "ni_peer a = ni_peer b" "parent_scope a = parent_scope b"
    "ni_guildId a = ni_guildId b" "ni_teamId a = ni_teamId b" "set (ni_memberRoleIds a) = set (ni_memberRoleIds b)"
  shows "scanned_route mem cfg a = scanned_route mem cfg b"
proof -
  have "hasAnyRouteBindingRole rs (Some (ni_memberRoleIds a)) = hasAnyRouteBindingRole rs (Some (ni_memberRoleIds b))" for rs
    using assms by (simp add: hasAnyRouteBindingRole_def list_ex_iff)
  then have "matchesBindingScope m a p = matchesBindingScope m b p" for m p
    using assms by (simp add: matchesBindingScope_def routeBindingScopeMatches_def Let_def split: option.split)
  then have "tier_fits a = tier_fits b" using assms by (simp add: fun_eq_iff tier_fits_def)
  then have "scanned_match x a = scanned_match x b" for x using assms by (simp add: scanned_match_def)
  moreover have "make_route se a i by' = make_route se b i by'" for se i by' using assms by (simp add: make_route_def)
  ultimately show ?thesis by (simp add: scanned_route_def Let_def split: option.split)
qed

section \<open>The resolver refines the scan\<close>

definition route_memo :: "config_memory \<Rightarrow> config_refs \<Rightarrow> jsstr \<Rightarrow> resolved_route \<Rightarrow> bool" where
  "route_memo mem cfg key r \<longleftrightarrow> (\<forall>inp. clean_input inp \<longrightarrow>
     key = buildResolvedRouteCacheKey inp (session_dm_scope (cm_session mem (cf_session cfg))) \<longrightarrow> r = scanned_route mem cfg inp)"

definition resolved_ok :: "config_memory \<Rightarrow> resolved_cache \<Rightarrow> bool" where
  "resolved_ok mem c \<longleftrightarrow> memo_ok MAX_RESOLVED_ROUTE_CACHE_KEYS
     (route_memo mem \<lparr> cf_bindings = rc_bindingsRef c, cf_agents = rc_agentsRef c, cf_session = rc_sessionRef c \<rparr>) (rc_byKey c)"

definition routing_ok :: "config_memory \<Rightarrow> routing_state \<Rightarrow> bool" where
  "routing_ok mem s \<longleftrightarrow>
     pred_option (\<lambda>l. l = build_agent_lookup (al_agentsRef l) (cm_agents mem (al_agentsRef l))) (st_agents s)
   \<and> pred_option (evaluated_ok mem) (st_evaluated s) \<and> pred_option (resolved_ok mem) (st_resolved s)"

lemma routing_updates:
  "routing_ok mem s \<Longrightarrow> evaluated_ok mem c \<Longrightarrow> routing_ok mem (s\<lparr> st_evaluated := Some c \<rparr>)"
  "routing_ok mem s \<Longrightarrow> resolved_ok mem d \<Longrightarrow> routing_ok mem (s\<lparr> st_resolved := Some d \<rparr>)"
  by (simp_all add: routing_ok_def)

lemma picked_ok:
  assumes "routing_ok mem s"
  shows "fst (pickFirstExistingAgentId mem cfg i s) = existing_agent (cm_agents mem (cf_agents cfg)) i
    \<and> routing_ok mem (snd (pickFirstExistingAgentId mem cfg i s))"
proof -
  let ?fresh = "build_agent_lookup (cf_agents cfg) (cm_agents mem (cf_agents cfg))"
  have ref: "al_agentsRef ?fresh = cf_agents cfg" by (simp add: build_agent_lookup_def)
  then have "routing_ok mem (s\<lparr> st_agents := Some ?fresh \<rparr>)" using assms by (simp add: routing_ok_def)
  then have "fst (resolveAgentLookupCache mem cfg s) = ?fresh \<and> routing_ok mem (snd (resolveAgentLookupCache mem cfg s))"
    using assms by (auto simp: resolveAgentLookupCache_def routing_ok_def Let_def split: option.split)
  then show ?thesis by (simp add: pickFirstExistingAgentId_def case_prod_beta Let_def picked_agent)
qed

text \<open>Where the new route goes, and what may be there.\<close>

definition memo_place_ok :: "config_memory \<Rightarrow> config_refs \<Rightarrow> normal_input \<Rightarrow> (jsstr \<times> resolved_cache) option \<Rightarrow> bool" where
  "memo_place_ok mem cfg inp cacheAt \<longleftrightarrow> (case cacheAt of None \<Rightarrow> True
   | Some (key, c) \<Rightarrow> resolved_ok mem c \<and> clean_input inp
      \<and> \<lparr> cf_bindings = rc_bindingsRef c, cf_agents = rc_agentsRef c, cf_session = rc_sessionRef c \<rparr> = cfg
      \<and> key = buildResolvedRouteCacheKey inp (session_dm_scope (cm_session mem (cf_session cfg))))"

lemma route_memo_new:
  "clean_input inp \<Longrightarrow> route_memo mem cfg (buildResolvedRouteCacheKey inp (session_dm_scope (cm_session mem (cf_session cfg)))) (scanned_route mem cfg inp)"
  unfolding route_memo_def by (intro allI impI scanned_route_cong) (auto dest: clean_key_same)

lemma chosen_ok:
  assumes "routing_ok mem s" and "memo_place_ok mem cfg inp cacheAt"
    and "make_route (cm_session mem (cf_session cfg)) inp (existing_agent (cm_agents mem (cf_agents cfg)) i) t = scanned_route mem cfg inp"
  shows "fst (choose_route mem cfg inp cacheAt i t s) = scanned_route mem cfg inp \<and> routing_ok mem (snd (choose_route mem cfg inp cacheAt i t s))"
proof (cases cacheAt)
  case None
  then show ?thesis using picked_ok [OF assms(1), of cfg i] assms(3) by (simp add: choose_route_def case_prod_beta Let_def)
next
  case (Some kc)
  obtain key c where kc: "kc = (key, c)" by fastforce
  have c: "resolved_ok mem c" "clean_input inp" "\<lparr> cf_bindings = rc_bindingsRef c, cf_agents = rc_agentsRef c, cf_session = rc_sessionRef c \<rparr> = cfg"
    "key = buildResolvedRouteCacheKey inp (session_dm_scope (cm_session mem (cf_session cfg)))"
    using assms(2) Some kc by (simp_all add: memo_place_ok_def)
  have "memo_ok MAX_RESOLVED_ROUTE_CACHE_KEYS (route_memo mem cfg) (rc_byKey c)" using c by (simp add: resolved_ok_def)
  then have "memo_ok MAX_RESOLVED_ROUTE_CACHE_KEYS (route_memo mem cfg)
      (set_or_clear MAX_RESOLVED_ROUTE_CACHE_KEYS (rc_byKey c) key (scanned_route mem cfg inp))"
    using c(2,4) route_memo_new by (intro rt.memo_put) simp_all
  then have "resolved_ok mem (c\<lparr> rc_byKey := set_or_clear MAX_RESOLVED_ROUTE_CACHE_KEYS (rc_byKey c) key (scanned_route mem cfg inp) \<rparr>)"
    using c(3) by (simp add: resolved_ok_def)
  then show ?thesis using picked_ok [OF assms(1), of cfg i] assms(3) Some kc
    by (simp add: choose_route_def case_prod_beta Let_def routing_updates)
qed

definition normal_ids :: "normal_input \<Rightarrow> bool" where
  "normal_ids inp \<longleftrightarrow> trim (ni_guildId inp) = ni_guildId inp \<and> trim (ni_teamId inp) = ni_teamId inp \<and> 0x09 \<notin> set (ni_accountId inp)"

lemma normalized_ids: "normal_ids (normalize_input i)"
proof -
  have "trim (normalizeRouteBindingId v) = normalizeRouteBindingId v" for v
    by (cases v) (simp_all add: normalizeRouteBindingId_def)
  moreover have "0x09 \<notin> set (normalizeAccountId v)" for v
    using account_id_safe [of v] id_char_facts [of 9] by (auto simp: path_safe_def list_all_iff is_space_def)
  ultimately show ?thesis by (simp add: normal_ids_def normalize_input_def)
qed

lemma uncached_ok:
  assumes "routing_ok mem s" and "memo_place_ok mem cfg inp cacheAt" and n: "normal_ids inp"
  shows "fst (resolve_uncached mem cfg inp cacheAt s) = scanned_route mem cfg inp \<and> routing_ok mem (snd (resolve_uncached mem cfg inp cacheAt s))"
proof -
  let ?b = "cm_bindings mem (cf_bindings cfg)"
  have ev: "\<And>c. st_evaluated s = Some c \<Longrightarrow> evaluated_ok mem c" using assms(1) by (simp add: routing_ok_def)
  have tab: "0x09 \<notin> set (ni_accountId inp)" using n by (simp add: normal_ids_def)
  obtain l s1 where g1: "getEvaluatedBindingsForChannelAccount mem cfg (ni_channel inp) (ni_accountId inp) s = (l, s1)" by fastforce
  obtain c where c: "s1 = s\<lparr> st_evaluated := Some c \<rparr>" "evaluated_ok mem c" using evaluated_get(2) [OF ev tab g1] by blast
  then have ok1: "routing_ok mem s1" using assms(1) routing_updates by simp
  have ev1: "\<And>c. st_evaluated s1 = Some c \<Longrightarrow> evaluated_ok mem c" using c by simp
  obtain ix s2 where g2: "getEvaluatedBindingIndexForChannelAccount mem cfg (ni_channel inp) (ni_accountId inp) s1 = (ix, s2)" by fastforce
  have ix: "ix = buildEvaluatedBindingsIndex (applicable_bindings ?b (ni_channel inp) (ni_accountId inp))" by (rule index_get(1) [OF ev1 tab g2])
  have ok2: "routing_ok mem s2" using index_get(2) [OF ev1 tab g2] ok1 routing_updates by auto
  have m: "first_tier inp (route_tiers inp ix) = scanned_match ?b inp"
    using indexed_scan [of inp ?b] n unfolding normal_ids_def indexed_match_def channel_account_applicable ix by simp
  show ?thesis
  proof (cases "scanned_match ?b inp")
    case None
    then have "resolve_uncached mem cfg inp cacheAt s = choose_route mem cfg inp cacheAt (resolveDefaultAgentId (cm_agents mem (cf_agents cfg))) ByDefault s2"
      using m g1 g2 by (simp add: resolve_uncached_def Let_def)
    then show ?thesis using chosen_ok [OF ok2 assms(2)] None by (simp add: scanned_route_def Let_def)
  next
    case (Some te)
    obtain t e where te: "te = (t, e)" by fastforce
    then have "resolve_uncached mem cfg inp cacheAt s = choose_route mem cfg inp cacheAt (rb_agentId (eb_binding e)) t s2"
      using m g1 g2 Some by (simp add: resolve_uncached_def Let_def)
    then show ?thesis using chosen_ok [OF ok2 assms(2)] Some te by (simp add: scanned_route_def Let_def)
  qed
qed

lemma resolved_fresh:
  assumes "routing_ok mem s"
  shows "resolved_ok mem (resolveRouteCacheForConfig cfg s)"
    and "\<lparr> cf_bindings = rc_bindingsRef (resolveRouteCacheForConfig cfg s), cf_agents = rc_agentsRef (resolveRouteCacheForConfig cfg s),
      cf_session = rc_sessionRef (resolveRouteCacheForConfig cfg s) \<rparr> = cfg"
  using assms by (auto simp: resolveRouteCacheForConfig_def routing_ok_def resolved_ok_def Let_def split: option.split)

definition uses_route_cache :: "config_memory \<Rightarrow> bool \<Rightarrow> config_refs \<Rightarrow> bool" where
  "uses_route_cache mem verbose cfg \<longleftrightarrow> \<not> verbose \<and> session_links (cm_session mem (cf_session cfg)) = None"

lemma resolve_ok:
  assumes "routing_ok mem s" and "uses_route_cache mem verbose cfg \<longrightarrow> clean_input (normalize_input i)"
  shows "fst (resolveAgentRoute mem verbose cfg i s) = scanned_route mem cfg (normalize_input i)
    \<and> routing_ok mem (snd (resolveAgentRoute mem verbose cfg i s))"
proof (cases "uses_route_cache mem verbose cfg")
  case False
  then have "resolveAgentRoute mem verbose cfg i s = resolve_uncached mem cfg (normalize_input i) None s"
    by (auto simp: resolveAgentRoute_def uses_route_cache_def Let_def)
  then show ?thesis using uncached_ok [OF assms(1) _ normalized_ids, of cfg i None] by (simp add: memo_place_ok_def)
next
  case True
  let ?c = "resolveRouteCacheForConfig cfg s" and ?inp = "normalize_input i"
  let ?key = "buildResolvedRouteCacheKey ?inp (session_dm_scope (cm_session mem (cf_session cfg)))"
  have clean: "clean_input ?inp" using assms(2) True by simp
  note c = resolved_fresh [OF assms(1), of cfg]
  have ok: "routing_ok mem (s\<lparr> st_resolved := Some ?c \<rparr>)" using routing_updates(2) [OF assms(1) c(1)] .
  show ?thesis
  proof (cases "mget (rc_byKey ?c) ?key")
    case (Some r)
    have "memo_ok MAX_RESOLVED_ROUTE_CACHE_KEYS (route_memo mem cfg) (rc_byKey ?c)" using c by (simp add: resolved_ok_def)
    then have "r = scanned_route mem cfg ?inp" using memo_hit Some clean by (fastforce simp: route_memo_def)
    then show ?thesis using True Some ok by (simp add: resolveAgentRoute_def uses_route_cache_def Let_def)
  next
    case None
    have "memo_place_ok mem cfg ?inp (Some (?key, ?c))" using c clean by (simp add: memo_place_ok_def)
    then show ?thesis using uncached_ok [OF ok _ normalized_ids] True None
      by (simp add: resolveAgentRoute_def uses_route_cache_def Let_def)
  qed
qed

section \<open>The properties\<close>

record route_call =
  rl_verbose :: bool
  rl_cfg :: config_refs
  rl_input :: route_input

definition route_step :: "config_memory \<Rightarrow> routing_state \<Rightarrow> route_call \<Rightarrow> routing_state \<times> resolved_route list" where
  "route_step mem s c = (let (r, s') = resolveAgentRoute mem (rl_verbose c) (rl_cfg c) (rl_input c) s in (s', [r]))"

definition route_answer :: "config_memory \<Rightarrow> route_call \<Rightarrow> resolved_route" where
  "route_answer mem c = scanned_route mem (rl_cfg c) (normalize_input (rl_input c))"

definition clean_call :: "config_memory \<Rightarrow> route_call \<Rightarrow> bool" where
  "clean_call mem c \<longleftrightarrow> uses_route_cache mem (rl_verbose c) (rl_cfg c) \<longrightarrow> clean_input (normalize_input (rl_input c))"

definition no_routing_caches :: routing_state where
  "no_routing_caches = \<lparr> st_agents = None, st_evaluated = None, st_resolved = None \<rparr>"

interpretation rr: refinement "route_step mem" "\<lambda>u c. (u, [route_answer mem c])" "\<lambda>s (u::unit). routing_ok mem s" "\<lambda>u c. clean_call mem c"
  for mem
proof unfold_locales
  fix s a b
  assume "routing_ok mem s" "clean_call mem b"
  then show "snd (route_step mem s b) = snd (a, [route_answer mem b]) \<and> routing_ok mem (fst (route_step mem s b))"
    using resolve_ok [of mem s "rl_verbose b" "rl_cfg b" "rl_input b"]
    by (simp add: route_step_def route_answer_def clean_call_def case_prod_beta Let_def)
qed

lemma legal_run_all: "list_all P cs \<Longrightarrow> legal_run step (\<lambda>u c. P c) s cs"
  by (induction cs arbitrary: s) simp_all

text \<open>C25: The buckets by channel and account, their merge in source order and the index by peer, guild, team and roles
  change nothing: for every configuration and every input the tiers find the binding, under the same label, that a plain
  scan of the bindings of the channel and account finds when it asks tier by tier for the first that fits.  This is not
  so tier by tier: a binding with a guild and a team is only indexed under its guild, but then the guild tier takes it.\<close>

theorem route_index_equivalence:
  "indexed_match bindings (normalize_input i) = scanned_match bindings (normalize_input i)"
  using normalized_ids [of i] by (intro indexed_scan) (simp_all add: normal_ids_def)

text \<open>C26: Resolving routes with the three caches (agents, evaluated bindings, resolved routes, all keyed by references
  to parts of the configuration and dropped when they grow too large) refines resolving each one by a plain scan: any
  sequence of calls, with parts of the configuration replaced between them in any way, gets the routes of the scan, if
  the inputs that use the cache of routes are clean, that is, their keys can be told apart.\<close>

theorem route_cache_refines:
  assumes "list_all (clean_call mem) calls"
  shows "snd (run_ops (route_step mem) no_routing_caches calls) = map (route_answer mem) calls"
  using rr.run_refines [of mem no_routing_caches "()" calls, OF _ legal_run_all [OF assms]]
    run_ops_answers [of "route_answer mem" "()" calls]
  by (simp add: routing_ok_def no_routing_caches_def)

text \<open>Of two inputs with one key the second gets the route of the first, clean or not.\<close>

definition route_key :: "config_memory \<Rightarrow> config_refs \<Rightarrow> route_input \<Rightarrow> jsstr" where
  "route_key mem cfg i = buildResolvedRouteCacheKey (normalize_input i) (session_dm_scope (cm_session mem (cf_session cfg)))"

lemma mget_set_or_clear [simp]: "mget (set_or_clear bound m k v) k = Some v"
  by (simp add: set_or_clear_def) (simp add: mget_def)

lemma refs_kept: "refs = resolveRouteCacheForConfig cfg s \<Longrightarrow>
    rc_bindingsRef refs = cf_bindings cfg \<and> rc_agentsRef refs = cf_agents cfg \<and> rc_sessionRef refs = cf_session cfg"
  by (auto simp: resolveRouteCacheForConfig_def Let_def split: option.split)

lemma chosen_stored: "choose_route mem cfg inp (Some (key, c)) i t s = (r, s') \<Longrightarrow>
    st_resolved s' = Some (c\<lparr> rc_byKey := set_or_clear MAX_RESOLVED_ROUTE_CACHE_KEYS (rc_byKey c) key r \<rparr>)"
  by (auto simp: choose_route_def Let_def split: prod.splits)

lemma same_key_same_route:
  assumes "uses_route_cache mem verbose cfg" and "route_key mem cfg i = route_key mem cfg j"
  shows "fst (resolveAgentRoute mem verbose cfg j (snd (resolveAgentRoute mem verbose cfg i s))) = fst (resolveAgentRoute mem verbose cfg i s)"
proof -
  let ?c = "resolveRouteCacheForConfig cfg s"
  obtain r s1 where r: "resolveAgentRoute mem verbose cfg i s = (r, s1)" by fastforce
  have use: "\<not> verbose" "session_links (cm_session mem (cf_session cfg)) = None" using assms(1) by (simp_all add: uses_route_cache_def)
  have "\<exists>c. st_resolved s1 = Some c \<and> rc_bindingsRef c = cf_bindings cfg \<and> rc_agentsRef c = cf_agents cfg
      \<and> rc_sessionRef c = cf_session cfg \<and> mget (rc_byKey c) (route_key mem cfg i) = Some r"
  proof (cases "mget (rc_byKey ?c) (route_key mem cfg i)")
    case (Some x)
    then show ?thesis using r use refs_kept [of ?c cfg s] by (auto simp: resolveAgentRoute_def route_key_def Let_def)
  next
    case None
    then have "resolve_uncached mem cfg (normalize_input i) (Some (route_key mem cfg i, ?c)) (s\<lparr> st_resolved := Some ?c \<rparr>) = (r, s1)"
      using r use by (simp add: resolveAgentRoute_def route_key_def Let_def)
    then have "\<exists>a t s2. choose_route mem cfg (normalize_input i) (Some (route_key mem cfg i, ?c)) a t s2 = (r, s1)"
      by (auto simp: resolve_uncached_def Let_def split: prod.splits option.splits)
    then show ?thesis using chosen_stored refs_kept [of ?c cfg s] by fastforce
  qed
  then have "fst (resolveAgentRoute mem verbose cfg j s1) = r"
    using use assms(2) by (auto simp: resolveAgentRoute_def resolveRouteCacheForConfig_def route_key_def Let_def)
  then show ?thesis using r by simp
qed

definition demo_binding :: "string \<Rightarrow> peer_rule option \<Rightarrow> string \<Rightarrow> route_binding" where
  "demo_binding agent peer account = \<lparr> rb_type = None, rb_agentId = js agent, rb_match = Some \<lparr> bm_channel = Some (js ''feishu''),
     bm_accountId = Some (js account), bm_peer = peer, bm_guildId = IdOther, bm_teamId = IdOther, bm_roles = None \<rparr> \<rparr>"

definition demo_memory :: config_memory where
  "demo_memory = \<lparr>
     cm_bindings = (\<lambda>r. if r = 0 then Some [demo_binding ''ops'' None ''*'',
        demo_binding ''sales'' (Some \<lparr> pr_kind = Some (js ''group''), pr_id = IdText (js ''oc_1'') \<rparr>) ''default''] else None),
     cm_agents = (\<lambda>r. Some [\<lparr> ae_id = Some (js ''Ops''), ae_default = True \<rparr>, \<lparr> ae_id = Some (js ''sales''), ae_default = False \<rparr>]),
     cm_session = (\<lambda>r. Some \<lparr> se_dmScope = Some DmPerPeer, se_identityLinks = None \<rparr>) \<rparr>"

definition demo_call :: "nat \<Rightarrow> input_peer option \<Rightarrow> route_call" where
  "demo_call bindings peer = \<lparr> rl_verbose = False, rl_cfg = \<lparr> cf_bindings = bindings, cf_agents = 0, cf_session = 0 \<rparr>,
     rl_input = \<lparr> in_channel = Some (js ''Feishu''), in_accountId = None, in_peer = peer, in_parentPeer = None, in_guildId = IdOther,
       in_teamId = IdOther, in_memberRoleIds = None \<rparr> \<rparr>"

definition demo_calls :: "route_call list" where
  "demo_calls = (let p = Some \<lparr> ip_kind = ChatChannel, ip_id = IdText (js ''oc_1'') \<rparr> in
     [demo_call 0 p, demo_call 0 p, demo_call 1 p, demo_call 0 None])"

lemma route_cache_refines_witness:
  "snd (run_ops (route_step demo_memory) no_routing_caches demo_calls) = map (route_answer demo_memory) demo_calls"
  by (rule route_cache_refines) code_simp

lemma demo_matches:
  "map (\<lambda>c. map_option (\<lambda>(t, e). (t, rb_agentId (eb_binding e))) (scanned_match (cm_bindings demo_memory (cf_bindings (rl_cfg c))) (normalize_input (rl_input c)))) demo_calls
   = [Some (ByPeer, js ''sales''), Some (ByPeer, js ''sales''), None, Some (ByChannel, js ''ops'')]"
  by code_simp

text \<open>
  A peer whose id is empty has the key of no peer at all: after a call without a peer it gets the route of that call,
  and with it the main session instead of a session of its own.
\<close>

definition no_peer :: route_call where
  "no_peer = demo_call 1 None"

definition empty_peer :: route_call where
  "empty_peer = demo_call 1 (Some \<lparr> ip_kind = ChatDirect, ip_id = IdText [] \<rparr>)"

lemma collision_facts:
  "route_key demo_memory (rl_cfg no_peer) (rl_input no_peer) = route_key demo_memory (rl_cfg no_peer) (rl_input empty_peer)"
  "scanned_match (cm_bindings demo_memory 1) (normalize_input (rl_input no_peer)) = None"
  "scanned_match (cm_bindings demo_memory 1) (normalize_input (rl_input empty_peer)) = None"
  "uses_route_cache demo_memory False (rl_cfg no_peer)"
  by code_simp+

lemma demo_default: "existing_agent (cm_agents demo_memory 0) (resolveDefaultAgentId (cm_agents demo_memory 0)) = js ''ops''"
  by code_simp

lemma collision_keys:
  "rr_sessionKey (make_route (cm_session demo_memory 0) (normalize_input (rl_input no_peer)) (js ''ops'') ByDefault) = js ''agent:ops:main''"
  "rr_sessionKey (make_route (cm_session demo_memory 0) (normalize_input (rl_input empty_peer)) (js ''ops'') ByDefault) = js ''agent:ops:direct:unknown''"
  "clean_input (normalize_input (rl_input no_peer))"
  by code_simp+

lemma route_key_collision:
  "rr_sessionKey (route_answer demo_memory empty_peer) = js ''agent:ops:direct:unknown''
   \<and> rr_sessionKey (fst (resolveAgentRoute demo_memory False (rl_cfg no_peer) (rl_input empty_peer)
        (snd (resolveAgentRoute demo_memory False (rl_cfg no_peer) (rl_input no_peer) no_routing_caches)))) = js ''agent:ops:main''"
proof -
  have cfg: "rl_cfg no_peer = \<lparr> cf_bindings = 1, cf_agents = 0, cf_session = 0 \<rparr>" "rl_cfg empty_peer = rl_cfg no_peer"
    by (simp_all add: no_peer_def empty_peer_def demo_call_def)
  have ok: "routing_ok demo_memory no_routing_caches" by (simp add: routing_ok_def no_routing_caches_def)
  have "fst (resolveAgentRoute demo_memory False (rl_cfg no_peer) (rl_input no_peer) no_routing_caches)
      = scanned_route demo_memory (rl_cfg no_peer) (normalize_input (rl_input no_peer))"
    using resolve_ok [OF ok, of False "rl_cfg no_peer" "rl_input no_peer"] collision_keys(3) by simp
  then show ?thesis
    using same_key_same_route [OF collision_facts(4,1)] collision_facts(2,3) collision_keys(1,2) demo_default
    by (simp add: cfg route_answer_def scanned_route_def Let_def)
qed

text \<open>A route leads to a configured agent or to the default one.\<close>

lemma routed_agent_configured:
  assumes "configured_ids (cm_agents mem (cf_agents cfg)) \<noteq> []"
  shows "rr_agentId (scanned_route mem cfg inp) \<in> set (configured_ids (cm_agents mem (cf_agents cfg)))
    \<or> rr_agentId (scanned_route mem cfg inp) = normalizeAgentId (Some (resolveDefaultAgentId (cm_agents mem (cf_agents cfg))))"
  using assms by (auto simp: scanned_route_def make_route_def existing_agent_def Let_def split: option.split)

end
