(* ===== verification/AuthUsage.thy ===== *)
theory AuthUsage
  imports StringCoerce
begin

text \<open>
  Cooldowns of credentials: \<open>src/src/agents/auth-profiles/usage.ts\<close> with the types of \<open>types.ts\<close> and the provider ids of
  \<open>src/src/agents/provider-id.ts\<close>.  A failure puts a profile into a window during which it is not used; the lemmas
  and theorems are about the length of the windows, about what a window blocks, and about when they are forgotten.
  A time is a rational number of milliseconds; a number that was read from the store may be any number.
\<close>

section \<open>Provider ids\<close>

definition normalizeProviderId :: "jsstr \<Rightarrow> jsstr" where
  "normalizeProviderId provider =
    (let normalized = normalizeLowercaseStringOrEmpty (Some provider) in
     if normalized = js ''modelstudio'' \<or> normalized = js ''qwencloud'' then js ''qwen''
     else if normalized = js ''z.ai'' \<or> normalized = js ''z-ai'' then js ''zai''
     else if normalized = js ''opencode-zen'' then js ''opencode''
     else if normalized = js ''opencode-go-auth'' then js ''opencode-go''
     else if normalized = js ''kimi'' \<or> normalized = js ''kimi-code'' \<or> normalized = js ''kimi-coding'' then js ''kimi''
     else if normalized = js ''bedrock'' \<or> normalized = js ''aws-bedrock'' then js ''amazon-bedrock''
     else if normalized = js ''bytedance'' \<or> normalized = js ''doubao'' then js ''volcengine''
     else normalized)"

definition findNormalizedProviderValue :: "(jsstr \<times> 'v) list option \<Rightarrow> jsstr \<Rightarrow> 'v option" where
  "findNormalizedProviderValue entries provider = (case entries of
     None \<Rightarrow> None
   | Some es \<Rightarrow> map_option snd (find (\<lambda>(key, value). normalizeProviderId key = normalizeProviderId provider) es))"

section \<open>The store\<close>

datatype failure_reason = Auth | AuthPermanent | Format | Overloaded | RateLimit | Billing | Timeout | ModelNotFound
  | SessionExpired | Unknown

record usage_stats =
  us_lastUsed :: "jsnum option"
  us_cooldownUntil :: "jsnum option"
  us_cooldownReason :: "failure_reason option"
  us_cooldownModel :: "jsstr option"
  us_disabledUntil :: "jsnum option"
  us_disabledReason :: "failure_reason option"
  us_errorCount :: "int option"
  us_failureCounts :: "(failure_reason, int) jsmap option"
  us_lastFailureAt :: "jsnum option"

datatype credential_type = ApiKeyType | TokenType | OAuthType

text \<open>A credential; of a secret reference only whether \<open>coerceSecretRef\<close> accepts it.\<close>

record credential =
  cr_type :: credential_type
  cr_provider :: jsstr
  cr_key :: "jsstr option"
  cr_keyRef :: bool
  cr_token :: "jsstr option"
  cr_tokenRef :: bool
  cr_access :: "jsstr option"
  cr_refresh :: "jsstr option"
  cr_expires :: "jsnum option"

record auth_store =
  as_profiles :: "(jsstr, credential) jsmap"
  as_order :: "(jsstr, jsstr list) jsmap option"
  as_lastGood :: "(jsstr, jsstr) jsmap option"
  as_usageStats :: "(jsstr, usage_stats) jsmap option"

definition no_stats :: usage_stats where
  "no_stats = \<lparr> us_lastUsed = None, us_cooldownUntil = None, us_cooldownReason = None, us_cooldownModel = None, us_disabledUntil = None,
     us_disabledReason = None, us_errorCount = None, us_failureCounts = None, us_lastFailureAt = None \<rparr>"

definition stats_of :: "auth_store \<Rightarrow> jsstr \<Rightarrow> usage_stats option" where
  "stats_of store profileId = (case as_usageStats store of None \<Rightarrow> None | Some m \<Rightarrow> mget m profileId)"

definition FAILURE_REASON_PRIORITY :: "failure_reason list" where
  "FAILURE_REASON_PRIORITY = [AuthPermanent, Auth, Billing, Format, ModelNotFound, Overloaded, Timeout, RateLimit, Unknown]"

text \<open>\<open>typeof v === "number" && Number.isFinite(v) && v > 0\<close>, and the value then.\<close>

definition positive_num :: "jsnum option \<Rightarrow> rat option" where
  "positive_num v = (case v of Some (Fin r) \<Rightarrow> if 0 < r then Some r else None | _ \<Rightarrow> None)"

text \<open>\<open>v > t\<close> for a number that may not be finite.\<close>

definition num_after :: "jsnum option \<Rightarrow> rat \<Rightarrow> bool" where
  "num_after v t \<longleftrightarrow> (case v of Some (Fin r) \<Rightarrow> t < r | Some PosInf \<Rightarrow> True | _ \<Rightarrow> False)"

definition some_model :: "jsstr option \<Rightarrow> bool" where
  "some_model m \<longleftrightarrow> m \<noteq> None \<and> m \<noteq> Some []"

section \<open>Who is bypassed\<close>

definition isAuthCooldownBypassedForProvider :: "jsstr option \<Rightarrow> bool" where
  "isAuthCooldownBypassedForProvider provider \<longleftrightarrow>
    (let normalized = normalizeProviderId (case provider of Some p \<Rightarrow> p | None \<Rightarrow> []) in
     normalized = js ''openrouter'' \<or> normalized = js ''kilocode'')"

definition shouldProbeWhamForFailure :: "jsstr option \<Rightarrow> failure_reason \<Rightarrow> bool" where
  "shouldProbeWhamForFailure provider reason \<longleftrightarrow>
    normalizeProviderId (case provider of Some p \<Rightarrow> p | None \<Rightarrow> []) = js ''openai-codex'' \<and> (reason = RateLimit \<or> reason = Unknown)"

section \<open>The usage probe of one provider\<close>

record wham_window =
  ww_used_percent :: "jsnum option"
  ww_reset_at :: "jsnum option"
  ww_reset_after_seconds :: "jsnum option"

record wham_rate_limit =
  wr_limit_reached :: "bool option"
  wr_primary_window :: "wham_window option"
  wr_secondary_window :: "wham_window option"

text \<open>What came back: a status that is not a success, a body (with a rate limit or without), or no answer.\<close>

datatype wham_answer = WhamStatus int | WhamBody "wham_rate_limit option" | WhamNoAnswer

datatype wham_reason = WhamTokenExpired | WhamAccountDead | WhamHttpError | WhamProbeFailed | WhamBurstContention
  | WhamPersonalRolling | WhamTeamWeekly | WhamTeamRolling

definition WHAM_BURST_COOLDOWN_MS :: rat where "WHAM_BURST_COOLDOWN_MS = 15000"
definition WHAM_PROBE_FAILURE_COOLDOWN_MS :: rat where "WHAM_PROBE_FAILURE_COOLDOWN_MS = 30000"
definition WHAM_HTTP_ERROR_COOLDOWN_MS :: rat where "WHAM_HTTP_ERROR_COOLDOWN_MS = 5 * 60 * 1000"
definition WHAM_TOKEN_EXPIRED_COOLDOWN_MS :: rat where "WHAM_TOKEN_EXPIRED_COOLDOWN_MS = 12 * 60 * 60 * 1000"
definition WHAM_DEAD_ACCOUNT_COOLDOWN_MS :: rat where "WHAM_DEAD_ACCOUNT_COOLDOWN_MS = 24 * 60 * 60 * 1000"
definition WHAM_TEAM_ROLLING_MAX_COOLDOWN_MS :: rat where "WHAM_TEAM_ROLLING_MAX_COOLDOWN_MS = 2 * 60 * 60 * 1000"
definition WHAM_PERSONAL_MAX_COOLDOWN_MS :: rat where "WHAM_PERSONAL_MAX_COOLDOWN_MS = 4 * 60 * 60 * 1000"
definition WHAM_TEAM_WEEKLY_MAX_COOLDOWN_MS :: rat where "WHAM_TEAM_WEEKLY_MAX_COOLDOWN_MS = 4 * 60 * 60 * 1000"

definition resolveWhamResetMs :: "wham_window option \<Rightarrow> rat \<Rightarrow> rat option" where
  "resolveWhamResetMs window now = (case window of
     None \<Rightarrow> None
   | Some w \<Rightarrow> (case positive_num (ww_reset_after_seconds w) of
       Some s \<Rightarrow> Some (s * 1000)
     | None \<Rightarrow> (case positive_num (ww_reset_at w) of
         Some t \<Rightarrow> Some (max 0 (t * 1000 - now))
       | None \<Rightarrow> None)))"

definition isWhamWindowExhausted :: "wham_window option \<Rightarrow> bool" where
  "isWhamWindowExhausted window = (case window of
     None \<Rightarrow> False
   | Some w \<Rightarrow> (case ww_used_percent w of Some (Fin p) \<Rightarrow> 100 \<le> p | _ \<Rightarrow> False))"

definition half_up_to :: "rat \<Rightarrow> rat \<Rightarrow> rat" where
  "half_up_to resetMs most = min (of_int \<lfloor>resetMs / 2\<rfloor>) most"

definition wham_limit :: "rat option \<Rightarrow> rat \<Rightarrow> wham_reason \<Rightarrow> rat \<times> wham_reason" where
  "wham_limit resetMs most reason = (case resetMs of
     None \<Rightarrow> (WHAM_PROBE_FAILURE_COOLDOWN_MS, WhamProbeFailed)
   | Some r \<Rightarrow> (half_up_to r most, reason))"

definition whamCooldown :: "wham_answer \<Rightarrow> rat \<Rightarrow> rat \<times> wham_reason" where
  "whamCooldown answer now = (case answer of
     WhamNoAnswer \<Rightarrow> (WHAM_PROBE_FAILURE_COOLDOWN_MS, WhamProbeFailed)
   | WhamStatus status \<Rightarrow>
      if status = 401 then (WHAM_TOKEN_EXPIRED_COOLDOWN_MS, WhamTokenExpired)
      else if status = 403 then (WHAM_DEAD_ACCOUNT_COOLDOWN_MS, WhamAccountDead)
      else (WHAM_HTTP_ERROR_COOLDOWN_MS, WhamHttpError)
   | WhamBody None \<Rightarrow> (WHAM_PROBE_FAILURE_COOLDOWN_MS, WhamProbeFailed)
   | WhamBody (Some d) \<Rightarrow>
      if wr_limit_reached d = Some False then (WHAM_BURST_COOLDOWN_MS, WhamBurstContention)
      else if wr_secondary_window d = None
      then wham_limit (resolveWhamResetMs (wr_primary_window d) now) WHAM_PERSONAL_MAX_COOLDOWN_MS WhamPersonalRolling
      else if isWhamWindowExhausted (wr_secondary_window d)
      then wham_limit (resolveWhamResetMs (wr_secondary_window d) now) WHAM_TEAM_WEEKLY_MAX_COOLDOWN_MS WhamTeamWeekly
      else if isWhamWindowExhausted (wr_primary_window d)
      then wham_limit (resolveWhamResetMs (wr_primary_window d) now) WHAM_TEAM_ROLLING_MAX_COOLDOWN_MS WhamTeamRolling
      else (WHAM_PROBE_FAILURE_COOLDOWN_MS, WhamProbeFailed))"

text \<open>The probe is made for an OAuth profile with an access token only.\<close>

definition probeWhamForCooldown :: "auth_store \<Rightarrow> jsstr \<Rightarrow> wham_answer \<Rightarrow> rat \<Rightarrow> (rat \<times> wham_reason) option" where
  "probeWhamForCooldown store profileId answer now = (case mget (as_profiles store) profileId of
     None \<Rightarrow> None
   | Some p \<Rightarrow> if cr_type p \<noteq> OAuthType \<or> \<not> some_model (cr_access p) then None else Some (whamCooldown answer now))"

definition applyWhamCooldownResult :: "usage_stats \<Rightarrow> usage_stats \<Rightarrow> rat \<Rightarrow> rat \<times> wham_reason \<Rightarrow> usage_stats" where
  "applyWhamCooldownResult existing computed now whamResult =
    (let active = (case us_cooldownUntil existing of Some (Fin r) \<Rightarrow> if now < r then r else 0 | _ \<Rightarrow> 0) in
     computed\<lparr> us_cooldownUntil := Some (Fin (max active (now + fst whamResult))) \<rparr>)"

section \<open>Windows\<close>

definition resolveProfileUnusableUntil :: "usage_stats \<Rightarrow> rat option" where
  "resolveProfileUnusableUntil stats = (case (positive_num (us_cooldownUntil stats), positive_num (us_disabledUntil stats)) of
     (None, None) \<Rightarrow> None
   | (Some a, None) \<Rightarrow> Some a
   | (None, Some b) \<Rightarrow> Some b
   | (Some a, Some b) \<Rightarrow> Some (max a b))"

definition isActiveUnusableWindow :: "jsnum option \<Rightarrow> rat \<Rightarrow> bool" where
  "isActiveUnusableWindow until now \<longleftrightarrow> (case positive_num until of Some r \<Rightarrow> now < r | None \<Rightarrow> False)"

definition shouldBypassModelScopedCooldown :: "usage_stats \<Rightarrow> rat \<Rightarrow> jsstr option \<Rightarrow> bool" where
  "shouldBypassModelScopedCooldown stats now forModel \<longleftrightarrow>
    some_model forModel \<and> us_cooldownReason stats = Some RateLimit \<and> some_model (us_cooldownModel stats)
    \<and> us_cooldownModel stats \<noteq> forModel \<and> \<not> isActiveUnusableWindow (us_disabledUntil stats) now"

definition stats_in_cooldown :: "usage_stats \<Rightarrow> rat \<Rightarrow> jsstr option \<Rightarrow> bool" where
  "stats_in_cooldown stats ts forModel \<longleftrightarrow>
    (if shouldBypassModelScopedCooldown stats ts forModel then False
     else (case resolveProfileUnusableUntil stats of Some unusableUntil \<Rightarrow> ts < unusableUntil | None \<Rightarrow> False))"

definition profile_provider :: "auth_store \<Rightarrow> jsstr \<Rightarrow> jsstr option" where
  "profile_provider store profileId = map_option cr_provider (mget (as_profiles store) profileId)"

definition isProfileInCooldown :: "auth_store \<Rightarrow> jsstr \<Rightarrow> rat \<Rightarrow> jsstr option \<Rightarrow> bool" where
  "isProfileInCooldown store profileId now forModel \<longleftrightarrow>
    (if isAuthCooldownBypassedForProvider (profile_provider store profileId) then False
     else (case stats_of store profileId of None \<Rightarrow> False | Some stats \<Rightarrow> stats_in_cooldown stats now forModel))"

definition resolveProfileUnusableUntilForDisplay :: "auth_store \<Rightarrow> jsstr \<Rightarrow> rat option" where
  "resolveProfileUnusableUntilForDisplay store profileId =
    (if isAuthCooldownBypassedForProvider (profile_provider store profileId) then None
     else (case stats_of store profileId of None \<Rightarrow> None | Some stats \<Rightarrow> resolveProfileUnusableUntil stats))"

section \<open>Why no profile is available\<close>

type_synonym reason_scores = "(failure_reason, int) jsmap"

definition addScore :: "reason_scores \<Rightarrow> failure_reason \<Rightarrow> int \<Rightarrow> reason_scores" where
  "addScore scores reason value =
    (if reason \<notin> set FAILURE_REASON_PRIORITY \<or> value \<le> 0 then scores
     else mput scores reason ((case mget scores reason of Some s \<Rightarrow> s | None \<Rightarrow> 0) + value))"

definition counted :: "failure_reason \<times> int \<Rightarrow> bool" where
  "counted rc \<longleftrightarrow> fst rc \<in> set FAILURE_REASON_PRIORITY \<and> 0 < snd rc"

definition score_profile :: "rat \<Rightarrow> reason_scores \<Rightarrow> usage_stats \<Rightarrow> reason_scores" where
  "score_profile now scores stats =
    (if isActiveUnusableWindow (us_disabledUntil stats) now \<and> us_disabledReason stats \<noteq> None \<and> the (us_disabledReason stats) \<in> set FAILURE_REASON_PRIORITY
     then addScore scores (the (us_disabledReason stats)) 1000
     else if \<not> isActiveUnusableWindow (us_cooldownUntil stats) now then scores
     else (let counts = filter counted (case us_failureCounts stats of Some m \<Rightarrow> m | None \<Rightarrow> []) in
       if counts = [] then addScore scores Unknown 1 else foldl (\<lambda>s (r, c). addScore s r c) scores counts))"

definition best_step :: "reason_scores \<Rightarrow> (failure_reason option \<times> int) \<Rightarrow> failure_reason \<Rightarrow> (failure_reason option \<times> int)" where
  "best_step scores best reason = (case mget scores reason of
     None \<Rightarrow> best | Some score \<Rightarrow> if snd best < score then (Some reason, score) else best)"

definition resolveProfilesUnavailableReason :: "auth_store \<Rightarrow> jsstr list \<Rightarrow> rat \<Rightarrow> failure_reason option" where
  "resolveProfilesUnavailableReason store profileIds now =
    (let scores = foldl (\<lambda>s i. case stats_of store i of None \<Rightarrow> s | Some stats \<Rightarrow> score_profile now s stats) [] profileIds in
     if scores = [] then None else fst (foldl (best_step scores) (None, - 1) FAILURE_REASON_PRIORITY))"

section \<open>The soonest end of a window\<close>

definition matching_model_cooldown :: "usage_stats \<Rightarrow> rat \<Rightarrow> jsstr option \<Rightarrow> bool" where
  "matching_model_cooldown stats ts forModel \<longleftrightarrow> some_model forModel \<and> us_cooldownReason stats = Some RateLimit
     \<and> us_cooldownModel stats = forModel \<and> \<not> isActiveUnusableWindow (us_disabledUntil stats) ts"

definition expiry_step :: "rat \<Rightarrow> jsstr option \<Rightarrow> (rat option \<times> rat option) \<Rightarrow> usage_stats \<Rightarrow> (rat option \<times> rat option)" where
  "expiry_step ts forModel acc stats =
    (let (soonest, latest) = acc in
     if shouldBypassModelScopedCooldown stats ts forModel then acc
     else (case resolveProfileUnusableUntil stats of
        None \<Rightarrow> acc
      | Some until \<Rightarrow>
         if matching_model_cooldown stats ts forModel
         then (soonest, Some (case latest of None \<Rightarrow> until | Some l \<Rightarrow> max l until))
         else (case soonest of None \<Rightarrow> (Some until, latest) | Some x \<Rightarrow> if until < x then (Some until, latest) else acc)))"

definition getSoonestCooldownExpiry :: "auth_store \<Rightarrow> jsstr list \<Rightarrow> rat \<Rightarrow> jsstr option \<Rightarrow> rat option" where
  "getSoonestCooldownExpiry store profileIds ts forModel =
    (case foldl (\<lambda>acc i. case stats_of store i of None \<Rightarrow> acc | Some stats \<Rightarrow> expiry_step ts forModel acc stats) (None, None) profileIds of
       (None, latest) \<Rightarrow> latest
     | (Some x, None) \<Rightarrow> Some x
     | (Some x, Some l) \<Rightarrow> Some (min x l))"

section \<open>Expired windows are cleared\<close>

definition window_expired :: "jsnum option \<Rightarrow> rat \<Rightarrow> bool" where
  "window_expired until ts \<longleftrightarrow> (case positive_num until of Some r \<Rightarrow> r \<le> ts | None \<Rightarrow> False)"

definition clear_expired_stats :: "rat \<Rightarrow> usage_stats \<Rightarrow> usage_stats" where
  "clear_expired_stats ts stats =
    (let cooldownExpired = window_expired (us_cooldownUntil stats) ts; disabledExpired = window_expired (us_disabledUntil stats) ts;
         s1 = (if cooldownExpired then stats\<lparr> us_cooldownUntil := None, us_cooldownReason := None, us_cooldownModel := None \<rparr> else stats);
         s2 = (if disabledExpired then s1\<lparr> us_disabledUntil := None, us_disabledReason := None \<rparr> else s1)
     in if (cooldownExpired \<or> disabledExpired) \<and> resolveProfileUnusableUntil s2 = None
        then s2\<lparr> us_errorCount := Some 0, us_failureCounts := None \<rparr> else s2)"

definition clearExpiredCooldowns :: "auth_store \<Rightarrow> rat \<Rightarrow> auth_store \<times> bool" where
  "clearExpiredCooldowns store ts = (case as_usageStats store of
     None \<Rightarrow> (store, False)
   | Some m \<Rightarrow> (store\<lparr> as_usageStats := Some (map (\<lambda>(i, s). (i, clear_expired_stats ts s)) m) \<rparr>,
       list_ex (\<lambda>(i, s). window_expired (us_cooldownUntil s) ts \<or> window_expired (us_disabledUntil s) ts) m))"

section \<open>The length of a window\<close>

definition calculateAuthProfileCooldownMs :: "int \<Rightarrow> rat" where
  "calculateAuthProfileCooldownMs errorCount =
    (let normalized = max 1 errorCount in
     if normalized \<le> 1 then 30000 else if normalized \<le> 2 then 60000 else 5 * 60000)"

record cooldown_config =
  cc_billingBackoffMs :: rat
  cc_billingMaxMs :: rat
  cc_authPermanentBackoffMs :: rat
  cc_authPermanentMaxMs :: rat
  cc_failureWindowMs :: rat

text \<open>\<open>cfg.auth.cooldowns\<close>.\<close>

record cooldown_settings =
  cs_billingBackoffHours :: "jsnum option"
  cs_billingBackoffHoursByProvider :: "(jsstr \<times> jsnum) list option"
  cs_billingMaxHours :: "jsnum option"
  cs_authPermanentBackoffMinutes :: "jsnum option"
  cs_authPermanentMaxMinutes :: "jsnum option"
  cs_failureWindowHours :: "jsnum option"

definition resolvePositiveNumber :: "jsnum option \<Rightarrow> rat \<Rightarrow> rat" where
  "resolvePositiveNumber value fallback = (case positive_num value of Some r \<Rightarrow> r | None \<Rightarrow> fallback)"

definition billing_override :: "cooldown_settings option \<Rightarrow> jsstr \<Rightarrow> jsnum option" where
  "billing_override settings providerId = (case settings of
     None \<Rightarrow> None
   | Some s \<Rightarrow> (case cs_billingBackoffHoursByProvider s of
       None \<Rightarrow> None
     | Some m \<Rightarrow> map_option snd (find (\<lambda>(key, value). normalizeProviderId key = providerId) m)))"

definition setting :: "cooldown_settings option \<Rightarrow> (cooldown_settings \<Rightarrow> jsnum option) \<Rightarrow> jsnum option" where
  "setting settings get = (case settings of None \<Rightarrow> None | Some s \<Rightarrow> get s)"

definition resolveAuthCooldownConfig :: "cooldown_settings option \<Rightarrow> jsstr \<Rightarrow> cooldown_config" where
  "resolveAuthCooldownConfig settings providerId =
    (let hours = (\<lambda>v fallback. resolvePositiveNumber v fallback * 60 * 60 * 1000); minutes = (\<lambda>v fallback. resolvePositiveNumber v fallback * 60 * 1000) in
     \<lparr> cc_billingBackoffMs = hours (orElse (billing_override settings providerId) (setting settings cs_billingBackoffHours)) 5,
       cc_billingMaxMs = hours (setting settings cs_billingMaxHours) 24,
       cc_authPermanentBackoffMs = minutes (setting settings cs_authPermanentBackoffMinutes) 10,
       cc_authPermanentMaxMs = minutes (setting settings cs_authPermanentMaxMinutes) 60,
       cc_failureWindowMs = hours (setting settings cs_failureWindowHours) 24 \<rparr>)"

definition calculateDisabledLaneBackoffMs :: "int \<Rightarrow> rat \<Rightarrow> rat \<Rightarrow> rat" where
  "calculateDisabledLaneBackoffMs errorCount base most =
    (let normalized = max 1 errorCount; baseMs = max 60000 base; maxMs = max baseMs most; exponent = min (normalized - 1) 10;
         raw = baseMs * 2 ^ nat exponent
     in min maxMs raw)"

definition resolveDisabledFailureBackoffMs :: "failure_reason \<Rightarrow> int \<Rightarrow> cooldown_config \<Rightarrow> rat" where
  "resolveDisabledFailureBackoffMs reason errorCount cfgResolved =
    (if reason = Billing then calculateDisabledLaneBackoffMs errorCount (cc_billingBackoffMs cfgResolved) (cc_billingMaxMs cfgResolved)
     else calculateDisabledLaneBackoffMs errorCount (cc_authPermanentBackoffMs cfgResolved) (cc_authPermanentMaxMs cfgResolved))"

section \<open>After a failure\<close>

definition resetUsageStats :: "usage_stats option \<Rightarrow> usage_stats" where
  "resetUsageStats existing = (case existing of Some e \<Rightarrow> e | None \<Rightarrow> no_stats)\<lparr> us_errorCount := Some 0, us_cooldownUntil := None,
     us_cooldownReason := None, us_cooldownModel := None, us_disabledUntil := None, us_disabledReason := None, us_failureCounts := None \<rparr>"

definition updateUsageStatsEntry :: "auth_store \<Rightarrow> jsstr \<Rightarrow> (usage_stats option \<Rightarrow> usage_stats) \<Rightarrow> auth_store" where
  "updateUsageStatsEntry store profileId updater =
    (let m = (case as_usageStats store of Some m \<Rightarrow> m | None \<Rightarrow> []) in
     store\<lparr> as_usageStats := Some (mput m profileId (updater (mget m profileId))) \<rparr>)"

definition keepActiveWindowOrRecompute :: "jsnum option \<Rightarrow> rat \<Rightarrow> rat \<Rightarrow> jsnum" where
  "keepActiveWindowOrRecompute existingUntil now recomputedUntil = (case existingUntil of
     Some (Fin r) \<Rightarrow> if now < r then Fin r else Fin recomputedUntil
   | _ \<Rightarrow> Fin recomputedUntil)"

definition failure_window_expired :: "usage_stats \<Rightarrow> rat \<Rightarrow> rat \<Rightarrow> bool" where
  "failure_window_expired existing now windowMs = (case us_lastFailureAt existing of
     Some (Fin t) \<Rightarrow> 0 < t \<and> windowMs < now - t | _ \<Rightarrow> False)"

definition resets_counters :: "usage_stats \<Rightarrow> rat \<Rightarrow> cooldown_config \<Rightarrow> bool" where
  "resets_counters existing now cfgResolved \<longleftrightarrow> failure_window_expired existing now (cc_failureWindowMs cfgResolved)
    \<or> (case resolveProfileUnusableUntil existing of Some until \<Rightarrow> until \<le> now | None \<Rightarrow> False)"

definition next_cooldown_model :: "usage_stats \<Rightarrow> rat \<Rightarrow> failure_reason \<Rightarrow> jsstr option \<Rightarrow> jsstr option" where
  "next_cooldown_model existing now reason modelId =
    (if num_after (us_cooldownUntil existing) now
     then (if some_model (us_cooldownModel existing) \<and> some_model modelId \<and> us_cooldownModel existing \<noteq> modelId then None
       else if reason = RateLimit \<and> \<not> some_model modelId \<and> some_model (us_cooldownModel existing) then None
       else if reason \<noteq> RateLimit then None
       else us_cooldownModel existing)
     else (if reason = RateLimit then modelId else None))"

definition computeNextProfileUsageStats ::
    "usage_stats \<Rightarrow> rat \<Rightarrow> failure_reason \<Rightarrow> cooldown_config \<Rightarrow> jsstr option \<Rightarrow> usage_stats" where
  "computeNextProfileUsageStats existing now reason cfgResolved modelId =
    (let reset = resets_counters existing now cfgResolved;
         nextErrorCount = (if reset then 0 else (case us_errorCount existing of Some n \<Rightarrow> n | None \<Rightarrow> 0)) + 1;
         counts = (if reset then [] else (case us_failureCounts existing of Some m \<Rightarrow> m | None \<Rightarrow> []));
         count = (case mget counts reason of Some n \<Rightarrow> n | None \<Rightarrow> 0) + 1;
         updated = existing\<lparr> us_errorCount := Some nextErrorCount, us_failureCounts := Some (mput counts reason count),
           us_lastFailureAt := Some (Fin now) \<rparr>
     in if reason = Billing \<or> reason = AuthPermanent
        then updated\<lparr> us_disabledUntil := Some (keepActiveWindowOrRecompute (us_disabledUntil existing) now
               (now + resolveDisabledFailureBackoffMs reason count cfgResolved)), us_disabledReason := Some reason \<rparr>
        else updated\<lparr> us_cooldownUntil := Some (keepActiveWindowOrRecompute (us_cooldownUntil existing) now
               (now + calculateAuthProfileCooldownMs nextErrorCount)), us_cooldownReason := Some reason,
               us_cooldownModel := next_cooldown_model existing now reason modelId \<rparr>)"

section \<open>Marking profiles\<close>

text \<open>
  The store in memory and the one on disk.  \<open>updateAuthProfileStoreWithLock\<close> takes the lock or not (\<open>locked\<close>); with the lock
  the updater works on the store as loaded from disk, which is saved if the updater says so, and is handed back.
\<close>

record auth_world =
  aw_store :: auth_store
  aw_disk :: auth_store

definition updateAuthProfileStoreWithLock :: "bool \<Rightarrow> (auth_store \<Rightarrow> auth_store \<times> bool) \<Rightarrow> auth_world \<Rightarrow> auth_store option \<times> auth_world" where
  "updateAuthProfileStoreWithLock locked updater w =
    (if \<not> locked then (None, w)
     else (let (store, shouldSave) = updater (aw_disk w) in
       (Some store, if shouldSave then w\<lparr> aw_disk := store \<rparr> else w)))"

text \<open>An updater that returns false has not touched the store (\<open>None\<close>), or hands back the store to be saved.\<close>

definition saving :: "(auth_store \<Rightarrow> auth_store option) \<Rightarrow> auth_store \<Rightarrow> auth_store \<times> bool" where
  "saving updater store = (case updater store of None \<Rightarrow> (store, False) | Some fresh \<Rightarrow> (fresh, True))"

definition take_usage :: "auth_store \<Rightarrow> auth_store \<Rightarrow> auth_store" where
  "take_usage store updated = store\<lparr> as_usageStats := as_usageStats updated \<rparr>"

text \<open>The three operations have one shape: the update under the lock, or else the same update of the store in memory, which is saved.\<close>

definition locked_update :: "bool \<Rightarrow> (auth_store \<Rightarrow> auth_store option) \<Rightarrow> auth_world \<Rightarrow> auth_world" where
  "locked_update locked updater w =
    (let (updated, w1) = updateAuthProfileStoreWithLock locked (saving updater) w in
     case updated of
       Some u \<Rightarrow> w1\<lparr> aw_store := take_usage (aw_store w1) u \<rparr>
     | None \<Rightarrow> (case updater (aw_store w1) of
         None \<Rightarrow> w1
       | Some s \<Rightarrow> w1\<lparr> aw_store := s, aw_disk := s \<rparr>))"

definition mark_used :: "jsstr \<Rightarrow> rat \<Rightarrow> auth_store \<Rightarrow> auth_store option" where
  "mark_used profileId now store =
    (if mget (as_profiles store) profileId = None then None
     else Some (updateUsageStatsEntry store profileId (\<lambda>e. (resetUsageStats e)\<lparr> us_lastUsed := Some (Fin now) \<rparr>)))"

definition markAuthProfileUsed :: "bool \<Rightarrow> jsstr \<Rightarrow> rat \<Rightarrow> auth_world \<Rightarrow> auth_world" where
  "markAuthProfileUsed locked profileId now = locked_update locked (mark_used profileId now)"

definition clear_cooldown :: "jsstr \<Rightarrow> auth_store \<Rightarrow> auth_store option" where
  "clear_cooldown profileId store =
    (if stats_of store profileId = None then None else Some (updateUsageStatsEntry store profileId resetUsageStats))"

definition clearAuthProfileCooldown :: "bool \<Rightarrow> jsstr \<Rightarrow> auth_world \<Rightarrow> auth_world" where
  "clearAuthProfileCooldown locked profileId = locked_update locked (clear_cooldown profileId)"

record failure_params =
  fp_profileId :: jsstr
  fp_reason :: failure_reason
  fp_settings :: "cooldown_settings option"
  fp_modelId :: "jsstr option"

definition failed_stats ::
    "failure_params \<Rightarrow> (rat \<times> wham_reason) option \<Rightarrow> jsstr \<Rightarrow> rat \<Rightarrow> usage_stats option \<Rightarrow> usage_stats" where
  "failed_stats p whamResult provider now previousStats =
    (let existing = (case previousStats of Some s \<Rightarrow> s | None \<Rightarrow> no_stats);
         cfgResolved = resolveAuthCooldownConfig (fp_settings p) (normalizeProviderId provider);
         computed = computeNextProfileUsageStats existing now (fp_reason p) cfgResolved (fp_modelId p)
     in case whamResult of
          Some r \<Rightarrow> if shouldProbeWhamForFailure (Some provider) (fp_reason p) then applyWhamCooldownResult existing computed now r else computed
        | None \<Rightarrow> computed)"

text \<open>Under the lock a profile of a bypassed provider is left alone; the fallback only asks that the profile exists.\<close>

definition mark_failed :: "bool \<Rightarrow> failure_params \<Rightarrow> (rat \<times> wham_reason) option \<Rightarrow> rat \<Rightarrow> auth_store \<Rightarrow> auth_store option" where
  "mark_failed underLock p whamResult now store = (case mget (as_profiles store) (fp_profileId p) of
     None \<Rightarrow> None
   | Some profile \<Rightarrow>
      if underLock \<and> isAuthCooldownBypassedForProvider (Some (cr_provider profile)) then None
      else Some (updateUsageStatsEntry store (fp_profileId p) (failed_stats p whamResult (cr_provider profile) now)))"

definition markAuthProfileFailure :: "bool \<Rightarrow> failure_params \<Rightarrow> wham_answer \<Rightarrow> rat \<Rightarrow> rat \<Rightarrow> auth_world \<Rightarrow> auth_world" where
  "markAuthProfileFailure locked p answer probedAt now w = (case mget (as_profiles (aw_store w)) (fp_profileId p) of
     None \<Rightarrow> w
   | Some profile \<Rightarrow>
      if isAuthCooldownBypassedForProvider (Some (cr_provider profile)) then w
      else (let whamResult = (if shouldProbeWhamForFailure (Some (cr_provider profile)) (fp_reason p)
                then probeWhamForCooldown (aw_store w) (fp_profileId p) answer probedAt else None);
                (updated, w1) = updateAuthProfileStoreWithLock locked (saving (mark_failed True p whamResult now)) w
            in case updated of
                 Some u \<Rightarrow> w1\<lparr> aw_store := take_usage (aw_store w1) u \<rparr>
               | None \<Rightarrow> (case mark_failed False p whamResult now (aw_store w1) of
                   None \<Rightarrow> w1
                 | Some s \<Rightarrow> w1\<lparr> aw_store := s, aw_disk := s \<rparr>)))"

definition markAuthProfileCooldown :: "bool \<Rightarrow> jsstr \<Rightarrow> wham_answer \<Rightarrow> rat \<Rightarrow> rat \<Rightarrow> auth_world \<Rightarrow> auth_world" where
  "markAuthProfileCooldown locked profileId =
    markAuthProfileFailure locked \<lparr> fp_profileId = profileId, fp_reason = Unknown, fp_settings = None, fp_modelId = None \<rparr>"

section \<open>How long a window is\<close>

lemma cooldown_length: "30000 \<le> calculateAuthProfileCooldownMs n \<and> calculateAuthProfileCooldownMs n \<le> 300000"
  by (simp add: calculateAuthProfileCooldownMs_def Let_def)

lemma disabled_length:
  "60000 \<le> calculateDisabledLaneBackoffMs n base most \<and> calculateDisabledLaneBackoffMs n base most \<le> max (max 60000 base) most"
proof -
  let ?b = "max 60000 base" and ?x = "2 ^ nat (min (max 1 n - 1) 10) :: rat"
  have "1 \<le> ?x" by simp
  then have "?b * 1 \<le> ?b * ?x" by (intro mult_left_mono) auto
  then show ?thesis by (auto simp: calculateDisabledLaneBackoffMs_def Let_def)
qed

lemma disabled_backoff_length: "60000 \<le> resolveDisabledFailureBackoffMs r n c"
  using disabled_length by (simp add: resolveDisabledFailureBackoffMs_def)

definition disabling :: "failure_reason \<Rightarrow> bool" where
  "disabling r \<longleftrightarrow> r = Billing \<or> r = AuthPermanent"

lemma kept_or_new: "\<exists>r. keepActiveWindowOrRecompute v now x = Fin r \<and> (r = x \<or> (v = Some (Fin r) \<and> now < r))"
  by (auto simp: keepActiveWindowOrRecompute_def split: option.split jsnum.split)

lemma kept_after: "now < x \<Longrightarrow> \<exists>r. keepActiveWindowOrRecompute v now x = Fin r \<and> now < r"
  using kept_or_new [of v now x] by auto

lemma kept_active: "0 < d \<Longrightarrow> \<exists>r. keepActiveWindowOrRecompute v now (now + d) = Fin r \<and> now < r"
  by (intro kept_after) simp

lemma lengths_positive: "0 < calculateAuthProfileCooldownMs k" "0 < resolveDisabledFailureBackoffMs reason k cfg"
  using cooldown_length [of k] disabled_backoff_length [of reason k cfg] by linarith+

text \<open>The window a failure leaves, in either lane.\<close>

lemma next_windows:
  "\<not> disabling reason \<Longrightarrow> us_cooldownUntil (computeNextProfileUsageStats s now reason cfg m) =
      Some (keepActiveWindowOrRecompute (us_cooldownUntil s) now (now + calculateAuthProfileCooldownMs (the (us_errorCount (computeNextProfileUsageStats s now reason cfg m)))))
    \<and> us_disabledUntil (computeNextProfileUsageStats s now reason cfg m) = us_disabledUntil s
    \<and> us_cooldownReason (computeNextProfileUsageStats s now reason cfg m) = Some reason"
  "disabling reason \<Longrightarrow> us_cooldownUntil (computeNextProfileUsageStats s now reason cfg m) = us_cooldownUntil s
    \<and> us_disabledUntil (computeNextProfileUsageStats s now reason cfg m) =
      Some (keepActiveWindowOrRecompute (us_disabledUntil s) now
        (now + resolveDisabledFailureBackoffMs reason (the (mget (the (us_failureCounts (computeNextProfileUsageStats s now reason cfg m))) reason)) cfg))"
  by (auto simp: computeNextProfileUsageStats_def disabling_def Let_def)

text \<open>A failure never moves the end of a window that is running, and a new window is bounded: for transient failures
  between half a minute and five minutes, for billing and permanent authorization failures between one minute and the
  larger of the configured base and limit.  The other lane's window is left alone.\<close>

theorem cooldown_windows_bounded:
  "\<exists>d. let next = computeNextProfileUsageStats s now reason cfg m in
     if disabling reason
     then 60000 \<le> d \<and> d \<le> (if reason = Billing then max (max 60000 (cc_billingBackoffMs cfg)) (cc_billingMaxMs cfg)
            else max (max 60000 (cc_authPermanentBackoffMs cfg)) (cc_authPermanentMaxMs cfg))
       \<and> us_disabledUntil next = Some (keepActiveWindowOrRecompute (us_disabledUntil s) now (now + d))
       \<and> us_cooldownUntil next = us_cooldownUntil s
     else 30000 \<le> d \<and> d \<le> 300000
       \<and> us_cooldownUntil next = Some (keepActiveWindowOrRecompute (us_cooldownUntil s) now (now + d))
       \<and> us_disabledUntil next = us_disabledUntil s"
proof (cases "disabling reason")
  case True
  then show ?thesis
    using next_windows(2) [OF True, of s now cfg m] disabled_length
    by (intro exI [of _ "resolveDisabledFailureBackoffMs reason (the (mget (the (us_failureCounts (computeNextProfileUsageStats s now reason cfg m))) reason)) cfg"])
       (simp add: resolveDisabledFailureBackoffMs_def Let_def)
next
  case False
  then show ?thesis
    using next_windows(1) [OF False, of s now cfg m] cooldown_length
    by (intro exI [of _ "calculateAuthProfileCooldownMs (the (us_errorCount (computeNextProfileUsageStats s now reason cfg m)))"])
       (simp add: Let_def)
qed

section \<open>The steps of the backoff are not reached\<close>

record failure_event =
  fe_reason :: failure_reason
  fe_at :: rat
  fe_model :: "jsstr option"

definition fail_once :: "cooldown_config \<Rightarrow> usage_stats \<Rightarrow> failure_event \<Rightarrow> usage_stats" where
  "fail_once cfg s e = computeNextProfileUsageStats s (fe_at e) (fe_reason e) cfg (fe_model e)"

definition fail_all :: "cooldown_config \<Rightarrow> failure_event list \<Rightarrow> usage_stats" where
  "fail_all cfg es = foldl (fail_once cfg) no_stats es"

text \<open>Counted failures go with a window: when it is over they are forgotten.\<close>

lemma next_error_count:
  "us_errorCount (computeNextProfileUsageStats s now reason cfg m) =
    Some ((if resets_counters s now cfg then 0 else (case us_errorCount s of Some n \<Rightarrow> n | None \<Rightarrow> 0)) + 1)"
  "us_failureCounts (computeNextProfileUsageStats s now reason cfg m) =
    (let counts = (if resets_counters s now cfg then [] else (case us_failureCounts s of Some c \<Rightarrow> c | None \<Rightarrow> [])) in
     Some (mput counts reason ((case mget counts reason of Some n \<Rightarrow> n | None \<Rightarrow> 0) + 1)))"
  by (simp_all add: computeNextProfileUsageStats_def Let_def)

lemma no_stats_fields [simp]:
  "us_lastUsed no_stats = None" "us_cooldownUntil no_stats = None" "us_cooldownReason no_stats = None" "us_cooldownModel no_stats = None"
  "us_disabledUntil no_stats = None" "us_disabledReason no_stats = None" "us_errorCount no_stats = None" "us_failureCounts no_stats = None"
  "us_lastFailureAt no_stats = None"
  by (simp_all add: no_stats_def)

lemma transient_run:
  assumes "list_all (\<lambda>e. \<not> disabling (fe_reason e) \<and> 0 \<le> fe_at e) es"
  shows "us_disabledUntil (fail_all cfg es) = None
    \<and> (if es = [] then fail_all cfg es = no_stats else \<exists>e \<in> set es. us_cooldownUntil (fail_all cfg es) = Some (Fin (fe_at e + 30000)))"
  using assms
proof (induction es rule: rev_induct)
  case Nil
  then show ?case by (simp add: fail_all_def)
next
  case (snoc e es)
  let ?s = "fail_all cfg es" and ?n = "fail_all cfg (es @ [e])"
  have n: "?n = computeNextProfileUsageStats ?s (fe_at e) (fe_reason e) cfg (fe_model e)" by (simp add: fail_all_def fail_once_def)
  have e: "\<not> disabling (fe_reason e)" "0 \<le> fe_at e" using snoc.prems by simp_all
  note w = next_windows(1) [OF e(1), of ?s "fe_at e" cfg "fe_model e", folded n]
  show ?case
  proof (cases "es = []")
    case True
    then have s: "?s = no_stats" by (simp add: fail_all_def)
    then have "us_errorCount ?n = Some 1" by (simp add: n next_error_count)
    then show ?thesis using w s True by (simp add: keepActiveWindowOrRecompute_def calculateAuthProfileCooldownMs_def)
  next
    case False
    then obtain e0 where e0: "e0 \<in> set es" "us_cooldownUntil ?s = Some (Fin (fe_at e0 + 30000))" and d: "us_disabledUntil ?s = None"
      using snoc by auto
    have pos: "0 < fe_at e0 + 30000" using e0(1) snoc.prems by (auto simp: list_all_iff dest!: bspec [of _ _ e0])
    show ?thesis
    proof (cases "fe_at e < fe_at e0 + 30000")
      case True
      then show ?thesis using w e0 d by (auto simp: keepActiveWindowOrRecompute_def)
    next
      case False
      then have "resets_counters ?s (fe_at e) cfg"
        using e0(2) d pos by (simp add: resets_counters_def resolveProfileUnusableUntil_def positive_num_def)
      then have "us_errorCount ?n = Some 1" by (simp add: n next_error_count)
      then show ?thesis using w e0(2) d False by (auto simp: keepActiveWindowOrRecompute_def calculateAuthProfileCooldownMs_def)
    qed
  qed
qed

lemma disabling_run:
  assumes "list_all (\<lambda>e. disabling (fe_reason e) \<and> 0 \<le> fe_at e) es"
  shows "us_cooldownUntil (fail_all cfg es) = None
    \<and> (if es = [] then fail_all cfg es = no_stats
       else \<exists>e \<in> set es. us_disabledUntil (fail_all cfg es) = Some (Fin (fe_at e + resolveDisabledFailureBackoffMs (fe_reason e) 1 cfg)))"
  using assms
proof (induction es rule: rev_induct)
  case Nil
  then show ?case by (simp add: fail_all_def)
next
  case (snoc e es)
  let ?s = "fail_all cfg es" and ?n = "fail_all cfg (es @ [e])"
  have n: "?n = computeNextProfileUsageStats ?s (fe_at e) (fe_reason e) cfg (fe_model e)" by (simp add: fail_all_def fail_once_def)
  have e: "disabling (fe_reason e)" "0 \<le> fe_at e" using snoc.prems by simp_all
  note w = next_windows(2) [OF e(1), of ?s "fe_at e" cfg "fe_model e", folded n]
  have first: "the (mget (the (us_failureCounts ?n)) (fe_reason e)) = 1" if "resets_counters ?s (fe_at e) cfg \<or> us_failureCounts ?s = None"
    using that by (auto simp: n next_error_count Let_def)
  show ?case
  proof (cases "es = []")
    case True
    then have s: "?s = no_stats" by (simp add: fail_all_def)
    then show ?thesis using w first s True by (simp add: keepActiveWindowOrRecompute_def)
  next
    case False
    then obtain e0 where e0: "e0 \<in> set es" "us_disabledUntil ?s = Some (Fin (fe_at e0 + resolveDisabledFailureBackoffMs (fe_reason e0) 1 cfg))"
      and d: "us_cooldownUntil ?s = None"
      using snoc by auto
    let ?u = "fe_at e0 + resolveDisabledFailureBackoffMs (fe_reason e0) 1 cfg"
    have pos: "0 < ?u" using e0(1) snoc.prems disabled_backoff_length [of "fe_reason e0" 1 cfg] by (auto simp: list_all_iff dest!: bspec [of _ _ e0])
    show ?thesis
    proof (cases "fe_at e < ?u")
      case True
      then show ?thesis using w e0 d by (auto simp: keepActiveWindowOrRecompute_def)
    next
      case False
      then have "resets_counters ?s (fe_at e) cfg"
        using e0(2) d pos by (simp add: resets_counters_def resolveProfileUnusableUntil_def positive_num_def)
      then show ?thesis using w e0(2) d False first by (auto simp: keepActiveWindowOrRecompute_def)
    qed
  qed
qed

text \<open>The backoff does not escalate.  The window lengths have steps (half a minute, one minute, five minutes; doubling
  up to a limit for billing), but failures inside a window leave its end alone and a failure after it starts counting
  anew: from a fresh profile, any sequence of transient failures only ever gives windows of half a minute, and any
  sequence of billing and permanent authorization failures only windows of the first length.\<close>

theorem backoff_never_escalates:
  assumes "list_all (\<lambda>e. disabling (fe_reason e) = lane \<and> 0 \<le> fe_at e) es" and "es \<noteq> []"
  shows "\<exists>e \<in> set es. if lane
     then us_disabledUntil (fail_all cfg es) = Some (Fin (fe_at e + resolveDisabledFailureBackoffMs (fe_reason e) 1 cfg)) \<and> us_cooldownUntil (fail_all cfg es) = None
     else us_cooldownUntil (fail_all cfg es) = Some (Fin (fe_at e + 30000)) \<and> us_disabledUntil (fail_all cfg es) = None"
  using assms transient_run [of es cfg] disabling_run [of es cfg] by (cases lane) auto

definition two_failures :: "failure_event list" where
  "two_failures = [\<lparr> fe_reason = RateLimit, fe_at = 1000, fe_model = None \<rparr>, \<lparr> fe_reason = Overloaded, fe_at = 2000, fe_model = None \<rparr>,
     \<lparr> fe_reason = Overloaded, fe_at = 40000, fe_model = None \<rparr>]"

lemma backoff_never_escalates_witness:
  "\<exists>e \<in> set two_failures. if False
     then us_disabledUntil (fail_all (resolveAuthCooldownConfig None (js ''x'')) two_failures) =
        Some (Fin (fe_at e + resolveDisabledFailureBackoffMs (fe_reason e) 1 (resolveAuthCooldownConfig None (js ''x''))))
      \<and> us_cooldownUntil (fail_all (resolveAuthCooldownConfig None (js ''x'')) two_failures) = None
     else us_cooldownUntil (fail_all (resolveAuthCooldownConfig None (js ''x'')) two_failures) = Some (Fin (fe_at e + 30000))
      \<and> us_disabledUntil (fail_all (resolveAuthCooldownConfig None (js ''x'')) two_failures) = None"
  by (rule backoff_never_escalates) (simp_all add: two_failures_def disabling_def)

section \<open>What a failure blocks\<close>

lemma unusable_after:
  "us_cooldownUntil s = Some (Fin r) \<Longrightarrow> now < r \<Longrightarrow> 0 \<le> now \<Longrightarrow> \<exists>u. resolveProfileUnusableUntil s = Some u \<and> now < u"
  "us_disabledUntil s = Some (Fin r) \<Longrightarrow> now < r \<Longrightarrow> 0 \<le> now \<Longrightarrow> \<exists>u. resolveProfileUnusableUntil s = Some u \<and> now < u"
  by (auto simp: resolveProfileUnusableUntil_def positive_num_def split: option.split jsnum.split)

lemma failed_stats_blocked:
  assumes "0 \<le> now" and "reason = RateLimit \<Longrightarrow> some_model modelId \<Longrightarrow> some_model forModel \<Longrightarrow> forModel = modelId"
  shows "stats_in_cooldown (computeNextProfileUsageStats s now reason cfg modelId) now forModel"
proof -
  let ?n = "computeNextProfileUsageStats s now reason cfg modelId"
  show ?thesis
  proof (cases "disabling reason")
    case True
    then obtain r where r: "us_disabledUntil ?n = Some (Fin r)" "now < r"
      using next_windows(2) [OF True, of s now cfg modelId] kept_active lengths_positive(2) by metis
    then have "isActiveUnusableWindow (us_disabledUntil ?n) now" using assms(1) by (simp add: isActiveUnusableWindow_def positive_num_def)
    moreover obtain u where "resolveProfileUnusableUntil ?n = Some u" "now < u" using unusable_after(2) [OF r assms(1)] by blast
    ultimately show ?thesis by (simp add: stats_in_cooldown_def shouldBypassModelScopedCooldown_def)
  next
    case False
    then obtain r where r: "us_cooldownUntil ?n = Some (Fin r)" "now < r"
      using next_windows(1) [OF False, of s now cfg modelId] kept_active lengths_positive(1) by metis
    obtain u where u: "resolveProfileUnusableUntil ?n = Some u" "now < u" using unusable_after(1) [OF r assms(1)] by blast
    have reason: "us_cooldownReason ?n = Some reason" using next_windows(1) [OF False] by blast
    have model: "us_cooldownModel ?n = next_cooldown_model s now reason modelId"
      using False by (auto simp: computeNextProfileUsageStats_def disabling_def Let_def)
    have "\<not> shouldBypassModelScopedCooldown ?n now forModel"
    proof
      assume b: "shouldBypassModelScopedCooldown ?n now forModel"
      then have f: "some_model forModel" "reason = RateLimit" "some_model (next_cooldown_model s now reason modelId)"
        "next_cooldown_model s now reason modelId \<noteq> forModel"
        unfolding shouldBypassModelScopedCooldown_def reason model by blast+
      then have "some_model modelId" by (auto simp: next_cooldown_model_def some_model_def split: if_splits)
      then have "forModel = modelId" using assms(2) f(1,2) by simp
      then show False using f(2-4) \<open>some_model modelId\<close> by (auto simp: next_cooldown_model_def some_model_def split: if_splits)
    qed
    then show ?thesis using u by (simp add: stats_in_cooldown_def)
  qed
qed

lemma in_cooldown_iff:
  "stats_in_cooldown s t m \<longleftrightarrow> \<not> shouldBypassModelScopedCooldown s t m
     \<and> (isActiveUnusableWindow (us_cooldownUntil s) t \<or> isActiveUnusableWindow (us_disabledUntil s) t)"
  by (auto simp: stats_in_cooldown_def isActiveUnusableWindow_def resolveProfileUnusableUntil_def less_max_iff_disj split: option.split)

text \<open>What a probe does to the window: it replaces the end that was computed, unless the window before was active and ends later.\<close>

lemma probed_stats_blocked:
  assumes "0 \<le> now" and "\<not> disabling reason" and "reason = RateLimit \<Longrightarrow> some_model modelId \<Longrightarrow> some_model forModel \<Longrightarrow> forModel = modelId"
  shows "stats_in_cooldown (applyWhamCooldownResult s (computeNextProfileUsageStats s now reason cfg modelId) now r) now forModel
    \<longleftrightarrow> 0 < fst r \<or> isActiveUnusableWindow (us_cooldownUntil s) now \<or> isActiveUnusableWindow (us_disabledUntil s) now"
proof -
  let ?c = "computeNextProfileUsageStats s now reason cfg modelId"
  let ?n = "applyWhamCooldownResult s ?c now r"
  have reason: "us_cooldownReason ?n = Some reason" "us_disabledUntil ?n = us_disabledUntil s"
    using next_windows(1) [OF assms(2), of s now cfg modelId] by (simp_all add: applyWhamCooldownResult_def Let_def)
  have model: "us_cooldownModel ?n = next_cooldown_model s now reason modelId"
    using assms(2) by (auto simp: applyWhamCooldownResult_def computeNextProfileUsageStats_def disabling_def Let_def)
  have "\<not> shouldBypassModelScopedCooldown ?n now forModel"
    using assms(3) by (auto simp: shouldBypassModelScopedCooldown_def reason model next_cooldown_model_def some_model_def split: if_splits)
  moreover have "isActiveUnusableWindow (us_cooldownUntil ?n) now \<longleftrightarrow> 0 < fst r \<or> isActiveUnusableWindow (us_cooldownUntil s) now"
    using assms(1)
    by (auto simp: applyWhamCooldownResult_def Let_def isActiveUnusableWindow_def positive_num_def less_max_iff_disj split: option.splits jsnum.splits if_splits)
  ultimately show ?thesis unfolding in_cooldown_iff reason by blast
qed

text \<open>The whole operation, with the lock or without it.\<close>

lemma stats_of_update [simp]: "stats_of (updateUsageStatsEntry store i f) j = (if j = i then Some (f (stats_of store i)) else stats_of store j)"
  by (auto simp: stats_of_def updateUsageStatsEntry_def Let_def split: option.split)

lemma update_profiles [simp]: "as_profiles (updateUsageStatsEntry store i f) = as_profiles store"
  by (simp add: updateUsageStatsEntry_def Let_def)

lemma take_usage_simps [simp]: "stats_of (take_usage s u) i = stats_of u i" "as_profiles (take_usage s u) = as_profiles s"
  by (simp_all add: take_usage_def stats_of_def)

definition usable_profile :: "auth_store \<Rightarrow> jsstr \<Rightarrow> bool" where
  "usable_profile store i \<longleftrightarrow> (case mget (as_profiles store) i of None \<Rightarrow> False
     | Some p \<Rightarrow> \<not> isAuthCooldownBypassedForProvider (Some (cr_provider p)))"

text \<open>The store whose statistics are updated, and the length of the window when the usage probe decides it, which happens
  for openai-codex only.\<close>

definition updated_store :: "bool \<Rightarrow> auth_world \<Rightarrow> auth_store" where
  "updated_store locked w = (if locked then aw_disk w else aw_store w)"

definition probed_window :: "bool \<Rightarrow> failure_params \<Rightarrow> wham_answer \<Rightarrow> rat \<Rightarrow> auth_world \<Rightarrow> rat option" where
  "probed_window locked p answer probedAt w =
    (if shouldProbeWhamForFailure (profile_provider (aw_store w) (fp_profileId p)) (fp_reason p)
        \<and> shouldProbeWhamForFailure (profile_provider (updated_store locked w) (fp_profileId p)) (fp_reason p)
     then map_option fst (probeWhamForCooldown (aw_store w) (fp_profileId p) answer probedAt) else None)"

definition blocked_before :: "auth_store \<Rightarrow> jsstr \<Rightarrow> rat \<Rightarrow> bool" where
  "blocked_before store i now \<longleftrightarrow> (case stats_of store i of None \<Rightarrow> False
     | Some s \<Rightarrow> isActiveUnusableWindow (us_cooldownUntil s) now \<or> isActiveUnusableWindow (us_disabledUntil s) now)"

lemma failure_recorded:
  assumes "mget (as_profiles (aw_store w)) (fp_profileId p) = Some c" "\<not> isAuthCooldownBypassedForProvider (Some (cr_provider c))"
    and "mget (as_profiles (updated_store locked w)) (fp_profileId p) = Some d" "\<not> isAuthCooldownBypassedForProvider (Some (cr_provider d))"
  shows "stats_of (aw_store (markAuthProfileFailure locked p answer probedAt now w)) (fp_profileId p)
      = Some (failed_stats p (if shouldProbeWhamForFailure (Some (cr_provider c)) (fp_reason p)
            then probeWhamForCooldown (aw_store w) (fp_profileId p) answer probedAt else None)
          (cr_provider d) now (stats_of (updated_store locked w) (fp_profileId p)))
    \<and> as_profiles (aw_store (markAuthProfileFailure locked p answer probedAt now w)) = as_profiles (aw_store w)"
  using assms
  by (cases locked) (simp_all add: markAuthProfileFailure_def updateAuthProfileStoreWithLock_def saving_def mark_failed_def updated_store_def Let_def)

lemma failed_stats_cases:
  assumes "0 \<le> now"
    and "\<not> (fp_reason p = RateLimit \<and> some_model (fp_modelId p) \<and> some_model forModel \<and> forModel \<noteq> fp_modelId p)"
  shows "stats_in_cooldown (failed_stats p wham provider now prev) now forModel \<longleftrightarrow>
    (case (if shouldProbeWhamForFailure (Some provider) (fp_reason p) then wham else None) of None \<Rightarrow> True
     | Some r \<Rightarrow> 0 < fst r \<or> (case prev of None \<Rightarrow> False
         | Some s \<Rightarrow> isActiveUnusableWindow (us_cooldownUntil s) now \<or> isActiveUnusableWindow (us_disabledUntil s) now))"
proof (cases "if shouldProbeWhamForFailure (Some provider) (fp_reason p) then wham else None")
  case None
  then show ?thesis
    using assms by (auto simp: failed_stats_def Let_def split: option.splits if_splits intro!: failed_stats_blocked)
next
  case (Some r)
  then have r: "wham = Some r" "shouldProbeWhamForFailure (Some provider) (fp_reason p)" by (auto split: if_splits)
  then have reason: "\<not> disabling (fp_reason p)" by (auto simp: shouldProbeWhamForFailure_def disabling_def)
  have none: "\<not> isActiveUnusableWindow None now" by (simp add: isActiveUnusableWindow_def positive_num_def)
  show ?thesis
    using r probed_stats_blocked [OF assms(1) reason, of "fp_modelId p" forModel] assms(2) none
    by (auto simp: failed_stats_def Let_def split: option.splits)
qed

text \<open>C30: A failure blocks.  After \<open>markAuthProfileFailure\<close>, whether it took the lock or fell back on the store in memory and
  whatever the profile's statistics were, the profile is in cooldown: for every model, unless the failure was a rate limit
  of one named model; then it is for that model and for callers that name none.  The one exception is a window whose length the
  usage probe of openai-codex decides: if that length is 0, which a reset time in the past gives, the failed profile is blocked only if
  it was blocked before.\<close>

theorem failed_profile_blocked:
  assumes "usable_profile (aw_store w) (fp_profileId p)" and "usable_profile (aw_disk w) (fp_profileId p)" and "0 \<le> now"
    and "\<not> (fp_reason p = RateLimit \<and> some_model (fp_modelId p) \<and> some_model forModel \<and> forModel \<noteq> fp_modelId p)"
  shows "isProfileInCooldown (aw_store (markAuthProfileFailure locked p answer probedAt now w)) (fp_profileId p) now forModel
    \<longleftrightarrow> (case probed_window locked p answer probedAt w of None \<Rightarrow> True
         | Some n \<Rightarrow> 0 < n \<or> blocked_before (updated_store locked w) (fp_profileId p) now)"
proof -
  obtain c where c: "mget (as_profiles (aw_store w)) (fp_profileId p) = Some c" "\<not> isAuthCooldownBypassedForProvider (Some (cr_provider c))"
    using assms(1) by (auto simp: usable_profile_def split: option.splits)
  have "usable_profile (updated_store locked w) (fp_profileId p)" using assms(1,2) by (simp add: updated_store_def)
  then obtain d where d: "mget (as_profiles (updated_store locked w)) (fp_profileId p) = Some d" "\<not> isAuthCooldownBypassedForProvider (Some (cr_provider d))"
    by (auto simp: usable_profile_def split: option.splits)
  show ?thesis
    using failure_recorded [OF c d, of answer probedAt now] c d(1)
    by (simp add: isProfileInCooldown_def profile_provider_def failed_stats_cases [OF assms(3,4)] probed_window_def blocked_before_def split: option.split)
qed

definition world_of :: "string \<Rightarrow> auth_world" where
  "world_of provider = (let store = \<lparr> as_profiles = [(js ''p'', \<lparr> cr_type = (if provider = ''openai-codex'' then OAuthType else ApiKeyType),
     cr_provider = js provider, cr_key = Some (js ''k''), cr_keyRef = False,
     cr_token = None, cr_tokenRef = False, cr_access = (if provider = ''openai-codex'' then Some (js ''a'') else None), cr_refresh = None, cr_expires = None \<rparr>)], as_order = None, as_lastGood = None, as_usageStats = None \<rparr>
   in \<lparr> aw_store = store, aw_disk = store \<rparr>)"

definition one_profile :: auth_world where
  "one_profile = world_of ''anthropic''"

definition rate_limited :: failure_params where
  "rate_limited = \<lparr> fp_profileId = js ''p'', fp_reason = RateLimit, fp_settings = None, fp_modelId = Some (js ''m'') \<rparr>"

text \<open>An answer of the probe whose only window was reset two seconds before.\<close>

definition past_reset :: wham_answer where
  "past_reset = WhamBody (Some \<lparr> wr_limit_reached = Some True, wr_primary_window = Some \<lparr> ww_used_percent = Some (Fin 100),
     ww_reset_at = Some (Fin 3), ww_reset_after_seconds = Some (Fin 0) \<rparr>, wr_secondary_window = None \<rparr>)"

lemma one_profile_usable: "usable_profile (aw_store one_profile) (js ''p'')" "usable_profile (aw_disk one_profile) (js ''p'')"
  "usable_profile (aw_store (world_of ''openai-codex'')) (js ''p'')" "usable_profile (aw_disk (world_of ''openai-codex'')) (js ''p'')"
  by code_simp+

lemma probed_windows:
  "probed_window True rate_limited WhamNoAnswer 0 one_profile = None"
  "probed_window True rate_limited past_reset 5000 (world_of ''openai-codex'') = Some 0"
  "\<not> blocked_before (updated_store True (world_of ''openai-codex'')) (js ''p'') 5000"
  by code_simp+

lemma failed_profile_blocked_witness:
  "isProfileInCooldown (aw_store (markAuthProfileFailure True rate_limited WhamNoAnswer 0 5000 one_profile)) (fp_profileId rate_limited) 5000 (Some (js ''m''))
   \<and> \<not> isProfileInCooldown (aw_store (markAuthProfileFailure True rate_limited past_reset 5000 5000 (world_of ''openai-codex''))) (fp_profileId rate_limited) 5000 (Some (js ''m''))
   \<and> \<not> isProfileInCooldown (aw_store (markAuthProfileFailure True rate_limited WhamNoAnswer 0 5000 one_profile)) (js ''p'') 5000 (Some (js ''n''))"
proof (intro conjI)
  have i: "fp_profileId rate_limited = js ''p''" by (simp add: rate_limited_def)
  have m: "\<not> (fp_reason rate_limited = RateLimit \<and> some_model (fp_modelId rate_limited) \<and> some_model (Some (js ''m'')) \<and> Some (js ''m'') \<noteq> fp_modelId rate_limited)"
    by (simp add: rate_limited_def)
  show "isProfileInCooldown (aw_store (markAuthProfileFailure True rate_limited WhamNoAnswer 0 5000 one_profile)) (fp_profileId rate_limited) 5000 (Some (js ''m''))"
    using failed_profile_blocked [OF _ _ _ m, where w = one_profile and now = 5000 and locked = True and answer = WhamNoAnswer and probedAt = 0]
      one_profile_usable probed_windows(1) i by simp
  show "\<not> isProfileInCooldown (aw_store (markAuthProfileFailure True rate_limited past_reset 5000 5000 (world_of ''openai-codex''))) (fp_profileId rate_limited) 5000 (Some (js ''m''))"
    using failed_profile_blocked [OF _ _ _ m, where w = "world_of ''openai-codex''" and now = 5000 and locked = True and answer = past_reset and probedAt = 5000]
      one_profile_usable probed_windows(2,3) i by simp
  show "\<not> isProfileInCooldown (aw_store (markAuthProfileFailure True rate_limited WhamNoAnswer 0 5000 one_profile)) (js ''p'') 5000 (Some (js ''n''))"
    by code_simp
qed

section \<open>Clearing expired windows does not show\<close>

lemma clear_fields:
  "us_cooldownUntil (clear_expired_stats t s) = (if window_expired (us_cooldownUntil s) t then None else us_cooldownUntil s)"
  "us_disabledUntil (clear_expired_stats t s) = (if window_expired (us_disabledUntil s) t then None else us_disabledUntil s)"
  "us_cooldownReason (clear_expired_stats t s) = (if window_expired (us_cooldownUntil s) t then None else us_cooldownReason s)"
  "us_cooldownModel (clear_expired_stats t s) = (if window_expired (us_cooldownUntil s) t then None else us_cooldownModel s)"
  "us_disabledReason (clear_expired_stats t s) = (if window_expired (us_disabledUntil s) t then None else us_disabledReason s)"
  "us_lastUsed (clear_expired_stats t s) = us_lastUsed s" "us_lastFailureAt (clear_expired_stats t s) = us_lastFailureAt s"
  by (simp_all add: clear_expired_stats_def Let_def)

lemma clear_active:
  "t \<le> t' \<Longrightarrow> isActiveUnusableWindow (us_cooldownUntil (clear_expired_stats t s)) t' = isActiveUnusableWindow (us_cooldownUntil s) t'"
  "t \<le> t' \<Longrightarrow> isActiveUnusableWindow (us_disabledUntil (clear_expired_stats t s)) t' = isActiveUnusableWindow (us_disabledUntil s) t'"
  by (auto simp: clear_fields isActiveUnusableWindow_def window_expired_def positive_num_def split: option.split jsnum.split)

lemma clear_in_cooldown:
  assumes "t \<le> t'"
  shows "stats_in_cooldown (clear_expired_stats t s) t' m = stats_in_cooldown s t' m"
proof (cases "window_expired (us_cooldownUntil s) t")
  case True
  then have "\<not> isActiveUnusableWindow (us_cooldownUntil s) t'"
    using assms by (auto simp: window_expired_def isActiveUnusableWindow_def split: option.splits)
  then show ?thesis using True assms
    by (auto simp: in_cooldown_iff clear_active shouldBypassModelScopedCooldown_def clear_fields(3,4))
next
  case False
  then show ?thesis using assms by (simp add: in_cooldown_iff clear_active shouldBypassModelScopedCooldown_def clear_fields(3,4))
qed

text \<open>Whether the counters start anew, and from what.\<close>

definition counters_at :: "usage_stats \<Rightarrow> rat \<Rightarrow> cooldown_config \<Rightarrow> int \<times> (failure_reason, int) jsmap" where
  "counters_at s now cfg = (if resets_counters s now cfg then (0, [])
     else ((case us_errorCount s of Some n \<Rightarrow> n | None \<Rightarrow> 0), (case us_failureCounts s of Some c \<Rightarrow> c | None \<Rightarrow> [])))"

definition next_from :: "int \<times> (failure_reason, int) jsmap \<Rightarrow> usage_stats \<Rightarrow> rat \<Rightarrow> failure_reason \<Rightarrow> cooldown_config \<Rightarrow> jsstr option \<Rightarrow> usage_stats" where
  "next_from counters s now reason cfg m =
    (let n = fst counters + 1; c = (case mget (snd counters) reason of Some n \<Rightarrow> n | None \<Rightarrow> 0) + 1;
         u = s\<lparr> us_errorCount := Some n, us_failureCounts := Some (mput (snd counters) reason c), us_lastFailureAt := Some (Fin now) \<rparr>
     in if disabling reason
        then u\<lparr> us_disabledUntil := Some (keepActiveWindowOrRecompute (us_disabledUntil s) now (now + resolveDisabledFailureBackoffMs reason c cfg)),
               us_disabledReason := Some reason \<rparr>
        else u\<lparr> us_cooldownUntil := Some (keepActiveWindowOrRecompute (us_cooldownUntil s) now (now + calculateAuthProfileCooldownMs n)),
               us_cooldownReason := Some reason, us_cooldownModel := next_cooldown_model s now reason m \<rparr>)"

lemma next_counters: "computeNextProfileUsageStats s now reason cfg m = next_from (counters_at s now cfg) s now reason cfg m"
  by (simp add: computeNextProfileUsageStats_def next_from_def counters_at_def disabling_def Let_def)

lemma unusable_Some: "(case resolveProfileUnusableUntil s of Some u \<Rightarrow> u \<le> t | None \<Rightarrow> False) \<longleftrightarrow>
    (positive_num (us_cooldownUntil s) \<noteq> None \<or> positive_num (us_disabledUntil s) \<noteq> None)
    \<and> (\<forall>r. positive_num (us_cooldownUntil s) = Some r \<longrightarrow> r \<le> t) \<and> (\<forall>r. positive_num (us_disabledUntil s) = Some r \<longrightarrow> r \<le> t)"
  by (auto simp: resolveProfileUnusableUntil_def split: option.split)

lemma unusable_None: "resolveProfileUnusableUntil s = None \<longleftrightarrow> positive_num (us_cooldownUntil s) = None \<and> positive_num (us_disabledUntil s) = None"
  by (auto simp: resolveProfileUnusableUntil_def split: option.split)

lemma positive_None [simp]: "positive_num None = None"
  by (simp add: positive_num_def)

lemma unusable_counters [simp]:
  "resolveProfileUnusableUntil (s\<lparr> us_errorCount := a, us_failureCounts := b \<rparr>) = resolveProfileUnusableUntil s"
  by (simp add: resolveProfileUnusableUntil_def)

lemma clear_counters:
  assumes "t \<le> t'"
  shows "counters_at (clear_expired_stats t s) t' cfg = counters_at s t' cfg"
proof -
  let ?c = "window_expired (us_cooldownUntil s) t" and ?d = "window_expired (us_disabledUntil s) t" and ?s = "clear_expired_stats t s"
  have fw: "failure_window_expired ?s t' w = failure_window_expired s t' w" for w
    by (simp add: failure_window_expired_def clear_fields)
  have ex: "window_expired v t \<longleftrightarrow> (\<exists>r. positive_num v = Some r \<and> r \<le> t)" for v
    by (auto simp: window_expired_def split: option.split)
  show ?thesis
  proof (cases "(?c \<or> ?d) \<and> resolveProfileUnusableUntil ?s = None")
    case True
    then have un: "positive_num (us_cooldownUntil ?s) = None" "positive_num (us_disabledUntil ?s) = None" by (simp_all add: unusable_None)
    have "us_errorCount ?s = Some 0 \<and> us_failureCounts ?s = None"
      using True by (auto simp: clear_expired_stats_def Let_def split: if_splits)
    moreover have "resets_counters s t' cfg"
      using True un assms unfolding resets_counters_def unusable_Some clear_fields ex by (auto split: if_splits)
    ultimately show ?thesis by (simp add: counters_at_def)
  next
    case False
    then have same: "us_errorCount ?s = us_errorCount s" "us_failureCounts ?s = us_failureCounts s"
      by (auto simp: clear_expired_stats_def Let_def split: if_splits)
    have "resets_counters ?s t' cfg = resets_counters s t' cfg"
      using False assms unfolding resets_counters_def fw unusable_Some unusable_None clear_fields ex by (auto split: if_splits)
    then show ?thesis by (simp add: counters_at_def same)
  qed
qed

lemma next_from_active:
  assumes "0 \<le> now"
  shows "isActiveUnusableWindow (us_cooldownUntil (next_from k s now reason cfg m)) now
    \<or> isActiveUnusableWindow (us_disabledUntil (next_from k s now reason cfg m)) now"
proof (cases "disabling reason")
  case True
  then obtain r where "us_disabledUntil (next_from k s now reason cfg m) = Some (Fin r)" "now < r"
    using kept_active lengths_positive(2) by (simp add: next_from_def Let_def) metis
  then show ?thesis using assms by (simp add: isActiveUnusableWindow_def positive_num_def)
next
  case False
  then obtain r where "us_cooldownUntil (next_from k s now reason cfg m) = Some (Fin r)" "now < r"
    using kept_active lengths_positive(1) by (simp add: next_from_def Let_def) metis
  then show ?thesis using assms by (simp add: isActiveUnusableWindow_def positive_num_def)
qed

text \<open>C31: Clearing expired windows does not show.  A profile whose expired windows were cleared at some time is in cooldown at
  any later time for exactly the models it was; and a failure gives it the windows and counters it would have got without
  the clearing, so the store on disk, which was not cleared, and the one in memory agree after the next clearing.\<close>

theorem clearing_expired_invisible:
  assumes "t \<le> now" and "0 \<le> now"
  shows "stats_in_cooldown (clear_expired_stats t s) now model = stats_in_cooldown s now model
    \<and> clear_expired_stats now (computeNextProfileUsageStats (clear_expired_stats t s) now reason cfg modelId)
       = clear_expired_stats now (computeNextProfileUsageStats s now reason cfg modelId)"
proof
  let ?s = "clear_expired_stats t s" and ?k = "counters_at s now cfg"
  show "stats_in_cooldown ?s now model = stats_in_cooldown s now model" using clear_in_cooldown [OF assms(1)] .
  have ex: "window_expired v t \<Longrightarrow> \<exists>r. v = Some (Fin r) \<and> r \<le> now \<and> 0 < r" for v
    using assms(1) by (auto simp: window_expired_def positive_num_def split: option.splits jsnum.splits if_splits)
  have keep: "keepActiveWindowOrRecompute (us_cooldownUntil ?s) now x = keepActiveWindowOrRecompute (us_cooldownUntil s) now x"
    "keepActiveWindowOrRecompute (us_disabledUntil ?s) now x = keepActiveWindowOrRecompute (us_disabledUntil s) now x" for x
    using ex [of "us_cooldownUntil s"] ex [of "us_disabledUntil s"] by (auto simp: clear_fields keepActiveWindowOrRecompute_def)
  have later: "window_expired v t \<Longrightarrow> window_expired v now" for v
    using assms(1) by (auto simp: window_expired_def split: option.splits)
  have model: "next_cooldown_model ?s now reason modelId = next_cooldown_model s now reason modelId"
    using ex [of "us_cooldownUntil s"] by (auto simp: next_cooldown_model_def clear_fields num_after_def)
  have gone: "\<not> window_expired None x" for x by (simp add: window_expired_def)
  let ?n1 = "next_from ?k ?s now reason cfg modelId" and ?n2 = "next_from ?k s now reason cfg modelId"
  have counts: "us_errorCount (clear_expired_stats now n) = us_errorCount n \<and> us_failureCounts (clear_expired_stats now n) = us_failureCounts n"
    if "isActiveUnusableWindow (us_cooldownUntil n) now \<or> isActiveUnusableWindow (us_disabledUntil n) now" for n
  proof -
    have "resolveProfileUnusableUntil (clear_expired_stats now n) \<noteq> None"
      using that clear_active [of now now n] by (auto simp: unusable_None isActiveUnusableWindow_def)
    then show ?thesis by (auto simp: clear_expired_stats_def Let_def split: if_splits)
  qed
  have "us_errorCount ?n1 = us_errorCount ?n2 \<and> us_failureCounts ?n1 = us_failureCounts ?n2"
    by (simp add: next_from_def Let_def)
  then have c: "us_errorCount (clear_expired_stats now ?n1) = us_errorCount (clear_expired_stats now ?n2)"
    "us_failureCounts (clear_expired_stats now ?n1) = us_failureCounts (clear_expired_stats now ?n2)"
    using counts [OF next_from_active [OF assms(2)]] by simp_all
  have "clear_expired_stats now ?n1 = clear_expired_stats now ?n2"
    by (rule usage_stats.equality; (rule c)?; simp add: clear_fields; simp add: next_from_def Let_def keep model; simp add: clear_fields later gone)
  then show "clear_expired_stats now (computeNextProfileUsageStats ?s now reason cfg modelId) = clear_expired_stats now (computeNextProfileUsageStats s now reason cfg modelId)"
    by (simp add: next_counters clear_counters [OF assms(1)])
qed

definition cooled :: usage_stats where
  "cooled = computeNextProfileUsageStats no_stats 1000 Overloaded (resolveAuthCooldownConfig None (js ''x'')) None"

lemma clearing_expired_invisible_witness:
  "stats_in_cooldown (clear_expired_stats 31000 cooled) 32000 None = stats_in_cooldown cooled 32000 None
    \<and> clear_expired_stats 32000 (computeNextProfileUsageStats (clear_expired_stats 31000 cooled) 32000 Billing (resolveAuthCooldownConfig None (js ''x'')) None)
       = clear_expired_stats 32000 (computeNextProfileUsageStats cooled 32000 Billing (resolveAuthCooldownConfig None (js ''x'')) None)"
  by (rule clearing_expired_invisible) simp_all

end
