(* ===== verification/AuthProfiles.thy ===== *)
theory AuthProfiles
  imports AuthUsage
begin

text \<open>
  Stored credentials: which providers share credentials (\<open>src/src/agents/provider-auth-aliases.ts\<close> with
  \<open>src/src/plugins/plugin-config-trust.ts\<close>), the operations of \<open>src/src/agents/auth-profiles/profiles.ts\<close>, and
  \<open>mergeAuthProfileStores\<close> of \<open>persisted.ts\<close>, which lays an agent's store over the main one.
\<close>

section \<open>Which plugins are trusted\<close>

datatype plugin_origin = OriginConfig | OriginBundled | OriginGlobal | OriginWorkspace

record plugin_manifest =
  pm_id :: "jsstr option"
  pm_origin :: "plugin_origin option"
  pm_providerAuthAliases :: "(jsstr, jsstr) jsmap option"

record plugins_config =
  pc_enabled :: "bool option"
  pc_deny :: "jsstr list option"
  pc_allow :: "jsstr list option"
  pc_entries :: "(jsstr \<times> bool option) list option"
  pc_contextEngine :: "jsstr option"

record profile_config =
  pf_provider :: jsstr
  pf_mode :: credential_type

text \<open>The parts of the configuration that are read: \<open>auth.profiles\<close>, \<open>auth.order\<close> and \<open>plugins\<close>.\<close>

record auth_config =
  ac_profiles :: "(jsstr, profile_config) jsmap option"
  ac_order :: "(jsstr, jsstr list) jsmap option"
  ac_plugins :: "plugins_config option"

definition normalizePluginConfigId :: "jsstr option \<Rightarrow> jsstr" where
  "normalizePluginConfigId i = (case normalizeOptionalLowercaseString i of Some s \<Rightarrow> s | None \<Rightarrow> [])"

definition hasPluginConfigId :: "jsstr list option \<Rightarrow> jsstr \<Rightarrow> bool" where
  "hasPluginConfigId ids pluginId \<longleftrightarrow> (case ids of None \<Rightarrow> False | Some l \<Rightarrow> list_ex (\<lambda>e. normalizePluginConfigId (Some e) = pluginId) l)"

definition findPluginConfigEntry :: "(jsstr \<times> bool option) list option \<Rightarrow> jsstr \<Rightarrow> bool option option" where
  "findPluginConfigEntry entries pluginId = (case entries of
     None \<Rightarrow> None
   | Some es \<Rightarrow> map_option snd (find (\<lambda>(key, value). normalizePluginConfigId (Some key) = pluginId) es))"

definition isWorkspacePluginAllowedByConfig :: "plugins_config option \<Rightarrow> (jsstr \<Rightarrow> bool) \<Rightarrow> plugin_manifest \<Rightarrow> bool" where
  "isWorkspacePluginAllowedByConfig pluginsConfig isImplicitlyAllowed plugin =
    (let pluginId = normalizePluginConfigId (pm_id plugin);
         entry = findPluginConfigEntry (Option.bind pluginsConfig pc_entries) pluginId
     in if Option.bind pluginsConfig pc_enabled = Some False then False
        else if pluginId = [] \<or> hasPluginConfigId (Option.bind pluginsConfig pc_deny) pluginId then False
        else if entry = Some (Some False) then False
        else if entry = Some (Some True) \<or> hasPluginConfigId (Option.bind pluginsConfig pc_allow) pluginId then True
        else isImplicitlyAllowed pluginId)"

section \<open>Providers that share credentials\<close>

text \<open>
  What the code gets from outside: the order of \<open>localeCompare\<close>, as a key that sorts the same way, and the plugins that
  \<open>loadPluginManifestRegistry\<close> finds on disk for a configuration.
\<close>

record provider_env =
  pe_collate :: "jsstr \<Rightarrow> rat"
  pe_registry :: "auth_config option \<Rightarrow> plugin_manifest list"

definition resolveProviderAuthAliasOriginPriority :: "plugin_origin option \<Rightarrow> int" where
  "resolveProviderAuthAliasOriginPriority origin = (case origin of
     None \<Rightarrow> 9007199254740991
   | Some OriginConfig \<Rightarrow> 0 | Some OriginBundled \<Rightarrow> 1 | Some OriginGlobal \<Rightarrow> 2 | Some OriginWorkspace \<Rightarrow> 3)"

definition isWorkspacePluginTrustedForAuthAliases :: "plugin_manifest \<Rightarrow> auth_config option \<Rightarrow> bool" where
  "isWorkspacePluginTrustedForAuthAliases plugin config =
    (let plugins = Option.bind config ac_plugins in
     isWorkspacePluginAllowedByConfig plugins
       (\<lambda>pluginId. normalizePluginConfigId (Option.bind plugins pc_contextEngine) = pluginId) plugin)"

definition shouldUsePluginAuthAliases :: "plugin_manifest \<Rightarrow> auth_config option \<Rightarrow> bool \<Rightarrow> bool" where
  "shouldUsePluginAuthAliases plugin config includeUntrusted \<longleftrightarrow>
    pm_origin plugin \<noteq> Some OriginWorkspace \<or> includeUntrusted \<or> isWorkspacePluginTrustedForAuthAliases plugin config"

record alias_candidate =
  al_origin :: "plugin_origin option"
  al_target :: jsstr

definition add_alias :: "plugin_origin option \<Rightarrow> (jsstr, alias_candidate) jsmap \<Rightarrow> jsstr \<times> jsstr \<Rightarrow> (jsstr, alias_candidate) jsmap" where
  "add_alias origin preferred entry =
    (let normalizedAlias = normalizeProviderId (fst entry); normalizedTarget = normalizeProviderId (snd entry) in
     if normalizedAlias = [] \<or> normalizedTarget = [] then preferred
     else (case mget preferred normalizedAlias of
       Some existing \<Rightarrow>
         if resolveProviderAuthAliasOriginPriority origin < resolveProviderAuthAliasOriginPriority (al_origin existing)
         then mput preferred normalizedAlias \<lparr> al_origin = origin, al_target = normalizedTarget \<rparr> else preferred
     | None \<Rightarrow> mput preferred normalizedAlias \<lparr> al_origin = origin, al_target = normalizedTarget \<rparr>))"

definition add_plugin_aliases :: "provider_env \<Rightarrow> (jsstr, alias_candidate) jsmap \<Rightarrow> plugin_manifest \<Rightarrow> (jsstr, alias_candidate) jsmap" where
  "add_plugin_aliases env preferred plugin =
    foldl (add_alias (pm_origin plugin)) preferred
      (sort_key (\<lambda>entry. pe_collate env (fst entry)) (case pm_providerAuthAliases plugin of Some m \<Rightarrow> m | None \<Rightarrow> []))"

definition resolveProviderAuthAliasMap :: "provider_env \<Rightarrow> auth_config option \<Rightarrow> bool \<Rightarrow> (jsstr, jsstr) jsmap" where
  "resolveProviderAuthAliasMap env config includeUntrusted =
    map (\<lambda>(alias, candidate). (alias, al_target candidate))
      (foldl (add_plugin_aliases env) [] (filter (\<lambda>plugin. shouldUsePluginAuthAliases plugin config includeUntrusted) (pe_registry env config)))"

definition resolveProviderIdForAuth :: "provider_env \<Rightarrow> auth_config option \<Rightarrow> jsstr \<Rightarrow> jsstr" where
  "resolveProviderIdForAuth env config provider =
    (let normalized = normalizeProviderId provider in
     if normalized = [] then normalized
     else (case mget (resolveProviderAuthAliasMap env config False) normalized of Some target \<Rightarrow> target | None \<Rightarrow> normalized))"

section \<open>Stores laid over each other\<close>

definition spread_maps :: "('k, 'v) jsmap \<Rightarrow> ('k, 'v) jsmap \<Rightarrow> ('k, 'v) jsmap" where
  "spread_maps base override = foldl (\<lambda>m kv. mput m (fst kv) (snd kv)) base override"

definition mergeRecord :: "('k, 'v) jsmap option \<Rightarrow> ('k, 'v) jsmap option \<Rightarrow> ('k, 'v) jsmap option" where
  "mergeRecord base override = (case (base, override) of
     (None, None) \<Rightarrow> None
   | (None, Some r) \<Rightarrow> Some r
   | (Some l, None) \<Rightarrow> Some l
   | (Some l, Some r) \<Rightarrow> Some (spread_maps l r))"

definition mergeAuthProfileStores :: "auth_store \<Rightarrow> auth_store \<Rightarrow> auth_store" where
  "mergeAuthProfileStores base override =
    (if as_profiles override = [] \<and> as_order override = None \<and> as_lastGood override = None \<and> as_usageStats override = None then base
     else \<lparr> as_profiles = spread_maps (as_profiles base) (as_profiles override),
       as_order = mergeRecord (as_order base) (as_order override),
       as_lastGood = mergeRecord (as_lastGood base) (as_lastGood override),
       as_usageStats = mergeRecord (as_usageStats base) (as_usageStats override) \<rparr>)"

text \<open>The store an agent works with: its own if it is the main agent, and otherwise the main one (\<open>main\<close>) with its own laid over it.\<close>

definition ensureAuthProfileStore :: "auth_store option \<Rightarrow> auth_store \<Rightarrow> auth_store" where
  "ensureAuthProfileStore main own = (case main of None \<Rightarrow> own | Some m \<Rightarrow> mergeAuthProfileStores m own)"

section \<open>Operations on profiles\<close>

definition dedupeProfileIds :: "jsstr list \<Rightarrow> jsstr list" where
  "dedupeProfileIds ids = foldl sadd [] ids"

definition normalizeStringEntries :: "jsstr list \<Rightarrow> jsstr list" where
  "normalizeStringEntries l = filter (\<lambda>s. s \<noteq> []) (map (\<lambda>e. case normalizeOptionalString (Some e) of Some s \<Rightarrow> s | None \<Rightarrow> []) l)"

definition none_if_empty :: "('k, 'v) jsmap \<Rightarrow> ('k, 'v) jsmap option" where
  "none_if_empty m = (if m = [] then None else Some m)"

definition set_order :: "jsstr \<Rightarrow> jsstr list \<Rightarrow> auth_store \<Rightarrow> auth_store \<times> bool" where
  "set_order providerKey deduped store =
    (let order = (case as_order store of Some m \<Rightarrow> m | None \<Rightarrow> []) in
     if deduped = []
     then (if mget order providerKey = None then (store\<lparr> as_order := Some order \<rparr>, False)
           else (store\<lparr> as_order := none_if_empty (mdel order providerKey) \<rparr>, True))
     else (store\<lparr> as_order := Some (mput order providerKey deduped) \<rparr>, True))"

definition setAuthProfileOrder :: "bool \<Rightarrow> jsstr \<Rightarrow> jsstr list option \<Rightarrow> auth_world \<Rightarrow> auth_store option \<times> auth_world" where
  "setAuthProfileOrder locked provider order =
    updateAuthProfileStoreWithLock locked
      (set_order (normalizeProviderId provider)
        (dedupeProfileIds (case order of Some l \<Rightarrow> normalizeStringEntries l | None \<Rightarrow> [])))"

definition normalizeSecretInput :: "jsstr option \<Rightarrow> jsstr" where
  "normalizeSecretInput value = (case value of
     None \<Rightarrow> []
   | Some s \<Rightarrow> trim (filter (\<lambda>c. c \<le> 255) (filter (\<lambda>c. c \<notin> {10, 13, 0x2028, 0x2029}) s)))"

definition sanitized_credential :: "credential \<Rightarrow> credential" where
  "sanitized_credential c = (case cr_type c of
     ApiKeyType \<Rightarrow> (if cr_key c = None then c else c\<lparr> cr_key := Some (normalizeSecretInput (cr_key c)) \<rparr>)
   | TokenType \<Rightarrow> c\<lparr> cr_token := Some (normalizeSecretInput (cr_token c)) \<rparr>
   | OAuthType \<Rightarrow> c)"

definition put_profile :: "jsstr \<Rightarrow> credential \<Rightarrow> auth_store \<Rightarrow> auth_store" where
  "put_profile profileId c store = store\<lparr> as_profiles := mput (as_profiles store) profileId c \<rparr>"

definition upsertAuthProfile :: "auth_store option \<Rightarrow> jsstr \<Rightarrow> credential \<Rightarrow> auth_world \<Rightarrow> auth_world" where
  "upsertAuthProfile main profileId c w =
    w\<lparr> aw_disk := put_profile profileId (sanitized_credential c) (ensureAuthProfileStore main (aw_disk w)) \<rparr>"

definition upsertAuthProfileWithLock :: "bool \<Rightarrow> jsstr \<Rightarrow> credential \<Rightarrow> auth_world \<Rightarrow> auth_store option \<times> auth_world" where
  "upsertAuthProfileWithLock locked profileId c =
    updateAuthProfileStoreWithLock locked (\<lambda>store. (put_profile profileId c store, True))"

definition listProfilesForProvider :: "provider_env \<Rightarrow> auth_store \<Rightarrow> jsstr \<Rightarrow> jsstr list" where
  "listProfilesForProvider env store provider =
    (let providerKey = resolveProviderIdForAuth env None provider in
     map fst (filter (\<lambda>(i, cred). resolveProviderIdForAuth env None (cr_provider cred) = providerKey) (as_profiles store)))"

definition remove_profile :: "auth_store \<times> bool \<Rightarrow> jsstr \<Rightarrow> auth_store \<times> bool" where
  "remove_profile sc profileId =
    (let (store, changed) = sc;
         inProfiles = mget (as_profiles store) profileId \<noteq> None; inStats = stats_of store profileId \<noteq> None;
         s1 = (if inProfiles then store\<lparr> as_profiles := mdel (as_profiles store) profileId \<rparr> else store);
         s2 = (if inStats then s1\<lparr> as_usageStats := map_option (\<lambda>m. mdel m profileId) (as_usageStats s1) \<rparr> else s1)
     in (s2, changed \<or> inProfiles \<or> inStats))"

definition del_key :: "('k, 'v) jsmap option \<Rightarrow> 'k \<Rightarrow> ('k, 'v) jsmap option" where
  "del_key m k = (case m of None \<Rightarrow> None | Some r \<Rightarrow> if mget r k = None then m else none_if_empty (mdel r k))"

definition has_key :: "('k, 'v) jsmap option \<Rightarrow> 'k \<Rightarrow> bool" where
  "has_key m k \<longleftrightarrow> (case m of None \<Rightarrow> False | Some r \<Rightarrow> mget r k \<noteq> None)"

definition remove_provider :: "provider_env \<Rightarrow> jsstr \<Rightarrow> auth_store \<Rightarrow> auth_store \<times> bool" where
  "remove_provider env provider store =
    (let providerKey = resolveProviderIdForAuth env None provider; storeOrderKey = normalizeProviderId provider;
         (s1, changed) = foldl remove_profile (store, False) (listProfilesForProvider env store provider);
         inOrder = has_key (as_order s1) storeOrderKey;
         s2 = s1\<lparr> as_order := del_key (as_order s1) storeOrderKey \<rparr>;
         isGood = has_key (as_lastGood s2) providerKey \<and> mget (the (as_lastGood s2)) providerKey \<noteq> Some [];
         s3 = (if isGood then s2\<lparr> as_lastGood := del_key (as_lastGood s2) providerKey \<rparr> else s2);
         s4 = (if as_usageStats s3 = Some [] then s3\<lparr> as_usageStats := None \<rparr> else s3)
     in (s4, changed \<or> inOrder \<or> isGood))"

definition removeProviderAuthProfilesWithLock :: "provider_env \<Rightarrow> bool \<Rightarrow> jsstr \<Rightarrow> auth_world \<Rightarrow> auth_store option \<times> auth_world" where
  "removeProviderAuthProfilesWithLock env locked provider = updateAuthProfileStoreWithLock locked (remove_provider env provider)"

definition mark_good :: "provider_env \<Rightarrow> jsstr \<Rightarrow> jsstr \<Rightarrow> auth_store \<Rightarrow> auth_store option" where
  "mark_good env provider profileId store =
    (let providerKey = resolveProviderIdForAuth env None provider in
     case mget (as_profiles store) profileId of
       None \<Rightarrow> None
     | Some p \<Rightarrow>
        if resolveProviderIdForAuth env None (cr_provider p) \<noteq> providerKey then None
        else Some (store\<lparr> as_lastGood := Some (mput (case as_lastGood store of Some m \<Rightarrow> m | None \<Rightarrow> []) providerKey profileId) \<rparr>))"

definition markAuthProfileGood :: "provider_env \<Rightarrow> bool \<Rightarrow> jsstr \<Rightarrow> jsstr \<Rightarrow> auth_world \<Rightarrow> auth_world" where
  "markAuthProfileGood env locked provider profileId w =
    (let (updated, w1) = updateAuthProfileStoreWithLock locked (saving (mark_good env provider profileId)) w in
     case updated of
       Some u \<Rightarrow> w1\<lparr> aw_store := (aw_store w1)\<lparr> as_lastGood := as_lastGood u \<rparr> \<rparr>
     | None \<Rightarrow> (case mark_good env provider profileId (aw_store w1) of
         None \<Rightarrow> w1
       | Some s \<Rightarrow> w1\<lparr> aw_store := s, aw_disk := s \<rparr>))"

section \<open>Merged stores\<close>

lemma mget_Cons: "mget (e # m) k = (if k = fst e then Some (snd e) else mget m k)"
  by (cases e) (simp add: mget_def)

lemma mget_spread: "mget (spread_maps l r) k = (case mget (rev r) k of Some v \<Rightarrow> Some v | None \<Rightarrow> mget l k)"
  by (induction r rule: rev_induct) (auto simp: spread_maps_def mget_Cons)

lemma spread_absent: "mget r k = None \<Longrightarrow> mget (spread_maps l r) k = mget l k"
proof -
  assume "mget r k = None"
  then have "mget (rev r) k = None" by (simp add: mget_None_iff)
  then show ?thesis by (simp add: mget_spread)
qed

text \<open>C32: A failure of an inherited profile is lost.  An agent other than the main one works with the main store and its own
  laid over it; a failure is recorded under the lock in its own store, which does not have a profile that only the main
  store has.  Nothing is then recorded on disk, and in memory the statistics are replaced by those of the agent's own
  store: the profile that just failed is not in cooldown, at any time and for any model.\<close>

theorem inherited_failure_lost:
  assumes "mget (as_profiles own) (fp_profileId p) = None" and "stats_of own (fp_profileId p) = None"
    and "mget (as_profiles main) (fp_profileId p) = Some c" and "\<not> isAuthCooldownBypassedForProvider (Some (cr_provider c))"
    and "w = \<lparr> aw_store = ensureAuthProfileStore (Some main) own, aw_disk = own \<rparr>"
  shows "aw_disk (markAuthProfileFailure True p answer probedAt now w) = own
    \<and> as_usageStats (aw_store (markAuthProfileFailure True p answer probedAt now w)) = as_usageStats own
    \<and> \<not> isProfileInCooldown (aw_store (markAuthProfileFailure True p answer probedAt now w)) (fp_profileId p) later forModel"
proof -
  let ?s = "ensureAuthProfileStore (Some main) own" and ?w = "markAuthProfileFailure True p answer probedAt now w"
  have "mget (as_profiles ?s) (fp_profileId p) = Some c"
    using assms(1,3) by (simp add: ensureAuthProfileStore_def mergeAuthProfileStores_def spread_absent)
  then have w: "?w = \<lparr> aw_store = take_usage ?s own, aw_disk = own \<rparr>"
    using assms by (simp add: markAuthProfileFailure_def updateAuthProfileStoreWithLock_def saving_def mark_failed_def Let_def)
  then show ?thesis using assms(2) by (simp add: isProfileInCooldown_def take_usage_def stats_of_def)
qed

definition own_store :: auth_store where
  "own_store = \<lparr> as_profiles = [(js ''q'', the (mget (as_profiles (aw_store one_profile)) (js ''p'')))], as_order = None, as_lastGood = None,
     as_usageStats = None \<rparr>"

lemma inherited_failure_lost_witness:
  "aw_disk (markAuthProfileFailure True rate_limited WhamNoAnswer 0 5000 \<lparr> aw_store = ensureAuthProfileStore (Some (aw_store one_profile)) own_store, aw_disk = own_store \<rparr>) = own_store
    \<and> as_usageStats (aw_store (markAuthProfileFailure True rate_limited WhamNoAnswer 0 5000 \<lparr> aw_store = ensureAuthProfileStore (Some (aw_store one_profile)) own_store, aw_disk = own_store \<rparr>)) = as_usageStats own_store
    \<and> \<not> isProfileInCooldown (aw_store (markAuthProfileFailure True rate_limited WhamNoAnswer 0 5000 \<lparr> aw_store = ensureAuthProfileStore (Some (aw_store one_profile)) own_store, aw_disk = own_store \<rparr>)) (fp_profileId rate_limited) 5000 None"
proof (rule inherited_failure_lost)
  show "mget (as_profiles own_store) (fp_profileId rate_limited) = None" by code_simp
  show "stats_of own_store (fp_profileId rate_limited) = None" by code_simp
  show "mget (as_profiles (aw_store one_profile)) (fp_profileId rate_limited) = Some (the (mget (as_profiles (aw_store one_profile)) (js ''p'')))" by code_simp
  show "\<not> isAuthCooldownBypassedForProvider (Some (cr_provider (the (mget (as_profiles (aw_store one_profile)) (js ''p'')))))" by code_simp
qed (rule refl)

end
