(* ===== verification/AuthOrder.thy ===== *)
theory AuthOrder
  imports AuthProfiles "HOL-Library.Multiset" "HOL-Library.Product_Lexorder"
begin

text \<open>
  Which credentials can be used, and in what order they are tried: \<open>src/src/agents/auth-profiles/credential-state.ts\<close> and
  \<open>order.ts\<close>.  The theorems say what the order is made of and that, used in turn, the profiles of a provider rotate.
\<close>

section \<open>Usable credentials\<close>

datatype eligibility_reason = EligibleOk | MissingCredential | InvalidExpires | ExpiredCredential | UnresolvedRef
  | ProfileMissing | ProviderMismatch | ModeMismatch

datatype expiry_state = ExpiryMissing | ExpiryValid | ExpiryExpiring | ExpiryExpired | ExpiryInvalid

definition DEFAULT_OAUTH_REFRESH_MARGIN_MS :: rat where "DEFAULT_OAUTH_REFRESH_MARGIN_MS = 5 * 60 * 1000"

definition resolveTokenExpiryState :: "jsnum option \<Rightarrow> rat \<Rightarrow> rat option \<Rightarrow> expiry_state" where
  "resolveTokenExpiryState expires now expiringWithinMs =
    (if expires = None then ExpiryMissing
     else (case positive_num expires of
       None \<Rightarrow> ExpiryInvalid
     | Some e \<Rightarrow>
        let remainingMs = e - now; margin = max 0 (case expiringWithinMs of Some m \<Rightarrow> m | None \<Rightarrow> 0) in
        if remainingMs \<le> 0 then ExpiryExpired
        else if 0 < margin \<and> remainingMs \<le> margin then ExpiryExpiring
        else ExpiryValid))"

definition normalizeSecretInputString :: "jsstr option \<Rightarrow> jsstr option" where
  "normalizeSecretInputString value = (case value of None \<Rightarrow> None | Some s \<Rightarrow> if trim s = [] then None else Some (trim s))"

definition hasConfiguredSecretString :: "jsstr option \<Rightarrow> bool" where
  "hasConfiguredSecretString value \<longleftrightarrow> normalizeSecretInputString value \<noteq> None"

definition hasUsableOAuthCredential :: "credential option \<Rightarrow> rat \<Rightarrow> rat option \<Rightarrow> bool" where
  "hasUsableOAuthCredential cred now refreshMarginMs \<longleftrightarrow> (case cred of
     None \<Rightarrow> False
   | Some c \<Rightarrow> cr_type c = OAuthType \<and> hasConfiguredSecretString (cr_access c)
      \<and> resolveTokenExpiryState (cr_expires c) now
          (Some (max 0 (case refreshMarginMs of Some m \<Rightarrow> m | None \<Rightarrow> DEFAULT_OAUTH_REFRESH_MARGIN_MS))) = ExpiryValid)"

definition evaluateStoredCredentialEligibility :: "credential \<Rightarrow> rat \<Rightarrow> bool \<times> eligibility_reason" where
  "evaluateStoredCredentialEligibility c now = (case cr_type c of
     ApiKeyType \<Rightarrow>
       if \<not> hasConfiguredSecretString (cr_key c) \<and> \<not> cr_keyRef c then (False, MissingCredential) else (True, EligibleOk)
   | TokenType \<Rightarrow>
       if \<not> hasConfiguredSecretString (cr_token c) \<and> \<not> cr_tokenRef c then (False, MissingCredential)
       else (case resolveTokenExpiryState (cr_expires c) now None of
          ExpiryInvalid \<Rightarrow> (False, InvalidExpires)
        | ExpiryExpired \<Rightarrow> (False, ExpiredCredential)
        | _ \<Rightarrow> (True, EligibleOk))
   | OAuthType \<Rightarrow>
       if normalizeSecretInputString (cr_access c) = None \<and> normalizeSecretInputString (cr_refresh c) = None
       then (False, MissingCredential) else (True, EligibleOk))"

section \<open>Usable profiles\<close>

definition configured_profile :: "auth_config option \<Rightarrow> jsstr \<Rightarrow> profile_config option" where
  "configured_profile cfg profileId = Option.bind (Option.bind cfg ac_profiles) (\<lambda>m. mget m profileId)"

definition resolveAuthProfileEligibility ::
    "provider_env \<Rightarrow> auth_config option \<Rightarrow> auth_store \<Rightarrow> jsstr \<Rightarrow> jsstr \<Rightarrow> rat \<Rightarrow> bool \<times> eligibility_reason" where
  "resolveAuthProfileEligibility env cfg store provider profileId now =
    (let providerAuthKey = resolveProviderIdForAuth env cfg provider in
     case mget (as_profiles store) profileId of
       None \<Rightarrow> (False, ProfileMissing)
     | Some cred \<Rightarrow>
        if resolveProviderIdForAuth env cfg (cr_provider cred) \<noteq> providerAuthKey then (False, ProviderMismatch)
        else (case configured_profile cfg profileId of
           None \<Rightarrow> evaluateStoredCredentialEligibility cred now
         | Some profileConfig \<Rightarrow>
            if resolveProviderIdForAuth env cfg (pf_provider profileConfig) \<noteq> providerAuthKey then (False, ProviderMismatch)
            else if pf_mode profileConfig \<noteq> cr_type cred \<and> \<not> (pf_mode profileConfig = OAuthType \<and> cr_type cred = TokenType)
            then (False, ModeMismatch)
            else evaluateStoredCredentialEligibility cred now))"

section \<open>The order\<close>

text \<open>A number as a key to sort by; what was read from a JSON file is never \<open>NaN\<close>.\<close>

definition num_key :: "jsnum option \<Rightarrow> int \<times> rat" where
  "num_key v = (case v of
     None \<Rightarrow> (0, 0)
   | Some (Fin r) \<Rightarrow> (0, r)
   | Some PosInf \<Rightarrow> (1, 0)
   | Some NegInf \<Rightarrow> (- 1, 0)
   | Some NaN \<Rightarrow> (0, 0))"

definition type_score :: "auth_store \<Rightarrow> jsstr \<Rightarrow> int" where
  "type_score store profileId = (case map_option cr_type (mget (as_profiles store) profileId) of
     Some OAuthType \<Rightarrow> 0 | Some TokenType \<Rightarrow> 1 | Some ApiKeyType \<Rightarrow> 2 | None \<Rightarrow> 3)"

definition last_used_key :: "auth_store \<Rightarrow> jsstr \<Rightarrow> int \<times> rat" where
  "last_used_key store profileId = num_key (Option.bind (stats_of store profileId) us_lastUsed)"

definition unusable_key :: "auth_store \<Rightarrow> rat \<Rightarrow> jsstr \<Rightarrow> rat" where
  "unusable_key store now profileId =
    (case Option.bind (stats_of store profileId) resolveProfileUnusableUntil of Some u \<Rightarrow> u | None \<Rightarrow> now)"

text \<open>\<open>clock\<close> is the time at which a profile is looked at.\<close>

definition cooling :: "auth_store \<Rightarrow> (jsstr \<Rightarrow> rat) \<Rightarrow> jsstr \<Rightarrow> bool" where
  "cooling store clock profileId \<longleftrightarrow> isProfileInCooldown store profileId (clock profileId) None"

definition orderProfilesByMode :: "auth_store \<Rightarrow> (jsstr \<Rightarrow> rat) \<Rightarrow> rat \<Rightarrow> jsstr list \<Rightarrow> jsstr list" where
  "orderProfilesByMode store clock now order =
    (let available = filter (\<lambda>i. \<not> cooling store clock i) order; inCooldown = filter (cooling store clock) order in
     sort_key (\<lambda>i. (type_score store i, last_used_key store i)) available @ sort_key (unusable_key store now) inCooldown)"

definition orderExplicit :: "auth_store \<Rightarrow> (jsstr \<Rightarrow> rat) \<Rightarrow> rat \<Rightarrow> jsstr list \<Rightarrow> jsstr list" where
  "orderExplicit store clock now order =
    (let available = filter (\<lambda>i. \<not> cooling store clock i) order; inCooldown = filter (cooling store clock) order in
     available @ sort_key (unusable_key store now) inCooldown)"

definition preferred_first :: "jsstr option \<Rightarrow> jsstr list \<Rightarrow> jsstr list" where
  "preferred_first preferredProfile ordered = (case preferredProfile of
     Some p \<Rightarrow> if p \<noteq> [] \<and> p \<in> set ordered then p # filter (\<lambda>e. e \<noteq> p) ordered else ordered
   | None \<Rightarrow> ordered)"

definition explicit_order :: "auth_config option \<Rightarrow> auth_store \<Rightarrow> jsstr \<Rightarrow> jsstr list option" where
  "explicit_order cfg store provider =
    (let providerKey = normalizeProviderId provider in
     case findNormalizedProviderValue (as_order store) providerKey of
       Some l \<Rightarrow> Some l
     | None \<Rightarrow> findNormalizedProviderValue (Option.bind cfg ac_order) providerKey)"

definition explicit_profiles :: "provider_env \<Rightarrow> auth_config option \<Rightarrow> jsstr \<Rightarrow> jsstr list" where
  "explicit_profiles env cfg provider = (case Option.bind cfg ac_profiles of
     None \<Rightarrow> []
   | Some m \<Rightarrow> map fst (filter (\<lambda>(i, p). resolveProviderIdForAuth env cfg (pf_provider p) = resolveProviderIdForAuth env cfg provider) m))"

definition base_order :: "provider_env \<Rightarrow> auth_config option \<Rightarrow> auth_store \<Rightarrow> jsstr \<Rightarrow> jsstr list" where
  "base_order env cfg store provider = (case explicit_order cfg store provider of
     Some l \<Rightarrow> l
   | None \<Rightarrow> if explicit_profiles env cfg provider \<noteq> [] then explicit_profiles env cfg provider else listProfilesForProvider env store provider)"

text \<open>The profiles that are tried, before they are put in order.\<close>

definition candidate_profiles :: "provider_env \<Rightarrow> auth_config option \<Rightarrow> auth_store \<Rightarrow> jsstr \<Rightarrow> rat \<Rightarrow> jsstr list" where
  "candidate_profiles env cfg store provider now =
    (let explicitProfiles = explicit_profiles env cfg provider;
         baseOrder = base_order env cfg store provider;
         isValidProfile = (\<lambda>i. fst (resolveAuthProfileEligibility env cfg store provider i now));
         filtered = filter isValidProfile baseOrder;
         allBaseProfilesMissing = list_all (\<lambda>i. mget (as_profiles store) i = None) baseOrder
     in if baseOrder = [] then []
        else dedupeProfileIds
          (if filtered = [] \<and> explicitProfiles \<noteq> [] \<and> allBaseProfilesMissing
           then filter isValidProfile (listProfilesForProvider env store provider) else filtered))"

definition resolveAuthProfileOrder ::
    "provider_env \<Rightarrow> (jsstr \<Rightarrow> rat) \<Rightarrow> rat \<Rightarrow> rat \<Rightarrow> auth_config option \<Rightarrow> jsstr \<Rightarrow> jsstr option \<Rightarrow> auth_store \<Rightarrow> jsstr list \<times> auth_store" where
  "resolveAuthProfileOrder env clock now sortNow cfg provider preferredProfile store0 =
    (let store = fst (clearExpiredCooldowns store0 now);
         deduped = candidate_profiles env cfg store provider now;
         explicitOrder = explicit_order cfg store provider
     in (preferred_first preferredProfile
           (if explicitOrder \<noteq> None \<and> explicitOrder \<noteq> Some [] then orderExplicit store clock now deduped
            else orderProfilesByMode store clock sortNow deduped), store))"

section \<open>What the order is made of\<close>

lemma dedupe_rec: "set (foldl sadd acc ids) = set acc \<union> set ids \<and> (distinct acc \<longrightarrow> distinct (foldl sadd acc ids))"
  by (induction ids arbitrary: acc) auto

lemma set_dedupe [simp]: "set (dedupeProfileIds ids) = set ids"
  and distinct_dedupe [simp]: "distinct (dedupeProfileIds ids)"
  using dedupe_rec [of "[]" ids] by (simp_all add: dedupeProfileIds_def)

lemma candidates_distinct: "distinct (candidate_profiles env cfg store provider now)"
  by (simp add: candidate_profiles_def Let_def)

lemma candidates_eligible:
  "i \<in> set (candidate_profiles env cfg store provider now) \<Longrightarrow> fst (resolveAuthProfileEligibility env cfg store provider i now)"
  by (auto simp: candidate_profiles_def Let_def split: if_splits)

lemma candidates_complete:
  assumes "fst (resolveAuthProfileEligibility env cfg store provider i now)"
    and "i \<in> set (base_order env cfg store provider)"
  shows "i \<in> set (candidate_profiles env cfg store provider now)"
proof -
  have "base_order env cfg store provider \<noteq> []" using assms(2) by auto
  moreover have "filter (\<lambda>i. fst (resolveAuthProfileEligibility env cfg store provider i now)) (base_order env cfg store provider) \<noteq> []"
    using assms by (auto simp: filter_empty_conv)
  ultimately show ?thesis using assms by (simp add: candidate_profiles_def Let_def)
qed

definition preferred_part :: "jsstr option \<Rightarrow> jsstr list \<Rightarrow> jsstr list" where
  "preferred_part preferred ids = (case preferred of None \<Rightarrow> [] | Some q \<Rightarrow> if q \<noteq> [] \<and> q \<in> set ids then [q] else [])"

lemma preferred_split:
  "preferred_first p xs = preferred_part p xs @ filter (\<lambda>i. i \<notin> set (preferred_part p xs)) xs" "set (preferred_part p xs) \<subseteq> set xs"
  "distinct (preferred_part p xs)"
  by (auto simp: preferred_first_def preferred_part_def split: option.split)

lemma preferred_part_cong: "set xs = set ys \<Longrightarrow> preferred_part p xs = preferred_part p ys"
  by (simp add: preferred_part_def split: option.split)

lemma cooling_key: "cooling store clock i \<Longrightarrow> unusable_key store t i = unusable_key store t' i"
  by (auto simp: cooling_def isProfileInCooldown_def stats_in_cooldown_def unusable_key_def split: if_splits option.splits)

text \<open>Both ways to put profiles in order: those that can be used, and then the others by the end of their window.\<close>

definition available_first :: "auth_store \<Rightarrow> (jsstr \<Rightarrow> rat) \<Rightarrow> jsstr list \<Rightarrow> jsstr list \<Rightarrow> jsstr list \<Rightarrow> bool" where
  "available_first store clock ids avail cool \<longleftrightarrow> ids = avail @ cool \<and> list_all (\<lambda>i. \<not> cooling store clock i) avail
     \<and> list_all (cooling store clock) cool \<and> sorted (map (unusable_key store 0) cool)"

lemma sorted_cooling:
  assumes "list_all (cooling store clock) xs"
  shows "sorted (map (unusable_key store 0) (sort_key (unusable_key store t) xs))"
proof -
  have eq: "map (unusable_key store 0) (sort_key (unusable_key store t) xs) = map (unusable_key store t) (sort_key (unusable_key store t) xs)"
    using assms by (auto simp: list_all_iff intro: cooling_key)
  show ?thesis unfolding eq by simp
qed

lemma order_by_mode:
  "\<exists>avail cool. available_first store clock (orderProfilesByMode store clock t xs) avail cool
     \<and> sorted (map (\<lambda>i. (type_score store i, last_used_key store i)) avail) \<and> set avail \<union> set cool = set xs"
  using sorted_cooling [of store clock "filter (cooling store clock) xs" t]
  by (intro exI [of _ "sort_key (\<lambda>i. (type_score store i, last_used_key store i)) (filter (\<lambda>i. \<not> cooling store clock i) xs)"]
      exI [of _ "sort_key (unusable_key store t) (filter (cooling store clock) xs)"])
     (auto simp: available_first_def orderProfilesByMode_def Let_def list_all_iff)

lemma order_explicitly:
  "\<exists>avail cool. available_first store clock (orderExplicit store clock t xs) avail cool \<and> set avail \<union> set cool = set xs"
  using sorted_cooling [of store clock "filter (cooling store clock) xs" t]
  by (intro exI [of _ "filter (\<lambda>i. \<not> cooling store clock i) xs"] exI [of _ "sort_key (unusable_key store t) (filter (cooling store clock) xs)"])
     (auto simp: available_first_def orderExplicit_def Let_def list_all_iff)

lemma distinct_orders: "distinct xs \<Longrightarrow> distinct (orderProfilesByMode store clock t xs) \<and> distinct (orderExplicit store clock t xs)"
  by (auto simp: orderProfilesByMode_def orderExplicit_def Let_def)

lemma available_first_filter:
  "available_first store clock ids avail cool \<Longrightarrow> available_first store clock (filter P ids) (filter P avail) (filter P cool)"
  by (auto simp: available_first_def list_all_iff intro: sorted_filter)

text \<open>C29: The order in which profiles are tried.  It has no duplicates; every profile in it is one that can be used for the
  provider, and every such profile that the order of the store, the configuration or the store names is in it.  A preferred
  profile that is in it comes first; then every profile that is not in cooldown comes before every one that is, and those are
  in the order in which their windows end.\<close>

theorem profile_order_sound:
  "let (ids, store) = resolveAuthProfileOrder env clock now sortNow cfg provider preferred store0;
       eligible = {i. fst (resolveAuthProfileEligibility env cfg store provider i now)}
   in distinct ids \<and> set ids \<subseteq> eligible \<and> set (base_order env cfg store provider) \<inter> eligible \<subseteq> set ids
     \<and> (\<exists>avail cool rest. ids = preferred_part preferred ids @ rest \<and> available_first store clock rest avail cool)"
proof -
  let ?st = "fst (clearExpiredCooldowns store0 now)" and ?r = "resolveAuthProfileOrder env clock now sortNow cfg provider preferred store0"
  let ?ids = "fst ?r" and ?c = "candidate_profiles env cfg ?st provider now"
  obtain xs where xs: "?ids = preferred_first preferred xs" "distinct xs" "set xs = set ?c"
    and av: "\<exists>avail cool. available_first ?st clock xs avail cool"
  proof (cases "explicit_order cfg ?st provider \<noteq> None \<and> explicit_order cfg ?st provider \<noteq> Some []")
    case True
    obtain avail cool where a: "available_first ?st clock (orderExplicit ?st clock now ?c) avail cool" "set avail \<union> set cool = set ?c"
      using order_explicitly by blast
    moreover have "set (orderExplicit ?st clock now ?c) = set ?c" using a by (auto simp: available_first_def)
    ultimately show ?thesis using True candidates_distinct distinct_orders
      by (intro that [of "orderExplicit ?st clock now ?c"]) (auto simp: resolveAuthProfileOrder_def Let_def)
  next
    case False
    obtain avail cool where a: "available_first ?st clock (orderProfilesByMode ?st clock sortNow ?c) avail cool" "set avail \<union> set cool = set ?c"
      using order_by_mode by blast
    moreover have "set (orderProfilesByMode ?st clock sortNow ?c) = set ?c" using a by (auto simp: available_first_def)
    ultimately show ?thesis using False candidates_distinct distinct_orders
      by (intro that [of "orderProfilesByMode ?st clock sortNow ?c"]) (auto simp: resolveAuthProfileOrder_def Let_def)
  qed
  let ?p = "preferred_part preferred xs"
  have ids: "?ids = ?p @ filter (\<lambda>i. i \<notin> set ?p) xs" using xs(1) preferred_split(1) by simp
  then have set_ids: "set ?ids = set ?c" using xs(3) preferred_split(2) [of preferred xs] by auto
  have "distinct ?ids" unfolding ids using xs(2) preferred_split(3) by auto
  moreover have "\<exists>avail cool rest. ?ids = preferred_part preferred ?ids @ rest \<and> available_first ?st clock rest avail cool"
    using av available_first_filter [of ?st clock xs _ _ "\<lambda>i. i \<notin> set ?p"] ids preferred_part_cong [of ?ids xs preferred] set_ids xs(3) by metis
  moreover have "set ?ids \<subseteq> {i. fst (resolveAuthProfileEligibility env cfg ?st provider i now)}"
    "set (base_order env cfg ?st provider) \<inter> {i. fst (resolveAuthProfileEligibility env cfg ?st provider i now)} \<subseteq> set ?ids"
    using candidates_eligible candidates_complete set_ids by auto
  moreover have "snd ?r = ?st" by (simp add: resolveAuthProfileOrder_def Let_def)
  ultimately show ?thesis unfolding case_prod_unfold Let_def by simp
qed

section \<open>Profiles rotate\<close>

text \<open>When the first of a sorted list gets a key above all others, it moves to the end.\<close>

lemma sort_key_rotate:
  fixes f f' :: "'a \<Rightarrow> 'b :: linorder"
  assumes d: "distinct xs" and h: "sort_key f xs = h # ys"
    and same: "\<And>x. x \<in> set xs \<Longrightarrow> x \<noteq> h \<Longrightarrow> f' x = f x" and last: "\<And>x. x \<in> set xs \<Longrightarrow> f x < f' h"
  shows "sort_key f' xs = ys @ [h]"
proof (rule properties_for_sort_key)
  have ms: "mset xs = mset (h # ys)" using h by (metis mset_sort)
  then show "mset (ys @ [h]) = mset xs" by simp
  have s: "set xs = insert h (set ys)" using h by (metis set_sort list.set(2))
  have dy: "h \<notin> set ys" "distinct ys" using h d by (metis distinct_sort distinct.simps(2))+
  have so: "sorted (map f (h # ys))" using h by (metis sorted_sort_key)
  have eq: "map f' ys = map f ys" using same s dy by auto
  have lt: "f' x < f' h" if "x \<in> set ys" for x
  proof -
    have "f' x = f x" using that same s dy by auto
    then show ?thesis using last [of x] that s by auto
  qed
  have ne: "\<And>x. x \<in> set ys \<Longrightarrow> f' h \<noteq> f' x" using lt by force
  have hx: "h \<in> set xs" using s by simp
  have eqy: "\<And>x. x \<in> set ys \<Longrightarrow> f' x = f x" using eq by simp
  show "sorted (map f' (ys @ [h]))" using so last s by (auto simp: sorted_append eq less_imp_le)
  fix k assume k: "k \<in> set (ys @ [h])"
  show "filter (\<lambda>x. f' k = f' x) (ys @ [h]) = filter (\<lambda>x. f' k = f' x) xs"
  proof (cases "k = h")
    case True
    have "filter (\<lambda>x. f' h = f' x) xs = filter (\<lambda>x. h = x) xs"
      using ne s by (intro filter_cong) auto
    also have "\<dots> = [h]" using d hx by (induction xs) (auto simp: filter_empty_conv)
    also have "\<dots> = filter (\<lambda>x. f' h = f' x) (ys @ [h])" using ne by (auto simp: filter_empty_conv)
    finally show ?thesis using True by simp
  next
    case False
    then have ky: "k \<in> set ys" using k by simp
    have "filter (\<lambda>x. f' k = f' x) xs = filter (\<lambda>x. x \<noteq> h) (filter (\<lambda>x. f k = f x) xs)"
      using lt [OF ky] eqy s ky False by (auto simp: filter_filter intro!: filter_cong)
    also have "filter (\<lambda>x. f k = f x) xs = filter (\<lambda>x. f k = f x) (h # ys)"
      using sort_key_stable [of f "f k" xs] unfolding h by (simp add: eq_commute)
    also have "filter (\<lambda>x. x \<noteq> h) \<dots> = filter (\<lambda>x. f k = f x) ys"
      using dy by (auto simp: filter_filter intro!: filter_cong)
    also have "\<dots> = filter (\<lambda>x. f' k = f' x) (ys @ [h])"
      using lt [OF ky] eqy ky by (auto intro!: filter_cong)
    finally show ?thesis by simp
  qed
qed

lemma clear_stats_of [simp]:
  "stats_of (fst (clearExpiredCooldowns store t)) i = map_option (clear_expired_stats t) (stats_of store i)"
  by (auto simp: clearExpiredCooldowns_def stats_of_def mget_def map_of_map split: option.split)

lemma clear_keeps [simp]:
  "as_profiles (fst (clearExpiredCooldowns store t)) = as_profiles store" "as_order (fst (clearExpiredCooldowns store t)) = as_order store"
  by (simp_all add: clearExpiredCooldowns_def split: option.split)

lemma update_keeps [simp]: "as_order (updateUsageStatsEntry store i f) = as_order store"
  by (simp add: updateUsageStatsEntry_def Let_def)

text \<open>Eligibility does not look at the statistics.\<close>

lemma candidates_cong:
  assumes "as_profiles store = as_profiles store'" and "as_order store = as_order store'"
  shows "candidate_profiles env cfg store provider now = candidate_profiles env cfg store' provider now"
  unfolding candidate_profiles_def resolveAuthProfileEligibility_def base_order_def explicit_order_def listProfilesForProvider_def assms by (rule refl)

lemma last_used_cleared [simp]: "last_used_key (fst (clearExpiredCooldowns store t)) i = last_used_key store i"
  by (cases "stats_of store i") (simp_all add: last_used_key_def clear_fields)

lemma type_score_cleared [simp]: "type_score (fst (clearExpiredCooldowns store t)) i = type_score store i"
  by (simp add: type_score_def)

lemma stays_free:
  assumes "\<not> isProfileInCooldown store i t None" and "t \<le> t'"
  shows "\<not> isProfileInCooldown (fst (clearExpiredCooldowns store c)) i t' None"
proof -
  have fresh: "stats_in_cooldown (clear_expired_stats c s) t' None \<Longrightarrow> stats_in_cooldown s t None" for s
    using assms(2) by (auto simp: in_cooldown_iff shouldBypassModelScopedCooldown_def some_model_def clear_fields
        isActiveUnusableWindow_def split: if_splits option.splits)
  show ?thesis using assms(1) fresh by (auto simp: isProfileInCooldown_def profile_provider_def split: option.splits if_splits)
qed

lemma later_free: "\<not> isProfileInCooldown store i t None \<Longrightarrow> t \<le> t' \<Longrightarrow> \<not> isProfileInCooldown store i t' None"
  by (auto simp: isProfileInCooldown_def stats_in_cooldown_def shouldBypassModelScopedCooldown_def some_model_def split: option.splits if_splits)

text \<open>A turn: the profiles are put in order, the first one is used, and that is recorded, with the lock or without it.\<close>

definition take_turn :: "provider_env \<Rightarrow> auth_config option \<Rightarrow> jsstr \<Rightarrow> auth_world \<Rightarrow> rat \<times> bool \<Rightarrow> auth_world \<times> jsstr list" where
  "take_turn env cfg provider w turn =
    (let (ids, store) = resolveAuthProfileOrder env (\<lambda>i. fst turn) (fst turn) (fst turn) cfg provider None (aw_store w)
     in (markAuthProfileUsed (snd turn) (hd ids) (fst turn) (w\<lparr> aw_store := store \<rparr>), [hd ids]))"

text \<open>The profiles \<open>ids\<close> are of one type, were last used before \<open>t\<close>, and are not in cooldown at \<open>t\<close>, in memory and on disk.\<close>

definition at_rest :: "jsstr list \<Rightarrow> int \<Rightarrow> rat \<Rightarrow> auth_world \<Rightarrow> bool" where
  "at_rest ids score t w \<longleftrightarrow> as_profiles (aw_disk w) = as_profiles (aw_store w)
    \<and> list_all (\<lambda>i. mget (as_profiles (aw_store w)) i \<noteq> None \<and> type_score (aw_store w) i = score
        \<and> last_used_key (aw_disk w) i = last_used_key (aw_store w) i \<and> last_used_key (aw_store w) i < (0, t)
        \<and> \<not> isProfileInCooldown (aw_store w) i t None \<and> \<not> isProfileInCooldown (aw_disk w) i t None) ids"

abbreviation turn_key :: "auth_store \<Rightarrow> jsstr \<Rightarrow> int \<times> int \<times> rat" where
  "turn_key store i \<equiv> (type_score store i, last_used_key store i)"

lemma order_at_rest:
  assumes "at_rest ids score t w" and "candidate_profiles env cfg (aw_store w) provider t = ids"
    and "explicit_order cfg (aw_store w) provider \<in> {None, Some []}"
  shows "resolveAuthProfileOrder env (\<lambda>i. t) t t cfg provider None (aw_store w)
    = (sort_key (turn_key (aw_store w)) ids, fst (clearExpiredCooldowns (aw_store w) t))"
proof -
  let ?s = "fst (clearExpiredCooldowns (aw_store w) t)"
  have "candidate_profiles env cfg ?s provider t = ids"
    using candidates_cong [of ?s "aw_store w"] assms(2) by simp
  moreover have "explicit_order cfg ?s provider = explicit_order cfg (aw_store w) provider" by (simp add: explicit_order_def)
  moreover have "list_all (\<lambda>i. \<not> cooling ?s (\<lambda>i. t) i) ids"
    using assms(1) stays_free [of "aw_store w" _ t t t] by (auto simp: at_rest_def list_all_iff cooling_def)
  then have "filter (\<lambda>i. \<not> cooling ?s (\<lambda>i. t) i) ids = ids" "filter (cooling ?s (\<lambda>i. t)) ids = []"
    by (auto simp: list_all_iff filter_empty_conv)
  ultimately show ?thesis using assms(3)
    by (auto simp: resolveAuthProfileOrder_def preferred_first_def orderProfilesByMode_def Let_def)
qed

text \<open>What using a profile does to a store.\<close>

definition used :: "jsstr \<Rightarrow> rat \<Rightarrow> auth_store \<Rightarrow> auth_store" where
  "used h t store = updateUsageStatsEntry store h (\<lambda>e. (resetUsageStats e)\<lparr> us_lastUsed := Some (Fin t) \<rparr>)"

lemma reset_free: "\<not> stats_in_cooldown ((resetUsageStats e)\<lparr> us_lastUsed := x \<rparr>) t m"
  by (simp add: in_cooldown_iff resetUsageStats_def isActiveUnusableWindow_def)

lemma used_facts:
  "as_profiles (used h t store) = as_profiles store" "as_order (used h t store) = as_order store"
  "stats_of (used h t store) i = (if i = h then Some ((resetUsageStats (stats_of store h))\<lparr> us_lastUsed := Some (Fin t) \<rparr>) else stats_of store i)"
  "last_used_key (used h t store) i = (if i = h then (0, t) else last_used_key store i)"
  by (simp_all add: used_def last_used_key_def num_key_def)

lemma used_free: "\<not> isProfileInCooldown store i t' m \<Longrightarrow> \<not> isProfileInCooldown (used h t store) i t' m"
  by (auto simp: isProfileInCooldown_def profile_provider_def used_facts reset_free)

lemma mark_used_world:
  assumes "as_profiles (aw_disk w) = as_profiles (aw_store w)" and "mget (as_profiles (aw_store w)) h \<noteq> None"
  shows "markAuthProfileUsed locked h t w =
    (if locked then \<lparr> aw_store = take_usage (aw_store w) (used h t (aw_disk w)), aw_disk = used h t (aw_disk w) \<rparr>
     else \<lparr> aw_store = used h t (aw_store w), aw_disk = used h t (aw_store w) \<rparr>)"
proof -
  obtain c where "mget (as_profiles (aw_store w)) h = Some c" using assms(2) by blast
  then show ?thesis using assms(1)
    by (cases w) (simp add: markAuthProfileUsed_def locked_update_def updateAuthProfileStoreWithLock_def saving_def mark_used_def used_def Let_def)
qed

lemma in_cooldown_take_usage:
  "as_profiles s = as_profiles u \<Longrightarrow> isProfileInCooldown (take_usage s u) i t m = isProfileInCooldown u i t m"
  by (simp add: isProfileInCooldown_def profile_provider_def)

lemma last_used_take_usage: "last_used_key (take_usage s u) i = last_used_key u i"
  by (simp add: last_used_key_def)

lemma type_score_cong: "as_profiles s = as_profiles s' \<Longrightarrow> type_score s = type_score s'"
  by (simp add: type_score_def fun_eq_iff)

text \<open>One turn: the first profile is used, the others are at rest as before, and the order rotates.\<close>

lemma turn_rotates:
  assumes r: "at_rest ids score t w" and c: "candidate_profiles env cfg (aw_store w) provider t = ids"
    and e: "explicit_order cfg (aw_store w) provider \<in> {None, Some []}" and n: "ids \<noteq> []" and d: "distinct ids"
    and w': "take_turn env cfg provider w (t, locked) = (w', es)"
  shows "es = [hd (sort_key (turn_key (aw_store w)) ids)]
    \<and> sort_key (turn_key (aw_store w')) ids = rotate1 (sort_key (turn_key (aw_store w)) ids)
    \<and> as_profiles (aw_store w') = as_profiles (aw_store w) \<and> as_order (aw_store w') = as_order (aw_store w)
    \<and> (\<forall>t'. t < t' \<longrightarrow> at_rest ids score t' w')"
proof -
  let ?s = "fst (clearExpiredCooldowns (aw_store w) t)" and ?key = "turn_key (aw_store w)"
  obtain h ys where h: "sort_key ?key ids = h # ys" using n by (metis list.exhaust length_0_conv length_sort)
  have hi: "h \<in> set ids" using h by (metis list.set_intros(1) set_sort)
  have rest: "\<And>i. i \<in> set ids \<Longrightarrow> mget (as_profiles (aw_store w)) i \<noteq> None \<and> type_score (aw_store w) i = score
      \<and> last_used_key (aw_disk w) i = last_used_key (aw_store w) i \<and> last_used_key (aw_store w) i < (0, t)
      \<and> \<not> isProfileInCooldown (aw_store w) i t None \<and> \<not> isProfileInCooldown (aw_disk w) i t None"
    and profiles: "as_profiles (aw_disk w) = as_profiles (aw_store w)"
    using r by (simp_all add: at_rest_def list_all_iff)
  have turn: "es = [h]" "w' = markAuthProfileUsed locked h t (w\<lparr> aw_store := ?s \<rparr>)"
    using w' order_at_rest [OF r c e] h by (simp_all add: take_turn_def)
  have w2: "w' = (if locked then \<lparr> aw_store = take_usage ?s (used h t (aw_disk w)), aw_disk = used h t (aw_disk w) \<rparr>
      else \<lparr> aw_store = used h t ?s, aw_disk = used h t ?s \<rparr>)"
    using turn(2) mark_used_world [of "w\<lparr> aw_store := ?s \<rparr>" h locked t] rest [OF hi] profiles by simp
  have same: "as_profiles (aw_store w') = as_profiles (aw_store w)" "as_order (aw_store w') = as_order (aw_store w)"
    by (simp_all add: w2 used_facts take_usage_def)
  have key: "last_used_key (aw_store w') i = (if i = h then (0, t) else last_used_key (aw_store w) i)" if "i \<in> set ids" for i
    using rest [OF that] by (simp add: w2 used_facts last_used_take_usage)
  have score: "type_score (aw_store w') = type_score (aw_store w)" using same(1) by (rule type_score_cong)
  have "sort_key (turn_key (aw_store w')) ids = ys @ [h]"
  proof (rule sort_key_rotate [OF d h])
    fix x assume x: "x \<in> set ids"
    show "x \<noteq> h \<Longrightarrow> turn_key (aw_store w') x = ?key x" using key [OF x] score by simp
    show "?key x < turn_key (aw_store w') h" using key [OF hi] score rest [OF x] rest [OF hi] by simp
  qed
  moreover have "at_rest ids score t' w'" if t: "t < t'" for t'
  proof -
    have disk: "as_profiles (aw_disk w') = as_profiles (aw_store w')" using profiles by (simp add: w2 used_facts take_usage_def)
    have one: "last_used_key (aw_disk w') i = last_used_key (aw_store w') i \<and> last_used_key (aw_store w') i < (0, t')
        \<and> \<not> isProfileInCooldown (aw_store w') i t' None \<and> \<not> isProfileInCooldown (aw_disk w') i t' None" if i: "i \<in> set ids" for i
    proof -
      have "last_used_key (aw_store w') i < (0, t')" using key [OF i] rest [OF i] t by (auto simp: less_prod_def')
      moreover have "last_used_key (aw_disk w') i = last_used_key (aw_store w') i" by (simp add: w2 last_used_take_usage)
      moreover have "\<not> isProfileInCooldown (aw_disk w') i t' None"
        using rest [OF i] t stays_free [of "aw_store w" i t t' t] later_free [of "aw_disk w" i t t'] used_free by (simp add: w2)
      moreover have "isProfileInCooldown (aw_store w') i t' None = isProfileInCooldown (aw_disk w') i t' None"
        using profiles by (simp add: w2 in_cooldown_take_usage used_facts)
      ultimately show ?thesis by simp
    qed
    show ?thesis using disk one rest score same(1) by (simp add: at_rest_def list_all_iff)
  qed
  ultimately show ?thesis using turn(1) h same by simp
qed

text \<open>C27: The profiles of a provider rotate.  If no order is configured, and the profiles are of one type and not in cooldown,
  then in any sequence of turns at increasing times, each with the lock or without it, the profiles are used in the order
  that holds at the start, over and over: as long as none fails, none waits longer than the others have had one turn each.\<close>

theorem round_robin:
  assumes "at_rest ids score (fst (hd turns)) w" and "list_all (\<lambda>(t, locked). candidate_profiles env cfg (aw_store w) provider t = ids) turns"
    and "explicit_order cfg (aw_store w) provider \<in> {None, Some []}" and "sorted_wrt (\<lambda>a b. fst a < fst b) turns" and "distinct ids" and "ids \<noteq> []"
  shows "snd (run_ops (take_turn env cfg provider) w turns)
    = map (\<lambda>k. sort_key (turn_key (aw_store w)) ids ! (k mod length ids)) [0..<length turns]"
  using assms
proof (induction turns arbitrary: w)
  case Nil
  then show ?case by simp
next
  case (Cons turn turns)
  obtain t locked where turn: "turn = (t, locked)" by (cases turn)
  obtain w' es where w': "take_turn env cfg provider w turn = (w', es)" by (cases "take_turn env cfg provider w turn")
  let ?o = "sort_key (turn_key (aw_store w)) ids"
  have step: "es = [hd ?o]" "sort_key (turn_key (aw_store w')) ids = rotate1 ?o" "as_profiles (aw_store w') = as_profiles (aw_store w)"
      "as_order (aw_store w') = as_order (aw_store w)" "\<And>t'. t < t' \<Longrightarrow> at_rest ids score t' w'"
    using turn_rotates [of ids score t w env cfg provider locked w' es] Cons.prems w' turn by auto
  have "snd (run_ops (take_turn env cfg provider) w' turns) = map (\<lambda>k. rotate1 ?o ! (k mod length ids)) [0..<length turns]"
  proof (cases turns)
    case (Cons next_turn more)
    have "candidate_profiles env cfg (aw_store w') provider = candidate_profiles env cfg (aw_store w) provider"
      using candidates_cong step(3,4) by (intro ext) blast
    moreover have "explicit_order cfg (aw_store w') provider = explicit_order cfg (aw_store w) provider"
      using step(4) by (simp add: explicit_order_def)
    moreover have "at_rest ids score (fst (hd turns)) w'" using Cons.prems(4) turn Cons step(5) by simp
    ultimately show ?thesis using Cons.IH [of w'] Cons.prems step(2) by simp
  qed simp
  moreover have "rotate1 ?o ! (k mod length ids) = ?o ! (Suc k mod length ids)" for k
    using Cons.prems(6) by (simp add: nth_rotate1 mod_Suc_eq)
  ultimately have later: "snd (run_ops (take_turn env cfg provider) w' turns) = map (\<lambda>k. ?o ! (Suc k mod length ids)) [0..<length turns]"
    by (simp only:)
  have "length ?o = length ids" by (rule length_sort)
  then have "?o \<noteq> []" using Cons.prems(6) by (intro notI) simp
  then have first: "hd ?o = ?o ! (0 mod length ids)" unfolding mod_0 by (rule hd_conv_nth)
  have upt: "[0..<length (turn # turns)] = 0 # map Suc [0..<length turns]" by (simp add: upt_conv_Cons map_Suc_upt del: upt_Suc)
  show ?case unfolding upt list.map map_map comp_def later [symmetric] first [symmetric] run_ops.simps using w' step(1)
    by (simp add: case_prod_unfold Let_def)
qed

definition plain_env :: provider_env where
  "plain_env = \<lparr> pe_collate = (\<lambda>s. 0), pe_registry = (\<lambda>cfg. []) \<rparr>"

definition two_keys :: auth_world where
  "two_keys = (let key = the (mget (as_profiles (aw_store one_profile)) (js ''p''));
     store = put_profile (js ''a'') key (put_profile (js ''b'') key \<lparr> as_profiles = [], as_order = None, as_lastGood = None, as_usageStats = None \<rparr>)
   in \<lparr> aw_store = store, aw_disk = store \<rparr>)"

definition three_turns :: "(rat \<times> bool) list" where
  "three_turns = [(1000, True), (2000, False), (3000, True)]"

lemma two_keys_candidates: "list_all (\<lambda>(t, locked). candidate_profiles plain_env None (aw_store two_keys) (js ''anthropic'') t = [js ''b'', js ''a'']) three_turns"
  by code_simp

lemma two_keys_rest: "at_rest [js ''b'', js ''a''] 2 (fst (hd three_turns)) two_keys"
  by code_simp

lemma two_keys_order: "sort_key (turn_key (aw_store two_keys)) [js ''b'', js ''a''] = [js ''b'', js ''a'']"
  by code_simp

lemma round_robin_witness:
  "snd (run_ops (take_turn plain_env None (js ''anthropic'')) two_keys three_turns) = [js ''b'', js ''a'', js ''b'']"
proof -
  have "explicit_order None (aw_store two_keys) (js ''anthropic'') \<in> {None, Some []}" by code_simp
  then have "snd (run_ops (take_turn plain_env None (js ''anthropic'')) two_keys three_turns)
      = map (\<lambda>k. sort_key (turn_key (aw_store two_keys)) [js ''b'', js ''a''] ! (k mod length [js ''b'', js ''a''])) [0..<length three_turns]"
    by (rule round_robin [OF two_keys_rest two_keys_candidates]) (simp_all add: three_turns_def js_def)
  then show ?thesis unfolding two_keys_order by (simp add: three_turns_def upt_rec)
qed

end
