(* ===== verification/SessionOverride.thy ===== *)
theory SessionOverride
  imports AuthOrder
begin

text \<open>
  Which credential a session sticks to: \<open>src/src/agents/auth-profiles/session-override.ts\<close>.  The theorems say what is
  chosen and written down, and for which providers a choice is not kept.
\<close>

section \<open>The session and its stores\<close>

datatype override_source = OverrideAuto | OverrideUser

text \<open>The fields of a session entry that are read or written here.\<close>

record session_entry =
  se_authProfileOverride :: "jsstr option"
  se_authProfileOverrideSource :: "override_source option"
  se_authProfileOverrideCompactionCount :: "int option"
  se_compactionCount :: "int option"
  se_updatedAt :: rat

text \<open>The entry, the map of sessions in memory, and the map in the file (used if there is a path to it).\<close>

record session_world =
  sw_entry :: "session_entry option"
  sw_sessions :: "(jsstr, session_entry) jsmap option"
  sw_file :: "(jsstr, session_entry) jsmap"

definition isProfileForProvider :: "jsstr \<Rightarrow> jsstr \<Rightarrow> auth_store \<Rightarrow> bool" where
  "isProfileForProvider provider profileId store \<longleftrightarrow> (case mget (as_profiles store) profileId of
     None \<Rightarrow> False
   | Some entry \<Rightarrow> cr_provider entry \<noteq> [] \<and> normalizeProviderId (cr_provider entry) = normalizeProviderId provider)"

text \<open>The entry is stored in memory and, if there is a path, in the file.\<close>

definition store_entry :: "bool \<Rightarrow> jsstr \<Rightarrow> session_entry \<Rightarrow> session_world \<Rightarrow> session_world" where
  "store_entry storePath sessionKey e w = w\<lparr> sw_entry := Some e, sw_sessions := map_option (\<lambda>m. mput m sessionKey e) (sw_sessions w),
     sw_file := (if storePath then mput (sw_file w) sessionKey e else sw_file w) \<rparr>"

definition cleared_entry :: "rat \<Rightarrow> session_entry \<Rightarrow> session_entry" where
  "cleared_entry now e = e\<lparr> se_authProfileOverride := None, se_authProfileOverrideSource := None,
     se_authProfileOverrideCompactionCount := None, se_updatedAt := now \<rparr>"

definition clearSessionAuthProfileOverride :: "bool \<Rightarrow> jsstr \<Rightarrow> rat \<Rightarrow> session_entry \<Rightarrow> session_world \<Rightarrow> session_world" where
  "clearSessionAuthProfileOverride storePath sessionKey now e =
    store_entry storePath sessionKey (cleared_entry now e)"

section \<open>Picking a profile\<close>

definition pickFirstAvailable :: "auth_store \<Rightarrow> (jsstr \<Rightarrow> rat) \<Rightarrow> jsstr list \<Rightarrow> jsstr" where
  "pickFirstAvailable store clock order = (case find (\<lambda>i. \<not> cooling store clock i) order of Some i \<Rightarrow> i | None \<Rightarrow> hd order)"

fun index_of :: "'a list \<Rightarrow> 'a \<Rightarrow> nat option" where
  "index_of [] x = None"
| "index_of (y # ys) x = (if y = x then Some 0 else map_option Suc (index_of ys x))"

definition pickNextAvailable :: "auth_store \<Rightarrow> (jsstr \<Rightarrow> rat) \<Rightarrow> jsstr list \<Rightarrow> jsstr \<Rightarrow> jsstr" where
  "pickNextAvailable store clock order active = (case index_of order active of
     None \<Rightarrow> pickFirstAvailable store clock order
   | Some startIndex \<Rightarrow>
      (case find (\<lambda>i. \<not> cooling store clock i) (map (\<lambda>offset. order ! ((startIndex + offset) mod length order)) [1..<Suc (length order)]) of
         Some candidate \<Rightarrow> candidate
       | None \<Rightarrow> order ! startIndex))"

text \<open>A string that is not empty, as a condition.\<close>

definition truthy_str :: "jsstr option \<Rightarrow> jsstr option" where
  "truthy_str v = (case v of Some s \<Rightarrow> if s = [] then None else Some s | None \<Rightarrow> None)"

text \<open>The times at which the steps of a call look at the clock.\<close>

record override_times =
  ot_order :: "jsstr \<Rightarrow> rat"
  ot_now :: rat
  ot_sort :: rat
  ot_pick :: "jsstr \<Rightarrow> rat"
  ot_clear :: rat
  ot_save :: rat

record override_params =
  op_cfg :: "auth_config option"
  op_provider :: jsstr
  op_sessionKey :: jsstr
  op_storePath :: bool
  op_isNewSession :: bool
  op_anySource :: bool
  op_store :: auth_store

definition hasConfiguredAuthProfiles :: "auth_config option \<Rightarrow> bool" where
  "hasConfiguredAuthProfiles cfg \<longleftrightarrow> Option.bind cfg ac_profiles \<notin> {None, Some []} \<or> Option.bind cfg ac_order \<notin> {None, Some []}"

definition override_source_of :: "session_entry \<Rightarrow> jsstr option \<Rightarrow> override_source option" where
  "override_source_of e current = (case se_authProfileOverrideSource e of
     Some s \<Rightarrow> Some s
   | None \<Rightarrow> if se_authProfileOverrideCompactionCount e \<noteq> None then Some OverrideAuto else if current \<noteq> None then Some OverrideUser else None)"

text \<open>Whether the profile that the session has is dropped.\<close>

definition drops_current :: "auth_store \<Rightarrow> jsstr \<Rightarrow> jsstr list \<Rightarrow> override_source option \<Rightarrow> jsstr \<Rightarrow> bool" where
  "drops_current store provider order source current \<longleftrightarrow> mget (as_profiles store) current = None
     \<or> \<not> isProfileForProvider provider current store
     \<or> (order \<noteq> [] \<and> current \<notin> set order \<and> source \<noteq> Some OverrideUser)"

definition next_profile :: "auth_store \<Rightarrow> (jsstr \<Rightarrow> rat) \<Rightarrow> jsstr list \<Rightarrow> bool \<Rightarrow> int \<Rightarrow> int \<Rightarrow> jsstr option \<Rightarrow> jsstr" where
  "next_profile store clock order isNewSession compactionCount storedCompaction current = (case current of
     None \<Rightarrow> pickFirstAvailable store clock order
   | Some c \<Rightarrow>
      if isNewSession then pickNextAvailable store clock order c
      else if storedCompaction < compactionCount then pickNextAvailable store clock order c
      else if cooling store clock c then pickFirstAvailable store clock order
      else c)"

text \<open>The second half of the call, when the profile that the session has was dropped or is \<open>current\<close>.\<close>

definition choose_override ::
    "override_times \<Rightarrow> override_params \<Rightarrow> auth_store \<Rightarrow> jsstr list \<Rightarrow> override_source option \<Rightarrow> jsstr option \<Rightarrow> session_entry \<Rightarrow> session_world \<Rightarrow> jsstr option \<times> session_world" where
  "choose_override ts p store order source current e w =
    (if order = [] then (None, w)
     else (let compactionCount = (case se_compactionCount e of Some n \<Rightarrow> n | None \<Rightarrow> 0);
          storedCompaction = (case se_authProfileOverrideCompactionCount e of Some n \<Rightarrow> n | None \<Rightarrow> compactionCount)
        in if source = Some OverrideUser \<and> current \<noteq> None \<and> \<not> op_isNewSession p then (current, w)
           else (let next = next_profile store (ot_pick ts) order (op_isNewSession p) compactionCount storedCompaction current in
             if next = [] then (current, w)
             else (Some next,
               if se_authProfileOverride e \<noteq> Some next \<or> se_authProfileOverrideSource e \<noteq> Some OverrideAuto
                  \<or> se_authProfileOverrideCompactionCount e \<noteq> Some compactionCount
               then store_entry (op_storePath p) (op_sessionKey p)
                 (e\<lparr> se_authProfileOverride := Some next, se_authProfileOverrideSource := Some OverrideAuto,
                   se_authProfileOverrideCompactionCount := Some compactionCount, se_updatedAt := ot_save ts \<rparr>) w
               else w))))"

definition resolveSessionAuthProfileOverride ::
    "provider_env \<Rightarrow> override_times \<Rightarrow> override_params \<Rightarrow> session_world \<Rightarrow> jsstr option \<times> session_world" where
  "resolveSessionAuthProfileOverride env ts p w = (case (sw_entry w, sw_sessions w) of
     (None, _) \<Rightarrow> (None, w)
   | (Some e, None) \<Rightarrow> (se_authProfileOverride e, w)
   | (Some e, Some _) \<Rightarrow>
      if op_sessionKey p = [] then (se_authProfileOverride e, w)
      else (let held = truthy_str (map_option trim (se_authProfileOverride e)) in
        if held = None \<and> \<not> hasConfiguredAuthProfiles (op_cfg p) \<and> \<not> op_anySource p then (None, w)
        else (let (order, store) = resolveAuthProfileOrder env (ot_order ts) (ot_now ts) (ot_sort ts) (op_cfg p) (op_provider p) None (op_store p);
             source = override_source_of e held
           in if held \<noteq> None \<and> drops_current store (op_provider p) order source (the held)
              then choose_override ts p store order source None (cleared_entry (ot_clear ts) e)
                (clearSessionAuthProfileOverride (op_storePath p) (op_sessionKey p) (ot_clear ts) e w)
              else choose_override ts p store order source held e w)))"

section \<open>What is picked\<close>

lemma find_available:
  "find (\<lambda>i. \<not> cooling store clock i) xs = Some i \<Longrightarrow> i \<in> set xs \<and> \<not> cooling store clock i"
  by (auto simp: find_Some_iff)

lemma first_sound:
  assumes "order \<noteq> []"
  shows "pickFirstAvailable store clock order \<in> set order
    \<and> (cooling store clock (pickFirstAvailable store clock order) \<longrightarrow> list_all (cooling store clock) order)"
proof (cases "find (\<lambda>i. \<not> cooling store clock i) order")
  case None
  then have "list_all (cooling store clock) order" by (simp add: find_None_iff list_all_iff)
  then show ?thesis using assms None by (simp add: pickFirstAvailable_def)
next
  case (Some i)
  then show ?thesis using find_available [OF Some] by (simp add: pickFirstAvailable_def)
qed

lemma index_of_nth: "index_of xs x = Some k \<Longrightarrow> k < length xs \<and> xs ! k = x"
  by (induction xs arbitrary: k) (auto split: if_splits)

lemma rotation_set:
  assumes "k < length xs"
  shows "set (map (\<lambda>offset. xs ! ((k + offset) mod length xs)) [1..<Suc (length xs)]) = set xs"
proof
  let ?n = "length xs"
  show "set (map (\<lambda>offset. xs ! ((k + offset) mod ?n)) [1..<Suc ?n]) \<subseteq> set xs" using assms by (auto intro!: nth_mem mod_less_divisor)
  show "set xs \<subseteq> set (map (\<lambda>offset. xs ! ((k + offset) mod ?n)) [1..<Suc ?n])"
  proof
    fix x assume "x \<in> set xs"
    then obtain j where j: "j < ?n" "x = xs ! j" by (metis in_set_conv_nth)
    let ?o = "if k < j then j - k else ?n + j - k"
    have "(k + ?o) mod ?n = j" "1 \<le> ?o" "?o < Suc ?n" using assms j(1) by auto
    then show "x \<in> set (map (\<lambda>offset. xs ! ((k + offset) mod ?n)) [1..<Suc ?n])" using j(2) unfolding set_map set_upt
      by (intro image_eqI [where x = ?o]) auto
  qed
qed

lemma next_sound:
  assumes "order \<noteq> []"
  shows "pickNextAvailable store clock order c \<in> set order
    \<and> (cooling store clock (pickNextAvailable store clock order c) \<longrightarrow> list_all (cooling store clock) order)"
proof (cases "index_of order c")
  case None
  then show ?thesis using first_sound [OF assms] by (simp add: pickNextAvailable_def)
next
  case (Some k)
  let ?l = "map (\<lambda>offset. order ! ((k + offset) mod length order)) [1..<Suc (length order)]"
  note k = index_of_nth [OF Some]
  show ?thesis
  proof (cases "find (\<lambda>i. \<not> cooling store clock i) ?l")
    case None
    then have "list_all (cooling store clock) order"
      using rotation_set [of k order] k by (auto simp: find_None_iff list_all_iff)
    moreover have "c \<in> set order" using k nth_mem by metis
    ultimately show ?thesis using Some None k by (simp add: pickNextAvailable_def del: upt_Suc)
  next
    case (Some i)
    then show ?thesis using find_available [OF Some] rotation_set [of k order] k \<open>index_of order c = Some k\<close>
      by (simp add: pickNextAvailable_def del: upt_Suc)
  qed
qed

lemma next_profile_sound:
  assumes "order \<noteq> []" and "\<And>c. current = Some c \<Longrightarrow> \<not> isNew \<Longrightarrow> c \<in> set order"
  shows "next_profile store clock order isNew n m current \<in> set order
    \<and> (cooling store clock (next_profile store clock order isNew n m current) \<longrightarrow> list_all (cooling store clock) order)"
  using assms(2) first_sound [OF assms(1), of store clock] next_sound [OF assms(1), of store clock]
  by (auto simp: next_profile_def split: option.split)

section \<open>What a call does\<close>

lemma choose_sound:
  assumes "order \<noteq> []" and "[] \<notin> set order" and "sw_entry w = Some e"
    and "\<And>c. current = Some c \<Longrightarrow> \<not> op_isNewSession p \<Longrightarrow> c \<in> set order" and "\<not> (source = Some OverrideUser \<and> current \<noteq> None \<and> \<not> op_isNewSession p)"
  shows "\<exists>i e'. fst (choose_override ts p store order source current e w) = Some i \<and> i \<in> set order
    \<and> (cooling store (ot_pick ts) i \<longrightarrow> list_all (cooling store (ot_pick ts)) order)
    \<and> sw_entry (snd (choose_override ts p store order source current e w)) = Some e' \<and> se_authProfileOverride e' = Some i
    \<and> se_authProfileOverrideSource e' = Some OverrideAuto
    \<and> se_authProfileOverrideCompactionCount e' = Some (case se_compactionCount e of Some n \<Rightarrow> n | None \<Rightarrow> 0)"
proof -
  define n where "n = (case se_compactionCount e of Some n \<Rightarrow> n | None \<Rightarrow> 0)"
  define m where "m = (case se_authProfileOverrideCompactionCount e of Some k \<Rightarrow> k | None \<Rightarrow> n)"
  define i where "i = next_profile store (ot_pick ts) order (op_isNewSession p) n m current"
  have i: "i \<in> set order" "cooling store (ot_pick ts) i \<longrightarrow> list_all (cooling store (ot_pick ts)) order"
    using next_profile_sound [of order current "op_isNewSession p" store "ot_pick ts" n m, OF assms(1,4)] unfolding i_def by blast+
  have "i \<noteq> []" using i(1) assms(2) by auto
  then show ?thesis using i assms(1,3,5) i_def m_def n_def
    by (auto simp: choose_override_def Let_def store_entry_def)
qed

text \<open>The profile that a session has and that is still good for the provider.\<close>

definition kept_profile :: "auth_store \<Rightarrow> jsstr \<Rightarrow> jsstr list \<Rightarrow> session_entry \<Rightarrow> jsstr option" where
  "kept_profile store provider order e =
    (let held = truthy_str (map_option trim (se_authProfileOverride e)) in
     if held \<noteq> None \<and> drops_current store provider order (override_source_of e held) (the held) then None else held)"

text \<open>That a call has a session to work on, and that there are credentials configured or stored.\<close>

definition has_session :: "override_params \<Rightarrow> session_world \<Rightarrow> session_entry \<Rightarrow> bool" where
  "has_session p w e \<longleftrightarrow> sw_entry w = Some e \<and> sw_sessions w \<noteq> None \<and> op_sessionKey p \<noteq> []
     \<and> (truthy_str (map_option trim (se_authProfileOverride e)) \<noteq> None \<or> hasConfiguredAuthProfiles (op_cfg p) \<or> op_anySource p)"

lemma resolve_override:
  assumes "has_session p w e"
    and "resolveAuthProfileOrder env (ot_order ts) (ot_now ts) (ot_sort ts) (op_cfg p) (op_provider p) None (op_store p) = (order, store)"
  shows "\<exists>e1 w1. resolveSessionAuthProfileOverride env ts p w =
      choose_override ts p store order (override_source_of e (truthy_str (map_option trim (se_authProfileOverride e)))) (kept_profile store (op_provider p) order e) e1 w1
    \<and> sw_entry w1 = Some e1 \<and> se_compactionCount e1 = se_compactionCount e
    \<and> (kept_profile store (op_provider p) order e \<noteq> None \<longrightarrow> w1 = w \<and> e1 = e)"
proof -
  let ?held = "truthy_str (map_option trim (se_authProfileOverride e))"
  let ?dropped = "?held \<noteq> None \<and> drops_current store (op_provider p) order (override_source_of e ?held) (the ?held)"
  obtain m where w: "sw_entry w = Some e" "sw_sessions w = Some m" "op_sessionKey p \<noteq> []"
    "\<not> (?held = None \<and> \<not> hasConfiguredAuthProfiles (op_cfg p) \<and> \<not> op_anySource p)"
    using assms(1) by (auto simp: has_session_def)
  have r: "resolveSessionAuthProfileOverride env ts p w = (if ?dropped
      then choose_override ts p store order (override_source_of e ?held) None (cleared_entry (ot_clear ts) e)
        (clearSessionAuthProfileOverride (op_storePath p) (op_sessionKey p) (ot_clear ts) e w)
      else choose_override ts p store order (override_source_of e ?held) ?held e w)"
    unfolding resolveSessionAuthProfileOverride_def w(1,2) option.case prod.case if_not_P [OF w(3)] Let_def if_not_P [OF w(4)] assms(2) by (rule refl)
  show ?thesis
  proof (cases ?dropped)
    case True
    then have "kept_profile store (op_provider p) order e = None" by (simp add: kept_profile_def Let_def)
    then show ?thesis unfolding r if_P [OF True]
      by (intro exI [of _ "cleared_entry (ot_clear ts) e"]
          exI [of _ "clearSessionAuthProfileOverride (op_storePath p) (op_sessionKey p) (ot_clear ts) e w"])
         (simp add: clearSessionAuthProfileOverride_def store_entry_def cleared_entry_def)
  next
    case False
    then have "kept_profile store (op_provider p) order e = ?held" by (auto simp: kept_profile_def Let_def)
    then show ?thesis unfolding r if_not_P [OF False] using w(1) by (intro exI [of _ e] exI [of _ w]) simp
  qed
qed

text \<open>C28: The credential of a session.  When no usable credential of the provider is found, none is chosen.  Otherwise a
  session that is not new and whose user picked a profile keeps it, if it is still good for the provider.  In every other
  case the chosen profile is in the order of the provider's profiles, it is in cooldown only if all of them are, and it is
  written into the session's entry, together with the count of compactions for which it holds.\<close>

theorem session_profile_sound:
  assumes "has_session p w e" and "[] \<notin> set order"
    and "resolveAuthProfileOrder env (ot_order ts) (ot_now ts) (ot_sort ts) (op_cfg p) (op_provider p) None (op_store p) = (order, store)"
  shows "let (chosen, w') = resolveSessionAuthProfileOverride env ts p w; kept = kept_profile store (op_provider p) order e
     in if order = [] then chosen = None
        else if override_source_of e (truthy_str (map_option trim (se_authProfileOverride e))) = Some OverrideUser \<and> kept \<noteq> None \<and> \<not> op_isNewSession p
        then chosen = kept \<and> w' = w
        else (\<exists>i e'. chosen = Some i \<and> i \<in> set order \<and> (cooling store (ot_pick ts) i \<longrightarrow> list_all (cooling store (ot_pick ts)) order)
          \<and> sw_entry w' = Some e' \<and> se_authProfileOverride e' = Some i \<and> se_authProfileOverrideSource e' = Some OverrideAuto
          \<and> se_authProfileOverrideCompactionCount e' = Some (case se_compactionCount e of Some n \<Rightarrow> n | None \<Rightarrow> 0))"
proof -
  let ?source = "override_source_of e (truthy_str (map_option trim (se_authProfileOverride e)))" and ?kept = "kept_profile store (op_provider p) order e"
  obtain e1 w1 where r: "resolveSessionAuthProfileOverride env ts p w = choose_override ts p store order ?source ?kept e1 w1"
    "sw_entry w1 = Some e1" "se_compactionCount e1 = se_compactionCount e" "?kept \<noteq> None \<longrightarrow> w1 = w \<and> e1 = e"
    using resolve_override [OF assms(1,3)] by blast
  consider "order = []" | "order \<noteq> []" "?source = Some OverrideUser \<and> ?kept \<noteq> None \<and> \<not> op_isNewSession p"
    | "order \<noteq> []" "\<not> (?source = Some OverrideUser \<and> ?kept \<noteq> None \<and> \<not> op_isNewSession p)" by blast
  then show ?thesis
  proof cases
    case 1
    then show ?thesis by (simp add: r(1) choose_override_def)
  next
    case 2
    then show ?thesis using r(4) by (simp add: r(1) choose_override_def Let_def)
  next
    case 3
    have "c \<in> set order" if "?kept = Some c" "\<not> op_isNewSession p" for c
      using that 3 by (auto simp: kept_profile_def drops_current_def Let_def split: if_splits)
    from choose_sound [OF 3(1) assms(2) r(2) this 3(2)] show ?thesis
      unfolding case_prod_unfold Let_def r(1) r(3) [symmetric] if_not_P [OF 3(1)] if_not_P [OF 3(2)] .
  qed
qed

definition some_times :: override_times where
  "some_times = \<lparr> ot_order = (\<lambda>i. 1000), ot_now = 1000, ot_sort = 1000, ot_pick = (\<lambda>i. 1000), ot_clear = 1000, ot_save = 1001 \<rparr>"

definition key_params :: override_params where
  "key_params = \<lparr> op_cfg = None, op_provider = js ''anthropic'', op_sessionKey = js ''s'', op_storePath = False, op_isNewSession = False,
     op_anySource = True, op_store = aw_store two_keys \<rparr>"

definition fresh_session :: session_entry where
  "fresh_session = \<lparr> se_authProfileOverride = None, se_authProfileOverrideSource = None, se_authProfileOverrideCompactionCount = None,
     se_compactionCount = None, se_updatedAt = 0 \<rparr>"

definition session_of :: "session_entry \<Rightarrow> session_world" where
  "session_of e = \<lparr> sw_entry = Some e, sw_sessions = Some [], sw_file = [] \<rparr>"

lemma two_keys_calm: "at_rest [js ''b'', js ''a''] 2 1000 two_keys" "as_usageStats (aw_store two_keys) = None"
  using two_keys_rest by (simp_all add: three_turns_def two_keys_def put_profile_def Let_def)

lemma two_keys_cleared: "fst (clearExpiredCooldowns (aw_store two_keys) t) = aw_store two_keys"
  using two_keys_calm(2) by (simp add: clearExpiredCooldowns_def)

lemma key_candidates:
  "candidate_profiles plain_env None (aw_store two_keys) (js ''anthropic'') 1000 = [js ''b'', js ''a'']"
  "explicit_order None (aw_store two_keys) (js ''anthropic'') = None"
  using two_keys_candidates by (simp_all add: three_turns_def two_keys_def put_profile_def explicit_order_def findNormalizedProviderValue_def Let_def)

lemma key_order:
  "resolveAuthProfileOrder plain_env (ot_order some_times) (ot_now some_times) (ot_sort some_times) (op_cfg key_params) (op_provider key_params) None (op_store key_params)
    = ([js ''b'', js ''a''], aw_store two_keys)"
  using order_at_rest [OF two_keys_calm(1) key_candidates(1), unfolded two_keys_cleared two_keys_order] key_candidates(2)
  by (simp add: some_times_def key_params_def)

lemma session_profile_sound_witness:
  "fst (resolveSessionAuthProfileOverride plain_env some_times key_params (session_of fresh_session)) \<in> {Some (js ''a''), Some (js ''b'')}"
proof -
  have "has_session key_params (session_of fresh_session) fresh_session" by code_simp
  from session_profile_sound [OF this _ key_order] show ?thesis
    by (auto simp: js_def Let_def kept_profile_def fresh_session_def truthy_str_def)
qed

text \<open>A choice of a shared credential is not kept.  The order of a provider may hold profiles of another provider with
  which it shares credentials, but the test of the profile that a session has only compares the names of the providers.
  So a session that is not new and has such a profile loses it in every call, even if its user picked it: the first
  profile of the order that is not in cooldown is taken instead.\<close>

theorem shared_credential_not_kept:
  assumes "has_session p w e" and "[] \<notin> set order"
    and "resolveAuthProfileOrder env (ot_order ts) (ot_now ts) (ot_sort ts) (op_cfg p) (op_provider p) None (op_store p) = (order, store)"
    and "se_authProfileOverride e = Some i" and "i \<in> set order"
    and "mget (as_profiles store) (trim i) = Some c" and "normalizeProviderId (cr_provider c) \<noteq> normalizeProviderId (op_provider p)"
  shows "fst (resolveSessionAuthProfileOverride env ts p w) = Some (pickFirstAvailable store (ot_pick ts) order)"
proof -
  obtain e1 w1 where r: "resolveSessionAuthProfileOverride env ts p w = choose_override ts p store order
      (override_source_of e (truthy_str (map_option trim (se_authProfileOverride e)))) (kept_profile store (op_provider p) order e) e1 w1"
    using resolve_override [OF assms(1,3)] by blast
  have "kept_profile store (op_provider p) order e = None"
    using assms(4,6,7) by (auto simp: kept_profile_def Let_def truthy_str_def drops_current_def isProfileForProvider_def)
  moreover have "order \<noteq> []" using assms(5) by auto
  moreover have "pickFirstAvailable store (ot_pick ts) order \<noteq> []" using assms(2) first_sound [OF \<open>order \<noteq> []\<close>, of store "ot_pick ts"] by metis
  ultimately show ?thesis by (simp add: r choose_override_def next_profile_def Let_def)
qed

text \<open>A plugin says that one provider uses the credentials of another.\<close>

definition alias_env :: provider_env where
  "alias_env = \<lparr> pe_collate = (\<lambda>s. 0), pe_registry = (\<lambda>cfg. [\<lparr> pm_id = Some (js ''x''), pm_origin = Some OriginBundled,
     pm_providerAuthAliases = Some [(js ''claude'', js ''anthropic'')] \<rparr>]) \<rparr>"

definition claude_params :: override_params where
  "claude_params = key_params\<lparr> op_provider := js ''claude'' \<rparr>"

definition picked_session :: session_entry where
  "picked_session = fresh_session\<lparr> se_authProfileOverride := Some (js ''a''), se_authProfileOverrideSource := Some OverrideUser \<rparr>"

lemma claude_aliases: "resolveProviderAuthAliasMap alias_env None False = [(js ''claude'', js ''anthropic'')]"
  by code_simp

lemma claude_ids:
  "resolveProviderIdForAuth alias_env None (js ''claude'') = js ''anthropic''" "resolveProviderIdForAuth alias_env None (js ''anthropic'') = js ''anthropic''"
  unfolding resolveProviderIdForAuth_def claude_aliases by code_simp+

lemma key_profiles:
  "map (\<lambda>p. (fst p, cr_provider (snd p))) (as_profiles (aw_store two_keys)) = [(js ''b'', js ''anthropic''), (js ''a'', js ''anthropic'')]"
  "list_all (\<lambda>p. fst (evaluateStoredCredentialEligibility (snd p) 1000)) (as_profiles (aw_store two_keys))"
  by code_simp+

lemma claude_eligible:
  "i \<in> {js ''b'', js ''a''} \<Longrightarrow> fst (resolveAuthProfileEligibility alias_env None (aw_store two_keys) (js ''claude'') i 1000)"
proof -
  assume "i \<in> {js ''b'', js ''a''}"
  then have "\<exists>c. mget (as_profiles (aw_store two_keys)) i = Some c \<and> cr_provider c = js ''anthropic'' \<and> fst (evaluateStoredCredentialEligibility c 1000)"
    using key_profiles by (auto simp: mget_def map_eq_Cons_conv js_def split: prod.splits)
  then show ?thesis by (auto simp: resolveAuthProfileEligibility_def claude_ids configured_profile_def)
qed

lemma claude_candidates:
  "candidate_profiles alias_env None (aw_store two_keys) (js ''claude'') 1000 = [js ''b'', js ''a'']"
  "explicit_order None (aw_store two_keys) (js ''claude'') = None"
proof -
  show e: "explicit_order None (aw_store two_keys) (js ''claude'') = None"
    by (simp add: two_keys_def put_profile_def explicit_order_def findNormalizedProviderValue_def Let_def)
  have "listProfilesForProvider alias_env (aw_store two_keys) (js ''claude'') = [js ''b'', js ''a'']"
    using key_profiles(1) by (auto simp: listProfilesForProvider_def claude_ids map_eq_Cons_conv)
  then have "base_order alias_env None (aw_store two_keys) (js ''claude'') = [js ''b'', js ''a'']"
    by (simp add: base_order_def e explicit_profiles_def)
  moreover have "dedupeProfileIds [js ''b'', js ''a''] = [js ''b'', js ''a'']" by code_simp
  ultimately show "candidate_profiles alias_env None (aw_store two_keys) (js ''claude'') 1000 = [js ''b'', js ''a'']"
    by (simp add: candidate_profiles_def claude_eligible explicit_profiles_def Let_def)
qed

lemma claude_order:
  "resolveAuthProfileOrder alias_env (ot_order some_times) (ot_now some_times) (ot_sort some_times) (op_cfg claude_params) (op_provider claude_params) None (op_store claude_params)
    = ([js ''b'', js ''a''], aw_store two_keys)"
  using order_at_rest [OF two_keys_calm(1) claude_candidates(1), unfolded two_keys_cleared two_keys_order] claude_candidates(2)
  by (simp add: some_times_def claude_params_def key_params_def)

lemma shared_credential_not_kept_witness:
  "fst (resolveSessionAuthProfileOverride alias_env some_times claude_params (session_of picked_session)) = Some (js ''b'')"
proof -
  have s: "has_session claude_params (session_of picked_session) picked_session" by code_simp
  have "[] \<notin> set [js ''b'', js ''a'']" "js ''a'' \<in> set [js ''b'', js ''a'']" by (simp_all add: js_def)
  moreover have "se_authProfileOverride picked_session = Some (js ''a'')" by (simp add: picked_session_def)
  moreover have "mget (as_profiles (aw_store two_keys)) (trim (js ''a'')) = Some (the (mget (as_profiles (aw_store two_keys)) (js ''a'')))" by code_simp
  moreover have "normalizeProviderId (cr_provider (the (mget (as_profiles (aw_store two_keys)) (js ''a'')))) \<noteq> normalizeProviderId (op_provider claude_params)" by code_simp
  ultimately have "fst (resolveSessionAuthProfileOverride alias_env some_times claude_params (session_of picked_session))
      = Some (pickFirstAvailable (aw_store two_keys) (ot_pick some_times) [js ''b'', js ''a''])"
    using shared_credential_not_kept [OF s _ claude_order] by blast
  moreover have "pickFirstAvailable (aw_store two_keys) (ot_pick some_times) [js ''b'', js ''a''] = js ''b''" by code_simp
  ultimately show ?thesis by simp
qed

end
