(* ===== verification/ToolLoop.thy ===== *)
theory ToolLoop
  imports Json StringCoerce "HOL-Library.List_Lexorder"
begin

text \<open>
  Loops of tool calls: \<open>src/src/agents/tool-loop-detection.ts\<close> with the settings of \<open>src/src/config/types.tools.ts\<close> and the
  record of a call of \<open>src/src/logging/diagnostic-session-state.ts\<close>.  A call is identified by a digest of its arguments
  and an outcome by a digest of the result; the digest function of the platform is the parameter \<open>sha\<close>.  Where the
  digest is given no string the platform throws, and the operation is \<open>None\<close>.
\<close>

section \<open>Settings\<close>

definition TOOL_CALL_HISTORY_SIZE :: nat where "TOOL_CALL_HISTORY_SIZE = 30"
definition WARNING_THRESHOLD :: nat where "WARNING_THRESHOLD = 10"
definition UNKNOWN_TOOL_THRESHOLD :: nat where "UNKNOWN_TOOL_THRESHOLD = 10"
definition CRITICAL_THRESHOLD :: nat where "CRITICAL_THRESHOLD = 20"
definition GLOBAL_CIRCUIT_BREAKER_THRESHOLD :: nat where "GLOBAL_CIRCUIT_BREAKER_THRESHOLD = 30"

record loop_settings =
  lt_enabled :: "bool option"
  lt_historySize :: "jsnum option"
  lt_warningThreshold :: "jsnum option"
  lt_unknownToolThreshold :: "jsnum option"
  lt_criticalThreshold :: "jsnum option"
  lt_globalCircuitBreakerThreshold :: "jsnum option"
  lt_genericRepeat :: "bool option"
  lt_knownPollNoProgress :: "bool option"
  lt_pingPong :: "bool option"

record loop_config =
  lc_enabled :: bool
  lc_historySize :: nat
  lc_warningThreshold :: nat
  lc_unknownToolThreshold :: nat
  lc_criticalThreshold :: nat
  lc_globalThreshold :: nat
  lc_genericRepeat :: bool
  lc_knownPollNoProgress :: bool
  lc_pingPong :: bool

definition asPositiveInt :: "jsnum option \<Rightarrow> nat \<Rightarrow> nat" where
  "asPositiveInt value fallback = (case value of
     Some (Fin q) \<Rightarrow> if of_int \<lfloor>q\<rfloor> = q \<and> 0 < q then nat \<lfloor>q\<rfloor> else fallback
   | _ \<Rightarrow> fallback)"

definition opt_or :: "'a option \<Rightarrow> 'a \<Rightarrow> 'a" where
  "opt_or v d = (case v of Some x \<Rightarrow> x | None \<Rightarrow> d)"

definition resolveLoopDetectionConfig :: "loop_settings option \<Rightarrow> loop_config" where
  "resolveLoopDetectionConfig config =
    (let num = (\<lambda>get d. asPositiveInt (Option.bind config get) d); flag = (\<lambda>get d. opt_or (Option.bind config get) d);
         warning = num lt_warningThreshold WARNING_THRESHOLD;
         critical0 = num lt_criticalThreshold CRITICAL_THRESHOLD;
         breaker0 = num lt_globalCircuitBreakerThreshold GLOBAL_CIRCUIT_BREAKER_THRESHOLD;
         critical = (if critical0 \<le> warning then warning + 1 else critical0);
         breaker = (if breaker0 \<le> critical then critical + 1 else breaker0)
     in \<lparr> lc_enabled = flag lt_enabled False, lc_historySize = num lt_historySize TOOL_CALL_HISTORY_SIZE,
          lc_warningThreshold = warning, lc_unknownToolThreshold = num lt_unknownToolThreshold UNKNOWN_TOOL_THRESHOLD,
          lc_criticalThreshold = critical, lc_globalThreshold = breaker, lc_genericRepeat = flag lt_genericRepeat True,
          lc_knownPollNoProgress = flag lt_knownPollNoProgress True, lc_pingPong = flag lt_pingPong True \<rparr>)"

section \<open>Digests\<close>

text \<open>
  \<open>stableStringify\<close>: JSON with sorted keys.  \<open>None\<close> is the value \<open>undefined\<close>, which \<open>join\<close> prints as nothing and a
  template as \<open>undefined\<close>.
\<close>

fun stableStringify :: "jsval \<Rightarrow> jsstr option"
and stable_items :: "jsval list \<Rightarrow> jsstr list"
and stable_fields :: "(jsstr \<times> jsval) list \<Rightarrow> (jsstr \<times> jsstr) list" where
  "stableStringify (VArr xs) = Some (js ''['' @ join (js '','') (stable_items xs) @ js '']'')"
| "stableStringify (VObj fs) = Some (js ''{'' @ join (js '','') (map snd (sort_key fst (stable_fields fs))) @ js ''}'')"
| "stableStringify v = json_stringify [] v"
| "stable_items [] = []"
| "stable_items (v # vs) = opt_or (stableStringify v) [] # stable_items vs"
| "stable_fields [] = []"
| "stable_fields ((k, v) # fs) = (k, json_quote k @ js '':'' @ opt_or (stableStringify v) (js ''undefined'')) # stable_fields fs"

definition digestStable :: "(jsstr \<Rightarrow> jsstr) \<Rightarrow> jsval \<Rightarrow> jsstr option" where
  "digestStable sha value = map_option sha (stableStringify value)"

definition hashToolCall :: "(jsstr \<Rightarrow> jsstr) \<Rightarrow> jsstr \<Rightarrow> jsval \<Rightarrow> jsstr option" where
  "hashToolCall sha toolName params = map_option (\<lambda>d. toolName @ js '':'' @ d) (digestStable sha params)"

text \<open>Parameters that are undefined have no digest: there is no text to digest.\<close>

lemma hash_undefined: "hashToolCall sha toolName VUndef = None"
  by (simp add: hashToolCall_def digestStable_def json_stringify_def)

definition isKnownPollToolCall :: "jsstr \<Rightarrow> jsval \<Rightarrow> bool" where
  "isKnownPollToolCall toolName params \<longleftrightarrow>
    (if toolName = js ''command_status'' then True
     else if toolName \<noteq> js ''process'' \<or> \<not> isRecord params then False
     else field params ''action'' = VStr (js ''poll'') \<or> field params ''action'' = VStr (js ''log''))"

definition text_entry :: "jsval \<Rightarrow> jsstr option" where
  "text_entry entry = (case (field entry ''type'', field entry ''text'') of (VStr t, VStr text) \<Rightarrow> Some text | _ \<Rightarrow> None)"

definition extractTextContent :: "jsval \<Rightarrow> jsstr" where
  "extractTextContent result = (case field result ''content'' of
     VArr entries \<Rightarrow> trim (join [0x0A] (List.map_filter text_entry entries))
   | _ \<Rightarrow> [])"

text \<open>What a tool threw: an \<open>Error\<close> with its name and message, or another value.\<close>

datatype thrown_value = ThrownError jsstr jsstr | ThrownValue jsval

definition formatErrorForHash :: "thrown_value \<Rightarrow> jsstr" where
  "formatErrorForHash error = (case error of
     ThrownError name message \<Rightarrow> if message = [] then name else message
   | ThrownValue (VStr s) \<Rightarrow> s
   | ThrownValue (VNum n) \<Rightarrow> num_str n
   | ThrownValue (VBool b) \<Rightarrow> (if b then js ''true'' else js ''false'')
   | ThrownValue v \<Rightarrow> opt_or (stableStringify v) [])"

section \<open>The name of an unknown tool in a message\<close>

definition tool_name_char :: "jschar \<Rightarrow> bool" where
  "tool_name_char c \<longleftrightarrow> (0x61 \<le> c \<and> c \<le> 0x7A) \<or> (0x41 \<le> c \<and> c \<le> 0x5A) \<or> (0x30 \<le> c \<and> c \<le> 0x39) \<or> c \<in> {0x5F, 0x2E, 0x2D}"

definition quote_char :: "jschar \<Rightarrow> bool" where
  "quote_char c \<longleftrightarrow> c = 0x22 \<or> c = 0x27"

definition ascii_lower :: "jschar \<Rightarrow> jschar" where
  "ascii_lower c = (if 0x41 \<le> c \<and> c \<le> 0x5A then c + 0x20 else c)"

text \<open>The rest after a literal, case ignored; and one or more characters of a kind, taken as far as they go.\<close>

fun after_literal :: "jsstr \<Rightarrow> jsstr \<Rightarrow> jsstr option" where
  "after_literal [] s = Some s"
| "after_literal (p # ps) [] = None"
| "after_literal (p # ps) (c # s) = (if ascii_lower c = p then after_literal ps s else None)"

definition some_chars :: "(jschar \<Rightarrow> bool) \<Rightarrow> jsstr \<Rightarrow> (jsstr \<times> jsstr) option" where
  "some_chars P s = (if takeWhile P s = [] then None else Some (takeWhile P s, dropWhile P s))"

definition skip_quote :: "jsstr \<Rightarrow> jsstr" where
  "skip_quote s = (case s of c # r \<Rightarrow> if quote_char c then r else s | [] \<Rightarrow> [])"

definition unknown_tool_here :: "jsstr \<Rightarrow> jsstr option" where
  "unknown_tool_here s = Option.bind (after_literal (js ''unknown tool'') s) (\<lambda>r.
     Option.bind (some_chars (\<lambda>c. c = 0x3A \<or> is_space c) r) (\<lambda>(u, r).
       map_option fst (some_chars tool_name_char (skip_quote r))))"

definition missing_tool_here :: "jsstr \<Rightarrow> jsstr option" where
  "missing_tool_here s = Option.bind (after_literal (js ''tool'') s) (\<lambda>r.
     Option.bind (some_chars is_space r) (\<lambda>(u, r).
       Option.bind (some_chars tool_name_char (skip_quote r)) (\<lambda>(name, r).
         Option.bind (some_chars is_space (skip_quote r)) (\<lambda>(u, r).
           if after_literal (js ''not found'') r \<noteq> None \<or> after_literal (js ''is not available'') r \<noteq> None then Some name else None))))"

fun earliest_match :: "(jsstr \<Rightarrow> 'a option) \<Rightarrow> jsstr \<Rightarrow> 'a option" where
  "earliest_match m [] = m []"
| "earliest_match m (c # s) = (case m (c # s) of Some x \<Rightarrow> Some x | None \<Rightarrow> earliest_match m s)"

definition extractUnknownToolName :: "thrown_value \<Rightarrow> jsstr option" where
  "extractUnknownToolName error =
    (let raw = trim (formatErrorForHash error) in
     if raw = [] then None
     else map_option (map ascii_lower) (orElse (earliest_match unknown_tool_here raw) (earliest_match missing_tool_here raw)))"

section \<open>Outcomes\<close>

text \<open>The digest of an outcome: \<open>None\<close> if it throws, \<open>Some None\<close> if there is nothing to digest.\<close>

definition outcome_fields :: "jsval \<Rightarrow> string list \<Rightarrow> (jsstr \<times> jsval) list" where
  "outcome_fields details ks = map (\<lambda>k. (js k, coalesce (field details k) VNull)) ks"

definition hashToolOutcome :: "(jsstr \<Rightarrow> jsstr) \<Rightarrow> jsstr \<Rightarrow> jsval \<Rightarrow> jsval \<Rightarrow> thrown_value option \<Rightarrow> (jsstr option \<times> jsstr option) option" where
  "hashToolOutcome sha toolName params result error = (case error of
     Some e \<Rightarrow> (case digestStable sha (VStr (formatErrorForHash e)) of
        None \<Rightarrow> None
      | Some d \<Rightarrow> Some (Some (js ''error:'' @ d), extractUnknownToolName e))
   | None \<Rightarrow>
      if \<not> isRecord result
      then (if result = VUndef then Some (None, None) else map_option (\<lambda>d. (Some d, None)) (digestStable sha result))
      else (let details = (if isRecord (field result ''details'') then field result ''details'' else VObj []);
                text = VStr (extractTextContent result); action = field params ''action'';
                poll = isKnownPollToolCall toolName params \<and> toolName = js ''process'' \<and> isRecord params;
                digest = (\<lambda>v. map_option (\<lambda>d. (Some d, None)) (digestStable sha v))
            in if poll \<and> action = VStr (js ''poll'')
               then digest (VObj ([(js ''action'', action), (js ''status'', field details ''status'')]
                 @ outcome_fields details [''exitCode'', ''exitSignal'', ''aggregated''] @ [(js ''text'', text)]))
               else if poll \<and> action = VStr (js ''log'')
               then digest (VObj ([(js ''action'', action), (js ''status'', field details ''status'')]
                 @ outcome_fields details [''totalLines'', ''totalChars'', ''truncated'', ''exitCode'', ''exitSignal''] @ [(js ''text'', text)]))
               else digest (VObj [(js ''details'', details), (js ''text'', text)])))"

section \<open>Streaks in the history\<close>

record tool_call =
  tc_toolName :: jsstr
  tc_argsHash :: jsstr
  tc_toolCallId :: "jsstr option"
  tc_resultHash :: "jsstr option"
  tc_unknownToolName :: "jsstr option"
  tc_timestamp :: rat

definition filled :: "jsstr option \<Rightarrow> bool" where
  "filled v \<longleftrightarrow> v \<noteq> None \<and> v \<noteq> Some []"

text \<open>The loops run over the history from its end.\<close>

fun unknown_streak :: "jsstr \<Rightarrow> nat \<times> jsstr option \<Rightarrow> tool_call list \<Rightarrow> nat \<times> jsstr option" where
  "unknown_streak toolName acc [] = acc"
| "unknown_streak toolName (streak, repeated) (call # calls) =
    (if tc_toolName call \<noteq> toolName \<or> \<not> filled (tc_unknownToolName call) then (streak, repeated)
     else if repeated = None then unknown_streak toolName (1, tc_unknownToolName call) calls
     else if tc_unknownToolName call \<noteq> repeated then (streak, repeated)
     else unknown_streak toolName (streak + 1, repeated) calls)"

definition getUnknownToolRepeatStreak :: "tool_call list \<Rightarrow> jsstr \<Rightarrow> nat \<times> jsstr option" where
  "getUnknownToolRepeatStreak history toolName = unknown_streak toolName (0, None) (rev history)"

fun no_progress :: "jsstr \<Rightarrow> jsstr \<Rightarrow> nat \<times> jsstr option \<Rightarrow> tool_call list \<Rightarrow> nat \<times> jsstr option" where
  "no_progress toolName argsHash acc [] = acc"
| "no_progress toolName argsHash (streak, latest) (call # calls) =
    (if tc_toolName call \<noteq> toolName \<or> tc_argsHash call \<noteq> argsHash \<or> \<not> filled (tc_resultHash call)
     then no_progress toolName argsHash (streak, latest) calls
     else if latest = None then no_progress toolName argsHash (1, tc_resultHash call) calls
     else if tc_resultHash call \<noteq> latest then (streak, latest)
     else no_progress toolName argsHash (streak + 1, latest) calls)"

definition getNoProgressStreak :: "tool_call list \<Rightarrow> jsstr \<Rightarrow> jsstr \<Rightarrow> nat \<times> jsstr option" where
  "getNoProgressStreak history toolName argsHash = no_progress toolName argsHash (0, None) (rev history)"

record ping_pong =
  pp_count :: nat
  pp_pairedToolName :: "jsstr option"
  pp_pairedSignature :: "jsstr option"
  pp_noProgressEvidence :: bool

definition no_ping_pong :: ping_pong where
  "no_ping_pong = \<lparr> pp_count = 0, pp_pairedToolName = None, pp_pairedSignature = None, pp_noProgressEvidence = False \<rparr>"

text \<open>How many calls at the end alternate between two signatures.\<close>

fun alternating :: "jsstr \<Rightarrow> jsstr \<Rightarrow> tool_call list \<Rightarrow> nat" where
  "alternating expected following [] = 0"
| "alternating expected following (call # calls) =
    (if tc_argsHash call \<noteq> expected then 0 else Suc (alternating following expected calls))"

text \<open>Whether both sides of the tail have the same outcome every time.\<close>

fun steady :: "jsstr \<Rightarrow> jsstr \<Rightarrow> jsstr option \<Rightarrow> jsstr option \<Rightarrow> tool_call list \<Rightarrow> bool" where
  "steady sigA sigB a b [] = (a \<noteq> None \<and> b \<noteq> None)"
| "steady sigA sigB a b (call # calls) =
    (if \<not> filled (tc_resultHash call) then False
     else if tc_argsHash call = sigA
     then (if a = None then steady sigA sigB (tc_resultHash call) b calls
       else if a \<noteq> tc_resultHash call then False else steady sigA sigB a b calls)
     else if tc_argsHash call = sigB
     then (if b = None then steady sigA sigB a (tc_resultHash call) calls
       else if b \<noteq> tc_resultHash call then False else steady sigA sigB a b calls)
     else False)"

definition getPingPongStreak :: "tool_call list \<Rightarrow> jsstr \<Rightarrow> ping_pong" where
  "getPingPongStreak history currentSignature = (case rev history of
     [] \<Rightarrow> no_ping_pong
   | final # before \<Rightarrow>
      (case find (\<lambda>call. tc_argsHash call \<noteq> tc_argsHash final) before of
         None \<Rightarrow> no_ping_pong
       | Some other \<Rightarrow>
          if tc_argsHash other = [] \<or> tc_toolName other = [] then no_ping_pong
          else (let alternatingTailCount = alternating (tc_argsHash final) (tc_argsHash other) (final # before) in
            if alternatingTailCount < 2 \<or> currentSignature \<noteq> tc_argsHash other then no_ping_pong
            else \<lparr> pp_count = alternatingTailCount + 1, pp_pairedToolName = Some (tc_toolName final), pp_pairedSignature = Some (tc_argsHash final),
              pp_noProgressEvidence = steady (tc_argsHash final) (tc_argsHash other) None None
                (drop (length history - alternatingTailCount) history) \<rparr>)))"

definition canonicalPairKey :: "jsstr \<Rightarrow> jsstr \<Rightarrow> jsstr" where
  "canonicalPairKey a b = join (js ''|'') (sort [a, b])"

section \<open>Detection\<close>

datatype loop_detector = GenericRepeat | UnknownToolRepeat | KnownPollNoProgress | GlobalCircuitBreaker | PingPong

datatype loop_level = LoopWarning | LoopCritical

record loop_finding =
  lf_level :: loop_level
  lf_detector :: loop_detector
  lf_count :: nat
  lf_message :: jsstr
  lf_pairedToolName :: "jsstr option"
  lf_warningKey :: jsstr

definition finding :: "loop_level \<Rightarrow> loop_detector \<Rightarrow> nat \<Rightarrow> jsstr \<Rightarrow> jsstr option \<Rightarrow> jsstr \<Rightarrow> loop_finding option" where
  "finding level detector howMany message paired key = Some \<lparr> lf_level = level, lf_detector = detector, lf_count = howMany, lf_message = message,
     lf_pairedToolName = paired, lf_warningKey = key \<rparr>"

text \<open>The rules in their order, for a call with the digest \<open>currentHash\<close>.\<close>

definition detect :: "loop_config \<Rightarrow> tool_call list \<Rightarrow> jsstr \<Rightarrow> jsstr \<Rightarrow> bool \<Rightarrow> loop_finding option" where
  "detect cfg history toolName currentHash knownPollTool =
    (let (unknownCount, unknownName) = getUnknownToolRepeatStreak history toolName;
         (noProgressStreak, latest) = getNoProgressStreak history toolName currentHash;
         pingPong = getPingPongStreak history currentHash;
         n = nat_str noProgressStreak; k = nat_str (pp_count pingPong);
         resultKey = opt_or latest (js ''none'');
         pingPongKey = js ''pingpong:'' @ (case pp_pairedSignature pingPong of
             Some sig \<Rightarrow> canonicalPairKey currentHash sig | None \<Rightarrow> toolName @ js '':'' @ currentHash);
         recentCount = length (filter (\<lambda>h. tc_toolName h = toolName \<and> tc_argsHash h = currentHash) history)
     in if lc_unknownToolThreshold cfg \<le> unknownCount
        then finding LoopCritical UnknownToolRepeat unknownCount
          (js ''CRITICAL: attempted unavailable tool '' @ opt_or unknownName toolName @ js '' '' @ nat_str unknownCount
            @ js '' times. Stop retrying that missing tool and answer without it.'') None
          (js ''unknown-tool:'' @ toolName @ js '':'' @ opt_or unknownName (js ''unknown''))
        else if lc_globalThreshold cfg \<le> noProgressStreak
        then finding LoopCritical GlobalCircuitBreaker noProgressStreak
          (js ''CRITICAL: '' @ toolName @ js '' has repeated identical no-progress outcomes '' @ n
            @ js '' times. Session execution blocked by global circuit breaker to prevent runaway loops.'') None
          (js ''global:'' @ toolName @ js '':'' @ currentHash @ js '':'' @ resultKey)
        else if knownPollTool \<and> lc_knownPollNoProgress cfg \<and> lc_criticalThreshold cfg \<le> noProgressStreak
        then finding LoopCritical KnownPollNoProgress noProgressStreak
          (js ''CRITICAL: Called '' @ toolName @ js '' with identical arguments and no progress '' @ n
            @ js '' times. This appears to be a stuck polling loop. Session execution blocked to prevent resource waste.'') None
          (js ''poll:'' @ toolName @ js '':'' @ currentHash @ js '':'' @ resultKey)
        else if knownPollTool \<and> lc_knownPollNoProgress cfg \<and> lc_warningThreshold cfg \<le> noProgressStreak
        then finding LoopWarning KnownPollNoProgress noProgressStreak
          (js ''WARNING: You have called '' @ toolName @ js '' '' @ n
            @ js '' times with identical arguments and no progress. Stop polling and either (1) increase wait time between checks, or (2) report the task as failed if the process is stuck.'') None
          (js ''poll:'' @ toolName @ js '':'' @ currentHash @ js '':'' @ resultKey)
        else if lc_pingPong cfg \<and> lc_criticalThreshold cfg \<le> pp_count pingPong \<and> pp_noProgressEvidence pingPong
        then finding LoopCritical PingPong (pp_count pingPong)
          (js ''CRITICAL: You are alternating between repeated tool-call patterns ('' @ k
            @ js '' consecutive calls) with no progress. This appears to be a stuck ping-pong loop. Session execution blocked to prevent resource waste.'')
          (pp_pairedToolName pingPong) pingPongKey
        else if lc_pingPong cfg \<and> lc_warningThreshold cfg \<le> pp_count pingPong
        then finding LoopWarning PingPong (pp_count pingPong)
          (js ''WARNING: You are alternating between repeated tool-call patterns ('' @ k
            @ js '' consecutive calls). This looks like a ping-pong loop; stop retrying and report the task as failed.'')
          (pp_pairedToolName pingPong) pingPongKey
        else if \<not> knownPollTool \<and> lc_genericRepeat cfg \<and> lc_warningThreshold cfg \<le> recentCount
        then finding LoopWarning GenericRepeat recentCount
          (js ''WARNING: You have called '' @ toolName @ js '' '' @ nat_str recentCount
            @ js '' times with identical arguments. If this is not making progress, stop retrying and report the task as failed.'') None
          (js ''generic:'' @ toolName @ js '':'' @ currentHash)
        else None)"

definition detectToolCallLoop ::
    "(jsstr \<Rightarrow> jsstr) \<Rightarrow> tool_call list \<Rightarrow> jsstr \<Rightarrow> jsval \<Rightarrow> loop_settings option \<Rightarrow> loop_finding option option" where
  "detectToolCallLoop sha history toolName params config =
    (let cfg = resolveLoopDetectionConfig config in
     if \<not> lc_enabled cfg then Some None
     else map_option (\<lambda>currentHash. detect cfg history toolName currentHash (isKnownPollToolCall toolName params)) (hashToolCall sha toolName params))"

section \<open>Recording\<close>

definition recordLoopCall ::
    "(jsstr \<Rightarrow> jsstr) \<Rightarrow> tool_call list \<Rightarrow> jsstr \<Rightarrow> jsval \<Rightarrow> jsstr option \<Rightarrow> loop_settings option \<Rightarrow> rat \<Rightarrow> tool_call list option" where
  "recordLoopCall sha history toolName params toolCallId config now = map_option (\<lambda>argsHash.
     let pushed = history @ [\<lparr> tc_toolName = toolName, tc_argsHash = argsHash, tc_toolCallId = toolCallId, tc_resultHash = None,
           tc_unknownToolName = None, tc_timestamp = now \<rparr>]
     in if lc_historySize (resolveLoopDetectionConfig config) < length pushed then tl pushed else pushed) (hashToolCall sha toolName params)"

definition awaits_outcome :: "jsstr \<Rightarrow> jsstr \<Rightarrow> jsstr option \<Rightarrow> tool_call \<Rightarrow> bool" where
  "awaits_outcome toolName argsHash toolCallId call \<longleftrightarrow>
    \<not> (filled toolCallId \<and> tc_toolCallId call \<noteq> toolCallId) \<and> tc_toolName call = toolName \<and> tc_argsHash call = argsHash
    \<and> tc_resultHash call = None"

fun update_first :: "('a \<Rightarrow> bool) \<Rightarrow> ('a \<Rightarrow> 'a) \<Rightarrow> 'a list \<Rightarrow> 'a list option" where
  "update_first P f [] = None"
| "update_first P f (x # xs) = (if P x then Some (f x # xs) else map_option (\<lambda>ys. x # ys) (update_first P f xs))"

definition recordToolCallOutcome ::
    "(jsstr \<Rightarrow> jsstr) \<Rightarrow> tool_call list \<Rightarrow> jsstr \<Rightarrow> jsval \<Rightarrow> jsstr option \<Rightarrow> jsval \<Rightarrow> thrown_value option \<Rightarrow> loop_settings option \<Rightarrow> rat \<Rightarrow> tool_call list option" where
  "recordToolCallOutcome sha history toolName toolParams toolCallId result error config now =
    (case hashToolOutcome sha toolName toolParams result error of
       None \<Rightarrow> None
     | Some (resultHash, unknownToolName) \<Rightarrow>
        if \<not> filled resultHash then Some history
        else map_option (\<lambda>argsHash.
          let size = lc_historySize (resolveLoopDetectionConfig config);
              recorded = (case update_first (awaits_outcome toolName argsHash toolCallId)
                  (\<lambda>call. call\<lparr> tc_resultHash := resultHash, tc_unknownToolName := unknownToolName \<rparr>) (rev history) of
                Some calls \<Rightarrow> rev calls
              | None \<Rightarrow> history @ [\<lparr> tc_toolName = toolName, tc_argsHash = argsHash, tc_toolCallId = toolCallId, tc_resultHash = resultHash,
                  tc_unknownToolName = unknownToolName, tc_timestamp = now \<rparr>])
          in drop (length recorded - size) recorded) (hashToolCall sha toolName toolParams))"

text \<open>Statistics over the history: the number of calls and of signatures, and the most frequent of these.\<close>

definition count_pattern :: "(jsstr, jsstr \<times> nat) jsmap \<Rightarrow> tool_call \<Rightarrow> (jsstr, jsstr \<times> nat) jsmap" where
  "count_pattern patterns call = (case mget patterns (tc_argsHash call) of
     Some (name, n) \<Rightarrow> mput patterns (tc_argsHash call) (name, n + 1)
   | None \<Rightarrow> mput patterns (tc_argsHash call) (tc_toolName call, 1))"

definition getToolCallStats :: "tool_call list \<Rightarrow> nat \<times> nat \<times> (jsstr \<times> nat) option" where
  "getToolCallStats history =
    (let patterns = foldl count_pattern [] history in
     (length history, length patterns,
      foldl (\<lambda>best (key, p). case best of None \<Rightarrow> Some p | Some b \<Rightarrow> if snd b < snd p then Some p else best) None patterns))"

section \<open>Settings are sane\<close>

lemma positive_int: "0 < d \<Longrightarrow> 0 < asPositiveInt v d"
  by (auto simp: asPositiveInt_def split: option.split jsnum.split)

lemma config_sane:
  "let cfg = resolveLoopDetectionConfig config in 0 < lc_warningThreshold cfg \<and> lc_warningThreshold cfg < lc_criticalThreshold cfg
     \<and> lc_criticalThreshold cfg < lc_globalThreshold cfg \<and> 0 < lc_historySize cfg \<and> 0 < lc_unknownToolThreshold cfg"
  by (auto simp: resolveLoopDetectionConfig_def Let_def WARNING_THRESHOLD_def TOOL_CALL_HISTORY_SIZE_def UNKNOWN_TOOL_THRESHOLD_def intro!: positive_int)

section \<open>What a streak is evidence of\<close>

text \<open>The calls of a history that are counted, and those of them at the front that agree with the first.\<close>

definition agreeing :: "(tool_call \<Rightarrow> jsstr option) \<Rightarrow> tool_call list \<Rightarrow> nat \<times> jsstr option" where
  "agreeing f calls = (case calls of [] \<Rightarrow> (0, None) | c # cs \<Rightarrow> (Suc (length (takeWhile (\<lambda>d. f d = f c) cs)), f c))"

lemma no_progress_from:
  "no_progress tn ah (k, Some r) calls =
    (k + length (takeWhile (\<lambda>d. tc_resultHash d = Some r) (filter (\<lambda>c. tc_toolName c = tn \<and> tc_argsHash c = ah \<and> filled (tc_resultHash c)) calls)), Some r)"
  by (induction calls arbitrary: k) auto

lemma no_progress_agreeing:
  "no_progress tn ah (0, None) calls =
    agreeing tc_resultHash (filter (\<lambda>c. tc_toolName c = tn \<and> tc_argsHash c = ah \<and> filled (tc_resultHash c)) calls)"
proof (induction calls)
  case Nil
  then show ?case by (simp add: agreeing_def)
next
  case (Cons c calls)
  show ?case
  proof (cases "tc_toolName c = tn \<and> tc_argsHash c = ah \<and> filled (tc_resultHash c)")
    case True
    then obtain r where "tc_resultHash c = Some r" by (auto simp: filled_def)
    then show ?thesis using True by (simp add: agreeing_def no_progress_from)
  next
    case False
    then show ?thesis using Cons by auto
  qed
qed

lemma agreeing_all:
  "agreeing f calls = (n, v) \<Longrightarrow> n \<le> length (filter (\<lambda>c. f c = v) calls) \<and> (0 < n \<longrightarrow> (\<exists>c \<in> set calls. f c = v))"
proof (cases calls)
  case (Cons c cs)
  assume "agreeing f calls = (n, v)"
  then have n: "n = Suc (length (takeWhile (\<lambda>d. f d = f c) cs))" "v = f c" using Cons by (auto simp: agreeing_def)
  have "length (takeWhile P xs) \<le> length (filter P xs)" for P :: "tool_call \<Rightarrow> bool" and xs
    by (induction xs) auto
  then show ?thesis using n Cons by auto
qed (auto simp: agreeing_def)

lemma no_progress_evidence:
  assumes "getNoProgressStreak history tn ah = (n, r)"
  shows "n \<le> length (filter (\<lambda>c. tc_toolName c = tn \<and> tc_argsHash c = ah \<and> tc_resultHash c = r) history) \<and> (0 < n \<longrightarrow> filled r)"
proof -
  let ?P = "\<lambda>c. tc_toolName c = tn \<and> tc_argsHash c = ah \<and> filled (tc_resultHash c)"
  have a: "agreeing tc_resultHash (filter ?P (rev history)) = (n, r)"
    using assms by (simp add: getNoProgressStreak_def no_progress_agreeing)
  have "length (filter (\<lambda>c. tc_resultHash c = r) (filter ?P (rev history)))
      \<le> length (filter (\<lambda>c. tc_toolName c = tn \<and> tc_argsHash c = ah \<and> tc_resultHash c = r) history)"
    by (simp add: rev_filter [symmetric]) (induction history, auto)
  then show ?thesis using agreeing_all [OF a] by auto
qed

lemma unknown_from:
  "unknown_streak tn (k, Some u) calls =
    (k + length (takeWhile (\<lambda>c. tc_toolName c = tn \<and> filled (tc_unknownToolName c) \<and> tc_unknownToolName c = Some u) calls), Some u)"
  by (induction calls arbitrary: k) auto

lemma unknown_evidence:
  assumes "getUnknownToolRepeatStreak history tn = (n, u)" and "0 < n"
  shows "filled u \<and> n \<le> length history \<and> list_all (\<lambda>c. tc_toolName c = tn \<and> tc_unknownToolName c = u) (take n (rev history))"
proof (cases "rev history")
  case Nil
  then show ?thesis using assms by (simp add: getUnknownToolRepeatStreak_def)
next
  case (Cons c cs)
  then have c: "tc_toolName c = tn" "filled (tc_unknownToolName c)"
    using assms by (auto simp: getUnknownToolRepeatStreak_def split: if_splits)
  then obtain v where v: "tc_unknownToolName c = Some v" by (auto simp: filled_def)
  let ?P = "\<lambda>c. tc_toolName c = tn \<and> filled (tc_unknownToolName c) \<and> tc_unknownToolName c = Some v"
  have n: "n = Suc (length (takeWhile ?P cs))" "u = Some v"
    using assms(1) Cons c v by (auto simp: getUnknownToolRepeatStreak_def unknown_from)
  have "take (length (takeWhile ?P cs)) cs = takeWhile ?P cs" by (rule takeWhile_eq_take [symmetric])
  then have "list_all (\<lambda>c. tc_toolName c = tn \<and> tc_unknownToolName c = u) (take n (rev history))"
    using n c v Cons by (auto simp: list_all_iff dest: set_takeWhileD)
  moreover have "length history = Suc (length cs)" using arg_cong [OF Cons, of length] by simp
  then have "n \<le> length history" using n(1) length_takeWhile_le [of ?P cs] by simp
  ultimately show ?thesis using n(2) c(2) v by simp
qed

lemma alternating_le: "alternating a b calls \<le> length calls"
  by (induction a b calls rule: alternating.induct) auto

lemma alternating_nth: "i < alternating a b calls \<Longrightarrow> tc_argsHash (calls ! i) = (if even i then a else b)"
proof (induction a b calls arbitrary: i rule: alternating.induct)
  case (2 expected following call calls)
  then show ?case by (cases i) (auto split: if_splits)
qed simp

lemma steady_evidence:
  "steady sigA sigB a b calls \<Longrightarrow> sigA \<noteq> sigB \<Longrightarrow> \<exists>ra rb. (a \<noteq> None \<longrightarrow> a = Some ra) \<and> (b \<noteq> None \<longrightarrow> b = Some rb)
    \<and> list_all (\<lambda>c. tc_resultHash c = Some (if tc_argsHash c = sigA then ra else rb)) calls"
proof (induction sigA sigB a b calls rule: steady.induct)
  case (1 sigA sigB a b)
  then show ?case by auto
next
  case (2 sigA sigB a b call calls)
  obtain r where r: "tc_resultHash call = Some r" using 2(5) by (auto simp: filled_def split: if_splits)
  then show ?case using 2 by (cases a; cases b) (auto simp: filled_def list_all_iff split: if_splits)
qed

lemma ping_pong_evidence:
  assumes "getPingPongStreak history sig = pp" and "0 < pp_count pp"
  shows "\<exists>paired k. pp_count pp = Suc k \<and> 2 \<le> k \<and> k \<le> length history \<and> pp_pairedSignature pp = Some paired \<and> paired \<noteq> sig
    \<and> list_all (\<lambda>i. tc_argsHash (rev history ! i) = (if even i then paired else sig)) [0..<k]
    \<and> (pp_noProgressEvidence pp \<longrightarrow> (\<exists>ra rb. list_all (\<lambda>c. tc_resultHash c = Some (if tc_argsHash c = paired then ra else rb)) (drop (length history - k) history)))"
proof (cases "rev history")
  case Nil
  then show ?thesis using assms by (auto simp: getPingPongStreak_def no_ping_pong_def)
next
  case (Cons final before)
  obtain other where other: "find (\<lambda>call. tc_argsHash call \<noteq> tc_argsHash final) before = Some other"
    using assms Cons by (cases "find (\<lambda>call. tc_argsHash call \<noteq> tc_argsHash final) before") (auto simp: getPingPongStreak_def no_ping_pong_def)
  have ne: "tc_argsHash other \<noteq> tc_argsHash final" using other by (auto simp: find_Some_iff)
  let ?k = "alternating (tc_argsHash final) (tc_argsHash other) (final # before)"
  have k: "2 \<le> ?k" "sig = tc_argsHash other"
    and pp: "pp = \<lparr> pp_count = ?k + 1, pp_pairedToolName = Some (tc_toolName final), pp_pairedSignature = Some (tc_argsHash final),
      pp_noProgressEvidence = steady (tc_argsHash final) (tc_argsHash other) None None (drop (length history - ?k) history) \<rparr>"
    using assms unfolding getPingPongStreak_def Cons list.case other option.case Let_def
    by (auto simp: no_ping_pong_def split: if_splits)
  have "length history = length (final # before)" using arg_cong [OF Cons, of length] by simp
  then have "?k \<le> length history" using alternating_le by metis
  moreover have "list_all (\<lambda>i. tc_argsHash (rev history ! i) = (if even i then tc_argsHash final else sig)) [0..<?k]"
    unfolding Cons k(2) list_all_iff using alternating_nth by auto
  moreover have "pp_noProgressEvidence pp \<Longrightarrow> \<exists>ra rb. list_all (\<lambda>c. tc_resultHash c = Some (if tc_argsHash c = tc_argsHash final then ra else rb))
      (drop (length history - ?k) history)"
    using steady_evidence [of "tc_argsHash final" "tc_argsHash other" None None] ne pp by fastforce
  ultimately show ?thesis using pp k ne by (intro exI [of _ "tc_argsHash final"] exI [of _ ?k]) simp
qed

section \<open>A call is only blocked with evidence\<close>

text \<open>What a critical finding says about the history.  The count of an alternation of \<open>k\<close> calls of the history is \<open>k + 1\<close>.\<close>

definition loop_evidence :: "loop_config \<Rightarrow> tool_call list \<Rightarrow> jsstr \<Rightarrow> jsstr \<Rightarrow> loop_finding \<Rightarrow> bool" where
  "loop_evidence cfg history toolName argsHash f \<longleftrightarrow> (case lf_detector f of
     UnknownToolRepeat \<Rightarrow> lc_unknownToolThreshold cfg \<le> lf_count f \<and> lf_count f \<le> length history
       \<and> (\<exists>u. filled u \<and> list_all (\<lambda>c. tc_toolName c = toolName \<and> tc_unknownToolName c = u) (take (lf_count f) (rev history)))
   | GlobalCircuitBreaker \<Rightarrow> lc_globalThreshold cfg \<le> lf_count f
       \<and> (\<exists>r. filled r \<and> lf_count f \<le> length (filter (\<lambda>c. tc_toolName c = toolName \<and> tc_argsHash c = argsHash \<and> tc_resultHash c = r) history))
   | KnownPollNoProgress \<Rightarrow> lc_criticalThreshold cfg \<le> lf_count f
       \<and> (\<exists>r. filled r \<and> lf_count f \<le> length (filter (\<lambda>c. tc_toolName c = toolName \<and> tc_argsHash c = argsHash \<and> tc_resultHash c = r) history))
   | PingPong \<Rightarrow> (\<exists>paired k ra rb. lf_count f = Suc k \<and> lc_criticalThreshold cfg \<le> Suc k \<and> 2 \<le> k \<and> k \<le> length history \<and> paired \<noteq> argsHash
           \<and> list_all (\<lambda>i. tc_argsHash (rev history ! i) = (if even i then paired else argsHash)) [0..<k]
           \<and> list_all (\<lambda>c. tc_resultHash c = Some (if tc_argsHash c = paired then ra else rb)) (drop (length history - k) history))
   | GenericRepeat \<Rightarrow> False)"

lemma finding_simps [simp]:
  "finding l d n m p k = Some f \<longleftrightarrow> f = \<lparr> lf_level = l, lf_detector = d, lf_count = n, lf_message = m, lf_pairedToolName = p, lf_warningKey = k \<rparr>"
  "finding l d n m p k \<noteq> None"
  by (auto simp: finding_def)

lemma detect_critical:
  assumes "detect cfg history tn ah poll = Some f" and "lf_level f = LoopCritical"
  shows "let (u, un) = getUnknownToolRepeatStreak history tn; (n, r) = getNoProgressStreak history tn ah; pp = getPingPongStreak history ah in
    (lf_detector f = UnknownToolRepeat \<and> lf_count f = u \<and> lc_unknownToolThreshold cfg \<le> u)
    \<or> (lf_detector f = GlobalCircuitBreaker \<and> lf_count f = n \<and> lc_globalThreshold cfg \<le> n)
    \<or> (lf_detector f = KnownPollNoProgress \<and> lf_count f = n \<and> lc_criticalThreshold cfg \<le> n)
    \<or> (lf_detector f = PingPong \<and> lf_count f = pp_count pp \<and> lc_criticalThreshold cfg \<le> pp_count pp \<and> pp_noProgressEvidence pp)"
  using assms unfolding detect_def by (auto simp: Let_def split: prod.splits if_splits)

lemma critical_evidence:
  assumes "detect cfg history tn h poll = Some f" and "lf_level f = LoopCritical" and "cfg = resolveLoopDetectionConfig config"
  shows "loop_evidence cfg history tn h f"
proof -
  obtain u un where u: "getUnknownToolRepeatStreak history tn = (u, un)" by (cases "getUnknownToolRepeatStreak history tn")
  obtain n r where n: "getNoProgressStreak history tn h = (n, r)" by (cases "getNoProgressStreak history tn h")
  define pp where "pp = getPingPongStreak history h"
  have sane: "0 < lc_unknownToolThreshold cfg" "0 < lc_criticalThreshold cfg" "0 < lc_globalThreshold cfg"
    using assms(3) config_sane [of config] by (auto simp: Let_def)
  consider (unknown) "lf_detector f = UnknownToolRepeat" "lf_count f = u" "lc_unknownToolThreshold cfg \<le> u"
    | (breaker) "lf_detector f = GlobalCircuitBreaker" "lf_count f = n" "lc_globalThreshold cfg \<le> n"
    | (poll) "lf_detector f = KnownPollNoProgress" "lf_count f = n" "lc_criticalThreshold cfg \<le> n"
    | (pair) "lf_detector f = PingPong" "lf_count f = pp_count pp" "lc_criticalThreshold cfg \<le> pp_count pp" "pp_noProgressEvidence pp"
    using detect_critical [OF assms(1,2)] unfolding u n pp_def Let_def prod.case by blast
  then show ?thesis
  proof cases
    case unknown
    then show ?thesis using unknown_evidence [OF u] sane(1) by (auto simp: loop_evidence_def)
  next
    case breaker
    then show ?thesis using no_progress_evidence [OF n] sane(3) by (auto simp: loop_evidence_def)
  next
    case poll
    then show ?thesis using no_progress_evidence [OF n] sane(2) by (auto simp: loop_evidence_def)
  next
    case pair
    then have n: "0 < pp_count pp" using sane(2) by simp
    obtain paired k where k: "pp_count pp = Suc k" "2 \<le> k" "k \<le> length history" "pp_pairedSignature pp = Some paired" "paired \<noteq> h"
      "list_all (\<lambda>i. tc_argsHash (rev history ! i) = (if even i then paired else h)) [0..<k]"
      "pp_noProgressEvidence pp \<longrightarrow> (\<exists>ra rb. list_all (\<lambda>c. tc_resultHash c = Some (if tc_argsHash c = paired then ra else rb)) (drop (length history - k) history))"
      using ping_pong_evidence [OF pp_def [symmetric] n] by (elim exE conjE) (rule that; assumption)
    obtain ra rb where "list_all (\<lambda>c. tc_resultHash c = Some (if tc_argsHash c = paired then ra else rb)) (drop (length history - k) history)"
      using mp [OF k(7) pair(4)] by (elim exE) (rule that)
    then show ?thesis using pair(1-3) k unfolding loop_evidence_def pair(1) loop_detector.case
      by (intro conjI exI [of _ paired] exI [of _ k] exI [of _ ra] exI [of _ rb]) simp_all
  qed
qed

text \<open>C34: A call is only blocked with evidence in the history: for a tool that does not exist, at least as many calls at the end of
  the history that failed so as the threshold; for the circuit breaker and for polling, at least so many calls with the same arguments
  and the same outcome; for two calls in alternation, at the end of the history at least one call fewer than the threshold (and no
  fewer than two) that alternate, each side with one and the same outcome.  For the alternation the code counts the call that is
  being checked, which goes on alternating, and for the other rules it does not.\<close>

theorem block_is_justified:
  assumes "detectToolCallLoop sha history toolName params config = Some (Some f)" and "lf_level f = LoopCritical"
  shows "\<exists>h. hashToolCall sha toolName params = Some h \<and> loop_evidence (resolveLoopDetectionConfig config) history toolName h f"
  using assms critical_evidence [OF _ assms(2) refl] by (auto simp: detectToolCallLoop_def Let_def split: if_splits)

definition strict_settings :: loop_settings where
  "strict_settings = \<lparr> lt_enabled = Some True, lt_historySize = Some (Fin 5), lt_warningThreshold = Some (Fin 1), lt_unknownToolThreshold = None,
     lt_criticalThreshold = Some (Fin 2), lt_globalCircuitBreakerThreshold = Some (Fin 3), lt_genericRepeat = None, lt_knownPollNoProgress = None,
     lt_pingPong = None \<rparr>"

definition stuck_call :: tool_call where
  "stuck_call = \<lparr> tc_toolName = js ''t'', tc_argsHash = js ''t:null'', tc_toolCallId = None, tc_resultHash = Some (js ''r''), tc_unknownToolName = None,
     tc_timestamp = 0 \<rparr>"

definition stuck_finding :: loop_finding where
  "stuck_finding = \<lparr> lf_level = LoopCritical, lf_detector = GlobalCircuitBreaker, lf_count = 3,
     lf_message = js ''CRITICAL: t has repeated identical no-progress outcomes 3 times. Session execution blocked by global circuit breaker to prevent runaway loops.'',
     lf_pairedToolName = None, lf_warningKey = js ''global:t:t:null:r'' \<rparr>"

lemma stuck_detected:
  "detectToolCallLoop (\<lambda>s. s) [stuck_call, stuck_call, stuck_call] (js ''t'') VNull (Some strict_settings) = Some (Some stuck_finding)"
  by code_simp

text \<open>Two calls in alternation, and a third that goes on: with a threshold of three, two calls in the history are enough.\<close>

definition alternation_settings :: loop_settings where
  "alternation_settings = strict_settings\<lparr> lt_criticalThreshold := Some (Fin 3), lt_globalCircuitBreakerThreshold := Some (Fin 4) \<rparr>"

definition alternation :: "tool_call list" where
  "alternation = [stuck_call, stuck_call\<lparr> tc_argsHash := js ''t:x'', tc_resultHash := Some (js ''q'') \<rparr>]"

lemma alternation_detected:
  "(case detectToolCallLoop (\<lambda>s. s) alternation (js ''t'') VNull (Some alternation_settings) of
     Some (Some f) \<Rightarrow> lf_level f = LoopCritical \<and> lf_detector f = PingPong \<and> lf_count f = 3 | _ \<Rightarrow> False)
   \<and> lc_criticalThreshold (resolveLoopDetectionConfig (Some alternation_settings)) = 3"
  by code_simp

lemma block_is_justified_witness:
  "(\<exists>h. hashToolCall (\<lambda>s. s) (js ''t'') VNull = Some h
     \<and> loop_evidence (resolveLoopDetectionConfig (Some strict_settings)) [stuck_call, stuck_call, stuck_call] (js ''t'') h stuck_finding)
   \<and> (\<exists>h f. lf_detector f = PingPong \<and> lf_count f = 3
     \<and> loop_evidence (resolveLoopDetectionConfig (Some alternation_settings)) alternation (js ''t'') h f)"
proof
  show "\<exists>h. hashToolCall (\<lambda>s. s) (js ''t'') VNull = Some h
     \<and> loop_evidence (resolveLoopDetectionConfig (Some strict_settings)) [stuck_call, stuck_call, stuck_call] (js ''t'') h stuck_finding"
    by (rule block_is_justified [OF stuck_detected]) (simp add: stuck_finding_def)
  obtain f where "detectToolCallLoop (\<lambda>s. s) alternation (js ''t'') VNull (Some alternation_settings) = Some (Some f)"
      "lf_level f = LoopCritical" "lf_detector f = PingPong" "lf_count f = 3"
    using alternation_detected by (auto split: option.splits)
  then show "\<exists>h f. lf_detector f = PingPong \<and> lf_count f = 3
     \<and> loop_evidence (resolveLoopDetectionConfig (Some alternation_settings)) alternation (js ''t'') h f"
    using block_is_justified by blast
qed

section \<open>Calls that repeat\<close>

text \<open>One more call with its outcome: the history is a window over the calls.\<close>

lemma executed_history:
  assumes "hashToolCall sha tn ps = Some h" and "hashToolOutcome sha tn ps result err = Some (Some r, u)" and "r \<noteq> []"
    and "recordLoopCall sha history tn ps callId config t1 = Some h1" and "recordToolCallOutcome sha h1 tn ps callId result err config t2 = Some h2"
  shows "rev h2 = take (lc_historySize (resolveLoopDetectionConfig config)) (\<lparr> tc_toolName = tn, tc_argsHash = h, tc_toolCallId = callId,
    tc_resultHash = Some r, tc_unknownToolName = u, tc_timestamp = t1 \<rparr> # rev history)"
proof -
  let ?size = "lc_historySize (resolveLoopDetectionConfig config)"
  let ?pending = "\<lparr> tc_toolName = tn, tc_argsHash = h, tc_toolCallId = callId, tc_resultHash = None, tc_unknownToolName = None, tc_timestamp = t1 \<rparr>"
  let ?finished = "\<lparr> tc_toolName = tn, tc_argsHash = h, tc_toolCallId = callId, tc_resultHash = Some r, tc_unknownToolName = u, tc_timestamp = t1 \<rparr>"
  have size: "0 < ?size" using config_sane [of config] by (auto simp: Let_def)
  define old where "old = (if ?size < Suc (length history) then tl history else history)"
  have "h1 = (if ?size < Suc (length history) then tl (history @ [?pending]) else history @ [?pending])"
    using assms(1,4) by (simp add: recordLoopCall_def Let_def)
  then have h1: "h1 = old @ [?pending]" using size by (cases history) (simp_all add: old_def)
  have "h2 = drop (length (old @ [?finished]) - ?size) (old @ [?finished])"
    using assms(1,2,3,5) by (simp add: recordToolCallOutcome_def h1 filled_def awaits_outcome_def Let_def)
  then have "rev h2 = take ?size (rev (old @ [?finished]))" by (simp only: take_rev)
  then have "rev h2 = take ?size (?finished # rev old)" by simp
  also have "\<dots> = take ?size (?finished # rev history)"
  proof (cases "?size < Suc (length history)")
    case True
    then obtain k where k: "?size = Suc k" "k < length (rev history)" using size by (cases ?size) auto
    have "take k (rev old) = take k (rev history)"
      using True take_butlast [OF k(2)] by (simp add: old_def butlast_rev)
    then show ?thesis by (simp add: k(1))
  qed (simp add: old_def)
  finally show ?thesis .
qed

end
