(* ===== verification/ToolGuard.thy ===== *)
theory ToolGuard
  imports ToolLoop
begin

text \<open>
  The guard around every tool call: \<open>src/src/agents/pi-tools.before-tool-call.ts\<close> over the states of
  \<open>src/src/logging/diagnostic-session-state.ts\<close>.  What a plugin's hook, the gateway's approval and the tool itself answer
  are parameters of a call.  A call is asynchronous: \<open>guard_step\<close> takes its segments one by one, so calls can overlap, and
  \<open>executeWrapped\<close> is the call that no other one overlaps.  The theorems bound how often a call that gets nowhere is
  executed, and say when the guard does not see such calls.
\<close>

section \<open>States of sessions\<close>

datatype session_activity = SessionIdle | SessionProcessing | SessionWaiting

record diagnostic_state =
  st_sessionId :: "jsstr option"
  st_sessionKey :: "jsstr option"
  st_lastActivity :: rat
  st_state :: session_activity
  st_queueDepth :: int
  st_toolCallHistory :: "tool_call list"
  st_toolLoopWarningBuckets :: "(jsstr, nat) jsmap"

text \<open>The states, the time of the last clean-up, and the parameters as adjusted by hooks.\<close>

record guard_world =
  gw_sessions :: "(jsstr, diagnostic_state) jsmap"
  gw_lastSessionPruneAt :: rat
  gw_adjustedParams :: "(jsstr, jsval) jsmap"

definition SESSION_STATE_TTL_MS :: rat where "SESSION_STATE_TTL_MS = 30 * 60 * 1000"
definition SESSION_STATE_PRUNE_INTERVAL_MS :: rat where "SESSION_STATE_PRUNE_INTERVAL_MS = 60 * 1000"
definition SESSION_STATE_MAX_ENTRIES :: nat where "SESSION_STATE_MAX_ENTRIES = 2000"

definition outdated :: "rat \<Rightarrow> diagnostic_state \<Rightarrow> bool" where
  "outdated now s \<longleftrightarrow> st_state s = SessionIdle \<and> st_queueDepth s \<le> 0 \<and> SESSION_STATE_TTL_MS < now - st_lastActivity s"

definition pruneDiagnosticSessionStates :: "rat \<Rightarrow> bool \<Rightarrow> guard_world \<Rightarrow> guard_world" where
  "pruneDiagnosticSessionStates now force w =
    (let shouldPruneForSize = SESSION_STATE_MAX_ENTRIES < length (gw_sessions w) in
     if \<not> force \<and> \<not> shouldPruneForSize \<and> now - gw_lastSessionPruneAt w < SESSION_STATE_PRUNE_INTERVAL_MS then w
     else (let kept = filter (\<lambda>(key, s). \<not> outdated now s) (gw_sessions w);
          ordered = sort_key (\<lambda>(key, s). st_lastActivity s) kept;
          excess = takeWhile (\<lambda>key. key \<noteq> []) (map fst (take (length kept - SESSION_STATE_MAX_ENTRIES) ordered))
       in w\<lparr> gw_lastSessionPruneAt := now,
            gw_sessions := (if length kept \<le> SESSION_STATE_MAX_ENTRIES then kept else filter (\<lambda>(key, s). key \<notin> set excess) kept) \<rparr>))"

definition resolveSessionKey :: "jsstr option \<Rightarrow> jsstr option \<Rightarrow> jsstr" where
  "resolveSessionKey sessionKey sessionId = opt_or (orElse sessionKey sessionId) (js ''unknown'')"

definition findStateBySessionId :: "jsstr \<Rightarrow> (jsstr, diagnostic_state) jsmap \<Rightarrow> jsstr option" where
  "findStateBySessionId sessionId sessions = map_option fst (find (\<lambda>(key, s). st_sessionId s = Some sessionId) sessions)"

definition new_session :: "jsstr option \<Rightarrow> jsstr option \<Rightarrow> rat \<Rightarrow> diagnostic_state" where
  "new_session sessionKey sessionId now = \<lparr> st_sessionId = sessionId, st_sessionKey = sessionKey, st_lastActivity = now, st_state = SessionIdle,
     st_queueDepth = 0, st_toolCallHistory = [], st_toolLoopWarningBuckets = [] \<rparr>"

text \<open>The key under which the state is, the state, and the states.\<close>

definition getDiagnosticSessionState :: "jsstr option \<Rightarrow> jsstr option \<Rightarrow> rat \<Rightarrow> guard_world \<Rightarrow> jsstr \<times> diagnostic_state \<times> guard_world" where
  "getDiagnosticSessionState sessionKey sessionId now w0 =
    (let w = pruneDiagnosticSessionStates now False w0; key = resolveSessionKey sessionKey sessionId;
         found = (if mhas (gw_sessions w) key then Some key
           else if filled sessionId then findStateBySessionId (the sessionId) (gw_sessions w) else None)
     in case found of
          Some k \<Rightarrow>
            (let s = the (mget (gw_sessions w) k); s1 = (if filled sessionId then s\<lparr> st_sessionId := sessionId \<rparr> else s);
                 s2 = (if filled sessionKey then s1\<lparr> st_sessionKey := sessionKey \<rparr> else s1)
             in (k, s2, w\<lparr> gw_sessions := mput (gw_sessions w) k s2 \<rparr>))
        | None \<Rightarrow>
            (let created = new_session sessionKey sessionId now in
             (key, created, pruneDiagnosticSessionStates now True (w\<lparr> gw_sessions := mput (gw_sessions w) key created \<rparr>))))"

text \<open>A change of a state that was handed out; it is lost if the state was removed meanwhile.\<close>

definition put_state :: "jsstr \<Rightarrow> diagnostic_state \<Rightarrow> guard_world \<Rightarrow> guard_world" where
  "put_state key s w = (if mhas (gw_sessions w) key then w\<lparr> gw_sessions := mput (gw_sessions w) key s \<rparr> else w)"

section \<open>Warnings\<close>

definition LOOP_WARNING_BUCKET_SIZE :: nat where "LOOP_WARNING_BUCKET_SIZE = 10"
definition MAX_LOOP_WARNING_KEYS :: nat where "MAX_LOOP_WARNING_KEYS = 256"
definition MAX_TRACKED_ADJUSTED_PARAMS :: nat where "MAX_TRACKED_ADJUSTED_PARAMS = 1024"

definition drop_oldest :: "nat \<Rightarrow> (jsstr, 'v) jsmap \<Rightarrow> (jsstr, 'v) jsmap" where
  "drop_oldest most m = (if most < length m \<and> fst (hd m) \<noteq> [] then mdel m (fst (hd m)) else m)"

definition shouldEmitLoopWarning :: "diagnostic_state \<Rightarrow> jsstr \<Rightarrow> nat \<Rightarrow> bool \<times> diagnostic_state" where
  "shouldEmitLoopWarning s warningKey n =
    (let bucket = n div LOOP_WARNING_BUCKET_SIZE; lastBucket = opt_or (mget (st_toolLoopWarningBuckets s) warningKey) 0 in
     if bucket \<le> lastBucket then (False, s)
     else (True, s\<lparr> st_toolLoopWarningBuckets := drop_oldest MAX_LOOP_WARNING_KEYS (mput (st_toolLoopWarningBuckets s) warningKey bucket) \<rparr>))"

section \<open>Hooks and approvals\<close>

datatype approval_resolution = AllowOnce | AllowAlways | Deny | ApprovalTimeout | ApprovalCancelled

record approval =
  ap_description :: jsstr
  ap_timeoutAllows :: bool

record hook_result =
  hr_params :: "jsval option"
  hr_block :: bool
  hr_blockReason :: "jsstr option"
  hr_requireApproval :: "approval option"

text \<open>No hook is registered, a hook threw, or the merged result of the hooks.\<close>

datatype hook_answer = NoHooks | HookThrew | HookSays hook_result

text \<open>
  The gateway's answer to a request of approval: a call failed (because the run was aborted or not), the request has no
  id, its answer carries the decision (\<open>None\<close> for null), or the decision was waited for.
\<close>

datatype approval_answer = GatewayFailed bool | RequestWithoutId | DecidedAtOnce "jsstr option" | DecidedLater "jsstr option"

datatype hook_outcome = Blocked jsstr | Allowed jsval | Raised

definition mergeParamsWithApprovalOverrides :: "jsval \<Rightarrow> jsval option \<Rightarrow> jsval" where
  "mergeParamsWithApprovalOverrides originalParams approvalParams = (case approvalParams of
     Some (VObj fs) \<Rightarrow> if isRecord originalParams then spread originalParams (VObj fs) else VObj fs
   | _ \<Rightarrow> originalParams)"

definition resolution_of :: "jsstr option \<Rightarrow> approval_resolution" where
  "resolution_of decision =
    (if decision = Some (js ''allow-once'') then AllowOnce
     else if decision = Some (js ''allow-always'') then AllowAlways
     else if decision = Some (js ''deny'') then Deny
     else ApprovalTimeout)"

definition decided :: "approval \<Rightarrow> jsval \<Rightarrow> jsval option \<Rightarrow> jsstr option \<Rightarrow> hook_outcome \<times> approval_resolution" where
  "decided a params overrides decision =
    (let resolution = resolution_of decision; allowed = Allowed (mergeParamsWithApprovalOverrides params overrides) in
     (if resolution = AllowOnce \<or> resolution = AllowAlways then allowed
      else if resolution = Deny then Blocked (js ''Denied by user'')
      else if ap_timeoutAllows a then allowed
      else Blocked (js ''Approval timed out''), resolution))"

definition run_approval :: "approval \<Rightarrow> jsval \<Rightarrow> jsval option \<Rightarrow> approval_answer \<Rightarrow> hook_outcome \<times> approval_resolution" where
  "run_approval a params overrides answer = (case answer of
     GatewayFailed aborted \<Rightarrow>
       (Blocked (if aborted then js ''Approval cancelled (run aborted)'' else js ''Plugin approval required (gateway unavailable)''), ApprovalCancelled)
   | RequestWithoutId \<Rightarrow>
       (Blocked (if ap_description a = [] then js ''Plugin approval request failed'' else ap_description a), ApprovalCancelled)
   | DecidedAtOnce None \<Rightarrow> (Blocked (js ''Plugin approval unavailable (no approval route)''), ApprovalCancelled)
   | DecidedAtOnce (Some d) \<Rightarrow> decided a params overrides (Some d)
   | DecidedLater d \<Rightarrow> decided a params overrides d)"

text \<open>What the hooks make of a call, with what a plugin is told about its request of approval.\<close>

definition run_hooks :: "hook_answer \<Rightarrow> approval_answer \<Rightarrow> jsval \<Rightarrow> hook_outcome \<times> approval_resolution option" where
  "run_hooks hook answer params = (case hook of
     NoHooks \<Rightarrow> (Allowed params, None)
   | HookThrew \<Rightarrow> (Blocked (js ''Tool call blocked because before_tool_call hook failed''), None)
   | HookSays r \<Rightarrow>
      if hr_block r
      then (Blocked (if filled (hr_blockReason r) then the (hr_blockReason r) else js ''Tool call blocked by plugin hook''), None)
      else (case hr_requireApproval r of
         Some a \<Rightarrow> (let (out, resolution) = run_approval a params (hr_params r) answer in (out, Some resolution))
       | None \<Rightarrow> (Allowed (mergeParamsWithApprovalOverrides params (hr_params r)), None)))"

section \<open>Before a call\<close>

record hook_context =
  hc_agentId :: "jsstr option"
  hc_sessionKey :: "jsstr option"
  hc_runId :: "jsstr option"
  hc_loopDetection :: "loop_settings option"

definition normalizeToolName :: "jsstr \<Rightarrow> jsstr" where
  "normalizeToolName name =
    (let normalized = normalizeLowercaseStringOrEmpty (Some name) in
     if normalized = js ''bash'' then js ''exec'' else if normalized = js ''apply-patch'' then js ''apply_patch'' else normalized)"

definition named :: "jsstr \<Rightarrow> jsstr" where
  "named toolName = normalizeToolName (if toolName = [] then js ''tool'' else toolName)"

text \<open>The check for loops: the reason to block the call, or the state in which the call is recorded; \<open>None\<close> if it throws.\<close>

definition check_loop ::
    "(jsstr \<Rightarrow> jsstr) \<Rightarrow> jsstr \<Rightarrow> jsval \<Rightarrow> jsstr option \<Rightarrow> loop_settings option \<Rightarrow> rat \<Rightarrow> diagnostic_state \<Rightarrow> (jsstr + diagnostic_state) option" where
  "check_loop sha toolName params toolCallId config now s =
    (case detectToolCallLoop sha (st_toolCallHistory s) toolName params config of
       None \<Rightarrow> None
     | Some found \<Rightarrow>
        let critical = (case found of Some f \<Rightarrow> lf_level f = LoopCritical | None \<Rightarrow> False);
            warned = (case found of Some f \<Rightarrow> snd (shouldEmitLoopWarning s (lf_warningKey f) (lf_count f)) | None \<Rightarrow> s)
        in if critical then Some (Inl (lf_message (the found)))
           else map_option (\<lambda>history. Inr (warned\<lparr> st_toolCallHistory := history \<rparr>))
             (recordLoopCall sha (st_toolCallHistory s) toolName params toolCallId config now))"

definition runBeforeToolCallHook ::
    "(jsstr \<Rightarrow> jsstr) \<Rightarrow> hook_context option \<Rightarrow> jsstr \<Rightarrow> jsval \<Rightarrow> jsstr option \<Rightarrow> hook_answer \<Rightarrow> approval_answer \<Rightarrow> rat \<Rightarrow> guard_world
      \<Rightarrow> (hook_outcome \<times> approval_resolution option) \<times> guard_world" where
  "runBeforeToolCallHook sha ctx toolName0 params toolCallId hook answer now w =
    (let toolName = named toolName0 in
     if filled (Option.bind ctx hc_sessionKey)
     then (let (key, s, w1) = getDiagnosticSessionState (Option.bind ctx hc_sessionKey) (Option.bind ctx hc_agentId) now w in
       case check_loop sha toolName params toolCallId (Option.bind ctx hc_loopDetection) now s of
         None \<Rightarrow> ((Raised, None), w1)
       | Some (Inl reason) \<Rightarrow> ((Blocked reason, None), w1)
       | Some (Inr s1) \<Rightarrow> (run_hooks hook answer params, put_state key s1 w1))
     else (run_hooks hook answer params, w))"

section \<open>A whole call\<close>

text \<open>The end of a tool: a value, or what it threw.\<close>

datatype tool_end = ToolReturned jsval | ToolThrew thrown_value

definition end_values :: "tool_end \<Rightarrow> jsval \<times> thrown_value option" where
  "end_values finished = (case finished of
     ToolReturned v \<Rightarrow> (v, None)
   | ToolThrew e \<Rightarrow> (VUndef, if e = ThrownValue VUndef then None else Some e))"

definition recordLoopOutcome ::
    "(jsstr \<Rightarrow> jsstr) \<Rightarrow> hook_context option \<Rightarrow> jsstr \<Rightarrow> jsval \<Rightarrow> jsstr option \<Rightarrow> tool_end \<Rightarrow> rat \<Rightarrow> guard_world \<Rightarrow> guard_world" where
  "recordLoopOutcome sha ctx toolName toolParams toolCallId finished now w =
    (if \<not> filled (Option.bind ctx hc_sessionKey) then w
     else (let (key, s, w1) = getDiagnosticSessionState (Option.bind ctx hc_sessionKey) (Option.bind ctx hc_agentId) now w;
         (result, error) = end_values finished
       in case recordToolCallOutcome sha (st_toolCallHistory s) toolName toolParams toolCallId result error (Option.bind ctx hc_loopDetection) now of
            None \<Rightarrow> w1
          | Some history \<Rightarrow> put_state key (s\<lparr> st_toolCallHistory := history \<rparr>) w1))"

definition buildAdjustedParamsKey :: "jsstr option \<Rightarrow> jsstr \<Rightarrow> jsstr" where
  "buildAdjustedParamsKey runId toolCallId = (case runId of
     Some r \<Rightarrow> if r \<noteq> [] \<and> trim r \<noteq> [] then r @ js '':'' @ toolCallId else toolCallId
   | None \<Rightarrow> toolCallId)"

definition track_params :: "hook_context option \<Rightarrow> jsstr \<Rightarrow> jsval \<Rightarrow> guard_world \<Rightarrow> guard_world" where
  "track_params ctx toolCallId params w =
    (if toolCallId = [] then w
     else w\<lparr> gw_adjustedParams := drop_oldest MAX_TRACKED_ADJUSTED_PARAMS
       (mput (gw_adjustedParams w) (buildAdjustedParamsKey (Option.bind ctx hc_runId) toolCallId) params) \<rparr>)"

definition consumeAdjustedParamsForToolCall :: "jsstr \<Rightarrow> jsstr option \<Rightarrow> guard_world \<Rightarrow> jsval option \<times> guard_world" where
  "consumeAdjustedParamsForToolCall toolCallId runId w =
    (let key = buildAdjustedParamsKey runId toolCallId in
     (mget (gw_adjustedParams w) key, w\<lparr> gw_adjustedParams := mdel (gw_adjustedParams w) key \<rparr>))"

text \<open>A call of a wrapped tool: what is asked for, what the hooks and the gateway answer, when, and how the tool ends on given parameters.\<close>

record tool_request =
  rq_context :: "hook_context option"
  rq_toolName :: jsstr
  rq_params :: jsval
  rq_toolCallId :: jsstr
  rq_hook :: hook_answer
  rq_approval :: approval_answer
  rq_startedAt :: rat
  rq_finishedAt :: rat
  rq_tool :: "jsval \<Rightarrow> tool_end"

text \<open>What a call did: it threw before the tool was run, or the tool was run and ended.\<close>

datatype call_end = Refused "jsstr option" | Ran tool_end

definition executeWrapped :: "(jsstr \<Rightarrow> jsstr) \<Rightarrow> guard_world \<Rightarrow> tool_request \<Rightarrow> guard_world \<times> call_end list" where
  "executeWrapped sha w rq =
    (let ctx = rq_context rq; toolName = (if rq_toolName rq = [] then js ''tool'' else rq_toolName rq);
         (before, w1) = runBeforeToolCallHook sha ctx toolName (rq_params rq) (Some (rq_toolCallId rq)) (rq_hook rq) (rq_approval rq) (rq_startedAt rq) w
     in case fst before of
          Raised \<Rightarrow> (w1, [Refused None])
        | Blocked reason \<Rightarrow> (w1, [Refused (Some reason)])
        | Allowed params \<Rightarrow>
            (let w2 = track_params ctx (rq_toolCallId rq) params w1; finished = rq_tool rq params in
             (recordLoopOutcome sha ctx (named toolName) params (Some (rq_toolCallId rq)) finished (rq_finishedAt rq) w2, [Ran finished])))"

section \<open>Calls that overlap\<close>

text \<open>
  The wrapper is asynchronous.  Between its awaits it runs in three segments: the check of the call, which records it;
  once the hooks and the gateway have answered, the tracking of the parameters and the start of the tool; and at the end of
  the tool the recording of its outcome.  Calls of one session overlap when segments of others come between: the machine
  below takes the segments in any order, each under the number of its call.
\<close>

datatype open_call = AwaitsHooks tool_request hook_outcome | RunsTool tool_request jsval

datatype guard_event = CallBegins nat tool_request | HooksAnswered nat | CallEnds nat

record guard_machine =
  gm_world :: guard_world
  gm_open :: "(nat, open_call) jsmap"

definition wrapped_name :: "tool_request \<Rightarrow> jsstr" where
  "wrapped_name rq = (if rq_toolName rq = [] then js ''tool'' else rq_toolName rq)"

fun guard_step :: "(jsstr \<Rightarrow> jsstr) \<Rightarrow> guard_machine \<Rightarrow> guard_event \<Rightarrow> guard_machine \<times> call_end list" where
  "guard_step sha m (CallBegins i rq) =
    (let (before, w1) = runBeforeToolCallHook sha (rq_context rq) (wrapped_name rq) (rq_params rq) (Some (rq_toolCallId rq))
           (rq_hook rq) (rq_approval rq) (rq_startedAt rq) (gm_world m)
     in (m\<lparr> gm_world := w1, gm_open := mput (gm_open m) i (AwaitsHooks rq (fst before)) \<rparr>, []))"
| "guard_step sha m (HooksAnswered i) = (case mget (gm_open m) i of
     Some (AwaitsHooks rq out) \<Rightarrow> (case out of
         Raised \<Rightarrow> (m\<lparr> gm_open := mdel (gm_open m) i \<rparr>, [Refused None])
       | Blocked reason \<Rightarrow> (m\<lparr> gm_open := mdel (gm_open m) i \<rparr>, [Refused (Some reason)])
       | Allowed params \<Rightarrow> (m\<lparr> gm_world := track_params (rq_context rq) (rq_toolCallId rq) params (gm_world m),
             gm_open := mput (gm_open m) i (RunsTool rq params) \<rparr>, []))
   | _ \<Rightarrow> (m, []))"
| "guard_step sha m (CallEnds i) = (case mget (gm_open m) i of
     Some (RunsTool rq params) \<Rightarrow>
       (m\<lparr> gm_world := recordLoopOutcome sha (rq_context rq) (named (wrapped_name rq)) params (Some (rq_toolCallId rq)) (rq_tool rq params)
             (rq_finishedAt rq) (gm_world m),
           gm_open := mdel (gm_open m) i \<rparr>, [Ran (rq_tool rq params)])
   | _ \<Rightarrow> (m, []))"

definition idle_machine :: "guard_world \<Rightarrow> guard_machine" where
  "idle_machine w = \<lparr> gm_world = w, gm_open = [] \<rparr>"

lemma idle_machine_fields [simp]: "gm_world (idle_machine w) = w" "gm_open (idle_machine w) = []"
  by (simp_all add: idle_machine_def)

text \<open>Calls one after another, each at its end before the next begins; and calls that all begin before the first one ends.\<close>

definition one_after_another :: "tool_request list \<Rightarrow> guard_event list" where
  "one_after_another rqs = concat (map (\<lambda>rq. [CallBegins 0 rq, HooksAnswered 0, CallEnds 0]) rqs)"

definition all_at_once :: "tool_request list \<Rightarrow> guard_event list" where
  "all_at_once rqs = map (\<lambda>(i, rq). CallBegins i rq) (zip [0..<length rqs] rqs) @ map HooksAnswered [0..<length rqs] @ map CallEnds [0..<length rqs]"

text \<open>A call that no other one overlaps is \<open>executeWrapped\<close>.\<close>

lemma whole_call:
  "run_ops (guard_step sha) (idle_machine w) [CallBegins 0 rq, HooksAnswered 0, CallEnds 0]
    = (idle_machine (fst (executeWrapped sha w rq)), snd (executeWrapped sha w rq))"
  by (simp add: executeWrapped_def idle_machine_def wrapped_name_def Let_def case_prod_beta mdel_def mput_def mget_def split: hook_outcome.split)

lemma one_after_another_runs:
  "run_ops (guard_step sha) (idle_machine w) (one_after_another rqs)
    = (idle_machine (fst (run_ops (executeWrapped sha) w rqs)), snd (run_ops (executeWrapped sha) w rqs))"
proof (induction rqs arbitrary: w)
  case (Cons rq rqs)
  have "one_after_another (rq # rqs) = [CallBegins 0 rq, HooksAnswered 0, CallEnds 0] @ one_after_another rqs"
    by (simp add: one_after_another_def)
  then show ?case
    using Cons.IH [of "fst (executeWrapped sha w rq)"]
    by (simp only: run_ops_append whole_call) (simp add: Let_def case_prod_beta)
qed (simp add: one_after_another_def)

section \<open>A busy session keeps its state\<close>

definition processing_session :: "jsstr \<Rightarrow> guard_world \<Rightarrow> bool" where
  "processing_session key w \<longleftrightarrow> key \<noteq> [] \<and> distinct (mkeys (gw_sessions w)) \<and> length (gw_sessions w) \<le> SESSION_STATE_MAX_ENTRIES
     \<and> (\<exists>s. mget (gw_sessions w) key = Some s \<and> st_state s \<noteq> SessionIdle)"

definition tool_history :: "jsstr \<Rightarrow> guard_world \<Rightarrow> tool_call list" where
  "tool_history key w = (case mget (gw_sessions w) key of Some s \<Rightarrow> st_toolCallHistory s | None \<Rightarrow> [])"

lemma length_mput_present: "mhas m k \<Longrightarrow> length (mput m k v) = length m"
  using mkeys_mput_present [of m k v] by (metis length_map)

lemma prune_busy:
  assumes "processing_session key w"
  shows "processing_session key (pruneDiagnosticSessionStates now force w)
    \<and> mget (gw_sessions (pruneDiagnosticSessionStates now force w)) key = mget (gw_sessions w) key"
proof -
  obtain s where s: "mget (gw_sessions w) key = Some s" "st_state s \<noteq> SessionIdle" and d: "distinct (mkeys (gw_sessions w))"
    and n: "length (gw_sessions w) \<le> SESSION_STATE_MAX_ENTRIES" and k: "key \<noteq> []" using assms by (auto simp: processing_session_def)
  let ?kept = "filter (\<lambda>(key, s). \<not> outdated now s) (gw_sessions w)"
  have "length ?kept \<le> SESSION_STATE_MAX_ENTRIES" using n length_filter_le [of "\<lambda>(key, s). \<not> outdated now s" "gw_sessions w"] by linarith
  moreover have "mget ?kept key = Some s" using d s by (intro in_set_mget) (auto simp: outdated_def dest: mget_in_set)
  ultimately show ?thesis using s d k n by (auto simp: pruneDiagnosticSessionStates_def Let_def processing_session_def)
qed

lemma get_busy:
  assumes "processing_session key w" and "getDiagnosticSessionState (Some key) sessionId now w = (k, s, w')"
  shows "k = key \<and> processing_session key w' \<and> mget (gw_sessions w') key = Some s \<and> st_state s \<noteq> SessionIdle
    \<and> st_toolCallHistory s = tool_history key w \<and> tool_history key w' = tool_history key w"
proof -
  let ?w = "pruneDiagnosticSessionStates now False w"
  obtain t where t: "mget (gw_sessions w) key = Some t" "st_state t \<noteq> SessionIdle" using assms(1) by (auto simp: processing_session_def)
  have p: "processing_session key ?w" "mget (gw_sessions ?w) key = Some t" using prune_busy [OF assms(1)] t by auto
  have "mhas (gw_sessions ?w) key" using p(2) by (simp add: mhas_mget)
  moreover have "resolveSessionKey (Some key) sessionId = key" by (simp add: resolveSessionKey_def orElse_def opt_or_def)
  ultimately have "k = key" "s = (let s1 = (if filled sessionId then t\<lparr> st_sessionId := sessionId \<rparr> else t)
        in if filled (Some key) then s1\<lparr> st_sessionKey := Some key \<rparr> else s1)" "w' = ?w\<lparr> gw_sessions := mput (gw_sessions ?w) key s \<rparr>"
    using assms(2) p(2) by (auto simp: getDiagnosticSessionState_def Let_def split: if_splits)
  then show ?thesis using p t length_mput_present [OF \<open>mhas (gw_sessions ?w) key\<close>] by (auto simp: processing_session_def tool_history_def Let_def)
qed

lemma put_busy:
  assumes "processing_session key w" and "st_state s \<noteq> SessionIdle"
  shows "processing_session key (put_state key s w) \<and> mget (gw_sessions (put_state key s w)) key = Some s
    \<and> tool_history key (put_state key s w) = st_toolCallHistory s"
proof -
  have "mhas (gw_sessions w) key" using assms(1) by (auto simp: processing_session_def mhas_mget)
  then show ?thesis using assms length_mput_present [of "gw_sessions w" key s] by (auto simp: put_state_def processing_session_def tool_history_def)
qed

lemma warned_state: "st_state (snd (shouldEmitLoopWarning s k n)) = st_state s"
  by (simp add: shouldEmitLoopWarning_def Let_def)

lemma track_sessions [simp]: "gw_sessions (track_params ctx i ps w) = gw_sessions w"
  by (simp add: track_params_def)

lemma busy_track [simp]: "processing_session key (track_params ctx i ps w) = processing_session key w" "tool_history key (track_params ctx i ps w) = tool_history key w"
  by (simp_all add: processing_session_def tool_history_def)

section \<open>A call that gets nowhere is executed a bounded number of times\<close>

fun executed :: "call_end \<Rightarrow> bool" where
  "executed (Ran finished) = True"
| "executed (Refused reason) = False"

text \<open>A request of one and the same call in a session, which the hooks and approvals, if any, let through as it is, and which
  ends with the outcome \<open>r\<close>.\<close>

definition fruitless :: "(jsstr \<Rightarrow> jsstr) \<Rightarrow> jsstr \<Rightarrow> loop_settings option \<Rightarrow> jsstr \<Rightarrow> jsval \<Rightarrow> jsstr \<Rightarrow> tool_request \<Rightarrow> bool" where
  "fruitless sha key config tn ps r rq \<longleftrightarrow>
    (case rq_context rq of Some ctx \<Rightarrow> hc_sessionKey ctx = Some key \<and> hc_loopDetection ctx = config | None \<Rightarrow> False)
    \<and> named (rq_toolName rq) = tn \<and> rq_params rq = ps \<and> fst (run_hooks (rq_hook rq) (rq_approval rq) ps) = Allowed ps
    \<and> (let (v, e) = end_values (rq_tool rq ps) in map_option fst (hashToolOutcome sha tn ps v e) = Some (Some r))"

lemma named_default [simp]: "named (if n = [] then js ''tool'' else n) = named n"
  by (simp add: named_def js_def)

lemma recordLoopOutcome_busy:
  assumes "processing_session key w" and "hc_sessionKey ctx = Some key" and "end_values finished = (v, e)"
    and "recordToolCallOutcome sha (tool_history key w) tn ps callId v e (hc_loopDetection ctx) now = Some h2"
  shows "processing_session key (recordLoopOutcome sha (Some ctx) tn ps callId finished now w)
    \<and> tool_history key (recordLoopOutcome sha (Some ctx) tn ps callId finished now w) = h2"
proof -
  obtain k s w1 where g: "getDiagnosticSessionState (Some key) (hc_agentId ctx) now w = (k, s, w1)" by (metis prod_cases3)
  have b: "k = key" "processing_session key w1" "st_state s \<noteq> SessionIdle" "st_toolCallHistory s = tool_history key w"
    using get_busy [OF assms(1) g] by auto
  have "key \<noteq> []" using assms(1) by (simp add: processing_session_def)
  then have "recordLoopOutcome sha (Some ctx) tn ps callId finished now w = put_state key (s\<lparr> st_toolCallHistory := h2 \<rparr>) w1"
    using assms(2-4) g b by (simp add: recordLoopOutcome_def filled_def)
  then show ?thesis using put_busy [OF b(2), of "s\<lparr> st_toolCallHistory := h2 \<rparr>"] b(3) by simp
qed

text \<open>What the check does to a busy session: it raises, it blocks and changes nothing, or it records the call.\<close>

lemma before_busy:
  assumes "processing_session key w" and "hc_sessionKey ctx = Some key"
  shows "\<exists>out res w1. runBeforeToolCallHook sha (Some ctx) tn0 ps callId hook answer now w = ((out, res), w1) \<and> processing_session key w1
    \<and> ((case out of Allowed q \<Rightarrow> False | _ \<Rightarrow> True) \<and> tool_history key w1 = tool_history key w
      \<or> (out, res) = run_hooks hook answer ps
        \<and> (case detectToolCallLoop sha (tool_history key w) (named tn0) ps (hc_loopDetection ctx) of
            Some (Some f) \<Rightarrow> lf_level f \<noteq> LoopCritical | Some None \<Rightarrow> True | None \<Rightarrow> False)
        \<and> recordLoopCall sha (tool_history key w) (named tn0) ps callId (hc_loopDetection ctx) now = Some (tool_history key w1))"
proof -
  obtain k s w1 where g: "getDiagnosticSessionState (Some key) (hc_agentId ctx) now w = (k, s, w1)" by (metis prod_cases3)
  have b: "k = key" "processing_session key w1" "st_state s \<noteq> SessionIdle" "st_toolCallHistory s = tool_history key w" "tool_history key w1 = tool_history key w"
    using get_busy [OF assms(1) g] by auto
  have p: "filled (Some key)" using assms(1) by (simp add: processing_session_def filled_def)
  define detected where "detected = detectToolCallLoop sha (tool_history key w) (named tn0) ps (hc_loopDetection ctx)"
  define recorded where "recorded = recordLoopCall sha (tool_history key w) (named tn0) ps callId (hc_loopDetection ctx) now"
  have unfolded: "runBeforeToolCallHook sha (Some ctx) tn0 ps callId hook answer now w =
      (case check_loop sha (named tn0) ps callId (hc_loopDetection ctx) now s of
         None \<Rightarrow> ((Raised, None), w1) | Some (Inl reason) \<Rightarrow> ((Blocked reason, None), w1)
       | Some (Inr s1) \<Rightarrow> (run_hooks hook answer ps, put_state key s1 w1))"
    using assms(2) p g b(1) by (simp add: runBeforeToolCallHook_def)
  show ?thesis
  proof (cases "check_loop sha (named tn0) ps callId (hc_loopDetection ctx) now s")
    case None
    then show ?thesis using unfolded b(2,5) by simp
  next
    case (Some verdict)
    show ?thesis
    proof (cases verdict)
      case (Inl reason)
      then show ?thesis using Some unfolded b(2,5) by simp
    next
      case (Inr s1)
      have "st_state s1 \<noteq> SessionIdle \<and> recorded = Some (st_toolCallHistory s1)
        \<and> (case detected of Some (Some f) \<Rightarrow> lf_level f \<noteq> LoopCritical | Some None \<Rightarrow> True | None \<Rightarrow> False)"
        using Some Inr b(3) unfolding check_loop_def b(4) detected_def [symmetric] recorded_def [symmetric]
        by (auto simp: Let_def warned_state split: option.splits if_splits)
      then show ?thesis using Some Inr unfolded put_busy [OF b(2), of s1] unfolding detected_def recorded_def
        by (cases "run_hooks hook answer ps") simp
    qed
  qed
qed

definition same_call :: "jsstr \<Rightarrow> jsstr \<Rightarrow> jsstr \<Rightarrow> tool_call \<Rightarrow> bool" where
  "same_call tn h r c \<longleftrightarrow> tc_toolName c = tn \<and> tc_argsHash c = h \<and> tc_resultHash c = Some r"

definition repeated :: "jsstr \<Rightarrow> jsstr \<Rightarrow> jsstr \<Rightarrow> tool_call list \<Rightarrow> nat" where
  "repeated tn h r history = length (takeWhile (same_call tn h r) (rev history))"

lemma repeated_streak:
  assumes "r \<noteq> []"
  shows "repeated tn h r history \<le> fst (getNoProgressStreak history tn h)"
proof (cases "rev history")
  case Nil
  then show ?thesis by (simp add: repeated_def)
next
  case (Cons c cs)
  have p: "filled (Some r)" using assms by (simp add: filled_def)
  let ?P = "\<lambda>c. tc_toolName c = tn \<and> tc_argsHash c = h \<and> filled (tc_resultHash c)"
  have "length (takeWhile (same_call tn h r) ds) \<le> length (takeWhile (\<lambda>d. tc_resultHash d = Some r) (filter ?P ds))" for ds
    using p by (induction ds) (auto simp: same_call_def)
  then show ?thesis using Cons p by (auto simp: repeated_def getNoProgressStreak_def same_call_def no_progress_from)
qed

lemma breaker_trips:
  assumes "lc_enabled (resolveLoopDetectionConfig config)" and "hashToolCall sha tn ps = Some h" and "r \<noteq> []"
    and "lc_globalThreshold (resolveLoopDetectionConfig config) \<le> repeated tn h r history"
  shows "\<exists>f. detectToolCallLoop sha history tn ps config = Some (Some f) \<and> lf_level f = LoopCritical"
proof -
  obtain u un where u: "getUnknownToolRepeatStreak history tn = (u, un)" by (cases "getUnknownToolRepeatStreak history tn")
  obtain n l where n: "getNoProgressStreak history tn h = (n, l)" by (cases "getNoProgressStreak history tn h")
  have "lc_globalThreshold (resolveLoopDetectionConfig config) \<le> n" using repeated_streak [OF assms(3), of tn h history] n assms(4) by simp
  then show ?thesis using assms(1,2) u n by (simp add: detectToolCallLoop_def detect_def Let_def)
qed

lemma length_takeWhile_take: "length (takeWhile P (take m xs)) = min m (length (takeWhile P xs))"
proof (induction xs arbitrary: m)
  case (Cons x xs)
  then show ?case by (cases m) simp_all
qed simp

lemma repeated_step:
  assumes "rev h2 = take most (c # rev history)" and "same_call tn h r c" and "repeated tn h r history < most"
  shows "repeated tn h r h2 = Suc (repeated tn h r history)"
  using assms by (simp add: repeated_def length_takeWhile_take)

text \<open>A step of the run: the call is refused and the history stays, or it is executed and becomes the newest entry.\<close>

lemma fruitless_step:
  assumes "processing_session key w" and "fruitless sha key config tn ps r rq" and "r \<noteq> []"
  shows "\<exists>w1 e. executeWrapped sha w rq = (w1, [e]) \<and> processing_session key w1
    \<and> (\<not> executed e \<and> tool_history key w1 = tool_history key w
      \<or> executed e \<and> (\<exists>h c. hashToolCall sha tn ps = Some h \<and> same_call tn h r c
          \<and> rev (tool_history key w1) = take (lc_historySize (resolveLoopDetectionConfig config)) (c # rev (tool_history key w))
          \<and> (\<forall>f. detectToolCallLoop sha (tool_history key w) tn ps config = Some (Some f) \<longrightarrow> lf_level f \<noteq> LoopCritical)))"
proof -
  obtain ctx where ctx: "rq_context rq = Some ctx" "hc_sessionKey ctx = Some key" "hc_loopDetection ctx = config"
    using assms(2) by (auto simp: fruitless_def split: option.splits)
  obtain v e where v: "end_values (rq_tool rq ps) = (v, e)" by (cases "end_values (rq_tool rq ps)")
  obtain u where u: "hashToolOutcome sha tn ps v e = Some (Some r, u)" using assms(2) v by (auto simp: fruitless_def)
  have rq: "named (rq_toolName rq) = tn" "rq_params rq = ps" and hooks: "fst (run_hooks (rq_hook rq) (rq_approval rq) ps) = Allowed ps" using assms(2) by (auto simp: fruitless_def)
  obtain out res w1 where before: "runBeforeToolCallHook sha (Some ctx) (if rq_toolName rq = [] then js ''tool'' else rq_toolName rq) ps
      (Some (rq_toolCallId rq)) (rq_hook rq) (rq_approval rq) (rq_startedAt rq) w = ((out, res), w1)" "processing_session key w1"
    and out: "(case out of Allowed q \<Rightarrow> False | _ \<Rightarrow> True) \<and> tool_history key w1 = tool_history key w
      \<or> (out, res) = run_hooks (rq_hook rq) (rq_approval rq) ps
        \<and> (case detectToolCallLoop sha (tool_history key w) tn ps config of
            Some (Some f) \<Rightarrow> lf_level f \<noteq> LoopCritical | Some None \<Rightarrow> True | None \<Rightarrow> False)
        \<and> recordLoopCall sha (tool_history key w) tn ps (Some (rq_toolCallId rq)) config (rq_startedAt rq) = Some (tool_history key w1)"
    using before_busy [OF assms(1) ctx(2), of sha "if rq_toolName rq = [] then js ''tool'' else rq_toolName rq" ps "Some (rq_toolCallId rq)" "rq_hook rq"
        "rq_approval rq" "rq_startedAt rq"] unfolding named_default rq ctx(3) by (elim exE conjE) (rule that)
  from out show ?thesis
  proof
    assume refused: "(case out of Allowed q \<Rightarrow> False | _ \<Rightarrow> True) \<and> tool_history key w1 = tool_history key w"
    then show ?thesis using before unfolding executeWrapped_def ctx(1) rq Let_def by (cases out) auto
  next
    assume ok: "(out, res) = run_hooks (rq_hook rq) (rq_approval rq) ps
        \<and> (case detectToolCallLoop sha (tool_history key w) tn ps config of
            Some (Some f) \<Rightarrow> lf_level f \<noteq> LoopCritical | Some None \<Rightarrow> True | None \<Rightarrow> False)
        \<and> recordLoopCall sha (tool_history key w) tn ps (Some (rq_toolCallId rq)) config (rq_startedAt rq) = Some (tool_history key w1)"
    then obtain h where h: "hashToolCall sha tn ps = Some h" by (auto simp: recordLoopCall_def)
    let ?w2 = "track_params (Some ctx) (rq_toolCallId rq) ps w1"
    have out: "out = Allowed ps" using ok hooks by (metis fst_conv)
    obtain h2 where h2: "recordToolCallOutcome sha (tool_history key w1) tn ps (Some (rq_toolCallId rq)) v e config (rq_finishedAt rq) = Some h2"
      using u h by (cases "filled (Some r)") (simp_all add: recordToolCallOutcome_def)
    have window: "rev h2 = take (lc_historySize (resolveLoopDetectionConfig config)) (\<lparr> tc_toolName = tn, tc_argsHash = h,
        tc_toolCallId = Some (rq_toolCallId rq), tc_resultHash = Some r, tc_unknownToolName = u, tc_timestamp = rq_startedAt rq \<rparr> # rev (tool_history key w))"
      using executed_history [OF h u assms(3) _ h2] ok by blast
    have "processing_session key ?w2" using before(2) by simp
    then have final: "processing_session key (recordLoopOutcome sha (Some ctx) tn ps (Some (rq_toolCallId rq)) (rq_tool rq ps) (rq_finishedAt rq) ?w2)"
      "tool_history key (recordLoopOutcome sha (Some ctx) tn ps (Some (rq_toolCallId rq)) (rq_tool rq ps) (rq_finishedAt rq) ?w2) = h2"
      using recordLoopOutcome_busy [OF _ ctx(2) v, of ?w2 sha tn ps "Some (rq_toolCallId rq)" "rq_finishedAt rq" h2] h2 ctx(3) by simp_all
    have step: "executeWrapped sha w rq =
        (recordLoopOutcome sha (Some ctx) tn ps (Some (rq_toolCallId rq)) (rq_tool rq ps) (rq_finishedAt rq) ?w2, [Ran (rq_tool rq ps)])"
      using before(1) unfolding executeWrapped_def ctx(1) rq Let_def out named_default by simp
    have noncritical: "\<forall>f. detectToolCallLoop sha (tool_history key w) tn ps config = Some (Some f) \<longrightarrow> lf_level f \<noteq> LoopCritical"
      using ok by (auto split: option.splits)
    show ?thesis unfolding step
      by (intro exI [of _ "recordLoopOutcome sha (Some ctx) tn ps (Some (rq_toolCallId rq)) (rq_tool rq ps) (rq_finishedAt rq) ?w2"]
            exI [of _ "Ran (rq_tool rq ps)"] conjI refl final(1) disjI2 exI [of _ h] exI [of _ "\<lparr> tc_toolName = tn, tc_argsHash = h,
              tc_toolCallId = Some (rq_toolCallId rq), tc_resultHash = Some r, tc_unknownToolName = u, tc_timestamp = rq_startedAt rq \<rparr>"])
        (use h window noncritical in \<open>simp_all add: final(2) same_call_def\<close>)
  qed
qed

lemma repeated_bound:
  assumes "r \<noteq> []" and "lc_enabled (resolveLoopDetectionConfig config)"
    and "lc_globalThreshold (resolveLoopDetectionConfig config) \<le> lc_historySize (resolveLoopDetectionConfig config)"
    and "hashToolCall sha tn ps = Some h" and "processing_session key w" and "list_all (fruitless sha key config tn ps r) rqs"
  shows "length (filter executed (snd (run_ops (executeWrapped sha) w rqs))) + repeated tn h r (tool_history key w)
    \<le> max (lc_globalThreshold (resolveLoopDetectionConfig config)) (repeated tn h r (tool_history key w))"
  using assms(5,6)
proof (induction rqs arbitrary: w)
  case (Cons rq rqs)
  let ?limit = "lc_globalThreshold (resolveLoopDetectionConfig config)"
  obtain w1 e where step: "executeWrapped sha w rq = (w1, [e])" and b: "processing_session key w1"
    and cases: "\<not> executed e \<and> tool_history key w1 = tool_history key w
      \<or> executed e \<and> (\<exists>h c. hashToolCall sha tn ps = Some h \<and> same_call tn h r c
          \<and> rev (tool_history key w1) = take (lc_historySize (resolveLoopDetectionConfig config)) (c # rev (tool_history key w))
          \<and> (\<forall>f. detectToolCallLoop sha (tool_history key w) tn ps config = Some (Some f) \<longrightarrow> lf_level f \<noteq> LoopCritical))"
    using fruitless_step [OF Cons.prems(1) _ assms(1), of sha config tn ps rq] Cons.prems(2) by auto
  have rest: "length (filter executed (snd (run_ops (executeWrapped sha) w1 rqs))) + repeated tn h r (tool_history key w1)
      \<le> max ?limit (repeated tn h r (tool_history key w1))" using Cons.IH [OF b] Cons.prems(2) by simp
  from cases show ?case
  proof
    assume "\<not> executed e \<and> tool_history key w1 = tool_history key w"
    then show ?thesis using rest step by (simp add: split_def Let_def)
  next
    assume ran: "executed e \<and> (\<exists>h c. hashToolCall sha tn ps = Some h \<and> same_call tn h r c
          \<and> rev (tool_history key w1) = take (lc_historySize (resolveLoopDetectionConfig config)) (c # rev (tool_history key w))
          \<and> (\<forall>f. detectToolCallLoop sha (tool_history key w) tn ps config = Some (Some f) \<longrightarrow> lf_level f \<noteq> LoopCritical))"
    then obtain c where c: "same_call tn h r c" "rev (tool_history key w1) = take (lc_historySize (resolveLoopDetectionConfig config)) (c # rev (tool_history key w))"
      "\<forall>f. detectToolCallLoop sha (tool_history key w) tn ps config = Some (Some f) \<longrightarrow> lf_level f \<noteq> LoopCritical"
      using assms(4) by auto
    have few: "repeated tn h r (tool_history key w) < ?limit"
      using breaker_trips [OF assms(2,4,1), of "tool_history key w"] c(3) by force
    then have "repeated tn h r (tool_history key w1) = Suc (repeated tn h r (tool_history key w))"
      using repeated_step [OF c(2,1)] assms(3) by simp
    then show ?thesis using rest step ran few by (simp add: split_def Let_def)
  qed
qed simp

lemma fruitless_bound:
  assumes "processing_session key w" and "lc_enabled (resolveLoopDetectionConfig config)"
    and "lc_globalThreshold (resolveLoopDetectionConfig config) \<le> lc_historySize (resolveLoopDetectionConfig config)"
    and "r \<noteq> []" and "list_all (fruitless sha key config tn ps r) rqs"
  shows "length (filter executed (snd (run_ops (executeWrapped sha) w rqs))) \<le> lc_globalThreshold (resolveLoopDetectionConfig config)"
proof (cases "hashToolCall sha tn ps")
  case (Some h)
  show ?thesis using repeated_bound [OF assms(4,2,3) Some assms(1,5)] by linarith
next
  case None
  have "filter executed (snd (run_ops (executeWrapped sha) w rqs)) = []" using assms(1,5)
  proof (induction rqs arbitrary: w)
    case (Cons rq rqs)
    obtain w1 e where step: "executeWrapped sha w rq = (w1, [e])" "processing_session key w1" "\<not> executed e"
      using fruitless_step [OF Cons.prems(1) _ assms(4), of sha config tn ps rq] Cons.prems(2) None by auto
    then show ?case using Cons.IH [OF step(2)] Cons.prems(2) by (simp add: split_def Let_def)
  qed simp
  then show ?thesis by simp
qed

definition busy_world :: guard_world where
  "busy_world = \<lparr> gw_sessions = [(js ''k'', (new_session None (Some (js ''k'')) 0)\<lparr> st_state := SessionProcessing \<rparr>)],
     gw_lastSessionPruneAt = 0, gw_adjustedParams = [] \<rparr>"

definition repeated_request :: tool_request where
  "repeated_request = \<lparr> rq_context = Some \<lparr> hc_agentId = None, hc_sessionKey = Some (js ''k''), hc_runId = None, hc_loopDetection = Some strict_settings \<rparr>,
     rq_toolName = js ''t'', rq_params = VNull, rq_toolCallId = js ''i'', rq_hook = NoHooks, rq_approval = RequestWithoutId,
     rq_startedAt = 0, rq_finishedAt = 0, rq_tool = (\<lambda>params. ToolReturned (VBool True)) \<rparr>"

section \<open>Calls whose parameters a hook changes\<close>

text \<open>A history in which no call with the digest \<open>h\<close> has an outcome, and no tool was missing.\<close>

definition unseen :: "jsstr \<Rightarrow> tool_call \<Rightarrow> bool" where
  "unseen h c \<longleftrightarrow> (tc_argsHash c = h \<longrightarrow> tc_resultHash c = None) \<and> tc_unknownToolName c = None"

lemma unseen_outcome:
  assumes "list_all (unseen h) history" and "filled r"
  shows "filter (\<lambda>c. tc_toolName c = tn \<and> tc_argsHash c = h \<and> tc_resultHash c = r) history = []"
  using assms by (auto simp: filter_empty_conv list_all_iff unseen_def filled_def)

lemma unseen_unknown:
  assumes "list_all (unseen h) history" and "filled u" and "0 < n" and "n \<le> length history"
  shows "\<not> list_all (\<lambda>c. tc_toolName c = tn \<and> tc_unknownToolName c = u) (take n (rev history))"
proof -
  obtain c cs where c: "rev history = c # cs" using assms(3,4) by (cases "rev history") auto
  have "c \<in> set history" using arg_cong [OF c, of set] by auto
  then have "tc_unknownToolName c = None" using assms(1) by (auto simp: list_all_iff unseen_def)
  then show ?thesis using c assms(2,3) by (cases n) (auto simp: filled_def)
qed

lemma unseen_alternation:
  assumes "list_all (unseen h) history" and "2 \<le> k" and "k \<le> length history"
    and "list_all (\<lambda>i. tc_argsHash (rev history ! i) = (if even i then paired else h)) [0..<k]"
  shows "\<not> list_all (\<lambda>c. tc_resultHash c = Some (if tc_argsHash c = paired then ra else rb)) (drop (length history - k) history)"
proof -
  let ?c = "rev history ! 1"
  have "?c \<in> set (take k (rev history))" using assms(2,3) by (auto simp: in_set_conv_nth intro!: exI [of _ 1])
  then have c: "?c \<in> set (drop (length history - k) history)" by (simp add: take_rev)
  have "tc_argsHash ?c = h" using assms(2,4) by (auto simp: list_all_iff dest!: bspec [of _ _ 1])
  then have "tc_resultHash ?c = None" using assms(1) in_set_dropD [OF c] by (auto simp: list_all_iff unseen_def)
  then show ?thesis using c by (auto simp: list_all_iff intro!: bexI [OF _ c])
qed

lemma unseen_not_critical:
  assumes "list_all (unseen h) history" and "hashToolCall sha tn ps = Some h" and "detectToolCallLoop sha history tn ps config = Some (Some f)"
  shows "lf_level f \<noteq> LoopCritical"
proof
  assume critical: "lf_level f = LoopCritical"
  let ?cfg = "resolveLoopDetectionConfig config"
  have evidence: "loop_evidence ?cfg history tn h f"
    using critical_evidence [OF _ critical refl] assms(2,3) by (auto simp: detectToolCallLoop_def Let_def split: if_splits)
  have sane: "0 < lc_unknownToolThreshold ?cfg" "0 < lc_criticalThreshold ?cfg" "0 < lc_globalThreshold ?cfg"
    using config_sane [of config] by (auto simp: Let_def)
  note none = unseen_outcome [OF assms(1), of _ tn] and unknown = unseen_unknown [OF assms(1)] and pair = unseen_alternation [OF assms(1)]
  show False
  proof (cases "lf_detector f")
    case PingPong
    then obtain paired k ra rb where k: "2 \<le> k" "k \<le> length history"
      "list_all (\<lambda>i. tc_argsHash (rev history ! i) = (if even i then paired else h)) [0..<k]"
      "list_all (\<lambda>c. tc_resultHash c = Some (if tc_argsHash c = paired then ra else rb)) (drop (length history - k) history)"
      using evidence by (auto simp: loop_evidence_def)
    show False using pair [OF k(1,2,3)] k(4) by blast
  qed (use evidence sane none unknown in \<open>auto simp: loop_evidence_def\<close>)
qed

text \<open>A request of one and the same call whose parameters the hooks change into others with another digest.\<close>

definition rewritten :: "(jsstr \<Rightarrow> jsstr) \<Rightarrow> jsstr \<Rightarrow> loop_settings option \<Rightarrow> jsstr \<Rightarrow> jsval \<Rightarrow> tool_request \<Rightarrow> bool" where
  "rewritten sha key config tn ps rq \<longleftrightarrow>
    (case rq_context rq of Some ctx \<Rightarrow> hc_sessionKey ctx = Some key \<and> hc_loopDetection ctx = config | None \<Rightarrow> False)
    \<and> named (rq_toolName rq) = tn \<and> rq_params rq = ps
    \<and> (case fst (run_hooks (rq_hook rq) (rq_approval rq) ps) of
         Allowed q \<Rightarrow> hashToolCall sha tn q \<noteq> hashToolCall sha tn ps
           \<and> (let (v, e) = end_values (rq_tool rq q) in case hashToolOutcome sha tn q v e of Some (d, u) \<Rightarrow> u = None | None \<Rightarrow> True)
       | _ \<Rightarrow> False)"

lemma unseen_update:
  assumes "list_all (unseen h) calls" and "h' \<noteq> h" and "update_first (awaits_outcome tn h' callId) (\<lambda>c. c\<lparr> tc_resultHash := r, tc_unknownToolName := None \<rparr>) calls = Some calls'"
  shows "list_all (unseen h) calls'"
  using assms(1,3)
proof (induction calls arbitrary: calls')
  case (Cons c calls)
  then show ?case using assms(2) by (auto simp: unseen_def awaits_outcome_def split: if_splits)
qed simp

lemma unseen_recorded:
  assumes "list_all (unseen h) history" and "hashToolCall sha tn ps = Some h" and "recordLoopCall sha history tn ps callId config now = Some h1"
  shows "list_all (unseen h) h1"
  using assms by (cases history) (auto simp: recordLoopCall_def Let_def unseen_def split: if_splits)

lemma unseen_outcome_recorded:
  assumes "list_all (unseen h) history" and "hashToolCall sha tn q \<noteq> Some h"
    and "case hashToolOutcome sha tn q v e of Some (d, u) \<Rightarrow> u = None | None \<Rightarrow> True"
    and "recordToolCallOutcome sha history tn q callId v e config now = Some h2"
  shows "list_all (unseen h) h2"
proof -
  obtain d where d: "hashToolOutcome sha tn q v e = Some (d, None)" using assms(3,4) by (auto simp: recordToolCallOutcome_def split: option.splits)
  show ?thesis
  proof (cases "filled d")
    case True
    then obtain h' where h': "hashToolCall sha tn q = Some h'" using assms(4) d by (auto simp: recordToolCallOutcome_def)
    then have ne: "h' \<noteq> h" using assms(2) by simp
    define recorded where "recorded = (case update_first (awaits_outcome tn h' callId) (\<lambda>c. c\<lparr> tc_resultHash := d, tc_unknownToolName := None \<rparr>) (rev history) of
        Some calls \<Rightarrow> rev calls
      | None \<Rightarrow> history @ [\<lparr> tc_toolName = tn, tc_argsHash = h', tc_toolCallId = callId, tc_resultHash = d, tc_unknownToolName = None, tc_timestamp = now \<rparr>])"
    have h2: "h2 = drop (length recorded - lc_historySize (resolveLoopDetectionConfig config)) recorded"
      using assms(4) d h' True by (simp add: recordToolCallOutcome_def recorded_def Let_def)
    have reversed: "list_all (unseen h) (rev history)" using assms(1) by simp
    have "list_all (unseen h) recorded"
      using assms(1) ne unseen_update [OF reversed ne] unfolding recorded_def by (auto simp: unseen_def split: option.split)
    then show ?thesis unfolding h2 by (auto simp: list_all_iff dest: in_set_dropD)
  qed (use assms(1,4) d in \<open>simp add: recordToolCallOutcome_def\<close>)
qed

lemma getting_recorded_outcome:
  assumes "processing_session key w" and "hc_sessionKey ctx = Some key" and "list_all (unseen h) (tool_history key w)"
    and "hashToolCall sha tn q \<noteq> Some h" and "end_values finished = (v, e)"
    and "case hashToolOutcome sha tn q v e of Some (d, u) \<Rightarrow> u = None | None \<Rightarrow> True"
  shows "processing_session key (recordLoopOutcome sha (Some ctx) tn q callId finished now w)
    \<and> list_all (unseen h) (tool_history key (recordLoopOutcome sha (Some ctx) tn q callId finished now w))"
proof (cases "recordToolCallOutcome sha (tool_history key w) tn q callId v e (hc_loopDetection ctx) now")
  case None
  obtain k s w1 where g: "getDiagnosticSessionState (Some key) (hc_agentId ctx) now w = (k, s, w1)" by (metis prod_cases3)
  have b: "k = key" "processing_session key w1" "st_toolCallHistory s = tool_history key w" "tool_history key w1 = tool_history key w"
    using get_busy [OF assms(1) g] by auto
  have "key \<noteq> []" using assms(1) by (simp add: processing_session_def)
  then have "recordLoopOutcome sha (Some ctx) tn q callId finished now w = w1"
    using None assms(2,5) g b by (simp add: recordLoopOutcome_def filled_def)
  then show ?thesis using b assms(3) by simp
next
  case (Some h2)
  then show ?thesis using recordLoopOutcome_busy [OF assms(1,2,5) Some] unseen_outcome_recorded [OF assms(3,4,6) Some] by simp
qed

text \<open>Where no call with the digest has an outcome, the check lets the next one through and records it, still without one.\<close>

lemma unseen_admitted:
  assumes "processing_session key w" and "list_all (unseen h) (tool_history key w)" and "hashToolCall sha tn ps = Some h"
    and "hc_sessionKey ctx = Some key" and "named tn0 = tn"
  shows "\<exists>w1. runBeforeToolCallHook sha (Some ctx) tn0 ps callId hook answer now w = (run_hooks hook answer ps, w1)
    \<and> processing_session key w1 \<and> list_all (unseen h) (tool_history key w1)"
proof -
  let ?detected = "detectToolCallLoop sha (tool_history key w) tn ps (hc_loopDetection ctx)"
  obtain found where found: "?detected = Some found" using assms(3) by (cases ?detected) (auto simp: detectToolCallLoop_def Let_def split: if_splits)
  have mild: "case found of Some f \<Rightarrow> lf_level f \<noteq> LoopCritical | None \<Rightarrow> True"
    using unseen_not_critical [OF assms(2,3)] found by (cases found) auto
  obtain h1 where h1: "recordLoopCall sha (tool_history key w) tn ps callId (hc_loopDetection ctx) now = Some h1"
    using assms(3) by (auto simp: recordLoopCall_def)
  obtain k s w0 where g: "getDiagnosticSessionState (Some key) (hc_agentId ctx) now w = (k, s, w0)" by (metis prod_cases3)
  have b: "k = key" "processing_session key w0" "st_state s \<noteq> SessionIdle" "st_toolCallHistory s = tool_history key w"
    using get_busy [OF assms(1) g] by auto
  have p: "filled (Some key)" using assms(1) by (simp add: processing_session_def filled_def)
  obtain s1 where s1: "check_loop sha tn ps callId (hc_loopDetection ctx) now s = Some (Inr s1)" "st_toolCallHistory s1 = h1" "st_state s1 \<noteq> SessionIdle"
    using found mild h1 b(3) unfolding check_loop_def b(4) by (cases found) (auto simp: Let_def warned_state)
  have "runBeforeToolCallHook sha (Some ctx) tn0 ps callId hook answer now w = (run_hooks hook answer ps, put_state key s1 w0)"
    using assms(4,5) p g b(1) s1(1) unfolding runBeforeToolCallHook_def by simp
  moreover have "processing_session key (put_state key s1 w0)" "list_all (unseen h) (tool_history key (put_state key s1 w0))"
    using put_busy [OF b(2) s1(3)] unseen_recorded [OF assms(2,3) h1] s1(2) by simp_all
  ultimately show ?thesis by blast
qed

lemma rewritten_step:
  assumes "processing_session key w" and "list_all (unseen h) (tool_history key w)" and "hashToolCall sha tn ps = Some h" and "rewritten sha key config tn ps rq"
  shows "\<exists>w1 e. executeWrapped sha w rq = (w1, [e]) \<and> executed e \<and> processing_session key w1 \<and> list_all (unseen h) (tool_history key w1)"
proof -
  obtain ctx where ctx: "rq_context rq = Some ctx" "hc_sessionKey ctx = Some key" "hc_loopDetection ctx = config"
    using assms(4) by (auto simp: rewritten_def split: option.splits)
  obtain q res0 where q: "run_hooks (rq_hook rq) (rq_approval rq) ps = (Allowed q, res0)" "hashToolCall sha tn q \<noteq> Some h"
    "let (v, e) = end_values (rq_tool rq q) in case hashToolOutcome sha tn q v e of Some (d, u) \<Rightarrow> u = None | None \<Rightarrow> True"
    using assms(3,4) by (cases "run_hooks (rq_hook rq) (rq_approval rq) ps") (auto simp: rewritten_def split: hook_outcome.splits)
  have rq: "named (rq_toolName rq) = tn" "rq_params rq = ps" using assms(4) by (auto simp: rewritten_def)
  obtain v e where v: "end_values (rq_tool rq q) = (v, e)" by (cases "end_values (rq_tool rq q)")
  let ?n = "if rq_toolName rq = [] then js ''tool'' else rq_toolName rq"
  obtain w1 where w1: "runBeforeToolCallHook sha (Some ctx) ?n ps (Some (rq_toolCallId rq)) (rq_hook rq) (rq_approval rq) (rq_startedAt rq) w
      = ((Allowed q, res0), w1)" "processing_session key w1" "list_all (unseen h) (tool_history key w1)"
    using unseen_admitted [OF assms(1-3) ctx(2), of ?n "Some (rq_toolCallId rq)" "rq_hook rq" "rq_approval rq" "rq_startedAt rq"] q(1) rq(1)
    unfolding named_default by auto
  let ?w2 = "track_params (Some ctx) (rq_toolCallId rq) q w1"
  have final: "processing_session key (recordLoopOutcome sha (Some ctx) tn q (Some (rq_toolCallId rq)) (rq_tool rq q) (rq_finishedAt rq) ?w2)"
    "list_all (unseen h) (tool_history key (recordLoopOutcome sha (Some ctx) tn q (Some (rq_toolCallId rq)) (rq_tool rq q) (rq_finishedAt rq) ?w2))"
    using getting_recorded_outcome [OF _ ctx(2) _ q(2) v] q(3) v w1(2,3) by simp_all
  have "executeWrapped sha w rq = (recordLoopOutcome sha (Some ctx) tn q (Some (rq_toolCallId rq)) (rq_tool rq q) (rq_finishedAt rq) ?w2, [Ran (rq_tool rq q)])"
    using w1(1) rq(1) unfolding executeWrapped_def ctx(1) rq(2) Let_def named_default by simp
  then show ?thesis using final by simp
qed

section \<open>Calls begun before any of them ends\<close>

lemma begins_run:
  assumes "hashToolCall sha tn ps = Some h" and "distinct (map fst irqs)" and "list_all (\<lambda>(i, rq). fruitless sha key config tn ps r rq) irqs"
    and "processing_session key (gm_world m)" and "list_all (unseen h) (tool_history key (gm_world m))"
  shows "snd (run_ops (guard_step sha) m (map (\<lambda>(i, rq). CallBegins i rq) irqs)) = []
    \<and> (\<forall>i. if i \<in> set (map fst irqs)
         then \<exists>rq. mget (gm_open (fst (run_ops (guard_step sha) m (map (\<lambda>(i, rq). CallBegins i rq) irqs)))) i = Some (AwaitsHooks rq (Allowed ps))
         else mget (gm_open (fst (run_ops (guard_step sha) m (map (\<lambda>(i, rq). CallBegins i rq) irqs)))) i = mget (gm_open m) i)"
  using assms(2-5)
proof (induction irqs arbitrary: m)
  case (Cons p irqs)
  obtain j rq where p: "p = (j, rq)" by (cases p)
  have f: "fruitless sha key config tn ps r rq" using Cons.prems(2) p by simp
  obtain ctx where ctx: "rq_context rq = Some ctx" "hc_sessionKey ctx = Some key"
    using f by (auto simp: fruitless_def split: option.splits)
  have rq: "named (wrapped_name rq) = tn" "rq_params rq = ps" and hooks: "fst (run_hooks (rq_hook rq) (rq_approval rq) ps) = Allowed ps"
    using f by (auto simp: fruitless_def wrapped_name_def)
  obtain w1 where w1: "runBeforeToolCallHook sha (rq_context rq) (wrapped_name rq) (rq_params rq) (Some (rq_toolCallId rq))
      (rq_hook rq) (rq_approval rq) (rq_startedAt rq) (gm_world m) = (run_hooks (rq_hook rq) (rq_approval rq) ps, w1)"
    "processing_session key w1" "list_all (unseen h) (tool_history key w1)"
    using unseen_admitted [OF Cons.prems(3,4) assms(1) ctx(2) rq(1), of "Some (rq_toolCallId rq)" "rq_hook rq" "rq_approval rq" "rq_startedAt rq"]
    unfolding ctx(1) rq(2) by blast
  let ?m = "m\<lparr> gm_world := w1, gm_open := mput (gm_open m) j (AwaitsHooks rq (Allowed ps)) \<rparr>"
  have step: "guard_step sha m (CallBegins j rq) = (?m, [])" using w1(1) hooks by (simp add: case_prod_beta Let_def)
  have busy: "processing_session key (gm_world ?m)" "list_all (unseen h) (tool_history key (gm_world ?m))" using w1(2,3) by simp_all
  have new: "j \<notin> set (map fst irqs)" "distinct (map fst irqs)" "list_all (\<lambda>(i, rq). fruitless sha key config tn ps r rq) irqs"
    using Cons.prems(1,2) p by auto
  note ih = Cons.IH [OF new(2,3) busy]
  have run: "run_ops (guard_step sha) m (map (\<lambda>(i, rq). CallBegins i rq) (p # irqs)) = run_ops (guard_step sha) ?m (map (\<lambda>(i, rq). CallBegins i rq) irqs)"
    unfolding p list.map split_conv run_ops.simps step Let_def by (simp add: case_prod_beta)
  show ?case unfolding run
  proof (intro conjI allI)
    show "snd (run_ops (guard_step sha) ?m (map (\<lambda>(i, rq). CallBegins i rq) irqs)) = []" using ih by blast
    show "if i \<in> set (map fst (p # irqs))
      then \<exists>rq. mget (gm_open (fst (run_ops (guard_step sha) ?m (map (\<lambda>(i, rq). CallBegins i rq) irqs)))) i = Some (AwaitsHooks rq (Allowed ps))
      else mget (gm_open (fst (run_ops (guard_step sha) ?m (map (\<lambda>(i, rq). CallBegins i rq) irqs)))) i = mget (gm_open m) i" for i
      using spec [OF conjunct2 [OF ih], of i] new(1) p by (cases "i = j") (simp_all split: if_splits)
  qed
qed simp

lemma answers_run:
  assumes "distinct ids" and "\<forall>i \<in> set ids. \<exists>rq q. mget (gm_open m) i = Some (AwaitsHooks rq (Allowed q))"
  shows "snd (run_ops (guard_step sha) m (map HooksAnswered ids)) = []
    \<and> (\<forall>i. if i \<in> set ids
         then \<exists>rq q. mget (gm_open (fst (run_ops (guard_step sha) m (map HooksAnswered ids)))) i = Some (RunsTool rq q)
         else mget (gm_open (fst (run_ops (guard_step sha) m (map HooksAnswered ids)))) i = mget (gm_open m) i)"
  using assms
proof (induction ids arbitrary: m)
  case (Cons j ids)
  obtain rq q where q: "mget (gm_open m) j = Some (AwaitsHooks rq (Allowed q))" using Cons.prems(2) by auto
  let ?m = "m\<lparr> gm_world := track_params (rq_context rq) (rq_toolCallId rq) q (gm_world m), gm_open := mput (gm_open m) j (RunsTool rq q) \<rparr>"
  have step: "guard_step sha m (HooksAnswered j) = (?m, [])" using q by simp
  have "\<forall>i \<in> set ids. \<exists>rq q. mget (gm_open ?m) i = Some (AwaitsHooks rq (Allowed q))" using Cons.prems by auto
  note ih = Cons.IH [OF _ this]
  show ?case unfolding list.map run_ops.simps step Let_def case_prod_beta
    using ih Cons.prems(1) by (auto split: if_splits)
qed simp

lemma ends_run:
  assumes "distinct ids" and "\<forall>i \<in> set ids. \<exists>rq q. mget (gm_open m) i = Some (RunsTool rq q)"
  shows "length (filter executed (snd (run_ops (guard_step sha) m (map CallEnds ids)))) = length ids"
  using assms
proof (induction ids arbitrary: m)
  case (Cons j ids)
  obtain rq q where q: "mget (gm_open m) j = Some (RunsTool rq q)" using Cons.prems(2) by auto
  obtain w1 where step: "guard_step sha m (CallEnds j) = (m\<lparr> gm_world := w1, gm_open := mdel (gm_open m) j \<rparr>, [Ran (rq_tool rq q)])"
    using q by simp
  have "\<forall>i \<in> set ids. \<exists>rq q. mget (gm_open (m\<lparr> gm_world := w1, gm_open := mdel (gm_open m) j \<rparr>)) i = Some (RunsTool rq q)"
    using Cons.prems by auto
  note ih = Cons.IH [OF _ this]
  show ?case unfolding list.map run_ops.simps step Let_def case_prod_beta
    using ih Cons.prems(1) by simp
qed simp

lemma overlapping_run:
  assumes "hashToolCall sha tn ps = Some h" and "list_all (fruitless sha key config tn ps r) rqs"
    and "processing_session key w" and "tool_history key w = []"
  shows "length (filter executed (snd (run_ops (guard_step sha) (idle_machine w) (all_at_once rqs)))) = length rqs"
proof -
  let ?irqs = "zip [0..<length rqs] rqs" and ?ids = "[0..<length rqs]"
  define m1 where "m1 = fst (run_ops (guard_step sha) (idle_machine w) (map (\<lambda>(i, rq). CallBegins i rq) ?irqs))"
  define m2 where "m2 = fst (run_ops (guard_step sha) m1 (map HooksAnswered ?ids))"
  have "list_all (\<lambda>(i, rq). fruitless sha key config tn ps r rq) ?irqs" using assms(2) by (auto simp: list_all_iff dest: set_zip_rightD)
  then have all: "snd (run_ops (guard_step sha) (idle_machine w) (map (\<lambda>(i, rq). CallBegins i rq) ?irqs)) = []
    \<and> (\<forall>i. if i \<in> set ?ids then \<exists>rq. mget (gm_open m1) i = Some (AwaitsHooks rq (Allowed ps))
        else mget (gm_open m1) i = mget (gm_open (idle_machine w)) i)"
    using begins_run [OF assms(1), of ?irqs key config r "idle_machine w"] assms(3,4) unfolding m1_def by simp
  then have b: "snd (run_ops (guard_step sha) (idle_machine w) (map (\<lambda>(i, rq). CallBegins i rq) ?irqs)) = []"
    "\<forall>i \<in> set ?ids. \<exists>rq q. mget (gm_open m1) i = Some (AwaitsHooks rq (Allowed q))"
    by (blast, metis)
  have a: "snd (run_ops (guard_step sha) m1 (map HooksAnswered ?ids)) = []" "\<forall>i \<in> set ?ids. \<exists>rq q. mget (gm_open m2) i = Some (RunsTool rq q)"
    using answers_run [OF distinct_upt b(2)] unfolding m2_def by auto
  show ?thesis
    using b(1) a(1) ends_run [OF distinct_upt a(2)]
    by (simp add: all_at_once_def run_ops_append Let_def case_prod_beta m1_def [symmetric] m2_def [symmetric])
qed

text \<open>C33: Repeating a call that gets nowhere is bounded, when the calls do not overlap.  In a session that is processing a message,
  with detection on and a history that is long enough for the circuit breaker, take a call that is repeated with the same arguments, that
  the hooks and approvals let through as it is, and that every time ends with the same outcome.  Made one after another, such calls
  are executed at most as often as the breaker's threshold says, however often the model asks for them, and whatever the ids of the
  calls and the clocks are.  Begun before the first of them ends, in a session without tool calls before, every one is executed,
  however many they are: the guard counts outcomes, and there are none yet.\<close>

theorem runaway_call_bounded:
  assumes "processing_session key w" and "lc_enabled (resolveLoopDetectionConfig config)"
    and "lc_globalThreshold (resolveLoopDetectionConfig config) \<le> lc_historySize (resolveLoopDetectionConfig config)"
    and "r \<noteq> []" and "list_all (fruitless sha key config tn ps r) rqs"
  shows "length (filter executed (snd (run_ops (guard_step sha) (idle_machine w) (one_after_another rqs))))
      \<le> lc_globalThreshold (resolveLoopDetectionConfig config)
    \<and> (tool_history key w = [] \<and> hashToolCall sha tn ps \<noteq> None \<longrightarrow>
      length (filter executed (snd (run_ops (guard_step sha) (idle_machine w) (all_at_once rqs)))) = length rqs)"
  using fruitless_bound [OF assms] overlapping_run [OF _ assms(5,1)] by (auto simp: one_after_another_runs)

lemma runaway_call_bounded_witness:
  "length (filter executed (snd (run_ops (guard_step (\<lambda>s. s)) (idle_machine busy_world) (one_after_another (replicate 9 repeated_request))))) \<le> 3
   \<and> length (filter executed (snd (run_ops (guard_step (\<lambda>s. s)) (idle_machine busy_world) (all_at_once (replicate 9 repeated_request))))) = 9"
proof -
  have busy: "processing_session (js ''k'') busy_world" "tool_history (js ''k'') busy_world = []"
    by (simp_all add: processing_session_def tool_history_def new_session_def busy_world_def SESSION_STATE_MAX_ENTRIES_def js_def mget_def)
  have config: "lc_enabled (resolveLoopDetectionConfig (Some strict_settings))" "lc_globalThreshold (resolveLoopDetectionConfig (Some strict_settings)) = 3"
    "lc_historySize (resolveLoopDetectionConfig (Some strict_settings)) = 5" by code_simp+
  have h: "hashToolCall (\<lambda>s. s) (js ''t'') VNull = Some (js ''t:null'')" by code_simp
  have "fruitless (\<lambda>s. s) (js ''k'') (Some strict_settings) (js ''t'') VNull (js ''true'') repeated_request" by code_simp
  then show ?thesis
    using runaway_call_bounded [OF busy(1) config(1), of "js ''true''" "\<lambda>s. s" "js ''t''" VNull "replicate 9 repeated_request"] config busy(2) h
    by (simp add: list_all_length js_def)
qed

section \<open>Calls with changed parameters are not seen\<close>

text \<open>C35: The loop guard does not see calls whose parameters a hook changes: the call is recorded under the parameters the model
  gave, its outcome under the changed ones, so that no recorded call of the model has an outcome, and in a session that is
  processing a message each of any number of identical calls with one and the same outcome is executed.\<close>

theorem adjusted_calls_not_seen:
  assumes "processing_session key w" and "tool_history key w = []" and "hashToolCall sha tn ps = Some h" and "list_all (rewritten sha key config tn ps) rqs"
  shows "length (filter executed (snd (run_ops (executeWrapped sha) w rqs))) = length rqs"
proof -
  have "list_all (unseen h) (tool_history key w) \<Longrightarrow> processing_session key w \<Longrightarrow>
      length (filter executed (snd (run_ops (executeWrapped sha) w rqs))) = length rqs" for w
    using assms(4)
  proof (induction rqs arbitrary: w)
    case (Cons rq rqs)
    obtain w1 e where step: "executeWrapped sha w rq = (w1, [e])" "executed e" "processing_session key w1" "list_all (unseen h) (tool_history key w1)"
      using rewritten_step [OF Cons.prems(2,1) assms(3), of config rq] Cons.prems(3) by auto
    then show ?case using Cons.IH [OF step(4,3)] Cons.prems(3) by (simp add: split_def Let_def)
  qed simp
  then show ?thesis using assms(1,2) by simp
qed

definition rewriting_hook :: hook_answer where
  "rewriting_hook = HookSays \<lparr> hr_params = Some (VObj [(js ''a'', VBool True)]), hr_block = False, hr_blockReason = None, hr_requireApproval = None \<rparr>"

lemma adjusted_calls_not_seen_witness:
  "length (filter executed (snd (run_ops (executeWrapped (\<lambda>s. s)) busy_world (replicate 9 (repeated_request\<lparr> rq_hook := rewriting_hook \<rparr>))))) = 9"
proof -
  have busy: "processing_session (js ''k'') busy_world" "tool_history (js ''k'') busy_world = []"
    by (simp_all add: processing_session_def tool_history_def new_session_def busy_world_def SESSION_STATE_MAX_ENTRIES_def js_def mget_def)
  have h: "hashToolCall (\<lambda>s. s) (js ''t'') VNull = Some (js ''t:null'')" by code_simp
  have "rewritten (\<lambda>s. s) (js ''k'') (Some strict_settings) (js ''t'') VNull (repeated_request\<lparr> rq_hook := rewriting_hook \<rparr>)" by code_simp
  then show ?thesis
    using adjusted_calls_not_seen [OF busy h, of "Some strict_settings" "replicate 9 (repeated_request\<lparr> rq_hook := rewriting_hook \<rparr>)"]
    by (simp add: list_all_length)
qed

section \<open>Sessions of one agent\<close>

text \<open>The answer of the guard, as it depends on the history alone.\<close>

lemma before_answer:
  assumes "getDiagnosticSessionState (Some key) (hc_agentId ctx) now w = (k, s, w1)" and "hc_sessionKey ctx = Some key" and "key \<noteq> []"
  shows "fst (runBeforeToolCallHook sha (Some ctx) tn0 ps callId hook answer now w) =
    (case detectToolCallLoop sha (st_toolCallHistory s) (named tn0) ps (hc_loopDetection ctx) of
       None \<Rightarrow> (Raised, None)
     | Some found \<Rightarrow>
        if (case found of Some f \<Rightarrow> lf_level f = LoopCritical | None \<Rightarrow> False) then (Blocked (lf_message (the found)), None)
        else if hashToolCall sha (named tn0) ps = None then (Raised, None) else run_hooks hook answer ps)"
  using assms by (auto simp: runBeforeToolCallHook_def filled_def check_loop_def recordLoopCall_def Let_def split: option.splits)

lemma executed_answer:
  "snd (executeWrapped sha w rq) =
    (case fst (fst (runBeforeToolCallHook sha (rq_context rq) (if rq_toolName rq = [] then js ''tool'' else rq_toolName rq) (rq_params rq)
        (Some (rq_toolCallId rq)) (rq_hook rq) (rq_approval rq) (rq_startedAt rq) w)) of
       Raised \<Rightarrow> [Refused None] | Blocked reason \<Rightarrow> [Refused (Some reason)] | Allowed params \<Rightarrow> [Ran (rq_tool rq params)])"
  by (simp add: executeWrapped_def Let_def split_def split: hook_outcome.split)

lemma find_kept: "find P xs = Some x \<Longrightarrow> Q x \<Longrightarrow> find P (filter Q xs) = Some x"
  by (induction xs) (auto split: if_splits)

lemma find_shared:
  assumes "find (\<lambda>(key, s). st_sessionId s = Some agent) (gw_sessions w) = Some (key, s)" and "processing_session key w"
  shows "findStateBySessionId agent (gw_sessions (pruneDiagnosticSessionStates now False w)) = Some key"
proof -
  have "(key, s) \<in> set (gw_sessions w)" using assms(1) by (auto simp: find_Some_iff in_set_conv_nth)
  then have "mget (gw_sessions w) key = Some s" using assms(2) by (intro in_set_mget) (auto simp: processing_session_def)
  then have "st_state s \<noteq> SessionIdle" using assms(2) by (auto simp: processing_session_def)
  then have "find (\<lambda>(key, s). st_sessionId s = Some agent) (filter (\<lambda>(key, s). \<not> outdated now s) (gw_sessions w)) = Some (key, s)"
    using assms(1) by (intro find_kept) (simp_all add: outdated_def)
  moreover have "length (filter (\<lambda>(key, s). \<not> outdated now s) (gw_sessions w)) \<le> SESSION_STATE_MAX_ENTRIES"
    using assms(2) length_filter_le [of "\<lambda>(key, s). \<not> outdated now s" "gw_sessions w"] unfolding processing_session_def by linarith
  ultimately show ?thesis using assms by (simp add: findStateBySessionId_def pruneDiagnosticSessionStates_def Let_def)
qed

lemma get_shared:
  assumes "find (\<lambda>(key, s). st_sessionId s = Some agent) (gw_sessions w) = Some (key, s0)" and "processing_session key w"
    and "agent \<noteq> []" and "other \<noteq> []" and "\<not> mhas (gw_sessions w) other"
    and "getDiagnosticSessionState (Some other) (Some agent) now w = (k, s, w1)"
  shows "k = key \<and> st_toolCallHistory s = tool_history key w"
proof -
  let ?w = "pruneDiagnosticSessionStates now False w"
  obtain t where t: "mget (gw_sessions ?w) key = Some t" "mget (gw_sessions w) key = Some t"
    using assms(2) prune_busy [OF assms(2), of now False] by (auto simp: processing_session_def)
  have "\<not> mhas (gw_sessions ?w) other"
    using assms(5) by (auto simp: pruneDiagnosticSessionStates_def mhas_def Let_def)
  moreover have "resolveSessionKey (Some other) (Some agent) = other" by (simp add: resolveSessionKey_def orElse_def opt_or_def)
  ultimately show ?thesis
    using assms(3,6) find_shared [OF assms(1,2), of now] t
    by (auto simp: getDiagnosticSessionState_def Let_def filled_def tool_history_def)
qed

text \<open>C36: A session of an agent is answered out of the history of another session of that agent: the state is looked for under the
  id of the agent in place of the id of the session, so that in a session that has no state of its own a call is allowed or blocked
  exactly as it would be in the session that the agent had first, as long as that one is processing a message.\<close>

theorem sessions_share_history:
  assumes "find (\<lambda>(key, s). st_sessionId s = Some agent) (gw_sessions w) = Some (key, s0)" and "processing_session key w"
    and "agent \<noteq> []" and "other \<noteq> []" and "\<not> mhas (gw_sessions w) other" and "hc_agentId ctx = Some agent"
  shows "snd (executeWrapped sha w (rq\<lparr> rq_context := Some (ctx\<lparr> hc_sessionKey := Some other \<rparr>) \<rparr>))
    = snd (executeWrapped sha w (rq\<lparr> rq_context := Some (ctx\<lparr> hc_sessionKey := Some key \<rparr>) \<rparr>))"
proof -
  obtain k s w1 where a: "getDiagnosticSessionState (Some other) (Some agent) (rq_startedAt rq) w = (k, s, w1)" by (metis prod_cases3)
  obtain k2 s2 w2 where b: "getDiagnosticSessionState (Some key) (Some agent) (rq_startedAt rq) w = (k2, s2, w2)" by (metis prod_cases3)
  have "st_toolCallHistory s = st_toolCallHistory s2" using get_shared [OF assms(1-5) a] get_busy [OF assms(2) b] by simp
  moreover have "key \<noteq> []" using assms(2) by (simp add: processing_session_def)
  ultimately have "fst (runBeforeToolCallHook sha (Some (ctx\<lparr> hc_sessionKey := Some other \<rparr>)) tn0 ps callId hook answer (rq_startedAt rq) w)
      = fst (runBeforeToolCallHook sha (Some (ctx\<lparr> hc_sessionKey := Some key \<rparr>)) tn0 ps callId hook answer (rq_startedAt rq) w)"
    for tn0 ps callId hook answer using a b assms(4,6) by (simp add: before_answer)
  then show ?thesis by (simp add: executed_answer split: hook_outcome.split)
qed

definition stuck_world :: guard_world where
  "stuck_world = busy_world\<lparr> gw_sessions := [(js ''k'', (new_session (Some (js ''k'')) (Some (js ''main'')) 0)\<lparr> st_state := SessionProcessing,
     st_toolCallHistory := [stuck_call, stuck_call, stuck_call] \<rparr>)] \<rparr>"

definition main_context :: hook_context where
  "main_context = \<lparr> hc_agentId = Some (js ''main''), hc_sessionKey = None, hc_runId = None, hc_loopDetection = Some strict_settings \<rparr>"

lemma sessions_share_history_witness:
  "snd (executeWrapped (\<lambda>s. s) stuck_world (repeated_request\<lparr> rq_context := Some (main_context\<lparr> hc_sessionKey := Some (js ''z'') \<rparr>) \<rparr>))
    = [Refused (Some (lf_message stuck_finding))]"
proof -
  have "find (\<lambda>(key, s). st_sessionId s = Some (js ''main'')) (gw_sessions stuck_world) = Some (js ''k'', snd (hd (gw_sessions stuck_world)))"
    by (simp add: stuck_world_def new_session_def)
  moreover have "processing_session (js ''k'') stuck_world"
    by (simp add: processing_session_def stuck_world_def SESSION_STATE_MAX_ENTRIES_def js_def mget_def)
  moreover have "\<not> mhas (gw_sessions stuck_world) (js ''z'')" by (simp add: stuck_world_def mhas_def js_def)
  moreover have "snd (executeWrapped (\<lambda>s. s) stuck_world (repeated_request\<lparr> rq_context := Some (main_context\<lparr> hc_sessionKey := Some (js ''k'') \<rparr>) \<rparr>))
    = [Refused (Some (lf_message stuck_finding))]" by code_simp
  ultimately show ?thesis
    using sessions_share_history [of "js ''main''" stuck_world "js ''k''" _ "js ''z''" main_context "\<lambda>s. s" repeated_request]
    by (simp add: main_context_def js_def)
qed

end
