(* ===== verification/ModelRef.thy ===== *)
theory ModelRef
  imports AuthUsage
begin

text \<open>
  Names of models: \<open>src/src/agents/model-ref-shared.ts\<close>, \<open>model-ref-profile.ts\<close>, \<open>model-selection-normalize.ts\<close>,
  \<open>model-selection-shared.ts\<close> (the parts that resolve a name), \<open>configured-provider-fallback.ts\<close>,
  \<open>src/src/config/model-input.ts\<close> and \<open>src/src/plugin-sdk/provider-model-id-normalize.ts\<close>.  A name is resolved through the
  aliases of the configuration, as \<open>provider/model\<close>, or with a default provider.  What a plugin of a provider makes of an id
  is the parameter \<open>plug\<close>.
\<close>

section \<open>Ids of models\<close>

record model_ref =
  mr_provider :: jsstr
  mr_model :: jsstr

abbreviation slash :: jschar where "slash \<equiv> 0x2F"
abbreviation at_sign :: jschar where "at_sign \<equiv> 0x40"

definition has_suffix :: "jsstr \<Rightarrow> jsstr \<Rightarrow> bool" where
  "has_suffix s t \<longleftrightarrow> length t \<le> length s \<and> drop (length s - length t) s = t"

definition modelKey :: "jsstr \<Rightarrow> jsstr \<Rightarrow> jsstr" where
  "modelKey provider model =
    (let providerId = trim provider; modelId = trim model in
     if providerId = [] then modelId
     else if modelId = [] then providerId
     else if starts_with (normalizeLowercaseStringOrEmpty (Some modelId)) (normalizeLowercaseStringOrEmpty (Some providerId) @ [slash]) then modelId
     else providerId @ [slash] @ modelId)"

definition legacyModelKey :: "jsstr \<Rightarrow> jsstr \<Rightarrow> jsstr option" where
  "legacyModelKey provider model =
    (let providerId = trim provider; modelId = trim model; rawKey = providerId @ [slash] @ modelId in
     if providerId = [] \<or> modelId = [] then None
     else if rawKey = modelKey providerId modelId then None else Some rawKey)"

definition normalizeAnthropicModelId :: "jsstr \<Rightarrow> jsstr" where
  "normalizeAnthropicModelId model =
    (let trimmed = trim model; lowered = normalizeLowercaseStringOrEmpty (Some trimmed) in
     if trimmed = [] then trimmed
     else if lowered = js ''opus-4.6'' then js ''claude-opus-4-6''
     else if lowered = js ''opus-4.5'' then js ''claude-opus-4-5''
     else if lowered = js ''sonnet-4.6'' then js ''claude-sonnet-4-6''
     else if lowered = js ''sonnet-4.5'' then js ''claude-sonnet-4-5''
     else trimmed)"

definition normalizeHuggingfaceModelId :: "jsstr \<Rightarrow> jsstr" where
  "normalizeHuggingfaceModelId model =
    (let trimmed = trim model; pre = js ''huggingface/'' in
     if trimmed = [] then trimmed
     else if starts_with (normalizeLowercaseStringOrEmpty (Some trimmed)) pre then drop (length pre) trimmed else trimmed)"

definition normalizeGooglePreviewModelId :: "jsstr \<Rightarrow> jsstr" where
  "normalizeGooglePreviewModelId i =
    (if i = js ''gemini-3-pro'' then js ''gemini-3-pro-preview''
     else if i = js ''gemini-3-flash'' then js ''gemini-3-flash-preview''
     else if i = js ''gemini-3.1-pro'' then js ''gemini-3.1-pro-preview''
     else if i = js ''gemini-3.1-flash-lite'' then js ''gemini-3.1-flash-lite-preview''
     else if i = js ''gemini-3.1-flash'' \<or> i = js ''gemini-3.1-flash-preview'' then js ''gemini-3-flash-preview''
     else i)"

definition normalizeNativeXaiModelId :: "jsstr \<Rightarrow> jsstr" where
  "normalizeNativeXaiModelId i =
    (if i = js ''grok-4-fast-reasoning'' then js ''grok-4-fast''
     else if i = js ''grok-4-1-fast-reasoning'' then js ''grok-4-1-fast''
     else if i = js ''grok-4.20-experimental-beta-0304-reasoning'' then js ''grok-4.20-beta-latest-reasoning''
     else if i = js ''grok-4.20-experimental-beta-0304-non-reasoning'' then js ''grok-4.20-beta-latest-non-reasoning''
     else if i = js ''grok-4.20-reasoning'' then js ''grok-4.20-beta-latest-reasoning''
     else if i = js ''grok-4.20-non-reasoning'' then js ''grok-4.20-beta-latest-non-reasoning''
     else i)"

definition normalizeStaticProviderModelId :: "jsstr \<Rightarrow> jsstr \<Rightarrow> jsstr" where
  "normalizeStaticProviderModelId provider model =
    (if provider = js ''anthropic'' then normalizeAnthropicModelId model
     else if provider = js ''huggingface'' then normalizeHuggingfaceModelId model
     else if provider = js ''google'' \<or> provider = js ''google-vertex'' then normalizeGooglePreviewModelId model
     else if provider = js ''openrouter'' \<and> slash \<notin> set model then js ''openrouter/'' @ model
     else if provider = js ''xai'' then normalizeNativeXaiModelId model
     else if provider = js ''vercel-ai-gateway'' \<and> slash \<notin> set model \<and> starts_with (normalizeAnthropicModelId model) (js ''claude-'')
     then js ''anthropic/'' @ normalizeAnthropicModelId model
     else model)"

text \<open>The text before the first slash and the text after it, if there is one.\<close>

definition parseStaticModelRef :: "jsstr \<Rightarrow> jsstr \<Rightarrow> model_ref option" where
  "parseStaticModelRef raw defaultProvider =
    (let trimmed = trim raw; before = takeWhile (\<lambda>c. c \<noteq> slash) trimmed; bare = (slash \<notin> set trimmed);
         providerRaw = (if bare then defaultProvider else trim before);
         modelRaw = (if bare then trimmed else trim (drop (Suc (length before)) trimmed));
         provider = normalizeProviderId providerRaw
     in if trimmed = [] \<or> providerRaw = [] \<or> modelRaw = [] then None
        else Some \<lparr> mr_provider = provider, mr_model = normalizeStaticProviderModelId provider modelRaw \<rparr>)"

definition resolveStaticAllowlistModelKey :: "jsstr \<Rightarrow> jsstr \<Rightarrow> jsstr option" where
  "resolveStaticAllowlistModelKey raw defaultProvider = map_option (\<lambda>r. modelKey (mr_provider r) (mr_model r)) (parseStaticModelRef raw defaultProvider)"

section \<open>The credential at the end of a name\<close>

text \<open>\<open>indexOf\<close> of a character, from a start.\<close>

definition index_from :: "jschar \<Rightarrow> nat \<Rightarrow> jsstr \<Rightarrow> nat option" where
  "index_from c n s = (let k = n + length (takeWhile (\<lambda>d. d \<noteq> c) (drop n s)) in if k < length s then Some k else None)"

definition ends_here :: "jsstr \<Rightarrow> bool" where
  "ends_here s \<longleftrightarrow> (case s of [] \<Rightarrow> True | c # r \<Rightarrow> c = at_sign)"

definition date_suffix :: "jsstr \<Rightarrow> bool" where
  "date_suffix s \<longleftrightarrow> 8 \<le> length s \<and> list_all is_digit (take 8 s) \<and> ends_here (drop 8 s)"

definition id_letter :: "jschar \<Rightarrow> bool" where
  "id_letter c \<longleftrightarrow> is_digit c \<or> (0x61 \<le> c \<and> c \<le> 0x7A) \<or> (0x41 \<le> c \<and> c \<le> 0x5A)"

text \<open>Groups of an underscore and letters or digits, as many as there are.\<close>

function skip_groups :: "jsstr \<Rightarrow> jsstr" where
  "skip_groups s = (case s of
     c # r \<Rightarrow> if c = 0x5F \<and> takeWhile id_letter r \<noteq> [] then skip_groups (dropWhile id_letter r) else s
   | [] \<Rightarrow> [])"
  by pat_completeness auto
termination by (relation "measure length") (auto simp: le_imp_less_Suc length_dropWhile_le)

definition quant_suffix :: "jsstr \<Rightarrow> bool" where
  "quant_suffix s \<longleftrightarrow>
    (case s of c # r \<Rightarrow> (c = 0x71 \<or> c = 0x51) \<and> takeWhile is_digit r \<noteq> [] \<and> ends_here (skip_groups (dropWhile is_digit r)) | [] \<Rightarrow> False)
    \<or> (takeWhile is_digit s \<noteq> [] \<and> map lower_char (take 3 (dropWhile is_digit s)) = js ''bit'' \<and> ends_here (drop 3 (dropWhile is_digit s)))"

definition splitTrailingAuthProfile :: "jsstr \<Rightarrow> jsstr \<times> jsstr option" where
  "splitTrailingAuthProfile raw =
    (let trimmed = trim raw; afterSlash = length trimmed - length (takeWhile (\<lambda>c. c \<noteq> slash) (rev trimmed));
         whole = (trimmed, None);
         dated = (\<lambda>k. if date_suffix (drop (Suc k) trimmed) then index_from at_sign (k + 9) trimmed else Some k);
         quant = (\<lambda>k. if quant_suffix (drop (Suc k) trimmed) then index_from at_sign (Suc k) trimmed else Some k)
     in case index_from at_sign afterSlash trimmed of
          None \<Rightarrow> whole
        | Some k \<Rightarrow>
            if k = 0 then whole
            else (case Option.bind (dated k) quant of
               None \<Rightarrow> whole
             | Some k \<Rightarrow>
                let model = trim (take k trimmed); profile = trim (drop (Suc k) trimmed)
                in if model = [] \<or> profile = [] then whole else (model, Some profile)))"

section \<open>Parsing\<close>

type_synonym id_plugin = "jsstr \<Rightarrow> jsstr \<Rightarrow> jsstr option"

definition no_plugin :: id_plugin where
  "no_plugin provider modelId = None"

definition normalizeProviderModelId :: "id_plugin \<Rightarrow> jsstr \<Rightarrow> jsstr \<Rightarrow> jsstr" where
  "normalizeProviderModelId plug provider model =
    (let staticModelId = normalizeStaticProviderModelId provider model in
     case plug provider staticModelId of Some i \<Rightarrow> i | None \<Rightarrow> staticModelId)"

definition normalizeModelRef :: "id_plugin \<Rightarrow> jsstr \<Rightarrow> jsstr \<Rightarrow> model_ref" where
  "normalizeModelRef plug provider model =
    (let normalizedProvider = normalizeProviderId provider in
     \<lparr> mr_provider = normalizedProvider, mr_model = normalizeProviderModelId plug normalizedProvider (trim model) \<rparr>)"

definition parseModelRef :: "id_plugin \<Rightarrow> jsstr \<Rightarrow> jsstr \<Rightarrow> model_ref option" where
  "parseModelRef plug raw defaultProvider =
    (let trimmed = trim raw; before = takeWhile (\<lambda>c. c \<noteq> slash) trimmed in
     if trimmed = [] then None
     else if normalizeLowercaseStringOrEmpty (Some trimmed) = js ''openrouter:auto'' then Some (normalizeModelRef plug (js ''openrouter'') (js ''auto''))
     else if slash \<notin> set trimmed then Some (normalizeModelRef plug defaultProvider trimmed)
     else (let providerRaw = trim before; model = trim (drop (Suc (length before)) trimmed) in
       if providerRaw = [] \<or> model = [] then None else Some (normalizeModelRef plug providerRaw model)))"

section \<open>The configuration\<close>

text \<open>The setting of a model: a name, or a primary with fallbacks.\<close>

datatype model_setting = ModelName jsstr | ModelList "jsstr option" "jsstr list option"

text \<open>Models of the agents, with their aliases, and the providers with the ids of their models.\<close>

record model_config =
  cm_model :: "model_setting option"
  cm_imageModel :: "model_setting option"
  cm_models :: "(jsstr, jsstr option) jsmap option"
  cm_providers :: "(jsstr, jsstr list option) jsmap option"

definition resolvePrimaryStringValue :: "model_setting option \<Rightarrow> jsstr option" where
  "resolvePrimaryStringValue given = (case given of
     Some (ModelName s) \<Rightarrow> normalizeOptionalString (Some s)
   | Some (ModelList primary fallbacks) \<Rightarrow> normalizeOptionalString primary
   | None \<Rightarrow> None)"

definition resolveAgentModelPrimaryValue :: "model_setting option \<Rightarrow> jsstr option" where
  "resolveAgentModelPrimaryValue model = resolvePrimaryStringValue model"

definition resolveAgentModelFallbackValues :: "model_setting option \<Rightarrow> jsstr list" where
  "resolveAgentModelFallbackValues model = (case model of Some (ModelList primary (Some fallbacks)) \<Rightarrow> fallbacks | _ \<Rightarrow> [])"

definition configured_models :: "model_config \<Rightarrow> (jsstr, jsstr option) jsmap" where
  "configured_models cfg = (case cm_models cfg of Some m \<Rightarrow> m | None \<Rightarrow> [])"

text \<open>The provider of a bare model id, if exactly one provider is configured with that model.\<close>

definition same_id :: "jsstr \<Rightarrow> jsstr \<Rightarrow> bool" where
  "same_id model i \<longleftrightarrow> i = model \<or> normalizeLowercaseStringOrEmpty (Some i) = normalizeLowercaseStringOrEmpty (Some model)"

definition DEFAULT_PROVIDER :: jsstr where "DEFAULT_PROVIDER = js ''openai''"
definition DEFAULT_MODEL :: jsstr where "DEFAULT_MODEL = js ''gpt-5.4''"

definition inferUniqueProviderFromConfiguredModels :: "model_config \<Rightarrow> jsstr \<Rightarrow> jsstr option" where
  "inferUniqueProviderFromConfiguredModels cfg model0 =
    (let model = trim model0;
         listed = List.map_filter (\<lambda>(key, alias). if trim key = [] \<or> slash \<notin> set (trim key) then None
           else (case parseModelRef no_plugin (trim key) DEFAULT_PROVIDER of
             Some r \<Rightarrow> if same_id model (mr_model r) then Some (mr_provider r) else None
           | None \<Rightarrow> None)) (configured_models cfg);
         offered = map fst (filter (\<lambda>(provider, models). case models of None \<Rightarrow> False
           | Some ids \<Rightarrow> \<exists>i \<in> set ids. trim i \<noteq> [] \<and> same_id model (trim i)) (case cm_providers cfg of Some m \<Rightarrow> m | None \<Rightarrow> []));
         providers = remdups (filter (\<lambda>p. p \<noteq> []) (map normalizeProviderId (listed @ offered)))
     in if model = [] then None else (case providers of [p] \<Rightarrow> Some p | _ \<Rightarrow> None))"

section \<open>The names \<open>openrouter:auto\<close> and \<open>openrouter:free\<close>\<close>

definition isConcreteOpenRouterFreeModelRef :: "model_ref \<Rightarrow> bool" where
  "isConcreteOpenRouterFreeModelRef r \<longleftrightarrow> mr_provider r = js ''openrouter'' \<and> slash \<in> set (mr_model r) \<and> has_suffix (mr_model r) (js '':free'')"

definition resolveConfiguredOpenRouterCompatFreeRef :: "id_plugin \<Rightarrow> model_config \<Rightarrow> jsstr \<Rightarrow> model_ref option" where
  "resolveConfiguredOpenRouterCompatFreeRef plug cfg defaultProvider =
    (let listed = List.map_filter (\<lambda>raw. if slash \<notin> set raw then None else parseModelRef plug raw defaultProvider) (mkeys (configured_models cfg));
         ids = (case findNormalizedProviderValue (cm_providers cfg) (js ''openrouter'') of Some (Some ids) \<Rightarrow> ids | _ \<Rightarrow> [])
     in case find isConcreteOpenRouterFreeModelRef listed of
          Some r \<Rightarrow> Some r
        | None \<Rightarrow> map_option (normalizeModelRef plug (js ''openrouter''))
            (find (\<lambda>i. i \<noteq> [] \<and> slash \<in> set i \<and> has_suffix i (js '':free'')) (map trim ids)))"

definition resolveConfiguredOpenRouterCompatAlias :: "id_plugin \<Rightarrow> model_config option \<Rightarrow> jsstr \<Rightarrow> jsstr \<Rightarrow> model_ref option" where
  "resolveConfiguredOpenRouterCompatAlias plug cfg raw defaultProvider =
    (let normalized = normalizeLowercaseStringOrEmpty (Some raw) in
     if normalized = js ''openrouter:auto'' then Some (normalizeModelRef plug (js ''openrouter'') (js ''auto''))
     else if normalized \<noteq> js ''openrouter:free'' then None
     else Option.bind cfg (\<lambda>c. resolveConfiguredOpenRouterCompatFreeRef plug c defaultProvider))"

definition parseModelRefWithCompatAlias :: "id_plugin \<Rightarrow> model_config option \<Rightarrow> jsstr \<Rightarrow> jsstr \<Rightarrow> model_ref option" where
  "parseModelRefWithCompatAlias plug cfg raw defaultProvider =
    orElse (resolveConfiguredOpenRouterCompatAlias plug cfg raw defaultProvider) (parseModelRef plug raw defaultProvider)"

section \<open>Allow list and aliases\<close>

definition resolveAllowlistModelKey :: "id_plugin \<Rightarrow> model_config option \<Rightarrow> jsstr \<Rightarrow> jsstr \<Rightarrow> jsstr option" where
  "resolveAllowlistModelKey plug cfg raw defaultProvider =
    map_option (\<lambda>r. modelKey (mr_provider r) (mr_model r)) (parseModelRefWithCompatAlias plug cfg raw defaultProvider)"

definition buildConfiguredAllowlistKeys :: "id_plugin \<Rightarrow> model_config option \<Rightarrow> jsstr \<Rightarrow> jsstr list option" where
  "buildConfiguredAllowlistKeys plug cfg defaultProvider =
    (let rawAllowlist = (case cfg of Some c \<Rightarrow> mkeys (configured_models c) | None \<Rightarrow> []);
         resolved = List.map_filter (\<lambda>raw. resolveAllowlistModelKey plug cfg raw defaultProvider) rawAllowlist;
         allowed = foldl sadd [] (filter (\<lambda>key. key \<noteq> []) resolved)
     in if allowed = [] then None else Some allowed)"

record alias_index =
  ai_byAlias :: "(jsstr, jsstr \<times> model_ref) jsmap"
  ai_byKey :: "(jsstr, jsstr list) jsmap"

definition index_alias :: "alias_index \<Rightarrow> jsstr \<times> model_ref \<Rightarrow> alias_index" where
  "index_alias ix entry =
    (let (alias, r) = entry; key = modelKey (mr_provider r) (mr_model r);
         existing = (case mget (ai_byKey ix) key of Some l \<Rightarrow> l | None \<Rightarrow> [])
     in \<lparr> ai_byAlias = mput (ai_byAlias ix) (normalizeLowercaseStringOrEmpty (Some alias)) (alias, r), ai_byKey = mput (ai_byKey ix) key (existing @ [alias]) \<rparr>)"

definition buildModelAliasIndex :: "id_plugin \<Rightarrow> model_config \<Rightarrow> jsstr \<Rightarrow> alias_index" where
  "buildModelAliasIndex plug cfg defaultProvider =
    foldl index_alias \<lparr> ai_byAlias = [], ai_byKey = [] \<rparr> (List.map_filter (\<lambda>(keyRaw, alias).
      case (parseModelRefWithCompatAlias plug (Some cfg) keyRaw defaultProvider, normalizeOptionalString alias) of
        (Some parsed, Some name) \<Rightarrow> Some (name, parsed)
      | _ \<Rightarrow> None) (configured_models cfg))"

section \<open>Resolving a name\<close>

definition resolveModelRefFromString :: "id_plugin \<Rightarrow> model_config option \<Rightarrow> jsstr \<Rightarrow> jsstr \<Rightarrow> alias_index option \<Rightarrow> (model_ref \<times> jsstr option) option" where
  "resolveModelRefFromString plug cfg raw defaultProvider aliasIndex =
    (let model = fst (splitTrailingAuthProfile raw);
         aliasMatch = (if slash \<notin> set model then Option.bind aliasIndex (\<lambda>ix. mget (ai_byAlias ix) (normalizeLowercaseStringOrEmpty (Some model))) else None)
     in if model = [] then None
        else (case aliasMatch of
            Some (alias, r) \<Rightarrow> Some (r, Some alias)
          | None \<Rightarrow> map_option (\<lambda>r. (r, None)) (parseModelRefWithCompatAlias plug cfg model defaultProvider)))"

definition resolveConfiguredProviderFallback :: "model_config \<Rightarrow> jsstr \<Rightarrow> jsstr option \<Rightarrow> model_ref option" where
  "resolveConfiguredProviderFallback cfg defaultProvider defaultModel0 = (case cm_providers cfg of
     None \<Rightarrow> None
   | Some providers \<Rightarrow>
      let defaultModel = (case defaultModel0 of Some m \<Rightarrow> trim m | None \<Rightarrow> []);
          hasDefaultModel = (case mget providers defaultProvider of Some (Some ids) \<Rightarrow> defaultModel \<noteq> [] \<and> defaultModel \<in> set ids | _ \<Rightarrow> False)
      in if mhas providers defaultProvider \<and> (defaultModel = [] \<or> hasDefaultModel) then None
         else (case find (\<lambda>(provider, models). case models of Some (i # ids) \<Rightarrow> i \<noteq> [] | _ \<Rightarrow> False) providers of
            Some (provider, Some (i # ids)) \<Rightarrow> Some \<lparr> mr_provider = provider, mr_model = i \<rparr>
          | _ \<Rightarrow> None))"

definition resolveConfiguredModelRef :: "id_plugin \<Rightarrow> model_config \<Rightarrow> jsstr \<Rightarrow> jsstr \<Rightarrow> model_ref" where
  "resolveConfiguredModelRef plug cfg defaultProvider defaultModel =
    (let fallback = (case resolveConfiguredProviderFallback cfg defaultProvider None of
           Some r \<Rightarrow> r | None \<Rightarrow> \<lparr> mr_provider = defaultProvider, mr_model = defaultModel \<rparr>)
     in case resolveAgentModelPrimaryValue (cm_model cfg) of
          None \<Rightarrow> fallback
        | Some rawModel \<Rightarrow>
            let trimmed = trim rawModel; aliasIndex = buildModelAliasIndex plug cfg defaultProvider in
            if slash \<notin> set trimmed
            then (case resolveConfiguredOpenRouterCompatAlias plug (Some cfg) trimmed defaultProvider of
                Some r \<Rightarrow> r
              | None \<Rightarrow> (case mget (ai_byAlias aliasIndex) (normalizeLowercaseStringOrEmpty (Some trimmed)) of
                  Some (alias, r) \<Rightarrow> r
                | None \<Rightarrow> (case inferUniqueProviderFromConfiguredModels cfg trimmed of
                    Some p \<Rightarrow> \<lparr> mr_provider = p, mr_model = trimmed \<rparr>
                  | None \<Rightarrow> \<lparr> mr_provider = defaultProvider, mr_model = trimmed \<rparr>)))
            else (case resolveModelRefFromString plug (Some cfg) trimmed defaultProvider (Some aliasIndex) of
                Some (r, alias) \<Rightarrow> r
              | None \<Rightarrow> fallback))"

end
