(* ===== verification/FailoverErrors.thy ===== *)
theory FailoverErrors
  imports AuthUsage
begin

text \<open>
  What an error of a model call means: \<open>src/src/agents/failover-error.ts\<close>, \<open>failover-policy.ts\<close> and \<open>formatErrorMessage\<close> of
  \<open>src/src/infra/errors.ts\<close>.  An error is a tree: a value that was thrown, or an object with the fields that are read and with
  the objects in \<open>error\<close>, \<open>cause\<close> and \<open>reason\<close> (a cycle, which the source guards against, has no tree).  The patterns
  of messages, \<open>classifyFailoverSignal\<close>, \<open>isTimeoutErrorMessage\<close>, \<open>isLikelyContextOverflowError\<close> and
  \<open>redactSensitiveText\<close>, are parameters.
\<close>

section \<open>Errors\<close>

text \<open>The class of an object: not an \<open>Error\<close>, an \<open>Error\<close>, or one of the two classes that are tested for.\<close>

datatype error_class = NoError | PlainError | FailoverErrorClass | SwitchErrorClass

record error_info =
  ei_class :: error_class
  ei_name :: jsval
  ei_message :: jsval
  ei_status :: jsval
  ei_statusCode :: jsval
  ei_code :: jsval
  ei_provider :: jsval

text \<open>A primitive value, or an object with its \<open>reason\<close>, its \<open>error\<close> and its \<open>cause\<close>.\<close>

datatype failure = FValue jsval | FObject error_info failure failure failure

definition no_field :: failure where
  "no_field = FValue VUndef"

fun is_truthy :: "failure \<Rightarrow> bool" where
  "is_truthy (FValue v) = truthy v"
| "is_truthy (FObject i r e c) = True"

fun is_error :: "failure \<Rightarrow> bool" where
  "is_error (FValue v) = False"
| "is_error (FObject i r e c) = (ei_class i \<noteq> NoError)"

fun isFailoverError :: "failure \<Rightarrow> bool" where
  "isFailoverError (FValue v) = False"
| "isFailoverError (FObject i r e c) =
    (ei_class i = FailoverErrorClass \<or> (ei_name i = VStr (js ''FailoverError'') \<and> (case r of FValue (VStr s) \<Rightarrow> True | _ \<Rightarrow> False)))"

definition resolveFailoverStatus :: "jsstr \<Rightarrow> jsnum option" where
  "resolveFailoverStatus reason =
    (if reason = js ''billing'' then Some (Fin 402)
     else if reason = js ''rate_limit'' then Some (Fin 429)
     else if reason = js ''overloaded'' then Some (Fin 503)
     else if reason = js ''auth'' then Some (Fin 401)
     else if reason = js ''auth_permanent'' then Some (Fin 403)
     else if reason = js ''timeout'' then Some (Fin 408)
     else if reason = js ''format'' then Some (Fin 400)
     else if reason = js ''model_not_found'' then Some (Fin 404)
     else if reason = js ''session_expired'' then Some (Fin 410)
     else None)"

fun findErrorProperty :: "(failure \<Rightarrow> 'a option) \<Rightarrow> failure \<Rightarrow> 'a option" where
  "findErrorProperty reader (FValue v) = reader (FValue v)"
| "findErrorProperty reader (FObject i r e c) = (case reader (FObject i r e c) of
     Some x \<Rightarrow> Some x
   | None \<Rightarrow> orElse (findErrorProperty reader e) (findErrorProperty reader c))"

definition all_digits :: "jsstr \<Rightarrow> bool" where
  "all_digits s \<longleftrightarrow> s \<noteq> [] \<and> list_all is_digit s"

definition filled_trim :: "jsstr \<Rightarrow> jsstr option" where
  "filled_trim s = (if trim s = [] then None else Some (trim s))"

fun readDirectStatusCode :: "failure \<Rightarrow> jsnum option" where
  "readDirectStatusCode (FValue v) = None"
| "readDirectStatusCode (FObject i r e c) = (case coalesce (ei_status i) (ei_statusCode i) of
     VNum n \<Rightarrow> Some n
   | VStr s \<Rightarrow> if all_digits s then Some (Number s) else None
   | _ \<Rightarrow> None)"

definition getStatusCode :: "failure \<Rightarrow> jsnum option" where
  "getStatusCode err = findErrorProperty readDirectStatusCode err"

fun readDirectErrorCode :: "failure \<Rightarrow> jsstr option" where
  "readDirectErrorCode (FValue v) = None"
| "readDirectErrorCode (FObject i r e c) = (case ei_code i of
     VStr s \<Rightarrow> filled_trim s
   | _ \<Rightarrow> (case ei_status i of VStr s \<Rightarrow> if all_digits s then None else filled_trim s | _ \<Rightarrow> None))"

definition getErrorCode :: "failure \<Rightarrow> jsstr option" where
  "getErrorCode err = findErrorProperty readDirectErrorCode err"

fun readDirectProvider :: "failure \<Rightarrow> jsstr option" where
  "readDirectProvider (FValue v) = None"
| "readDirectProvider (FObject i r e c) = (case ei_provider i of VStr s \<Rightarrow> filled_trim s | _ \<Rightarrow> None)"

definition getProvider :: "failure \<Rightarrow> jsstr option" where
  "getProvider err = findErrorProperty readDirectProvider err"

definition filled_text :: "jsstr \<Rightarrow> jsstr option" where
  "filled_text s = (if s = [] then None else Some s)"

fun readDirectErrorMessage :: "failure \<Rightarrow> jsstr option" where
  "readDirectErrorMessage (FValue (VStr s)) = filled_text s"
| "readDirectErrorMessage (FValue (VNum n)) = Some (num_str n)"
| "readDirectErrorMessage (FValue (VBool b)) = Some (if b then js ''true'' else js ''false'')"
| "readDirectErrorMessage (FValue v) = None"
| "readDirectErrorMessage (FObject i r e c) = (case ei_message i of VStr s \<Rightarrow> filled_text s | _ \<Rightarrow> None)"

definition getErrorMessage :: "failure \<Rightarrow> jsstr" where
  "getErrorMessage err = (case findErrorProperty readDirectErrorMessage err of Some s \<Rightarrow> s | None \<Rightarrow> [])"

text \<open>\<open>String(err)\<close>.\<close>

fun string_of :: "failure \<Rightarrow> jsstr" where
  "string_of (FValue (VStr s)) = s"
| "string_of (FValue (VNum n)) = num_str n"
| "string_of (FValue (VBool b)) = (if b then js ''true'' else js ''false'')"
| "string_of (FValue VNull) = js ''null''"
| "string_of (FValue VUndef) = js ''undefined''"
| "string_of (FValue v) = js ''[object Object]''"
| "string_of (FObject i r e c) =
    (if ei_class i = NoError then js ''[object Object]''
     else (let name = (case ei_name i of VStr s \<Rightarrow> s | _ \<Rightarrow> js ''Error''); message = (case ei_message i of VStr s \<Rightarrow> s | _ \<Rightarrow> []) in
       if name = [] then message else if message = [] then name else name @ js '': '' @ message))"

section \<open>Classification\<close>

record failover_signal =
  fs_status :: "jsnum option"
  fs_code :: "jsstr option"
  fs_message :: "jsstr option"
  fs_provider :: "jsstr option"

datatype failover_class = ReasonClass jsstr | ContextOverflow

text \<open>The patterns, and how an object that is not an \<open>Error\<close> is printed as JSON.\<close>

record error_patterns =
  ep_classify :: "failover_signal \<Rightarrow> failover_class option"
  ep_timeout :: "jsstr \<Rightarrow> bool"
  ep_overflow :: "jsstr \<Rightarrow> bool"
  ep_redact :: "jsstr \<Rightarrow> jsstr"
  ep_json :: "failure \<Rightarrow> jsstr"

fun readErrorName :: "failure \<Rightarrow> jsstr" where
  "readErrorName (FValue v) = []"
| "readErrorName (FObject i r e c) = (case ei_name i of VStr s \<Rightarrow> s | _ \<Rightarrow> [])"

definition hasTimeoutHint :: "error_patterns \<Rightarrow> failure \<Rightarrow> bool" where
  "hasTimeoutHint P err \<longleftrightarrow> is_truthy err \<and> (readErrorName err = js ''TimeoutError'' \<or> (getErrorMessage err \<noteq> [] \<and> ep_timeout P (getErrorMessage err)))"

definition abort_timeout_text :: "jsstr \<Rightarrow> bool" where
  "abort_timeout_text message \<longleftrightarrow> str_includes (map lower_char message) (js ''request was aborted'') \<or> str_includes (map lower_char message) (js ''request aborted'')"

fun isTimeoutError :: "error_patterns \<Rightarrow> failure \<Rightarrow> bool" where
  "isTimeoutError P (FValue v) = hasTimeoutHint P (FValue v)"
| "isTimeoutError P (FObject i r e c) =
    (if hasTimeoutHint P (FObject i r e c) then True
     else if readErrorName (FObject i r e c) \<noteq> js ''AbortError'' then False
     else if getErrorMessage (FObject i r e c) \<noteq> [] \<and> abort_timeout_text (getErrorMessage (FObject i r e c)) then True
     else hasTimeoutHint P c \<or> hasTimeoutHint P r)"

definition normalizeErrorSignal :: "failure \<Rightarrow> failover_signal" where
  "normalizeErrorSignal err = \<lparr> fs_status = getStatusCode err, fs_code = getErrorCode err,
     fs_message = filled_text (getErrorMessage err), fs_provider = getProvider err \<rparr>"

fun own_reason :: "failure \<Rightarrow> jsstr" where
  "own_reason (FObject i (FValue (VStr s)) e c) = s"
| "own_reason err = []"

text \<open>The cause is asked when the error itself says nothing or speaks of an overflow.\<close>

fun resolveFailoverClassificationFromError :: "error_patterns \<Rightarrow> failure \<Rightarrow> failover_class option" where
  "resolveFailoverClassificationFromError P (FValue v) = (case ep_classify P (normalizeErrorSignal (FValue v)) of
     Some k \<Rightarrow> Some k
   | None \<Rightarrow> if isTimeoutError P (FValue v) then Some (ReasonClass (js ''timeout'')) else None)"
| "resolveFailoverClassificationFromError P (FObject i r e c) =
    (let err = FObject i r e c; classification = ep_classify P (normalizeErrorSignal err);
         ofCause = (if (classification = None \<or> classification = Some ContextOverflow) \<and> is_truthy c then resolveFailoverClassificationFromError P c else None)
     in if isFailoverError err then Some (ReasonClass (own_reason err))
        else (case orElse ofCause classification of
            Some k \<Rightarrow> Some k
          | None \<Rightarrow> if isTimeoutError P err then Some (ReasonClass (js ''timeout'')) else None))"

definition resolveFailoverReasonFromError :: "error_patterns \<Rightarrow> failure \<Rightarrow> jsstr option" where
  "resolveFailoverReasonFromError P err = (case resolveFailoverClassificationFromError P err of Some (ReasonClass r) \<Rightarrow> Some r | _ \<Rightarrow> None)"

record described =
  de_message :: jsstr
  de_reason :: "jsstr option"
  de_status :: "jsnum option"
  de_code :: "jsstr option"

definition signal_text :: "failure \<Rightarrow> jsstr" where
  "signal_text err = (case fs_message (normalizeErrorSignal err) of Some s \<Rightarrow> s | None \<Rightarrow> string_of err)"

definition num_value :: "jsval \<Rightarrow> jsnum option" where
  "num_value v = (case v of VNum n \<Rightarrow> Some n | _ \<Rightarrow> None)"

definition str_value :: "jsval \<Rightarrow> jsstr option" where
  "str_value v = (case v of VStr s \<Rightarrow> Some s | _ \<Rightarrow> None)"

fun own_description :: "failure \<Rightarrow> described" where
  "own_description (FObject i r e c) = \<lparr> de_message = (case ei_message i of VStr s \<Rightarrow> s | _ \<Rightarrow> []), de_reason = Some (own_reason (FObject i r e c)),
     de_status = num_value (ei_status i), de_code = str_value (ei_code i) \<rparr>"
| "own_description (FValue v) = \<lparr> de_message = [], de_reason = None, de_status = None, de_code = None \<rparr>"

definition describeFailoverError :: "error_patterns \<Rightarrow> failure \<Rightarrow> described" where
  "describeFailoverError P err =
    (if isFailoverError err then own_description err
     else (let signal = normalizeErrorSignal err in
       \<lparr> de_message = signal_text err, de_reason = resolveFailoverReasonFromError P err, de_status = fs_status signal, de_code = fs_code signal \<rparr>))"

definition opt_val :: "('a \<Rightarrow> jsval) \<Rightarrow> 'a option \<Rightarrow> jsval" where
  "opt_val f v = (case v of Some x \<Rightarrow> f x | None \<Rightarrow> VUndef)"

definition new_FailoverError :: "jsstr \<Rightarrow> jsstr \<Rightarrow> jsstr \<Rightarrow> jsnum option \<Rightarrow> jsstr option \<Rightarrow> failure \<Rightarrow> failure" where
  "new_FailoverError message reason provider status code cause =
    FObject \<lparr> ei_class = FailoverErrorClass, ei_name = VStr (js ''FailoverError''), ei_message = VStr message, ei_status = opt_val VNum status,
      ei_statusCode = VUndef, ei_code = opt_val VStr code, ei_provider = VStr provider \<rparr> (FValue (VStr reason)) no_field cause"

definition coerceToFailoverError :: "error_patterns \<Rightarrow> jsstr \<Rightarrow> failure \<Rightarrow> failure option" where
  "coerceToFailoverError P provider err =
    (if isFailoverError err then Some err
     else (case resolveFailoverReasonFromError P err of
        None \<Rightarrow> None
      | Some reason \<Rightarrow>
          if reason = [] then None
          else (let signal = normalizeErrorSignal err in
            Some (new_FailoverError (signal_text err) reason provider (orElse (fs_status signal) (resolveFailoverStatus reason)) (fs_code signal)
              (if is_error err then err else no_field)))))"

section \<open>The text of an error\<close>

fun cause_texts :: "failure \<Rightarrow> jsstr" where
  "cause_texts (FValue (VStr s)) = (if s = [] then [] else js '' | '' @ s)"
| "cause_texts (FValue v) = []"
| "cause_texts (FObject i r e c) =
    (if ei_class i = NoError then []
     else (case ei_message i of VStr s \<Rightarrow> if s = [] then [] else js '' | '' @ s | _ \<Rightarrow> []) @ cause_texts c)"

fun formatErrorMessage :: "error_patterns \<Rightarrow> failure \<Rightarrow> jsstr" where
  "formatErrorMessage P (FValue (VStr s)) = ep_redact P s"
| "formatErrorMessage P (FValue (VNum n)) = ep_redact P (num_str n)"
| "formatErrorMessage P (FValue (VBool b)) = ep_redact P (if b then js ''true'' else js ''false'')"
| "formatErrorMessage P (FValue v) = ep_redact P (ep_json P (FValue v))"
| "formatErrorMessage P (FObject i r e c) = ep_redact P
    (if ei_class i = NoError then ep_json P (FObject i r e c)
     else (let message = (case ei_message i of VStr s \<Rightarrow> s | _ \<Rightarrow> []); name = (case ei_name i of VStr s \<Rightarrow> s | _ \<Rightarrow> []) in
       (if message \<noteq> [] then message else if name \<noteq> [] then name else js ''Error'') @ cause_texts c))"

section \<open>Policies\<close>

definition shouldAllowCooldownProbeForReason :: "jsstr option \<Rightarrow> bool" where
  "shouldAllowCooldownProbeForReason reason \<longleftrightarrow> reason \<in> Some ` set (map js [''rate_limit'', ''overloaded'', ''billing'', ''unknown'', ''timeout''])"

definition shouldUseTransientCooldownProbeSlot :: "jsstr option \<Rightarrow> bool" where
  "shouldUseTransientCooldownProbeSlot reason \<longleftrightarrow> reason \<in> Some ` set (map js [''rate_limit'', ''overloaded'', ''unknown'', ''timeout''])"

definition shouldPreserveTransientCooldownProbeSlot :: "jsstr option \<Rightarrow> bool" where
  "shouldPreserveTransientCooldownProbeSlot reason \<longleftrightarrow>
    reason \<in> Some ` set (map js [''model_not_found'', ''format'', ''auth'', ''auth_permanent'', ''session_expired''])"

section \<open>Facts\<close>

lemma coerced_is_failover: "coerceToFailoverError P provider err = Some f \<Longrightarrow> isFailoverError f"
  by (auto simp: coerceToFailoverError_def new_FailoverError_def Let_def split: if_splits option.splits)

lemma coerce_failover [simp]: "isFailoverError err \<Longrightarrow> coerceToFailoverError P provider err = Some err"
  by (simp add: coerceToFailoverError_def)

text \<open>The reason of an error is the reason it is coerced with.\<close>

lemma coerced_reason:
  assumes "coerceToFailoverError P provider err = Some f"
  shows "de_reason (describeFailoverError P f) = de_reason (describeFailoverError P err)"
proof (cases "isFailoverError err")
  case False
  then obtain reason where "resolveFailoverReasonFromError P err = Some reason" "f = new_FailoverError (signal_text err) reason provider
      (orElse (fs_status (normalizeErrorSignal err)) (resolveFailoverStatus reason)) (fs_code (normalizeErrorSignal err)) (if is_error err then err else no_field)"
    using assms by (auto simp: coerceToFailoverError_def Let_def split: option.splits if_splits)
  then show ?thesis using False by (simp add: describeFailoverError_def new_FailoverError_def Let_def)
qed (use assms in simp)

end
