(* ===== verification/ModelFallback.thy ===== *)
theory ModelFallback
  imports AuthOrder ModelRef FailoverErrors "HOL-Library.Sublist"
begin

text \<open>
  Falling back to other models: \<open>src/src/agents/model-fallback.ts\<close>.  The candidates, the requested model and then the
  configured fallbacks, are tried in their order; a provider whose credentials are all in cooldown is skipped or probed.  A
  run of a candidate is what the caller's function answers; \<open>Date.now()\<close> is read once per candidate.  The theorems say which
  candidates are run, that a usable one is reached, how often a provider is probed, and where the names of fallbacks
  are not resolved as the name of the primary is.
\<close>

section \<open>Candidates\<close>

text \<open>What is outside: the registry of providers, the plugins' ids of models, the patterns of errors.\<close>

record fallback_env =
  fe_providers :: provider_env
  fe_plugin :: id_plugin
  fe_patterns :: error_patterns

definition candidate_key :: "model_ref \<Rightarrow> jsstr" where
  "candidate_key c = modelKey (mr_provider c) (mr_model c)"

definition addCandidate :: "jsstr list option \<Rightarrow> bool \<Rightarrow> model_ref list \<Rightarrow> model_ref \<Rightarrow> model_ref list" where
  "addCandidate allowlist enforceAllowlist candidates c =
    (if mr_provider c = [] \<or> mr_model c = [] then candidates
     else if candidate_key c \<in> set (map candidate_key candidates) then candidates
     else if enforceAllowlist \<and> (case allowlist of Some keys \<Rightarrow> candidate_key c \<notin> set keys | None \<Rightarrow> False) then candidates
     else candidates @ [c])"

definition or_else_str :: "jsstr option \<Rightarrow> jsstr \<Rightarrow> jsstr" where
  "or_else_str v d = (case v of Some s \<Rightarrow> s | None \<Rightarrow> d)"

definition empty_config :: model_config where
  "empty_config = \<lparr> cm_model = None, cm_imageModel = None, cm_models = None, cm_providers = None \<rparr>"

definition resolveImageFallbackCandidates :: "id_plugin \<Rightarrow> model_config option \<Rightarrow> jsstr \<Rightarrow> jsstr option \<Rightarrow> model_ref list" where
  "resolveImageFallbackCandidates plug cfg defaultProvider modelOverride =
    (let aliasIndex = buildModelAliasIndex plug (case cfg of Some c \<Rightarrow> c | None \<Rightarrow> empty_config) defaultProvider;
         imageModel = Option.bind cfg cm_imageModel;
         raws = (case modelOverride of
             Some m \<Rightarrow> if trim m \<noteq> [] then [m] else (case resolveAgentModelPrimaryValue imageModel of Some q \<Rightarrow> [q] | None \<Rightarrow> [])
           | None \<Rightarrow> (case resolveAgentModelPrimaryValue imageModel of Some q \<Rightarrow> [q] | None \<Rightarrow> []))
           @ resolveAgentModelFallbackValues imageModel;
         allowlist = buildConfiguredAllowlistKeys plug cfg defaultProvider
     in foldl (addCandidate allowlist False) []
          (map fst (List.map_filter (\<lambda>raw. resolveModelRefFromString plug None raw defaultProvider (Some aliasIndex)) raws)))"

text \<open>The fallbacks as they are configured, or none if another provider was asked for that is not in the chain.\<close>

definition configured_fallbacks :: "id_plugin \<Rightarrow> model_config option \<Rightarrow> jsstr \<Rightarrow> alias_index \<Rightarrow> model_ref \<Rightarrow> model_ref \<Rightarrow> jsstr list" where
  "configured_fallbacks plug cfg defaultProvider aliasIndex requested configuredPrimary =
    (let configured = resolveAgentModelFallbackValues (Option.bind cfg cm_model) in
     if mr_provider requested \<noteq> mr_provider configuredPrimary
        \<and> \<not> list_ex (\<lambda>raw. map_option fst (resolveModelRefFromString plug None raw defaultProvider (Some aliasIndex)) = Some requested) configured
     then [] else configured)"

definition resolveFallbackCandidates :: "id_plugin \<Rightarrow> model_config option \<Rightarrow> jsstr \<Rightarrow> jsstr \<Rightarrow> jsstr list option \<Rightarrow> model_ref list" where
  "resolveFallbackCandidates plug cfg provider model fallbacksOverride =
    (let primary = map_option (\<lambda>c. resolveConfiguredModelRef plug c DEFAULT_PROVIDER DEFAULT_MODEL) cfg;
         defaultProvider = (case primary of Some r \<Rightarrow> mr_provider r | None \<Rightarrow> DEFAULT_PROVIDER);
         defaultModel = (case primary of Some r \<Rightarrow> mr_model r | None \<Rightarrow> DEFAULT_MODEL);
         requested = normalizeModelRef plug (or_else_str (normalizeOptionalString (Some provider)) defaultProvider)
           (or_else_str (normalizeOptionalString (Some model)) defaultModel);
         aliasIndex = buildModelAliasIndex plug (case cfg of Some c \<Rightarrow> c | None \<Rightarrow> empty_config) defaultProvider;
         allowlist = buildConfiguredAllowlistKeys plug cfg defaultProvider;
         raws = (case fallbacksOverride of Some l \<Rightarrow> l
           | None \<Rightarrow> configured_fallbacks plug cfg defaultProvider aliasIndex requested (normalizeModelRef plug defaultProvider defaultModel));
         fallbacks = map fst (List.map_filter (\<lambda>raw. resolveModelRefFromString plug None raw defaultProvider (Some aliasIndex)) raws);
         added = foldl (addCandidate allowlist False) [] (requested # fallbacks)
     in case (fallbacksOverride, primary) of
          (None, Some r) \<Rightarrow> if mr_provider r \<noteq> [] \<and> mr_model r \<noteq> [] then addCandidate allowlist False added r else added
        | _ \<Rightarrow> added)"

section \<open>Probes\<close>

definition MIN_PROBE_INTERVAL_MS :: rat where "MIN_PROBE_INTERVAL_MS = 30000"
definition PROBE_MARGIN_MS :: rat where "PROBE_MARGIN_MS = 2 * 60 * 1000"
definition PROBE_STATE_TTL_MS :: rat where "PROBE_STATE_TTL_MS = 24 * 60 * 60 * 1000"
definition MAX_PROBE_KEYS :: nat where "MAX_PROBE_KEYS = 256"

type_synonym probe_state = "(jsstr, rat) jsmap"

definition resolveProbeThrottleKey :: "jsstr \<Rightarrow> jsstr option \<Rightarrow> jsstr" where
  "resolveProbeThrottleKey provider agentDir = (case normalizeOptionalString agentDir of
     Some scope \<Rightarrow> scope @ js ''::'' @ provider | None \<Rightarrow> provider)"

definition pruneProbeState :: "rat \<Rightarrow> probe_state \<Rightarrow> probe_state" where
  "pruneProbeState now probes = filter (\<lambda>(key, ts). \<not> (ts \<le> 0 \<or> PROBE_STATE_TTL_MS < now - ts)) probes"

text \<open>The key with the least time, the first of them.\<close>

fun oldest_probe :: "probe_state \<Rightarrow> (jsstr \<times> rat) option" where
  "oldest_probe [] = None"
| "oldest_probe ((key, ts) # rest) = (case oldest_probe rest of
     None \<Rightarrow> Some (key, ts)
   | Some (key', ts') \<Rightarrow> if ts' < ts then Some (key', ts') else Some (key, ts))"

lemma oldest_probe_in: "oldest_probe m = Some (k, t) \<Longrightarrow> (k, t) \<in> set m"
  by (induction m arbitrary: k t rule: oldest_probe.induct) (auto split: option.splits if_splits)

function enforceProbeStateCap :: "probe_state \<Rightarrow> probe_state" where
  "enforceProbeStateCap probes =
    (if length probes \<le> MAX_PROBE_KEYS then probes
     else (case oldest_probe probes of
        Some (key, ts) \<Rightarrow> if key = [] then probes else enforceProbeStateCap (mdel probes key)
      | None \<Rightarrow> probes))"
  by pat_completeness auto
termination
proof (relation "measure length")
  fix probes :: probe_state and x key ts
  assume "oldest_probe probes = Some x" "(key, ts) = x"
  then have "(key, ts) \<in> set probes" using oldest_probe_in by metis
  then show "(mdel probes key, probes) \<in> measure length"
    by (auto simp: mdel_def intro!: length_filter_less)
qed simp

definition isProbeThrottleOpen :: "rat \<Rightarrow> jsstr \<Rightarrow> probe_state \<Rightarrow> bool \<times> probe_state" where
  "isProbeThrottleOpen now throttleKey probes =
    (let pruned = pruneProbeState now probes; lastProbe = (case mget pruned throttleKey of Some t \<Rightarrow> t | None \<Rightarrow> 0) in
     (MIN_PROBE_INTERVAL_MS \<le> now - lastProbe, pruned))"

definition markProbeAttempt :: "rat \<Rightarrow> jsstr \<Rightarrow> probe_state \<Rightarrow> probe_state" where
  "markProbeAttempt now throttleKey probes = enforceProbeStateCap (mput (pruneProbeState now probes) throttleKey now)"

definition shouldProbePrimaryDuringCooldown ::
    "bool \<Rightarrow> bool \<Rightarrow> rat \<Rightarrow> jsstr \<Rightarrow> auth_store \<Rightarrow> jsstr list \<Rightarrow> jsstr \<Rightarrow> probe_state \<Rightarrow> bool \<times> probe_state" where
  "shouldProbePrimaryDuringCooldown isPrimary hasFallbackCandidates now throttleKey store profileIds model probes =
    (if \<not> isPrimary \<or> \<not> hasFallbackCandidates then (False, probes)
     else (case isProbeThrottleOpen now throttleKey probes of
        (False, pruned) \<Rightarrow> (False, pruned)
      | (True, pruned) \<Rightarrow>
          (case getSoonestCooldownExpiry store profileIds now (Some model) of
             None \<Rightarrow> (True, pruned)
           | Some soonest \<Rightarrow> (soonest - PROBE_MARGIN_MS \<le> now, pruned))))"

fun reason_str :: "failure_reason \<Rightarrow> jsstr" where
  "reason_str Auth = js ''auth''"
| "reason_str AuthPermanent = js ''auth_permanent''"
| "reason_str Format = js ''format''"
| "reason_str Overloaded = js ''overloaded''"
| "reason_str RateLimit = js ''rate_limit''"
| "reason_str Billing = js ''billing''"
| "reason_str Timeout = js ''timeout''"
| "reason_str ModelNotFound = js ''model_not_found''"
| "reason_str SessionExpired = js ''session_expired''"
| "reason_str Unknown = js ''unknown''"

datatype cooldown_decision = SkipCandidate jsstr jsstr | AttemptCandidate jsstr bool

definition resolveCooldownDecision ::
    "model_ref \<Rightarrow> bool \<Rightarrow> bool \<Rightarrow> bool \<Rightarrow> rat \<Rightarrow> jsstr \<Rightarrow> auth_store \<Rightarrow> jsstr list \<Rightarrow> probe_state \<Rightarrow> cooldown_decision \<times> probe_state" where
  "resolveCooldownDecision c isPrimary requestedModel hasFallbackCandidates now throttleKey store profileIds probes0 =
    (let (shouldProbe, probes) = shouldProbePrimaryDuringCooldown isPrimary hasFallbackCandidates now throttleKey store profileIds (mr_model c) probes0;
         inferred = (case resolveProfilesUnavailableReason store profileIds now of Some r \<Rightarrow> r | None \<Rightarrow> Unknown);
         reason = reason_str inferred;
         skipAll = SkipCandidate reason (js ''Provider '' @ mr_provider c @ js '' has '' @ reason @ js '' issue (skipping all models)'')
     in if inferred = Auth \<or> inferred = AuthPermanent then (skipAll, probes)
        else if inferred = Billing
        then (let (single, probes1) = (if isPrimary \<and> \<not> hasFallbackCandidates then isProbeThrottleOpen now throttleKey probes else (False, probes)) in
          if isPrimary \<and> (shouldProbe \<or> single) then (AttemptCandidate reason True, probes1) else (skipAll, probes1))
        else if (isPrimary \<and> (\<not> requestedModel \<or> shouldProbe)) \<or> (\<not> isPrimary \<and> shouldUseTransientCooldownProbeSlot (Some reason))
        then (AttemptCandidate reason (isPrimary \<and> shouldProbe), probes)
        else (SkipCandidate reason (js ''Provider '' @ mr_provider c @ js '' is in cooldown (all profiles unavailable)''), probes))"

section \<open>A run\<close>

record fallback_attempt =
  fa_provider :: jsstr
  fa_model :: jsstr
  fa_error :: jsstr
  fa_reason :: "jsstr option"
  fa_status :: "jsnum option"
  fa_code :: "jsstr option"

text \<open>The parameters: the configuration, what is asked for, the clock, and what the runs and the loaded stores answer.\<close>

record 'r fallback_params =
  fp_cfg :: "(model_config \<times> auth_config) option"
  fp_provider :: jsstr
  fp_model :: jsstr
  fp_agentDir :: "jsstr option"
  fp_fallbacksOverride :: "jsstr list option"
  fp_hasStore :: bool
  fp_clock :: "nat \<Rightarrow> rat"
  fp_run :: "nat \<Rightarrow> model_ref \<Rightarrow> bool \<Rightarrow> 'r + failure"
  fp_refreshed :: auth_store

text \<open>The variables of the loop, the times of the last probes, and the store.\<close>

record fallback_state =
  fb_attempts :: "fallback_attempt list"
  fb_lastError :: failure
  fb_probedProviders :: "jsstr list"
  fb_probes :: probe_state
  fb_store :: auth_store

datatype 'r fallback_end =
    FellBack 'r model_ref "fallback_attempt list"
  | FallbackThrew failure
  | FallbackSummary jsstr "fallback_attempt list" "rat option" "failure option"

text \<open>A candidate is skipped, or run: with leave to probe a cooldown, for a provider whose slot is then used.\<close>

datatype candidate_plan = SkipPlan fallback_attempt | RunPlan bool "jsstr option"

definition skip_attempt :: "model_ref \<Rightarrow> jsstr \<Rightarrow> jsstr \<Rightarrow> fallback_attempt" where
  "skip_attempt c error reason = \<lparr> fa_provider = mr_provider c, fa_model = mr_model c, fa_error = error, fa_reason = Some reason, fa_status = None, fa_code = None \<rparr>"

definition uses_store :: "'r fallback_params \<Rightarrow> bool" where
  "uses_store p \<longleftrightarrow> fp_cfg p \<noteq> None \<and> fp_hasStore p"

definition order_of :: "fallback_env \<Rightarrow> 'r fallback_params \<Rightarrow> nat \<Rightarrow> model_ref \<Rightarrow> auth_store \<Rightarrow> jsstr list \<times> auth_store" where
  "order_of env p i c store =
    resolveAuthProfileOrder (fe_providers env) (\<lambda>x. fp_clock p i) (fp_clock p i) (fp_clock p i) (map_option snd (fp_cfg p)) (mr_provider c) None store"

text \<open>All credentials of the provider are in cooldown for the model.\<close>

definition cooled_down :: "auth_store \<Rightarrow> jsstr list \<Rightarrow> rat \<Rightarrow> jsstr \<Rightarrow> bool" where
  "cooled_down store profileIds now model \<longleftrightarrow> profileIds \<noteq> [] \<and> \<not> list_ex (\<lambda>i. \<not> isProfileInCooldown store i now (Some model)) profileIds"

definition plan_candidate :: "fallback_env \<Rightarrow> 'r fallback_params \<Rightarrow> bool \<Rightarrow> nat \<Rightarrow> model_ref \<Rightarrow> fallback_state \<Rightarrow> candidate_plan \<times> fallback_state" where
  "plan_candidate env p hasFallbackCandidates i c st =
    (if \<not> uses_store p then (RunPlan False None, st)
     else (let (profileIds, store) = order_of env p i c (fb_store st); st1 = st\<lparr> fb_store := store \<rparr>; now = fp_clock p i in
       if \<not> cooled_down store profileIds now (mr_model c) then (RunPlan False None, st1)
       else (let key = resolveProbeThrottleKey (mr_provider c) (fp_agentDir p);
                 requestedModel = (fp_provider p = mr_provider c \<and> fp_model p = mr_model c);
                 (decision, probes) = resolveCooldownDecision c (i = 0) requestedModel hasFallbackCandidates now key store profileIds (fb_probes st1)
             in case decision of
                  SkipCandidate reason error \<Rightarrow> (SkipPlan (skip_attempt c error reason), st1\<lparr> fb_probes := probes \<rparr>)
                | AttemptCandidate reason markProbe \<Rightarrow>
                    (let st2 = st1\<lparr> fb_probes := (if markProbe then markProbeAttempt now key probes else probes) \<rparr>;
                         transient = shouldUseTransientCooldownProbeSlot (Some reason) in
                     if \<not> shouldAllowCooldownProbeForReason (Some reason) then (RunPlan False None, st2)
                     else if transient \<and> mr_provider c \<in> set (fb_probedProviders st2)
                     then (SkipPlan (skip_attempt c (js ''Provider '' @ mr_provider c @ js '' is in cooldown (probe already attempted this run)'') reason), st2)
                     else (RunPlan True (if transient then Some (mr_provider c) else None), st2)))))"

definition shouldRethrowAbort :: "error_patterns \<Rightarrow> failure \<Rightarrow> bool" where
  "shouldRethrowAbort P err \<longleftrightarrow> \<not> isFailoverError err \<and> readErrorName err = js ''AbortError'' \<and> \<not> isTimeoutError P err"

text \<open>A run that ends with a result, an error to go on from, or an error that is thrown on.\<close>

datatype 'r candidate_run = RunOk 'r | RunError failure | RunAborted failure

definition runFallbackCandidate :: "error_patterns \<Rightarrow> model_ref \<Rightarrow> 'r + failure \<Rightarrow> 'r candidate_run" where
  "runFallbackCandidate P c answer = (case answer of
     Inl r \<Rightarrow> RunOk r
   | Inr err \<Rightarrow> (case coerceToFailoverError P (mr_provider c) err of
       Some normalized \<Rightarrow> RunError normalized
     | None \<Rightarrow> if shouldRethrowAbort P err then RunAborted err else RunError err))"

definition recordFailedCandidateAttempt :: "error_patterns \<Rightarrow> model_ref \<Rightarrow> failure \<Rightarrow> fallback_attempt list \<Rightarrow> fallback_attempt list" where
  "recordFailedCandidateAttempt P c error attempts =
    (let d = describeFailoverError P error in
     attempts @ [\<lparr> fa_provider = mr_provider c, fa_model = mr_model c, fa_error = de_message d,
       fa_reason = Some (or_else_str (de_reason d) (js ''unknown'')), fa_status = de_status d, fa_code = de_code d \<rparr>])"

fun is_model_switch :: "failure \<Rightarrow> bool" where
  "is_model_switch (FObject i r e c) = (ei_class i = SwitchErrorClass)"
| "is_model_switch (FValue v) = False"

fun own_message :: "failure \<Rightarrow> jsstr" where
  "own_message (FObject i r e c) = (case ei_message i of VStr s \<Rightarrow> s | _ \<Rightarrow> [])"
| "own_message (FValue v) = []"

text \<open>After a failed run: the error is thrown, or remembered.\<close>

definition after_failure ::
    "error_patterns \<Rightarrow> bool \<Rightarrow> jsstr option \<Rightarrow> model_ref \<Rightarrow> failure \<Rightarrow> fallback_state \<Rightarrow> failure option \<times> fallback_state" where
  "after_failure P final transientProvider c err st0 =
    (let st = (case transientProvider of
           Some provider \<Rightarrow> if shouldPreserveTransientCooldownProbeSlot (de_reason (describeFailoverError P err)) then st0
             else st0\<lparr> fb_probedProviders := sadd (fb_probedProviders st0) provider \<rparr>
         | None \<Rightarrow> st0);
         normalized = (case coerceToFailoverError P (mr_provider c) err of Some f \<Rightarrow> f | None \<Rightarrow> err);
         remember = (\<lambda>latest error. st\<lparr> fb_lastError := latest, fb_attempts := recordFailedCandidateAttempt P c error (fb_attempts st) \<rparr>)
     in if ep_overflow P (formatErrorMessage P err) then (Some err, st)
        else if is_model_switch err
        then (let switched = new_FailoverError (own_message err) (js ''overloaded'') (mr_provider c) None None no_field in
          (None, remember switched switched))
        else if \<not> isFailoverError normalized \<and> final then (Some err, st)
        else (None, remember (if isFailoverError normalized then normalized else err) normalized))"

text \<open>The loop: its end, unless the candidates run out; the runs, each with its leave to probe; the variables at the end.\<close>

fun fallback_loop ::
    "fallback_env \<Rightarrow> 'r fallback_params \<Rightarrow> bool \<Rightarrow> nat \<Rightarrow> model_ref list \<Rightarrow> fallback_state
      \<Rightarrow> 'r fallback_end option \<times> (model_ref \<times> bool) list \<times> fallback_state" where
  "fallback_loop env p hasFallbackCandidates i [] st = (None, [], st)"
| "fallback_loop env p hasFallbackCandidates i (c # cs) st =
    (case plan_candidate env p hasFallbackCandidates i c st of
       (SkipPlan attempt, st1) \<Rightarrow> fallback_loop env p hasFallbackCandidates (Suc i) cs (st1\<lparr> fb_attempts := fb_attempts st1 @ [attempt] \<rparr>)
     | (RunPlan probing transientProvider, st1) \<Rightarrow>
        (case runFallbackCandidate (fe_patterns env) c (fp_run p i c probing) of
           RunOk r \<Rightarrow> (Some (FellBack r c (fb_attempts st1)), [(c, probing)], st1)
         | RunAborted err \<Rightarrow> (Some (FallbackThrew err), [(c, probing)], st1)
         | RunError err \<Rightarrow>
            (case after_failure (fe_patterns env) (cs = []) transientProvider c err st1 of
               (Some rethrown, st2) \<Rightarrow> (Some (FallbackThrew rethrown), [(c, probing)], st2)
             | (None, st2) \<Rightarrow>
                (let (finish, runs, st3) = fallback_loop env p hasFallbackCandidates (Suc i) cs st2 in (finish, (c, probing) # runs, st3)))))"

definition throwFallbackFailureSummary ::
    "(fallback_attempt \<Rightarrow> jsstr) \<Rightarrow> jsstr \<Rightarrow> nat \<Rightarrow> fallback_attempt list \<Rightarrow> failure \<Rightarrow> rat option \<Rightarrow> 'r fallback_end" where
  "throwFallbackFailureSummary formatAttempt label howMany attempts lastError soonest =
    (if length attempts \<le> 1 \<and> is_truthy lastError then FallbackThrew lastError
     else FallbackSummary (js ''All '' @ label @ js '' failed ('' @ nat_str (if attempts = [] then howMany else length attempts) @ js ''): ''
         @ (if attempts = [] then js ''unknown'' else join (js '' | '') (map formatAttempt attempts)))
       attempts soonest (if is_error lastError then Some lastError else None))"

definition attempt_text :: "fallback_attempt \<Rightarrow> jsstr" where
  "attempt_text a = fa_provider a @ js ''/'' @ fa_model a @ js '': '' @ fa_error a
     @ (case fa_reason a of Some r \<Rightarrow> if r = [] then [] else js '' ('' @ r @ js '')'' | None \<Rightarrow> [])"

definition resolveFallbackSoonestCooldownExpiry :: "fallback_env \<Rightarrow> 'r fallback_params \<Rightarrow> model_ref list \<Rightarrow> rat option" where
  "resolveFallbackSoonestCooldownExpiry env p candidates =
    (if \<not> uses_store p then None
     else snd (foldl (\<lambda>(store, soonest) c.
       let (ids, store1) = order_of env p (length candidates) c store;
           found = getSoonestCooldownExpiry store1 ids (fp_clock p (length candidates)) (Some (mr_model c))
       in (store1, case (found, soonest) of (Some f, Some s) \<Rightarrow> Some (if f < s then f else s) | (Some f, None) \<Rightarrow> Some f | (None, s) \<Rightarrow> s))
       (fp_refreshed p, None) candidates))"

definition runWithModelFallback ::
    "fallback_env \<Rightarrow> 'r fallback_params \<Rightarrow> probe_state \<Rightarrow> auth_store \<Rightarrow> 'r fallback_end \<times> (model_ref \<times> bool) list \<times> probe_state" where
  "runWithModelFallback env p probes store =
    (let candidates = resolveFallbackCandidates (fe_plugin env) (map_option fst (fp_cfg p)) (fp_provider p) (fp_model p) (fp_fallbacksOverride p);
         (finish, runs, st) = fallback_loop env p (1 < length candidates) 0 candidates
           \<lparr> fb_attempts = [], fb_lastError = no_field, fb_probedProviders = [], fb_probes = probes, fb_store = store \<rparr>
     in (case finish of
           Some e \<Rightarrow> e
         | None \<Rightarrow> throwFallbackFailureSummary attempt_text (js ''models'') (length candidates) (fb_attempts st) (fb_lastError st)
             (resolveFallbackSoonestCooldownExpiry env p candidates), runs, fb_probes st))"

section \<open>Image models\<close>

fun image_loop :: "error_patterns \<Rightarrow> (nat \<Rightarrow> model_ref \<Rightarrow> 'r + failure) \<Rightarrow> nat \<Rightarrow> model_ref list \<Rightarrow> fallback_attempt list \<Rightarrow> failure \<Rightarrow> nat \<Rightarrow> 'r fallback_end" where
  "image_loop P run i [] attempts lastError howMany =
    throwFallbackFailureSummary (\<lambda>a. fa_provider a @ js ''/'' @ fa_model a @ js '': '' @ fa_error a) (js ''image models'') howMany attempts lastError None"
| "image_loop P run i (c # cs) attempts lastError howMany = (case runFallbackCandidate P c (run i c) of
     RunOk r \<Rightarrow> FellBack r c attempts
   | RunAborted err \<Rightarrow> FallbackThrew err
   | RunError err \<Rightarrow> image_loop P run (Suc i) cs (attempts @ [\<lparr> fa_provider = mr_provider c, fa_model = mr_model c, fa_error = formatErrorMessage P err,
       fa_reason = None, fa_status = None, fa_code = None \<rparr>]) err howMany)"

text \<open>\<open>None\<close> is the error that no image model is configured.\<close>

definition runWithImageModelFallback ::
    "fallback_env \<Rightarrow> model_config option \<Rightarrow> jsstr option \<Rightarrow> (nat \<Rightarrow> model_ref \<Rightarrow> 'r + failure) \<Rightarrow> 'r fallback_end option" where
  "runWithImageModelFallback env cfg modelOverride run =
    (let candidates = resolveImageFallbackCandidates (fe_plugin env) cfg DEFAULT_PROVIDER modelOverride in
     if candidates = [] then None
     else Some (image_loop (fe_patterns env) run 0 candidates [] no_field (length candidates)))"

section \<open>Which candidates are run\<close>

definition attempted :: "fallback_attempt \<Rightarrow> model_ref" where
  "attempted a = \<lparr> mr_provider = fa_provider a, mr_model = fa_model a \<rparr>"

lemma attempted_skip [simp]: "attempted (skip_attempt c error reason) = c"
  by (simp add: attempted_def skip_attempt_def)

lemma attempted_record [simp]: "map attempted (recordFailedCandidateAttempt P c error attempts) = map attempted attempts @ [c]"
  by (simp add: recordFailedCandidateAttempt_def attempted_def Let_def)

lemma plan_attempts:
  "plan_candidate env p h i c st = (plan, st1) \<Longrightarrow> fb_attempts st1 = fb_attempts st \<and> (case plan of SkipPlan a \<Rightarrow> attempted a = c | _ \<Rightarrow> True)"
  unfolding plan_candidate_def by (auto simp: Let_def split: if_splits prod.splits cooldown_decision.splits)

lemma after_failure_attempts:
  "after_failure P final provider c err st = (None, st1) \<Longrightarrow> map attempted (fb_attempts st1) = map attempted (fb_attempts st) @ [c]"
  unfolding after_failure_def by (auto simp: Let_def split: if_splits option.splits)

text \<open>How the loop can end, from the candidate with number \<open>i\<close>, when \<open>before\<close> were tried.\<close>

definition loop_ends_well :: "'r fallback_params \<Rightarrow> model_ref list \<Rightarrow> model_ref list \<Rightarrow> 'r fallback_end option \<Rightarrow> (model_ref \<times> bool) list \<Rightarrow> fallback_state \<Rightarrow> bool" where
  "loop_ends_well p before cs finish runs st \<longleftrightarrow> subseq (map fst runs) cs \<and>
    (case finish of
       None \<Rightarrow> map attempted (fb_attempts st) = before @ cs
     | Some (FellBack r c attempts) \<Rightarrow> runs \<noteq> [] \<and> fst (last runs) = c \<and> fp_run p (length attempts) c (snd (last runs)) = Inl r
         \<and> prefix (map attempted attempts @ [c]) (before @ cs)
     | Some (FallbackThrew err) \<Rightarrow> True
     | Some (FallbackSummary message attempts soonest cause) \<Rightarrow> False)"

lemma run_ok_inl: "runFallbackCandidate P c answer = RunOk r \<longleftrightarrow> answer = Inl r"
  by (auto simp: runFallbackCandidate_def split: sum.splits option.splits if_splits)

lemma run_inl [simp]: "runFallbackCandidate P c (Inl r) = RunOk r"
  by (simp add: runFallbackCandidate_def)

lemma ends_well_skip:
  "loop_ends_well p (before @ [c]) cs finish runs st \<Longrightarrow> loop_ends_well p before (c # cs) finish runs st"
  by (auto simp: loop_ends_well_def split: option.splits fallback_end.splits)

lemma ends_well_run:
  "loop_ends_well p (before @ [c]) cs finish runs st \<Longrightarrow> loop_ends_well p before (c # cs) finish ((c, probing) # runs) st"
  by (auto simp: loop_ends_well_def split: option.splits fallback_end.splits)

lemma loop_order:
  assumes "fallback_loop env p h (length before) cs st = (finish, runs, st1)" and "map attempted (fb_attempts st) = before"
  shows "loop_ends_well p before cs finish runs st1"
  using assms
proof (induction cs arbitrary: before st finish runs st1)
  case Nil
  then show ?case by (simp add: loop_ends_well_def)
next
  case (Cons c cs)
  obtain plan st2 where plan: "plan_candidate env p h (length before) c st = (plan, st2)" by (metis surj_pair)
  have at: "map attempted (fb_attempts st2) = before" using plan_attempts [OF plan] Cons.prems(2) by simp
  then have len: "length (fb_attempts st2) = length before" by (metis length_map)
  show ?case
  proof (cases plan)
    case (SkipPlan a)
    have "fallback_loop env p h (length (before @ [c])) cs (st2\<lparr> fb_attempts := fb_attempts st2 @ [a] \<rparr>) = (finish, runs, st1)"
      using Cons.prems(1) plan SkipPlan by simp
    moreover have "map attempted (fb_attempts (st2\<lparr> fb_attempts := fb_attempts st2 @ [a] \<rparr>)) = before @ [c]"
      using at plan_attempts [OF plan] SkipPlan by simp
    ultimately have "loop_ends_well p (before @ [c]) cs finish runs st1" by (rule Cons.IH)
    then show ?thesis by (rule ends_well_skip)
  next
    case (RunPlan probing provider)
    show ?thesis
    proof (cases "runFallbackCandidate (fe_patterns env) c (fp_run p (length before) c probing)")
      case (RunOk r)
      then have "finish = Some (FellBack r c (fb_attempts st2))" "runs = [(c, probing)]" "fp_run p (length before) c probing = Inl r"
        using Cons.prems(1) plan RunPlan by (auto simp: run_ok_inl)
      then show ?thesis using at len by (simp add: loop_ends_well_def)
    next
      case (RunAborted err)
      then show ?thesis using Cons.prems(1) plan RunPlan by (auto simp: loop_ends_well_def)
    next
      case (RunError err)
      obtain rethrown st3 where after: "after_failure (fe_patterns env) (cs = []) provider c err st2 = (rethrown, st3)" by (metis surj_pair)
      show ?thesis
      proof (cases rethrown)
        case (Some e)
        then show ?thesis using Cons.prems(1) plan RunPlan RunError after by (auto simp: loop_ends_well_def)
      next
        case None
        obtain finish' runs' st4 where rest: "fallback_loop env p h (Suc (length before)) cs st3 = (finish', runs', st4)" by (metis prod_cases3)
        have same: "finish = finish'" "runs = (c, probing) # runs'" "st1 = st4"
          using Cons.prems(1) plan RunPlan RunError after None rest by simp_all
        have "loop_ends_well p (before @ [c]) cs finish' runs' st4"
          by (rule Cons.IH) (use rest after_failure_attempts [OF after [unfolded None]] at in simp_all)
        then show ?thesis unfolding same by (rule ends_well_run)
      qed
    qed
  qed
qed

lemma add_distinct: "distinct (map candidate_key cs) \<Longrightarrow> distinct (map candidate_key (addCandidate allowlist b cs c))"
  by (simp add: addCandidate_def)

lemma fold_add_distinct: "distinct (map candidate_key cs) \<Longrightarrow> distinct (map candidate_key (foldl (addCandidate allowlist b) cs ds))"
  by (induction ds arbitrary: cs) (simp_all add: add_distinct del: map_map)

lemma fallback_candidates_distinct: "distinct (resolveFallbackCandidates plug cfg provider model override)"
proof -
  have "distinct (map candidate_key (resolveFallbackCandidates plug cfg provider model override))"
    unfolding resolveFallbackCandidates_def Let_def
    by (auto split: option.splits intro!: add_distinct fold_add_distinct simp del: foldl_Cons)
  then show ?thesis by (simp add: distinct_map)
qed

text \<open>C38: The candidates are tried in their order, none twice.  When a model answers, the attempts name just the candidates before
  it, each once and in order, and the result is its answer to the last run; when all fail, the summary names all of them;
  an error of a single run is thrown as it is.\<close>

theorem fallback_in_order:
  "let candidates = resolveFallbackCandidates (fe_plugin env) (map_option fst (fp_cfg p)) (fp_provider p) (fp_model p) (fp_fallbacksOverride p);
       (finish, runs, probes') = runWithModelFallback env p probes store
   in distinct candidates \<and> subseq (map fst runs) candidates \<and>
     (case finish of
        FellBack r c attempts \<Rightarrow> runs \<noteq> [] \<and> fst (last runs) = c \<and> fp_run p (length attempts) c (snd (last runs)) = Inl r
          \<and> prefix (map attempted attempts @ [c]) candidates
      | FallbackThrew err \<Rightarrow> True
      | FallbackSummary message attempts soonest cause \<Rightarrow> map attempted attempts = candidates)"
proof -
  let ?candidates = "resolveFallbackCandidates (fe_plugin env) (map_option fst (fp_cfg p)) (fp_provider p) (fp_model p) (fp_fallbacksOverride p)"
  let ?st = "\<lparr> fb_attempts = [], fb_lastError = no_field, fb_probedProviders = [], fb_probes = probes, fb_store = store \<rparr>"
  obtain finish runs st where loop: "fallback_loop env p (1 < length ?candidates) 0 ?candidates ?st = (finish, runs, st)" by (metis prod_cases3)
  have ends: "loop_ends_well p [] ?candidates finish runs st"
    using loop_order [of env p "1 < length ?candidates" "[]" ?candidates ?st] loop by simp
  show ?thesis
  proof (cases finish)
    case None
    then show ?thesis using loop ends
      by (auto simp: runWithModelFallback_def loop_ends_well_def throwFallbackFailureSummary_def Let_def fallback_candidates_distinct split: fallback_end.split)
  next
    case (Some e)
    then show ?thesis using loop ends
      by (cases e) (simp_all add: runWithModelFallback_def loop_ends_well_def Let_def fallback_candidates_distinct)
  qed
qed

section \<open>A usable model is reached\<close>

lemma bypass_cleared:
  "\<not> isActiveUnusableWindow (us_disabledUntil s) now \<Longrightarrow> isActiveUnusableWindow (us_cooldownUntil (clear_expired_stats t s)) now \<Longrightarrow>
    shouldBypassModelScopedCooldown (clear_expired_stats t s) now m = shouldBypassModelScopedCooldown s now m"
  by (auto simp: shouldBypassModelScopedCooldown_def clear_fields isActiveUnusableWindow_def)

text \<open>Clearing at any time puts no profile into cooldown.\<close>

lemma cleared_stats_cooldown: "stats_in_cooldown (clear_expired_stats t s) now m \<Longrightarrow> stats_in_cooldown s now m"
  by (auto simp: in_cooldown_iff clear_fields shouldBypassModelScopedCooldown_def isActiveUnusableWindow_def split: if_splits)

lemma map_of_cleared: "map_of (map (\<lambda>(i, s). (i, f s)) m) k = map_option f (map_of m k)"
  by (induction m) auto

lemma cleared_cooldown:
  assumes "isProfileInCooldown (fst (clearExpiredCooldowns store t)) i now m"
  shows "isProfileInCooldown store i now m"
proof (cases "as_usageStats store")
  case (Some u)
  then show ?thesis using assms
    by (auto simp: isProfileInCooldown_def clearExpiredCooldowns_def profile_provider_def stats_of_def mget_def map_of_cleared
        split: option.splits if_splits dest: cleared_stats_cooldown)
qed (use assms in \<open>simp add: clearExpiredCooldowns_def\<close>)

lemma cleared_fields [simp]:
  "as_profiles (fst (clearExpiredCooldowns store t)) = as_profiles store" "as_order (fst (clearExpiredCooldowns store t)) = as_order store"
  by (auto simp: clearExpiredCooldowns_def split: option.split)

lemma cleared_candidates:
  "candidate_profiles env cfg (fst (clearExpiredCooldowns store t)) provider now = candidate_profiles env cfg store provider now"
  by (simp add: candidate_profiles_def base_order_def explicit_order_def listProfilesForProvider_def resolveAuthProfileEligibility_def Let_def cong: option.case_cong)

lemma order_members:
  "resolveAuthProfileOrder env clock now sortNow cfg provider None store = (ids, store1) \<Longrightarrow>
    set ids = set (candidate_profiles env cfg store provider now) \<and> store1 = fst (clearExpiredCooldowns store now)"
  using cleared_candidates [of env cfg store now provider now]
  by (auto simp: resolveAuthProfileOrder_def Let_def orderExplicit_def orderProfilesByMode_def preferred_first_def split: if_splits)

text \<open>A candidate whose provider has no profiles, or one that is not in cooldown for the model.\<close>

definition usable :: "fallback_env \<Rightarrow> 'r fallback_params \<Rightarrow> nat \<Rightarrow> model_ref \<Rightarrow> auth_store \<Rightarrow> bool" where
  "usable env p i c store \<longleftrightarrow> \<not> uses_store p \<or>
    (let ids = candidate_profiles (fe_providers env) (map_option snd (fp_cfg p)) store (mr_provider c) (fp_clock p i) in
     ids = [] \<or> list_ex (\<lambda>x. \<not> isProfileInCooldown store x (fp_clock p i) (Some (mr_model c))) ids)"

lemma usable_cleared: "usable env p i c store \<Longrightarrow> usable env p i c (fst (clearExpiredCooldowns store t))"
  using cleared_cooldown [of store t _ "fp_clock p i" "Some (mr_model c)"] unfolding usable_def cleared_candidates Let_def list_ex_iff by blast

lemma plan_store:
  "plan_candidate env p h i c st = (plan, st1) \<Longrightarrow> \<exists>t. fb_store st1 = fb_store st \<or> fb_store st1 = fst (clearExpiredCooldowns (fb_store st) t)"
  unfolding plan_candidate_def
  by (auto simp: Let_def order_of_def split: if_splits prod.splits cooldown_decision.splits dest!: order_members)

lemma usable_planned: "plan_candidate env p h i d st = (plan, st1) \<Longrightarrow> usable env p k c (fb_store st) \<Longrightarrow> usable env p k c (fb_store st1)"
  using plan_store usable_cleared by metis

lemma usable_plan:
  assumes "usable env p i c (fb_store st)"
  shows "\<exists>st1. plan_candidate env p h i c st = (RunPlan False None, st1)"
proof (cases "uses_store p")
  case True
  obtain ids store1 where o: "order_of env p i c (fb_store st) = (ids, store1)" by (metis surj_pair)
  have m: "set ids = set (candidate_profiles (fe_providers env) (map_option snd (fp_cfg p)) (fb_store st) (mr_provider c) (fp_clock p i))"
    "store1 = fst (clearExpiredCooldowns (fb_store st) (fp_clock p i))"
    using order_members [OF o [unfolded order_of_def]] by auto
  have "\<not> cooled_down store1 ids (fp_clock p i) (mr_model c)"
    using assms True m cleared_cooldown [of "fb_store st" "fp_clock p i" _ "fp_clock p i" "Some (mr_model c)"]
    by (auto simp: usable_def cooled_down_def Let_def list_ex_iff)
  then show ?thesis using True o by (simp add: plan_candidate_def)
qed (simp add: plan_candidate_def)

text \<open>An answer after which the loop goes on, if there is a next candidate.\<close>

definition recoverable :: "error_patterns \<Rightarrow> model_ref \<Rightarrow> 'r + failure \<Rightarrow> bool" where
  "recoverable P c answer \<longleftrightarrow> (case runFallbackCandidate P c answer of
     RunOk r \<Rightarrow> True | RunError err \<Rightarrow> \<not> ep_overflow P (formatErrorMessage P err) | RunAborted err \<Rightarrow> False)"

lemma recoverable_goes_on:
  assumes "recoverable P c answer" and "runFallbackCandidate P c answer = RunError err"
  shows "\<exists>st1. after_failure P False provider c err st = (None, st1) \<and> fb_store st1 = fb_store st"
  using assms by (auto simp: recoverable_def after_failure_def Let_def split: option.split)

lemma loop_reaches:
  assumes "\<forall>j < length before. recoverable (fe_patterns env) (before ! j) (fp_run p (i + j) (before ! j) True)
      \<and> recoverable (fe_patterns env) (before ! j) (fp_run p (i + j) (before ! j) False)"
    and "usable env p (i + length before) c (fb_store st)" and "fp_run p (i + length before) c False = Inl r"
  shows "\<exists>r' c' attempts. fst (fallback_loop env p h i (before @ c # later) st) = Some (FellBack r' c' attempts) \<and> c' \<in> set (before @ [c])"
  using assms
proof (induction before arbitrary: i st)
  case Nil
  then obtain st1 where "plan_candidate env p h i c st = (RunPlan False None, st1)" using usable_plan by fastforce
  then show ?case using Nil by simp
next
  case (Cons d before)
  obtain plan st1 where plan: "plan_candidate env p h i d st = (plan, st1)" by (metis surj_pair)
  have u: "usable env p (Suc i + length before) c (fb_store st1)" using usable_planned [OF plan] Cons.prems(2) by simp
  have rest: "\<exists>r' c' attempts. fst (fallback_loop env p h (Suc i) (before @ c # later) st2) = Some (FellBack r' c' attempts) \<and> c' \<in> set (before @ [c])"
    if "fb_store st2 = fb_store st1" for st2
    using Cons.prems(1,3) u that by (intro Cons.IH) auto
  show ?case
  proof (cases plan)
    case (SkipPlan a)
    then show ?thesis using plan rest [of "st1\<lparr> fb_attempts := fb_attempts st1 @ [a] \<rparr>"] by auto
  next
    case (RunPlan probing provider)
    have rec: "recoverable (fe_patterns env) d (fp_run p i d probing)" using Cons.prems(1) by (cases probing) auto
    show ?thesis
    proof (cases "runFallbackCandidate (fe_patterns env) d (fp_run p i d probing)")
      case (RunOk r)
      then show ?thesis using plan RunPlan by simp
    next
      case (RunAborted err)
      then show ?thesis using rec by (simp add: recoverable_def)
    next
      case (RunError err)
      obtain st2 where st2: "after_failure (fe_patterns env) False provider d err st1 = (None, st2)" "fb_store st2 = fb_store st1"
        using recoverable_goes_on [OF rec RunError] by blast
      then show ?thesis using plan RunPlan RunError rest [OF st2(2)] by (auto simp: split_def Let_def)
    qed
  qed
qed

text \<open>C37: A usable model is reached.  If a candidate answers, its provider has a profile that is not in cooldown or none at all, and
  every candidate before it, when it is run, answers or fails with an error that is neither an abort nor an overflow of the
  context, then the run ends with an answer, of that candidate or of one before it, whatever the cooldowns of the others.\<close>

theorem fallback_reaches_usable:
  assumes "resolveFallbackCandidates (fe_plugin env) (map_option fst (fp_cfg p)) (fp_provider p) (fp_model p) (fp_fallbacksOverride p) = before @ c # later"
    and "list_all (\<lambda>j. recoverable (fe_patterns env) (before ! j) (fp_run p j (before ! j) True)
        \<and> recoverable (fe_patterns env) (before ! j) (fp_run p j (before ! j) False)) [0..<length before]"
    and "usable env p (length before) c store" and "fp_run p (length before) c False = Inl r"
  shows "case fst (runWithModelFallback env p probes store) of FellBack r' c' attempts \<Rightarrow> c' \<in> set (before @ [c]) | _ \<Rightarrow> False"
proof -
  let ?st = "\<lparr> fb_attempts = [], fb_lastError = no_field, fb_probedProviders = [], fb_probes = probes, fb_store = store \<rparr>"
  obtain r' c' attempts where "fst (fallback_loop env p (1 < length (before @ c # later)) 0 (before @ c # later) ?st) = Some (FellBack r' c' attempts)"
      "c' \<in> set (before @ [c])"
    using loop_reaches [of before env p 0 c ?st r "1 < length (before @ c # later)" later] assms(2-4) by (auto simp: list_all_iff)
  then show ?thesis unfolding runWithModelFallback_def assms(1) Let_def by (auto simp: split_def)
qed

definition plain_patterns :: error_patterns where
  "plain_patterns = \<lparr> ep_classify = (\<lambda>signal. if fs_status signal = Some (Fin 429) then Some (ReasonClass (js ''rate_limit'')) else None),
     ep_timeout = (\<lambda>s. False), ep_overflow = (\<lambda>s. False), ep_redact = (\<lambda>s. s), ep_json = (\<lambda>e. []) \<rparr>"

definition plain_fallback :: fallback_env where
  "plain_fallback = \<lparr> fe_providers = plain_env, fe_plugin = no_plugin, fe_patterns = plain_patterns \<rparr>"

definition too_many_requests :: failure where
  "too_many_requests = FObject \<lparr> ei_class = PlainError, ei_name = VStr (js ''Error''), ei_message = VStr (js ''slow down''), ei_status = VNum (Fin 429),
     ei_statusCode = VUndef, ei_code = VUndef, ei_provider = VUndef \<rparr> no_field no_field no_field"

definition two_models :: "nat fallback_params" where
  "two_models = \<lparr> fp_cfg = None, fp_provider = js ''a'', fp_model = js ''m'', fp_agentDir = None, fp_fallbacksOverride = Some [js ''b/n''], fp_hasStore = False,
     fp_clock = (\<lambda>i. 1000), fp_run = (\<lambda>i c probing. if i = 0 then Inr too_many_requests else Inl 7), fp_refreshed = aw_store one_profile \<rparr>"

lemma two_models_candidates:
  "resolveFallbackCandidates (fe_plugin plain_fallback) (map_option fst (fp_cfg two_models)) (fp_provider two_models) (fp_model two_models)
     (fp_fallbacksOverride two_models) = [\<lparr> mr_provider = js ''a'', mr_model = js ''m'' \<rparr>] @ \<lparr> mr_provider = js ''b'', mr_model = js ''n'' \<rparr> # []"
  by code_simp

lemma fallback_reaches_usable_witness:
  "case fst (runWithModelFallback plain_fallback two_models [] (aw_store one_profile)) of
     FellBack r c attempts \<Rightarrow> c \<in> set ([\<lparr> mr_provider = js ''a'', mr_model = js ''m'' \<rparr>] @ [\<lparr> mr_provider = js ''b'', mr_model = js ''n'' \<rparr>]) | _ \<Rightarrow> False"
proof (rule fallback_reaches_usable [OF two_models_candidates])
  have "recoverable plain_patterns \<lparr> mr_provider = js ''a'', mr_model = js ''m'' \<rparr> (Inr too_many_requests :: nat + failure)" by code_simp
  then show "list_all (\<lambda>j. recoverable (fe_patterns plain_fallback) ([\<lparr> mr_provider = js ''a'', mr_model = js ''m'' \<rparr>] ! j)
        (fp_run two_models j ([\<lparr> mr_provider = js ''a'', mr_model = js ''m'' \<rparr>] ! j) True)
      \<and> recoverable (fe_patterns plain_fallback) ([\<lparr> mr_provider = js ''a'', mr_model = js ''m'' \<rparr>] ! j)
        (fp_run two_models j ([\<lparr> mr_provider = js ''a'', mr_model = js ''m'' \<rparr>] ! j) False)) [0..<length [\<lparr> mr_provider = js ''a'', mr_model = js ''m'' \<rparr>]]"
    by (simp add: plain_fallback_def two_models_def)
qed (simp_all add: usable_def uses_store_def two_models_def)

section \<open>Probes are rare\<close>

text \<open>Times of probes: one for a key, no empty key, at most so many.\<close>

definition probe_keys_ok :: "probe_state \<Rightarrow> bool" where
  "probe_keys_ok m \<longleftrightarrow> distinct (mkeys m) \<and> [] \<notin> set (mkeys m)"

definition probe_ok :: "probe_state \<Rightarrow> bool" where
  "probe_ok m \<longleftrightarrow> probe_keys_ok m \<and> length m \<le> MAX_PROBE_KEYS"

definition last_probe :: "probe_state \<Rightarrow> jsstr \<Rightarrow> rat" where
  "last_probe m k = (case mget m k of Some t \<Rightarrow> t | None \<Rightarrow> 0)"

lemma mget_sub: "distinct (mkeys m) \<Longrightarrow> mget (filter Q m) k = Some t \<Longrightarrow> mget m k = Some t"
  by (metis (mono_tags, lifting) filter_is_subset in_mono in_set_mget mget_in_set)

lemma keys_ok_filter: "probe_keys_ok m \<Longrightarrow> probe_keys_ok (filter Q m)"
  by (auto simp: probe_keys_ok_def distinct_map_filter)

lemma prune_ok: "probe_ok m \<Longrightarrow> probe_ok (pruneProbeState now m)"
  unfolding probe_ok_def pruneProbeState_def using keys_ok_filter length_filter_le order_trans by blast

lemma prune_sub: "probe_ok m \<Longrightarrow> mget (pruneProbeState now m) k = Some t \<Longrightarrow> mget m k = Some t"
  unfolding pruneProbeState_def probe_ok_def probe_keys_ok_def by (rule mget_sub) auto

text \<open>A probe that the pruned times allow is late enough for the times before the pruning.\<close>

lemma prune_open:
  assumes "probe_ok m" and "MIN_PROBE_INTERVAL_MS \<le> now - last_probe (pruneProbeState now m) k"
  shows "MIN_PROBE_INTERVAL_MS \<le> now - last_probe m k"
proof (cases "mget m k")
  case (Some t)
  show ?thesis
  proof (cases "t \<le> 0 \<or> PROBE_STATE_TTL_MS < now - t")
    case True
    have "mget (pruneProbeState now m) k = None"
    proof (rule ccontr)
      assume "mget (pruneProbeState now m) k \<noteq> None"
      then have "mget (pruneProbeState now m) k = Some t" using prune_sub [OF assms(1), of now k] Some by auto
      then show False using True by (auto simp: pruneProbeState_def dest!: mget_in_set)
    qed
    then show ?thesis using assms(2) True Some by (auto simp: last_probe_def MIN_PROBE_INTERVAL_MS_def PROBE_STATE_TTL_MS_def)
  next
    case False
    have "mget (pruneProbeState now m) k = Some t"
      using assms(1) Some False by (intro in_set_mget) (auto simp: pruneProbeState_def probe_ok_def probe_keys_ok_def distinct_map_filter dest: mget_in_set)
    then show ?thesis using assms(2) Some by (simp add: last_probe_def)
  qed
qed (use assms in \<open>auto simp: last_probe_def split: option.splits dest: prune_sub\<close>)

declare enforceProbeStateCap.simps [simp del]

lemma oldest_probe_some: "m \<noteq> [] \<Longrightarrow> \<exists>k t. oldest_probe m = Some (k, t)"
  by (cases m) (auto split: option.splits)

lemma capped: "probe_keys_ok m \<Longrightarrow> probe_ok (enforceProbeStateCap m) \<and> (\<forall>k t. mget (enforceProbeStateCap m) k = Some t \<longrightarrow> mget m k = Some t)"
proof (induction m rule: enforceProbeStateCap.induct)
  case (1 m)
  show ?case
  proof (cases "length m \<le> MAX_PROBE_KEYS")
    case False
    then obtain k0 t0 where o: "oldest_probe m = Some (k0, t0)" using oldest_probe_some [of m] by force
    then have ne: "k0 \<noteq> []" using 1(2) oldest_probe_in [OF o] by (force simp: probe_keys_ok_def)
    have del: "probe_keys_ok (mdel m k0)" using keys_ok_filter [OF 1(2)] by (simp add: mdel_def)
    have sub: "mget (mdel m k0) k = Some t \<Longrightarrow> mget m k = Some t" for k t by (auto split: if_splits)
    have "enforceProbeStateCap m = enforceProbeStateCap (mdel m k0)" using False o ne by (subst enforceProbeStateCap.simps) simp
    then show ?thesis using 1(1) [OF False o refl ne del] sub by metis
  next
    case True
    then have "enforceProbeStateCap m = m" by (subst enforceProbeStateCap.simps) simp
    then show ?thesis using 1(2) True by (simp add: probe_ok_def)
  qed
qed

lemma marked:
  assumes "probe_ok m" and "k \<noteq> []"
  shows "probe_ok (markProbeAttempt now k m) \<and> (\<forall>j t. mget (markProbeAttempt now k m) j = Some t \<longrightarrow> (j = k \<and> t = now) \<or> mget m j = Some t)"
proof -
  have "probe_keys_ok (mput (pruneProbeState now m) k now)"
    using prune_ok [OF assms(1), of now] assms(2) by (simp add: probe_ok_def probe_keys_ok_def del: set_map)
  then have "probe_ok (markProbeAttempt now k m)" "mget (markProbeAttempt now k m) j = Some t \<longrightarrow> mget (mput (pruneProbeState now m) k now) j = Some t" for j t
    using capped [of "mput (pruneProbeState now m) k now"] by (auto simp: markProbeAttempt_def)
  moreover have "(if j = k then Some now else mget (pruneProbeState now m) j) = Some t \<Longrightarrow> (j = k \<and> t = now) \<or> mget m j = Some t" for j t
    using prune_sub [OF assms(1), of now j t] by (cases "j = k") auto
  ultimately show ?thesis by simp
qed

text \<open>The times after a step from those before: a time that is new is that of a probe that was due.\<close>

definition rarely_probed :: "rat \<Rightarrow> probe_state \<Rightarrow> probe_state \<Rightarrow> bool" where
  "rarely_probed now m m' \<longleftrightarrow> probe_ok m' \<and>
    (\<forall>k t. mget m' k = Some t \<longrightarrow> mget m k = Some t \<or> (t = now \<and> MIN_PROBE_INTERVAL_MS \<le> now - last_probe m k))"

lemma throttle_pruned: "isProbeThrottleOpen now k m = (MIN_PROBE_INTERVAL_MS \<le> now - last_probe (pruneProbeState now m) k, pruneProbeState now m)"
  by (simp add: isProbeThrottleOpen_def last_probe_def Let_def)

lemma throttle_steps:
  assumes "probe_ok m" and "isProbeThrottleOpen now k m = (b, m')"
  shows "probe_ok m' \<and> (\<forall>j t. mget m' j = Some t \<longrightarrow> mget m j = Some t) \<and> (b \<longrightarrow> MIN_PROBE_INTERVAL_MS \<le> now - last_probe m k)"
  using assms prune_ok prune_sub prune_open unfolding throttle_pruned by (metis prod.inject)

lemma should_probe_steps:
  assumes "probe_ok m" and "shouldProbePrimaryDuringCooldown isPrimary h now k store ids model m = (b, m')"
  shows "probe_ok m' \<and> (\<forall>j t. mget m' j = Some t \<longrightarrow> mget m j = Some t) \<and> (b \<longrightarrow> MIN_PROBE_INTERVAL_MS \<le> now - last_probe m k)
    \<and> (\<not> isPrimary \<longrightarrow> m' = m \<and> \<not> b) \<and> (\<not> h \<longrightarrow> m' = m \<and> \<not> b)"
proof (cases "isPrimary \<and> h")
  case True
  obtain due pruned where t: "isProbeThrottleOpen now k m = (due, pruned)" by (metis surj_pair)
  have "m' = pruned \<and> (b \<longrightarrow> due)"
    using assms(2) True t by (auto simp: shouldProbePrimaryDuringCooldown_def split: bool.splits option.splits)
  then show ?thesis using throttle_steps [OF assms(1) t] True by auto
qed (use assms in \<open>auto simp: shouldProbePrimaryDuringCooldown_def\<close>)

lemma decision_steps:
  assumes "probe_ok m" and "resolveCooldownDecision c isPrimary requested h now k store ids m = (d, m')"
  shows "probe_ok m' \<and> (\<forall>j t. mget m' j = Some t \<longrightarrow> mget m j = Some t) \<and> (\<not> isPrimary \<longrightarrow> m' = m)
    \<and> (case d of AttemptCandidate reason True \<Rightarrow> isPrimary \<and> MIN_PROBE_INTERVAL_MS \<le> now - last_probe m k | _ \<Rightarrow> True)"
proof -
  obtain b m1 where s: "shouldProbePrimaryDuringCooldown isPrimary h now k store ids (mr_model c) m = (b, m1)" by (metis surj_pair)
  note steps = should_probe_steps [OF assms(1) s]
  obtain due m2 where t: "isProbeThrottleOpen now k m1 = (due, m2)" by (metis surj_pair)
  have branches: "(m' = m1 \<or> (m' = m2 \<and> isPrimary \<and> \<not> h)) \<and> (\<forall>reason. d = AttemptCandidate reason True \<longrightarrow> isPrimary \<and> (b \<or> (due \<and> \<not> h)))"
    using assms(2) unfolding resolveCooldownDecision_def s t Let_def prod.case by (auto simp del: reason_str.simps split: if_splits)
  have "\<not> h \<longrightarrow> m1 = m" using steps by blast
  then have "d = AttemptCandidate reason True \<Longrightarrow> isPrimary \<and> MIN_PROBE_INTERVAL_MS \<le> now - last_probe m k" for reason
    using branches steps throttle_steps [OF conjunct1 [OF steps] t] by blast
  moreover have "probe_ok m' \<and> (\<forall>j t. mget m' j = Some t \<longrightarrow> mget m j = Some t) \<and> (\<not> isPrimary \<longrightarrow> m' = m)"
    using branches steps throttle_steps [OF conjunct1 [OF steps] t] by metis
  ultimately show ?thesis by (auto split: cooldown_decision.split bool.split)
qed

lemma plan_probes:
  assumes "probe_ok (fb_probes st)" and "mr_provider c \<noteq> []" and "plan_candidate env p h i c st = (plan, st1)"
  shows "if i = 0 then rarely_probed (fp_clock p 0) (fb_probes st) (fb_probes st1) else fb_probes st1 = fb_probes st"
proof -
  obtain ids store where o: "order_of env p i c (fb_store st) = (ids, store)" by (metis surj_pair)
  define key where "key = resolveProbeThrottleKey (mr_provider c) (fp_agentDir p)"
  have key: "key \<noteq> []" using assms(2) by (auto simp: key_def resolveProbeThrottleKey_def js_def split: option.split)
  obtain d m where d: "resolveCooldownDecision c (i = 0) (fp_provider p = mr_provider c \<and> fp_model p = mr_model c) h (fp_clock p i) key store ids (fb_probes st) = (d, m)"
    by (metis surj_pair)
  note steps = decision_steps [OF assms(1) d]
  have same: "rarely_probed (fp_clock p 0) (fb_probes st) (fb_probes st)" using assms(1) by (simp add: rarely_probed_def)
  have pruned: "rarely_probed (fp_clock p 0) (fb_probes st) m" using steps by (simp add: rarely_probed_def)
  consider "fb_probes st1 = fb_probes st" | "fb_probes st1 = m" | reason where "d = AttemptCandidate reason True" "fb_probes st1 = markProbeAttempt (fp_clock p i) key m"
    using assms(3) o d unfolding plan_candidate_def key_def [symmetric]
    by (auto simp: Let_def key_def [symmetric] split: if_splits cooldown_decision.splits)
  then show ?thesis
  proof cases
    case 1
    then show ?thesis using same by simp
  next
    case 2
    then show ?thesis using pruned steps by simp
  next
    case 3
    have "rarely_probed (fp_clock p i) (fb_probes st) (fb_probes st1)"
      using marked [of m key "fp_clock p i"] steps key 3 unfolding rarely_probed_def by auto
    then show ?thesis using steps 3 by auto
  qed
qed

lemma after_failure_probes: "after_failure P final provider c err st = (e, st1) \<Longrightarrow> fb_probes st1 = fb_probes st"
  unfolding after_failure_def by (auto simp: Let_def split: if_splits option.splits)

lemma loop_probes:
  assumes "probe_ok (fb_probes st)" and "list_all (\<lambda>c. mr_provider c \<noteq> []) cs"
    and "fallback_loop env p h i cs st = (finish, runs, st1)"
  shows "if i = 0 then rarely_probed (fp_clock p 0) (fb_probes st) (fb_probes st1) else fb_probes st1 = fb_probes st"
  using assms
proof (induction cs arbitrary: i st finish runs st1)
  case Nil
  then show ?case by (simp add: rarely_probed_def)
next
  case (Cons c cs)
  obtain plan st2 where plan: "plan_candidate env p h i c st = (plan, st2)" by (metis surj_pair)
  have here: "if i = 0 then rarely_probed (fp_clock p 0) (fb_probes st) (fb_probes st2) else fb_probes st2 = fb_probes st"
    using plan_probes [OF Cons.prems(1) _ plan] Cons.prems(2) by simp
  then have ok: "probe_ok (fb_probes st2)" using Cons.prems(1) by (auto simp: rarely_probed_def split: if_splits)
  have rest: "fb_probes st1 = fb_probes st2" if "fallback_loop env p h (Suc i) cs st3 = (f, r, st1)" "fb_probes st3 = fb_probes st2" for st3 f r
    using Cons.IH [OF _ _ that(1)] ok that(2) Cons.prems(2) by simp
  have "fb_probes st1 = fb_probes st2"
  proof (cases plan)
    case (SkipPlan a)
    then show ?thesis using Cons.prems(3) plan by (auto intro: rest)
  next
    case (RunPlan probing provider)
    show ?thesis
    proof (cases "runFallbackCandidate (fe_patterns env) c (fp_run p i c probing)")
      case (RunError err)
      obtain e st3 where after: "after_failure (fe_patterns env) (cs = []) provider c err st2 = (e, st3)" by (metis surj_pair)
      obtain f r st4 where loop: "fallback_loop env p h (Suc i) cs st3 = (f, r, st4)" by (metis prod_cases3)
      show ?thesis
        using Cons.prems(3) plan RunPlan RunError after loop after_failure_probes [OF after] rest [of st3 f r] by (cases e) simp_all
    qed (use Cons.prems(3) plan RunPlan in auto)
  qed
  then show ?case using here by simp
qed

lemma candidate_providers: "list_all (\<lambda>c. mr_provider c \<noteq> []) (resolveFallbackCandidates plug cfg provider model override)"
proof -
  have add: "list_all (\<lambda>c. mr_provider c \<noteq> []) (addCandidate allowlist b cs c)" if "list_all (\<lambda>c. mr_provider c \<noteq> []) cs" for allowlist b cs c
    using that by (auto simp: addCandidate_def)
  have "list_all (\<lambda>c. mr_provider c \<noteq> []) (foldl (addCandidate allowlist b) cs ds)" if "list_all (\<lambda>c. mr_provider c \<noteq> []) cs" for allowlist b cs ds
    using that by (induction ds arbitrary: cs) (simp_all add: add)
  then show ?thesis unfolding resolveFallbackCandidates_def Let_def
    by (auto split: option.splits intro!: add simp del: foldl_Cons)
qed

text \<open>C39: Providers in cooldown are probed rarely: after a run the table of probe times is still one time for each key and at most 256
  of them, and every time in it was there before or is the time of this run, at least half a minute after the time that
  was there for the same key.\<close>

theorem probes_throttled:
  assumes "probe_ok probes"
  shows "rarely_probed (fp_clock p 0) probes (snd (snd (runWithModelFallback env p probes store)))"
proof -
  let ?candidates = "resolveFallbackCandidates (fe_plugin env) (map_option fst (fp_cfg p)) (fp_provider p) (fp_model p) (fp_fallbacksOverride p)"
  let ?st = "\<lparr> fb_attempts = [], fb_lastError = no_field, fb_probedProviders = [], fb_probes = probes, fb_store = store \<rparr>"
  obtain finish runs st where loop: "fallback_loop env p (1 < length ?candidates) 0 ?candidates ?st = (finish, runs, st)" by (metis prod_cases3)
  show ?thesis using loop_probes [OF _ candidate_providers loop] assms loop by (simp add: runWithModelFallback_def Let_def)
qed

lemma probes_throttled_witness:
  "rarely_probed 1000 [(js ''a'', 500)] (snd (snd (runWithModelFallback plain_fallback two_models [(js ''a'', 500)] (aw_store one_profile))))"
  using probes_throttled [of "[(js ''a'', 500)]" two_models plain_fallback "aw_store one_profile"]
  by (simp add: probe_ok_def probe_keys_ok_def MAX_PROBE_KEYS_def js_def two_models_def)

section \<open>A request that is not in normal form\<close>

definition skipped :: "candidate_plan \<Rightarrow> bool" where
  "skipped plan \<longleftrightarrow> (case plan of SkipPlan a \<Rightarrow> True | RunPlan probing slot \<Rightarrow> False)"

text \<open>Why the profiles are unavailable, and the reasons for which the provider is given up altogether.\<close>

definition cooldown_reason :: "auth_store \<Rightarrow> jsstr list \<Rightarrow> rat \<Rightarrow> failure_reason" where
  "cooldown_reason store ids now = (case resolveProfilesUnavailableReason store ids now of Some r \<Rightarrow> r | None \<Rightarrow> Unknown)"

definition gives_up :: "failure_reason \<Rightarrow> bool" where
  "gives_up r \<longleftrightarrow> r = Auth \<or> r = AuthPermanent \<or> r = Billing"

text \<open>The decision for a primary whose throttle is closed.\<close>

lemma throttled_decision:
  assumes "now - last_probe (pruneProbeState now probes) key < MIN_PROBE_INTERVAL_MS"
  shows "\<exists>e probes1. resolveCooldownDecision c True requested h now key store ids probes =
    (if gives_up (cooldown_reason store ids now) \<or> requested then SkipCandidate (reason_str (cooldown_reason store ids now)) e
     else AttemptCandidate (reason_str (cooldown_reason store ids now)) False, probes1)"
proof -
  have shut: "\<exists>probes1. isProbeThrottleOpen now key probes = (False, probes1)" using assms by (simp add: throttle_pruned)
  moreover have "\<exists>probes1. shouldProbePrimaryDuringCooldown True h now key store ids (mr_model c) probes = (False, probes1)"
    using assms by (simp add: shouldProbePrimaryDuringCooldown_def throttle_pruned)
  then obtain probes1 where p: "shouldProbePrimaryDuringCooldown True h now key store ids (mr_model c) probes = (False, probes1)" by blast
  have shut1: "\<exists>probes2. isProbeThrottleOpen now key probes1 = (False, probes2)" if "\<not> h"
    using p that shut by (simp add: shouldProbePrimaryDuringCooldown_def)
  let ?r = "cooldown_reason store ids now"
  have r: "(case resolveProfilesUnavailableReason store ids now of Some r \<Rightarrow> r | None \<Rightarrow> Unknown) = ?r" by (simp add: cooldown_reason_def)
  show ?thesis
    using shut1 unfolding resolveCooldownDecision_def p r gives_up_def Let_def split_conv
    by (cases h; cases ?r; cases requested) (auto simp del: reason_str.simps)
qed

text \<open>C40: A primary model in cooldown is left alone only when it was asked for in normal form.  With its last probe less than half a
  minute ago and asked for by its normal names, it is skipped.  If the names that were asked for differ from the normal
  ones, such as an alias of the provider, then for every reason of the cooldown other than billing and authorization it is run at every
  request, because the comparison that means the requested model sees two models (for a transient reason unless the provider was probed
  already in the same run).  For billing and authorization it is skipped under either name.  All this holds with fallbacks and without.\<close>

theorem unnormalized_request_ignores_cooldown:
  assumes "uses_store p" and "order_of env p 0 c (fb_store st) = (ids, store)" and "cooled_down store ids (fp_clock p 0) (mr_model c)"
    and "mr_provider c \<notin> set (fb_probedProviders st)"
    and "fp_clock p 0 - last_probe (pruneProbeState (fp_clock p 0) (fb_probes st)) (resolveProbeThrottleKey (mr_provider c) (fp_agentDir p)) < MIN_PROBE_INTERVAL_MS"
    and "fp_provider p \<noteq> mr_provider c \<or> fp_model p \<noteq> mr_model c"
  shows "skipped (fst (plan_candidate env (p\<lparr> fp_provider := mr_provider c, fp_model := mr_model c \<rparr>) h 0 c st))
    \<and> (skipped (fst (plan_candidate env p h 0 c st)) \<longleftrightarrow> gives_up (cooldown_reason store ids (fp_clock p 0)))"
proof -
  let ?key = "resolveProbeThrottleKey (mr_provider c) (fp_agentDir p)" and ?now = "fp_clock p 0" and ?r = "cooldown_reason store ids (fp_clock p 0)"
  have same: "uses_store (p\<lparr> fp_provider := a, fp_model := b \<rparr>) = uses_store p" "order_of env (p\<lparr> fp_provider := a, fp_model := b \<rparr>) = order_of env p" for a b
    by (simp_all add: uses_store_def order_of_def fun_eq_iff)
  obtain e1 p1 where normal: "resolveCooldownDecision c True True h ?now ?key store ids (fb_probes st) = (SkipCandidate (reason_str ?r) e1, p1)"
    using throttled_decision [OF assms(5), of c True h store ids] by auto
  obtain e2 p2 where other: "resolveCooldownDecision c True False h ?now ?key store ids (fb_probes st) =
      (if gives_up ?r then SkipCandidate (reason_str ?r) e2 else AttemptCandidate (reason_str ?r) False, p2)"
    using throttled_decision [OF assms(5), of c False h store ids] by auto
  have requested: "(fp_provider p = mr_provider c \<and> fp_model p = mr_model c) = False" using assms(6) by blast
  have "skipped (fst (plan_candidate env (p\<lparr> fp_provider := mr_provider c, fp_model := mr_model c \<rparr>) h 0 c st))"
    using assms(1-3) normal unfolding plan_candidate_def same by (simp add: Let_def skipped_def)
  moreover have "skipped (fst (plan_candidate env p h 0 c st)) \<longleftrightarrow> gives_up ?r"
    using assms(1-4) other unfolding plan_candidate_def Let_def requested by (cases "gives_up ?r") (simp_all add: skipped_def)
  ultimately show ?thesis by simp
qed

definition cooled_store :: auth_store where
  "cooled_store = \<lparr> as_profiles = [(js ''k'', \<lparr> cr_type = ApiKeyType, cr_provider = js ''zai'', cr_key = Some (js ''s''), cr_keyRef = False, cr_token = None,
       cr_tokenRef = False, cr_access = None, cr_refresh = None, cr_expires = None \<rparr>)], as_order = None, as_lastGood = None,
     as_usageStats = Some [(js ''k'', no_stats\<lparr> us_cooldownUntil := Some (Fin 400000), us_cooldownReason := Some RateLimit, us_failureCounts := Some [(RateLimit, 1)] \<rparr>)] \<rparr>"

definition aliased_request :: "nat fallback_params" where
  "aliased_request = \<lparr> fp_cfg = Some (empty_config, \<lparr> ac_profiles = None, ac_order = None, ac_plugins = None \<rparr>), fp_provider = js ''z.ai'', fp_model = js ''m'',
     fp_agentDir = None, fp_fallbacksOverride = Some [js ''b/n''], fp_hasStore = True, fp_clock = (\<lambda>i. 20000), fp_run = (\<lambda>i c probing. Inl 7),
     fp_refreshed = cooled_store \<rparr>"

definition primary_in_cooldown :: model_ref where
  "primary_in_cooldown = \<lparr> mr_provider = js ''zai'', mr_model = js ''m'' \<rparr>"

definition probed_before :: fallback_state where
  "probed_before = \<lparr> fb_attempts = [], fb_lastError = no_field, fb_probedProviders = [], fb_probes = [(js ''zai'', 10000)], fb_store = cooled_store \<rparr>"

lemma aliased_order: "order_of plain_fallback aliased_request 0 primary_in_cooldown (fb_store probed_before) = ([js ''k''], cooled_store)"
  by code_simp

lemma unnormalized_request_ignores_cooldown_witness:
  "skipped (fst (plan_candidate plain_fallback (aliased_request\<lparr> fp_provider := js ''zai'', fp_model := js ''m'' \<rparr>) True 0 primary_in_cooldown probed_before))
    \<and> \<not> skipped (fst (plan_candidate plain_fallback aliased_request True 0 primary_in_cooldown probed_before))"
proof -
  have "uses_store aliased_request" by (simp add: uses_store_def aliased_request_def)
  moreover have "cooled_down cooled_store [js ''k''] (fp_clock aliased_request 0) (mr_model primary_in_cooldown)" by code_simp
  moreover have "\<not> gives_up (cooldown_reason cooled_store [js ''k''] (fp_clock aliased_request 0))" by code_simp
  moreover have "mr_provider primary_in_cooldown \<notin> set (fb_probedProviders probed_before)" by (simp add: probed_before_def)
  moreover have "fp_clock aliased_request 0 - last_probe (pruneProbeState (fp_clock aliased_request 0) (fb_probes probed_before))
      (resolveProbeThrottleKey (mr_provider primary_in_cooldown) (fp_agentDir aliased_request)) < MIN_PROBE_INTERVAL_MS" by code_simp
  moreover have "fp_provider aliased_request \<noteq> mr_provider primary_in_cooldown \<or> fp_model aliased_request \<noteq> mr_model primary_in_cooldown"
    by (simp add: aliased_request_def primary_in_cooldown_def js_def)
  ultimately show ?thesis
    using unnormalized_request_ignores_cooldown [OF _ aliased_order, of True] by (simp add: primary_in_cooldown_def)
qed

section \<open>A name that only the primary understands\<close>

definition free_name :: jsstr where
  "free_name = js ''openrouter:free''"

lemma free_name_facts:
  "trim free_name = free_name" "slash \<notin> set free_name" "normalizeLowercaseStringOrEmpty (Some free_name) = free_name" "free_name \<noteq> []"
  "splitTrailingAuthProfile free_name = (free_name, None)" "free_name \<noteq> js ''openrouter:auto''"
  by code_simp+

text \<open>The name \<open>openrouter:free\<close> stands for the free model that is configured, but only as the primary.  Fallbacks are resolved
  without the configuration, so there the same name is taken for the id of a model of the default provider.\<close>

theorem free_name_only_for_primary:
  assumes "resolveConfiguredOpenRouterCompatFreeRef plug cfg d = Some r" and "resolveAgentModelPrimaryValue (cm_model cfg) = Some free_name"
    and "mget (ai_byAlias (buildModelAliasIndex plug cfg d)) free_name = None"
  shows "resolveConfiguredModelRef plug cfg d m = r
    \<and> resolveModelRefFromString plug None free_name d (Some (buildModelAliasIndex plug cfg d)) = Some (normalizeModelRef plug d free_name, None)"
proof -
  have "resolveConfiguredOpenRouterCompatAlias plug (Some cfg) free_name d = Some r"
    using assms(1) free_name_facts(3,6) by (simp add: resolveConfiguredOpenRouterCompatAlias_def) (simp add: free_name_def)
  then have "resolveConfiguredModelRef plug cfg d m = r"
    using assms(2) free_name_facts(1,2) by (simp add: resolveConfiguredModelRef_def Let_def)
  moreover have "resolveConfiguredOpenRouterCompatAlias plug None free_name d = None"
    using free_name_facts(3,6) by (simp add: resolveConfiguredOpenRouterCompatAlias_def)
  then have "parseModelRefWithCompatAlias plug None free_name d = Some (normalizeModelRef plug d free_name)"
    using free_name_facts by (simp add: parseModelRefWithCompatAlias_def orElse_def parseModelRef_def)
  then have "resolveModelRefFromString plug None free_name d (Some (buildModelAliasIndex plug cfg d)) = Some (normalizeModelRef plug d free_name, None)"
    using assms(3) free_name_facts by (simp add: resolveModelRefFromString_def Let_def)
  ultimately show ?thesis by simp
qed

definition free_config :: model_config where
  "free_config = empty_config\<lparr> cm_model := Some (ModelName free_name), cm_models := Some [(js ''openrouter/x/y:free'', None)] \<rparr>"

lemma free_name_only_for_primary_witness:
  "resolveConfiguredModelRef no_plugin free_config DEFAULT_PROVIDER DEFAULT_MODEL = \<lparr> mr_provider = js ''openrouter'', mr_model = js ''x/y:free'' \<rparr>
    \<and> resolveModelRefFromString no_plugin None free_name DEFAULT_PROVIDER (Some (buildModelAliasIndex no_plugin free_config DEFAULT_PROVIDER))
      = Some (normalizeModelRef no_plugin DEFAULT_PROVIDER free_name, None)"
  by (rule free_name_only_for_primary; code_simp)

end
