(* ===== verification/Spec2Isabelle.thy ===== *)
theory Spec2Isabelle
  imports ServiceShutdown ReplyLoop MemoryStore FollowupDelivery AuthRateLimit QueueDirective RouteResolve SessionOverride ToolGuard ModelFallback
begin

text \<open>
  \<^bold>\<open>LittleBaby: a verification library.\<close>

  LittleBaby is an assistant that answers chat messages with a language model.  The repository holds a
  standalone service for Feishu, \<open>src/src/feishu-service.ts\<close>, which is its production entry, and a large multi-channel
  gateway around it.  This library models the service nearly completely and those parts of the gateway
  that keep state or decide something of their own: queues, caches, addresses, limits, routes.

  \<^bold>\<open>The service and its theories.\<close>  A Feishu event reaches \<open>handleMessage\<close>, which drops duplicates and what the rules
  exclude, stores the rest, and pushes it into the aggregator; a buffer that is flushed becomes one request for
  \<open>processAggregatedMessage\<close>, which asks a classifier, a small-talk model or the main model, and sends the reply in
  chunks.
  \<^item> \<open>JsValue\<close>, \<open>Json\<close>: values of unknown type, the readers \<open>readString\<close> ... \<open>readBoolean\<close>, \<open>JSON.parse\<close> and
    \<open>JSON.stringify\<close> with their round trip.
  \<^item> \<open>FeishuEvent\<close>: the event, its validation, its text, its sender, its session key, admission to groups.
  \<^item> \<open>TextRules\<close>: \<open>chunkReply\<close>, truncation, the prompt of context documents, redaction, options.
  \<^item> \<open>Aggregator\<close>: \<open>MessageAggregator\<close>; the state is \<open>buffers\<close>, \<open>timers\<close> (with their deadlines), \<open>windowStarts\<close>.
  \<^item> \<open>Sessions\<close>: \<open>SessionManager\<close>; a context is a mutable object, so the map goes to references into a heap.
  \<^item> \<open>ServiceState\<close>: the module variables, duplicates, histories and the two state files.
  \<^item> \<open>Service\<close>: the running service as a state machine.  One step is one synchronous segment between two awaits: \<open>svc_step\<close>
    takes what the outside answered (an \<open>event\<close>) and gives the new state, whose \<open>sv_out\<close> lists what was asked of the
    outside.  Handlers and pipelines wait at a program counter; any answer may come in any order.
  \<^item> \<open>ServiceInv\<close>, \<open>ServiceLog\<close>, \<open>ServiceProps\<close>, \<open>ServiceShutdown\<close>: the invariants of its reachable states and what
    follows: no message is handled twice at once, every session belongs to a pipeline that will clear it, the chunks sent
    are a prefix of the split reply, the counter of requests is exact, what is lost at a shutdown.
  \<^item> \<open>McpHub\<close>, \<open>ReplyLoop\<close>, \<open>ServiceConfig\<close>, \<open>MemoryStore\<close>: tools and their retries, the model calls and the loop over
    tool calls, configuration and paths, the database statements of \<open>MysqlMemoryStore\<close>.

  \<^bold>\<open>The gateway's parts.\<close>
  \<^item> \<open>CommandQueue\<close> (\<open>src/src/process/command-queue.ts\<close>): lanes with a bounded concurrency, generations, drains, waiters.
  \<^item> \<open>DedupeCache\<close> (\<open>src/src/infra/dedupe.ts\<close>, \<open>map-size.ts\<close>): refines the list of all checks.
  \<^item> \<open>QueueHelpers\<close>, \<open>FollowupQueue\<close>, \<open>FollowupDelivery\<close>, \<open>QueueDirective\<close> (\<open>src/src/utils/queue-helpers.ts\<close>,
    \<open>src/src/auto-reply/reply/queue/\<close>): the queues of messages that arrive while a run is active, the drains that hand
    them over, the settings and the inline directive.  Without overflow, clearing and rewriting nothing is lost or handed over twice; the sender of
    every message in a call is authorized like the call, except that a summary of dropped messages, or a call for it, runs under
    the authorization of the last run.
  \<^item> \<open>IpAddress\<close>, \<open>ClientAddress\<close>, \<open>AuthRateLimit\<close> (\<open>src/src/shared/net/ip.ts\<close>, \<open>src/src/gateway/net.ts\<close>,
    \<open>src/src/gateway/auth-rate-limit.ts\<close>): addresses, the client address behind proxies, the limiter of failed logins.
  \<^item> \<open>StringCoerce\<close> (the coercions of \<open>src/src/shared/string-coerce.ts\<close> that modelled code uses), \<open>SessionKey\<close>
    (\<open>src/src/routing/account-id.ts\<close>, \<open>src/src/routing/session-key.ts\<close>, \<open>src/src/sessions/session-key-utils.ts\<close>): ids of
    accounts and agents, keys of sessions and how they are read back.
  \<^item> \<open>RouteBindings\<close>, \<open>RouteResolve\<close> (\<open>src/src/routing/resolve-route.ts\<close>, \<open>binding-scope.ts\<close>, \<open>peer-kind-match.ts\<close>): which
    agent answers a peer; the index of the bindings finds what a search through the tiers finds, the caches change no answer.
  \<^item> \<open>AuthUsage\<close> (\<open>src/src/agents/auth-profiles/usage.ts\<close>): cooldowns of credentials after failures and their statistics.  A failed
    profile is in cooldown, unless the usage probe of a Codex profile gives a window without length.
    \<open>AuthProfiles\<close> (\<open>profiles.ts\<close>, the merge in \<open>persisted.ts\<close>, \<open>src/src/agents/provider-auth-aliases.ts\<close>): the stored credentials, those an
    agent inherits and those that providers share.  \<open>AuthOrder\<close> (\<open>order.ts\<close>, \<open>credential-state.ts\<close>): the order in which they are tried;
    they take turns.  \<open>SessionOverride\<close> (\<open>session-override.ts\<close>): the credential a session holds on to.
  \<^item> \<open>ToolLoop\<close>, \<open>ToolGuard\<close> (\<open>src/src/agents/tool-loop-detection.ts\<close>, \<open>src/src/logging/diagnostic-session-state.ts\<close>,
    \<open>src/src/agents/pi-tools.before-tool-call.ts\<close>): the guard around every tool call, with the history of a session, the rules that find
    loops, the hooks of plugins and the approvals.  A call is blocked only with evidence, and one that gets nowhere is
    executed a bounded number of times, unless a hook changes its parameters or the calls of a session overlap:
    \<open>executeWrapped\<close> is a call that no other one of its session overlaps, \<open>guard_step\<close> takes the segments of overlapping calls in any order.
  \<^item> \<open>ModelRef\<close> (\<open>model-ref-shared.ts\<close>, \<open>model-ref-profile.ts\<close>, \<open>model-selection-normalize.ts\<close> and the resolving part of
    \<open>model-selection-shared.ts\<close> in \<open>src/src/agents/\<close>), \<open>FailoverErrors\<close> (\<open>failover-error.ts\<close>, \<open>failover-policy.ts\<close>),
    \<open>ModelFallback\<close> (\<open>model-fallback.ts\<close>): names of models, what errors mean, and the loop over the models that are tried.  It asks
    \<open>AuthOrder\<close> for the credentials of a provider and \<open>AuthUsage\<close> for their cooldowns; a usable model is reached, and cooldowns
    are probed rarely.

  \<^bold>\<open>Interfaces.\<close>  \<open>Prelude\<close> states the contracts that several components meet, each interpreted on the code's model:
  \<open>kv_store\<close> (a JavaScript \<open>Map\<close> as an association list in insertion order), \<open>invariant_system\<close> (the service machine),
  \<open>ordered_delivery\<close> (the aggregator) and the weaker \<open>guarded_delivery\<close> (the command queue, the follow-up queues),
  \<open>refinement\<close> (the dedupe cache, the login limiter, the caches of account ids, the route resolver) and \<open>memo_table\<close> (a cache
  in front of a function: ids of accounts, evaluated bindings, routes).

  \<^bold>\<open>Conventions.\<close>  A string is a list of UTF-16 units.  A number is an exact rational or one of the special values: literals
  and sums are not rounded to doubles.  Times are integers, or rationals where a stored time is any number.  An exception is a value of a sum or option type.  A loop that may
  run for ever returns an option (\<open>chunkReply\<close>) or takes part in a state machine.  Only the JSON parser has fuel, twice the
  length of its text plus one, and more fuel changes nothing (\<open>json_fuel_enough\<close>); every other function is total by its
  termination proof.  \<open>toLowerCase\<close> lowers the ASCII and Latin-1 letters and leaves the others.
  What is outside the repository is a parameter: the database's answers, the model's answers and the tools are arguments
  or events, \<open>ipaddr.js\<close> and \<open>net.isIP\<close> are the record \<open>ip_library\<close>, a parsed URL and the network interfaces are
  arguments.  \<open>quad_library\<close>, an instance for dotted addresses, is only used to evaluate examples.  The collation of \<open>localeCompare\<close> and
  the registry of plugins are the record \<open>provider_env\<close>; whether a secret is set is a boolean, the answer of the usage probe an
  argument; SHA-256 is a function that is not assumed to be injective; a hook, an approval and a tool are what they answer.
  An error of a model call is a tree of objects; the patterns that classify its message are the record \<open>error_patterns\<close>, an id
  that a plugin normalizes the function \<open>id_plugin\<close>.  \<open>Date.now()\<close> is read once in a stretch of code without an await.

  \<^bold>\<open>Not modelled.\<close>  In the service: the branch of \<open>handleMessage\<close> without an aggregator, dates formatted by \<open>Intl\<close>, the order
  of integer-like keys in objects, the JSON5 parser, the text of SQL statements, the Lark and MCP clients, the probe of the bot's
  identity.  In the queues: resets and the fast mode for tests, code of a task that runs before its first await, mutation of a run
  object shared between a queue and its callback.  In the routes: \<open>bindings.ts\<close>, \<open>bound-account-read.ts\<close>, \<open>account-lookup.ts\<close> and
  \<open>default-account-warnings.ts\<close>.  In the credentials: the files, locks and external stores behind \<open>store.ts\<close>, and \<open>oauth.ts\<close>.  In the
  tool guard: logging and \<open>command-poll-backoff.ts\<close>.  In the fallback: logging, the awaited callback \<open>onError\<close>, which is
  taken to return, the patterns of \<open>pi-embedded-helpers/errors.ts\<close>, and the
  catalogs of models.  Of the gateway everything else: the embedded agent runner, plugins, channels,
  the command line, schedules and the task registry, whose code is mostly glue around packages that are not in the repository.
\<close>

end
